(* ===== verification/Wallet_Prelude.thy ===== *)
theory Wallet_Prelude
  imports Main
begin

text \<open>
  Shared material of the development: the error values of the wallet code, the result type of
  operations that may throw, JavaScript's stable array sort, and the list lemmas the component
  theories share.

  A JavaScript function that may throw is a HOL function into \<open>'a res\<close>, with \<open>Inl e\<close> for a thrown
  error and \<open>Inr x\<close> for a returned value. The constructors of \<open>error\<close> stand for the
  \<open>new Error(...)\<close> expressions of the source, one per distinct message.
\<close>

section \<open>Errors and results\<close>

datatype address_error =
    UnsupportedNetwork     \<comment> \<open>Unsupported ConnectCoin network\<close>
  | BadAddress             \<comment> \<open>Invalid ConnectCoin address\<close>
  | ForeignAddress         \<comment> \<open>Address belongs to a different network or is not native P2PK\<close>
  | NotADomain             \<comment> \<open>Use a domain name, not a URL\<close>
  | InvalidDomainName      \<comment> \<open>Invalid domain name\<close>
  | BadExpectedConnections \<comment> \<open>Expected connections must be a positive integer string\<close>
  | ExpectedOutOfRange     \<comment> \<open>Expected connections is out of range\<close>

datatype payment_error =
    UnsupportedRootBundle \<comment> \<open>This wallet supports immutable root bundle version 1 only\<close>
  | BelowDust             \<comment> \<open>Recipient amount is below the relay dust threshold\<close>
  | BadFeeRate            \<comment> \<open>Fee rate must be 1,201-1,000,000 connects per vbyte\<close>
  | InvalidPaymentCounts  \<comment> \<open>Invalid payment input/output count\<close>
  | OneRecipientRequired  \<comment> \<open>Deduct fees from payment requires exactly one recipient\<close>
  | DuplicateFunding      \<comment> \<open>Duplicate funding output\<close>
  | PaymentTooHeavy       \<comment> \<open>Payment exceeds the standard transaction weight limit\<close>
  | BelowDustAfterFee     \<comment> \<open>Recipient amount after deducting the fee is below the relay dust threshold\<close>
  | InsufficientFunds     \<comment> \<open>Insufficient verified funds for this payment and its fee\<close>
  | FeeAboveLimit         \<comment> \<open>Transaction fee exceeds the wallet safety limit\<close>
  | SpentOutputsRequired  \<comment> \<open>All spent outputs are required for signing\<close>
  | PaymentTooLong        \<comment> \<open>Payment exceeds relay size limit\<close>
  | SizeEstimateDiffers   \<comment> \<open>Payment size differs from its fee estimate\<close>

datatype funding_error =
    FundingIdMismatch     \<comment> \<open>Funding transaction ID does not match its bytes\<close>
  | NoSuchFundingOutput   \<comment> \<open>Funding output does not exist\<close>
  | FundingAmountMismatch \<comment> \<open>RPC funding amount does not match the original transaction\<close>
  | FundingNotOwned       \<comment> \<open>Funding output is not owned by this wallet key\<close>
  | InvalidFundingBytes   \<comment> \<open>Invalid funding transaction bytes\<close>
  | FundingMemoryLimit    \<comment> \<open>Payment funding data exceeds the local memory limit; use fewer inputs\<close>
  | InvalidFundingId      \<comment> \<open>Invalid funding transaction ID\<close>
  | InvalidPaymentInputs  \<comment> \<open>Invalid payment input count\<close>
  | InvalidParentCount    \<comment> \<open>Invalid funding parent count\<close>
  | DuplicateParent       \<comment> \<open>Duplicate funding parent\<close>
  | ConflictingFunding    \<comment> \<open>Conflicting funding transaction bytes\<close>
  | MissingParent         \<comment> \<open>Missing funding parent\<close>
  | BadCacheBounds        \<comment> \<open>Invalid funding cache bounds\<close>

datatype claim_error =
    ClaimIndexRange      \<comment> \<open>Claim input index is out of range\<close>
  | BadProofSize         \<comment> \<open>Invalid claim proof size\<close>
  | UnsupportedBounty    \<comment> \<open>Not a supported P2C bounty\<close>
  | BountyFieldDiffers   \<comment> \<open>Bounty ... differs from the funding transaction\<close>
  | ClaimFeeLimit        \<comment> \<open>Claim fee exceeds the wallet limit or bounty value\<close>
  | RewardBelowDust      \<comment> \<open>Claim reward is below the dust threshold\<close>
  | InvalidProof         \<comment> \<open>Invalid P2C version-2 proof\<close>
  | BadHandshakeSequence \<comment> \<open>Invalid P2C handshake sequence\<close>
  | BadHandshakeLength   \<comment> \<open>Invalid P2C handshake length\<close>
  | ProofNotBound        \<comment> \<open>Proof is not bound to this claim\<close>
  | ProposalChanged      \<comment> \<open>Claim proposal was changed after preparing its challenge\<close>
  | WorkTargetMissed     \<comment> \<open>P2C proof does not meet the bounty work target\<close>

datatype error =
    AmountNotExact           \<comment> \<open>Amounts must be exact integer strings in connects\<close>
  | AmountOutOfRange         \<comment> \<open>Amount is outside the ConnectCoin money range\<close>
  | BadCoinAmount            \<comment> \<open>Enter a CONN amount with at most 10 decimal places\<close>
  | BadRequestAmount         \<comment> \<open>Enter a CONN amount using a decimal point and at most 10 decimal places\<close>
  | RequestAmountRange       \<comment> \<open>The requested amount must be greater than 0 and no more than 100000000 CONN\<close>
  | InvalidHex               \<comment> \<open>Invalid hexadecimal data / transaction ID / P2C work target\<close>
  | InvalidU32               \<comment> \<open>Invalid unsigned 32-bit integer\<close>
  | CompactSizeBounds        \<comment> \<open>CompactSize is outside local safety bounds\<close>
  | NoncanonicalCompactSize  \<comment> \<open>Noncanonical or oversized CompactSize\<close>
  | TruncatedTransaction     \<comment> \<open>Truncated transaction\<close>
  | BadPublicKey             \<comment> \<open>Expected a 32-byte x-only public key, or not a curve point\<close>
  | NoncanonicalDomain       \<comment> \<open>Noncanonical P2C domain\<close>
  | NonAsciiDomain           \<comment> \<open>Non-ASCII P2C domain\<close>
  | InvalidRootVersion       \<comment> \<open>Invalid P2C root bundle version\<close>
  | InvalidSignatureMask     \<comment> \<open>Invalid P2C signature mask\<close>
  | UnknownOutputType        \<comment> \<open>Unknown or invalid ConnectCoin output type\<close>
  | InvalidCounts            \<comment> \<open>Invalid transaction input/output count\<close>
  | InvalidInputCount        \<comment> \<open>Invalid transaction input count\<close>
  | InvalidOutputCount       \<comment> \<open>Invalid transaction output count\<close>
  | TotalOutOfRange          \<comment> \<open>Total transaction outputs exceed money range\<close>
  | DuplicateInput           \<comment> \<open>Duplicate transaction input\<close>
  | OversizedInput           \<comment> \<open>Oversized input script or witness stack\<close>
  | OversizedWitness         \<comment> \<open>Oversized witness element\<close>
  | TransactionTooLarge      \<comment> \<open>Transaction exceeds local size limit\<close>
  | UnknownWitnessFlag       \<comment> \<open>Unknown transaction witness flag\<close>
  | SuperfluousWitness       \<comment> \<open>Superfluous witness record\<close>
  | TrailingData             \<comment> \<open>Trailing transaction data\<close>
  | NoncanonicalTransaction  \<comment> \<open>Noncanonical transaction encoding\<close>
  | Addr address_error       \<comment> \<open>the errors of addresses, domains and work targets\<close>
  | Pay payment_error        \<comment> \<open>the errors of payments\<close>
  | Fund funding_error       \<comment> \<open>the errors of funding transactions\<close>
  | Claim claim_error        \<comment> \<open>the errors of claims\<close>
  | Failure string           \<comment> \<open>an error of code outside the repository\<close>

type_synonym 'a res = "error + 'a"

definition bindE :: "'e + 'a \<Rightarrow> ('a \<Rightarrow> 'e + 'b) \<Rightarrow> 'e + 'b" where
  "bindE m f = (case m of Inl e \<Rightarrow> Inl e | Inr x \<Rightarrow> f x)"

text \<open>\<open>guardE c e\<close> is \<open>if (!c) throw e\<close>.\<close>

definition guardE :: "bool \<Rightarrow> 'e \<Rightarrow> 'e + unit" where
  "guardE c e = (if c then Inr () else Inl e)"

lemma bindE_simps [simp]:
  "bindE (Inl e) f = Inl e"
  "bindE (Inr x) f = f x"
  by (simp_all add: bindE_def)

lemma bindE_eq_Inr [simp]: "bindE m f = Inr y \<longleftrightarrow> (\<exists>x. m = Inr x \<and> f x = Inr y)"
  by (cases m) (simp_all add: bindE_def)

lemma bindE_eq_Inl: "bindE m f = Inl e \<longleftrightarrow> m = Inl e \<or> (\<exists>x. m = Inr x \<and> f x = Inl e)"
  by (cases m) (simp_all add: bindE_def)

lemma bindE_assoc: "bindE (bindE m f) g = bindE m (\<lambda>x. bindE (f x) g)"
  by (cases m) (simp_all add: bindE_def)

lemma bindE_cong [fundef_cong]:
  "m = m' \<Longrightarrow> (\<And>x. m' = Inr x \<Longrightarrow> f x = f' x) \<Longrightarrow> bindE m f = bindE m' f'"
  by (cases m') (simp_all add: bindE_def)

lemma guardE_eq_Inr [simp]: "guardE c e = Inr u \<longleftrightarrow> c"
  by (simp add: guardE_def)

lemma guardE_eq_Inl [simp]: "guardE c e = Inl e' \<longleftrightarrow> \<not> c \<and> e' = e"
  by (auto simp: guardE_def)

lemma guardE_True [simp]: "guardE True e = Inr ()"
  by (simp add: guardE_def)

lemma guardE_False [simp]: "guardE False e = Inl e"
  by (simp add: guardE_def)

text \<open>A loop that runs a fallible body over a list and stops at the first error.\<close>

fun mapE :: "('a \<Rightarrow> 'e + 'b) \<Rightarrow> 'a list \<Rightarrow> 'e + 'b list" where
  "mapE f [] = Inr []"
| "mapE f (x # xs) = bindE (f x) (\<lambda>y. bindE (mapE f xs) (\<lambda>ys. Inr (y # ys)))"

fun foldE :: "('a \<Rightarrow> 's \<Rightarrow> 'e + 's) \<Rightarrow> 'a list \<Rightarrow> 's \<Rightarrow> 'e + 's" where
  "foldE f [] s = Inr s"
| "foldE f (x # xs) s = bindE (f x s) (foldE f xs)"

text \<open>A loop over a list whose fallible body also updates a state, as \<open>Array.map\<close> with a closure does.\<close>

fun mapSE :: "('a \<Rightarrow> 's \<Rightarrow> 'e + ('b \<times> 's)) \<Rightarrow> 'a list \<Rightarrow> 's \<Rightarrow> 'e + ('b list \<times> 's)" where
  "mapSE f [] s = Inr ([], s)"
| "mapSE f (x # xs) s = bindE (f x s) (\<lambda>(y, s). bindE (mapSE f xs s) (\<lambda>(ys, s). Inr (y # ys, s)))"

lemma bindE_prod_Inr [simp]:
  "bindE m (\<lambda>(a, b). f a b) = Inr y \<longleftrightarrow> (\<exists>a b. m = Inr (a, b) \<and> f a b = Inr y)"
  by (cases m) (auto split: prod.splits)

lemma mapE_Inr_iff: "mapE f xs = Inr ys \<longleftrightarrow> list_all2 (\<lambda>x y. f x = Inr y) xs ys"
  by (induction xs arbitrary: ys) (auto simp: list_all2_Cons1)

lemma mapE_Inr_I: "(\<And>x. x \<in> set xs \<Longrightarrow> f x = Inr (g x)) \<Longrightarrow> mapE f xs = Inr (map g xs)"
  by (induction xs) auto

lemma mapE_append:
  "mapE f (xs @ ys) = bindE (mapE f xs) (\<lambda>a. bindE (mapE f ys) (\<lambda>b. Inr (a @ b)))"
  by (induction xs) (auto simp: bindE_def split: sum.splits)

lemma mapE_length: "mapE f xs = Inr ys \<Longrightarrow> length ys = length xs"
  by (simp add: mapE_Inr_iff list_all2_lengthD)

lemma mapE_cong [fundef_cong]:
  "xs = ys \<Longrightarrow> (\<And>x. x \<in> set ys \<Longrightarrow> f x = g x) \<Longrightarrow> mapE f xs = mapE g ys"
proof (induction ys arbitrary: xs)
  case (Cons y ys)
  then show ?case by simp
qed simp

lemma foldE_append: "foldE f (xs @ ys) s = bindE (foldE f xs s) (foldE f ys)"
  by (induction xs arbitrary: s) (auto simp: bindE_def split: sum.splits)

section \<open>Array.prototype.sort\<close>

text \<open>
  The sort of ECMAScript is stable and orders by the sign of \<open>cmp a b\<close>. For a comparator that is
  a total preorder every stable sort gives the same array; insertion sort is the executable one.
\<close>

fun insert_cmp :: "('a \<Rightarrow> 'a \<Rightarrow> int) \<Rightarrow> 'a \<Rightarrow> 'a list \<Rightarrow> 'a list" where
  "insert_cmp cmp x [] = [x]"
| "insert_cmp cmp x (y # ys) = (if cmp x y \<le> 0 then x # y # ys else y # insert_cmp cmp x ys)"

definition js_sort :: "('a \<Rightarrow> 'a \<Rightarrow> int) \<Rightarrow> 'a list \<Rightarrow> 'a list" where
  "js_sort cmp xs = foldr (insert_cmp cmp) xs []"

lemma set_insert_cmp [simp]: "set (insert_cmp cmp x ys) = insert x (set ys)"
  by (induction ys) auto

lemma length_insert_cmp [simp]: "length (insert_cmp cmp x ys) = Suc (length ys)"
  by (induction ys) auto

lemma distinct_insert_cmp [simp]:
  "distinct (insert_cmp cmp x ys) \<longleftrightarrow> x \<notin> set ys \<and> distinct ys"
  by (induction ys) auto

lemma js_sort_simps [simp]:
  "js_sort cmp [] = []"
  "js_sort cmp (x # xs) = insert_cmp cmp x (js_sort cmp xs)"
  by (simp_all add: js_sort_def)

lemma set_js_sort [simp]: "set (js_sort cmp xs) = set xs"
  by (induction xs) auto

lemma length_js_sort [simp]: "length (js_sort cmp xs) = length xs"
  by (induction xs) auto

lemma distinct_js_sort [simp]: "distinct (js_sort cmp xs) = distinct xs"
  by (induction xs) auto

lemma distinct_map_insert_cmp:
  "distinct (map f (insert_cmp cmp x ys)) \<longleftrightarrow> f x \<notin> f ` set ys \<and> distinct (map f ys)"
  by (induction ys) auto

lemma distinct_map_js_sort [simp]: "distinct (map f (js_sort cmp xs)) \<longleftrightarrow> distinct (map f xs)"
  by (induction xs) (auto simp: distinct_map_insert_cmp)

lemma map_sum_insert_cmp:
  "sum_list (map f (insert_cmp cmp x ys)) = (f x :: int) + sum_list (map f ys)"
  by (induction ys) auto

lemma sum_list_js_sort [simp]: "sum_list (map f (js_sort cmp xs)) = (sum_list (map f xs) :: int)"
  by (induction xs) (auto simp: map_sum_insert_cmp)

text \<open>The comparator contract: what a comparator must promise for the result to be ordered.\<close>

locale js_comparator =
  fixes cmp :: "'a \<Rightarrow> 'a \<Rightarrow> int"
  assumes cmp_total: "cmp a b \<le> 0 \<or> cmp b a \<le> 0"
    and cmp_trans: "cmp a b \<le> 0 \<Longrightarrow> cmp b c \<le> 0 \<Longrightarrow> cmp a c \<le> 0"
begin

lemma cmp_refl: "cmp a a \<le> 0"
  using cmp_total by blast

lemma sorted_insert_cmp:
  "sorted_wrt (\<lambda>a b. cmp a b \<le> 0) ys \<Longrightarrow> sorted_wrt (\<lambda>a b. cmp a b \<le> 0) (insert_cmp cmp x ys)"
proof (induction ys)
  case (Cons y ys)
  then show ?case using cmp_total [of x y] cmp_trans [of x y] by auto
qed simp

lemma sorted_js_sort: "sorted_wrt (\<lambda>a b. cmp a b \<le> 0) (js_sort cmp xs)"
  by (induction xs) (auto intro: sorted_insert_cmp)

lemma insert_cmp_stop:
  "(\<And>y. y \<in> set ys \<Longrightarrow> cmp x y \<le> 0) \<Longrightarrow> insert_cmp cmp x ys = x # ys"
  by (cases ys) auto

lemma js_sort_sorted_id: "sorted_wrt (\<lambda>a b. cmp a b \<le> 0) xs \<Longrightarrow> js_sort cmp xs = xs"
  by (induction xs) (auto simp: insert_cmp_stop)

end

section \<open>Lists\<close>

lemma take_drop_split: "n \<le> length xs \<Longrightarrow> xs = take n xs @ drop n xs"
  by simp

lemma list_all_replicate [simp]: "list_all P (replicate n x) \<longleftrightarrow> n = 0 \<or> P x"
  by (induction n) auto

lemma sum_list_nonneg_map: "(\<And>x. x \<in> set xs \<Longrightarrow> 0 \<le> f x) \<Longrightarrow> 0 \<le> (sum_list (map f xs) :: int)"
  by (induction xs) auto

end
