(* ===== verification/Js_Text.thy ===== *)
theory Js_Text
  imports Wallet_Prelude "HOL-Library.Word"
begin

text \<open>
  The text operations of JavaScript that the wallet uses on amounts, transaction IDs and scripts:
  decimal and hexadecimal rendering of numbers and byte buffers, \<open>split\<close>, \<open>padStart\<close>, \<open>padEnd\<close>
  and the removal of trailing zeros. A string is a list of characters; every string modelled here
  is one that the code restricts to ASCII before it uses it. A \<open>Buffer\<close> is a list of bytes.
\<close>

type_synonym byte = "8 word"
type_synonym bytes = "8 word list"

section \<open>Decimal digits\<close>

definition is_digit :: "char \<Rightarrow> bool" where
  "is_digit c \<longleftrightarrow> 48 \<le> (of_char c :: nat) \<and> (of_char c :: nat) \<le> 57"

definition digit_val :: "char \<Rightarrow> nat" where
  "digit_val c = of_char c - 48"

definition digit_char :: "nat \<Rightarrow> char" where
  "digit_char d = char_of (48 + d)"

lemma digit_char_props [simp]:
  assumes "d < 10"
  shows "is_digit (digit_char d)" and "digit_val (digit_char d) = d"
  using assms by (simp_all add: is_digit_def digit_val_def digit_char_def)

lemma digit_char_val [simp]: "is_digit c \<Longrightarrow> digit_char (digit_val c) = c"
  by (simp add: is_digit_def digit_val_def digit_char_def)

lemma digit_val_less [simp]: "is_digit c \<Longrightarrow> digit_val c < 10"
  unfolding is_digit_def digit_val_def by arith

lemma char_of_48 [simp]: "char_of (48 :: nat) = CHR ''0''"
  by code_simp

lemma digit_val_zero [simp]: "digit_val (CHR ''0'') = 0"
  by (simp add: digit_val_def)

lemma digit_char_eq_zero [simp]: "d < 10 \<Longrightarrow> digit_char d = CHR ''0'' \<longleftrightarrow> d = 0"
proof
  assume d: "d < 10" and "digit_char d = CHR ''0''"
  then have "digit_val (digit_char d) = digit_val (CHR ''0'')" by simp
  with d show "d = 0" by (metis digit_char_props(2) digit_val_zero)
qed (simp add: digit_char_def)

lemma digit_zero [simp]: "is_digit (CHR ''0'')"
  by (simp add: is_digit_def)

lemma digit_val_eq_zero: "is_digit c \<Longrightarrow> digit_val c = 0 \<longleftrightarrow> c = CHR ''0''"
  by (metis digit_char_val digit_val_less digit_char_eq_zero digit_val_zero)

lemma digit_ne_dot [simp]: "is_digit c \<Longrightarrow> c \<noteq> CHR ''.''"
  by (auto simp: is_digit_def)

lemma dot_not_digit [simp]: "\<not> is_digit (CHR ''.'')"
  by (simp add: is_digit_def)

section \<open>BigInt and decimal strings\<close>

text \<open>\<open>n.toString()\<close> for a nonnegative BigInt, and \<open>BigInt(s)\<close> for a digit string.\<close>

fun dec_str :: "nat \<Rightarrow> string" where
  "dec_str n = (if n < 10 then [digit_char n] else dec_str (n div 10) @ [digit_char (n mod 10)])"

declare dec_str.simps [simp del]

definition dec_val :: "string \<Rightarrow> nat" where
  "dec_val s = foldl (\<lambda>v c. 10 * v + digit_val c) 0 s"

text \<open>The pattern \<open>/^(0|[1-9][0-9]{0,k})$/\<close>.\<close>

definition canonical_dec :: "nat \<Rightarrow> string \<Rightarrow> bool" where
  "canonical_dec k s = (case s of [] \<Rightarrow> False
     | c # cs \<Rightarrow> c = CHR ''0'' \<and> cs = [] \<or>
         is_digit c \<and> c \<noteq> CHR ''0'' \<and> list_all is_digit cs \<and> length cs \<le> k)"

lemma dec_val_snoc [simp]: "dec_val (s @ [c]) = 10 * dec_val s + digit_val c"
  by (simp add: dec_val_def)

lemma dec_val_Nil [simp]: "dec_val [] = 0"
  by (simp add: dec_val_def)

lemma dec_val_single [simp]: "dec_val [c] = digit_val c"
  by (simp add: dec_val_def)

lemma dec_val_append: "dec_val (s @ t) = dec_val s * 10 ^ length t + dec_val t"
proof (induction t rule: rev_induct)
  case (snoc c t)
  have "dec_val (s @ t @ [c]) = 10 * dec_val (s @ t) + digit_val c"
    using dec_val_snoc [of "s @ t" c] by simp
  with snoc show ?case by (simp add: algebra_simps)
qed simp

lemma dec_val_Cons: "dec_val (c # s) = digit_val c * 10 ^ length s + dec_val s"
  using dec_val_append [of "[c]" s] by simp

lemma dec_val_zeros [simp]: "dec_val (replicate k (CHR ''0'')) = 0"
  by (induction k) (simp_all add: dec_val_Cons)

lemma dec_val_bound: "list_all is_digit s \<Longrightarrow> dec_val s < 10 ^ length s"
proof (induction s)
  case (Cons c s)
  then have "dec_val s < 10 ^ length s" and "digit_val c \<le> 9"
    using digit_val_less [of c] by (auto simp del: digit_val_less)
  moreover from \<open>digit_val c \<le> 9\<close>
  have "digit_val c * 10 ^ length s \<le> 9 * 10 ^ length s" by (rule mult_right_mono) simp
  ultimately have "digit_val c * 10 ^ length s + dec_val s < 10 * 10 ^ length s" by linarith
  then show ?case by (simp add: dec_val_Cons)
qed simp

lemma dec_val_dec_str [simp]: "dec_val (dec_str n) = n"
proof (induction n rule: dec_str.induct)
  case (1 n)
  then show ?case by (subst dec_str.simps) simp
qed

lemma dec_str_digits [simp]: "list_all is_digit (dec_str n)"
proof (induction n rule: dec_str.induct)
  case (1 n)
  then show ?case by (subst dec_str.simps) simp
qed

lemma dec_str_nonempty [simp]: "dec_str n \<noteq> []"
  by (subst dec_str.simps) simp

lemma dec_str_0 [simp]: "dec_str 0 = ''0''"
  by (subst dec_str.simps) (simp add: digit_char_def)

lemma dec_str_hd: "0 < n \<Longrightarrow> hd (dec_str n) \<noteq> CHR ''0''"
proof (induction n rule: dec_str.induct)
  case (1 n)
  show ?case
  proof (cases "n < 10")
    case True
    with "1.prems" show ?thesis by (subst dec_str.simps) simp
  next
    case False
    then have "0 < n div 10" by simp
    with "1.IH" False have "hd (dec_str (n div 10)) \<noteq> CHR ''0''" by simp
    with False show ?thesis by (subst dec_str.simps) simp
  qed
qed

lemma dec_str_length: "0 < n \<Longrightarrow> 10 ^ (length (dec_str n) - 1) \<le> n"
proof (induction n rule: dec_str.induct)
  case (1 n)
  show ?case
  proof (cases "n < 10")
    case True
    with "1.prems" show ?thesis by (subst dec_str.simps) simp
  next
    case False
    obtain m where m: "length (dec_str (n div 10)) = Suc m"
      using dec_str_nonempty [of "n div 10"] by (cases "dec_str (n div 10)") simp_all
    from False "1.IH" m have "10 ^ m \<le> n div 10" by simp
    then have "10 * 10 ^ m \<le> 10 * (n div 10)" by simp
    also have "\<dots> \<le> n" by simp
    finally have "10 ^ Suc m \<le> n" by simp
    with False m show ?thesis by (subst dec_str.simps) simp
  qed
qed

lemma dec_str_length_le: "n < 10 ^ Suc k \<Longrightarrow> length (dec_str n) \<le> Suc k"
proof (rule ccontr)
  assume n: "n < 10 ^ Suc k" and "\<not> length (dec_str n) \<le> Suc k"
  then have l: "Suc k \<le> length (dec_str n) - 1" by simp
  then have "n \<noteq> 0" by (cases n) simp_all
  with dec_str_length [of n] have "10 ^ (length (dec_str n) - 1) \<le> n" by simp
  moreover have "(10 :: nat) ^ Suc k \<le> 10 ^ (length (dec_str n) - 1)"
    using l by (rule power_increasing) simp
  ultimately show False using n by simp
qed

lemma canonical_dec_str: "n < 10 ^ Suc k \<Longrightarrow> canonical_dec k (dec_str n)"
proof (cases "n = 0")
  case False
  assume n: "n < 10 ^ Suc k"
  obtain c cs where s: "dec_str n = c # cs"
    using dec_str_nonempty [of n] by (cases "dec_str n") simp_all
  from False dec_str_hd [of n] s have "c \<noteq> CHR ''0''" by simp
  moreover from dec_str_digits [of n] s have "is_digit c" "list_all is_digit cs" by simp_all
  moreover from dec_str_length_le [OF n] s have "length cs \<le> k" by simp
  ultimately show ?thesis by (simp add: canonical_dec_def s)
qed (simp add: canonical_dec_def)

lemma canonical_dec_digits: "canonical_dec k s \<Longrightarrow> list_all is_digit s"
  by (auto simp: canonical_dec_def split: list.splits)

lemma canonical_dec_nonempty: "canonical_dec k s \<Longrightarrow> s \<noteq> []"
  by (auto simp: canonical_dec_def)

lemma canonical_dec_mono: "canonical_dec k s \<Longrightarrow> k \<le> m \<Longrightarrow> canonical_dec m s"
  by (auto simp: canonical_dec_def split: list.splits)

lemma canonical_dec_bound: "canonical_dec k s \<Longrightarrow> dec_val s < 10 ^ Suc k"
proof -
  assume s: "canonical_dec k s"
  then have "dec_val s < 10 ^ length s" by (intro dec_val_bound canonical_dec_digits)
  also have "(10 :: nat) ^ length s \<le> 10 ^ Suc k"
    by (rule power_increasing) (use s in \<open>auto simp: canonical_dec_def split: list.splits\<close>)
  finally show ?thesis .
qed

text \<open>A digit string without a leading zero is the rendering of its value.\<close>

lemma dec_str_val_nonzero:
  "list_all is_digit s \<Longrightarrow> s \<noteq> [] \<Longrightarrow> hd s \<noteq> CHR ''0'' \<Longrightarrow> dec_str (dec_val s) = s \<and> 0 < dec_val s"
proof (induction s rule: rev_induct)
  case (snoc c s)
  then have c: "is_digit c" by simp
  show ?case
  proof (cases "s = []")
    case True
    with snoc.prems c have "0 < digit_val c" using digit_val_eq_zero [OF c] by simp
    with True c show ?thesis by (subst dec_str.simps) simp
  next
    case False
    with snoc have ih: "dec_str (dec_val s) = s" "0 < dec_val s" by simp_all
    have v: "\<not> 10 * dec_val s + digit_val c < 10" using ih(2) by simp
    have "(10 * dec_val s + digit_val c) div 10 = dec_val s"
      and "(10 * dec_val s + digit_val c) mod 10 = digit_val c" using c by simp_all
    with v ih c show ?thesis by (subst dec_str.simps) simp
  qed
qed simp

lemma dec_str_canonical: "canonical_dec k s \<Longrightarrow> dec_str (dec_val s) = s"
proof (cases "s = ''0''")
  case False
  assume "canonical_dec k s"
  with False show ?thesis
    by (intro dec_str_val_nonzero [THEN conjunct1]) (auto simp: canonical_dec_def split: list.splits)
qed simp

text \<open>Digit strings of the same length with the same value are equal.\<close>

lemma dec_val_inject:
  assumes "list_all is_digit s" and "list_all is_digit t" and "length s = length t"
    and "dec_val s = dec_val t"
  shows "s = t"
  using assms(3,1,2,4)
proof (induction s t rule: rev_induct2)
  case (4 x xs y ys)
  then have d: "is_digit x" "is_digit y" by simp_all
  with 4 have "10 * dec_val xs + digit_val x = 10 * dec_val ys + digit_val y" by simp
  with d have "dec_val xs = dec_val ys \<and> digit_val x = digit_val y"
    using digit_val_less [of x] digit_val_less [of y] by presburger
  with 4 d show ?case by simp (metis digit_char_val)
qed simp_all

section \<open>split, padStart, padEnd, trailing zeros\<close>

text \<open>\<open>s.split(c)\<close> for a one-character separator: always at least one part.\<close>

fun js_split :: "char \<Rightarrow> string \<Rightarrow> string list" where
  "js_split c [] = [[]]"
| "js_split c (x # xs) = (if x = c then [] # js_split c xs
     else (case js_split c xs of [] \<Rightarrow> [[x]] | p # ps \<Rightarrow> (x # p) # ps))"

lemma js_split_nonempty [simp]: "js_split c s \<noteq> []"
  by (induction s) (auto split: list.splits)

lemma js_split_none: "c \<notin> set s \<Longrightarrow> js_split c s = [s]"
  by (induction s) auto

lemma js_split_one: "c \<notin> set a \<Longrightarrow> js_split c (a @ c # b) = a # js_split c b"
  by (induction a) auto

definition pad_start :: "nat \<Rightarrow> char \<Rightarrow> string \<Rightarrow> string" where
  "pad_start n c s = replicate (n - length s) c @ s"

definition pad_end :: "nat \<Rightarrow> char \<Rightarrow> string \<Rightarrow> string" where
  "pad_end n c s = s @ replicate (n - length s) c"

text \<open>\<open>s.replace(/0+$/, '')\<close>.\<close>

definition strip_zeros :: "string \<Rightarrow> string" where
  "strip_zeros s = rev (dropWhile (\<lambda>c. c = CHR ''0'') (rev s))"

lemma strip_zeros_decomp: "\<exists>k. s = strip_zeros s @ replicate k (CHR ''0'') \<and> k \<le> length s"
proof -
  let ?z = "takeWhile (\<lambda>c. c = CHR ''0'') (rev s)"
  have z: "?z = replicate (length ?z) (CHR ''0'')"
    by (rule replicate_eqI) (auto dest: set_takeWhileD)
  have "rev s = ?z @ dropWhile (\<lambda>c. c = CHR ''0'') (rev s)" by simp
  then have "s = strip_zeros s @ rev ?z"
    by (metis rev_append rev_rev_ident strip_zeros_def)
  moreover have "rev ?z = replicate (length ?z) (CHR ''0'')"
    by (subst z) simp
  moreover have "length ?z \<le> length s" using length_takeWhile_le [of _ "rev s"] by simp
  ultimately show ?thesis by metis
qed

lemma strip_zeros_length: "length (strip_zeros s) \<le> length s"
  using strip_zeros_decomp [of s] by (metis length_append le_add1)

lemma strip_zeros_pad_end: "pad_end (length s) (CHR ''0'') (strip_zeros s) = s"
proof -
  obtain k where k: "s = strip_zeros s @ replicate k (CHR ''0'')"
    using strip_zeros_decomp by blast
  then have "length s = length (strip_zeros s) + k"
    by (metis length_append length_replicate)
  then have "length s - length (strip_zeros s) = k" by simp
  with k show ?thesis by (simp add: pad_end_def)
qed

lemma strip_zeros_digits: "list_all is_digit s \<Longrightarrow> list_all is_digit (strip_zeros s)"
  using strip_zeros_decomp [of s] by (metis list_all_append)

lemma strip_zeros_last: "strip_zeros s \<noteq> [] \<Longrightarrow> last (strip_zeros s) \<noteq> CHR ''0''"
  using hd_dropWhile [of "\<lambda>c. c = CHR ''0''" "rev s"] by (simp add: strip_zeros_def last_rev)

lemma strip_zeros_pad: "(s = [] \<or> last s \<noteq> CHR ''0'') \<Longrightarrow> strip_zeros (s @ replicate k (CHR ''0'')) = s"
proof -
  assume s: "s = [] \<or> last s \<noteq> CHR ''0''"
  have "dropWhile (\<lambda>c. c = CHR ''0'') (replicate k (CHR ''0'') @ rev s) = rev s"
  proof (induction k)
    case 0
    then show ?case using s by (cases "rev s") (auto simp: last_conv_nth hd_rev [symmetric])
  qed simp
  then show ?thesis by (simp add: strip_zeros_def)
qed

text \<open>\<open>s.trim()\<close>: the white space and line terminators below code point 256.\<close>

definition is_js_space :: "char \<Rightarrow> bool" where
  "is_js_space c \<longleftrightarrow> (let n = of_char c :: nat in 9 \<le> n \<and> n \<le> 13 \<or> n = 32 \<or> n = 160)"

definition js_trim :: "string \<Rightarrow> string" where
  "js_trim s = rev (dropWhile is_js_space (rev (dropWhile is_js_space s)))"

lemma digit_not_space [simp]: "is_digit c \<Longrightarrow> \<not> is_js_space c"
  by (auto simp: is_digit_def is_js_space_def Let_def)

lemma js_trim_id: "s \<noteq> [] \<Longrightarrow> \<not> is_js_space (hd s) \<Longrightarrow> \<not> is_js_space (last s) \<Longrightarrow> js_trim s = s"
proof -
  assume s: "s \<noteq> []" "\<not> is_js_space (hd s)" "\<not> is_js_space (last s)"
  then have "dropWhile is_js_space s = s" by (cases s) simp_all
  moreover have "dropWhile is_js_space (rev s) = rev s"
    using s by (cases s rule: rev_cases) simp_all
  ultimately show ?thesis by (simp add: js_trim_def)
qed

lemma strip_zeros_append_zeros: "strip_zeros (s @ replicate k (CHR ''0'')) = strip_zeros s"
proof -
  have "dropWhile (\<lambda>c. c = CHR ''0'') (replicate k (CHR ''0'') @ t) = dropWhile (\<lambda>c. c = CHR ''0'') t" for t
    by (induction k) simp_all
  then show ?thesis by (simp add: strip_zeros_def)
qed

section \<open>Hexadecimal\<close>

definition is_hex :: "char \<Rightarrow> bool" where
  "is_hex c \<longleftrightarrow> (let n = of_char c :: nat in 48 \<le> n \<and> n \<le> 57 \<or> 97 \<le> n \<and> n \<le> 102 \<or> 65 \<le> n \<and> n \<le> 70)"

definition is_lower_hex :: "char \<Rightarrow> bool" where
  "is_lower_hex c \<longleftrightarrow> (let n = of_char c :: nat in 48 \<le> n \<and> n \<le> 57 \<or> 97 \<le> n \<and> n \<le> 102)"

definition hex_val :: "char \<Rightarrow> nat" where
  "hex_val c = (let n = of_char c in if n \<le> 57 then n - 48 else if n \<le> 70 then n - 55 else n - 87)"

definition hex_char :: "nat \<Rightarrow> char" where
  "hex_char d = char_of (if d < 10 then 48 + d else 87 + d)"

text \<open>\<open>Buffer.from(s, 'hex')\<close> on an even-length hexadecimal string, \<open>buffer.toString('hex')\<close>,
  and \<open>s.toLowerCase()\<close> on ASCII text.\<close>

fun bytes_of_hex :: "string \<Rightarrow> bytes" where
  "bytes_of_hex (a # b # s) = of_nat (16 * hex_val a + hex_val b) # bytes_of_hex s"
| "bytes_of_hex _ = []"

fun hex_of_bytes :: "bytes \<Rightarrow> string" where
  "hex_of_bytes [] = []"
| "hex_of_bytes (b # bs) = hex_char (unat b div 16) # hex_char (unat b mod 16) # hex_of_bytes bs"

definition lower_char :: "char \<Rightarrow> char" where
  "lower_char c = (let n = of_char c :: nat in if 65 \<le> n \<and> n \<le> 90 then char_of (n + 32) else c)"

definition lower_str :: "string \<Rightarrow> string" where
  "lower_str = map lower_char"

lemma hex_char_props [simp]:
  assumes "d < 16"
  shows "is_lower_hex (hex_char d)" and "hex_val (hex_char d) = d"
  using assms by (auto simp: is_lower_hex_def hex_char_def hex_val_def Let_def)

lemma lower_hex_is_hex [simp]: "is_lower_hex c \<Longrightarrow> is_hex c"
  by (auto simp: is_lower_hex_def is_hex_def Let_def)

lemma hex_val_less [simp]: "is_hex c \<Longrightarrow> hex_val c < 16"
  by (auto simp: is_hex_def hex_val_def Let_def)

lemma hex_char_val: "is_hex c \<Longrightarrow> hex_char (hex_val c) = lower_char c"
  by (auto simp: is_hex_def hex_val_def hex_char_def lower_char_def Let_def)

lemma lower_char_lower [simp]: "is_lower_hex c \<Longrightarrow> lower_char c = c"
  by (auto simp: is_lower_hex_def lower_char_def Let_def)

lemma lower_char_hex [simp]: "is_hex c \<Longrightarrow> is_lower_hex (lower_char c)"
  by (auto simp: is_lower_hex_def is_hex_def lower_char_def Let_def)

lemma lower_str_lower: "list_all is_lower_hex s \<Longrightarrow> lower_str s = s"
  by (induction s) (simp_all add: lower_str_def)

lemma lower_str_hex: "list_all is_hex s \<Longrightarrow> list_all is_lower_hex (lower_str s)"
  by (induction s) (simp_all add: lower_str_def)

lemma length_lower_str [simp]: "length (lower_str s) = length s"
  by (simp add: lower_str_def)

lemma unat_byte [simp]: "unat (b :: byte) < 256"
  using unsigned_less [of b] by simp

lemma hex_of_bytes_hex [simp]: "list_all is_lower_hex (hex_of_bytes bs)"
proof (induction bs)
  case (Cons b bs)
  have "unat b < 256" by (rule unat_byte)
  then have "unat b div 16 < 16" by (simp only: div_less_iff_less_mult)
  then show ?case using Cons by simp
qed simp

lemma list_all_lower_hex: "list_all is_lower_hex s \<Longrightarrow> list_all is_hex s"
  by (induction s) simp_all

lemma length_hex_of_bytes [simp]: "length (hex_of_bytes bs) = 2 * length bs"
  by (induction bs) simp_all

lemma length_bytes_of_hex: "length (bytes_of_hex s) = length s div 2"
  by (induction s rule: bytes_of_hex.induct) simp_all

lemma bytes_of_hex_of_bytes [simp]: "bytes_of_hex (hex_of_bytes bs) = bs"
proof (induction bs)
  case (Cons b bs)
  have "unat b < 256" by (rule unat_byte)
  then have "unat b div 16 < 16" by (simp only: div_less_iff_less_mult)
  then have "16 * hex_val (hex_char (unat b div 16)) + hex_val (hex_char (unat b mod 16)) = unat b"
    by simp
  with Cons show ?case by simp
qed simp

lemma unat_of_nat_byte: "n < 256 \<Longrightarrow> unat (of_nat n :: byte) = n"
  by (simp add: unat_of_nat)

lemma hex_of_bytes_of_hex:
  "even (length s) \<Longrightarrow> list_all is_hex s \<Longrightarrow> hex_of_bytes (bytes_of_hex s) = lower_str s"
proof (induction s rule: bytes_of_hex.induct)
  case (1 a b s)
  then have a: "hex_val a < 16" and b: "hex_val b < 16" and ab: "is_hex a" "is_hex b" by simp_all
  then have "unat (of_nat (16 * hex_val a + hex_val b) :: byte) = 16 * hex_val a + hex_val b"
    by (intro unat_of_nat_byte) linarith
  moreover have "(16 * hex_val a + hex_val b) div 16 = hex_val a"
    and "(16 * hex_val a + hex_val b) mod 16 = hex_val b" using b by simp_all
  ultimately show ?case using 1 ab by (simp add: hex_char_val lower_str_def)
qed (simp_all add: lower_str_def)

lemma hex_of_bytes_inject: "hex_of_bytes a = hex_of_bytes b \<longleftrightarrow> a = b"
  by (metis bytes_of_hex_of_bytes)

end
