(* ===== verification/Money.thy ===== *)
theory Money
  imports Js_Text
begin

text \<open>
  Amounts (\<open>src/src/core/transaction.mjs\<close>, \<open>src/src/core/payment-uri.mjs\<close>). An amount is an
  exact number of connects, a BigInt; CONN is shown with up to ten decimal places. The lemmas show
  that rendering and parsing are inverse to each other over the whole money range, and that the
  payment link builder, which repeats the arithmetic, agrees with the core functions.
\<close>

text \<open>A JavaScript argument as the code discriminates it with \<open>typeof\<close>.\<close>

datatype js_arg = JStr string | JBig int | JOther

definition COIN :: int where
  "COIN = 10000000000"

definition MAX_MONEY :: int where
  "MAX_MONEY = 100000000 * COIN"

definition amountInConnects :: "js_arg \<Rightarrow> int res" where
  "amountInConnects value =
     bindE (case value of
              JBig n \<Rightarrow> Inr n
            | JStr s \<Rightarrow> if canonical_dec 18 s then Inr (int (dec_val s)) else Inl AmountNotExact
            | JOther \<Rightarrow> Inl AmountNotExact)
       (\<lambda>amount. if amount < 0 \<or> amount > MAX_MONEY then Inl AmountOutOfRange else Inr amount)"

text \<open>The pattern \<open>/^(0|[1-9][0-9]{0,8})(\.[0-9]{1,10})?$/\<close>.\<close>

definition coin_syntax :: "string \<Rightarrow> bool" where
  "coin_syntax s = (case js_split (CHR ''.'') s of
       [w] \<Rightarrow> canonical_dec 8 w
     | [w, d] \<Rightarrow> canonical_dec 8 w \<and> 1 \<le> length d \<and> length d \<le> 10 \<and> list_all is_digit d
     | _ \<Rightarrow> False)"

text \<open>\<open>const [whole, decimal = ''] = value.split('.')\<close> and the sum of both parts.\<close>

definition coin_value :: "string \<Rightarrow> int" where
  "coin_value s = (case js_split (CHR ''.'') s of
       [w] \<Rightarrow> int (dec_val w) * COIN + int (dec_val (pad_end 10 (CHR ''0'') []))
     | w # d # _ \<Rightarrow> int (dec_val w) * COIN + int (dec_val (pad_end 10 (CHR ''0'') d))
     | [] \<Rightarrow> 0)"

definition parseCoinAmount :: "js_arg \<Rightarrow> int res" where
  "parseCoinAmount value = (case value of
       JStr s \<Rightarrow> if coin_syntax s then amountInConnects (JBig (coin_value s)) else Inl BadCoinAmount
     | _ \<Rightarrow> Inl BadCoinAmount)"

text \<open>The rendering both \<open>formatCoinAmount\<close> and \<open>paymentAmount\<close> spell out.\<close>

definition coin_text :: "int \<Rightarrow> string" where
  "coin_text amount =
     (let decimal = strip_zeros (pad_start 10 (CHR ''0'') (dec_str (nat (amount mod COIN))))
      in dec_str (nat (amount div COIN)) @ (if decimal \<noteq> [] then CHR ''.'' # decimal else []))"

definition formatCoinAmount :: "js_arg \<Rightarrow> string res" where
  "formatCoinAmount value = bindE (amountInConnects value) (\<lambda>amount. Inr (coin_text amount))"

definition paymentAmount :: "js_arg \<Rightarrow> string res" where
  "paymentAmount value = (case value of
       JStr v \<Rightarrow>
         (let s = js_trim v in
          if s = [] then Inr []
          else if \<not> coin_syntax s then Inl BadRequestAmount
          else let amount = coin_value s in
            if amount \<le> 0 \<or> amount > MAX_MONEY then Inl RequestAmountRange
            else Inr (coin_text amount))
     | _ \<Rightarrow> Inl BadRequestAmount)"

section \<open>Ranges\<close>

lemma amountInConnects_big [simp]:
  "amountInConnects (JBig n) = Inr m \<longleftrightarrow> m = n \<and> 0 \<le> n \<and> n \<le> MAX_MONEY"
  by (auto simp: amountInConnects_def)

lemma amountInConnects_range: "amountInConnects v = Inr n \<Longrightarrow> 0 \<le> n \<and> n \<le> MAX_MONEY"
  by (auto simp: amountInConnects_def split: if_splits)

lemma MAX_MONEY_digits: "0 \<le> n \<Longrightarrow> n \<le> MAX_MONEY \<Longrightarrow> nat n < 10 ^ Suc 18"
  by (simp add: MAX_MONEY_def COIN_def)

text \<open>A decimal string rendered from an amount is read back as that amount.\<close>

lemma amountInConnects_dec_str [simp]:
  assumes "0 \<le> n" and "n \<le> MAX_MONEY"
  shows "amountInConnects (JStr (dec_str (nat n))) = Inr n"
  using assms canonical_dec_str [OF MAX_MONEY_digits, of n] by (simp add: amountInConnects_def)

lemma amountInConnects_str_canonical:
  "amountInConnects (JStr s) = Inr n \<Longrightarrow> s = dec_str (nat n)"
  by (auto simp: amountInConnects_def dec_str_canonical split: if_splits)

section \<open>Rendering and parsing\<close>

lemma pad_end_zeros [simp]: "dec_val (pad_end k (CHR ''0'') []) = 0"
  by (simp add: pad_end_def)

lemma digits_no_dot: "list_all is_digit s \<Longrightarrow> CHR ''.'' \<notin> set s"
  by (induction s) auto

lemma js_split_digits:
  "list_all is_digit w \<Longrightarrow> js_split (CHR ''.'') w = [w]"
  "list_all is_digit w \<Longrightarrow> list_all is_digit d \<Longrightarrow> js_split (CHR ''.'') (w @ CHR ''.'' # d) = [w, d]"
  by (simp_all add: js_split_none js_split_one digits_no_dot)

lemma js_split_one_part: "js_split c s = [w] \<Longrightarrow> s = w"
proof (induction s arbitrary: w)
  case (Cons y s)
  then show ?case by (auto split: if_splits list.splits)
qed simp

lemma js_split_two: "js_split c s = [w, d] \<Longrightarrow> s = w @ c # d"
proof (induction s arbitrary: w)
  case (Cons x s)
  then show ?case by (auto split: if_splits list.splits dest: js_split_one_part)
qed simp

text \<open>The fraction of an amount: exactly ten digits, worth the amount modulo one coin.\<close>

lemma fraction_props:
  assumes "0 \<le> n"
  defines "f \<equiv> pad_start 10 (CHR ''0'') (dec_str (nat (n mod COIN)))"
  shows "length f = 10" and "list_all is_digit f" and "int (dec_val f) = n mod COIN"
proof -
  have r: "0 \<le> n mod COIN" "n mod COIN < COIN" by (simp_all add: COIN_def)
  have "nat (n mod COIN) < 10 ^ Suc 9" using r by (simp add: COIN_def)
  then have "length (dec_str (nat (n mod COIN))) \<le> 10"
    using dec_str_length_le [of _ 9] by simp
  then show "length f = 10" by (simp add: f_def pad_start_def)
  show "list_all is_digit f" by (simp add: f_def pad_start_def)
  show "int (dec_val f) = n mod COIN" using r by (simp add: f_def pad_start_def dec_val_append)
qed

lemma coin_text_shape:
  assumes "0 \<le> n"
  obtains w d where "coin_text n = (if d = [] then w else w @ CHR ''.'' # d)"
    and "w = dec_str (nat (n div COIN))" and "list_all is_digit d" and "length d \<le> 10"
    and "int (dec_val (pad_end 10 (CHR ''0'') d)) = n mod COIN"
    and "d = [] \<or> last d \<noteq> CHR ''0''"
proof -
  let ?f = "pad_start 10 (CHR ''0'') (dec_str (nat (n mod COIN)))"
  note f = fraction_props [OF assms]
  have "pad_end 10 (CHR ''0'') (strip_zeros ?f) = ?f"
    using strip_zeros_pad_end [of ?f] f(1) by simp
  then have "int (dec_val (pad_end 10 (CHR ''0'') (strip_zeros ?f))) = n mod COIN"
    using f(3) by simp
  moreover have "length (strip_zeros ?f) \<le> 10" using strip_zeros_length [of ?f] f(1) by simp
  moreover have "strip_zeros ?f = [] \<or> last (strip_zeros ?f) \<noteq> CHR ''0''"
    using strip_zeros_last by blast
  ultimately show ?thesis using that [of "strip_zeros ?f"] f(2)
    by (simp add: coin_text_def Let_def strip_zeros_digits)
qed

lemma coin_text_syntax_value:
  assumes "0 \<le> n" and "n \<le> MAX_MONEY"
  shows "coin_syntax (coin_text n)" and "coin_value (coin_text n) = n"
proof -
  obtain w d where t: "coin_text n = (if d = [] then w else w @ CHR ''.'' # d)"
    and w: "w = dec_str (nat (n div COIN))" and d: "list_all is_digit d" "length d \<le> 10"
    and v: "int (dec_val (pad_end 10 (CHR ''0'') d)) = n mod COIN"
    using coin_text_shape [OF assms(1)] by metis
  have q: "0 \<le> n div COIN" "n div COIN \<le> 100000000"
    using assms by (simp_all add: COIN_def MAX_MONEY_def)
  then have "nat (n div COIN) < 10 ^ Suc 8" by simp
  with w have cw: "canonical_dec 8 w" using canonical_dec_str by blast
  have vw: "int (dec_val w) = n div COIN" using q w by simp
  have n: "n div COIN * COIN + n mod COIN = n" by simp
  show "coin_syntax (coin_text n)"
    using cw d by (cases d) (simp_all add: t coin_syntax_def js_split_digits canonical_dec_digits)
  show "coin_value (coin_text n) = n"
    using cw d v vw n
    by (cases d) (simp_all add: t coin_value_def js_split_digits canonical_dec_digits)
qed

lemma coin_value_nonneg: "0 \<le> coin_value s"
  by (auto simp: coin_value_def COIN_def split: list.splits)

lemma coin_text_nonempty: "coin_text n \<noteq> []"
  by (simp add: coin_text_def Let_def)

text \<open>What survives of a well-formed decimal when it is parsed and rendered again.\<close>

definition drop_trailing_zeros :: "string \<Rightarrow> string" where
  "drop_trailing_zeros s = (case js_split (CHR ''.'') s of
       [w, d] \<Rightarrow> (if strip_zeros d = [] then w else w @ CHR ''.'' # strip_zeros d)
     | _ \<Rightarrow> s)"

lemma coin_text_eq:
  assumes w: "canonical_dec k w" and d: "list_all is_digit d" "length d \<le> 10"
    and n: "n = int (dec_val w) * COIN + int (dec_val (pad_end 10 (CHR ''0'') d))"
  shows "coin_text n = (if strip_zeros d = [] then w else w @ CHR ''.'' # strip_zeros d)"
proof -
  let ?p = "pad_end 10 (CHR ''0'') d"
  have p: "length ?p = 10" "list_all is_digit ?p" using d by (simp_all add: pad_end_def)
  then have "dec_val ?p < 10 ^ 10" using dec_val_bound [of ?p] by simp
  then have pb: "int (dec_val ?p) < COIN" by (simp add: COIN_def)
  then have q: "n div COIN = int (dec_val w)" and r: "n mod COIN = int (dec_val ?p)"
    by (simp_all add: n COIN_def)
  let ?f = "pad_start 10 (CHR ''0'') (dec_str (nat (n mod COIN)))"
  have "0 \<le> n" using n by (simp add: COIN_def)
  note f = fraction_props [OF this]
  have "?f = ?p"
    by (rule dec_val_inject) (use f p r in simp_all)
  then have "strip_zeros ?f = strip_zeros d"
    by (simp add: pad_end_def strip_zeros_append_zeros)
  then show ?thesis using q w by (simp add: coin_text_def Let_def dec_str_canonical)
qed

lemma coin_text_of_value:
  assumes "coin_syntax s"
  shows "coin_text (coin_value s) = drop_trailing_zeros s"
proof -
  from assms consider w where "js_split (CHR ''.'') s = [w]" "canonical_dec 8 w"
    | w d where "js_split (CHR ''.'') s = [w, d]" "canonical_dec 8 w" "list_all is_digit d" "length d \<le> 10"
    by (auto simp: coin_syntax_def split: list.splits)
  then show ?thesis
  proof cases
    case 1
    have v: "coin_value s = int (dec_val w) * COIN" using 1 by (simp add: coin_value_def)
    have "s = w" using 1(1) by (rule js_split_one_part)
    then have "drop_trailing_zeros s = w" using 1(1) by (simp add: drop_trailing_zeros_def)
    with v show ?thesis using coin_text_eq [of 8 w "[]" "coin_value s"] 1(2)
      by (simp add: strip_zeros_def)
  next
    case 2
    then show ?thesis using coin_text_eq [of 8 w d "coin_value s"]
      by (simp add: drop_trailing_zeros_def coin_value_def)
  qed
qed

section \<open>Properties\<close>

text \<open>
  Every amount in the money range is rendered, and parsing its rendering gives
  back exactly that amount: no connect is lost between a balance and the text shown for it.\<close>

lemma coin_amount_roundtrip:
  assumes "0 \<le> n" and "n \<le> MAX_MONEY"
  shows "formatCoinAmount (JBig n) = Inr (coin_text n) \<and> parseCoinAmount (JStr (coin_text n)) = Inr n"
proof -
  have "amountInConnects (JBig n) = Inr n" using assms by simp
  then show ?thesis using coin_text_syntax_value [OF assms]
    by (simp add: formatCoinAmount_def parseCoinAmount_def)
qed

lemma coin_amount_roundtrip_witness:
  "parseCoinAmount (JStr (coin_text 12345000000)) = Inr 12345000000"
  using coin_amount_roundtrip [of 12345000000] by (simp add: MAX_MONEY_def COIN_def)

text \<open>A decimal as the documentation describes it: the whole part \<open>w\<close> without superfluous zeros in front
  and the fraction \<open>d\<close>, with its point only where it has digits.\<close>

definition decimal_text :: "string \<Rightarrow> string \<Rightarrow> string" where
  "decimal_text w d = (if d = [] then w else w @ CHR ''.'' # d)"

lemma canonical_dec_iff: "canonical_dec k w \<longleftrightarrow>
    list_all is_digit w \<and> (w = ''0'' \<or> 1 \<le> length w \<and> length w \<le> Suc k \<and> hd w \<noteq> CHR ''0'')"
  by (cases w) (auto simp: canonical_dec_def)

lemma coin_syntax_iff: "coin_syntax s \<longleftrightarrow>
    (\<exists>w d. canonical_dec 8 w \<and> list_all is_digit d \<and> length d \<le> 10 \<and> s = decimal_text w d)" (is "_ = ?R")
proof
  assume "coin_syntax s"
  then consider w where "js_split (CHR ''.'') s = [w]" "canonical_dec 8 w"
    | w d where "js_split (CHR ''.'') s = [w, d]" "canonical_dec 8 w" "1 \<le> length d" "list_all is_digit d" "length d \<le> 10"
    by (auto simp: coin_syntax_def split: list.splits)
  then show ?R
  proof cases
    case 1
    then have "s = decimal_text w []" using js_split_one_part by (simp add: decimal_text_def)
    with 1(2) show ?R by (intro exI [of _ w] exI [of _ "[]"]) simp
  next
    case 2
    then have "s = decimal_text w d" using js_split_two by (auto simp: decimal_text_def)
    with 2 show ?R by blast
  qed
next
  assume ?R
  then obtain w d where "canonical_dec 8 w" "list_all is_digit d" "length d \<le> 10" "s = decimal_text w d" by blast
  then show "coin_syntax s"
    by (cases d) (simp_all add: decimal_text_def coin_syntax_def js_split_digits canonical_dec_digits)
qed

lemma coin_value_text:
  assumes "list_all is_digit w" and "list_all is_digit d" and "length d \<le> 10"
  shows "coin_value (decimal_text w d) = int (dec_val w) * 10 ^ 10 + int (dec_val d) * 10 ^ (10 - length d)"
  using assms by (cases d)
    (simp_all add: coin_value_def decimal_text_def js_split_digits COIN_def pad_end_def dec_val_append dec_val_def [of "[]"])

text \<open>Property C9: parsing accepts exactly the documented decimals, with up to nine digits before the point
  and up to ten behind it, whose value is in the money range, and returns that value; rendering what
  was parsed changes nothing but the zeros at the end of the fraction.\<close>

theorem parse_then_format:
  "(parseCoinAmount (JStr s) = Inr n \<longleftrightarrow>
     (\<exists>w d. list_all is_digit w \<and> (w = ''0'' \<or> 1 \<le> length w \<and> length w \<le> 9 \<and> hd w \<noteq> CHR ''0'')
        \<and> list_all is_digit d \<and> length d \<le> 10 \<and> s = (if d = [] then w else w @ CHR ''.'' # d)
        \<and> n = int (dec_val w) * 10 ^ 10 + int (dec_val d) * 10 ^ (10 - length d) \<and> n \<le> 10 ^ 18))
   \<and> (parseCoinAmount (JStr s) = Inr n \<longrightarrow> formatCoinAmount (JBig n) = Inr (drop_trailing_zeros s))"
proof -
  have parse: "parseCoinAmount (JStr s) = Inr n \<longleftrightarrow> coin_syntax s \<and> n = coin_value s \<and> n \<le> 10 ^ 18"
    using coin_value_nonneg [of s] by (auto simp: parseCoinAmount_def MAX_MONEY_def COIN_def)
  define form where "form w d \<longleftrightarrow> canonical_dec 8 w \<and> list_all is_digit d \<and> length d \<le> 10 \<and> s = decimal_text w d" for w d
  define val where "val w d = int (dec_val w) * 10 ^ 10 + int (dec_val d) * 10 ^ (10 - length d)" for w d
  have "coin_value s = val w d" if "form w d" for w d
    using that coin_value_text [of w d] canonical_dec_digits [of 8 w] by (simp add: form_def val_def)
  then have "(\<exists>w d. form w d) \<and> n = coin_value s \<and> n \<le> 10 ^ 18 \<longleftrightarrow> (\<exists>w d. form w d \<and> n = val w d \<and> n \<le> 10 ^ 18)"
    by (metis (no_types, lifting))
  with parse have iff: "parseCoinAmount (JStr s) = Inr n \<longleftrightarrow> (\<exists>w d. form w d \<and> n = val w d \<and> n \<le> 10 ^ 18)"
    by (simp only: coin_syntax_iff form_def)
  have digits: "canonical_dec 8 w \<longleftrightarrow> list_all is_digit w \<and> (w = ''0'' \<or> 1 \<le> length w \<and> length w \<le> 9 \<and> hd w \<noteq> CHR ''0'')" for w
    using canonical_dec_iff [of 8 w] by simp
  have "formatCoinAmount (JBig n) = Inr (drop_trailing_zeros s)" if "parseCoinAmount (JStr s) = Inr n"
  proof -
    from that parse have s: "coin_syntax s" "n = coin_value s" "n \<le> MAX_MONEY" by (auto simp: MAX_MONEY_def COIN_def)
    then have "amountInConnects (JBig n) = Inr n" using coin_value_nonneg [of s] by simp
    with s coin_text_of_value [OF s(1)] show ?thesis by (simp add: formatCoinAmount_def)
  qed
  then show ?thesis
    by (intro conjI impI iff [unfolded form_def val_def digits decimal_text_def conj_assoc])
qed

theorem parse_then_format_witness:
  "parseCoinAmount (JStr ''1.2500000000'') = Inr 12500000000
   \<and> formatCoinAmount (JBig 12500000000) = Inr (drop_trailing_zeros ''1.2500000000'')"
proof -
  have "parseCoinAmount (JStr ''1.2500000000'') = Inr 12500000000"
    by (rule parse_then_format [THEN conjunct1, THEN iffD2], rule exI [of _ "''1''"], rule exI [of _ "''2500000000''"])
      (simp add: is_digit_def dec_val_def digit_val_def)
  with parse_then_format [of "''1.2500000000''" 12500000000] show ?thesis by blast
qed

text \<open>Property C10: the payment-link builder, which has its own copy of the amount arithmetic, gives
  for every text the amount that the core functions give for the trimmed text, and refuses the
  texts they refuse; only the empty text (no amount) and zero are treated differently.\<close>

theorem payment_amount_agrees:
  "paymentAmount (JStr v) =
     (if js_trim v = [] then Inr []
      else case parseCoinAmount (JStr (js_trim v)) of
          Inl e \<Rightarrow> Inl (if e = AmountOutOfRange then RequestAmountRange else BadRequestAmount)
        | Inr n \<Rightarrow> if n = 0 then Inl RequestAmountRange else formatCoinAmount (JBig n))"
proof (cases "coin_syntax (js_trim v) \<and> js_trim v \<noteq> []")
  case True
  define n where "n = coin_value (js_trim v)"
  have n: "0 \<le> n" unfolding n_def by (rule coin_value_nonneg)
  have p: "paymentAmount (JStr v) = (if n \<le> 0 \<or> n > MAX_MONEY then Inl RequestAmountRange else Inr (coin_text n))"
    using True by (simp add: paymentAmount_def Let_def n_def)
  have q: "parseCoinAmount (JStr (js_trim v)) = (if n > MAX_MONEY then Inl AmountOutOfRange else Inr n)"
    using True n by (simp add: parseCoinAmount_def amountInConnects_def n_def)
  have "formatCoinAmount (JBig n) = Inr (coin_text n)" if "n \<le> MAX_MONEY"
    using that n by (simp add: formatCoinAmount_def amountInConnects_def)
  then show ?thesis using True n unfolding p q by simp
next
  case False
  then show ?thesis
    by (cases "js_trim v = []") (simp_all add: paymentAmount_def parseCoinAmount_def Let_def)
qed

end
