(* ===== verification/Wire.thy ===== *)
theory Wire
  imports Money
begin

text \<open>
  The wire primitives of \<open>src/src/core/transaction.mjs\<close>: checked hexadecimal buffers, little-endian
  integers, CompactSize, and the \<open>Reader\<close> class with its cursor. The locale \<open>codec\<close> is the contract
  between a writer and a reader of the same field: what the writer emits the reader accepts, and
  what the reader accepts is what the writer emits. Every field of a transaction interprets it.
\<close>

section \<open>Little-endian integers\<close>

fun le_bytes :: "nat \<Rightarrow> nat \<Rightarrow> bytes" where
  "le_bytes 0 v = []"
| "le_bytes (Suc k) v = of_nat (v mod 256) # le_bytes k (v div 256)"

fun le_val :: "bytes \<Rightarrow> nat" where
  "le_val [] = 0"
| "le_val (b # bs) = unat b + 256 * le_val bs"

lemma length_le_bytes [simp]: "length (le_bytes k v) = k"
  by (induction k arbitrary: v) simp_all

lemma le_val_le_bytes: "le_val (le_bytes k v) = v mod 256 ^ k"
proof (induction k arbitrary: v)
  case (Suc k)
  have "v mod 256 + 256 * (v div 256 mod 256 ^ k) = v mod 256 ^ Suc k"
    by (simp add: mod_mult2_eq)
  with Suc show ?case by (simp add: unat_of_nat)
qed simp

lemma le_val_le_bytes_small [simp]: "v < 256 ^ k \<Longrightarrow> le_val (le_bytes k v) = v"
  by (simp add: le_val_le_bytes)

lemma le_val_bound: "le_val bs < 256 ^ length bs"
proof (induction bs)
  case (Cons b bs)
  have "unat b < 256" by (rule unat_byte)
  moreover define m where "m = (256 :: nat) ^ length bs"
  moreover from Cons have "le_val bs < m" by (simp add: m_def)
  ultimately have "unat b + 256 * le_val bs < 256 * m" by linarith
  then show ?case by (simp add: m_def)
qed simp

lemma le_bytes_le_val [simp]: "length bs = k \<Longrightarrow> le_bytes k (le_val bs) = bs"
proof (induction bs arbitrary: k)
  case (Cons b bs)
  have b: "unat b < 256" by (rule unat_byte)
  then have "(unat b + 256 * le_val bs) mod 256 = unat b"
    and "(unat b + 256 * le_val bs) div 256 = le_val bs" by simp_all
  moreover have "(of_nat (unat b) :: byte) = b" by simp
  ultimately show ?case using Cons by (auto simp del: of_nat_unat)
qed simp

section \<open>Writers\<close>

definition MAX_TX_BYTES :: nat where
  "MAX_TX_BYTES = 4000000"

definition hexBytes :: "nat option \<Rightarrow> string \<Rightarrow> bytes res" where
  "hexBytes sz value =
     (if odd (length value) \<or> \<not> list_all is_hex value
         \<or> (case sz of None \<Rightarrow> False | Some n \<Rightarrow> length value \<noteq> n * 2)
      then Inl InvalidHex else Inr (bytes_of_hex value))"

definition u32 :: "int \<Rightarrow> bytes res" where
  "u32 value = (if value < 0 \<or> value > 0xffffffff then Inl InvalidU32
     else Inr (le_bytes 4 (nat value)))"

definition i64 :: "js_arg \<Rightarrow> bytes res" where
  "i64 value = bindE (amountInConnects value) (\<lambda>n. Inr (le_bytes 8 (nat n)))"

definition compactSize :: "nat \<Rightarrow> bytes res" where
  "compactSize value =
     (if value > MAX_TX_BYTES then Inl CompactSizeBounds
      else if value < 253 then Inr [of_nat value]
      else if value \<le> 65535 then Inr (253 # le_bytes 2 value)
      else bindE (u32 (int value)) (\<lambda>bs. Inr (254 # bs)))"

text \<open>A buffer with its length in front.\<close>

definition variable :: "bytes \<Rightarrow> bytes res" where
  "variable bs = bindE (compactSize (length bs)) (\<lambda>n. Inr (n @ bs))"

lemma hexBytes_lower:
  assumes "list_all is_lower_hex s" and "even (length s)"
  shows "hexBytes None s = Inr (bytes_of_hex s)"
    and "length s = 2 * n \<Longrightarrow> hexBytes (Some n) s = Inr (bytes_of_hex s)"
  using assms by (auto simp: hexBytes_def list_all_lower_hex)

lemma hexBytes_hex [simp]:
  "hexBytes None (hex_of_bytes bs) = Inr bs"
  "length bs = n \<Longrightarrow> hexBytes (Some n) (hex_of_bytes bs) = Inr bs"
  by (simp_all add: hexBytes_def list_all_lower_hex)

lemma hexBytes_Inr:
  assumes "hexBytes sz s = Inr bs"
  shows "hex_of_bytes bs = lower_str s" and "length s = 2 * length bs"
    and "sz = Some n \<Longrightarrow> length bs = n"
  using assms by (auto simp: hexBytes_def hex_of_bytes_of_hex length_bytes_of_hex split: if_splits option.splits)

lemma u32_Inr [simp]: "u32 v = Inr bs \<longleftrightarrow> 0 \<le> v \<and> v \<le> 0xffffffff \<and> bs = le_bytes 4 (nat v)"
  by (auto simp: u32_def)

section \<open>Reader\<close>

record reader =
  rdata :: bytes
  roff :: nat

definition rd_take :: "nat \<Rightarrow> reader \<Rightarrow> (bytes \<times> reader) res" where
  "rd_take n r =
     (if n > length (rdata r) - roff r then Inl TruncatedTransaction
      else Inr (take n (drop (roff r) (rdata r)), r\<lparr>roff := roff r + n\<rparr>))"

definition rd_byte :: "reader \<Rightarrow> (nat \<times> reader) res" where
  "rd_byte r = bindE (rd_take 1 r) (\<lambda>(bs, r). Inr (unat (bs ! 0), r))"

definition rd_uint :: "reader \<Rightarrow> (nat \<times> reader) res" where
  "rd_uint r = bindE (rd_take 4 r) (\<lambda>(bs, r). Inr (le_val bs, r))"

definition rd_count :: "nat \<Rightarrow> reader \<Rightarrow> (nat \<times> reader) res" where
  "rd_count limit r = bindE (rd_byte r) (\<lambda>(marker, r).
     bindE (if marker < 253 then Inr (marker, r)
            else if marker = 253 then bindE (rd_take 2 r) (\<lambda>(bs, r). Inr (le_val bs, r))
            else if marker = 254 then rd_uint r
            else bindE (rd_take 8 r) (\<lambda>(bs, r). Inr (le_val bs, r))) (\<lambda>(result, r).
     if marker = 253 \<and> result < 253 \<or> marker = 254 \<and> result \<le> 65535 \<or> marker = 255
        \<or> result > limit
     then Inl NoncanonicalCompactSize else Inr (result, r)))"

definition rd_blob :: "nat \<Rightarrow> reader \<Rightarrow> (bytes \<times> reader) res" where
  "rd_blob limit r = bindE (rd_count limit r) (\<lambda>(n, r). rd_take n r)"

text \<open>
  \<open>consumed r bs r'\<close>: the bytes \<open>bs\<close> come next at the cursor of \<open>r\<close>, and \<open>r'\<close> is the reader with
  the cursor after them. Every reading step is described by it.
\<close>

definition unread :: "reader \<Rightarrow> bytes" where
  "unread r = drop (roff r) (rdata r)"

definition consumed :: "reader \<Rightarrow> bytes \<Rightarrow> reader \<Rightarrow> bool" where
  "consumed r bs r' \<longleftrightarrow> (\<exists>rest. unread r = bs @ rest) \<and> r' = r\<lparr>roff := roff r + length bs\<rparr>"

lemma consumed_Nil [simp]: "consumed r [] r' \<longleftrightarrow> r' = r"
  by (simp add: consumed_def)

lemma consumed_append: "consumed r (a @ b) r' \<longleftrightarrow> (\<exists>r1. consumed r a r1 \<and> consumed r1 b r')"
proof -
  have "unread (r\<lparr>roff := roff r + length a\<rparr>) = drop (length a) (unread r)"
    by (simp add: unread_def add.commute)
  then show ?thesis by (auto simp: consumed_def add.assoc)
qed

lemma consumed_Cons: "consumed r (x # b) r' \<longleftrightarrow> (\<exists>r1. consumed r [x] r1 \<and> consumed r1 b r')"
  using consumed_append [of r "[x]" b r'] by simp

lemma consumed_fun: "consumed r bs r1 \<Longrightarrow> consumed r bs r2 \<Longrightarrow> r1 = r2"
  by (simp add: consumed_def)

lemma consumed_unique: "consumed r a r1 \<Longrightarrow> consumed r b r2 \<Longrightarrow> length a = length b \<Longrightarrow> a = b"
  unfolding consumed_def by (metis append_eq_append_conv)

lemma consumed_data: "consumed r bs r' \<Longrightarrow> rdata r' = rdata r \<and> roff r' = roff r + length bs"
  by (simp add: consumed_def)

lemma consumed_fits: "consumed r bs r' \<Longrightarrow> roff r \<le> length (rdata r) \<Longrightarrow> roff r' \<le> length (rdata r')"
proof -
  assume c: "consumed r bs r'" and r: "roff r \<le> length (rdata r)"
  then obtain rest where "unread r = bs @ rest" by (auto simp: consumed_def)
  then have "length (rdata r) - roff r = length bs + length rest"
    by (metis length_append length_drop unread_def)
  with r consumed_data [OF c] show ?thesis by simp
qed

lemma rd_take_Inr [simp]: "rd_take n r = Inr (bs, r') \<longleftrightarrow> length bs = n \<and> consumed r bs r'"
proof
  assume t: "rd_take n r = Inr (bs, r')"
  then have bs: "bs = take n (unread r)" and n: "n \<le> length (unread r)"
    by (auto simp: rd_take_def unread_def split: if_splits)
  then have "unread r = bs @ drop n (unread r)" and "length bs = n" by simp_all
  with t show "length bs = n \<and> consumed r bs r'"
    unfolding consumed_def by (auto simp: rd_take_def split: if_splits)
next
  assume "length bs = n \<and> consumed r bs r'"
  then obtain rest where u: "unread r = bs @ rest" "length bs = n" "r' = r\<lparr>roff := roff r + n\<rparr>"
    by (auto simp: consumed_def)
  then have "n \<le> length (unread r)" and "take n (unread r) = bs" by simp_all
  then show "rd_take n r = Inr (bs, r')" using u(3) by (simp add: rd_take_def unread_def)
qed

lemma consumed_all: "consumed \<lparr>rdata = bs, roff = 0\<rparr> bs r \<longleftrightarrow> r = \<lparr>rdata = bs, roff = length bs\<rparr>"
  by (simp add: consumed_def unread_def)

lemma consumed_to_end:
  "consumed \<lparr>rdata = d, roff = 0\<rparr> bs r \<Longrightarrow> roff r = length d \<Longrightarrow> bs = d"
  by (auto simp: consumed_def unread_def)

section \<open>The contract of a field\<close>

fun rd_many :: "('r \<Rightarrow> ('a \<times> 'r) res) \<Rightarrow> nat \<Rightarrow> 'r \<Rightarrow> ('a list \<times> 'r) res" where
  "rd_many dec 0 r = Inr ([], r)"
| "rd_many dec (Suc n) r = bindE (dec r) (\<lambda>(x, r).
     bindE (rd_many dec n r) (\<lambda>(xs, r). Inr (x # xs, r)))"

definition enc_all :: "('a \<Rightarrow> bytes res) \<Rightarrow> 'a list \<Rightarrow> bytes res" where
  "enc_all enc xs = bindE (mapE enc xs) (\<lambda>bs. Inr (concat bs))"

lemma enc_all_simps [simp]:
  "enc_all enc [] = Inr []"
  "enc_all enc (x # xs) = bindE (enc x) (\<lambda>b. bindE (enc_all enc xs) (\<lambda>bs. Inr (b @ bs)))"
  by (auto simp: enc_all_def bindE_def split: sum.splits)

locale codec =
  fixes wf :: "'a \<Rightarrow> bool"
    and enc :: "'a \<Rightarrow> bytes res"
    and dec :: "reader \<Rightarrow> ('a \<times> reader) res"
  assumes encodable: "wf x \<Longrightarrow> \<exists>bs. enc x = Inr bs"
    and dec_iff: "dec r = Inr (x, r') \<longleftrightarrow> wf x \<and> (\<exists>bs. enc x = Inr bs \<and> consumed r bs r')"
begin

text \<open>A decoded field is the only value with its encoding.\<close>

lemma enc_inj: "wf x \<Longrightarrow> wf y \<Longrightarrow> enc x = Inr bs \<Longrightarrow> enc y = Inr bs \<Longrightarrow> x = y"
proof -
  assume *: "wf x" "wf y" "enc x = Inr bs" "enc y = Inr bs"
  let ?r = "\<lparr>rdata = bs, roff = 0\<rparr>" and ?r' = "\<lparr>rdata = bs, roff = length bs\<rparr>"
  have "dec ?r = Inr (x, ?r')" and "dec ?r = Inr (y, ?r')"
    using * by (simp_all add: dec_iff consumed_all)
  then show "x = y" by simp
qed

lemma many_encodable: "list_all wf xs \<Longrightarrow> \<exists>bs. enc_all enc xs = Inr bs"
proof (induction xs)
  case (Cons x xs)
  then show ?case using encodable [of x] by auto
qed simp

lemma many_dec_iff:
  "rd_many dec n r = Inr (xs, r') \<longleftrightarrow>
    (length xs = n \<and> list_all wf xs) \<and> (\<exists>bs. enc_all enc xs = Inr bs \<and> consumed r bs r')"
proof (induction n arbitrary: r xs)
  case (Suc n)
  show ?case
    by (cases xs) (auto simp: dec_iff Suc.IH consumed_append split: prod.splits; blast)+
qed auto

lemma many_codec: "codec (\<lambda>xs. length xs = n \<and> list_all wf xs) (enc_all enc) (rd_many dec n)"
  by unfold_locales (use many_encodable many_dec_iff in blast)+

end

text \<open>Two fields in a row.\<close>

definition enc_pair :: "('a \<Rightarrow> bytes res) \<Rightarrow> ('b \<Rightarrow> bytes res) \<Rightarrow> 'a \<times> 'b \<Rightarrow> bytes res" where
  "enc_pair f g p = bindE (f (fst p)) (\<lambda>a. bindE (g (snd p)) (\<lambda>b. Inr (a @ b)))"

definition rd_pair :: "(reader \<Rightarrow> ('a \<times> reader) res) \<Rightarrow> (reader \<Rightarrow> ('b \<times> reader) res)
    \<Rightarrow> reader \<Rightarrow> (('a \<times> 'b) \<times> reader) res" where
  "rd_pair d e r = bindE (d r) (\<lambda>(a, r). bindE (e r) (\<lambda>(b, r). Inr ((a, b), r)))"

lemma codec_pair:
  assumes "codec wf1 enc1 dec1" and "codec wf2 enc2 dec2"
  shows "codec (\<lambda>p. wf1 (fst p) \<and> wf2 (snd p)) (enc_pair enc1 enc2) (rd_pair dec1 dec2)"
proof (unfold_locales, goal_cases)
  case (1 p)
  then show ?case using assms [THEN codec.encodable] by (fastforce simp: enc_pair_def)
next
  case (2 r p r')
  then show ?case
    by (cases p) (auto simp: rd_pair_def enc_pair_def codec.dec_iff [OF assms(1)]
        codec.dec_iff [OF assms(2)] consumed_append split: prod.splits; blast)
qed

section \<open>The primitive fields\<close>

lemma rd_byte_Inr [simp]: "rd_byte r = Inr (n, r') \<longleftrightarrow> n < 256 \<and> consumed r [of_nat n] r'"
proof
  assume "rd_byte r = Inr (n, r')"
  then obtain bs where "length bs = 1" "consumed r bs r'" "n = unat (bs ! 0)"
    by (auto simp: rd_byte_def)
  then show "n < 256 \<and> consumed r [of_nat n] r'" by (cases bs) simp_all
next
  assume n: "n < 256 \<and> consumed r [of_nat n] r'"
  then have t: "rd_take 1 r = Inr ([of_nat n], r')" by simp
  show "rd_byte r = Inr (n, r')" unfolding rd_byte_def t using n by (simp add: unat_of_nat_byte)
qed

lemma rd_le_Inr:
  "bindE (rd_take k r) (\<lambda>(bs, r). Inr (le_val bs, r)) = Inr (n, r') \<longleftrightarrow>
     n < 256 ^ k \<and> consumed r (le_bytes k n) r'"
proof
  assume "bindE (rd_take k r) (\<lambda>(bs, r). Inr (le_val bs, r)) = Inr (n, r')"
  then obtain bs where "length bs = k" "consumed r bs r'" "n = le_val bs" by auto
  with le_val_bound [of bs] show "n < 256 ^ k \<and> consumed r (le_bytes k n) r'" by auto
next
  assume n: "n < 256 ^ k \<and> consumed r (le_bytes k n) r'"
  then have t: "rd_take k r = Inr (le_bytes k n, r')" by simp
  show "bindE (rd_take k r) (\<lambda>(bs, r). Inr (le_val bs, r)) = Inr (n, r')"
    unfolding t using n by simp
qed

lemma rd_uint_Inr [simp]:
  "rd_uint r = Inr (n, r') \<longleftrightarrow> n < 256 ^ 4 \<and> consumed r (le_bytes 4 n) r'"
  unfolding rd_uint_def by (rule rd_le_Inr)

interpretation u32_field: codec "\<lambda>n. n < 256 ^ 4" "\<lambda>n. u32 (int n)" rd_uint
  by unfold_locales auto

text \<open>\<open>reader.count(max)\<close> reads what \<open>compactSize\<close> writes, and only its shortest form.\<close>

lemma compactSize_Inr:
  "compactSize n = Inr bs \<longleftrightarrow> n \<le> MAX_TX_BYTES \<and>
     (n < 253 \<and> bs = [of_nat n] \<or> 253 \<le> n \<and> n \<le> 65535 \<and> bs = 253 # le_bytes 2 n
      \<or> 65535 < n \<and> bs = 254 # le_bytes 4 n)"
  by (auto simp: compactSize_def MAX_TX_BYTES_def)

lemma rd_count_iff:
  assumes "limit \<le> MAX_TX_BYTES"
  shows "rd_count limit r = Inr (n, r') \<longleftrightarrow>
    n \<le> limit \<and> (\<exists>bs. compactSize n = Inr bs \<and> consumed r bs r')"
  (is "?dec \<longleftrightarrow> ?enc")
proof
  assume ?dec
  then obtain m r1 n' r2 where b: "rd_byte r = Inr (m, r1)"
    and body: "(if m < 253 then Inr (m, r1)
            else if m = 253 then bindE (rd_take 2 r1) (\<lambda>(bs, r). Inr (le_val bs, r))
            else if m = 254 then rd_uint r1
            else bindE (rd_take 8 r1) (\<lambda>(bs, r). Inr (le_val bs, r))) = Inr (n', r2)"
    and checked: "(if m = 253 \<and> n' < 253 \<or> m = 254 \<and> n' \<le> 65535 \<or> m = 255 \<or> n' > limit
            then Inl NoncanonicalCompactSize else Inr (n', r2)) = Inr (n, r')"
    unfolding rd_count_def bindE_prod_Inr by blast
  from b have m: "m < 256" "consumed r [of_nat m] r1" by simp_all
  from checked have ok: "\<not> (m = 253 \<and> n < 253 \<or> m = 254 \<and> n \<le> 65535 \<or> m = 255 \<or> n > limit)"
    and "n' = n" "r2 = r'" by (simp_all split: if_splits)
  with body have rest: "(if m < 253 then Inr (m, r1)
            else if m = 253 then bindE (rd_take 2 r1) (\<lambda>(bs, r). Inr (le_val bs, r))
            else if m = 254 then rd_uint r1
            else bindE (rd_take 8 r1) (\<lambda>(bs, r). Inr (le_val bs, r))) = Inr (n, r')" by simp
  from m(1) ok consider "m < 253" | "m = 253" | "m = 254" by linarith
  then show ?enc
  proof cases
    case 1
    with rest ok m assms show ?thesis by (auto simp: compactSize_Inr)
  next
    case 2
    with rest have "bindE (rd_take 2 r1) (\<lambda>(bs, r). Inr (le_val bs, r)) = Inr (n, r')"
      by (simp del: bindE_prod_Inr)
    then have "consumed r1 (le_bytes 2 n) r'" and n2: "n \<le> 65535" unfolding rd_le_Inr by simp_all
    moreover have "consumed r [253] r1" using m(2) 2 by simp
    ultimately have "consumed r (253 # le_bytes 2 n) r'" by (subst consumed_Cons) blast
    moreover have "compactSize n = Inr (253 # le_bytes 2 n)"
      using 2 n2 ok assms by (simp add: compactSize_Inr)
    ultimately show ?thesis using ok by auto
  next
    case 3
    with rest have "consumed r1 (le_bytes 4 n) r'" by simp
    moreover have "consumed r [254] r1" using m(2) 3 by simp
    ultimately have "consumed r (254 # le_bytes 4 n) r'" by (subst consumed_Cons) blast
    moreover have "compactSize n = Inr (254 # le_bytes 4 n)"
      using 3 ok assms by (simp add: compactSize_Inr)
    ultimately show ?thesis using ok by auto
  qed
next
  assume ?enc
  then obtain bs where n: "n \<le> limit" "compactSize n = Inr bs" "consumed r bs r'" by blast
  then have l: "n < 256 ^ 4" using assms by (simp add: MAX_TX_BYTES_def)
  from n(2) consider "n < 253" "bs = [of_nat n]" | "253 \<le> n" "n \<le> 65535" "bs = 253 # le_bytes 2 n"
    | "65535 < n" "bs = 254 # le_bytes 4 n" by (auto simp: compactSize_Inr)
  then show ?dec
  proof cases
    case 1
    with n have b: "rd_byte r = Inr (n, r')" by simp
    show ?thesis unfolding rd_count_def b using 1 n(1) by simp
  next
    case 2
    with n(3) obtain r1 where r1: "consumed r [253] r1" "consumed r1 (le_bytes 2 n) r'"
      using consumed_Cons [of r 253 "le_bytes 2 n"] 2 by auto
    then have b: "rd_byte r = Inr (253, r1)" by simp
    have "n < 256 ^ 2" using 2 by simp
    then have c: "bindE (rd_take 2 r1) (\<lambda>(bs, r). Inr (le_val bs, r)) = Inr (n, r')"
      using r1 by (simp only: rd_le_Inr)
    show ?thesis unfolding rd_count_def b using 2 n(1) by (simp add: c del: bindE_prod_Inr)
  next
    case 3
    with n(3) obtain r1 where r1: "consumed r [254] r1" "consumed r1 (le_bytes 4 n) r'"
      using consumed_Cons [of r 254 "le_bytes 4 n"] 3 by auto
    then have b: "rd_byte r = Inr (254, r1)" and c: "rd_uint r1 = Inr (n, r')" using l by simp_all
    show ?thesis unfolding rd_count_def b using 3 n(1) by (simp add: c del: bindE_prod_Inr rd_uint_Inr)
  qed
qed

lemma compactSize_ok: "n \<le> MAX_TX_BYTES \<Longrightarrow> \<exists>bs. compactSize n = Inr bs"
  by (cases "n < 253"; cases "n \<le> 65535") (auto simp: compactSize_Inr)

lemma count_codec: "limit \<le> MAX_TX_BYTES \<Longrightarrow> codec (\<lambda>n. n \<le> limit) compactSize (rd_count limit)"
  by unfold_locales (auto intro: compactSize_ok simp: rd_count_iff)

lemma blob_codec:
  assumes "limit \<le> MAX_TX_BYTES"
  shows "codec (\<lambda>bs. length bs \<le> limit) variable (rd_blob limit)"
proof (unfold_locales, goal_cases)
  case (1 bs)
  then show ?case using compactSize_ok [of "length bs"] assms by (auto simp: variable_def)
next
  case (2 r x r')
  show ?case
    by (auto simp: rd_blob_def variable_def rd_count_iff [OF assms] consumed_append; blast)
qed

end
