(* ===== verification/Transaction.thy ===== *)
theory Transaction
  imports Wire "HOL-Library.AList"
begin

text \<open>
  Native transactions (\<open>src/src/core/transaction.mjs\<close>): typed outputs, serialization with and
  without witnesses, the full parser and the framing-only identity check. Lifting a public key
  onto the curve is done by a library outside the repository and is the parameter \<open>on_curve\<close>;
  SHA-256 is the parameter \<open>sha\<close>. The per-operation cache of lifted keys is state that the
  functions pass on, as the code's \<open>publicKeys\<close> map.
\<close>

section \<open>Data\<close>

definition MAX_PROOF_SIZE :: nat where "MAX_PROOF_SIZE = 65536"
definition MAX_INPUTS :: nat where "MAX_INPUTS = 10000"
definition MAX_OUTPUTS :: nat where "MAX_OUTPUTS = 10000"

lemmas tx_limits = MAX_PROOF_SIZE_def MAX_INPUTS_def MAX_OUTPUTS_def MAX_TX_BYTES_def

text \<open>Outputs by their \<open>type\<close> byte: 1 pays to a key, 2 is a bounty, anything else is refused.\<close>

datatype tx_output =
    P2PK (out_amount: string) (out_publicKey: string)
  | P2C (out_amount: string) (out_domain: string) (out_target: string) (out_rootVersion: int) (out_mask: int)
  | OtherOutput (out_amount: string)

record tx_input =
  txid :: string
  vout :: int
  scriptSig :: string
  sequence :: int
  witness :: "string list"

record tx =
  version :: int
  inputs :: "tx_input list"
  outputs :: "tx_output list"
  locktime :: int

datatype key_arg = KHex string | KBytes bytes

type_synonym key_cache = "(string \<times> bytes) list"

section \<open>Public keys\<close>

definition validatePublicKey :: "(bytes \<Rightarrow> bool) \<Rightarrow> key_arg \<Rightarrow> bytes res" where
  "validatePublicKey on_curve k =
     (case (case k of KHex s \<Rightarrow> if length s = 64 \<and> list_all is_hex s then Some (bytes_of_hex s) else None
                    | KBytes b \<Rightarrow> Some b) of
        None \<Rightarrow> Inl BadPublicKey
      | Some key \<Rightarrow> if length key \<noteq> 32 \<or> \<not> on_curve key then Inl BadPublicKey else Inr key)"

definition transactionPublicKey ::
    "(bytes \<Rightarrow> bool) \<Rightarrow> key_arg \<Rightarrow> key_cache option \<Rightarrow> (bytes \<times> key_cache option) res" where
  "transactionPublicKey on_curve v keys =
     (let key = (case v of KHex s \<Rightarrow> if length s = 64 then Some (lower_str s) else None
                         | KBytes b \<Rightarrow> if length b = 32 then Some (hex_of_bytes b) else None);
          hit = (case (key, keys) of (Some k, Some c) \<Rightarrow> map_of c k | _ \<Rightarrow> None)
      in case hit of
           Some b \<Rightarrow> Inr (b, keys)
         | None \<Rightarrow> bindE (validatePublicKey on_curve v) (\<lambda>validated.
             Inr (validated, case keys of None \<Rightarrow> None
               | Some c \<Rightarrow> if length c < MAX_OUTPUTS
                   then Some (AList.update (hex_of_bytes validated) validated c) else Some c)))"

section \<open>Domains\<close>

definition is_lower_alnum :: "char \<Rightarrow> bool" where
  "is_lower_alnum c \<longleftrightarrow> is_digit c \<or> (97 \<le> (of_char c :: nat) \<and> (of_char c :: nat) \<le> 122)"

definition canonical_label :: "string \<Rightarrow> bool" where
  "canonical_label l \<longleftrightarrow> 1 \<le> length l \<and> length l \<le> 63 \<and> is_lower_alnum (hd l) \<and> is_lower_alnum (last l)
     \<and> list_all (\<lambda>c. is_lower_alnum c \<or> c = CHR ''-'') l"

definition isCanonicalDomain :: "string \<Rightarrow> bool" where
  "isCanonicalDomain d \<longleftrightarrow> 1 \<le> length d \<and> length d \<le> 253
     \<and> list_all (\<lambda>c. is_lower_alnum c \<or> c = CHR ''.'' \<or> c = CHR ''-'') d
     \<and> list_all canonical_label (js_split (CHR ''.'') d)"

definition ascii_bytes :: "string \<Rightarrow> bytes" where
  "ascii_bytes s = map (\<lambda>c. of_nat (of_char c)) s"

definition ascii_text :: "bytes \<Rightarrow> string" where
  "ascii_text bs = map (\<lambda>b. char_of (unat b)) bs"

section \<open>Serialization\<close>

definition outputPayloadWithKeys ::
    "(bytes \<Rightarrow> bool) \<Rightarrow> tx_output \<Rightarrow> key_cache option \<Rightarrow> (bytes \<times> key_cache option) res" where
  "outputPayloadWithKeys on_curve out keys = (case out of
       P2PK a pk \<Rightarrow> bindE (transactionPublicKey on_curve (KHex pk) keys) (\<lambda>(k, keys). Inr (1 # k, keys))
     | P2C a d t rv m \<Rightarrow>
         if \<not> isCanonicalDomain d then Inl NoncanonicalDomain
         else if rv < 1 \<or> rv > 0xffffffff then Inl InvalidRootVersion
         else if m < 1 \<or> m > 7 then Inl InvalidSignatureMask
         else bindE (hexBytes (Some 32) t) (\<lambda>target. bindE (u32 rv) (\<lambda>root.
           Inr ([2, of_nat (length d)] @ ascii_bytes d @ rev target @ root @ [of_int m], keys)))
     | OtherOutput a \<Rightarrow> Inl UnknownOutputType)"

definition outputPayload :: "(bytes \<Rightarrow> bool) \<Rightarrow> tx_output \<Rightarrow> bytes res" where
  "outputPayload on_curve out = bindE (outputPayloadWithKeys on_curve out None) (\<lambda>(p, _). Inr p)"

definition serializeOutputWithKeys ::
    "(bytes \<Rightarrow> bool) \<Rightarrow> tx_output \<Rightarrow> key_cache option \<Rightarrow> (bytes \<times> key_cache option) res" where
  "serializeOutputWithKeys on_curve out keys =
     bindE (i64 (JStr (out_amount out))) (\<lambda>a.
     bindE (outputPayloadWithKeys on_curve out keys) (\<lambda>(p, keys). Inr (a @ p, keys)))"

definition serializeOutput :: "(bytes \<Rightarrow> bool) \<Rightarrow> tx_output \<Rightarrow> bytes res" where
  "serializeOutput on_curve out = bindE (serializeOutputWithKeys on_curve out None) (\<lambda>(b, _). Inr b)"

definition outpoint :: "tx_input \<Rightarrow> bytes res" where
  "outpoint i = bindE (hexBytes (Some 32) (txid i)) (\<lambda>t. bindE (u32 (vout i)) (\<lambda>v. Inr (rev t @ v)))"

definition sum_outputs :: "tx_output list \<Rightarrow> int res" where
  "sum_outputs outs = foldE (\<lambda>out total. bindE (amountInConnects (JStr (out_amount out))) (\<lambda>a.
     if total + a > MAX_MONEY then Inl TotalOutOfRange else Inr (total + a))) outs 0"

definition check_inputs :: "tx_input list \<Rightarrow> bytes list \<Rightarrow> bytes list res" where
  "check_inputs = foldE (\<lambda>i seen. bindE (outpoint i) (\<lambda>key.
     if key \<in> set seen then Inl DuplicateInput
     else bindE (hexBytes None (scriptSig i)) (\<lambda>s.
       if length s > 10000 \<or> length (witness i) > 100 then Inl OversizedInput
       else Inr (key # seen))))"

definition validateShape :: "tx \<Rightarrow> unit res" where
  "validateShape t =
     bindE (u32 (version t)) (\<lambda>_. bindE (u32 (locktime t)) (\<lambda>_.
     if length (inputs t) < 1 \<or> length (inputs t) > MAX_INPUTS
        \<or> length (outputs t) < 1 \<or> length (outputs t) > MAX_OUTPUTS
     then Inl InvalidCounts
     else bindE (sum_outputs (outputs t)) (\<lambda>_. bindE (check_inputs (inputs t) []) (\<lambda>_. Inr ()))))"

definition serialize_input :: "tx_input \<Rightarrow> bytes res" where
  "serialize_input i = bindE (outpoint i) (\<lambda>op. bindE (hexBytes None (scriptSig i)) (\<lambda>s.
     bindE (variable s) (\<lambda>v. bindE (u32 (sequence i)) (\<lambda>q. Inr (op @ v @ q)))))"

definition serialize_item :: "string \<Rightarrow> bytes res" where
  "serialize_item item = bindE (hexBytes None item) (\<lambda>data.
     if length data > MAX_PROOF_SIZE then Inl OversizedWitness else variable data)"

definition serialize_stack :: "string list \<Rightarrow> bytes res" where
  "serialize_stack items = bindE (compactSize (length items)) (\<lambda>n.
     bindE (enc_all serialize_item items) (\<lambda>bs. Inr (n @ bs)))"

definition has_witness :: "tx_input list \<Rightarrow> bool" where
  "has_witness ins = list_ex (\<lambda>i. witness i \<noteq> []) ins"

definition serializeTransactionWithKeys ::
    "(bytes \<Rightarrow> bool) \<Rightarrow> tx \<Rightarrow> bool \<Rightarrow> key_cache option \<Rightarrow> (bytes \<times> key_cache option) res" where
  "serializeTransactionWithKeys on_curve t with_witness keys =
     bindE (validateShape t) (\<lambda>_.
     let hasWitness = with_witness \<and> has_witness (inputs t) in
     bindE (u32 (version t)) (\<lambda>v.
     bindE (compactSize (length (inputs t))) (\<lambda>nin.
     bindE (enc_all serialize_input (inputs t)) (\<lambda>ins.
     bindE (compactSize (length (outputs t))) (\<lambda>nout.
     bindE (mapSE (serializeOutputWithKeys on_curve) (outputs t) keys) (\<lambda>(outs, keys).
     bindE (if hasWitness then enc_all (\<lambda>i. serialize_stack (witness i)) (inputs t) else Inr []) (\<lambda>wits.
     bindE (u32 (locktime t)) (\<lambda>lt.
     let result = v @ (if hasWitness then [0, 1] else []) @ nin @ ins @ nout @ concat outs @ wits @ lt in
     if length result > MAX_TX_BYTES then Inl TransactionTooLarge else Inr (result, keys)))))))))"

definition serializeTransaction :: "(bytes \<Rightarrow> bool) \<Rightarrow> tx \<Rightarrow> bool \<Rightarrow> bytes res" where
  "serializeTransaction on_curve t with_witness =
     bindE (serializeTransactionWithKeys on_curve t with_witness (Some [])) (\<lambda>(b, _). Inr b)"

definition hash256 :: "(bytes \<Rightarrow> bytes) \<Rightarrow> bytes \<Rightarrow> bytes" where
  "hash256 sha b = sha (sha b)"

definition transactionId :: "(bytes \<Rightarrow> bytes) \<Rightarrow> (bytes \<Rightarrow> bool) \<Rightarrow> tx \<Rightarrow> string res" where
  "transactionId sha on_curve t =
     bindE (serializeTransaction on_curve t False) (\<lambda>b. Inr (hex_of_bytes (rev (hash256 sha b))))"

definition transactionVsize :: "(bytes \<Rightarrow> bool) \<Rightarrow> tx \<Rightarrow> nat res" where
  "transactionVsize on_curve t =
     bindE (serializeTransaction on_curve t False) (\<lambda>base.
     bindE (serializeTransaction on_curve t True) (\<lambda>full.
     Inr ((length base * 3 + length full + 3) div 4)))"

section \<open>Parsing\<close>

definition rd_amount :: "reader \<Rightarrow> (int \<times> reader) res" where
  "rd_amount r = bindE (rd_take 8 r) (\<lambda>(bs, r).
     let n = le_val bs; signed = (if n < 2 ^ 63 then int n else int n - 2 ^ 64)
     in bindE (amountInConnects (JBig signed)) (\<lambda>a. Inr (a, r)))"

definition rd_input :: "reader \<Rightarrow> (tx_input \<times> reader) res" where
  "rd_input r = bindE (rd_take 32 r) (\<lambda>(id, r). bindE (rd_uint r) (\<lambda>(v, r).
     bindE (rd_blob 10000 r) (\<lambda>(s, r). bindE (rd_uint r) (\<lambda>(q, r).
     Inr (\<lparr>txid = hex_of_bytes (rev id), vout = int v, scriptSig = hex_of_bytes s,
           sequence = int q, witness = []\<rparr>, r)))))"

definition rd_output_keys ::
    "(bytes \<Rightarrow> bool) \<Rightarrow> reader \<times> key_cache option \<Rightarrow> (tx_output \<times> reader \<times> key_cache option) res" where
  "rd_output_keys on_curve = (\<lambda>(r, keys).
     bindE (rd_amount r) (\<lambda>(a, r). let amount = dec_str (nat a) in
     bindE (rd_byte r) (\<lambda>(ty, r).
       if ty = 1 then
         bindE (rd_take 32 r) (\<lambda>(k, r).
         bindE (transactionPublicKey on_curve (KBytes k) keys) (\<lambda>(pk, keys).
         Inr (P2PK amount (hex_of_bytes pk), r, keys)))
       else if ty = 2 then
         bindE (rd_byte r) (\<lambda>(n, r). bindE (rd_take n r) (\<lambda>(d, r).
         if list_ex (\<lambda>b. unat b > 127) d then Inl NonAsciiDomain
         else bindE (rd_take 32 r) (\<lambda>(t, r). bindE (rd_uint r) (\<lambda>(rv, r). bindE (rd_byte r) (\<lambda>(m, r).
           let out = P2C amount (ascii_text d) (hex_of_bytes (rev t)) (int rv) (int m) in
           bindE (outputPayload on_curve out) (\<lambda>_. Inr (out, r, keys)))))))
       else Inl UnknownOutputType)))"

definition rd_stack :: "reader \<Rightarrow> (string list \<times> reader) res" where
  "rd_stack r = bindE (rd_count 100 r) (\<lambda>(n, r).
     rd_many (\<lambda>r. bindE (rd_blob MAX_PROOF_SIZE r) (\<lambda>(b, r). Inr (hex_of_bytes b, r))) n r)"

text \<open>\<open>count > (data.length - offset) / size\<close>: more records than the rest of the data can hold.\<close>

definition too_many :: "nat \<Rightarrow> nat \<Rightarrow> reader \<Rightarrow> bool" where
  "too_many n sz r \<longleftrightarrow> n < 1 \<or> n * sz > length (rdata r) - roff r"

definition rd_in_count :: "reader \<Rightarrow> (nat \<times> bool \<times> reader) res" where
  "rd_in_count r = bindE (rd_count MAX_INPUTS r) (\<lambda>(n, r).
     if n = 0 then bindE (rd_byte r) (\<lambda>(f, r).
       if f \<noteq> 1 then Inl UnknownWitnessFlag
       else bindE (rd_count MAX_INPUTS r) (\<lambda>(n, r). Inr (n, True, r)))
     else Inr (n, False, r))"

definition set_witness :: "tx_input \<Rightarrow> string list \<Rightarrow> tx_input" where
  "set_witness i w = i\<lparr>witness := w\<rparr>"

definition parseTransactionWithKeys ::
    "(bytes \<Rightarrow> bool) \<Rightarrow> string \<Rightarrow> key_cache option \<Rightarrow> (tx \<times> key_cache option) res" where
  "parseTransactionWithKeys on_curve raw keys =
     (if length raw > MAX_TX_BYTES * 2 then Inl TransactionTooLarge else
     bindE (hexBytes None raw) (\<lambda>data.
     bindE (rd_uint \<lparr>rdata = data, roff = 0\<rparr>) (\<lambda>(v, r).
     bindE (rd_in_count r) (\<lambda>(n, witnessed, r).
     if too_many n 41 r then Inl InvalidInputCount else
     bindE (rd_many rd_input n r) (\<lambda>(ins, r).
     bindE (rd_count MAX_OUTPUTS r) (\<lambda>(m, r).
     if too_many m 9 r then Inl InvalidOutputCount else
     bindE (rd_many (rd_output_keys on_curve) m (r, keys)) (\<lambda>(outs, r, keys).
     bindE (if witnessed then rd_many rd_stack n r else Inr (replicate n [], r)) (\<lambda>(wits, r).
     let ins = map2 set_witness ins wits in
     if witnessed \<and> \<not> has_witness ins then Inl SuperfluousWitness else
     bindE (rd_uint r) (\<lambda>(lt, r).
     let t = \<lparr>version = int v, inputs = ins, outputs = outs, locktime = int lt\<rparr> in
     if roff r \<noteq> length (rdata r) then Inl TrailingData else
     bindE (serializeTransactionWithKeys on_curve t True keys) (\<lambda>(bytes, keys).
     if bytes \<noteq> data then Inl NoncanonicalTransaction else Inr (t, keys)))))))))))"

definition parseTransaction :: "(bytes \<Rightarrow> bool) \<Rightarrow> string \<Rightarrow> tx res" where
  "parseTransaction on_curve raw =
     bindE (parseTransactionWithKeys on_curve raw (Some [])) (\<lambda>(t, _). Inr t)"

section \<open>The framing-only identity check\<close>

fun skim_inputs :: "nat \<Rightarrow> bytes list \<Rightarrow> reader \<Rightarrow> reader res" where
  "skim_inputs 0 seen r = Inr r"
| "skim_inputs (Suc n) seen r = bindE (rd_take 36 r) (\<lambda>(op, r).
     if op \<in> set seen then Inl DuplicateInput
     else bindE (rd_blob 10000 r) (\<lambda>(_, r). bindE (rd_take 4 r) (\<lambda>(_, r). skim_inputs n (op # seen) r)))"

definition skim_payload :: "reader \<Rightarrow> reader res" where
  "skim_payload r = bindE (rd_byte r) (\<lambda>(ty, r).
     if ty = 1 then bindE (rd_take 32 r) (\<lambda>(_, r). Inr r)
     else if ty = 2 then
       bindE (rd_byte r) (\<lambda>(n, r). bindE (rd_take n r) (\<lambda>(d, r).
       if list_ex (\<lambda>b. unat b > 127) d then Inl NonAsciiDomain
       else if \<not> isCanonicalDomain (ascii_text d) then Inl NoncanonicalDomain
       else bindE (rd_take 32 r) (\<lambda>(_, r). bindE (rd_uint r) (\<lambda>(rv, r).
         if rv < 1 then Inl InvalidRootVersion
         else bindE (rd_byte r) (\<lambda>(m, r).
           if m < 1 \<or> m > 7 then Inl InvalidSignatureMask else Inr r)))))
     else Inl UnknownOutputType)"

fun skim_outputs :: "nat \<Rightarrow> int \<Rightarrow> reader \<Rightarrow> reader res" where
  "skim_outputs 0 acc r = Inr r"
| "skim_outputs (Suc n) acc r = bindE (rd_amount r) (\<lambda>(a, r).
     if acc + a > MAX_MONEY then Inl TotalOutOfRange
     else bindE (skim_payload r) (\<lambda>r. skim_outputs n (acc + a) r))"

fun skim_stacks :: "nat \<Rightarrow> bool \<Rightarrow> reader \<Rightarrow> (bool \<times> reader) res" where
  "skim_stacks 0 has r = Inr (has, r)"
| "skim_stacks (Suc n) has r = bindE (rd_count 100 r) (\<lambda>(k, r).
     bindE (rd_many (rd_blob MAX_PROOF_SIZE) k r) (\<lambda>(_, r). skim_stacks n (has \<or> k > 0) r))"

definition transactionIdFromRaw :: "(bytes \<Rightarrow> bytes) \<Rightarrow> string \<Rightarrow> string res" where
  "transactionIdFromRaw sha raw =
     (if length raw > MAX_TX_BYTES * 2 then Inl TransactionTooLarge else
     bindE (hexBytes None raw) (\<lambda>data.
     bindE (rd_take 4 \<lparr>rdata = data, roff = 0\<rparr>) (\<lambda>(v, r).
     bindE (rd_count MAX_INPUTS r) (\<lambda>(n0, r0).
     bindE (if n0 = 0 then bindE (rd_byte r0) (\<lambda>(f, r).
              if f \<noteq> 1 then Inl UnknownWitnessFlag
              else bindE (rd_count MAX_INPUTS r) (\<lambda>(n, r'). Inr ((n, True, roff r), r')))
            else Inr ((n0, False, roff r), r0)) (\<lambda>((n, witnessed, inputStart), r).
     if too_many n 41 r then Inl InvalidInputCount else
     bindE (skim_inputs n [] r) (\<lambda>r.
     bindE (rd_count MAX_OUTPUTS r) (\<lambda>(m, r).
     if too_many m 9 r then Inl InvalidOutputCount else
     bindE (skim_outputs m 0 r) (\<lambda>r.
     let outputsEnd = roff r in
     bindE (if witnessed then skim_stacks n False r else Inr (False, r)) (\<lambda>(hasWitness, r).
     if witnessed \<and> \<not> hasWitness then Inl SuperfluousWitness else
     bindE (rd_take 4 r) (\<lambda>(lt, r).
     if roff r \<noteq> length (rdata r) then Inl TrailingData else
     let stripped = (if witnessed
       then v @ take (outputsEnd - inputStart) (drop inputStart data) @ lt else data)
     in Inr (hex_of_bytes (rev (hash256 sha stripped)))))))))))))"

end
