(* ===== verification/Transaction_Fields.thy ===== *)
theory Transaction_Fields
  imports Transaction
begin

text \<open>
  The fields of a native transaction as codecs. First, the cache of lifted public keys is shown
  to be transparent: with a cache that holds only validated keys the serializers return what they
  return without one. Then inputs, typed outputs and witness stacks interpret the contract
  \<open>codec\<close> of \<open>Wire\<close>, each with the predicate that says which values it can carry.
\<close>

section \<open>The key cache is transparent\<close>

definition cache_ok :: "(bytes \<Rightarrow> bool) \<Rightarrow> key_cache option \<Rightarrow> bool" where
  "cache_ok on_curve keys = (case keys of None \<Rightarrow> True
     | Some c \<Rightarrow> list_all (\<lambda>(k, b). length b = 32 \<and> on_curve b \<and> k = hex_of_bytes b) c)"

lemma cache_ok_simps [simp]: "cache_ok oc None" "cache_ok oc (Some [])"
  by (simp_all add: cache_ok_def)

lemma cache_ok_hit:
  "cache_ok oc (Some c) \<Longrightarrow> map_of c k = Some b \<Longrightarrow> length b = 32 \<and> oc b \<and> k = hex_of_bytes b"
  by (auto simp: cache_ok_def list_all_iff dest: map_of_SomeD)

lemma cache_ok_update:
  assumes "cache_ok oc (Some c)" and "length b = 32" and "oc b"
  shows "cache_ok oc (Some (AList.update (hex_of_bytes b) b c))"
proof -
  have "set (AList.update k v c) \<subseteq> insert (k, v) (set c)" for k and v :: bytes
    by (induction c) auto
  with assms show ?thesis by (fastforce simp: cache_ok_def list_all_iff)
qed

lemma lower_char_is_hex: "is_lower_hex (lower_char c) \<Longrightarrow> is_hex c"
  by (auto simp: is_lower_hex_def is_hex_def lower_char_def Let_def split: if_splits)

lemma lower_str_is_hex: "list_all is_lower_hex (lower_str s) \<Longrightarrow> list_all is_hex s"
  by (induction s) (auto simp: lower_str_def dest: lower_char_is_hex)

lemma lower_str_bytes:
  assumes "lower_str s = hex_of_bytes b"
  shows "list_all is_hex s" and "bytes_of_hex s = b" and "length s = 2 * length b"
proof -
  show h: "list_all is_hex s" by (rule lower_str_is_hex) (simp add: assms)
  show l: "length s = 2 * length b" by (metis assms length_hex_of_bytes length_lower_str)
  have "hex_of_bytes (bytes_of_hex s) = lower_str s" using h l by (intro hex_of_bytes_of_hex) simp_all
  with assms show "bytes_of_hex s = b" by (simp add: hex_of_bytes_inject)
qed

lemma validatePublicKey_Inr:
  "validatePublicKey oc v = Inr b \<Longrightarrow> length b = 32 \<and> oc b"
  by (auto simp: validatePublicKey_def split: option.splits if_splits)

text \<open>\<open>same_with\<close>: \<open>m\<close> is \<open>plain\<close> together with some state that satisfies \<open>I\<close>.\<close>

definition same_with :: "('s \<Rightarrow> bool) \<Rightarrow> ('a \<times> 's) res \<Rightarrow> 'a res \<Rightarrow> bool" where
  "same_with I m plain \<longleftrightarrow> (case plain of Inl e \<Rightarrow> m = Inl e | Inr a \<Rightarrow> \<exists>s. m = Inr (a, s) \<and> I s)"

lemma same_with_Inr [simp]: "same_with I (Inr (a, s)) (Inr b) \<longleftrightarrow> a = b \<and> I s"
  by (auto simp: same_with_def)

lemma same_with_Inl [simp]: "same_with I m (Inl e) \<longleftrightarrow> m = Inl e"
  by (simp add: same_with_def)

lemma same_with_bind:
  assumes "same_with I m p" and "\<And>a s. I s \<Longrightarrow> p = Inr a \<Longrightarrow> same_with I (f a s) (g a)"
  shows "same_with I (bindE m (\<lambda>(a, s). f a s)) (bindE p g)"
proof (cases p)
  case (Inl e)
  with assms(1) show ?thesis by simp
next
  case (Inr a)
  with assms(1) obtain s where "m = Inr (a, s)" "I s" by (auto simp: same_with_def)
  with assms(2) [of s a] Inr show ?thesis by simp
qed

lemma same_with_plain:
  assumes "\<And>a. m = Inr a \<Longrightarrow> same_with I (f a) (g a)"
  shows "same_with I (bindE m f) (bindE m g)"
  using assms by (cases m) auto

lemma transactionPublicKey_cached:
  assumes "cache_ok oc keys"
  shows "same_with (cache_ok oc) (transactionPublicKey oc v keys) (validatePublicKey oc v)"
proof (cases "\<exists>k c b. (case v of KHex s \<Rightarrow> if length s = 64 then Some (lower_str s) else None
      | KBytes b \<Rightarrow> if length b = 32 then Some (hex_of_bytes b) else None) = Some k
      \<and> keys = Some c \<and> map_of c k = Some b")
  case True
  then obtain k c b where k: "(case v of KHex s \<Rightarrow> if length s = 64 then Some (lower_str s) else None
      | KBytes b \<Rightarrow> if length b = 32 then Some (hex_of_bytes b) else None) = Some k"
    and c: "keys = Some c" "map_of c k = Some b" by blast
  from cache_ok_hit [OF assms [unfolded c(1)] c(2)]
  have b: "length b = 32" "oc b" "k = hex_of_bytes b" by auto
  have "validatePublicKey oc v = Inr b"
  proof (cases v)
    case (KHex s)
    with k b have "lower_str s = hex_of_bytes b" by (simp split: if_splits)
    from lower_str_bytes [OF this] b KHex show ?thesis by (simp add: validatePublicKey_def)
  next
    case (KBytes x)
    with k b have "x = b" by (simp add: hex_of_bytes_inject split: if_splits)
    with KBytes b show ?thesis by (simp add: validatePublicKey_def)
  qed
  with k c assms show ?thesis by (simp add: transactionPublicKey_def)
next
  case False
  then have "transactionPublicKey oc v keys = bindE (validatePublicKey oc v) (\<lambda>validated.
             Inr (validated, case keys of None \<Rightarrow> None
               | Some c \<Rightarrow> if length c < MAX_OUTPUTS
                   then Some (AList.update (hex_of_bytes validated) validated c) else Some c))"
    unfolding transactionPublicKey_def Let_def by (auto split: option.splits)
  with assms show ?thesis
    by (auto simp: same_with_def validatePublicKey_Inr cache_ok_update split: sum.splits option.splits)
qed

lemma outputPayload_cached:
  assumes "cache_ok oc keys"
  shows "same_with (cache_ok oc) (outputPayloadWithKeys oc out keys) (outputPayload oc out)"
proof (cases out)
  case (P2PK a pk)
  have p: "outputPayload oc out = bindE (validatePublicKey oc (KHex pk)) (\<lambda>k. Inr (1 # k))"
    using transactionPublicKey_cached [of oc None "KHex pk"] P2PK
    by (cases "validatePublicKey oc (KHex pk)")
      (auto simp: outputPayload_def outputPayloadWithKeys_def same_with_def)
  show ?thesis unfolding p using transactionPublicKey_cached [OF assms, of "KHex pk"] P2PK
    by (auto simp: outputPayloadWithKeys_def intro!: same_with_bind)
next
  case (P2C a d t rv m)
  with assms show ?thesis
    by (cases "hexBytes (Some 32) t"; cases "u32 rv")
      (auto simp: outputPayload_def outputPayloadWithKeys_def same_with_def simp del: u32_Inr)
qed (simp add: outputPayload_def outputPayloadWithKeys_def)

lemma serializeOutput_cached:
  assumes "cache_ok oc keys"
  shows "same_with (cache_ok oc) (serializeOutputWithKeys oc out keys) (serializeOutput oc out)"
proof -
  have p: "serializeOutput oc out = bindE (i64 (JStr (out_amount out))) (\<lambda>a.
      bindE (outputPayload oc out) (\<lambda>p. Inr (a @ p)))"
    using outputPayload_cached [of oc None out]
    by (cases "i64 (JStr (out_amount out))"; cases "outputPayload oc out")
      (auto simp: serializeOutput_def serializeOutputWithKeys_def same_with_def)
  show ?thesis unfolding p serializeOutputWithKeys_def
    by (rule same_with_plain, rule same_with_bind) (simp_all add: outputPayload_cached assms)
qed

lemma outputs_cached:
  "cache_ok oc keys \<Longrightarrow> same_with (cache_ok oc) (mapSE (serializeOutputWithKeys oc) outs keys)
     (mapE (serializeOutput oc) outs)"
proof (induction outs arbitrary: keys)
  case (Cons out outs)
  then show ?case
    by (auto intro!: same_with_bind serializeOutput_cached)
qed simp

text \<open>The serializer without a cache, output by output.\<close>

definition serialize_plain :: "(bytes \<Rightarrow> bool) \<Rightarrow> tx \<Rightarrow> bool \<Rightarrow> bytes res" where
  "serialize_plain on_curve t with_witness =
     bindE (validateShape t) (\<lambda>_.
     let hasWitness = with_witness \<and> has_witness (inputs t) in
     bindE (u32 (version t)) (\<lambda>v.
     bindE (compactSize (length (inputs t))) (\<lambda>nin.
     bindE (enc_all serialize_input (inputs t)) (\<lambda>ins.
     bindE (compactSize (length (outputs t))) (\<lambda>nout.
     bindE (mapE (serializeOutput on_curve) (outputs t)) (\<lambda>outs.
     bindE (if hasWitness then enc_all (\<lambda>i. serialize_stack (witness i)) (inputs t) else Inr []) (\<lambda>wits.
     bindE (u32 (locktime t)) (\<lambda>lt.
     let result = v @ (if hasWitness then [0, 1] else []) @ nin @ ins @ nout @ concat outs @ wits @ lt in
     if length result > MAX_TX_BYTES then Inl TransactionTooLarge else Inr result))))))))"

lemma serialize_cached:
  assumes "cache_ok oc keys"
  shows "same_with (cache_ok oc) (serializeTransactionWithKeys oc t w keys) (serialize_plain oc t w)"
  unfolding serializeTransactionWithKeys_def serialize_plain_def Let_def
  by (intro same_with_plain same_with_bind outputs_cached assms) auto

lemma serializeTransaction_plain: "serializeTransaction oc t w = serialize_plain oc t w"
  using serialize_cached [of oc "Some []" t w]
  by (cases "serialize_plain oc t w") (auto simp: serializeTransaction_def same_with_def)

section \<open>Which values a field can carry\<close>

declare hex_of_bytes_inject [simp]

definition hex_field :: "nat \<Rightarrow> string \<Rightarrow> bool" where
  "hex_field n s \<longleftrightarrow> length s = 2 * n \<and> list_all is_lower_hex s"

lemma hex_field_iff: "hex_field n s \<longleftrightarrow> (\<exists>b. length b = n \<and> s = hex_of_bytes b)"
proof
  assume h: "hex_field n s"
  then have "hex_of_bytes (bytes_of_hex s) = s"
    by (subst hex_of_bytes_of_hex) (auto simp: hex_field_def list_all_lower_hex lower_str_lower)
  moreover have "length (bytes_of_hex s) = n" using h by (simp add: hex_field_def length_bytes_of_hex)
  ultimately show "\<exists>b. length b = n \<and> s = hex_of_bytes b" by metis
qed (auto simp: hex_field_def)

definition hex_blob :: "nat \<Rightarrow> string \<Rightarrow> bool" where
  "hex_blob n s \<longleftrightarrow> even (length s) \<and> length s \<le> 2 * n \<and> list_all is_lower_hex s"

lemma hex_blob_iff: "hex_blob n s \<longleftrightarrow> (\<exists>b. length b \<le> n \<and> s = hex_of_bytes b)"
proof -
  have "hex_blob n s \<longleftrightarrow> (\<exists>k \<le> n. hex_field k s)" by (auto simp: hex_blob_def hex_field_def)
  then show ?thesis by (auto simp: hex_field_iff)
qed

definition is_u32 :: "int \<Rightarrow> bool" where
  "is_u32 v \<longleftrightarrow> 0 \<le> v \<and> v \<le> 0xffffffff"

lemma is_u32_int: "n < 256 ^ 4 \<Longrightarrow> is_u32 (int n)"
  by (simp add: is_u32_def)

lemma is_u32_nat: "is_u32 v \<Longrightarrow> nat v < 256 ^ 4 \<and> u32 v = Inr (le_bytes 4 (nat v))"
  by (auto simp: is_u32_def nat_less_iff)

definition wf_input :: "tx_input \<Rightarrow> bool" where
  "wf_input i \<longleftrightarrow> hex_field 32 (txid i) \<and> is_u32 (vout i) \<and> hex_blob 10000 (scriptSig i)
     \<and> is_u32 (sequence i)"

definition wf_stack :: "string list \<Rightarrow> bool" where
  "wf_stack w \<longleftrightarrow> length w \<le> 100 \<and> list_all (hex_blob MAX_PROOF_SIZE) w"

definition wf_amount :: "string \<Rightarrow> bool" where
  "wf_amount s \<longleftrightarrow> (\<exists>n \<in> {amountInConnects (JStr s)}. \<not> isl n)"

definition wf_output :: "(bytes \<Rightarrow> bool) \<Rightarrow> tx_output \<Rightarrow> bool" where
  "wf_output on_curve out = (wf_amount (out_amount out) \<and> (case out of
       P2PK a pk \<Rightarrow> hex_field 32 pk \<and> on_curve (bytes_of_hex pk)
     | P2C a d t rv m \<Rightarrow> isCanonicalDomain d \<and> hex_field 32 t \<and> 1 \<le> rv \<and> rv \<le> 0xffffffff
         \<and> 1 \<le> m \<and> m \<le> 7
     | OtherOutput a \<Rightarrow> False))"

section \<open>Inputs\<close>

lemma outpoint_eq:
  "hex_field 32 (txid i) \<Longrightarrow> is_u32 (vout i) \<Longrightarrow>
     outpoint i = Inr (rev (bytes_of_hex (txid i)) @ le_bytes 4 (nat (vout i)))"
  by (auto simp: outpoint_def hex_field_iff is_u32_def u32_def)

lemma serialize_input_eq:
  assumes "wf_input i"
  obtains n where "compactSize (length (bytes_of_hex (scriptSig i))) = Inr n"
    and "serialize_input i = Inr ((rev (bytes_of_hex (txid i)) @ le_bytes 4 (nat (vout i)))
           @ (n @ bytes_of_hex (scriptSig i)) @ le_bytes 4 (nat (sequence i)))"
proof -
  from assms obtain s where s: "length s \<le> 10000" "scriptSig i = hex_of_bytes s"
    by (auto simp: wf_input_def hex_blob_iff)
  then obtain n where n: "compactSize (length s) = Inr n"
    using compactSize_ok [of "length s"] by (auto simp: MAX_TX_BYTES_def)
  show thesis
    by (rule that [of n]) (use assms s n in \<open>simp_all add: wf_input_def serialize_input_def outpoint_eq
        variable_def is_u32_nat\<close>)
qed

lemma serialize_input_length: "wf_input i \<Longrightarrow> serialize_input i = Inr bs \<Longrightarrow> 41 \<le> length bs"
proof -
  assume w: "wf_input i" and s: "serialize_input i = Inr bs"
  obtain n where n: "compactSize (length (bytes_of_hex (scriptSig i))) = Inr n"
    and e: "serialize_input i = Inr ((rev (bytes_of_hex (txid i)) @ le_bytes 4 (nat (vout i)))
           @ (n @ bytes_of_hex (scriptSig i)) @ le_bytes 4 (nat (sequence i)))"
    by (rule serialize_input_eq [OF w])
  have "1 \<le> length n" using n by (auto simp: compactSize_Inr)
  moreover have "length (bytes_of_hex (txid i)) = 32"
    using w by (simp add: wf_input_def hex_field_def length_bytes_of_hex)
  ultimately show ?thesis using s e by auto
qed

interpretation script_field: codec "\<lambda>bs. length bs \<le> 10000" variable "rd_blob 10000"
  by (rule blob_codec) (simp add: MAX_TX_BYTES_def)

lemma wf_input_iff:
  "wf_input i \<longleftrightarrow> (\<exists>ti v s q w. length ti = 32 \<and> v < 256 ^ 4 \<and> length s \<le> 10000 \<and> q < 256 ^ 4 \<and>
     i = \<lparr>txid = hex_of_bytes (rev ti), vout = int v, scriptSig = hex_of_bytes s, sequence = int q,
          witness = w\<rparr>)" (is "_ \<longleftrightarrow> ?rep")
proof
  assume w: "wf_input i"
  then obtain a s where a: "length a = 32" "txid i = hex_of_bytes a" and "length s \<le> 10000"
      and "scriptSig i = hex_of_bytes s" by (auto simp: wf_input_def hex_field_iff hex_blob_iff)
  then have "i = \<lparr>txid = hex_of_bytes (rev (rev a)), vout = int (nat (vout i)), scriptSig = hex_of_bytes s,
      sequence = int (nat (sequence i)), witness = witness i\<rparr>" and "length (rev a) = 32"
    using w by (cases i; simp add: wf_input_def is_u32_def)+
  moreover have "nat (vout i) < 256 ^ 4" "nat (sequence i) < 256 ^ 4"
    using w by (auto simp: wf_input_def dest: is_u32_nat)
  ultimately show ?rep using \<open>length s \<le> 10000\<close> by blast
qed (auto simp: wf_input_def hex_field_iff hex_blob_iff is_u32_int)

lemma serialize_input_fields:
  assumes "length ti = 32" and "v < 256 ^ 4" and "q < 256 ^ 4"
  shows "serialize_input \<lparr>txid = hex_of_bytes (rev ti), vout = int v, scriptSig = hex_of_bytes s,
           sequence = int q, witness = w\<rparr>
         = bindE (variable s) (\<lambda>n. Inr (ti @ le_bytes 4 v @ n @ le_bytes 4 q))"
  using assms by (simp add: serialize_input_def outpoint_def u32_def)

lemma rd_input_iff:
  "rd_input r = Inr (i, r') \<longleftrightarrow>
     (wf_input i \<and> witness i = []) \<and> (\<exists>bs. serialize_input i = Inr bs \<and> consumed r bs r')"
  (is "?dec \<longleftrightarrow> ?enc")
proof -
  have "?dec \<longleftrightarrow> (\<exists>ti v s q n. length ti = 32 \<and> v < 256 ^ 4 \<and> length s \<le> 10000 \<and> q < 256 ^ 4 \<and>
      i = \<lparr>txid = hex_of_bytes (rev ti), vout = int v, scriptSig = hex_of_bytes s, sequence = int q,
          witness = []\<rparr> \<and> variable s = Inr n \<and> consumed r (ti @ le_bytes 4 v @ n @ le_bytes 4 q) r')"
    (is "_ \<longleftrightarrow> ?mid")
    unfolding rd_input_def
    by (simp add: script_field.dec_iff consumed_append) blast
  also have "?mid \<longleftrightarrow> ?enc"
    unfolding wf_input_iff by (auto simp: serialize_input_fields)
  finally show ?thesis .
qed

lemma serialize_input_witness [simp]: "serialize_input (set_witness i w) = serialize_input i"
  by (simp add: set_witness_def serialize_input_def outpoint_def)

lemma wf_input_witness [simp]: "wf_input (set_witness i w) = wf_input i"
  by (simp add: set_witness_def wf_input_def)

interpretation input_field: codec "\<lambda>i. wf_input i \<and> witness i = []" serialize_input rd_input
proof (unfold_locales, goal_cases)
  case (1 i)
  then show ?case by (metis serialize_input_eq)
qed (rule rd_input_iff)

section \<open>Outputs\<close>

lemma wf_amount_iff: "wf_amount s \<longleftrightarrow> (\<exists>n. 0 \<le> n \<and> n \<le> MAX_MONEY \<and> s = dec_str (nat n))"
proof
  assume "wf_amount s"
  then obtain n where "amountInConnects (JStr s) = Inr n"
    by (cases "amountInConnects (JStr s)") (auto simp: wf_amount_def)
  with amountInConnects_range [OF this] amountInConnects_str_canonical [OF this]
  show "\<exists>n. 0 \<le> n \<and> n \<le> MAX_MONEY \<and> s = dec_str (nat n)" by blast
qed (auto simp: wf_amount_def)

lemma i64_amount [simp]:
  "0 \<le> n \<Longrightarrow> n \<le> MAX_MONEY \<Longrightarrow> i64 (JStr (dec_str (nat n))) = Inr (le_bytes 8 (nat n))"
  by (simp add: i64_def)

lemma rd_amount_iff:
  "rd_amount r = Inr (n, r') \<longleftrightarrow> 0 \<le> n \<and> n \<le> MAX_MONEY \<and> consumed r (le_bytes 8 (nat n)) r'"
proof
  assume "rd_amount r = Inr (n, r')"
  then obtain bs where bs: "length bs = 8" "consumed r bs r'"
    and n: "n = (if le_val bs < 2 ^ 63 then int (le_val bs) else int (le_val bs) - 2 ^ 64)"
      "0 \<le> n" "n \<le> MAX_MONEY"
    unfolding rd_amount_def by (auto simp: Let_def)
  have "le_val bs < 2 ^ 64" using le_val_bound [of bs] bs by simp
  then have "le_val bs = nat n" using n by (auto split: if_splits)
  then have "le_bytes 8 (nat n) = bs" using bs le_bytes_le_val [of bs 8] by simp
  with n bs show "0 \<le> n \<and> n \<le> MAX_MONEY \<and> consumed r (le_bytes 8 (nat n)) r'" by simp
next
  assume n: "0 \<le> n \<and> n \<le> MAX_MONEY \<and> consumed r (le_bytes 8 (nat n)) r'"
  then have "nat n < 2 ^ 63" by (auto simp: MAX_MONEY_def COIN_def nat_less_iff)
  moreover from this have "le_val (le_bytes 8 (nat n)) = nat n" by simp
  moreover have "rd_take 8 r = Inr (le_bytes 8 (nat n), r')" using n by simp
  ultimately show "rd_amount r = Inr (n, r')" using n by (simp add: rd_amount_def Let_def del: bindE_prod_Inr rd_take_Inr)
qed

lemma outputPayload_P2PK:
  "outputPayload oc (P2PK a pk) = bindE (validatePublicKey oc (KHex pk)) (\<lambda>k. Inr (1 # k))"
  using transactionPublicKey_cached [of oc None "KHex pk"]
  by (cases "validatePublicKey oc (KHex pk)")
    (auto simp: outputPayload_def outputPayloadWithKeys_def same_with_def)

lemma outputPayload_P2C:
  "outputPayload oc (P2C a d t rv m) =
     (if \<not> isCanonicalDomain d then Inl NoncanonicalDomain
      else if rv < 1 \<or> rv > 0xffffffff then Inl InvalidRootVersion
      else if m < 1 \<or> m > 7 then Inl InvalidSignatureMask
      else bindE (hexBytes (Some 32) t) (\<lambda>target.
        Inr ([2, of_nat (length d)] @ ascii_bytes d @ rev target @ le_bytes 4 (nat rv) @ [of_int m])))"
  by (cases "hexBytes (Some 32) t") (auto simp: outputPayload_def outputPayloadWithKeys_def u32_def)

lemma outputPayload_Other [simp]: "outputPayload oc (OtherOutput a) = Inl UnknownOutputType"
  by (simp add: outputPayload_def outputPayloadWithKeys_def)

lemma serializeOutput_eq:
  "serializeOutput oc out = bindE (i64 (JStr (out_amount out))) (\<lambda>a.
      bindE (outputPayload oc out) (\<lambda>p. Inr (a @ p)))"
  using outputPayload_cached [of oc None out]
  by (cases "i64 (JStr (out_amount out))"; cases "outputPayload oc out")
    (auto simp: serializeOutput_def serializeOutputWithKeys_def same_with_def)

lemma validatePublicKey_hex [simp]:
  "length k = 32 \<Longrightarrow> oc k \<Longrightarrow> validatePublicKey oc (KHex (hex_of_bytes k)) = Inr k"
  using hex_of_bytes_hex [of k] by (auto simp: validatePublicKey_def list_all_lower_hex)

lemma validatePublicKey_bytes [simp]:
  "validatePublicKey oc (KBytes k) = Inr b \<longleftrightarrow> length k = 32 \<and> oc k \<and> b = k"
  by (auto simp: validatePublicKey_def)

lemma ascii_text_bytes [simp]: "ascii_text (ascii_bytes s) = s"
  by (induction s) (simp_all add: ascii_text_def ascii_bytes_def unat_of_nat)

lemma ascii_bytes_text [simp]: "ascii_bytes (ascii_text bs) = bs"
proof (induction bs)
  case (Cons b bs)
  have "unat b mod 256 = unat b" by (simp add: unat_byte)
  with Cons show ?case by (simp add: ascii_text_def ascii_bytes_def del: of_nat_unat) simp
qed (simp add: ascii_text_def ascii_bytes_def)

lemma length_ascii [simp]: "length (ascii_bytes s) = length s" "length (ascii_text bs) = length bs"
  by (simp_all add: ascii_bytes_def ascii_text_def)

lemma canonical_ascii: "isCanonicalDomain d \<Longrightarrow> \<not> list_ex (\<lambda>b. unat b > 127) (ascii_bytes d)"
proof -
  assume "isCanonicalDomain d"
  then have l: "list_all (\<lambda>c. is_lower_alnum c \<or> c = CHR ''.'' \<or> c = CHR ''-'') d"
    by (simp add: isCanonicalDomain_def)
  have "(of_char c :: nat) \<le> 127" if "is_lower_alnum c \<or> c = CHR ''.'' \<or> c = CHR ''-''" for c
    using that by (auto simp: is_lower_alnum_def is_digit_def)
  moreover have "unat (of_nat (of_char c) :: byte) = of_char c" for c :: char
    by (simp add: unat_of_nat)
  ultimately show ?thesis using l
    by (auto simp: ascii_bytes_def list_ex_iff list_all_iff not_less)
qed

definition rd_payload :: "(bytes \<Rightarrow> bool) \<Rightarrow> string \<Rightarrow> reader \<Rightarrow> (tx_output \<times> reader) res" where
  "rd_payload on_curve amount r =
     bindE (rd_byte r) (\<lambda>(ty, r).
       if ty = 1 then
         bindE (rd_take 32 r) (\<lambda>(k, r).
         bindE (validatePublicKey on_curve (KBytes k)) (\<lambda>pk.
         Inr (P2PK amount (hex_of_bytes pk), r)))
       else if ty = 2 then
         bindE (rd_byte r) (\<lambda>(n, r). bindE (rd_take n r) (\<lambda>(d, r).
         if list_ex (\<lambda>b. unat b > 127) d then Inl NonAsciiDomain
         else bindE (rd_take 32 r) (\<lambda>(t, r). bindE (rd_uint r) (\<lambda>(rv, r). bindE (rd_byte r) (\<lambda>(m, r).
           let out = P2C amount (ascii_text d) (hex_of_bytes (rev t)) (int rv) (int m) in
           bindE (outputPayload on_curve out) (\<lambda>_. Inr (out, r)))))))
       else Inl UnknownOutputType)"

definition rd_output :: "(bytes \<Rightarrow> bool) \<Rightarrow> reader \<Rightarrow> (tx_output \<times> reader) res" where
  "rd_output on_curve r = bindE (rd_amount r) (\<lambda>(a, r). rd_payload on_curve (dec_str (nat a)) r)"

lemma payload_rep_P2PK:
  "(wf_output oc (P2PK a pk) \<and> outputPayload oc (P2PK a pk) = Inr p) \<longleftrightarrow>
     wf_amount a \<and> (\<exists>k. length k = 32 \<and> oc k \<and> pk = hex_of_bytes k \<and> p = 1 # k)"
  by (auto simp: wf_output_def outputPayload_P2PK hex_field_iff)

lemma payload_rep_P2C:
  "(wf_output oc (P2C a d t rv m) \<and> outputPayload oc (P2C a d t rv m) = Inr p) \<longleftrightarrow>
     wf_amount a \<and> (\<exists>db tb v k. d = ascii_text db \<and> isCanonicalDomain d \<and> length tb = 32
        \<and> t = hex_of_bytes (rev tb) \<and> v < 256 ^ 4 \<and> rv = int v \<and> 1 \<le> v \<and> m = int k \<and> 1 \<le> k \<and> k \<le> 7
        \<and> p = 2 # of_nat (length db) # db @ tb @ le_bytes 4 v @ [of_nat k])"
  (is "?l \<longleftrightarrow> ?r")
proof
  assume ?l
  then have c: "wf_amount a" "isCanonicalDomain d" "1 \<le> rv" "rv \<le> 0xffffffff" "1 \<le> m" "m \<le> 7"
    and t: "hex_field 32 t" and p: "outputPayload oc (P2C a d t rv m) = Inr p"
    by (auto simp: wf_output_def)
  from t obtain b where b: "length b = 32" "t = hex_of_bytes b" by (auto simp: hex_field_iff)
  have "p = 2 # of_nat (length (ascii_bytes d)) # ascii_bytes d @ rev b
          @ le_bytes 4 (nat rv) @ [of_nat (nat m)]"
    using p c b by (simp add: outputPayload_P2C)
  then show ?r using c b
    by (intro conjI exI [of _ "ascii_bytes d"] exI [of _ "rev b"] exI [of _ "nat rv"] exI [of _ "nat m"])
      (auto simp: nat_less_iff)
next
  assume ?r
  then show ?l by (auto simp: wf_output_def outputPayload_P2C hex_field_iff)
qed

lemma canonical_length: "isCanonicalDomain d \<Longrightarrow> length d < 256"
  by (simp add: isCanonicalDomain_def)

lemma rd_payload_P2PK:
  "rd_payload oc amt r = Inr (P2PK a pk, r') \<longleftrightarrow> a = amt \<and> (\<exists>k. length k = 32 \<and> oc k
     \<and> pk = hex_of_bytes k \<and> consumed r (1 # k) r')"
  (is "?dec \<longleftrightarrow> ?enc")
proof
  assume ?dec
  then obtain r1 k where "consumed r [1] r1" "consumed r1 k r'" "length k = 32" "oc k"
      "pk = hex_of_bytes k" "a = amt"
    unfolding rd_payload_def by (auto simp: Let_def split: if_splits)
  moreover from this have "consumed r (1 # k) r'" by (subst consumed_Cons) blast
  ultimately show ?enc by blast
next
  assume ?enc
  then obtain k r1 where "consumed r [1] r1" "consumed r1 k r'" "length k = 32" "oc k"
      "pk = hex_of_bytes k" "a = amt"
    using consumed_Cons by blast
  moreover from this have "rd_byte r = Inr (1, r1)" and "rd_take 32 r1 = Inr (k, r')" by simp_all
  ultimately show ?dec
    by (simp add: rd_payload_def validatePublicKey_def del: bindE_prod_Inr rd_take_Inr rd_byte_Inr)
qed

lemma rd_payload_P2C:
  "rd_payload oc amt r = Inr (P2C a d t rv m, r') \<longleftrightarrow> a = amt \<and> (\<exists>db tb v k. d = ascii_text db
     \<and> isCanonicalDomain d \<and> length tb = 32 \<and> t = hex_of_bytes (rev tb) \<and> v < 256 ^ 4 \<and> rv = int v
     \<and> 1 \<le> v \<and> m = int k \<and> 1 \<le> k \<and> k \<le> 7
     \<and> consumed r (2 # of_nat (length db) # db @ tb @ le_bytes 4 v @ [of_nat k]) r')"
  (is "?dec \<longleftrightarrow> ?enc")
proof
  assume ?dec
  then obtain db tb v k r1 r2 r3 r4 r5 where
      c: "consumed r [2] r1" "consumed r1 [of_nat (length db)] r2" "consumed r2 db r3" "consumed r3 tb r4"
        "consumed r4 (le_bytes 4 v) r5" "consumed r5 [of_nat k] r'"
      and f: "length tb = 32" "v < 256 ^ 4" "d = ascii_text db" "t = hex_of_bytes (rev tb)" "rv = int v"
        "m = int k" "a = amt"
      and p: "\<exists>p. outputPayload oc (P2C amt d t (int v) (int k)) = Inr p"
    unfolding rd_payload_def by (auto simp: Let_def split: if_splits)
  have "consumed r (2 # of_nat (length db) # db @ tb @ le_bytes 4 v @ [of_nat k]) r'"
    using c by (subst consumed_Cons, subst (2) consumed_Cons, simp only: consumed_append) blast
  moreover have "isCanonicalDomain d \<and> 1 \<le> v \<and> 1 \<le> k \<and> k \<le> 7"
    using p by (auto simp: outputPayload_P2C split: if_splits)
  ultimately show ?enc using f by blast
next
  assume ?enc
  then obtain db tb v k where f: "a = amt" "d = ascii_text db" "isCanonicalDomain d" "length tb = 32"
      "t = hex_of_bytes (rev tb)" "v < 256 ^ 4" "rv = int v" "1 \<le> v" "m = int k" "1 \<le> k" "k \<le> 7"
    and "consumed r (2 # of_nat (length db) # db @ tb @ le_bytes 4 v @ [of_nat k]) r'" by blast
  then obtain r1 r2 r3 r4 r5 where
      c: "consumed r [2] r1" "consumed r1 [of_nat (length db)] r2" "consumed r2 db r3" "consumed r3 tb r4"
        "consumed r4 (le_bytes 4 v) r5" "consumed r5 [of_nat k] r'"
    by (subst (asm) consumed_Cons, subst (asm) (2) consumed_Cons) (auto simp: consumed_append)
  have "length db < 256" using canonical_length [OF f(3)] f(2) by simp
  then have s: "rd_byte r = Inr (2, r1)" "rd_byte r1 = Inr (length db, r2)"
      "rd_take (length db) r2 = Inr (db, r3)" "rd_take 32 r3 = Inr (tb, r4)" "rd_uint r4 = Inr (v, r5)"
      "rd_byte r5 = Inr (k, r')"
    using c f by simp_all
  have "ascii_bytes d = db" using f(2) by simp
  then have "\<not> list_ex (\<lambda>b. unat b > 127) db" using canonical_ascii [OF f(3)] by simp
  moreover have "\<exists>p. outputPayload oc (P2C amt d t (int v) (int k)) = Inr p"
    using f by (auto simp: outputPayload_P2C)
  ultimately show ?dec using f
    by (auto simp: rd_payload_def s Let_def simp del: bindE_eq_Inr bindE_prod_Inr rd_take_Inr rd_byte_Inr rd_uint_Inr)
qed

lemma rd_payload_Other [simp]: "rd_payload oc amt r \<noteq> Inr (OtherOutput a, r')"
  unfolding rd_payload_def by (auto simp: Let_def split: if_splits)

lemma rd_output_iff:
  "rd_output oc r = Inr (out, r') \<longleftrightarrow>
     wf_output oc out \<and> (\<exists>bs. serializeOutput oc out = Inr bs \<and> consumed r bs r')"
  (is "?dec \<longleftrightarrow> ?enc")
proof -
  have payload: "rd_payload oc amt r = Inr (out, r') \<longleftrightarrow> out_amount out = amt \<and>
      (\<exists>p. (wf_output oc out \<and> outputPayload oc out = Inr p) \<and> consumed r p r')"
    if "wf_amount amt" for amt r
  proof (cases out)
    case (P2PK a pk)
    with that show ?thesis by (simp only: rd_payload_P2PK payload_rep_P2PK tx_output.sel) blast
  next
    case (P2C a d t rv m)
    with that show ?thesis by (simp only: rd_payload_P2C payload_rep_P2C tx_output.sel) blast
  qed simp
  have "?enc \<longleftrightarrow> (\<exists>n p. 0 \<le> n \<and> n \<le> MAX_MONEY \<and> out_amount out = dec_str (nat n) \<and>
      (wf_output oc out \<and> outputPayload oc out = Inr p) \<and> consumed r (le_bytes 8 (nat n) @ p) r')"
    by (auto simp: serializeOutput_eq wf_amount_iff wf_output_def)
  also have "\<dots> \<longleftrightarrow> (\<exists>n r1. 0 \<le> n \<and> n \<le> MAX_MONEY \<and> consumed r (le_bytes 8 (nat n)) r1 \<and>
      out_amount out = dec_str (nat n) \<and>
      (\<exists>p. (wf_output oc out \<and> outputPayload oc out = Inr p) \<and> consumed r1 p r'))"
    by (simp only: consumed_append) blast
  also have "\<dots> \<longleftrightarrow> (\<exists>n r1. 0 \<le> n \<and> n \<le> MAX_MONEY \<and> consumed r (le_bytes 8 (nat n)) r1 \<and>
      rd_payload oc (dec_str (nat n)) r1 = Inr (out, r'))"
    by (intro ex_cong1 conj_cong refl payload [symmetric]) (auto simp: wf_amount_iff)
  also have "\<dots> \<longleftrightarrow> ?dec" by (auto simp: rd_output_def rd_amount_iff)
  finally show ?thesis by blast
qed

lemma serializeOutput_ok: "wf_output oc out \<Longrightarrow> \<exists>bs. serializeOutput oc out = Inr bs"
  by (cases out) (auto simp: serializeOutput_eq wf_output_def wf_amount_iff outputPayload_P2PK
      outputPayload_P2C hex_field_iff)

lemma output_codec: "codec (wf_output oc) (serializeOutput oc) (rd_output oc)"
  by unfold_locales (use serializeOutput_ok rd_output_iff in blast)+

lemma serializeOutput_length: "serializeOutput oc out = Inr bs \<Longrightarrow> 9 \<le> length bs"
proof -
  assume "serializeOutput oc out = Inr bs"
  then obtain a p where "i64 (JStr (out_amount out)) = Inr a" "outputPayload oc out = Inr p" "bs = a @ p"
    by (auto simp: serializeOutput_eq)
  moreover from this have "length a = 8" by (auto simp: i64_def)
  moreover have "p \<noteq> []" using \<open>outputPayload oc out = Inr p\<close>
    by (cases out) (auto simp: outputPayload_P2PK outputPayload_P2C split: if_splits)
  ultimately show ?thesis by (cases p) simp_all
qed

section \<open>Witness stacks\<close>

interpretation item_bytes: codec "\<lambda>bs. length bs \<le> MAX_PROOF_SIZE" variable "rd_blob MAX_PROOF_SIZE"
  by (rule blob_codec) (simp add: tx_limits)

interpretation stack_count: codec "\<lambda>n. n \<le> 100" compactSize "rd_count 100"
  by (rule count_codec) (simp add: MAX_TX_BYTES_def)

definition rd_item :: "reader \<Rightarrow> (string \<times> reader) res" where
  "rd_item r = bindE (rd_blob MAX_PROOF_SIZE r) (\<lambda>(b, r). Inr (hex_of_bytes b, r))"

lemma serialize_item_hex [simp]:
  "length b \<le> MAX_PROOF_SIZE \<Longrightarrow> serialize_item (hex_of_bytes b) = variable b"
  by (simp add: serialize_item_def)

interpretation item_field: codec "hex_blob MAX_PROOF_SIZE" serialize_item rd_item
proof (unfold_locales, goal_cases)
  case (1 s)
  then show ?case by (auto simp: hex_blob_iff item_bytes.encodable)
next
  case (2 r s r')
  show ?case by (auto simp: rd_item_def item_bytes.dec_iff hex_blob_iff)
qed

lemma rd_stack_eq: "rd_stack r = bindE (rd_count 100 r) (\<lambda>(n, r). rd_many rd_item n r)"
  by (simp add: rd_stack_def rd_item_def [abs_def])

interpretation stack_field: codec wf_stack serialize_stack rd_stack
proof (unfold_locales, goal_cases)
  case (1 w)
  then show ?case
    using stack_count.encodable [of "length w"] item_field.many_encodable [of w]
    by (auto simp: wf_stack_def serialize_stack_def)
next
  case (2 r w r')
  show ?case
    by (auto simp: rd_stack_eq serialize_stack_def wf_stack_def stack_count.dec_iff
        item_field.many_dec_iff consumed_append; metis)
qed

end
