(* ===== verification/Address.thy ===== *)
theory Address
  imports Transaction_Fields
begin

text \<open>
  Addresses, domain names and work targets (\<open>src/src/core/crypto.mjs\<close> and
  \<open>src/src/core/transaction.mjs\<close>). The Bech32m library, the curve library and \<open>domainToASCII\<close> of
  \<open>node:url\<close> are not part of the repository: they are the functions of the record \<open>bech32_lib\<close> and the
  arguments \<open>on_curve\<close> and \<open>to_ascii\<close>. What the code relies on in the Bech32m library is the
  predicate \<open>bech32m_laws\<close>.
\<close>

section \<open>Networks and addresses\<close>

record network =
  hrp :: string
  coin :: nat

definition networkParameters :: "string \<Rightarrow> network res" where
  "networkParameters n =
     (if n = ''main'' then Inr \<lparr>hrp = ''cc'', coin = 0\<rparr>
      else if n = ''testnet4'' then Inr \<lparr>hrp = ''tcc'', coin = 1\<rparr>
      else if n = ''regtest'' then Inr \<lparr>hrp = ''ccrt'', coin = 1\<rparr>
      else Inl (Addr UnsupportedNetwork))"

text \<open>The four functions of the Bech32m library that the wallet calls; words are 5-bit values.\<close>

record bech32_lib =
  b32_encode :: "string \<Rightarrow> nat list \<Rightarrow> string"
  b32_decode :: "string \<Rightarrow> (string \<times> nat list) option"
  b32_toWords :: "bytes \<Rightarrow> nat list"
  b32_fromWords :: "nat list \<Rightarrow> bytes option"

definition lib_error :: error where
  "lib_error = Failure ''bech32m''"

definition encodeAddress :: "bech32_lib \<Rightarrow> (bytes \<Rightarrow> bool) \<Rightarrow> key_arg \<Rightarrow> string \<Rightarrow> string res" where
  "encodeAddress lib on_curve publicKey n =
     bindE (validatePublicKey on_curve publicKey) (\<lambda>key. bindE (networkParameters n) (\<lambda>p.
       Inr (b32_encode lib (hrp p) (1 # b32_toWords lib key))))"

definition decodeAddress :: "bech32_lib \<Rightarrow> (bytes \<Rightarrow> bool) \<Rightarrow> string \<Rightarrow> string \<Rightarrow> bytes res" where
  "decodeAddress lib on_curve address n =
     (if length address > 90 then Inl (Addr BadAddress)
      else case b32_decode lib address of
        None \<Rightarrow> Inl lib_error
      | Some (prefix, words) \<Rightarrow>
          bindE (networkParameters n) (\<lambda>p.
          if prefix \<noteq> hrp p \<or> (case words of [] \<Rightarrow> True | w # _ \<Rightarrow> w \<noteq> 1) then Inl (Addr ForeignAddress)
          else case b32_fromWords lib (tl words) of
            None \<Rightarrow> Inl lib_error
          | Some key \<Rightarrow> validatePublicKey on_curve (KBytes key)))"

text \<open>What the documentation of the library promises, for the keys and prefixes of the wallet:
  decoding inverts encoding within the length limit, and the word conversions are inverse.\<close>

definition bech32m_laws :: "bech32_lib \<Rightarrow> bool" where
  "bech32m_laws lib \<longleftrightarrow>
     (\<forall>p b. p \<in> {''cc'', ''tcc'', ''ccrt''} \<longrightarrow> length b = 32 \<longrightarrow>
        length (b32_encode lib p (1 # b32_toWords lib b)) \<le> 90
        \<and> b32_decode lib (b32_encode lib p (1 # b32_toWords lib b)) = Some (p, 1 # b32_toWords lib b))
     \<and> (\<forall>b. length b = 32 \<longrightarrow> b32_fromWords lib (b32_toWords lib b) = Some b)"

lemma encodeAddress_decoded:
  assumes "bech32m_laws lib" and "encodeAddress lib oc k n = Inr a"
  obtains key p where "validatePublicKey oc k = Inr key" and "networkParameters n = Inr p"
    and "length a \<le> 90" and "b32_decode lib a = Some (hrp p, 1 # b32_toWords lib key)"
    and "b32_fromWords lib (b32_toWords lib key) = Some key" and "length key = 32" and "oc key"
proof -
  from assms(2) obtain key p where k: "validatePublicKey oc k = Inr key" "networkParameters n = Inr p"
      "a = b32_encode lib (hrp p) (1 # b32_toWords lib key)"
    by (auto simp: encodeAddress_def)
  have l: "length key = 32" "oc key" using validatePublicKey_Inr [OF k(1)] by auto
  have "hrp p \<in> {''cc'', ''tcc'', ''ccrt''}"
    using k(2) by (auto simp: networkParameters_def split: if_splits)
  with assms(1) l(1) have "length (b32_encode lib (hrp p) (1 # b32_toWords lib key)) \<le> 90
      \<and> b32_decode lib (b32_encode lib (hrp p) (1 # b32_toWords lib key)) = Some (hrp p, 1 # b32_toWords lib key)"
    "b32_fromWords lib (b32_toWords lib key) = Some key"
    unfolding bech32m_laws_def by blast+
  with k l that [of key p] show thesis by simp
qed

text \<open>A stand-in library that satisfies the laws.\<close>

definition plain_lib :: bech32_lib where
  "plain_lib = \<lparr>b32_encode = (\<lambda>p ws. p @ CHR ''1'' # map char_of ws),
     b32_decode = (\<lambda>s. Some (takeWhile (\<lambda>c. c \<noteq> CHR ''1'') s,
        map of_char (tl (dropWhile (\<lambda>c. c \<noteq> CHR ''1'') s)))),
     b32_toWords = map unat, b32_fromWords = (\<lambda>ws. Some (map of_nat ws))\<rparr>"

lemma plain_words: "map (of_char \<circ> char_of) (map unat (b :: bytes)) = (map unat b :: nat list)"
proof (induction b)
  case (Cons x b)
  have "unat x mod 256 = unat x" by (simp add: unat_byte)
  with Cons show ?case by simp
qed simp

lemma plain_lib_laws: "bech32m_laws plain_lib"
proof -
  have "map (of_nat \<circ> unat) b = (b :: bytes)" for b by (rule map_idI) simp
  with plain_words show ?thesis by (auto simp: bech32m_laws_def plain_lib_def)
qed

text \<open>
  Property C11: an address that \<open>encodeAddress\<close> made for a network decodes on that network to the
  validated key it was made from.
\<close>

theorem address_roundtrip:
  assumes "bech32m_laws lib" and "encodeAddress lib on_curve k n = Inr a"
  shows "validatePublicKey on_curve k = decodeAddress lib on_curve a n"
  using assms by (rule encodeAddress_decoded) (simp add: decodeAddress_def validatePublicKey_def)

theorem address_roundtrip_witness:
  "\<exists>a. encodeAddress plain_lib (\<lambda>_. True) (KBytes (replicate 32 7)) ''main'' = Inr a
     \<and> decodeAddress plain_lib (\<lambda>_. True) a ''main'' = Inr (replicate 32 7)"
proof -
  have "\<exists>a. encodeAddress plain_lib (\<lambda>_. True) (KBytes (replicate 32 7)) ''main'' = Inr a"
    by (simp add: encodeAddress_def networkParameters_def validatePublicKey_def)
  then obtain a where a: "encodeAddress plain_lib (\<lambda>_. True) (KBytes (replicate 32 7)) ''main'' = Inr a" ..
  from a address_roundtrip [OF plain_lib_laws a] show ?thesis by (simp add: validatePublicKey_def)
qed

text \<open>
  An address of one network is refused on every other one.
\<close>

lemma address_foreign_network:
  assumes "bech32m_laws lib" and "encodeAddress lib on_curve k n = Inr a" and "m \<noteq> n"
    and "networkParameters m = Inr q"
  shows "decodeAddress lib on_curve a m = Inl (Addr ForeignAddress)"
  using assms(1,2)
proof (rule encodeAddress_decoded)
  fix key p
  assume p: "networkParameters n = Inr p" and a: "length a \<le> 90"
    "b32_decode lib a = Some (hrp p, 1 # b32_toWords lib key)"
  have "hrp p \<noteq> hrp q" using p assms(3,4) by (auto simp: networkParameters_def split: if_splits)
  with a assms(4) show ?thesis by (simp add: decodeAddress_def)
qed

lemma address_foreign_network_witness:
  "\<exists>a. decodeAddress plain_lib (\<lambda>_. True) a ''testnet4'' = Inl (Addr ForeignAddress)"
proof -
  have "\<exists>a. encodeAddress plain_lib (\<lambda>_. True) (KBytes (replicate 32 7)) ''main'' = Inr a"
    by (simp add: encodeAddress_def networkParameters_def validatePublicKey_def)
  then obtain a where a: "encodeAddress plain_lib (\<lambda>_. True) (KBytes (replicate 32 7)) ''main'' = Inr a" ..
  from address_foreign_network [OF plain_lib_laws a, of "''testnet4''" "\<lparr>hrp = ''tcc'', coin = 1\<rparr>"]
  show ?thesis by (auto simp: networkParameters_def)
qed

section \<open>Domain names\<close>

definition url_char :: "char \<Rightarrow> bool" where
  "url_char c \<longleftrightarrow> is_js_space c \<or> c \<in> {CHR ''/'', CHR '':'', CHR ''@'', CHR ''?'', CHR ''#'', CHR 0x5C}"

definition normalizeDomain :: "(string \<Rightarrow> string) \<Rightarrow> string option \<Rightarrow> string res" where
  "normalizeDomain to_ascii v = (case v of
       None \<Rightarrow> Inl (Addr NotADomain)
     | Some value \<Rightarrow>
         if length value > 1024 \<or> list_ex url_char value then Inl (Addr NotADomain)
         else let domain = to_ascii (lower_str (js_trim value)) in
           if \<not> isCanonicalDomain domain then Inl (Addr InvalidDomainName) else Inr domain)"

section \<open>Work targets\<close>

text \<open>\<open>n.toString(16)\<close> of a nonnegative BigInt, and the value of a hexadecimal numeral.\<close>

fun hex_str :: "nat \<Rightarrow> string" where
  "hex_str n = (if n < 16 then [hex_char n] else hex_str (n div 16) @ [hex_char (n mod 16)])"

declare hex_str.simps [simp del]

definition hex_num :: "string \<Rightarrow> nat" where
  "hex_num s = foldl (\<lambda>v c. 16 * v + hex_val c) 0 s"

text \<open>\<open>/^[1-9][0-9]{0,76}$/\<close>.\<close>

definition positive_numeral :: "string \<Rightarrow> bool" where
  "positive_numeral s \<longleftrightarrow> canonical_dec 76 s \<and> s \<noteq> ''0''"

definition workTargetForExpectedConnections :: "js_arg \<Rightarrow> string res" where
  "workTargetForExpectedConnections expected =
     bindE (case expected of
         JBig n \<Rightarrow> Inr n
       | JStr s \<Rightarrow> if positive_numeral s then Inr (int (dec_val s)) else Inl (Addr BadExpectedConnections)
       | JOther \<Rightarrow> Inl (Addr BadExpectedConnections)) (\<lambda>count.
     if count < 1 \<or> count > 2 ^ 256 then Inl (Addr ExpectedOutOfRange)
     else Inr (pad_start 64 (CHR ''0'') (hex_str (nat (2 ^ 256 div count - 1)))))"

lemma hex_num_snoc [simp]: "hex_num (s @ [c]) = 16 * hex_num s + hex_val c"
  by (simp add: hex_num_def)

lemma hex_num_Nil [simp]: "hex_num [] = 0"
  by (simp add: hex_num_def)

lemma hex_num_append: "hex_num (s @ t) = hex_num s * 16 ^ length t + hex_num t"
proof (induction t rule: rev_induct)
  case (snoc c t)
  have "hex_num (s @ t @ [c]) = 16 * hex_num (s @ t) + hex_val c" by (metis append.assoc hex_num_snoc)
  with snoc show ?case by (simp add: algebra_simps)
qed simp

lemma hex_num_zeros [simp]: "hex_num (replicate k (CHR ''0'')) = 0"
proof (induction k)
  case (Suc k)
  have "replicate (Suc k) (CHR ''0'') = replicate k (CHR ''0'') @ [CHR ''0'']"
    by (simp add: replicate_append_same)
  with Suc show ?case by (simp only: hex_num_snoc) (simp add: hex_val_def)
qed simp

lemma hex_num_hex_str [simp]: "hex_num (hex_str n) = n"
proof (induction n rule: hex_str.induct)
  case (1 n)
  show ?case by (subst hex_str.simps) (use 1 in \<open>simp add: hex_num_def\<close>)
qed

lemma hex_str_lower [simp]: "list_all is_lower_hex (hex_str n)"
proof (induction n rule: hex_str.induct)
  case (1 n)
  show ?case by (subst hex_str.simps) (use 1 in simp)
qed

lemma hex_str_length: "n < 16 ^ Suc k \<Longrightarrow> length (hex_str n) \<le> Suc k"
proof (induction n arbitrary: k rule: hex_str.induct)
  case (1 n)
  show ?case
  proof (cases "n < 16")
    case False
    with 1(2) obtain j where "k = Suc j" by (cases k) auto
    with False 1 show ?thesis by (subst hex_str.simps) (simp add: less_mult_imp_div_less)
  qed (subst hex_str.simps, simp)
qed

lemma hex_padded:
  assumes "n < 16 ^ k" and "0 < k"
  shows "length (pad_start k (CHR ''0'') (hex_str n)) = k"
    and "list_all is_lower_hex (pad_start k (CHR ''0'') (hex_str n))"
    and "hex_num (pad_start k (CHR ''0'') (hex_str n)) = n"
proof -
  from assms obtain j where "k = Suc j" by (cases k) auto
  with hex_str_length [of n j] assms(1) have "length (hex_str n) \<le> k" by simp
  then show "length (pad_start k (CHR ''0'') (hex_str n)) = k" by (simp add: pad_start_def)
  have "is_lower_hex (CHR ''0'')" by (simp add: is_lower_hex_def)
  then show "list_all is_lower_hex (pad_start k (CHR ''0'') (hex_str n))" by (simp add: pad_start_def)
  show "hex_num (pad_start k (CHR ''0'') (hex_str n)) = n" by (simp add: pad_start_def hex_num_append)
qed

lemma canonical_positive: "canonical_dec k s \<Longrightarrow> s \<noteq> ''0'' \<Longrightarrow> 0 < dec_val s"
  using dec_str_canonical [of k s] by (metis dec_str_0 neq0_conv)

text \<open>
  Property C12: a work target is a 64-digit lowercase hexadecimal string, so it always serializes, and
  its value is \<open>2^256 div count - 1\<close>: of the \<open>2^256\<close> possible results at most a \<open>1/count\<close> share meets it,
  and a target higher by \<open>count\<close> or more would exceed that share.
\<close>

theorem work_target_value:
  assumes "workTargetForExpectedConnections e = Inr t"
  shows "hex_field 32 t \<and> (\<exists>count. 1 \<le> count \<and> count \<le> 2 ^ 256 \<and>
     (case e of JBig n \<Rightarrow> n = count | JStr s \<Rightarrow> s = dec_str (nat count) | JOther \<Rightarrow> False) \<and>
     (int (hex_num t) + 1) * count \<le> 2 ^ 256 \<and> 2 ^ 256 < (int (hex_num t) + 2) * count)"
proof -
  from assms obtain count where c: "1 \<le> count" "count \<le> 2 ^ 256"
      and t: "t = pad_start 64 (CHR ''0'') (hex_str (nat (2 ^ 256 div count - 1)))"
      and e: "case e of JBig n \<Rightarrow> n = count | JStr s \<Rightarrow> s = dec_str (nat count) | JOther \<Rightarrow> False"
  proof (cases e)
    case (JStr s)
    with assms have s: "canonical_dec 76 s" "s \<noteq> ''0''" "int (dec_val s) \<le> 2 ^ 256"
        "t = pad_start 64 (CHR ''0'') (hex_str (nat (2 ^ 256 div int (dec_val s) - 1)))"
      by (auto simp: workTargetForExpectedConnections_def positive_numeral_def split: if_splits)
    with canonical_positive [OF s(1,2)] JStr dec_str_canonical [OF s(1)] that [of "int (dec_val s)"]
    show thesis by simp
  qed (use assms that in \<open>auto simp: workTargetForExpectedConnections_def split: if_splits\<close>)
  define q where "q = 2 ^ 256 div count"
  have q: "1 \<le> q" using c pos_imp_zdiv_pos_iff [of count "2 ^ 256"] by (simp add: q_def)
  have "q \<le> 2 ^ 256" using c zdiv_mono2 [of "2 ^ 256" 1 count] by (simp add: q_def)
  then have "nat (q - 1) < 16 ^ 64" using q by (simp add: nat_less_iff)
  note h = hex_padded [OF this]
  have f: "hex_field 32 t" and v: "int (hex_num t) = q - 1"
    using h q by (simp_all add: t hex_field_def q_def)
  have "q * count + 2 ^ 256 mod count = 2 ^ 256" "2 ^ 256 mod count < count" "0 \<le> 2 ^ 256 mod count"
    using c div_mult_mod_eq [of "2 ^ 256" count] by (simp_all add: q_def)
  then have "q * count \<le> 2 ^ 256" "2 ^ 256 < (1 + q) * count" by (simp_all add: algebra_simps)
  with c e f v show ?thesis by (intro conjI exI [of _ count]) simp_all
qed

theorem work_target_value_witness:
  "\<exists>t. workTargetForExpectedConnections (JBig (2 ^ 256)) = Inr t \<and> hex_field 32 t"
proof -
  have "\<exists>t. workTargetForExpectedConnections (JBig (2 ^ 256)) = Inr t"
    by (simp add: workTargetForExpectedConnections_def)
  then obtain t where t: "workTargetForExpectedConnections (JBig (2 ^ 256)) = Inr t" ..
  from t work_target_value [OF t] show ?thesis by blast
qed

end
