(* ===== verification/Payment.thy ===== *)
theory Payment
  imports Address
begin

text \<open>
  Payments (\<open>src/src/core/transaction.mjs\<close>, \<open>dustThreshold\<close> to \<open>selectPaymentFunding\<close>): the dust
  rule, the outputs for recipients, coin selection with its exact size estimate, change and the
  two fee modes. \<open>lib\<close>, \<open>on_curve\<close> and \<open>to_ascii\<close> are the libraries of \<open>Address\<close>; they are bundled in
  the record \<open>env\<close> of the component.
\<close>

section \<open>Data\<close>

definition DEFAULT_FEE_RATE :: int where "DEFAULT_FEE_RATE = 1500"
definition MAX_PAYMENT_INPUTS :: nat where "MAX_PAYMENT_INPUTS = 1738"
definition MAX_PAYMENT_WEIGHT :: nat where "MAX_PAYMENT_WEIGHT = 400000"

record env =
  e_lib :: bech32_lib
  e_curve :: "bytes \<Rightarrow> bool"
  e_ascii :: "string \<Rightarrow> string"

text \<open>A coin offered to the payment; \<open>rawTransaction\<close> and \<open>privateKey\<close> may be absent properties.\<close>

record utxo =
  u_txid :: string
  u_vout :: int
  u_amount :: js_arg
  u_raw :: "string option"
  u_priv :: "bytes option"

text \<open>A requested output. An absent property is \<open>None\<close>; an empty address is falsy in JavaScript.\<close>

record request =
  rq_amount :: js_arg
  rq_address :: "string option"
  rq_domain :: "string option"
  rq_target :: "string option"
  rq_expected :: "js_arg option"
  rq_rootVersion :: "int option"
  rq_mask :: "int option"

record options =
  o_utxos :: "utxo list"
  o_outputs :: "request list"
  o_change :: string
  o_network :: string
  o_feeRate :: int
  o_maxFee :: js_arg
  o_subtract :: bool

record plan =
  p_selected :: "utxo list"
  p_tx :: tx
  p_fee :: int
  p_total :: int
  p_requested :: int
  p_inputTotal :: int
  p_change :: int
  p_vsize :: nat

section \<open>Dust and recipients\<close>

definition dustThreshold :: "(bytes \<Rightarrow> bool) \<Rightarrow> tx_output \<Rightarrow> int res" where
  "dustThreshold on_curve out =
     (let spend = (case out of P2C _ _ _ _ _ \<Rightarrow> 41 + (1 + 5 + MAX_PROOF_SIZE + 3) div 4 | _ \<Rightarrow> 58)
      in bindE (serializeOutput on_curve out) (\<lambda>b. Inr (int ((length b + spend) * 3))))"

definition recipientOutput :: "env \<Rightarrow> string \<Rightarrow> request \<Rightarrow> tx_output res" where
  "recipientOutput e net q =
     bindE (amountInConnects (rq_amount q)) (\<lambda>a. let amount = dec_str (nat a) in
     bindE (case rq_address q of
         Some (c # cs) \<Rightarrow> bindE (decodeAddress (e_lib e) (e_curve e) (c # cs) net) (\<lambda>k.
           Inr (P2PK amount (hex_of_bytes k)))
       | _ \<Rightarrow> bindE (normalizeDomain (e_ascii e) (rq_domain q)) (\<lambda>d.
           bindE (case rq_target q of Some t \<Rightarrow> Inr t
                  | None \<Rightarrow> workTargetForExpectedConnections
                      (case rq_expected q of Some x \<Rightarrow> x | None \<Rightarrow> JStr ''1'')) (\<lambda>t.
           Inr (P2C amount d t (case rq_rootVersion q of Some v \<Rightarrow> v | None \<Rightarrow> 1)
                  (case rq_mask q of Some m \<Rightarrow> m | None \<Rightarrow> 7))))) (\<lambda>result.
     if (case result of P2C _ _ _ rv _ \<Rightarrow> rv \<noteq> 1 | _ \<Rightarrow> False) then Inl (Pay UnsupportedRootBundle)
     else bindE (dustThreshold (e_curve e) result) (\<lambda>dust.
       if a < dust then Inl (Pay BelowDust) else Inr result)))"

definition checkedFeeRate :: "int \<Rightarrow> int res" where
  "checkedFeeRate v = (if v < 1201 \<or> v > 1000000 then Inl (Pay BadFeeRate) else Inr v)"

definition set_amount :: "tx_output \<Rightarrow> int \<Rightarrow> tx_output" where
  "set_amount out n = (case out of
       P2PK _ pk \<Rightarrow> P2PK (dec_str (nat n)) pk
     | P2C _ d t rv m \<Rightarrow> P2C (dec_str (nat n)) d t rv m
     | OtherOutput _ \<Rightarrow> OtherOutput (dec_str (nat n)))"

section \<open>Coin selection\<close>

text \<open>The order in which coins are tried.\<close>

definition coin_cmp :: "bool \<Rightarrow> int \<Rightarrow> utxo \<times> int \<Rightarrow> utxo \<times> int \<Rightarrow> int" where
  "coin_cmp subtract requested a b =
     (if subtract \<and> (snd a = requested) \<noteq> (snd b = requested)
      then (if snd a = requested then - 1 else 1)
      else if snd a > snd b then - 1 else if snd a < snd b then 1 else 0)"

lemma coin_cmp_le: "coin_cmp subtract requested a b \<le> 0 \<longleftrightarrow>
    (if subtract \<and> (snd a = requested) \<noteq> (snd b = requested) then snd a = requested else snd b \<le> snd a)"
  by (simp add: coin_cmp_def)

interpretation coin_order: js_comparator "coin_cmp subtract requested" for subtract requested
proof
  fix a b c :: "utxo \<times> int"
  show "coin_cmp subtract requested a b \<le> 0 \<or> coin_cmp subtract requested b a \<le> 0"
    unfolding coin_cmp_le by auto
  show "coin_cmp subtract requested a b \<le> 0 \<Longrightarrow> coin_cmp subtract requested b c \<le> 0
      \<Longrightarrow> coin_cmp subtract requested a c \<le> 0"
    unfolding coin_cmp_le
    by (cases subtract; cases "snd a = requested"; cases "snd b = requested"; cases "snd c = requested") simp_all
qed

text \<open>What the selection loop reads and does not change.\<close>

record job =
  j_rate :: int
  j_subtract :: bool
  j_requested :: int
  j_recipients :: "tx_output list"
  j_changeKey :: string
  j_recipientBytes :: nat
  j_changeBytes :: nat
  j_changeDust :: int
  j_recipientDust :: "int res"   \<comment> \<open>\<open>dustThreshold(recipients[0])\<close>\<close>

definition estimateWeight :: "job \<Rightarrow> nat \<Rightarrow> bool \<Rightarrow> nat res" where
  "estimateWeight j count withChange =
     bindE (compactSize count) (\<lambda>ci.
     bindE (compactSize (length (j_recipients j) + (if withChange then 1 else 0))) (\<lambda>co.
     let base = 8 + length ci + 41 * count + length co + j_recipientBytes j
                  + (if withChange then j_changeBytes j else 0)
     in Inr (base * 4 + 2 + 66 * count)))"

definition estimateVsize :: "job \<Rightarrow> nat \<Rightarrow> bool \<Rightarrow> nat res" where
  "estimateVsize j count withChange =
     bindE (estimateWeight j count withChange) (\<lambda>w. Inr ((w + 3) div 4))"

text \<open>The variables of the loop; \<open>l_fee\<close> is \<open>undefined\<close> until a choice is made.\<close>

record loop_state =
  l_selected :: "utxo list"
  l_seen :: "bytes list"
  l_inputs :: "tx_input list"
  l_inputTotal :: int

record choice =
  c_fee :: int
  c_change :: int
  c_total :: int
  c_outputs :: "tx_output list"

definition placeholder_input :: "utxo \<Rightarrow> tx_input" where
  "placeholder_input u = \<lparr>txid = u_txid u, vout = u_vout u, scriptSig = [], sequence = 0xfffffffd,
     witness = [concat (replicate 64 ''00'')]\<rparr>"

definition utxo_outpoint :: "utxo \<Rightarrow> bytes res" where
  "utxo_outpoint u = outpoint (placeholder_input u)"

definition change_output :: "job \<Rightarrow> int \<Rightarrow> tx_output" where
  "change_output j n = P2PK (dec_str (nat n)) (j_changeKey j)"

definition too_heavy :: "job \<Rightarrow> nat \<Rightarrow> bool \<Rightarrow> unit res" where
  "too_heavy j count withChange = bindE (estimateWeight j count withChange) (\<lambda>w.
     if w > MAX_PAYMENT_WEIGHT then Inl (Pay PaymentTooHeavy) else Inr ())"

text \<open>The two fee modes after one more coin; \<open>None\<close> is \<open>continue\<close>.\<close>

definition choose_subtract :: "job \<Rightarrow> nat \<Rightarrow> int \<Rightarrow> choice option res" where
  "choose_subtract j count inputTotal =
     (if inputTotal < j_requested j then Inr None
      else let remainder = inputTotal - j_requested j;
               change = (if remainder = 0 then 0 else if remainder < j_changeDust j then j_changeDust j else remainder)
        in bindE (too_heavy j count (change > 0)) (\<lambda>_.
           bindE (estimateVsize j count (change > 0)) (\<lambda>vs.
           let fee = j_rate j * int vs;
               total = j_requested j - fee - (change - remainder)
           in if total \<le> 0 then Inl (Pay BelowDustAfterFee)
              else bindE (j_recipientDust j) (\<lambda>dust.
                if total < dust then Inl (Pay BelowDustAfterFee)
                else Inr (Some \<lparr>c_fee = fee, c_change = change, c_total = total,
                  c_outputs = set_amount (hd (j_recipients j)) total
                    # (if change > 0 then [change_output j change] else [])\<rparr>)))))"

definition choose_added :: "job \<Rightarrow> nat \<Rightarrow> int \<Rightarrow> choice option res" where
  "choose_added j count inputTotal =
     bindE (estimateVsize j count True) (\<lambda>vs.
     let withChangeFee = j_rate j * int vs;
         candidateChange = inputTotal - j_requested j - withChangeFee
     in if candidateChange \<ge> j_changeDust j then
          bindE (too_heavy j count True) (\<lambda>_.
          Inr (Some \<lparr>c_fee = withChangeFee, c_change = candidateChange, c_total = j_requested j,
            c_outputs = j_recipients j @ [change_output j candidateChange]\<rparr>))
        else bindE (estimateVsize j count False) (\<lambda>vs.
          let noChangeFee = j_rate j * int vs
          in if inputTotal \<ge> j_requested j + noChangeFee
             then Inr (Some \<lparr>c_fee = inputTotal - j_requested j, c_change = 0, c_total = j_requested j,
               c_outputs = j_recipients j\<rparr>)
             else Inr None))"

definition add_coin :: "utxo \<Rightarrow> int \<Rightarrow> loop_state \<Rightarrow> loop_state res" where
  "add_coin u amount s =
     bindE (utxo_outpoint u) (\<lambda>key.
     if key \<in> set (l_seen s) then Inl (Pay DuplicateFunding)
     else bindE (amountInConnects (JBig (l_inputTotal s + amount))) (\<lambda>inputTotal.
       Inr \<lparr>l_selected = l_selected s @ [u], l_seen = key # l_seen s,
            l_inputs = l_inputs s @ [placeholder_input u], l_inputTotal = inputTotal\<rparr>))"

fun select_coins :: "job \<Rightarrow> (utxo \<times> int) list \<Rightarrow> loop_state \<Rightarrow> (loop_state \<times> choice option) res" where
  "select_coins j [] s = Inr (s, None)"
| "select_coins j ((u, amount) # rest) s =
     bindE (add_coin u amount s) (\<lambda>s.
     bindE (too_heavy j (length (l_inputs s)) False) (\<lambda>_.
     bindE (if j_subtract j then choose_subtract j (length (l_inputs s)) (l_inputTotal s)
            else choose_added j (length (l_inputs s)) (l_inputTotal s)) (\<lambda>c.
     case c of Some _ \<Rightarrow> Inr (s, c) | None \<Rightarrow> select_coins j rest s)))"

definition start_state :: loop_state where
  "start_state = \<lparr>l_selected = [], l_seen = [], l_inputs = [], l_inputTotal = 0\<rparr>"

section \<open>The plan\<close>

definition coin_amounts :: "utxo list \<Rightarrow> (utxo \<times> int) list res" where
  "coin_amounts = mapE (\<lambda>u. bindE (amountInConnects (u_amount u)) (\<lambda>a. Inr (u, a)))"

definition output_sizes :: "(bytes \<Rightarrow> bool) \<Rightarrow> tx_output list \<Rightarrow> nat res" where
  "output_sizes on_curve outs =
     foldE (\<lambda>out n. bindE (serializeOutput on_curve out) (\<lambda>b. Inr (n + length b))) outs 0"

definition payment_job :: "env \<Rightarrow> options \<Rightarrow> (int \<times> job \<times> (utxo \<times> int) list) res" where
  "payment_job e p =
     bindE (checkedFeeRate (o_feeRate p)) (\<lambda>rate.
     bindE (amountInConnects (o_maxFee p)) (\<lambda>maximumFee.
     if length (o_utxos p) < 1 \<or> length (o_utxos p) > MAX_PAYMENT_INPUTS
        \<or> length (o_outputs p) < 1 \<or> length (o_outputs p) > 100 then Inl (Pay InvalidPaymentCounts)
     else if o_subtract p \<and> length (o_outputs p) \<noteq> 1 then Inl (Pay OneRecipientRequired)
     else bindE (mapE (recipientOutput e (o_network p)) (o_outputs p)) (\<lambda>recipients.
       let requested = sum_list (map (\<lambda>out. int (dec_val (out_amount out))) recipients) in
       bindE (amountInConnects (JBig requested)) (\<lambda>_.
       bindE (decodeAddress (e_lib e) (e_curve e) (o_change p) (o_network p)) (\<lambda>key.
       let changeKey = hex_of_bytes key; changeOutput = P2PK ''0'' changeKey in
       bindE (coin_amounts (o_utxos p)) (\<lambda>coins.
       bindE (output_sizes (e_curve e) recipients) (\<lambda>recipientBytes.
       bindE (serializeOutput (e_curve e) changeOutput) (\<lambda>cb.
       bindE (dustThreshold (e_curve e) changeOutput) (\<lambda>changeDust.
       Inr (maximumFee,
         \<lparr>j_rate = rate, j_subtract = o_subtract p, j_requested = requested, j_recipients = recipients,
          j_changeKey = changeKey, j_recipientBytes = recipientBytes, j_changeBytes = length cb,
          j_changeDust = changeDust, j_recipientDust = dustThreshold (e_curve e) (hd recipients)\<rparr>,
         js_sort (coin_cmp (o_subtract p) requested) coins))))))))))"

definition paymentPlan :: "env \<Rightarrow> options \<Rightarrow> plan res" where
  "paymentPlan e p =
     bindE (payment_job e p) (\<lambda>(maximumFee, j, coins).
     bindE (select_coins j coins start_state) (\<lambda>(s, choice).
     case choice of
       None \<Rightarrow> Inl (Pay InsufficientFunds)
     | Some c \<Rightarrow>
         if c_fee c > maximumFee then Inl (Pay FeeAboveLimit)
         else bindE (estimateVsize j (length (l_inputs s)) (c_change c > 0)) (\<lambda>vs.
           Inr \<lparr>p_selected = l_selected s,
                p_tx = \<lparr>version = 2, inputs = l_inputs s, outputs = c_outputs c, locktime = 0\<rparr>,
                p_fee = c_fee c, p_total = c_total c, p_requested = j_requested j,
                p_inputTotal = l_inputTotal s, p_change = c_change c, p_vsize = vs\<rparr>)))"

text \<open>The public metadata of the plan, without its transaction.\<close>

definition selectPaymentFunding :: "env \<Rightarrow> options \<Rightarrow> (utxo list \<times> int \<times> int \<times> int \<times> int \<times> int \<times> nat) res" where
  "selectPaymentFunding e p = bindE (paymentPlan e p) (\<lambda>r.
     Inr (p_selected r, p_fee r, p_total r, p_requested r, p_inputTotal r, p_change r, p_vsize r))"

end
