(* ===== verification/Transaction_Parse.thy ===== *)
theory Transaction_Parse
  imports Transaction_Fields
begin

text \<open>
  The transaction parser against the serializer. \<open>read_tx\<close> is the reading part of
  \<open>parseTransaction\<close> without the key cache; \<open>read_tx_iff\<close> says that it accepts exactly the framed
  encodings of well-shaped transactions. From it follow the round trip in both directions, the
  redundancy of the final re-serialization check, and the agreement of the cheap identity check
  \<open>transactionIdFromRaw\<close> with the full parser.
\<close>

section \<open>Well-formed transactions\<close>

definition wf_shape :: "(bytes \<Rightarrow> bool) \<Rightarrow> tx \<Rightarrow> bool" where
  "wf_shape on_curve t \<longleftrightarrow> is_u32 (version t) \<and> is_u32 (locktime t)
     \<and> 1 \<le> length (inputs t) \<and> length (inputs t) \<le> MAX_INPUTS
     \<and> 1 \<le> length (outputs t) \<and> length (outputs t) \<le> MAX_OUTPUTS
     \<and> list_all (\<lambda>i. wf_input i \<and> wf_stack (witness i)) (inputs t)
     \<and> list_all (wf_output on_curve) (outputs t)"

definition output_value :: "tx_output \<Rightarrow> int" where
  "output_value out = int (dec_val (out_amount out))"

definition input_key :: "tx_input \<Rightarrow> string \<times> int" where
  "input_key i = (txid i, vout i)"

definition wf_tx :: "(bytes \<Rightarrow> bool) \<Rightarrow> tx \<Rightarrow> bool" where
  "wf_tx on_curve t \<longleftrightarrow> wf_shape on_curve t \<and> distinct (map input_key (inputs t))
     \<and> sum_list (map output_value (outputs t)) \<le> MAX_MONEY"

lemma wf_output_value:
  "wf_output oc out \<Longrightarrow> amountInConnects (JStr (out_amount out)) = Inr (output_value out)
     \<and> 0 \<le> output_value out"
  by (auto simp: wf_output_def wf_amount_iff output_value_def)

lemma output_values_nonneg: "list_all (wf_output oc) outs \<Longrightarrow> 0 \<le> sum_list (map output_value outs)"
  by (intro sum_list_nonneg_map) (auto simp: output_value_def)

text \<open>The totals check of \<open>validateShape\<close> stops at the first excess; nothing is negative, so it
  succeeds exactly when the whole sum is in range.\<close>

lemma sum_outputs_loop:
  "list_all (wf_output oc) outs \<Longrightarrow> acc \<le> MAX_MONEY \<Longrightarrow>
     foldE (\<lambda>out total. bindE (amountInConnects (JStr (out_amount out))) (\<lambda>a.
       if total + a > MAX_MONEY then Inl TotalOutOfRange else Inr (total + a))) outs acc
     = (if acc + sum_list (map output_value outs) \<le> MAX_MONEY
        then Inr (acc + sum_list (map output_value outs)) else Inl TotalOutOfRange)"
proof (induction outs arbitrary: acc)
  case (Cons out outs)
  then have "0 \<le> sum_list (map output_value outs)" using output_values_nonneg by auto
  with Cons wf_output_value [of oc out] show ?case by (auto simp: add.assoc)
qed simp

lemma sum_outputs_wf:
  "list_all (wf_output oc) outs \<Longrightarrow>
     sum_outputs outs = (if sum_list (map output_value outs) \<le> MAX_MONEY
        then Inr (sum_list (map output_value outs)) else Inl TotalOutOfRange)"
  using sum_outputs_loop [of oc outs 0] by (simp add: sum_outputs_def MAX_MONEY_def COIN_def)

definition op_bytes :: "tx_input \<Rightarrow> bytes" where
  "op_bytes i = rev (bytes_of_hex (txid i)) @ le_bytes 4 (nat (vout i))"

lemma le_bytes_inject: "a < 256 ^ k \<Longrightarrow> b < 256 ^ k \<Longrightarrow> le_bytes k a = le_bytes k b \<longleftrightarrow> a = b"
  by (metis le_val_le_bytes_small)

lemma op_bytes_inject:
  assumes "wf_input i" and "wf_input j"
  shows "op_bytes i = op_bytes j \<longleftrightarrow> input_key i = input_key j"
proof
  obtain a b where ab: "txid i = hex_of_bytes a" "length a = 32" "txid j = hex_of_bytes b" "length b = 32"
    using assms by (auto simp: wf_input_def hex_field_iff)
  have v: "nat (vout i) < 256 ^ 4" "nat (vout j) < 256 ^ 4" "0 \<le> vout i" "0 \<le> vout j"
    using assms is_u32_nat by (auto simp: wf_input_def is_u32_def)
  assume "op_bytes i = op_bytes j"
  then have "a = b" and "le_bytes 4 (nat (vout i)) = le_bytes 4 (nat (vout j))"
    using ab by (simp_all add: op_bytes_def)
  then show "input_key i = input_key j"
    using ab v le_bytes_inject [OF v(1,2)] by (simp add: input_key_def)
qed (simp add: op_bytes_def input_key_def)

lemma check_inputs_loop:
  "list_all (\<lambda>i. wf_input i \<and> wf_stack (witness i)) ins \<Longrightarrow>
     check_inputs ins seen = (if distinct (map op_bytes ins) \<and> set (map op_bytes ins) \<inter> set seen = {}
        then Inr (rev (map op_bytes ins) @ seen) else Inl DuplicateInput)"
proof (induction ins arbitrary: seen)
  case (Cons i ins)
  then have i: "wf_input i" "wf_stack (witness i)" by auto
  have op: "outpoint i = Inr (op_bytes i)"
    using i by (simp add: wf_input_def outpoint_eq op_bytes_def)
  obtain s where "length s \<le> 10000" "scriptSig i = hex_of_bytes s"
    using i by (auto simp: wf_input_def hex_blob_iff)
  then have "hexBytes None (scriptSig i) = Inr s" "\<not> length s > 10000" by auto
  with op Cons i show ?case by (auto simp: check_inputs_def wf_stack_def)
qed (simp add: check_inputs_def)

lemma distinct_keys:
  "list_all (\<lambda>i. wf_input i \<and> wf_stack (witness i)) ins \<Longrightarrow>
     distinct (map op_bytes ins) = distinct (map input_key ins)"
  by (induction ins) (auto simp: list_all_iff op_bytes_inject image_iff)

lemma validateShape_wf:
  "wf_shape oc t \<Longrightarrow> validateShape t = (if sum_list (map output_value (outputs t)) > MAX_MONEY
     then Inl TotalOutOfRange else if \<not> distinct (map input_key (inputs t)) then Inl DuplicateInput
     else Inr ())"
  by (auto simp: validateShape_def wf_shape_def sum_outputs_wf check_inputs_loop distinct_keys
      is_u32_nat)

section \<open>Framing\<close>

definition frame :: "(bytes \<Rightarrow> bool) \<Rightarrow> tx \<Rightarrow> bool \<Rightarrow> bytes res" where
  "frame on_curve t hasWitness =
     bindE (u32 (version t)) (\<lambda>v.
     bindE (compactSize (length (inputs t))) (\<lambda>nin.
     bindE (enc_all serialize_input (inputs t)) (\<lambda>ins.
     bindE (compactSize (length (outputs t))) (\<lambda>nout.
     bindE (enc_all (serializeOutput on_curve) (outputs t)) (\<lambda>outs.
     bindE (if hasWitness then enc_all (\<lambda>i. serialize_stack (witness i)) (inputs t) else Inr []) (\<lambda>wits.
     bindE (u32 (locktime t)) (\<lambda>lt.
     Inr (v @ (if hasWitness then [0, 1] else []) @ nin @ ins @ nout @ outs @ wits @ lt))))))))"

lemma serialize_frame:
  "serializeTransaction oc t w = bindE (validateShape t) (\<lambda>_.
     bindE (frame oc t (w \<and> has_witness (inputs t))) (\<lambda>b.
     if length b > MAX_TX_BYTES then Inl TransactionTooLarge else Inr b))"
  unfolding serializeTransaction_plain serialize_plain_def frame_def enc_all_def Let_def bindE_assoc
    bindE_simps by simp

definition read_tx :: "(bytes \<Rightarrow> bool) \<Rightarrow> bytes \<Rightarrow> tx res" where
  "read_tx on_curve data =
     bindE (rd_uint \<lparr>rdata = data, roff = 0\<rparr>) (\<lambda>(v, r).
     bindE (rd_in_count r) (\<lambda>(n, witnessed, r).
     if too_many n 41 r then Inl InvalidInputCount else
     bindE (rd_many rd_input n r) (\<lambda>(ins, r).
     bindE (rd_count MAX_OUTPUTS r) (\<lambda>(m, r).
     if too_many m 9 r then Inl InvalidOutputCount else
     bindE (rd_many (rd_output on_curve) m r) (\<lambda>(outs, r).
     bindE (if witnessed then rd_many rd_stack n r else Inr (replicate n [], r)) (\<lambda>(wits, r).
     let ins = map2 set_witness ins wits in
     if witnessed \<and> \<not> has_witness ins then Inl SuperfluousWitness else
     bindE (rd_uint r) (\<lambda>(lt, r).
     let t = \<lparr>version = int v, inputs = ins, outputs = outs, locktime = int lt\<rparr> in
     if roff r \<noteq> length (rdata r) then Inl TrailingData else Inr t)))))))"

text \<open>Attaching the stacks to the inputs that were read without them.\<close>

lemma map2_set_witness:
  "length ws = length ins \<Longrightarrow> map witness (map2 set_witness ins ws) = ws"
  "length ws = length ins \<Longrightarrow> list_all (\<lambda>i. witness i = []) ins \<Longrightarrow>
     map (\<lambda>i. set_witness i []) (map2 set_witness ins ws) = ins"
  by (induction ins ws rule: list_induct2') (auto simp: set_witness_def)

lemma map2_set_witness_id:
  "map2 set_witness (map (\<lambda>i. set_witness i []) ins) (map witness ins) = ins"
  by (induction ins) (auto simp: set_witness_def)

lemma list_all_set_witness:
  "list_all wf_input (map (\<lambda>i. set_witness i []) ins) = list_all wf_input ins"
  by (induction ins) auto

lemma enc_all_map: "enc_all enc (map f xs) = enc_all (\<lambda>x. enc (f x)) xs"
  by (induction xs) auto

lemma enc_all_length:
  assumes "\<And>x b. x \<in> set xs \<Longrightarrow> enc x = Inr b \<Longrightarrow> k \<le> length b"
  shows "enc_all enc xs = Inr bs \<Longrightarrow> k * length xs \<le> length bs"
  using assms
proof (induction xs arbitrary: bs)
  case (Cons x xs)
  then obtain b c where "enc x = Inr b" "enc_all enc xs = Inr c" "bs = b @ c" by auto
  with Cons.IH [of c] Cons.prems(2) [of x b] Cons.prems(2) show ?case by (force simp: algebra_simps)
qed simp

lemma consumed_room: "consumed r bs r' \<Longrightarrow> length bs \<le> length (rdata r) - roff r"
  by (metis consumed_def length_append length_drop le_add1 unread_def)

lemma rd_in_count_iff:
  "rd_in_count r = Inr (n, wd, r') \<longleftrightarrow> n \<le> MAX_INPUTS \<and> (\<not> wd \<longrightarrow> 0 < n) \<and>
     (\<exists>bs. compactSize n = Inr bs \<and> consumed r ((if wd then [0, 1] else []) @ bs) r')"
  (is "?dec \<longleftrightarrow> ?enc")
proof -
  have lim: "MAX_INPUTS \<le> MAX_TX_BYTES" by (simp add: tx_limits)
  have z: "compactSize 0 = Inr [0]" by (simp add: compactSize_Inr)
  have w: "consumed r (0 # 1 # bs) r' \<longleftrightarrow>
      (\<exists>r1 r2. consumed r [0] r1 \<and> consumed r1 [1] r2 \<and> consumed r2 bs r')" for bs
    by (subst consumed_Cons, subst (2) consumed_Cons) blast
  show ?thesis
    by (cases wd) (auto simp: rd_in_count_def rd_count_iff [OF lim] z w split: if_splits; blast)+
qed

interpretation out_count: codec "\<lambda>n. n \<le> MAX_OUTPUTS" compactSize "rd_count MAX_OUTPUTS"
  by (rule count_codec) (simp add: tx_limits)

text \<open>The counts never exceed what the rest of the data can hold, because every input has at least
  41 bytes and every output at least 9.\<close>

lemma enough_input_bytes:
  assumes "list_all wf_input ins" and "enc_all serialize_input ins = Inr bs" and "consumed r bs r'"
    and "1 \<le> length ins"
  shows "\<not> too_many (length ins) 41 r"
proof -
  have "41 * length ins \<le> length bs"
    using assms(1) by (intro enc_all_length [OF _ assms(2)]) (auto simp: list_all_iff serialize_input_length)
  with consumed_room [OF assms(3)] assms(4) show ?thesis by (auto simp: too_many_def)
qed

lemma enough_output_bytes:
  assumes "enc_all (serializeOutput oc) outs = Inr bs" and "consumed r bs r'" and "1 \<le> length outs"
  shows "\<not> too_many (length outs) 9 r"
proof -
  have "9 * length outs \<le> length bs"
    by (intro enc_all_length [OF _ assms(1)]) (auto simp: serializeOutput_length)
  with consumed_room [OF assms(2)] assms(3) show ?thesis by (auto simp: too_many_def)
qed

lemma if_Inl_Inr: "(if c then Inl e else m) = Inr x \<longleftrightarrow> \<not> c \<and> m = Inr x"
  by simp

lemma not_too_many: "\<not> too_many n k r \<Longrightarrow> 1 \<le> n"
  by (simp add: too_many_def)

text \<open>The intermediate readers of a successful run, in the order of the code.\<close>

definition run_of :: "(bytes \<Rightarrow> bool) \<Rightarrow> bytes \<Rightarrow> nat \<Rightarrow> bool \<Rightarrow> tx_input list \<Rightarrow> tx_output list
    \<Rightarrow> string list list \<Rightarrow> nat \<Rightarrow> bool" where
  "run_of oc data v wd ins outs wits lt \<longleftrightarrow> (\<exists>r1 r2 r3 r4 r5 r6 r7.
     rd_uint \<lparr>rdata = data, roff = 0\<rparr> = Inr (v, r1) \<and>
     rd_in_count r1 = Inr (length ins, wd, r2) \<and> \<not> too_many (length ins) 41 r2 \<and>
     rd_many rd_input (length ins) r2 = Inr (ins, r3) \<and>
     rd_count MAX_OUTPUTS r3 = Inr (length outs, r4) \<and> \<not> too_many (length outs) 9 r4 \<and>
     rd_many (rd_output oc) (length outs) r4 = Inr (outs, r5) \<and>
     (if wd then rd_many rd_stack (length ins) r5 else Inr (replicate (length ins) [], r5)) = Inr (wits, r6) \<and>
     rd_uint r6 = Inr (lt, r7) \<and> roff r7 = length (rdata r7))"

lemma rd_many_length: "rd_many dec n r = Inr (xs, r') \<Longrightarrow> length xs = n"
  by (induction n arbitrary: r xs) auto

lemma read_tx_run:
  "read_tx oc data = Inr t \<longleftrightarrow> (\<exists>v wd ins outs wits lt. run_of oc data v wd ins outs wits lt \<and>
     (wd \<longrightarrow> has_witness (map2 set_witness ins wits)) \<and>
     t = \<lparr>version = int v, inputs = map2 set_witness ins wits, outputs = outs, locktime = int lt\<rparr>)"
  (is "?dec \<longleftrightarrow> ?run")
proof
  assume ?dec
  then obtain v r1 n wd r2 ins r3 m r4 outs r5 wits r6 lt r7 where
    "rd_uint \<lparr>rdata = data, roff = 0\<rparr> = Inr (v, r1)" "rd_in_count r1 = Inr (n, wd, r2)"
    "\<not> too_many n 41 r2" "rd_many rd_input n r2 = Inr (ins, r3)" "rd_count MAX_OUTPUTS r3 = Inr (m, r4)"
    "\<not> too_many m 9 r4" "rd_many (rd_output oc) m r4 = Inr (outs, r5)"
    "(if wd then rd_many rd_stack n r5 else Inr (replicate n [], r5)) = Inr (wits, r6)"
    "rd_uint r6 = Inr (lt, r7)" "roff r7 = length (rdata r7)"
    "wd \<longrightarrow> has_witness (map2 set_witness ins wits)"
    "t = \<lparr>version = int v, inputs = map2 set_witness ins wits, outputs = outs, locktime = int lt\<rparr>"
    unfolding read_tx_def Let_def
    by (simp only: bindE_prod_Inr split_paired_Ex prod.case if_Inl_Inr sum.inject not_not) blast
  moreover from this have "n = length ins" and "m = length outs" by (simp_all only: rd_many_length)
  ultimately show ?run unfolding run_of_def by blast
next
  assume ?run
  then show ?dec unfolding run_of_def read_tx_def by (elim exE conjE) (simp add: Let_def del: bindE_prod_Inr rd_uint_Inr)
qed

text \<open>What such a run has read.\<close>

lemma run_of_iff:
  "run_of oc data v wd ins outs wits lt \<longleftrightarrow>
     v < 256 ^ 4 \<and> lt < 256 ^ 4 \<and> 1 \<le> length ins \<and> length ins \<le> MAX_INPUTS \<and> 1 \<le> length outs
     \<and> length outs \<le> MAX_OUTPUTS \<and> list_all (\<lambda>i. wf_input i \<and> witness i = []) ins
     \<and> list_all (wf_output oc) outs \<and> length wits = length ins
     \<and> (if wd then list_all wf_stack wits else wits = replicate (length ins) [])
     \<and> (\<exists>nin bi nout bo bw. compactSize (length ins) = Inr nin \<and> enc_all serialize_input ins = Inr bi
          \<and> compactSize (length outs) = Inr nout \<and> enc_all (serializeOutput oc) outs = Inr bo
          \<and> (if wd then enc_all serialize_stack wits else Inr []) = Inr bw
          \<and> data = le_bytes 4 v @ (if wd then [0, 1] else []) @ nin @ bi @ nout @ bo @ bw @ le_bytes 4 lt)"
  (is "?run \<longleftrightarrow> ?data")
proof
  assume ?run
  then obtain r1 r2 r3 r4 r5 r6 r7 where
      r: "rd_uint \<lparr>rdata = data, roff = 0\<rparr> = Inr (v, r1)" "rd_in_count r1 = Inr (length ins, wd, r2)"
        "rd_many rd_input (length ins) r2 = Inr (ins, r3)"
        "rd_count MAX_OUTPUTS r3 = Inr (length outs, r4)" "rd_many (rd_output oc) (length outs) r4 = Inr (outs, r5)"
      and w: "(if wd then rd_many rd_stack (length ins) r5 else Inr (replicate (length ins) [], r5)) = Inr (wits, r6)"
      and l: "rd_uint r6 = Inr (lt, r7)" and e: "roff r7 = length (rdata r7)"
      and n: "1 \<le> length ins" "1 \<le> length outs"
    unfolding run_of_def using not_too_many by blast
  from r l obtain nin bi nout bo where c:
      "consumed \<lparr>rdata = data, roff = 0\<rparr> (le_bytes 4 v) r1"
      "consumed r1 ((if wd then [0, 1] else []) @ nin) r2" "consumed r2 bi r3" "consumed r3 nout r4"
      "consumed r4 bo r5" "consumed r6 (le_bytes 4 lt) r7"
    and p: "compactSize (length ins) = Inr nin" "enc_all serialize_input ins = Inr bi"
      "compactSize (length outs) = Inr nout" "enc_all (serializeOutput oc) outs = Inr bo"
    and f: "v < 256 ^ 4" "lt < 256 ^ 4" "length ins \<le> MAX_INPUTS" "length outs \<le> MAX_OUTPUTS"
      "list_all (\<lambda>i. wf_input i \<and> witness i = []) ins" "list_all (wf_output oc) outs"
    by (auto simp: rd_in_count_iff input_field.many_dec_iff out_count.dec_iff
        codec.many_dec_iff [OF output_codec])
  from w obtain bw where bw: "consumed r5 bw r6" "(if wd then enc_all serialize_stack wits else Inr []) = Inr bw"
      "length wits = length ins" "if wd then list_all wf_stack wits else wits = replicate (length ins) []"
    by (cases wd) (auto simp: stack_field.many_dec_iff)
  have all: "consumed \<lparr>rdata = data, roff = 0\<rparr> (le_bytes 4 v @ ((if wd then [0, 1] else []) @ nin) @ bi @ nout
      @ bo @ bw @ le_bytes 4 lt) r7"
    using c bw(1) consumed_append by blast
  from consumed_data [OF all] e have "roff r7 = length data" by simp
  from consumed_to_end [OF all this]
  have "data = le_bytes 4 v @ (if wd then [0, 1] else []) @ nin @ bi @ nout @ bo @ bw @ le_bytes 4 lt"
    by simp
  with p bw f n show ?data by blast
next
  assume ?data
  then obtain nin bi nout bo bw where p: "compactSize (length ins) = Inr nin" "enc_all serialize_input ins = Inr bi"
      "compactSize (length outs) = Inr nout" "enc_all (serializeOutput oc) outs = Inr bo"
      "(if wd then enc_all serialize_stack wits else Inr []) = Inr bw"
    and d: "data = le_bytes 4 v @ ((if wd then [0, 1] else []) @ nin) @ bi @ nout @ bo @ bw @ le_bytes 4 lt"
    and f: "v < 256 ^ 4" "lt < 256 ^ 4" "1 \<le> length ins" "length ins \<le> MAX_INPUTS" "1 \<le> length outs"
      "length outs \<le> MAX_OUTPUTS" "list_all (\<lambda>i. wf_input i \<and> witness i = []) ins"
      "list_all (wf_output oc) outs" "length wits = length ins"
      "if wd then list_all wf_stack wits else wits = replicate (length ins) []"
    by auto
  let ?fin = "\<lparr>rdata = data, roff = length data\<rparr>"
  have "consumed \<lparr>rdata = data, roff = 0\<rparr> data ?fin" by (simp add: consumed_all)
  then obtain r1 r2 r3 r4 r5 r6 where c:
      "consumed \<lparr>rdata = data, roff = 0\<rparr> (le_bytes 4 v) r1"
      "consumed r1 ((if wd then [0, 1] else []) @ nin) r2" "consumed r2 bi r3" "consumed r3 nout r4"
      "consumed r4 bo r5" "consumed r5 bw r6" "consumed r6 (le_bytes 4 lt) ?fin"
    by (subst (asm) (2) d, unfold consumed_append) blast
  have "list_all wf_input ins" using f by (simp add: list_all_iff)
  from enough_input_bytes [OF this p(2) c(3) f(3)] enough_output_bytes [OF p(4) c(5) f(5)]
  have many: "\<not> too_many (length ins) 41 r2" "\<not> too_many (length outs) 9 r4" by simp_all
  have "rd_uint \<lparr>rdata = data, roff = 0\<rparr> = Inr (v, r1)" "rd_in_count r1 = Inr (length ins, wd, r2)"
      "rd_many rd_input (length ins) r2 = Inr (ins, r3)"
      "rd_count MAX_OUTPUTS r3 = Inr (length outs, r4)" "rd_many (rd_output oc) (length outs) r4 = Inr (outs, r5)"
      "rd_uint r6 = Inr (lt, ?fin)"
    using c f p
    by (simp_all add: rd_in_count_iff input_field.many_dec_iff out_count.dec_iff
        codec.many_dec_iff [OF output_codec] less_eq_Suc_le del: One_nat_def)
  moreover have "(if wd then rd_many rd_stack (length ins) r5 else Inr (replicate (length ins) [], r5)) = Inr (wits, r6)"
    using c(6) p(5) f(9,10) by (cases wd) (simp_all add: stack_field.many_dec_iff)
  ultimately show ?run unfolding run_of_def using many
    by (intro exI conjI) (assumption | simp)+
qed

lemma enc_stacks: "enc_all (\<lambda>i. serialize_stack (witness i)) ins = enc_all serialize_stack (map witness ins)"
  by (simp add: enc_all_map)

lemma enc_inputs: "length ws = length ins \<Longrightarrow> list_all (\<lambda>i. witness i = []) ins \<Longrightarrow>
    enc_all serialize_input (map2 set_witness ins ws) = enc_all serialize_input ins"
  by (induction ins ws rule: list_induct2') auto

lemma wf_inputs_split:
  "length ws = length ins \<Longrightarrow> list_all (\<lambda>i. wf_input i \<and> wf_stack (witness i)) (map2 set_witness ins ws)
     \<longleftrightarrow> list_all wf_input ins \<and> list_all wf_stack ws"
  by (induction ins ws rule: list_induct2') (auto simp: set_witness_def wf_input_def)

lemma has_witness_map2:
  "length ws = length ins \<Longrightarrow> has_witness (map2 set_witness ins ws) \<longleftrightarrow> list_ex (\<lambda>w. w \<noteq> []) ws"
  by (induction ins ws rule: list_induct2') (auto simp: set_witness_def has_witness_def)

lemma no_witness: "\<not> list_ex (\<lambda>w. w \<noteq> []) ws \<longleftrightarrow> ws = replicate (length ws) []"
  by (induction ws) auto

lemma wf_stack_Nil [simp]: "wf_stack []"
  by (simp add: wf_stack_def)

lemma read_tx_iff:
  "read_tx oc data = Inr t \<longleftrightarrow> wf_shape oc t \<and> frame oc t (has_witness (inputs t)) = Inr data"
  (is "?dec \<longleftrightarrow> ?enc")
proof
  assume ?dec
  then obtain v wd ins outs wits lt where run: "run_of oc data v wd ins outs wits lt"
    and hw: "wd \<longrightarrow> has_witness (map2 set_witness ins wits)"
    and t: "t = \<lparr>version = int v, inputs = map2 set_witness ins wits, outputs = outs, locktime = int lt\<rparr>"
    by (auto simp: read_tx_run)
  from run have f: "v < 256 ^ 4" "lt < 256 ^ 4" "list_all (\<lambda>i. wf_input i \<and> witness i = []) ins"
      "length wits = length ins" "if wd then list_all wf_stack wits else wits = replicate (length ins) []"
    unfolding run_of_iff by blast+
  have wd: "has_witness (inputs t) = wd"
    using hw f(4,5) no_witness [of wits] by (cases wd) (simp_all add: t has_witness_map2)
  have ws: "list_all wf_stack wits" using f(5) by (cases wd) auto
  have ins: "list_all wf_input ins" "list_all (\<lambda>i. witness i = []) ins"
    using f(3) by (simp_all add: list_all_iff)
  have "wf_shape oc t"
    using run f ins ws
    by (simp add: run_of_iff wf_shape_def t is_u32_int wf_inputs_split del: One_nat_def)
  moreover have "frame oc t wd = Inr data"
    using run f ins ws by (auto simp: run_of_iff frame_def t u32_def enc_stacks enc_inputs map2_set_witness
        simp del: map_map)
  ultimately show ?enc using wd by simp
next
  assume e: ?enc
  define ins where "ins = map (\<lambda>i. set_witness i []) (inputs t)"
  define wits where "wits = map witness (inputs t)"
  define wd where "wd = has_witness (inputs t)"
  have i: "inputs t = map2 set_witness ins wits" by (simp add: ins_def wits_def map2_set_witness_id)
  have len: "length wits = length ins" by (simp add: ins_def wits_def)
  from e have w: "wf_shape oc t" and d: "frame oc t wd = Inr data" by (simp_all add: wd_def)
  have hw: "wd = has_witness (map2 set_witness ins wits)" using i by (simp add: wd_def)
  have wi: "list_all (\<lambda>i. witness i = []) ins" by (simp add: ins_def list_all_iff set_witness_def)
  have v: "nat (version t) < 256 ^ 4" "nat (locktime t) < 256 ^ 4" "0 \<le> version t" "0 \<le> locktime t"
    using w is_u32_nat by (auto simp: wf_shape_def is_u32_def)
  have f: "is_u32 (version t)" "is_u32 (locktime t)" "list_all wf_input ins" "list_all wf_stack wits"
      "list_all (wf_output oc) (outputs t)"
    using w i len by (simp_all add: wf_shape_def wf_inputs_split)
  have n: "length ins = length (inputs t)" by (simp add: ins_def)
  have bi: "enc_all serialize_input (inputs t) = enc_all serialize_input ins"
    and bw: "enc_all (\<lambda>i. serialize_stack (witness i)) (inputs t) = enc_all serialize_stack wits"
    using i len wi by (simp_all add: enc_inputs) (simp add: enc_stacks wits_def)
  from d [unfolded frame_def bi bw] obtain nin b nout bo bx where
      p: "compactSize (length ins) = Inr nin" "enc_all serialize_input ins = Inr b"
        "compactSize (length (outputs t)) = Inr nout" "enc_all (serializeOutput oc) (outputs t) = Inr bo"
        "(if wd then enc_all serialize_stack wits else Inr []) = Inr bx"
        "data = le_bytes 4 (nat (version t)) @ (if wd then [0, 1] else []) @ nin @ b @ nout @ bo @ bx
           @ le_bytes 4 (nat (locktime t))"
    by (auto simp: n)
  have ws: "if wd then list_all wf_stack wits else wits = replicate (length ins) []"
    using f len hw no_witness [of wits] by (cases wd) (simp_all add: has_witness_map2)
  have "1 \<le> length ins" "length ins \<le> MAX_INPUTS" "1 \<le> length (outputs t)" "length (outputs t) \<le> MAX_OUTPUTS"
    using w n by (simp_all add: wf_shape_def)
  moreover have "list_all (\<lambda>i. wf_input i \<and> witness i = []) ins"
    using f wi by (simp add: list_all_iff)
  ultimately have "run_of oc data (nat (version t)) wd ins (outputs t) wits (nat (locktime t))"
    unfolding run_of_iff using v f len ws p by blast
  moreover have "t = \<lparr>version = int (nat (version t)), inputs = map2 set_witness ins wits,
      outputs = outputs t, locktime = int (nat (locktime t))\<rparr>"
    using v i by (cases t) simp
  ultimately show ?dec unfolding read_tx_run using hw by blast
qed

section \<open>The parser without its key cache\<close>

text \<open>\<open>keeps I m p\<close>: a reading step with a cache \<open>m\<close> returns what the step without one returns.\<close>

definition keeps :: "('s \<Rightarrow> bool) \<Rightarrow> ('a \<times> 'r \<times> 's) res \<Rightarrow> ('a \<times> 'r) res \<Rightarrow> bool" where
  "keeps I m p \<longleftrightarrow> same_with I (bindE m (\<lambda>(a, r, s). Inr ((a, r), s))) p"

lemma keeps_Inr [simp]: "keeps I (Inr (a, r, s)) (Inr (b, r')) \<longleftrightarrow> a = b \<and> r = r' \<and> I s"
  by (auto simp: keeps_def)

lemma keeps_Inl [simp]: "keeps I (Inl e) (Inl e)"
  by (simp add: keeps_def)

lemma keeps_cases:
  assumes "keeps I m p"
  obtains e where "m = Inl e" and "p = Inl e" | a r s where "m = Inr (a, r, s)" and "p = Inr (a, r)" and "I s"
  using assms by (cases m; cases p) (auto simp: keeps_def same_with_def)

lemma keeps_step:
  "(\<And>a r. m = Inr (a, r) \<Longrightarrow> keeps I (f a r) (g a r)) \<Longrightarrow>
     keeps I (bindE m (\<lambda>(a, r). f a r)) (bindE m (\<lambda>(a, r). g a r))"
  by (cases m) auto

lemma keeps_bind:
  assumes "keeps I m p" and "\<And>a r s. I s \<Longrightarrow> keeps J (f a r s) (g a r)"
  shows "keeps J (bindE m (\<lambda>(a, r, s). f a r s)) (bindE p (\<lambda>(a, r). g a r))"
  using assms(1) by (cases rule: keeps_cases) (auto simp: assms(2))

lemma keeps_if: "keeps I m p \<Longrightarrow> keeps I m' p' \<Longrightarrow> keeps I (if c then m else m') (if c then p else p')"
  by simp

lemma rd_output_cached:
  assumes "cache_ok oc keys"
  shows "keeps (cache_ok oc) (rd_output_keys oc (r, keys)) (rd_output oc r)"
proof -
  have key: "keeps (cache_ok oc)
      (bindE (transactionPublicKey oc (KBytes k) keys) (\<lambda>(pk, keys). Inr (P2PK a (hex_of_bytes pk), r, keys)))
      (bindE (validatePublicKey oc (KBytes k)) (\<lambda>pk. Inr (P2PK a (hex_of_bytes pk), r)))" for k a r
    using transactionPublicKey_cached [OF assms, of "KBytes k"]
    by (cases "validatePublicKey oc (KBytes k)") (auto simp: same_with_def simp del: validatePublicKey_bytes)
  have payload: "keeps (cache_ok oc) (bindE m (\<lambda>_. Inr (x, r, keys))) (bindE m (\<lambda>_. Inr (x, r)))"
    for m :: "bytes res" and x r
    using assms by (cases m) simp_all
  show ?thesis
    unfolding rd_output_keys_def rd_output_def rd_payload_def Let_def prod.case
    by (intro keeps_step keeps_if key payload keeps_Inl)
qed

lemma outputs_read_cached:
  "cache_ok oc keys \<Longrightarrow> keeps (cache_ok oc) (rd_many (rd_output_keys oc) m (r, keys)) (rd_many (rd_output oc) m r)"
proof (induction m arbitrary: r keys)
  case (Suc m)
  consider (err) e where "rd_output_keys oc (r, keys) = Inl e" "rd_output oc r = Inl e"
    | (ok) a r1 s where "rd_output_keys oc (r, keys) = Inr (a, r1, s)" "rd_output oc r = Inr (a, r1)"
        "cache_ok oc s"
    using rd_output_cached [OF Suc.prems, of r] by (rule keeps_cases) blast+
  then show ?case
  proof cases
    case ok
    from Suc.IH [OF ok(3), of r1] show ?thesis by (rule keeps_cases) (simp_all add: ok)
  qed simp
qed simp

text \<open>The whole parser is: read, re-serialize, compare.\<close>

definition checked_tx :: "(bytes \<Rightarrow> bool) \<Rightarrow> bytes \<Rightarrow> tx res" where
  "checked_tx oc data = bindE (read_tx oc data) (\<lambda>t. bindE (serializeTransaction oc t True) (\<lambda>b.
     if b \<noteq> data then Inl NoncanonicalTransaction else Inr t))"

text \<open>One step of the cached parser against the same step of \<open>read_tx\<close>, with the final check as
  the continuation \<open>h\<close>.\<close>

lemma same_with_read:
  "same_with I (Inl e) (bindE (Inl e) h)"
  "same_with I m (bindE p h) \<Longrightarrow> same_with I m' (bindE p' h) \<Longrightarrow>
     same_with I (if c then m else m') (bindE (if c then p else p') h)"
  by simp_all

lemma same_with_read3:
  "(\<And>a b r. same_with I (f a b r) (bindE (g a b r) h)) \<Longrightarrow>
     same_with I (bindE m (\<lambda>(a, b, r). f a b r)) (bindE (bindE m (\<lambda>(a, b, r). g a b r)) h)"
  by (cases m) auto

lemma same_with_read2:
  "(\<And>a r. same_with I (f a r) (bindE (g a r) h)) \<Longrightarrow>
     same_with I (bindE m (\<lambda>(a, r). f a r)) (bindE (bindE m (\<lambda>(a, r). g a r)) h)"
  by (cases m) auto

lemma same_with_keeps:
  assumes "keeps I m p" and "\<And>a r s. I s \<Longrightarrow> same_with J (f a r s) (bindE (g a r) h)"
  shows "same_with J (bindE m (\<lambda>(a, r, s). f a r s)) (bindE (bindE p (\<lambda>(a, r). g a r)) h)"
  using assms(1) by (rule keeps_cases) (auto simp: assms(2))

lemma same_with_if: "same_with I m p \<Longrightarrow> same_with I m' p' \<Longrightarrow>
    same_with I (if c then m else m') (if c then p else p')"
  by simp

lemma checked_cached:
  assumes "cache_ok oc keys"
  shows "same_with (cache_ok oc)
     (bindE (serializeTransactionWithKeys oc t True keys) (\<lambda>(bytes, keys).
        if bytes \<noteq> data then Inl NoncanonicalTransaction else Inr (t, keys)))
     (bindE (Inr t) (\<lambda>t. bindE (serializeTransaction oc t True) (\<lambda>b.
        if b \<noteq> data then Inl NoncanonicalTransaction else Inr t)))"
  unfolding bindE_simps serializeTransaction_plain
  by (rule same_with_bind [OF serialize_cached [OF assms]]) simp

lemma parse_cached:
  assumes "cache_ok oc keys"
  shows "same_with (cache_ok oc) (parseTransactionWithKeys oc raw keys)
     (if length raw > MAX_TX_BYTES * 2 then Inl TransactionTooLarge
      else bindE (hexBytes None raw) (checked_tx oc))"
  unfolding parseTransactionWithKeys_def checked_tx_def [abs_def] read_tx_def Let_def
  by (rule same_with_if, simp, rule same_with_plain,
      (rule same_with_read same_with_read3 same_with_keeps [OF outputs_read_cached [OF assms]]
         same_with_read2 checked_cached | assumption)+)

lemma parseTransaction_eq:
  "parseTransaction oc raw = (if length raw > MAX_TX_BYTES * 2 then Inl TransactionTooLarge
     else bindE (hexBytes None raw) (checked_tx oc))" (is "_ = ?plain")
  using parse_cached [of oc "Some []" raw]
  by (cases ?plain) (auto simp: parseTransaction_def same_with_def simp del: bindE_eq_Inr)

lemma checked_tx_iff: "checked_tx oc data = Inr t \<longleftrightarrow> wf_tx oc t \<and> serializeTransaction oc t True = Inr data"
  by (auto simp: checked_tx_def read_tx_iff serialize_frame wf_tx_def validateShape_wf split: if_splits)

lemma parse_iff:
  "parseTransaction oc raw = Inr t \<longleftrightarrow>
     wf_tx oc t \<and> (\<exists>bs. serializeTransaction oc t True = Inr bs \<and> lower_str raw = hex_of_bytes bs)"
proof
  assume "parseTransaction oc raw = Inr t"
  then obtain data where "hexBytes None raw = Inr data" "checked_tx oc data = Inr t"
    by (auto simp: parseTransaction_eq split: if_splits)
  then show "wf_tx oc t \<and> (\<exists>bs. serializeTransaction oc t True = Inr bs \<and> lower_str raw = hex_of_bytes bs)"
    by (auto simp: checked_tx_iff hexBytes_Inr)
next
  assume a: "wf_tx oc t \<and> (\<exists>bs. serializeTransaction oc t True = Inr bs \<and> lower_str raw = hex_of_bytes bs)"
  then obtain bs where bs: "serializeTransaction oc t True = Inr bs" "lower_str raw = hex_of_bytes bs" by blast
  from bs(1) have "length bs \<le> MAX_TX_BYTES" by (auto simp: serialize_frame split: if_splits)
  moreover from lower_str_bytes [OF bs(2)] have "hexBytes None raw = Inr bs" "length raw = 2 * length bs"
    by (simp_all add: hexBytes_def)
  ultimately show "parseTransaction oc raw = Inr t"
    using a bs by (simp add: parseTransaction_eq checked_tx_iff)
qed

section \<open>The framing-only reader\<close>

lemma consumed_split: "length bs = m + n \<Longrightarrow> consumed r bs r' \<longleftrightarrow>
    (\<exists>r1. consumed r (take m bs) r1 \<and> consumed r1 (drop m bs) r')"
  by (metis append_take_drop_id consumed_append)

definition skim_input :: "reader \<Rightarrow> (bytes \<times> reader) res" where
  "skim_input r = bindE (rd_take 36 r) (\<lambda>(op, r). bindE (rd_blob 10000 r) (\<lambda>(_, r).
     bindE (rd_take 4 r) (\<lambda>(_, r). Inr (op, r))))"

lemma skim_input_iff: "skim_input r = Inr (op, r') \<longleftrightarrow> (\<exists>i. rd_input r = Inr (i, r') \<and> op = op_bytes i)"
proof
  assume "skim_input r = Inr (op, r')"
  then obtain r1 r2 s q where c: "length op = 36" "consumed r op r1" "rd_blob 10000 r1 = Inr (s, r2)"
      "length q = 4" "consumed r2 q r'"
    by (auto simp: skim_input_def)
  from c(1,2) obtain r0 where r0: "consumed r (take 32 op) r0" "consumed r0 (drop 32 op) r1"
    using consumed_split [of op 32 4] by auto
  have "consumed r0 (le_bytes 4 (le_val (drop 32 op))) r1" "consumed r2 (le_bytes 4 (le_val q)) r'"
    using r0 c by simp_all
  moreover have "le_val (drop 32 op) < 256 ^ 4" "le_val q < 256 ^ 4"
    using le_val_bound [of "drop 32 op"] le_val_bound [of q] c by simp_all
  ultimately have s: "rd_take 32 r = Inr (take 32 op, r0)" "rd_uint r0 = Inr (le_val (drop 32 op), r1)"
      "rd_uint r2 = Inr (le_val q, r')"
    using r0 c by simp_all
  let ?i = "\<lparr>txid = hex_of_bytes (rev (take 32 op)), vout = int (le_val (drop 32 op)),
      scriptSig = hex_of_bytes s, sequence = int (le_val q), witness = []\<rparr>"
  have "rd_input r = Inr (?i, r')"
    using s c(3) by (simp add: rd_input_def del: bindE_prod_Inr rd_uint_Inr rd_take_Inr)
  moreover have "op = op_bytes ?i" using c(1) by (simp add: op_bytes_def)
  ultimately show "\<exists>i. rd_input r = Inr (i, r') \<and> op = op_bytes i" by blast
next
  assume "\<exists>i. rd_input r = Inr (i, r') \<and> op = op_bytes i"
  then obtain i where i: "rd_input r = Inr (i, r')" "op = op_bytes i" by blast
  then obtain ti v s q r0 r1 r2 where c: "length ti = 32" "consumed r ti r0" "v < 256 ^ 4"
      "consumed r0 (le_bytes 4 v) r1" "rd_blob 10000 r1 = Inr (s, r2)" "consumed r2 (le_bytes 4 q) r'"
      "i = \<lparr>txid = hex_of_bytes (rev ti), vout = int v, scriptSig = hex_of_bytes s, sequence = int q, witness = []\<rparr>"
    by (auto simp: rd_input_def)
  have "consumed r op r1" using c i(2) by (auto simp: op_bytes_def consumed_append)
  moreover have "length op = 36" using c i(2) by (simp add: op_bytes_def)
  ultimately show "skim_input r = Inr (op, r')" using c(5,6) \<open>consumed r op r1\<close>
    by (simp only: skim_input_def bindE_prod_Inr rd_take_Inr sum.inject prod.inject)
      (metis length_le_bytes)
qed

lemma skim_inputs_Suc:
  "skim_inputs (Suc n) seen r = Inr r' \<longleftrightarrow> (\<exists>op r1. skim_input r = Inr (op, r1) \<and> op \<notin> set seen
     \<and> skim_inputs n (op # seen) r1 = Inr r')"
  unfolding skim_input_def skim_inputs.simps bindE_prod_Inr if_Inl_Inr sum.inject prod.inject by blast

lemma rd_many_Suc_ex:
  "(\<exists>xs. rd_many dec (Suc n) r = Inr (xs, r') \<and> P xs) \<longleftrightarrow>
     (\<exists>x r1 xs. dec r = Inr (x, r1) \<and> rd_many dec n r1 = Inr (xs, r') \<and> P (x # xs))"
  unfolding rd_many.simps bindE_prod_Inr sum.inject prod.inject by blast

lemma skim_inputs_iff:
  "skim_inputs n seen r = Inr r' \<longleftrightarrow> (\<exists>ins. rd_many rd_input n r = Inr (ins, r')
     \<and> distinct (map op_bytes ins) \<and> set (map op_bytes ins) \<inter> set seen = {})"
proof (induction n arbitrary: seen r)
  case (Suc n)
  have *: "(distinct (map op_bytes (i # ins)) \<and> set (map op_bytes (i # ins)) \<inter> set seen = {}) \<longleftrightarrow>
      op_bytes i \<notin> set seen \<and> distinct (map op_bytes ins) \<and> set (map op_bytes ins) \<inter> set (op_bytes i # seen) = {}"
    for i ins by auto
  show ?case
    unfolding skim_inputs_Suc skim_input_iff Suc.IH rd_many_Suc_ex * by blast
qed auto

text \<open>\<open>forgets m p\<close>: \<open>m\<close> succeeds where \<open>p\<close> does and stops at the same cursor.\<close>

definition forgets :: "reader res \<Rightarrow> ('a \<times> reader) res \<Rightarrow> bool" where
  "forgets m p \<longleftrightarrow> (\<forall>r. m = Inr r \<longleftrightarrow> (\<exists>x. p = Inr (x, r)))"

lemma forgets_step:
  "(\<And>a r. m = Inr (a, r) \<Longrightarrow> forgets (f a r) (g a r)) \<Longrightarrow>
     forgets (bindE m (\<lambda>(a, r). f a r)) (bindE m (\<lambda>(a, r). g a r))"
  by (cases m) (auto simp: forgets_def)

lemma forgets_if: "(c \<Longrightarrow> forgets m p) \<Longrightarrow> (\<not> c \<Longrightarrow> forgets m' p') \<Longrightarrow>
    forgets (if c then m else m') (if c then p else p')"
  by simp

lemma forgets_guard: "(c \<Longrightarrow> \<forall>x. p \<noteq> Inr x) \<Longrightarrow> (\<not> c \<Longrightarrow> forgets m p) \<Longrightarrow> forgets (if c then Inl e else m) p"
  by (auto simp: forgets_def)

lemma forgets_Inl [simp]: "forgets (Inl e) (Inl e')"
  by (simp add: forgets_def)

lemma skim_payload_iff: "forgets (skim_payload r) (rd_payload (\<lambda>_. True) a r)"
  unfolding skim_payload_def rd_payload_def Let_def
  apply (rule forgets_step, rule forgets_if)
   apply (rule forgets_step)
   apply (simp add: forgets_def)
  apply (rule forgets_if, rule forgets_step, rule forgets_step, rule forgets_if, simp)
    apply (rule forgets_guard, force simp: outputPayload_P2C, rule forgets_step, rule forgets_step)
    apply (rule forgets_guard, force simp: outputPayload_P2C, rule forgets_step)
    apply (rule forgets_guard, force simp: outputPayload_P2C)
  by (auto simp: forgets_def outputPayload_P2C)

lemma skim_outputs_Suc:
  "skim_outputs (Suc n) acc r = Inr r' \<longleftrightarrow> (\<exists>out r1. rd_output (\<lambda>_. True) r = Inr (out, r1)
     \<and> acc + output_value out \<le> MAX_MONEY \<and> skim_outputs n (acc + output_value out) r1 = Inr r')"
proof -
  have val: "output_value out = a" if "rd_payload (\<lambda>_. True) (dec_str (nat a)) r1 = Inr (out, r2)"
    and "0 \<le> a" for out a r1 r2
    using that by (cases out) (auto simp: rd_payload_P2PK rd_payload_P2C output_value_def)
  have "skim_outputs (Suc n) acc r = Inr r' \<longleftrightarrow> (\<exists>a r0 r1. rd_amount r = Inr (a, r0) \<and> 0 \<le> a
      \<and> acc + a \<le> MAX_MONEY \<and> skim_payload r0 = Inr r1 \<and> skim_outputs n (acc + a) r1 = Inr r')"
    unfolding skim_outputs.simps bindE_prod_Inr if_Inl_Inr not_less
    unfolding bindE_eq_Inr rd_amount_iff by blast
  also have "\<dots> \<longleftrightarrow> (\<exists>a r0 r1 out. rd_amount r = Inr (a, r0) \<and> 0 \<le> a
      \<and> acc + a \<le> MAX_MONEY \<and> rd_payload (\<lambda>_. True) (dec_str (nat a)) r0 = Inr (out, r1)
      \<and> skim_outputs n (acc + a) r1 = Inr r')"
    using skim_payload_iff unfolding forgets_def by blast
  also have "\<dots> \<longleftrightarrow> (\<exists>a r0 r1 out. rd_amount r = Inr (a, r0) \<and> 0 \<le> a
      \<and> acc + output_value out \<le> MAX_MONEY \<and> rd_payload (\<lambda>_. True) (dec_str (nat a)) r0 = Inr (out, r1)
      \<and> skim_outputs n (acc + output_value out) r1 = Inr r')"
    using val by (metis (no_types, lifting))
  also have "\<dots> \<longleftrightarrow> (\<exists>out r1. rd_output (\<lambda>_. True) r = Inr (out, r1)
     \<and> acc + output_value out \<le> MAX_MONEY \<and> skim_outputs n (acc + output_value out) r1 = Inr r')"
    unfolding rd_output_def bindE_prod_Inr rd_amount_iff by blast
  finally show ?thesis .
qed

lemma skim_outputs_iff:
  "acc \<le> MAX_MONEY \<Longrightarrow> skim_outputs n acc r = Inr r' \<longleftrightarrow> (\<exists>outs. rd_many (rd_output (\<lambda>_. True)) n r = Inr (outs, r')
     \<and> acc + sum_list (map output_value outs) \<le> MAX_MONEY)"
proof (induction n arbitrary: acc r)
  case (Suc n)
  have pos: "0 \<le> sum_list (map output_value outs)" for outs
    by (intro sum_list_nonneg_map) (simp add: output_value_def)
  have step: "(acc + sum_list (map output_value (out # outs)) \<le> MAX_MONEY) \<longleftrightarrow>
      acc + output_value out \<le> MAX_MONEY \<and> acc + output_value out + sum_list (map output_value outs) \<le> MAX_MONEY"
    for out outs using pos [of outs] by auto
  show ?case
    unfolding skim_outputs_Suc rd_many_Suc_ex step using Suc.IH by blast
qed auto

lemma skim_items: "rd_many (rd_blob MAX_PROOF_SIZE) k r = Inr (bs, r') \<longleftrightarrow>
    rd_many rd_item k r = Inr (map hex_of_bytes bs, r')"
proof (induction k arbitrary: r bs)
  case (Suc k)
  show ?case by (cases bs) (auto simp: rd_item_def Suc.IH)
qed auto

lemma rd_items_hex: "rd_many rd_item k r = Inr (w, r') \<Longrightarrow> \<exists>bs. w = map hex_of_bytes bs \<and> length w = k"
proof (induction k arbitrary: r w)
  case (Suc k)
  then obtain x r1 xs where "rd_item r = Inr (x, r1)" "rd_many rd_item k r1 = Inr (xs, r')" "w = x # xs"
    by auto
  moreover from this(1) obtain b where "x = hex_of_bytes b" by (auto simp: rd_item_def)
  moreover from Suc.IH [OF \<open>rd_many rd_item k r1 = Inr (xs, r')\<close>] obtain bs where "xs = map hex_of_bytes bs" "length xs = k" by blast
  ultimately have "w = map hex_of_bytes (b # bs) \<and> length w = Suc k" by simp
  then show ?case by blast
qed simp

lemma ex_pull: "(\<exists>x y. A x y \<and> (\<exists>z. B x y z \<and> C x y z)) \<longleftrightarrow> (\<exists>x y z. A x y \<and> B x y z \<and> C x y z)"
  by blast

lemma skim_stacks_iff:
  "skim_stacks n has r = Inr (h, r') \<longleftrightarrow>
     (\<exists>ws. rd_many rd_stack n r = Inr (ws, r') \<and> h = (has \<or> list_ex (\<lambda>w. w \<noteq> []) ws))"
proof (induction n arbitrary: has r)
  case (Suc n)
  have "skim_stacks (Suc n) has r = Inr (h, r') \<longleftrightarrow> (\<exists>w r1. rd_stack r = Inr (w, r1) \<and>
      skim_stacks n (has \<or> w \<noteq> []) r1 = Inr (h, r'))"
  proof -
    have "skim_stacks (Suc n) has r = Inr (h, r') \<longleftrightarrow> (\<exists>k r0 bs r1. rd_count 100 r = Inr (k, r0) \<and>
        rd_many (rd_blob MAX_PROOF_SIZE) k r0 = Inr (bs, r1) \<and> skim_stacks n (has \<or> k > 0) r1 = Inr (h, r'))"
      unfolding skim_stacks.simps bindE_prod_Inr by blast
    also have "\<dots> \<longleftrightarrow> (\<exists>k r0 w r1. rd_count 100 r = Inr (k, r0) \<and>
        rd_many rd_item k r0 = Inr (w, r1) \<and> skim_stacks n (has \<or> k > 0) r1 = Inr (h, r'))"
      unfolding skim_items using rd_items_hex by blast
    also have "\<dots> \<longleftrightarrow> (\<exists>k r0 w r1. rd_count 100 r = Inr (k, r0) \<and>
        rd_many rd_item k r0 = Inr (w, r1) \<and> skim_stacks n (has \<or> w \<noteq> []) r1 = Inr (h, r'))"
      by (intro ex_cong1 conj_cong refl) (auto dest: rd_items_hex)
    finally show ?thesis unfolding rd_stack_eq bindE_prod_Inr by blast
  qed
  also have "\<dots> \<longleftrightarrow> (\<exists>ws. rd_many rd_stack (Suc n) r = Inr (ws, r') \<and> h = (has \<or> list_ex (\<lambda>w. w \<noteq> []) ws))"
    unfolding rd_many_Suc_ex Suc.IH list_ex_Cons_iff disj_assoc
    by (rule ex_pull)
  finally show ?case .
qed auto

text \<open>The count that the cheap check reads, with the position of the inputs.\<close>

lemma raw_header:
  "bindE (rd_count MAX_INPUTS r) (\<lambda>(n0, r0).
     bindE (if n0 = 0 then bindE (rd_byte r0) (\<lambda>(f, r).
              if f \<noteq> 1 then Inl UnknownWitnessFlag
              else bindE (rd_count MAX_INPUTS r) (\<lambda>(n, r'). Inr ((n, True, roff r), r')))
            else Inr ((n0, False, roff r), r0)) k)
   = bindE (rd_in_count r) (\<lambda>(n, wd, r2). k ((n, wd, if wd then roff r + 2 else roff r), r2))"
proof (cases "rd_count MAX_INPUTS r")
  case (Inr p)
  obtain n0 r0 where p: "p = (n0, r0)" by (cases p)
  show ?thesis
  proof (cases "n0 = 0")
    case True
    have "MAX_INPUTS \<le> MAX_TX_BYTES" by (simp add: tx_limits)
    from Inr True have "consumed r [0] r0" by (auto simp: p rd_count_iff [OF \<open>MAX_INPUTS \<le> MAX_TX_BYTES\<close>] compactSize_Inr)
    then have "roff r0 = roff r + 1" using consumed_data by fastforce
    moreover have "roff r1 = roff r0 + 1" if "rd_byte r0 = Inr (f, r1)" for f r1
      using that consumed_data by fastforce
    ultimately have off: "roff r1 = roff r + 2" if "rd_byte r0 = Inr (f, r1)" for f r1
      using that by fastforce
    show ?thesis
    proof (cases "rd_byte r0")
      case (Inr q)
      obtain f r1 where q: "q = (f, r1)" by (cases q)
      from off [OF Inr [unfolded q]] show ?thesis
        using \<open>rd_count MAX_INPUTS r = Inr p\<close> True Inr p q
        by (cases "rd_count MAX_INPUTS r1")
          (auto simp: rd_in_count_def simp del: rd_byte_Inr bindE_prod_Inr bindE_eq_Inr split: prod.splits)
    qed (use Inr True p in \<open>simp add: rd_in_count_def\<close>)
  qed (use Inr p in \<open>simp add: rd_in_count_def\<close>)
qed (simp add: rd_in_count_def)

text \<open>The run of the cheap check.\<close>

lemma transactionIdFromRaw_run:
  "transactionIdFromRaw sha raw = Inr i \<longleftrightarrow> length raw \<le> MAX_TX_BYTES * 2 \<and>
     (\<exists>data v r1 n wd r2 r3 m r4 r5 hw r6 lt r7. hexBytes None raw = Inr data \<and>
     rd_take 4 \<lparr>rdata = data, roff = 0\<rparr> = Inr (v, r1) \<and> rd_in_count r1 = Inr (n, wd, r2) \<and>
     \<not> too_many n 41 r2 \<and> skim_inputs n [] r2 = Inr r3 \<and>
     rd_count MAX_OUTPUTS r3 = Inr (m, r4) \<and> \<not> too_many m 9 r4 \<and>
     skim_outputs m 0 r4 = Inr r5 \<and>
     (if wd then skim_stacks n False r5 else Inr (False, r5)) = Inr (hw, r6) \<and> \<not> (wd \<and> \<not> hw) \<and>
     rd_take 4 r6 = Inr (lt, r7) \<and> \<not> (roff r7 \<noteq> length (rdata r7)) \<and>
     hex_of_bytes (rev (hash256 sha (if wd
        then v @ take (roff r5 - (if wd then roff r1 + 2 else roff r1))
               (drop (if wd then roff r1 + 2 else roff r1) data) @ lt else data))) = i)"
  unfolding transactionIdFromRaw_def Let_def raw_header prod.case
  unfolding bindE_prod_Inr split_paired_Ex prod.case if_Inl_Inr not_less
  unfolding bindE_eq_Inr bindE_prod_Inr split_paired_Ex prod.case if_Inl_Inr sum.inject by blast

lemma transactionId_iff:
  assumes "wf_tx oc t"
  shows "transactionId sha oc t = Inr i \<longleftrightarrow> (\<exists>b. frame oc t False = Inr b \<and> length b \<le> MAX_TX_BYTES
     \<and> i = hex_of_bytes (rev (hash256 sha b)))"
proof -
  have "serializeTransaction oc t False = Inr b \<longleftrightarrow> frame oc t False = Inr b \<and> length b \<le> MAX_TX_BYTES" for b
    using assms by (auto simp: serialize_frame wf_tx_def validateShape_wf if_Inl_Inr not_less)
  then show ?thesis unfolding transactionId_def bindE_eq_Inr by auto
qed

lemma op_bytes_witness [simp]: "op_bytes (set_witness i w) = op_bytes i"
  by (simp add: op_bytes_def set_witness_def)

lemma op_bytes_map2:
  "length ws = length ins \<Longrightarrow> map op_bytes (map2 set_witness ins ws) = map op_bytes ins"
  by (induction ins ws rule: list_induct2') auto

text \<open>A run of the reader on data within the size limit is accepted by the full parser, once the
  duplicate and total checks hold.\<close>

lemma run_of_parse:
  assumes "run_of oc data v wd ins outs wits lt" and "wd \<longrightarrow> has_witness (map2 set_witness ins wits)"
    and "distinct (map op_bytes ins)" and "sum_list (map output_value outs) \<le> MAX_MONEY"
    and "length data \<le> MAX_TX_BYTES"
    and t: "t = \<lparr>version = int v, inputs = map2 set_witness ins wits, outputs = outs, locktime = int lt\<rparr>"
  shows "wf_tx oc t \<and> serializeTransaction oc t True = Inr data"
proof -
  have "read_tx oc data = Inr t" using assms(1,2) t by (auto simp: read_tx_run)
  then have w: "wf_shape oc t" and f: "frame oc t (has_witness (inputs t)) = Inr data"
    by (simp_all add: read_tx_iff)
  have "length wits = length ins" using assms(1) by (simp add: run_of_iff)
  then have "distinct (map op_bytes (inputs t))" using assms(3) by (simp add: t op_bytes_map2 del: map_map)
  then have "wf_tx oc t" using w assms(4) distinct_keys [of "inputs t"] by (simp add: wf_tx_def wf_shape_def t)
  with f assms(5) validateShape_wf [OF w] show ?thesis by (simp add: serialize_frame wf_tx_def)
qed

lemma raw_id_parse:
  assumes "transactionIdFromRaw sha raw = Inr i"
  shows "\<exists>t. parseTransaction (\<lambda>_. True) raw = Inr t \<and> transactionId sha (\<lambda>_. True) t = Inr i"
proof -
  let ?T = "\<lambda>_ :: bytes. True"
  from assms obtain data vb r1 n wd r2 r3 m r4 r5 hw r6 lb r7 where
      raw: "length raw \<le> MAX_TX_BYTES * 2" "hexBytes None raw = Inr data"
    and v: "rd_take 4 \<lparr>rdata = data, roff = 0\<rparr> = Inr (vb, r1)" and h: "rd_in_count r1 = Inr (n, wd, r2)"
    and n: "\<not> too_many n 41 r2" and ins: "skim_inputs n [] r2 = Inr r3"
    and m: "rd_count MAX_OUTPUTS r3 = Inr (m, r4)" "\<not> too_many m 9 r4" and outs: "skim_outputs m 0 r4 = Inr r5"
    and ws: "(if wd then skim_stacks n False r5 else Inr (False, r5)) = Inr (hw, r6)" "wd \<longrightarrow> hw"
    and l: "rd_take 4 r6 = Inr (lb, r7)" "roff r7 = length (rdata r7)"
    and i: "hex_of_bytes (rev (hash256 sha (if wd
        then vb @ take (roff r5 - (if wd then roff r1 + 2 else roff r1))
               (drop (if wd then roff r1 + 2 else roff r1) data) @ lb else data))) = i"
    unfolding transactionIdFromRaw_run by blast
  have "(0 :: int) \<le> MAX_MONEY" by (simp add: MAX_MONEY_def COIN_def)
  with ins outs obtain xs ys where xs: "rd_many rd_input n r2 = Inr (xs, r3)" "distinct (map op_bytes xs)"
    and ys: "rd_many (rd_output ?T) m r4 = Inr (ys, r5)" "sum_list (map output_value ys) \<le> MAX_MONEY"
    by (auto simp: skim_inputs_iff skim_outputs_iff)
  have nm: "length xs = n" "length ys = m" using rd_many_length [OF xs(1)] rd_many_length [OF ys(1)] by simp_all
  from ws obtain wits where wits: "(if wd then rd_many rd_stack n r5 else Inr (replicate n [], r5)) = Inr (wits, r6)"
      and hw: "wd \<longrightarrow> list_ex (\<lambda>w. w \<noteq> []) wits" and lw: "length wits = n"
    by (cases wd) (auto simp: skim_stacks_iff dest: rd_many_length)
  define v lt where "v = le_val vb" and "lt = le_val lb"
  have vb: "vb = le_bytes 4 v" "v < 256 ^ 4" and lb: "lb = le_bytes 4 lt" "lt < 256 ^ 4"
    using v l le_val_bound [of vb] le_val_bound [of lb] by (simp_all add: v_def lt_def)
  have "rd_uint \<lparr>rdata = data, roff = 0\<rparr> = Inr (v, r1)" "rd_uint r6 = Inr (lt, r7)"
    using v l(1) vb lb by simp_all
  then have run: "run_of ?T data v wd xs ys wits lt"
    unfolding run_of_def nm using h n xs(1) m ys(1) wits l(2) by blast
  define t where "t = \<lparr>version = int v, inputs = map2 set_witness xs wits, outputs = ys, locktime = int lt\<rparr>"
  have len: "length data \<le> MAX_TX_BYTES" and low: "lower_str raw = hex_of_bytes data"
    using raw hexBytes_Inr [OF raw(2)] by simp_all
  from run_of_parse [OF run _ xs(2) ys(2) len t_def] hw lw nm
  have wf: "wf_tx ?T t" "serializeTransaction ?T t True = Inr data" by (auto simp: has_witness_map2)
  then have parse: "parseTransaction ?T raw = Inr t" using low by (auto simp: parse_iff)
  \<comment> \<open>the bytes between the flag and the witness\<close>
  obtain nin bi nout bo where c: "consumed r1 ((if wd then [0, 1] else []) @ nin) r2" "consumed r2 bi r3"
      "consumed r3 nout r4" "consumed r4 bo r5" "compactSize n = Inr nin" "enc_all serialize_input xs = Inr bi"
      "compactSize m = Inr nout" "enc_all (serializeOutput ?T) ys = Inr bo"
    using h xs(1) m(1) ys(1) by (auto simp: rd_in_count_iff input_field.many_dec_iff out_count.dec_iff
        codec.many_dec_iff [OF output_codec])
  have fr: "frame ?T t False = Inr (vb @ nin @ bi @ nout @ bo @ lb)"
    using c vb lb nm lw run by (simp add: frame_def t_def u32_def enc_inputs run_of_iff list_all_iff)
  from run obtain bw where d: "data = vb @ (if wd then [0, 1] else []) @ nin @ bi @ nout @ bo @ bw @ lb"
      and bw: "\<not> wd \<longrightarrow> bw = []"
    using c(5-8) nm vb lb by (cases wd) (auto simp: run_of_iff)
  have "consumed \<lparr>rdata = data, roff = 0\<rparr> vb r1" "length vb = 4" using v by simp_all
  then have off: "roff r1 = 4" "length vb = 4" using consumed_data by fastforce+
  have "roff r5 = roff r1 + (if wd then 2 else 0) + length (nin @ bi @ nout @ bo)"
    using c(1-4) [THEN consumed_data] by simp
  then have "(if wd then vb @ take (roff r5 - (if wd then roff r1 + 2 else roff r1))
               (drop (if wd then roff r1 + 2 else roff r1) data) @ lb else data)
      = vb @ nin @ bi @ nout @ bo @ lb"
    using d off bw by simp
  moreover have "length (vb @ nin @ bi @ nout @ bo @ lb) \<le> MAX_TX_BYTES" using len d by simp
  ultimately have "transactionId sha ?T t = Inr i" using fr i by (simp add: transactionId_iff [OF wf(1)])
  with parse show ?thesis by blast
qed

lemma raw_id_accepts:
  assumes "parseTransaction (\<lambda>_. True) raw = Inr t"
  shows "\<exists>i. transactionIdFromRaw sha raw = Inr i"
proof -
  let ?T = "\<lambda>_ :: bytes. True"
  from assms obtain data where raw: "length raw \<le> MAX_TX_BYTES * 2" "hexBytes None raw = Inr data"
    and c: "checked_tx ?T data = Inr t"
    by (auto simp: parseTransaction_eq split: if_splits)
  from c have rt: "read_tx ?T data = Inr t" by (auto simp: checked_tx_def split: if_splits)
  from c have wf: "wf_tx ?T t" by (simp add: checked_tx_iff)
  from rt obtain v wd ins outs wits lt where run: "run_of ?T data v wd ins outs wits lt"
    and hw: "wd \<longrightarrow> has_witness (map2 set_witness ins wits)"
    and t: "t = \<lparr>version = int v, inputs = map2 set_witness ins wits, outputs = outs, locktime = int lt\<rparr>"
    by (auto simp: read_tx_run)
  have lw: "length wits = length ins" using run by (simp add: run_of_iff)
  have dist: "distinct (map op_bytes ins)" and total: "0 + sum_list (map output_value outs) \<le> MAX_MONEY"
    using wf distinct_keys [of "inputs t"] op_bytes_map2 [OF lw] by (auto simp: wf_tx_def wf_shape_def t simp del: map_map)
  from run obtain r1 r2 r3 r4 r5 r6 r7 where
      r: "rd_uint \<lparr>rdata = data, roff = 0\<rparr> = Inr (v, r1)" "rd_in_count r1 = Inr (length ins, wd, r2)"
        "\<not> too_many (length ins) 41 r2" "rd_many rd_input (length ins) r2 = Inr (ins, r3)"
        "rd_count MAX_OUTPUTS r3 = Inr (length outs, r4)" "\<not> too_many (length outs) 9 r4"
        "rd_many (rd_output ?T) (length outs) r4 = Inr (outs, r5)"
        "(if wd then rd_many rd_stack (length ins) r5 else Inr (replicate (length ins) [], r5)) = Inr (wits, r6)"
        "rd_uint r6 = Inr (lt, r7)" "roff r7 = length (rdata r7)"
    unfolding run_of_def by blast
  have "(0 :: int) \<le> MAX_MONEY" by (simp add: MAX_MONEY_def COIN_def)
  with r dist total have "skim_inputs (length ins) [] r2 = Inr r3" "skim_outputs (length outs) 0 r4 = Inr r5"
    by (auto simp: skim_inputs_iff skim_outputs_iff)
  moreover have "(if wd then skim_stacks (length ins) False r5 else Inr (False, r5)) = Inr (wd, r6)"
    using r(8) hw lw by (cases wd) (auto simp: skim_stacks_iff has_witness_map2)
  moreover have "rd_take 4 \<lparr>rdata = data, roff = 0\<rparr> = Inr (le_bytes 4 v, r1)" "rd_take 4 r6 = Inr (le_bytes 4 lt, r7)"
    using r by simp_all
  ultimately show ?thesis unfolding transactionIdFromRaw_run using raw r by blast
qed

section \<open>Keys that lift and keys that do not\<close>

text \<open>Everything but the key check is independent of \<open>on_curve\<close>.\<close>

lemma wf_output_any: "wf_output oc out \<Longrightarrow> wf_output (\<lambda>_. True) out \<and>
    serializeOutput oc out = serializeOutput (\<lambda>_. True) out"
  by (cases out) (auto simp: wf_output_def serializeOutput_eq outputPayload_P2PK outputPayload_P2C hex_field_iff)

lemma outputs_any: "list_all (wf_output oc) outs \<Longrightarrow> list_all (wf_output (\<lambda>_. True)) outs \<and>
    enc_all (serializeOutput oc) outs = enc_all (serializeOutput (\<lambda>_. True)) outs"
  by (induction outs) (auto simp: wf_output_any)

lemma wf_tx_any: "wf_tx oc t \<Longrightarrow> wf_tx (\<lambda>_. True) t \<and> frame oc t w = frame (\<lambda>_. True) t w"
  by (auto simp: wf_tx_def wf_shape_def frame_def outputs_any)

lemma serialize_any: "wf_tx oc t \<Longrightarrow> serializeTransaction oc t w = serializeTransaction (\<lambda>_. True) t w"
  unfolding serialize_frame by (drule wf_tx_any [of _ _ "w \<and> has_witness (inputs t)"]) simp

lemma parse_any: "parseTransaction oc raw = Inr t \<Longrightarrow> parseTransaction (\<lambda>_. True) raw = Inr t \<and>
    transactionId sha oc t = transactionId sha (\<lambda>_. True) t"
  unfolding parse_iff transactionId_def using wf_tx_any [of oc t] serialize_any [of oc t] by auto

lemma raw_id_iff:
  "transactionIdFromRaw sha raw = Inr i \<longleftrightarrow>
     (\<exists>t. parseTransaction (\<lambda>_. True) raw = Inr t \<and> transactionId sha (\<lambda>_. True) t = Inr i)"
proof
  assume "\<exists>t. parseTransaction (\<lambda>_. True) raw = Inr t \<and> transactionId sha (\<lambda>_. True) t = Inr i"
  then obtain t where t: "parseTransaction (\<lambda>_. True) raw = Inr t" "transactionId sha (\<lambda>_. True) t = Inr i" by blast
  from raw_id_accepts [OF t(1)] obtain i' where i': "transactionIdFromRaw sha raw = Inr i'" by blast
  from raw_id_parse [OF this] t have "i' = i" by auto
  with i' show "transactionIdFromRaw sha raw = Inr i" by simp
qed (rule raw_id_parse)

section \<open>The re-serialization check never fails\<close>

definition canon :: "'a res \<Rightarrow> bool" where
  "canon m \<longleftrightarrow> m \<noteq> Inl NoncanonicalTransaction"

lemma canon_simps [simp]: "canon (Inr x)" "canon (Inl e) \<longleftrightarrow> e \<noteq> NoncanonicalTransaction"
  by (simp_all add: canon_def)

lemma canon_bind: "canon m \<Longrightarrow> (\<And>x. m = Inr x \<Longrightarrow> canon (f x)) \<Longrightarrow> canon (bindE m f)"
  by (cases m) auto

lemma canon_bind2: "canon m \<Longrightarrow> (\<And>a b. canon (f a b)) \<Longrightarrow> canon (bindE m (\<lambda>(a, b). f a b))"
  by (cases m) auto

lemma canon_bind3: "canon m \<Longrightarrow> (\<And>a b c. canon (f a b c)) \<Longrightarrow> canon (bindE m (\<lambda>(a, b, c). f a b c))"
  by (cases m) auto

lemma canon_if: "canon m \<Longrightarrow> canon m' \<Longrightarrow> canon (if c then m else m')"
  by simp

lemmas canon_intros = canon_bind3 canon_bind2 canon_bind canon_if

lemma canon_prims:
  "canon (rd_take n r)" "canon (hexBytes sz s)" "canon (u32 v)" "canon (amountInConnects a)"
  "canon (compactSize n)"
  by (auto simp: rd_take_def hexBytes_def u32_def amountInConnects_def compactSize_def split: js_arg.splits option.splits)

lemma canon_reads: "canon (rd_byte r)" "canon (rd_uint r)" "canon (rd_amount r)"
  unfolding rd_byte_def rd_uint_def rd_amount_def Let_def
  by (rule canon_intros canon_prims canon_simps)+

lemma canon_count: "canon (rd_count limit r)"
  unfolding rd_count_def
  by (rule canon_intros canon_prims canon_reads canon_simps | simp)+

lemma canon_blob: "canon (rd_blob limit r)"
  unfolding rd_blob_def by (rule canon_intros canon_prims canon_count)+

lemma canon_many: "(\<And>r. canon (dec r)) \<Longrightarrow> canon (rd_many dec n r)"
proof (induction n arbitrary: r)
  case (Suc n)
  show ?case unfolding rd_many.simps
    by (rule canon_intros canon_simps Suc.prems Suc.IH)+
qed simp

lemma canon_key: "canon (validatePublicKey oc k)"
  by (simp add: validatePublicKey_def split: option.splits key_arg.splits)

lemma canon_payload: "canon (outputPayload oc out)"
  by (cases out) (auto simp: outputPayload_P2PK outputPayload_P2C intro!: canon_bind canon_key canon_prims)

lemma canon_output: "canon (rd_output oc r)"
  unfolding rd_output_def rd_payload_def Let_def
  by (rule canon_intros canon_prims canon_reads canon_key canon_payload canon_simps | simp)+

lemma canon_read_tx: "canon (read_tx oc data)"
  unfolding read_tx_def rd_in_count_def rd_input_def rd_stack_eq rd_item_def Let_def
  by (rule canon_intros canon_prims canon_reads canon_count canon_blob canon_many canon_output canon_simps | simp)+

lemma canon_checked: "canon (checked_tx oc data)"
  unfolding checked_tx_def
proof (rule canon_bind [OF canon_read_tx])
  fix t assume t: "read_tx oc data = Inr t"
  then have w: "wf_shape oc t" and f: "frame oc t (has_witness (inputs t)) = Inr data"
    by (simp_all add: read_tx_iff)
  from f validateShape_wf [OF w]
  show "canon (bindE (serializeTransaction oc t True) (\<lambda>b. if b \<noteq> data then Inl NoncanonicalTransaction else Inr t))"
    by (simp add: serialize_frame)
qed

section \<open>The properties of the parser\<close>

text \<open>A small transaction with a witness, for the instances below.\<close>

definition example_tx :: tx where
  "example_tx = \<lparr>version = 2,
     inputs = [\<lparr>txid = hex_of_bytes (replicate 32 17), vout = 1, scriptSig = [], sequence = 0,
                witness = [hex_of_bytes (replicate 2 170)]\<rparr>],
     outputs = [P2PK (dec_str 5) (hex_of_bytes (replicate 32 34))], locktime = 0\<rparr>"

lemma wf_stack_one: "length b \<le> MAX_PROOF_SIZE \<Longrightarrow> wf_stack [hex_of_bytes b]"
  by (auto simp: wf_stack_def hex_blob_def)

lemma example_wf: "wf_tx (\<lambda>_. True) example_tx"
proof -
  have "wf_amount (dec_str 5)"
    unfolding wf_amount_iff by (intro exI [of _ 5]) (simp add: MAX_MONEY_def COIN_def)
  moreover have "hex_field 32 (hex_of_bytes (replicate 32 b))" for b by (simp add: hex_field_def)
  moreover have "hex_blob 10000 []" by (simp add: hex_blob_def)
  ultimately show ?thesis
    by (simp add: wf_tx_def wf_shape_def example_tx_def is_u32_def tx_limits wf_input_def
        wf_stack_one wf_output_def output_value_def MAX_MONEY_def COIN_def)
qed

lemma example_serialized: "\<exists>bs. serializeTransaction (\<lambda>_. True) example_tx True = Inr bs"
proof -
  have a: "amountInConnects (JStr (dec_str 5)) = Inr 5"
    using amountInConnects_dec_str [of 5] by (simp add: MAX_MONEY_def COIN_def)
  have v: "validateShape example_tx = Inr ()"
    using validateShape_wf [of "\<lambda>_. True" example_tx] example_wf by (simp add: wf_tx_def)
  have h: "hexBytes None [] = Inr []" by (simp add: hexBytes_def)
  show ?thesis
    unfolding serialize_frame v
    by (simp add: frame_def example_tx_def has_witness_def u32_def compactSize_def MAX_TX_BYTES_def
        serialize_input_def outpoint_def variable_def serialize_stack_def serialize_item_def
        MAX_PROOF_SIZE_def serializeOutput_eq i64_def a h outputPayload_P2PK)
qed

lemma example_parsed: "\<exists>raw. parseTransaction (\<lambda>_. True) raw = Inr example_tx"
proof -
  obtain bs where "serializeTransaction (\<lambda>_. True) example_tx True = Inr bs" using example_serialized by blast
  then have "parseTransaction (\<lambda>_. True) (hex_of_bytes bs) = Inr example_tx"
    by (simp add: parse_iff example_wf lower_str_lower)
  then show ?thesis by blast
qed

text \<open>
  Property C1: the parser accepts exactly the hexadecimal encodings of well-formed transactions.
  It returns \<open>t\<close> for a string precisely when \<open>t\<close> is well formed (field ranges, lowercase hexadecimal,
  canonical domains and amounts, distinct inputs, total in range, keys that lift) and the string
  spells the bytes that \<open>serializeTransaction\<close> writes for \<open>t\<close>. Both round trips are instances.
\<close>

theorem parse_accepts_encodings:
  "parseTransaction on_curve raw = Inr t \<longleftrightarrow>
     wf_tx on_curve t \<and> (\<exists>bs. serializeTransaction on_curve t True = Inr bs \<and> lower_str raw = hex_of_bytes bs)"
  by (rule parse_iff)

text \<open>
  Property C4: the cheap identity check agrees with the full parser. \<open>transactionIdFromRaw\<close> accepts
  a string with identifier \<open>i\<close> exactly when the full parser, with every public key taken as liftable,
  accepts it and \<open>transactionId\<close> of the parsed transaction is \<open>i\<close>.
\<close>

theorem raw_identity_agrees:
  "transactionIdFromRaw sha raw = Inr i \<longleftrightarrow>
     (\<exists>t. parseTransaction (\<lambda>_. True) raw = Inr t \<and> transactionId sha (\<lambda>_. True) t = Inr i)"
  by (rule raw_id_iff)

text \<open>
  The final comparison of \<open>parseTransaction\<close> never fires. Whatever was read is already
  the canonical encoding, so the error \<open>Noncanonical transaction encoding\<close> is never thrown.
\<close>

lemma reserialization_never_differs:
  "parseTransaction on_curve raw \<noteq> Inl NoncanonicalTransaction"
proof -
  have "canon (parseTransaction on_curve raw)"
    unfolding parseTransaction_eq
    by (intro canon_if canon_bind canon_checked canon_prims) simp
  then show ?thesis by (simp add: canon_def)
qed

text \<open>
  Sharing the cache of lifted keys changes nothing. With a cache that holds only keys
  that lift, under their own hexadecimal form, parsing returns what \<open>parseTransaction\<close> with an empty
  cache returns, errors included, and the cache that it leaves is again of that kind.
\<close>

lemma key_cache_transparent:
  assumes "cache_ok on_curve keys"
  shows "bindE (parseTransactionWithKeys on_curve raw keys) (\<lambda>(t, _). Inr t) = parseTransaction on_curve raw
     \<and> (\<forall>t keys'. parseTransactionWithKeys on_curve raw keys = Inr (t, keys') \<longrightarrow> cache_ok on_curve keys')"
  using parse_cached [OF assms, of raw] unfolding parseTransaction_eq [symmetric]
  by (cases "parseTransaction on_curve raw") (auto simp: same_with_def)

lemma key_cache_transparent_witness:
  "bindE (parseTransactionWithKeys (\<lambda>_. True) ''00'' (Some [(hex_of_bytes (replicate 32 1), replicate 32 1)]))
     (\<lambda>(t, _). Inr t) = parseTransaction (\<lambda>_. True) ''00''"
  using key_cache_transparent [of "\<lambda>_. True" "Some [(hex_of_bytes (replicate 32 1), replicate 32 1)]" "''00''"]
  by (simp add: cache_ok_def)

text \<open>
  An identifier does not depend on witnesses. Two well-formed transactions that differ
  only in their witness stacks have the same identifier, so adding a claim proof or a signature never
  changes it.
\<close>

lemma identity_ignores_witness:
  assumes "wf_tx on_curve t" and "wf_tx on_curve u"
    and "version u = version t" and "locktime u = locktime t" and "outputs u = outputs t"
    and "map (\<lambda>i. set_witness i []) (inputs u) = map (\<lambda>i. set_witness i []) (inputs t)"
  shows "transactionId sha on_curve u = transactionId sha on_curve t"
proof -
  have e: "enc_all serialize_input ins = enc_all serialize_input (map (\<lambda>i. set_witness i []) ins)" for ins
    by (induction ins) auto
  have "frame on_curve u False = frame on_curve t False"
    unfolding frame_def e [of "inputs u"] e [of "inputs t"] assms(3-6)
    using map_eq_imp_length_eq [OF assms(6)] by simp
  moreover have "validateShape u = Inr ()" "validateShape t = Inr ()"
    using assms(1,2) validateShape_wf by (auto simp: wf_tx_def)
  ultimately show ?thesis by (simp add: transactionId_def serialize_frame)
qed

lemma identity_ignores_witness_witness:
  "transactionId (\<lambda>b. take 32 b) (\<lambda>_. True) (example_tx\<lparr>inputs := map (\<lambda>i. set_witness i []) (inputs example_tx)\<rparr>)
     = transactionId (\<lambda>b. take 32 b) (\<lambda>_. True) example_tx"
proof (rule identity_ignores_witness)
  show "wf_tx (\<lambda>_. True) (example_tx\<lparr>inputs := map (\<lambda>i. set_witness i []) (inputs example_tx)\<rparr>)"
    using example_wf by (simp add: wf_tx_def wf_shape_def example_tx_def set_witness_def wf_input_def input_key_def)
qed (rule example_wf | simp add: example_tx_def set_witness_def)+

end
