(* ===== verification/Payment_Proofs.thy ===== *)
theory Payment_Proofs
  imports Payment Transaction_Parse "HOL-Library.Multiset"
begin

text \<open>
  What a payment plan promises: the coins are distinct and come from the request, nothing is created
  or lost, the fee pays for exactly the size that the signed transaction has, change and recipients
  are above dust, and a plan is refused for lack of funds only when all coins together do not suffice.
\<close>

section \<open>Sizes\<close>

lemma serializeOutput_P2PK_length:
  "serializeOutput oc (P2PK a k) = Inr b \<Longrightarrow> length b = 41"
  by (auto simp: serializeOutput_eq i64_def outputPayload_P2PK dest!: validatePublicKey_Inr)

lemma outputPayload_set_amount [simp]: "outputPayload oc (set_amount out n) = outputPayload oc out"
  by (cases out) (simp_all add: set_amount_def outputPayload_P2PK outputPayload_P2C)

lemma out_amount_set_amount [simp]: "out_amount (set_amount out n) = dec_str (nat n)"
  by (cases out) (simp_all add: set_amount_def)

lemma set_amount_serialized:
  assumes "serializeOutput oc out = Inr b" and "0 \<le> n" and "n \<le> MAX_MONEY"
  shows "\<exists>c. serializeOutput oc (set_amount out n) = Inr c \<and> length c = length b"
  using assms by (auto simp: serializeOutput_eq i64_def)

lemma output_sizes_loop:
  "foldE (\<lambda>out n. bindE (serializeOutput oc out) (\<lambda>b. Inr (n + length b))) outs n0 = Inr n \<longleftrightarrow>
     (\<exists>bs. enc_all (serializeOutput oc) outs = Inr bs \<and> n = n0 + length bs)"
  by (induction outs arbitrary: n0) (auto simp: add.assoc)

lemma output_sizes_iff:
  "output_sizes oc outs = Inr n \<longleftrightarrow> (\<exists>bs. enc_all (serializeOutput oc) outs = Inr bs \<and> n = length bs)"
  by (simp add: output_sizes_def output_sizes_loop)

lemma enc_all_append:
  "enc_all enc (xs @ ys) = bindE (enc_all enc xs) (\<lambda>a. bindE (enc_all enc ys) (\<lambda>b. Inr (a @ b)))"
proof (induction xs)
  case (Cons x xs)
  show ?case by (cases "enc x"; cases "enc_all enc xs"; cases "enc_all enc ys") (simp_all add: Cons.IH)
qed (cases "enc_all enc ys"; simp)

section \<open>The selection loop\<close>

definition chooser :: "job \<Rightarrow> nat \<Rightarrow> int \<Rightarrow> choice option res" where
  "chooser j n inputTotal =
     (if j_subtract j then choose_subtract j n inputTotal else choose_added j n inputTotal)"

text \<open>The loop keeps the inputs, the seen outpoints and the running total in step with the coins.\<close>

definition loop_inv :: "loop_state \<Rightarrow> bool" where
  "loop_inv s \<longleftrightarrow> l_inputs s = map placeholder_input (l_selected s)
     \<and> (\<exists>keys. mapE utxo_outpoint (l_selected s) = Inr keys \<and> distinct keys \<and> set keys = set (l_seen s))"

lemma loop_inv_start: "loop_inv start_state"
  by (simp add: loop_inv_def start_state_def)

lemma add_coin_inv:
  assumes "add_coin u a s = Inr s'" and "loop_inv s"
  shows "loop_inv s'" and "l_selected s' = l_selected s @ [u]" and "l_inputTotal s' = l_inputTotal s + a"
    and "0 \<le> l_inputTotal s'" and "l_inputTotal s' \<le> MAX_MONEY"
proof -
  from assms(1) obtain key where k: "utxo_outpoint u = Inr key" "key \<notin> set (l_seen s)"
      and s': "s' = \<lparr>l_selected = l_selected s @ [u], l_seen = key # l_seen s,
            l_inputs = l_inputs s @ [placeholder_input u], l_inputTotal = l_inputTotal s + a\<rparr>"
      and m: "0 \<le> l_inputTotal s + a" "l_inputTotal s + a \<le> MAX_MONEY"
    by (auto simp: add_coin_def split: if_splits)
  from assms(2) k show "loop_inv s'" by (auto simp: loop_inv_def s' mapE_append)
  show "l_selected s' = l_selected s @ [u]" "l_inputTotal s' = l_inputTotal s + a"
    "0 \<le> l_inputTotal s'" "l_inputTotal s' \<le> MAX_MONEY" using m by (simp_all add: s')
qed

lemma select_coins_Some:
  assumes "select_coins j coins s = Inr (s', Some c)" and "loop_inv s"
  obtains pre rest where "coins = pre @ rest" and "pre \<noteq> []" and "loop_inv s'"
    and "l_selected s' = l_selected s @ map fst pre"
    and "l_inputTotal s' = l_inputTotal s + sum_list (map snd pre)"
    and "0 \<le> l_inputTotal s'" and "l_inputTotal s' \<le> MAX_MONEY"
    and "too_heavy j (length (l_inputs s')) False = Inr ()"
    and "chooser j (length (l_inputs s')) (l_inputTotal s') = Inr (Some c)"
proof -
  have "\<exists>pre rest. coins = pre @ rest \<and> pre \<noteq> [] \<and> loop_inv s'
      \<and> l_selected s' = l_selected s @ map fst pre
      \<and> l_inputTotal s' = l_inputTotal s + sum_list (map snd pre)
      \<and> 0 \<le> l_inputTotal s' \<and> l_inputTotal s' \<le> MAX_MONEY
      \<and> too_heavy j (length (l_inputs s')) False = Inr ()
      \<and> chooser j (length (l_inputs s')) (l_inputTotal s') = Inr (Some c)"
    using assms
  proof (induction j coins s rule: select_coins.induct)
    case (2 j u a rest s)
    from 2(2) obtain s1 d where a: "add_coin u a s = Inr s1"
      and h: "too_heavy j (length (l_inputs s1)) False = Inr ()"
      and d: "chooser j (length (l_inputs s1)) (l_inputTotal s1) = Inr d"
      and r: "(case d of Some _ \<Rightarrow> Inr (s1, d) | None \<Rightarrow> select_coins j rest s1) = Inr (s', Some c)"
      by (auto simp: chooser_def)
    note inv = add_coin_inv [OF a 2(3)]
    show ?case
    proof (cases d)
      case None
      with r have "select_coins j rest s1 = Inr (s', Some c)" by simp
      with 2(1) [OF a h d [unfolded chooser_def] None] inv(1) obtain pre rest' where
        "rest = pre @ rest'" "loop_inv s'" "l_selected s' = l_selected s1 @ map fst pre"
        "l_inputTotal s' = l_inputTotal s1 + sum_list (map snd pre)" "0 \<le> l_inputTotal s'"
        "l_inputTotal s' \<le> MAX_MONEY" "too_heavy j (length (l_inputs s')) False = Inr ()"
        "chooser j (length (l_inputs s')) (l_inputTotal s') = Inr (Some c)" by blast
      then show ?thesis using inv by (intro exI [of _ "(u, a) # pre"] exI [of _ rest']) simp
    next
      case (Some x)
      with r d have "s' = s1" "x = c" by simp_all
      then show ?thesis using inv h d Some by (intro exI [of _ "[(u, a)]"] exI [of _ rest]) simp
    qed
  qed simp
  then show thesis using that by blast
qed

lemma select_coins_None:
  assumes "select_coins j coins s = Inr (s', None)" and "loop_inv s" and "coins \<noteq> []"
  shows "loop_inv s'" and "l_selected s' = l_selected s @ map fst coins"
    and "l_inputTotal s' = l_inputTotal s + sum_list (map snd coins)"
    and "chooser j (length (l_inputs s')) (l_inputTotal s') = Inr None"
proof -
  have "loop_inv s' \<and> l_selected s' = l_selected s @ map fst coins
      \<and> l_inputTotal s' = l_inputTotal s + sum_list (map snd coins)
      \<and> (coins \<noteq> [] \<longrightarrow> chooser j (length (l_inputs s')) (l_inputTotal s') = Inr None)"
    using assms(1,2)
  proof (induction j coins s rule: select_coins.induct)
    case (2 j u a rest s)
    from 2(2) obtain s1 d where a: "add_coin u a s = Inr s1"
      and h: "too_heavy j (length (l_inputs s1)) False = Inr ()"
      and d: "chooser j (length (l_inputs s1)) (l_inputTotal s1) = Inr d"
      and r: "(case d of Some _ \<Rightarrow> Inr (s1, d) | None \<Rightarrow> select_coins j rest s1) = Inr (s', None)"
      by (auto simp: chooser_def)
    note inv = add_coin_inv [OF a 2(3)]
    from r have None: "d = None" by (cases d) auto
    with r have s: "select_coins j rest s1 = Inr (s', None)" by simp
    from 2(1) [OF a h d [unfolded chooser_def] None s inv(1)] inv d None s show ?case
      by (cases rest) auto
  qed simp
  with assms(3) show "loop_inv s'" "l_selected s' = l_selected s @ map fst coins"
    "l_inputTotal s' = l_inputTotal s + sum_list (map snd coins)"
    "chooser j (length (l_inputs s')) (l_inputTotal s') = Inr None" by blast+
qed

section \<open>The choice\<close>

text \<open>Everything that a choice guarantees, in either fee mode.\<close>

lemma chooser_Some:
  assumes c: "chooser j n T = Inr (Some c)" and dust: "0 < j_changeDust j"
    and heavy: "too_heavy j n False = Inr ()"
  obtains vs where "T = c_total c + c_change c + c_fee c"
    and "c_change c = 0 \<or> j_changeDust j \<le> c_change c"
    and "estimateVsize j n (c_change c > 0) = Inr vs" and "too_heavy j n (c_change c > 0) = Inr ()"
    and "j_rate j * int vs \<le> c_fee c" and "c_change c > 0 \<or> j_subtract j \<Longrightarrow> c_fee c = j_rate j * int vs"
    and "j_subtract j \<Longrightarrow> 0 < c_total c \<and> (\<exists>d. j_recipientDust j = Inr d \<and> d \<le> c_total c)
           \<and> c_total c \<le> j_requested j - c_fee c \<and> j_requested j - c_fee c - c_total c < j_changeDust j
           \<and> c_outputs c = set_amount (hd (j_recipients j)) (c_total c)
                # (if c_change c > 0 then [change_output j (c_change c)] else [])"
    and "\<not> j_subtract j \<Longrightarrow> c_total c = j_requested j
           \<and> c_outputs c = j_recipients j @ (if c_change c > 0 then [change_output j (c_change c)] else [])"
    and "\<not> j_subtract j \<Longrightarrow> c_change c = 0 \<Longrightarrow>
           \<exists>ws. estimateVsize j n True = Inr ws \<and> c_fee c < j_rate j * int ws + j_changeDust j"
proof (cases "j_subtract j")
  case True
  with c have ge: "j_requested j \<le> T" and body: "choose_subtract j n T = Inr (Some c)"
    by (auto simp: chooser_def choose_subtract_def split: if_splits)
  define r where "r = T - j_requested j"
  define ch where "ch = (if r = 0 then 0 else if r < j_changeDust j then j_changeDust j else r)"
  have r: "0 \<le> r" using ge by (simp add: r_def)
  then have ch: "ch = 0 \<or> j_changeDust j \<le> ch" "r \<le> ch" "ch - r < j_changeDust j"
    using dust by (auto simp: ch_def)
  from body ge obtain vs d where h: "too_heavy j n (ch > 0) = Inr ()" "estimateVsize j n (ch > 0) = Inr vs"
      "j_recipientDust j = Inr d"
    and t: "0 < j_requested j - j_rate j * int vs - (ch - r)" "d \<le> j_requested j - j_rate j * int vs - (ch - r)"
    and eq: "c = \<lparr>c_fee = j_rate j * int vs, c_change = ch, c_total = j_requested j - j_rate j * int vs - (ch - r),
                  c_outputs = set_amount (hd (j_recipients j)) (j_requested j - j_rate j * int vs - (ch - r))
                    # (if ch > 0 then [change_output j ch] else [])\<rparr>"
    unfolding choose_subtract_def Let_def r_def [symmetric] ch_def [symmetric]
    by (auto simp: not_le not_less split: if_splits)
  show thesis
    by (rule that [of vs]) (use True h t ch in \<open>simp_all add: eq r_def\<close>)
next
  case False
  with c obtain ws where ws: "estimateVsize j n True = Inr ws"
    and rest: "(if T - j_requested j - j_rate j * int ws \<ge> j_changeDust j then
          bindE (too_heavy j n True) (\<lambda>_.
          Inr (Some \<lparr>c_fee = j_rate j * int ws, c_change = T - j_requested j - j_rate j * int ws, c_total = j_requested j,
            c_outputs = j_recipients j @ [change_output j (T - j_requested j - j_rate j * int ws)]\<rparr>))
        else bindE (estimateVsize j n False) (\<lambda>vs.
          if T \<ge> j_requested j + j_rate j * int vs
             then Inr (Some \<lparr>c_fee = T - j_requested j, c_change = 0, c_total = j_requested j,
               c_outputs = j_recipients j\<rparr>)
             else Inr None)) = Inr (Some c)"
    unfolding chooser_def choose_added_def Let_def by (simp only: if_False bindE_eq_Inr) blast
  show thesis
  proof (cases "T - j_requested j - j_rate j * int ws \<ge> j_changeDust j")
    case True
    with rest have h: "too_heavy j n True = Inr ()" and eq: "c = \<lparr>c_fee = j_rate j * int ws,
        c_change = T - j_requested j - j_rate j * int ws, c_total = j_requested j,
            c_outputs = j_recipients j @ [change_output j (T - j_requested j - j_rate j * int ws)]\<rparr>"
      by auto
    have "0 < T - j_requested j - j_rate j * int ws" using True dust by simp
    then show thesis
      by (intro that [of ws]) (use \<open>\<not> j_subtract j\<close> h ws True in \<open>simp_all add: eq\<close>)
  next
    case no: False
    with rest obtain vs where vs: "estimateVsize j n False = Inr vs" "T \<ge> j_requested j + j_rate j * int vs"
      and eq: "c = \<lparr>c_fee = T - j_requested j, c_change = 0, c_total = j_requested j, c_outputs = j_recipients j\<rparr>"
      by (auto split: if_splits)
    show thesis
      by (rule that [of vs]) (use \<open>\<not> j_subtract j\<close> heavy ws vs no in \<open>simp_all add: eq\<close>)
  qed
qed

section \<open>The job\<close>

lemma coin_amounts_iff:
  "coin_amounts us = Inr cs \<longleftrightarrow> map fst cs = us \<and> list_all (\<lambda>(u, a). amountInConnects (u_amount u) = Inr a) cs"
proof (induction us arbitrary: cs)
  case (Cons u us)
  then show ?case by (cases cs) (auto simp: coin_amounts_def)
qed (auto simp: coin_amounts_def)

lemma dustThreshold_Inr: "dustThreshold oc out = Inr d \<Longrightarrow> \<exists>b. serializeOutput oc out = Inr b \<and> 0 < d"
  by (auto simp: dustThreshold_def split: tx_output.splits)

lemma change_dust: "dustThreshold oc (P2PK a k) = Inr d \<Longrightarrow> d = 297"
  by (auto simp: dustThreshold_def dest: serializeOutput_P2PK_length)

lemma recipientOutput_Inr:
  assumes "recipientOutput e net q = Inr out"
  shows "\<exists>a. amountInConnects (rq_amount q) = Inr a \<and> out_amount out = dec_str (nat a)
     \<and> (\<exists>d. dustThreshold (e_curve e) out = Inr d \<and> d \<le> a)"
  using assms unfolding recipientOutput_def
  by (auto simp: Let_def not_less split: if_splits option.splits list.splits)

lemma payment_job_Inr:
  assumes "payment_job e p = Inr (mf, j, coins)"
  obtains recipients key cs cb where
    "checkedFeeRate (o_feeRate p) = Inr (j_rate j)" and "amountInConnects (o_maxFee p) = Inr mf"
    and "o_utxos p \<noteq> []" and "length (o_utxos p) \<le> MAX_PAYMENT_INPUTS"
    and "o_outputs p \<noteq> []" and "length (o_outputs p) \<le> 100"
    and "j_subtract j = o_subtract p" and "o_subtract p \<longrightarrow> length (o_outputs p) = 1"
    and "mapE (recipientOutput e (o_network p)) (o_outputs p) = Inr (j_recipients j)"
    and "j_requested j = sum_list (map output_value (j_recipients j))"
    and "0 \<le> j_requested j" and "j_requested j \<le> MAX_MONEY"
    and "decodeAddress (e_lib e) (e_curve e) (o_change p) (o_network p) = Inr key"
    and "j_changeKey j = hex_of_bytes key"
    and "coin_amounts (o_utxos p) = Inr cs" and "coins = js_sort (coin_cmp (o_subtract p) (j_requested j)) cs"
    and "output_sizes (e_curve e) (j_recipients j) = Inr (j_recipientBytes j)"
    and "serializeOutput (e_curve e) (P2PK ''0'' (hex_of_bytes key)) = Inr cb" and "j_changeBytes j = 41"
    and "j_changeDust j = 297" and "j_recipientDust j = dustThreshold (e_curve e) (hd (j_recipients j))"
proof -
  from assms obtain rate recipients key cs rb cb cd where h:
    "checkedFeeRate (o_feeRate p) = Inr rate" "amountInConnects (o_maxFee p) = Inr mf"
    "o_utxos p \<noteq> []" "length (o_utxos p) \<le> MAX_PAYMENT_INPUTS"
    "o_outputs p \<noteq> []" "length (o_outputs p) \<le> 100" "o_subtract p \<longrightarrow> length (o_outputs p) = 1"
    "mapE (recipientOutput e (o_network p)) (o_outputs p) = Inr recipients"
    "amountInConnects (JBig (sum_list (map output_value recipients))) = Inr (sum_list (map output_value recipients))"
    "decodeAddress (e_lib e) (e_curve e) (o_change p) (o_network p) = Inr key"
    "coin_amounts (o_utxos p) = Inr cs" "output_sizes (e_curve e) recipients = Inr rb"
    "serializeOutput (e_curve e) (P2PK ''0'' (hex_of_bytes key)) = Inr cb"
    "dustThreshold (e_curve e) (P2PK ''0'' (hex_of_bytes key)) = Inr cd"
    and j: "j = \<lparr>j_rate = rate, j_subtract = o_subtract p, j_requested = sum_list (map output_value recipients),
      j_recipients = recipients, j_changeKey = hex_of_bytes key, j_recipientBytes = rb,
      j_changeBytes = length cb, j_changeDust = cd, j_recipientDust = dustThreshold (e_curve e) (hd recipients)\<rparr>"
    and coins: "coins = js_sort (coin_cmp (o_subtract p) (sum_list (map output_value recipients))) cs"
    unfolding payment_job_def Let_def
    by (auto simp: output_value_def [abs_def] not_less split: if_splits)
  show thesis
    by (rule that [of key cs cb])
      (use h serializeOutput_P2PK_length [OF h(13)] change_dust [OF h(14)] in \<open>simp_all add: j coins\<close>)
qed

section \<open>The plan\<close>

lemma set_coins: "set (js_sort cmp cs) = set cs"
  by simp

lemma mset_insert_cmp [simp]: "mset (insert_cmp cmp x ys) = add_mset x (mset ys)"
  by (induction ys) auto

lemma mset_js_sort [simp]: "mset (js_sort cmp xs) = mset xs"
  by (induction xs) auto

text \<open>The parts of a successful plan.\<close>

lemma plan_parts:
  assumes "paymentPlan e p = Inr r"
  obtains mf j coins pre rest s c where
    "payment_job e p = Inr (mf, j, coins)" and "coins = pre @ rest" and "pre \<noteq> []" and "loop_inv s"
    and "l_selected s = map fst pre" and "l_inputTotal s = sum_list (map snd pre)"
    and "0 \<le> l_inputTotal s" and "l_inputTotal s \<le> MAX_MONEY"
    and "too_heavy j (length pre) False = Inr ()"
    and "chooser j (length pre) (l_inputTotal s) = Inr (Some c)" and "c_fee c \<le> mf"
    and "estimateVsize j (length pre) (c_change c > 0) = Inr (p_vsize r)"
    and "r = \<lparr>p_selected = map fst pre,
          p_tx = \<lparr>version = 2, inputs = map placeholder_input (map fst pre), outputs = c_outputs c, locktime = 0\<rparr>,
          p_fee = c_fee c, p_total = c_total c, p_requested = j_requested j,
          p_inputTotal = l_inputTotal s, p_change = c_change c, p_vsize = p_vsize r\<rparr>"
proof -
  from assms obtain mf j coins s c vs where job: "payment_job e p = Inr (mf, j, coins)"
    and sel: "select_coins j coins start_state = Inr (s, Some c)" and fee: "c_fee c \<le> mf"
    and vs: "estimateVsize j (length (l_inputs s)) (c_change c > 0) = Inr vs"
    and r: "r = \<lparr>p_selected = l_selected s,
                p_tx = \<lparr>version = 2, inputs = l_inputs s, outputs = c_outputs c, locktime = 0\<rparr>,
                p_fee = c_fee c, p_total = c_total c, p_requested = j_requested j,
                p_inputTotal = l_inputTotal s, p_change = c_change c, p_vsize = vs\<rparr>"
    unfolding paymentPlan_def by (auto split: option.splits if_splits)
  from sel loop_inv_start obtain pre rest where pre: "coins = pre @ rest" "pre \<noteq> []" "loop_inv s"
    "l_selected s = l_selected start_state @ map fst pre"
    "l_inputTotal s = l_inputTotal start_state + sum_list (map snd pre)"
    "0 \<le> l_inputTotal s" "l_inputTotal s \<le> MAX_MONEY"
    "too_heavy j (length (l_inputs s)) False = Inr ()"
    "chooser j (length (l_inputs s)) (l_inputTotal s) = Inr (Some c)"
    by (rule select_coins_Some)
  have i: "l_inputs s = map placeholder_input (map fst pre)" "l_selected s = map fst pre"
    using pre(3,4) by (simp_all add: loop_inv_def start_state_def)
  show thesis
    by (rule that [of mf j coins pre rest s c])
      (use job pre fee vs i in \<open>simp_all add: r start_state_def\<close>)
qed

text \<open>The same, with the facts of the choice.\<close>

lemma plan_choice:
  assumes "paymentPlan e p = Inr r"
  obtains mf j coins pre rest and c :: choice where
    "payment_job e p = Inr (mf, j, coins)" and "coins = pre @ rest" and "p_selected r = map fst pre"
    and "inputs (p_tx r) = map placeholder_input (map fst pre)" and "outputs (p_tx r) = c_outputs c"
    and "p_inputTotal r = sum_list (map snd pre)" and "0 \<le> p_inputTotal r" and "p_inputTotal r \<le> MAX_MONEY"
    and "p_inputTotal r = p_total r + p_change r + p_fee r" and "p_change r = 0 \<or> 297 \<le> p_change r"
    and "estimateVsize j (length pre) (p_change r > 0) = Inr (p_vsize r)"
    and "too_heavy j (length pre) (p_change r > 0) = Inr ()"
    and "p_fee r \<le> mf" and "j_rate j * int (p_vsize r) \<le> p_fee r"
    and "p_change r > 0 \<or> j_subtract j \<longrightarrow> p_fee r = j_rate j * int (p_vsize r)"
    and "j_subtract j \<longrightarrow> 0 < p_total r \<and> (\<exists>d. j_recipientDust j = Inr d \<and> d \<le> p_total r)
           \<and> p_total r \<le> j_requested j - p_fee r \<and> j_requested j - p_fee r - p_total r < 297
           \<and> c_outputs c = set_amount (hd (j_recipients j)) (p_total r)
                # (if p_change r > 0 then [change_output j (p_change r)] else [])"
    and "\<not> j_subtract j \<longrightarrow> p_total r = j_requested j
           \<and> c_outputs c = j_recipients j @ (if p_change r > 0 then [change_output j (p_change r)] else [])"
    and "\<not> j_subtract j \<longrightarrow> p_change r = 0 \<longrightarrow>
           (\<exists>ws. estimateVsize j (length pre) True = Inr ws \<and> p_fee r < j_rate j * int ws + 297)"
    and "p_requested r = j_requested j" and "pre \<noteq> []"
    and "version (p_tx r) = 2" and "locktime (p_tx r) = 0"
    and "\<exists>keys. mapE utxo_outpoint (map fst pre) = Inr keys \<and> distinct keys"
proof -
  from assms obtain mf j coins pre rest s c where h:
    "payment_job e p = Inr (mf, j, coins)" "coins = pre @ rest" "pre \<noteq> []" "loop_inv s"
    "l_selected s = map fst pre" "l_inputTotal s = sum_list (map snd pre)"
    "0 \<le> l_inputTotal s" "l_inputTotal s \<le> MAX_MONEY"
    "too_heavy j (length pre) False = Inr ()"
    "chooser j (length pre) (l_inputTotal s) = Inr (Some c)" "c_fee c \<le> mf"
    and vs: "estimateVsize j (length pre) (c_change c > 0) = Inr (p_vsize r)"
    and r: "r = \<lparr>p_selected = map fst pre,
          p_tx = \<lparr>version = 2, inputs = map placeholder_input (map fst pre), outputs = c_outputs c, locktime = 0\<rparr>,
          p_fee = c_fee c, p_total = c_total c, p_requested = j_requested j,
          p_inputTotal = l_inputTotal s, p_change = c_change c, p_vsize = p_vsize r\<rparr>"
    by (rule plan_parts)
  from h(1) have dust: "j_changeDust j = 297" by (rule payment_job_Inr)
  have sel: "p_selected r = map fst pre" "inputs (p_tx r) = map placeholder_input (map fst pre)"
    "outputs (p_tx r) = c_outputs c" "p_fee r = c_fee c" "p_total r = c_total c" "p_requested r = j_requested j"
    "p_inputTotal r = l_inputTotal s" "p_change r = c_change c" "version (p_tx r) = 2" "locktime (p_tx r) = 0"
    by (subst r, simp)+
  have keys: "\<exists>keys. mapE utxo_outpoint (map fst pre) = Inr keys \<and> distinct keys"
    using h(4,5) by (auto simp: loop_inv_def)
  have "0 < j_changeDust j" using dust by simp
  from chooser_Some [OF h(10) this h(9)] show thesis
  proof cases
    case (1 ws)
    with vs have ws: "ws = p_vsize r" by simp
    show thesis
      by (rule that [of mf j coins pre rest c]) (use h keys 1 ws dust in \<open>simp_all add: sel\<close>)
  qed
qed

end
