(* ===== verification/Payment_Size.thy ===== *)
theory Payment_Size
  imports Payment_Proofs
begin

text \<open>
  The size estimate of a plan against the serializer. \<open>signed_tx p sigs\<close> is the planned transaction with
  one 64-byte signature per input, as \<open>buildPayment\<close> makes it; its virtual size is the estimate the
  fee was computed from.
\<close>

definition signed_tx :: "tx \<Rightarrow> bytes list \<Rightarrow> tx" where
  "signed_tx t sigs = t\<lparr>inputs := map2 (\<lambda>i g. set_witness i [hex_of_bytes g]) (inputs t) sigs\<rparr>"

section \<open>Outputs\<close>

text \<open>The outputs of a plan, whatever the fee mode: amounts that spell integers in range.\<close>

definition amounts_ok :: "tx_output list \<Rightarrow> bool" where
  "amounts_ok outs = list_all (\<lambda>out. amountInConnects (JStr (out_amount out)) = Inr (output_value out)) outs"

lemma amounts_ok_sum:
  "amounts_ok outs \<Longrightarrow> acc \<le> MAX_MONEY \<Longrightarrow>
     foldE (\<lambda>out total. bindE (amountInConnects (JStr (out_amount out))) (\<lambda>a.
       if total + a > MAX_MONEY then Inl TotalOutOfRange else Inr (total + a))) outs acc
     = (if acc + sum_list (map output_value outs) \<le> MAX_MONEY
        then Inr (acc + sum_list (map output_value outs)) else Inl TotalOutOfRange)"
proof (induction outs arbitrary: acc)
  case (Cons out outs)
  have "0 \<le> sum_list (map output_value outs)"
    by (intro sum_list_nonneg_map) (simp add: output_value_def)
  moreover have "0 \<le> output_value out" by (simp add: output_value_def)
  ultimately show ?case using Cons by (auto simp: amounts_ok_def add.assoc)
qed simp

lemma sum_outputs_ok:
  "amounts_ok outs \<Longrightarrow> sum_list (map output_value outs) \<le> MAX_MONEY \<Longrightarrow>
     sum_outputs outs = Inr (sum_list (map output_value outs))"
  using amounts_ok_sum [of outs 0] by (simp add: sum_outputs_def MAX_MONEY_def COIN_def)

lemma output_value_set [simp]: "0 \<le> n \<Longrightarrow> output_value (set_amount out n) = n"
  by (simp add: output_value_def)

lemma output_value_change [simp]: "0 \<le> n \<Longrightarrow> output_value (change_output j n) = n"
  by (simp add: output_value_def change_output_def)

lemma amount_dec_str: "0 \<le> n \<Longrightarrow> n \<le> MAX_MONEY \<Longrightarrow> amountInConnects (JStr (dec_str (nat n))) = Inr n"
  by simp

lemma recipients_ok:
  assumes "mapE (recipientOutput e net) qs = Inr outs"
  shows "amounts_ok outs" and "length outs = length qs"
    and "list_all (\<lambda>out. \<exists>d. dustThreshold (e_curve e) out = Inr d \<and> d \<le> output_value out) outs"
proof -
  have one: "amountInConnects (JStr (out_amount out)) = Inr (output_value out)
      \<and> (\<exists>d. dustThreshold (e_curve e) out = Inr d \<and> d \<le> output_value out)"
    if r: "recipientOutput e net q = Inr out" for q out
  proof -
    from recipientOutput_Inr [OF r] obtain a where a: "amountInConnects (rq_amount q) = Inr a"
      "out_amount out = dec_str (nat a)" "\<exists>d. dustThreshold (e_curve e) out = Inr d \<and> d \<le> a" by blast
    have "0 \<le> a" "a \<le> MAX_MONEY" using amountInConnects_range [OF a(1)] by simp_all
    with a show ?thesis by (simp add: output_value_def)
  qed
  have l: "list_all2 (\<lambda>q out. recipientOutput e net q = Inr out) qs outs"
    using assms by (simp add: mapE_Inr_iff)
  then show "length outs = length qs" by (simp add: list_all2_lengthD)
  from l show "amounts_ok outs" unfolding amounts_ok_def
    by (induction rule: list_all2_induct) (auto dest: one)
  from l show "list_all (\<lambda>out. \<exists>d. dustThreshold (e_curve e) out = Inr d \<and> d \<le> output_value out) outs"
    by (induction rule: list_all2_induct) (auto dest: one)
qed

text \<open>What a plan pays out: total and change, each output serializable, with the estimated bytes.\<close>

lemma plan_outputs:
  assumes "paymentPlan e p = Inr r" and "payment_job e p = Inr (mf, j, coins)"
  shows "sum_list (map output_value (outputs (p_tx r))) = p_total r + p_change r"
    and "amounts_ok (outputs (p_tx r))"
    and "\<exists>bs. enc_all (serializeOutput (e_curve e)) (outputs (p_tx r)) = Inr bs
       \<and> length bs = j_recipientBytes j + (if p_change r > 0 then j_changeBytes j else 0)"
    and "length (outputs (p_tx r)) = length (j_recipients j) + (if p_change r > 0 then 1 else 0)"
proof -
  from assms(1) obtain mf' j' coins' pre rest and c :: choice where
    job: "payment_job e p = Inr (mf', j', coins')" and outs: "outputs (p_tx r) = c_outputs c"
    and T: "p_inputTotal r \<le> MAX_MONEY"
    and bal: "p_inputTotal r = p_total r + p_change r + p_fee r" and ch: "p_change r = 0 \<or> 297 \<le> p_change r"
    and fee: "j_rate j' * int (p_vsize r) \<le> p_fee r"
    and sub: "j_subtract j' \<longrightarrow> 0 < p_total r \<and> (\<exists>d. j_recipientDust j' = Inr d \<and> d \<le> p_total r)
           \<and> p_total r \<le> j_requested j' - p_fee r \<and> j_requested j' - p_fee r - p_total r < 297
           \<and> c_outputs c = set_amount (hd (j_recipients j')) (p_total r)
                # (if p_change r > 0 then [change_output j' (p_change r)] else [])"
    and add: "\<not> j_subtract j' \<longrightarrow> p_total r = j_requested j'
           \<and> c_outputs c = j_recipients j' @ (if p_change r > 0 then [change_output j' (p_change r)] else [])"
    by (rule plan_choice) (rule that; assumption)
  from job assms(2) have j: "j' = j" by simp
  from assms(2) obtain key cb where rate: "checkedFeeRate (o_feeRate p) = Inr (j_rate j)"
    and rec: "mapE (recipientOutput e (o_network p)) (o_outputs p) = Inr (j_recipients j)"
    and sj: "j_subtract j = o_subtract p" and one: "o_subtract p \<longrightarrow> length (o_outputs p) = 1"
    and req: "j_requested j = sum_list (map output_value (j_recipients j))" "0 \<le> j_requested j"
    and key: "j_changeKey j = hex_of_bytes key"
    and cb: "serializeOutput (e_curve e) (P2PK ''0'' (hex_of_bytes key)) = Inr cb" "j_changeBytes j = 41"
    and rb: "output_sizes (e_curve e) (j_recipients j) = Inr (j_recipientBytes j)"
    by (rule payment_job_Inr) (rule that; assumption)
  note ok = recipients_ok [OF rec]
  have "0 < j_rate j" using rate by (auto simp: checkedFeeRate_def split: if_splits)
  then have "0 \<le> p_fee r" using fee j by (meson mult_nonneg_nonneg of_nat_0_le_iff order.trans less_imp_le)
  moreover have "0 \<le> p_total r" using sub add req(2) j by (cases "j_subtract j") auto
  ultimately have range: "0 \<le> p_total r" "p_total r \<le> MAX_MONEY" "0 \<le> p_change r" "p_change r \<le> MAX_MONEY"
    using bal T ch by auto
  have chv: "\<exists>b. serializeOutput (e_curve e) (change_output j (p_change r)) = Inr b \<and> length b = 41"
  proof -
    have "change_output j (p_change r) = set_amount (P2PK ''0'' (hex_of_bytes key)) (p_change r)"
      by (simp add: change_output_def set_amount_def key)
    with set_amount_serialized [OF cb(1) range(3,4)] serializeOutput_P2PK_length [OF cb(1)]
    show ?thesis by simp
  qed
  from rb obtain bs where bs: "enc_all (serializeOutput (e_curve e)) (j_recipients j) = Inr bs"
      "j_recipientBytes j = length bs" by (auto simp: output_sizes_iff)
  have tail: "\<exists>cs. enc_all (serializeOutput (e_curve e)) (if p_change r > 0 then [change_output j (p_change r)] else [])
      = Inr cs \<and> length cs = (if p_change r > 0 then j_changeBytes j else 0)"
    using chv cb(2) by auto
  have tv: "sum_list (map output_value (if p_change r > 0 then [change_output j (p_change r)] else [])) = p_change r"
    using ch by auto
  have ta: "amounts_ok (if p_change r > 0 then [change_output j (p_change r)] else [])"
    using range by (simp add: amounts_ok_def) (simp add: change_output_def)
  have "sum_list (map output_value (outputs (p_tx r))) = p_total r + p_change r
      \<and> amounts_ok (outputs (p_tx r))
      \<and> (\<exists>bs. enc_all (serializeOutput (e_curve e)) (outputs (p_tx r)) = Inr bs
         \<and> length bs = j_recipientBytes j + (if p_change r > 0 then j_changeBytes j else 0))
      \<and> length (outputs (p_tx r)) = length (j_recipients j) + (if p_change r > 0 then 1 else 0)"
  proof (cases "j_subtract j")
    case True
    with one sj ok(2) obtain out where out: "j_recipients j = [out]" by (cases "j_recipients j") auto
    with bs obtain b where b: "serializeOutput (e_curve e) out = Inr b" "length b = j_recipientBytes j" by auto
    from set_amount_serialized [OF b(1) range(1,2)] obtain b' where
      b': "serializeOutput (e_curve e) (set_amount out (p_total r)) = Inr b'" "length b' = length b" by blast
    have "outputs (p_tx r) = set_amount out (p_total r) # (if p_change r > 0 then [change_output j (p_change r)] else [])"
      using sub True j outs out by simp
    with tail tv ta b b' range out show ?thesis by (auto simp: amounts_ok_def)
  next
    case False
    with add j outs have "outputs (p_tx r) = j_recipients j @ (if p_change r > 0 then [change_output j (p_change r)] else [])"
      and "p_total r = j_requested j" by simp_all
    with tail tv ta bs ok(1) req(1) show ?thesis
      by (auto simp: amounts_ok_def enc_all_append)
  qed
  then show "sum_list (map output_value (outputs (p_tx r))) = p_total r + p_change r"
    and "amounts_ok (outputs (p_tx r))"
    and "\<exists>bs. enc_all (serializeOutput (e_curve e)) (outputs (p_tx r)) = Inr bs
       \<and> length bs = j_recipientBytes j + (if p_change r > 0 then j_changeBytes j else 0)"
    and "length (outputs (p_tx r)) = length (j_recipients j) + (if p_change r > 0 then 1 else 0)"
    by blast+
qed

section \<open>Inputs\<close>

lemma outpoint_witness [simp]: "outpoint (set_witness i w) = outpoint i"
  by (simp add: outpoint_def set_witness_def)

lemma set_witness_fields [simp]: "scriptSig (set_witness i w) = scriptSig i" "witness (set_witness i w) = w"
  by (simp_all add: set_witness_def)

lemma hexBytes_Nil [simp]: "hexBytes None [] = Inr []"
  by (simp add: hexBytes_def)

lemma placeholder_fields [simp]:
  "scriptSig (placeholder_input u) = []" "sequence (placeholder_input u) = 0xfffffffd"
  by (simp_all add: placeholder_input_def)

lemma planned_input_length:
  assumes "utxo_outpoint u = Inr key"
  shows "\<exists>b. serialize_input (placeholder_input u) = Inr b \<and> length b = 41"
proof -
  from assms have "outpoint (placeholder_input u) = Inr key" by (simp add: utxo_outpoint_def)
  moreover from this have "length key = 36" by (auto simp: outpoint_def hexBytes_Inr(3))
  ultimately show ?thesis by (simp add: serialize_input_def variable_def compactSize_def MAX_TX_BYTES_def u32_def)
qed

lemma planned_inputs_length:
  "mapE utxo_outpoint us = Inr keys \<Longrightarrow>
     \<exists>b. enc_all serialize_input (map placeholder_input us) = Inr b \<and> length b = 41 * length us"
proof (induction us arbitrary: keys)
  case (Cons u us)
  then obtain key ks where "utxo_outpoint u = Inr key" "mapE utxo_outpoint us = Inr ks" by auto
  with Cons.IH [of ks] planned_input_length [of u key] show ?case by auto
qed simp

lemma signed_inputs:
  "length sigs = length us \<Longrightarrow> list_all (\<lambda>g. length g = 64) sigs \<Longrightarrow>
     enc_all serialize_input (map2 (\<lambda>i g. set_witness i [hex_of_bytes g]) (map placeholder_input us) sigs)
       = enc_all serialize_input (map placeholder_input us)
     \<and> (\<exists>b. enc_all (\<lambda>i. serialize_stack (witness i))
             (map2 (\<lambda>i g. set_witness i [hex_of_bytes g]) (map placeholder_input us) sigs) = Inr b
           \<and> length b = 66 * length us)"
proof (induction us sigs rule: list_induct2')
  case (4 u us g sigs)
  then have "serialize_stack [hex_of_bytes g] = Inr (1 # 64 # g)"
    by (simp add: serialize_stack_def serialize_item_def variable_def compactSize_def MAX_TX_BYTES_def
        MAX_PROOF_SIZE_def)
  with 4 show ?case by (auto simp: set_witness_def [of _ "[hex_of_bytes g]"] serialize_input_def outpoint_def)
qed simp_all

lemma signed_checked:
  "length sigs = length us \<Longrightarrow> mapE utxo_outpoint us = Inr keys \<Longrightarrow> distinct keys \<Longrightarrow> set keys \<inter> set seen = {} \<Longrightarrow>
     check_inputs (map2 (\<lambda>i g. set_witness i [hex_of_bytes g]) (map placeholder_input us) sigs) seen
       = Inr (rev keys @ seen)"
proof (induction us arbitrary: sigs keys seen)
  case (Cons u us)
  then obtain key ks g gs where k: "utxo_outpoint u = Inr key" "mapE utxo_outpoint us = Inr ks" "keys = key # ks"
    and g: "sigs = g # gs" by (cases sigs) auto
  with Cons.prems have "check_inputs (map2 (\<lambda>i g. set_witness i [hex_of_bytes g]) (map placeholder_input us) gs)
      (key # seen) = Inr (rev ks @ key # seen)"
    by (intro Cons.IH) auto
  with k g Cons.prems show ?case
    by (simp add: check_inputs_def utxo_outpoint_def)
qed (simp add: check_inputs_def)

section \<open>The estimate is exact\<close>

lemma estimate_parts:
  assumes "estimateVsize j n wc = Inr v" and "too_heavy j n wc = Inr ()"
  obtains ci co where "compactSize n = Inr ci" and "compactSize (length (j_recipients j) + (if wc then 1 else 0)) = Inr co"
    and "v = ((8 + length ci + 41 * n + length co + j_recipientBytes j + (if wc then j_changeBytes j else 0)) * 4
           + 2 + 66 * n + 3) div 4"
    and "(8 + length ci + 41 * n + length co + j_recipientBytes j + (if wc then j_changeBytes j else 0)) * 4
           + 2 + 66 * n \<le> MAX_PAYMENT_WEIGHT"
  using assms by (auto simp: estimateVsize_def estimateWeight_def too_heavy_def Let_def not_less split: if_splits)

text \<open>A signed plan serializes, and its two lengths are the ones of the estimate.\<close>

lemma plan_frames:
  assumes plan: "paymentPlan e p = Inr r" and l: "length sigs = length (p_selected r)"
    and sigs: "list_all (\<lambda>g. length g = 64) sigs"
  obtains base full where "serializeTransaction (e_curve e) (signed_tx (p_tx r) sigs) False = Inr base"
    and "serializeTransaction (e_curve e) (signed_tx (p_tx r) sigs) True = Inr full"
    and "length full = length base + 2 + 66 * length (p_selected r)"
    and "p_vsize r = (length base * 3 + length full + 3) div 4"
    and "length base * 3 + length full \<le> MAX_PAYMENT_WEIGHT"
proof -
  from plan obtain mf j coins pre rest and c :: choice where
    job: "payment_job e p = Inr (mf, j, coins)" and coins: "coins = pre @ rest"
    and sel: "p_selected r = map fst pre"
    and ins: "inputs (p_tx r) = map placeholder_input (map fst pre)"
    and T: "p_inputTotal r \<le> MAX_MONEY"
    and bal: "p_inputTotal r = p_total r + p_change r + p_fee r"
    and vs: "estimateVsize j (length pre) (p_change r > 0) = Inr (p_vsize r)"
    and heavy: "too_heavy j (length pre) (p_change r > 0) = Inr ()"
    and fee: "j_rate j * int (p_vsize r) \<le> p_fee r"
    and ne: "pre \<noteq> []" and ver: "version (p_tx r) = 2" and lock: "locktime (p_tx r) = 0"
    and keys: "\<exists>keys. mapE utxo_outpoint (map fst pre) = Inr keys \<and> distinct keys"
    by (rule plan_choice) (rule that; assumption)
  note outs = plan_outputs [OF plan job]
  from job obtain cs where rate: "checkedFeeRate (o_feeRate p) = Inr (j_rate j)"
    and n: "length (o_utxos p) \<le> MAX_PAYMENT_INPUTS" "o_outputs p \<noteq> []" "length (o_outputs p) \<le> 100"
    and rec: "mapE (recipientOutput e (o_network p)) (o_outputs p) = Inr (j_recipients j)"
    and cs: "coin_amounts (o_utxos p) = Inr cs" "coins = js_sort (coin_cmp (o_subtract p) (j_requested j)) cs"
    by (rule payment_job_Inr) (rule that; assumption)
  have "length coins = length (o_utxos p)" using cs by (metis length_js_sort length_map coin_amounts_iff)
  then have len: "length pre \<le> 1738" using n(1) coins by (simp add: MAX_PAYMENT_INPUTS_def)
  from keys obtain ks where ks: "mapE utxo_outpoint (map fst pre) = Inr ks" "distinct ks" by blast
  let ?t = "signed_tx (p_tx r) sigs" and ?n = "length pre"
  have tin: "inputs ?t = map2 (\<lambda>i g. set_witness i [hex_of_bytes g]) (map placeholder_input (map fst pre)) sigs"
    and tout: "outputs ?t = outputs (p_tx r)" and tv: "version ?t = 2" "locktime ?t = 0"
    using ins ver lock by (simp_all add: signed_tx_def)
  have lens: "length sigs = length (map fst pre)" using l sel by simp
  then have lin: "length (inputs ?t) = ?n" by (simp add: tin)
  have lout: "outputs ?t \<noteq> []" "length (outputs ?t) \<le> 101"
    using outs(4) tout n recipients_ok(2) [OF rec] by (auto simp flip: length_greater_0_conv)
  have "0 < j_rate j" using rate by (auto simp: checkedFeeRate_def split: if_splits)
  then have "0 \<le> p_fee r" using fee by (meson mult_nonneg_nonneg of_nat_0_le_iff order.trans less_imp_le)
  then have "sum_list (map output_value (outputs ?t)) \<le> MAX_MONEY" using outs(1) tout bal T by simp
  then have shape: "validateShape ?t = Inr ()"
    using sum_outputs_ok [of "outputs ?t"] outs(2) tout lin lout len ne
      signed_checked [OF lens ks, of "[]"]
    by (simp add: validateShape_def tv u32_def MAX_INPUTS_def MAX_OUTPUTS_def tin)
  from signed_inputs [OF lens sigs] planned_inputs_length [OF ks(1)] obtain bi bw where
      bi: "enc_all serialize_input (inputs ?t) = Inr bi" "length bi = 41 * ?n"
    and bw: "enc_all (\<lambda>i. serialize_stack (witness i)) (inputs ?t) = Inr bw" "length bw = 66 * ?n"
    unfolding tin by auto
  from outs(3) tout obtain bo where bo: "enc_all (serializeOutput (e_curve e)) (outputs ?t) = Inr bo"
      "length bo = j_recipientBytes j + (if p_change r > 0 then j_changeBytes j else 0)" by auto
  have no: "length (outputs ?t) = length (j_recipients j) + (if p_change r > 0 then 1 else 0)"
    using outs(4) tout by simp
  from estimate_parts [OF vs heavy, folded no] obtain ci co where ci: "compactSize ?n = Inr ci"
      "compactSize (length (outputs ?t)) = Inr co"
    and raw: "p_vsize r = ((8 + length ci + 41 * ?n + length co + j_recipientBytes j
           + (if p_change r > 0 then j_changeBytes j else 0)) * 4 + 2 + 66 * ?n + 3) div 4"
      "(8 + length ci + 41 * ?n + length co + j_recipientBytes j
           + (if p_change r > 0 then j_changeBytes j else 0)) * 4 + 2 + 66 * ?n \<le> MAX_PAYMENT_WEIGHT"
    by blast
  have b: "8 + length ci + 41 * ?n + length co + j_recipientBytes j + (if p_change r > 0 then j_changeBytes j else 0)
      = 8 + length ci + 41 * ?n + length co + length bo" using bo(2) by simp
  note v = raw(1) [unfolded b] and w = raw(2) [unfolded b]
  have hw: "has_witness (inputs ?t)"
    unfolding tin using ne lens by (cases pre; cases sigs) (auto simp: has_witness_def)
  let ?base = "le_bytes 4 2 @ ci @ bi @ co @ bo @ le_bytes 4 0"
  let ?full = "le_bytes 4 2 @ [0, 1] @ ci @ bi @ co @ bo @ bw @ le_bytes 4 0"
  have f: "frame (e_curve e) ?t False = Inr ?base" "frame (e_curve e) ?t True = Inr ?full"
    using ci bi bo bw lin by (simp_all add: frame_def tv u32_def)
  have lb: "length ?base = 8 + length ci + 41 * ?n + length co + length bo"
    and lf: "length ?full = length ?base + 2 + 66 * ?n" using bi bw by simp_all
  then have small: "length ?base \<le> MAX_TX_BYTES" "length ?full \<le> MAX_TX_BYTES"
    using w by (simp_all add: MAX_PAYMENT_WEIGHT_def MAX_TX_BYTES_def)
  show thesis
  proof (rule that [of ?base ?full])
    show "serializeTransaction (e_curve e) ?t False = Inr ?base"
      "serializeTransaction (e_curve e) ?t True = Inr ?full"
      using f small hw by (simp_all add: serialize_frame shape)
    show "length ?full = length ?base + 2 + 66 * length (p_selected r)" using lf sel by simp
    show "p_vsize r = (length ?base * 3 + length ?full + 3) div 4"
      unfolding v lf lb by (rule arg_cong [where f = "\<lambda>x. x div 4"]) simp
    show "length ?base * 3 + length ?full \<le> MAX_PAYMENT_WEIGHT" using w unfolding lf lb by simp
  qed
qed

end
