(* ===== verification/Payment_Laws.thy ===== *)
theory Payment_Laws
  imports Payment_Size
begin

text \<open>
  The properties of payment plans, with a concrete plan for their instances: one coin of 5 CONN pays
  1 CONN at the default fee rate, on the stand-in address library of \<open>Address\<close>.
\<close>

section \<open>A concrete plan\<close>

definition ex_key :: bytes where "ex_key = replicate 32 7"

definition ex_address :: string where
  "ex_address = ''tcc1'' @ map char_of (1 # map unat ex_key)"

definition ex_env :: env where
  "ex_env = \<lparr>e_lib = plain_lib, e_curve = (\<lambda>_. True), e_ascii = (\<lambda>s. s)\<rparr>"

text \<open>The raw transaction that made the coin: its one output pays the amount to the key of the example.\<close>

definition ex_parent_tx :: "int \<Rightarrow> tx" where
  "ex_parent_tx amount = \<lparr>version = 2,
     inputs = [\<lparr>txid = hex_of_bytes (replicate 32 17), vout = 1, scriptSig = [], sequence = 0, witness = []\<rparr>],
     outputs = [P2PK (dec_str (nat amount)) (hex_of_bytes ex_key)], locktime = 0\<rparr>"

definition ex_parent :: "int \<Rightarrow> string" where
  "ex_parent amount = (case serializeTransaction (\<lambda>_. True) (ex_parent_tx amount) True of
     Inl e \<Rightarrow> [] | Inr b \<Rightarrow> hex_of_bytes b)"

definition ex_utxo :: "int \<Rightarrow> utxo" where
  "ex_utxo amount = \<lparr>u_txid = hex_of_bytes (replicate 32 9), u_vout = 0, u_amount = JBig amount,
     u_raw = Some (ex_parent amount), u_priv = Some ex_key\<rparr>"

definition ex_options :: "int \<Rightarrow> bool \<Rightarrow> options" where
  "ex_options amount subtract = \<lparr>o_utxos = [ex_utxo amount],
     o_outputs = [\<lparr>rq_amount = JBig 10000000000, rq_address = Some ex_address, rq_domain = None,
       rq_target = None, rq_expected = None, rq_rootVersion = None, rq_mask = None\<rparr>],
     o_change = ex_address, o_network = ''testnet4'', o_feeRate = DEFAULT_FEE_RATE,
     o_maxFee = JBig COIN, o_subtract = subtract\<rparr>"

lemma ex_decode: "decodeAddress plain_lib (\<lambda>_. True) ex_address ''testnet4'' = Inr ex_key"
proof -
  have "b32_encode plain_lib ''tcc'' (1 # b32_toWords plain_lib ex_key) = ex_address"
    by (simp add: plain_lib_def ex_address_def)
  moreover have "length ex_key = 32" by (simp add: ex_key_def)
  ultimately have e: "encodeAddress plain_lib (\<lambda>_. True) (KBytes ex_key) ''testnet4'' = Inr ex_address"
    by (simp add: encodeAddress_def networkParameters_def validatePublicKey_def)
  show ?thesis
    by (rule encodeAddress_decoded [OF plain_lib_laws e])
      (use \<open>length ex_key = 32\<close> in \<open>simp add: decodeAddress_def validatePublicKey_def\<close>)
qed

lemma ex_address_shape: "\<exists>c cs. ex_address = c # cs"
  by (simp add: ex_address_def)

lemma ex_serialized:
  assumes "0 \<le> n" and "n \<le> MAX_MONEY"
  shows "serializeOutput (\<lambda>_. True) (P2PK (dec_str (nat n)) (hex_of_bytes ex_key))
     = Inr (le_bytes 8 (nat n) @ 1 # ex_key)"
proof -
  have "validatePublicKey (\<lambda>_. True) (KHex (hex_of_bytes ex_key)) = Inr ex_key"
    by (rule validatePublicKey_hex) (simp_all add: ex_key_def)
  with assms show ?thesis by (simp add: serializeOutput_eq outputPayload_P2PK)
qed

lemma ex_length [simp]: "length ex_key = 32"
  by (simp add: ex_key_def)

lemma ex_dust: "0 \<le> n \<Longrightarrow> n \<le> MAX_MONEY \<Longrightarrow>
    dustThreshold (\<lambda>_. True) (P2PK (dec_str (nat n)) (hex_of_bytes ex_key)) = Inr 297"
  by (simp add: dustThreshold_def ex_serialized)

lemma ex_recipient:
  assumes "q = \<lparr>rq_amount = JBig 10000000000, rq_address = Some ex_address, rq_domain = None,
       rq_target = None, rq_expected = None, rq_rootVersion = None, rq_mask = None\<rparr>"
  shows "recipientOutput ex_env ''testnet4'' q = Inr (P2PK (dec_str (nat 10000000000)) (hex_of_bytes ex_key))"
proof -
  obtain c cs where a: "ex_address = c # cs" using ex_address_shape by blast
  have m: "(10000000000 :: int) \<le> MAX_MONEY" by (simp add: MAX_MONEY_def COIN_def)
  have "amountInConnects (JBig 10000000000) = Inr 10000000000" using m by simp
  with ex_dust [of 10000000000] ex_decode [unfolded a] m show ?thesis
    unfolding assms recipientOutput_def ex_env_def a by (simp add: Let_def)
qed

definition ex_job :: "bool \<Rightarrow> job" where
  "ex_job subtract = \<lparr>j_rate = 1500, j_subtract = subtract, j_requested = 10000000000,
     j_recipients = [P2PK (dec_str (nat 10000000000)) (hex_of_bytes ex_key)],
     j_changeKey = hex_of_bytes ex_key, j_recipientBytes = 41, j_changeBytes = 41, j_changeDust = 297,
     j_recipientDust = Inr 297\<rparr>"

lemma ex_payment_job:
  assumes "0 \<le> a" and "a \<le> MAX_MONEY"
  shows "payment_job ex_env (ex_options a s) = Inr (COIN, ex_job s, [(ex_utxo a, a)])"
proof -
  have m: "(10000000000 :: int) \<le> MAX_MONEY" "COIN \<le> MAX_MONEY" "0 \<le> COIN"
    by (simp_all add: MAX_MONEY_def COIN_def)
  have z: "''0'' = dec_str (nat 0)" by simp
  have am: "amountInConnects (JBig COIN) = Inr COIN" "amountInConnects (JBig 10000000000) = Inr 10000000000"
    "amountInConnects (JBig a) = Inr a" using m assms by simp_all
  have c0: "serializeOutput (\<lambda>_. True) (P2PK ''0'' (hex_of_bytes ex_key)) = Inr (le_bytes 8 0 @ 1 # ex_key)"
    "dustThreshold (\<lambda>_. True) (P2PK ''0'' (hex_of_bytes ex_key)) = Inr 297"
    unfolding z using ex_serialized [of 0] ex_dust [of 0] m by simp_all
  have c1: "serializeOutput (\<lambda>_. True) (P2PK (dec_str 10000000000) (hex_of_bytes ex_key))
      = Inr (le_bytes 8 10000000000 @ 1 # ex_key)"
    "dustThreshold (\<lambda>_. True) (P2PK (dec_str 10000000000) (hex_of_bytes ex_key)) = Inr 297"
    using ex_serialized [of 10000000000] ex_dust [of 10000000000] m by simp_all
  have rate: "checkedFeeRate DEFAULT_FEE_RATE = Inr 1500" by (simp add: checkedFeeRate_def DEFAULT_FEE_RATE_def)
  show ?thesis
    unfolding payment_job_def
    by (simp add: ex_options_def rate am MAX_PAYMENT_INPUTS_def ex_recipient Let_def coin_amounts_def ex_utxo_def
        output_sizes_def ex_env_def [symmetric])
      (simp add: ex_env_def ex_decode m c0 c1 ex_job_def)
qed

lemma ex_add_coin:
  assumes "0 \<le> a" and "a \<le> MAX_MONEY"
  shows "\<exists>key. add_coin (ex_utxo a) a start_state = Inr \<lparr>l_selected = [ex_utxo a], l_seen = [key],
     l_inputs = [placeholder_input (ex_utxo a)], l_inputTotal = a\<rparr>"
proof -
  have "\<exists>key. utxo_outpoint (ex_utxo a) = Inr key"
    by (simp add: utxo_outpoint_def outpoint_def placeholder_input_def ex_utxo_def u32_def)
  then obtain key where "utxo_outpoint (ex_utxo a) = Inr key" ..
  moreover have "amountInConnects (JBig a) = Inr a" using assms by simp
  ultimately show ?thesis by (simp add: add_coin_def start_state_def)
qed

lemma ex_weights [simp]:
  "estimateWeight (ex_job s) (Suc 0) False = Inr 436" "estimateWeight (ex_job s) (Suc 0) True = Inr 600"
  by (simp_all add: estimateWeight_def compactSize_def MAX_TX_BYTES_def ex_job_def)

text \<open>The plan with change, the plan whose fee is deducted from an exact coin, and a plan without
  enough money.\<close>

lemma ex_plan_added:
  "\<exists>r. paymentPlan ex_env (ex_options 50000000000 False) = Inr r \<and> p_change r = 39999775000 \<and> p_fee r = 225000"
proof -
  have m: "(50000000000 :: int) \<le> MAX_MONEY" by (simp add: MAX_MONEY_def COIN_def)
  from ex_add_coin [of 50000000000] m obtain key where a: "add_coin (ex_utxo 50000000000) 50000000000 start_state
      = Inr \<lparr>l_selected = [ex_utxo 50000000000], l_seen = [key],
     l_inputs = [placeholder_input (ex_utxo 50000000000)], l_inputTotal = 50000000000\<rparr>" by auto
  have j: "j_rate (ex_job False) = 1500" "j_requested (ex_job False) = 10000000000" "\<not> j_subtract (ex_job False)"
    "j_changeDust (ex_job False) = 297" by (simp_all add: ex_job_def)
  show ?thesis
    unfolding paymentPlan_def using ex_payment_job [of 50000000000 False] m
    by (simp add: a too_heavy_def choose_added_def estimateVsize_def Let_def MAX_PAYMENT_WEIGHT_def j COIN_def)
qed

lemma ex_plan_subtract:
  "\<exists>r. paymentPlan ex_env (ex_options 10000000000 True) = Inr r \<and> p_change r = 0 \<and> p_total r = 9999836500"
proof -
  have m: "(10000000000 :: int) \<le> MAX_MONEY" by (simp add: MAX_MONEY_def COIN_def)
  from ex_add_coin [of 10000000000] m obtain key where a: "add_coin (ex_utxo 10000000000) 10000000000 start_state
      = Inr \<lparr>l_selected = [ex_utxo 10000000000], l_seen = [key],
     l_inputs = [placeholder_input (ex_utxo 10000000000)], l_inputTotal = 10000000000\<rparr>" by auto
  have j: "j_rate (ex_job True) = 1500" "j_requested (ex_job True) = 10000000000" "j_subtract (ex_job True)"
    "j_changeDust (ex_job True) = 297" "j_recipientDust (ex_job True) = Inr 297" by (simp_all add: ex_job_def)
  show ?thesis
    unfolding paymentPlan_def using ex_payment_job [of 10000000000 True] m
    by (simp add: a too_heavy_def choose_subtract_def estimateVsize_def Let_def MAX_PAYMENT_WEIGHT_def j COIN_def)
qed

lemma ex_plan_poor: "paymentPlan ex_env (ex_options 9999999999 False) = Inl (Pay InsufficientFunds)"
proof -
  have m: "(9999999999 :: int) \<le> MAX_MONEY" by (simp add: MAX_MONEY_def COIN_def)
  from ex_add_coin [of 9999999999] m obtain key where a: "add_coin (ex_utxo 9999999999) 9999999999 start_state
      = Inr \<lparr>l_selected = [ex_utxo 9999999999], l_seen = [key],
     l_inputs = [placeholder_input (ex_utxo 9999999999)], l_inputTotal = 9999999999\<rparr>" by auto
  have j: "j_rate (ex_job False) = 1500" "j_requested (ex_job False) = 10000000000" "\<not> j_subtract (ex_job False)"
    "j_changeDust (ex_job False) = 297" by (simp_all add: ex_job_def)
  show ?thesis
    unfolding paymentPlan_def using ex_payment_job [of 9999999999 False] m
    by (simp add: a too_heavy_def choose_added_def estimateVsize_def Let_def MAX_PAYMENT_WEIGHT_def j)
qed

section \<open>The properties\<close>

lemma coins_prefix:
  assumes "payment_job e p = Inr (mf, j, pre @ rest)"
  shows "mset (map fst pre) \<subseteq># mset (o_utxos p)"
    and "list_all (\<lambda>(u, a). amountInConnects (u_amount u) = Inr a) pre"
proof -
  from assms obtain cs where cs: "coin_amounts (o_utxos p) = Inr cs"
      "pre @ rest = js_sort (coin_cmp (o_subtract p) (j_requested j)) cs"
    by (rule payment_job_Inr) (rule that; assumption)
  then have m: "mset (pre @ rest) = mset cs" and f: "map fst cs = o_utxos p"
      "list_all (\<lambda>(u, a). amountInConnects (u_amount u) = Inr a) cs"
    by (simp_all only: mset_js_sort coin_amounts_iff)
  have "image_mset fst (mset pre) + image_mset fst (mset rest) = image_mset fst (mset cs)"
    using m by (simp flip: image_mset_union)
  then have "image_mset fst (mset pre) \<subseteq># image_mset fst (mset cs)" by (metis mset_subset_eq_add_left)
  moreover have "mset (o_utxos p) = image_mset fst (mset cs)" by (simp flip: f(1))
  ultimately show "mset (map fst pre) \<subseteq># mset (o_utxos p)" by simp
  have "set pre \<subseteq> set cs" using m by (metis Un_upper1 set_append set_mset_mset)
  with f(2) show "list_all (\<lambda>(u, a). amountInConnects (u_amount u) = Inr a) pre"
    by (auto simp: list_all_iff)
qed

text \<open>
  Property C2: a payment plan conserves money. What the selected coins are worth is what the plan
  pays out plus its fee: the input total is the sum of the selected amounts, it equals total plus
  change plus fee, and the outputs of the transaction pay exactly total plus change.
\<close>

theorem plan_conserves_money:
  assumes "paymentPlan e p = Inr r"
  shows "p_inputTotal r = p_total r + p_change r + p_fee r
     \<and> sum_list (map output_value (outputs (p_tx r))) = p_total r + p_change r
     \<and> (\<exists>amounts. list_all2 (\<lambda>u a. amountInConnects (u_amount u) = Inr a) (p_selected r) amounts
          \<and> p_inputTotal r = sum_list amounts)"
proof -
  from assms obtain mf j coins pre rest and c :: choice where
    job: "payment_job e p = Inr (mf, j, coins)" and coins: "coins = pre @ rest"
    and sel: "p_selected r = map fst pre" and T: "p_inputTotal r = sum_list (map snd pre)"
    and bal: "p_inputTotal r = p_total r + p_change r + p_fee r"
    by (rule plan_choice) (rule that; assumption)
  have "list_all2 (\<lambda>u a. amountInConnects (u_amount u) = Inr a) (map fst pre) (map snd pre)"
    using coins_prefix(2) [OF job [unfolded coins]]
    by (simp add: list_all2_map1 list_all2_map2 list_all2_same list_all_iff case_prod_beta)
  with bal T sel plan_outputs(1) [OF assms job] show ?thesis by auto
qed

theorem plan_conserves_money_witness:
  "\<exists>r. paymentPlan ex_env (ex_options 50000000000 False) = Inr r
     \<and> p_inputTotal r = p_total r + 39999775000 + 225000"
proof -
  obtain r where r: "paymentPlan ex_env (ex_options 50000000000 False) = Inr r" "p_change r = 39999775000"
      "p_fee r = 225000" using ex_plan_added by blast
  from plan_conserves_money [OF r(1)] r show ?thesis by auto
qed

text \<open>
  Property C3: the fee estimate is exact. However the inputs are signed with 64-byte signatures, the
  virtual size of the planned transaction is the size that its fee was computed from, and its weight is
  within the standard limit; so the checks of \<open>buildPayment\<close> after signing never fail.
\<close>

theorem plan_size_exact:
  assumes "paymentPlan e p = Inr r" and "length sigs = length (p_selected r)"
    and "list_all (\<lambda>g. length g = 64) sigs"
  shows "transactionVsize (e_curve e) (signed_tx (p_tx r) sigs) = Inr (p_vsize r)
     \<and> (\<exists>base full. serializeTransaction (e_curve e) (signed_tx (p_tx r) sigs) False = Inr base
          \<and> serializeTransaction (e_curve e) (signed_tx (p_tx r) sigs) True = Inr full
          \<and> length base * 3 + length full \<le> MAX_PAYMENT_WEIGHT)"
  using assms by (rule plan_frames) (simp add: transactionVsize_def)

theorem plan_size_exact_witness:
  "\<exists>r. paymentPlan ex_env (ex_options 50000000000 False) = Inr r
     \<and> transactionVsize (\<lambda>_. True) (signed_tx (p_tx r) (replicate (length (p_selected r)) (replicate 64 0)))
        = Inr (p_vsize r)"
proof -
  obtain r where r: "paymentPlan ex_env (ex_options 50000000000 False) = Inr r" using ex_plan_added by blast
  from plan_size_exact [OF r, of "replicate (length (p_selected r)) (replicate 64 0)"] r show ?thesis
    by (simp add: ex_env_def)
qed

text \<open>
  Property C5: the fee pays for the size at the requested rate and stays within the caller's limit.
  It is exactly rate times size when there is change or when fees are deducted; without change it
  exceeds that by less than what a change output would have cost.
\<close>

theorem plan_fee_bounds:
  assumes "paymentPlan e p = Inr r"
  shows "o_feeRate p * int (p_vsize r) \<le> p_fee r
     \<and> (\<exists>limit. amountInConnects (o_maxFee p) = Inr limit \<and> p_fee r \<le> limit)
     \<and> (0 < p_change r \<or> o_subtract p \<longrightarrow> p_fee r = o_feeRate p * int (p_vsize r))
     \<and> (p_change r = 0 \<longrightarrow> p_fee r < o_feeRate p * int (p_vsize r + 42) + 297)"
proof -
  from assms obtain mf j coins pre rest and c :: choice where
    job: "payment_job e p = Inr (mf, j, coins)" and T: "p_inputTotal r = sum_list (map snd pre)"
    and "p_selected r = map fst pre" and "outputs (p_tx r) = c_outputs c"
    and vs: "estimateVsize j (length pre) (p_change r > 0) = Inr (p_vsize r)"
    and mf: "p_fee r \<le> mf" and ge: "j_rate j * int (p_vsize r) \<le> p_fee r"
    and eq: "p_change r > 0 \<or> j_subtract j \<longrightarrow> p_fee r = j_rate j * int (p_vsize r)"
    and lost: "\<not> j_subtract j \<longrightarrow> p_change r = 0 \<longrightarrow>
           (\<exists>ws. estimateVsize j (length pre) True = Inr ws \<and> p_fee r < j_rate j * int ws + 297)"
    by (rule plan_choice) (rule that; assumption)
  from job have rate: "checkedFeeRate (o_feeRate p) = Inr (j_rate j)" and lim: "amountInConnects (o_maxFee p) = Inr mf"
    and sub: "j_subtract j = o_subtract p"
    and rec: "mapE (recipientOutput e (o_network p)) (o_outputs p) = Inr (j_recipients j)"
    and n: "length (o_outputs p) \<le> 100" and cb: "j_changeBytes j = 41"
    by (rule payment_job_Inr; simp)+
  have r: "j_rate j = o_feeRate p" "0 < j_rate j" using rate by (auto simp: checkedFeeRate_def split: if_splits)
  have "p_fee r < j_rate j * int (p_vsize r + 42) + 297" if z: "p_change r = 0"
  proof (cases "j_subtract j")
    case True
    with eq r show ?thesis by (simp add: algebra_simps)
  next
    case False
    with lost z obtain ws where ws: "estimateVsize j (length pre) True = Inr ws" "p_fee r < j_rate j * int ws + 297"
      by blast
    have "length (j_recipients j) \<le> 100" using recipients_ok(2) [OF rec] n by simp
    with vs ws(1) z cb have "ws \<le> p_vsize r + 42"
      by (auto simp: estimateVsize_def estimateWeight_def Let_def compactSize_def MAX_TX_BYTES_def split: if_splits)
    with r have "j_rate j * int ws \<le> j_rate j * int (p_vsize r + 42)" by (intro mult_left_mono) simp_all
    with ws(2) show ?thesis by simp
  qed
  with ge mf eq lim r sub show ?thesis by auto
qed

theorem plan_fee_bounds_witness:
  "\<exists>r. paymentPlan ex_env (ex_options 50000000000 False) = Inr r \<and> p_fee r = 1500 * int (p_vsize r)"
proof -
  obtain r where r: "paymentPlan ex_env (ex_options 50000000000 False) = Inr r" "p_change r = 39999775000"
    using ex_plan_added by blast
  from plan_fee_bounds [OF r(1)] r show ?thesis by (auto simp: ex_options_def DEFAULT_FEE_RATE_def)
qed

text \<open>
  Property C7: what a plan spends. The selected coins are among the offered ones (none twice), their
  outpoints are distinct, and the inputs of the transaction are these coins in order.
\<close>

theorem plan_spends_offered_coins:
  assumes "paymentPlan e p = Inr r"
  shows "mset (p_selected r) \<subseteq># mset (o_utxos p) \<and> p_selected r \<noteq> []
     \<and> inputs (p_tx r) = map placeholder_input (p_selected r)
     \<and> (\<exists>keys. mapE utxo_outpoint (p_selected r) = Inr keys \<and> distinct keys)"
proof -
  from assms obtain mf j coins pre rest and c :: choice where
    job: "payment_job e p = Inr (mf, j, coins)" and coins: "coins = pre @ rest"
    and sel: "p_selected r = map fst pre" and ins: "inputs (p_tx r) = map placeholder_input (map fst pre)"
    and T: "p_inputTotal r = sum_list (map snd pre)" and "outputs (p_tx r) = c_outputs c" and ne: "pre \<noteq> []"
    and keys: "\<exists>keys. mapE utxo_outpoint (map fst pre) = Inr keys \<and> distinct keys"
    by (rule plan_choice) (rule that; assumption)
  from coins_prefix(1) [OF job [unfolded coins]] sel ins ne keys show ?thesis by simp
qed

theorem plan_spends_offered_coins_witness:
  "\<exists>r. paymentPlan ex_env (ex_options 50000000000 False) = Inr r \<and> set (p_selected r) = {ex_utxo 50000000000}"
proof -
  obtain r where r: "paymentPlan ex_env (ex_options 50000000000 False) = Inr r" using ex_plan_added by blast
  from plan_spends_offered_coins [OF r] have "mset (p_selected r) \<subseteq># {#ex_utxo 50000000000#}" "p_selected r \<noteq> []"
    by (simp_all add: ex_options_def)
  then have "set (p_selected r) \<subseteq> {ex_utxo 50000000000}" by (metis set_mset_mono set_mset_mset set_mset_single)
  with r \<open>p_selected r \<noteq> []\<close> show ?thesis by (cases "p_selected r") auto
qed

text \<open>
  Property C6: who is paid. Without fee deduction the outputs are the requested recipients unchanged,
  then the change, to the wallet's change key, of at least the dust threshold if there is any. With
  deduction the only recipient gets the requested amount less the fee and less a top-up below 297 that
  keeps the change spendable, and never less than its own dust threshold.
\<close>

theorem plan_pays_recipients:
  assumes "paymentPlan e p = Inr r"
  shows "\<exists>recipients key. mapE (recipientOutput e (o_network p)) (o_outputs p) = Inr recipients
     \<and> decodeAddress (e_lib e) (e_curve e) (o_change p) (o_network p) = Inr key
     \<and> (p_change r = 0 \<or> 297 \<le> p_change r)
     \<and> (\<exists>paid. outputs (p_tx r) = paid @ (if p_change r > 0
            then [P2PK (dec_str (nat (p_change r))) (hex_of_bytes key)] else [])
        \<and> (if o_subtract p
           then \<exists>out d. recipients = [out] \<and> paid = [set_amount out (p_total r)]
                \<and> dustThreshold (e_curve e) out = Inr d \<and> d \<le> p_total r
                \<and> p_total r \<le> p_requested r - p_fee r \<and> p_requested r - p_fee r < p_total r + 297
           else paid = recipients \<and> p_total r = p_requested r))"
proof -
  from assms obtain mf j coins pre rest and c :: choice where
    job: "payment_job e p = Inr (mf, j, coins)" and T: "p_inputTotal r = sum_list (map snd pre)"
    and outs: "outputs (p_tx r) = c_outputs c" and ch: "p_change r = 0 \<or> 297 \<le> p_change r"
    and "p_selected r = map fst pre"
    and sub: "j_subtract j \<longrightarrow> 0 < p_total r \<and> (\<exists>d. j_recipientDust j = Inr d \<and> d \<le> p_total r)
           \<and> p_total r \<le> j_requested j - p_fee r \<and> j_requested j - p_fee r - p_total r < 297
           \<and> c_outputs c = set_amount (hd (j_recipients j)) (p_total r)
                # (if p_change r > 0 then [change_output j (p_change r)] else [])"
    and add: "\<not> j_subtract j \<longrightarrow> p_total r = j_requested j
           \<and> c_outputs c = j_recipients j @ (if p_change r > 0 then [change_output j (p_change r)] else [])"
    and req: "p_requested r = j_requested j"
    by (rule plan_choice) (rule that; assumption)
  from job obtain key where rec: "mapE (recipientOutput e (o_network p)) (o_outputs p) = Inr (j_recipients j)"
    and key: "decodeAddress (e_lib e) (e_curve e) (o_change p) (o_network p) = Inr key"
      "j_changeKey j = hex_of_bytes key"
    and sj: "j_subtract j = o_subtract p" and one: "o_subtract p \<longrightarrow> length (o_outputs p) = 1"
    and rd: "j_recipientDust j = dustThreshold (e_curve e) (hd (j_recipients j))"
    by (rule payment_job_Inr) (rule that; assumption)
  have cho: "change_output j n = P2PK (dec_str (nat n)) (hex_of_bytes key)" for n
    by (simp add: change_output_def key)
  show ?thesis
  proof (cases "o_subtract p")
    case True
    with one recipients_ok(2) [OF rec] obtain out where out: "j_recipients j = [out]"
      by (cases "j_recipients j") auto
    with True sub sj rd obtain d where "dustThreshold (e_curve e) out = Inr d" "d \<le> p_total r" by auto
    with True sub sj out req outs ch rec key cho show ?thesis
      by (intro exI [of _ "j_recipients j"] exI [of _ key] conjI exI [of _ "[set_amount out (p_total r)]"]) auto
  next
    case False
    with add sj req outs ch rec key cho show ?thesis
      by (intro exI [of _ "j_recipients j"] exI [of _ key] conjI exI [of _ "j_recipients j"]) auto
  qed
qed

theorem plan_pays_recipients_witness:
  "\<exists>r paid. paymentPlan ex_env (ex_options 10000000000 True) = Inr r \<and> outputs (p_tx r) = paid
     \<and> length paid = 1"
proof -
  obtain r where r: "paymentPlan ex_env (ex_options 10000000000 True) = Inr r" "p_change r = 0"
    using ex_plan_subtract by blast
  from plan_pays_recipients [OF r(1)] r show ?thesis by (auto simp: ex_options_def)
qed

text \<open>Where the error for lack of funds can come from.\<close>

definition funded :: "'a res \<Rightarrow> bool" where
  "funded m \<longleftrightarrow> m \<noteq> Inl (Pay InsufficientFunds)"

lemma funded_simps [simp]: "funded (Inr x)" "funded (Inl e) \<longleftrightarrow> e \<noteq> Pay InsufficientFunds"
  by (simp_all add: funded_def)

lemma funded_bind: "funded m \<Longrightarrow> (\<And>x. m = Inr x \<Longrightarrow> funded (f x)) \<Longrightarrow> funded (bindE m f)"
  by (cases m) auto

lemma funded_if: "funded m \<Longrightarrow> funded m' \<Longrightarrow> funded (if c then m else m')"
  by simp

lemma funded_prims:
  "funded (hexBytes sz s)" "funded (u32 v)" "funded (amountInConnects a)" "funded (compactSize n)"
  by (auto simp: hexBytes_def u32_def amountInConnects_def compactSize_def split: js_arg.splits option.splits)

lemma funded_weight: "funded (estimateWeight j n w)" "funded (estimateVsize j n w)" "funded (too_heavy j n w)"
  unfolding estimateVsize_def too_heavy_def estimateWeight_def Let_def
  by (intro funded_bind funded_if funded_prims; simp)+

lemma funded_add_coin: "funded (add_coin u a s)"
  unfolding add_coin_def utxo_outpoint_def outpoint_def
  by (intro funded_bind funded_if funded_prims; simp)

lemma funded_chooser:
  assumes "j_recipientDust j = Inr d"
  shows "funded (chooser j n T)"
  unfolding chooser_def choose_subtract_def choose_added_def Let_def assms
  by (intro funded_bind funded_if funded_prims funded_weight; simp)

lemma funded_select:
  "j_recipientDust j = Inr d \<Longrightarrow> funded (select_coins j coins s)"
proof (induction j coins s rule: select_coins.induct)
  case (2 j u a rest s)
  show ?case unfolding select_coins.simps chooser_def [symmetric]
  proof (intro funded_bind funded_add_coin funded_weight funded_chooser [OF 2(2)])
    fix s1 x c
    assume "add_coin u a s = Inr s1" "too_heavy j (length (l_inputs s1)) False = Inr x"
      "chooser j (length (l_inputs s1)) (l_inputTotal s1) = Inr c"
    with 2(1) [OF this(1,2) _ _ 2(2), of c] show "funded (case c of None \<Rightarrow> select_coins j rest s1 | Some _ \<Rightarrow> Inr (s1, c))"
      by (cases c) (auto simp: chooser_def)
  qed
qed simp

text \<open>
  Property C8: a plan is refused for lack of funds only when funds lack. If \<open>paymentPlan\<close> reports
  insufficient funds, then all offered coins together are worth less than the requested amount plus
  the fee of spending them all without change (less than the requested amount alone when the fee is
  deducted from it).
\<close>

theorem insufficient_means_insufficient:
  assumes "paymentPlan e p = Inl (Pay InsufficientFunds)" and "payment_job e p = Inr (mf, j, coins)"
  shows "\<exists>amounts. list_all2 (\<lambda>u a. amountInConnects (u_amount u) = Inr a) (o_utxos p) amounts
     \<and> (if o_subtract p then sum_list amounts < j_requested j
        else \<exists>vs. estimateVsize j (length (o_utxos p)) False = Inr vs
             \<and> sum_list amounts < j_requested j + o_feeRate p * int vs)"
proof -
  from assms(2) obtain cs where
    rate: "checkedFeeRate (o_feeRate p) = Inr (j_rate j)" and ne: "o_utxos p \<noteq> []"
    and sj: "j_subtract j = o_subtract p"
    and cs: "coin_amounts (o_utxos p) = Inr cs" "coins = js_sort (coin_cmp (o_subtract p) (j_requested j)) cs"
    by (rule payment_job_Inr) (rule that; assumption)
  from assms(2) have rec: "mapE (recipientOutput e (o_network p)) (o_outputs p) = Inr (j_recipients j)"
    and on: "o_outputs p \<noteq> []" and rd: "j_recipientDust j = dustThreshold (e_curve e) (hd (j_recipients j))"
    by (rule payment_job_Inr; simp)+
  obtain d where d: "j_recipientDust j = Inr d"
    using recipients_ok(2,3) [OF rec] on rd by (cases "j_recipients j") auto
  obtain s where sel: "select_coins j coins start_state = Inr (s, None)"
  proof (cases "select_coins j coins start_state")
    case (Inl x)
    with assms funded_select [OF d, of coins start_state] show thesis by (simp add: paymentPlan_def)
  next
    case (Inr y)
    obtain s b where y: "y = (s, b)" by (cases y)
    show thesis
    proof (cases b)
      case (Some c)
      with assms Inr y funded_weight(2) [of j "length (l_inputs s)" "c_change c > 0"] show thesis
        by (auto simp: paymentPlan_def bindE_eq_Inl funded_def split: if_splits)
    qed (use that Inr y in simp)
  qed
  have mc: "mset coins = mset cs" using cs by simp
  have "map fst cs = o_utxos p" using cs by (simp add: coin_amounts_iff)
  then have len: "length coins = length (o_utxos p)" "coins \<noteq> []"
    using mc ne by (metis length_map size_mset) (metis mc ne list.map(1) mset_zero_iff \<open>map fst cs = o_utxos p\<close>)
  note n = select_coins_None [OF sel loop_inv_start len(2)]
  have li: "length (l_inputs s) = length (o_utxos p)" and T: "l_inputTotal s = sum_list (map snd cs)"
    using n(1-3) len(1) mc by (simp_all add: loop_inv_def start_state_def flip: sum_mset_sum_list)
  have r: "j_rate j = o_feeRate p" using rate by (auto simp: checkedFeeRate_def split: if_splits)
  have ok: "list_all (\<lambda>(u, a). amountInConnects (u_amount u) = Inr a) cs"
    using cs(1) by (simp add: coin_amounts_iff)
  have "list_all2 (\<lambda>u a. amountInConnects (u_amount u) = Inr a) (map fst cs) (map snd cs)"
    using ok by (auto simp: list_all2_map1 list_all2_map2 list_all2_same list_all_iff)
  then have "list_all2 (\<lambda>u a. amountInConnects (u_amount u) = Inr a) (o_utxos p) (map snd cs)"
    by (simp only: \<open>map fst cs = o_utxos p\<close>)
  moreover have "if o_subtract p then sum_list (map snd cs) < j_requested j
        else \<exists>vs. estimateVsize j (length (o_utxos p)) False = Inr vs
             \<and> sum_list (map snd cs) < j_requested j + o_feeRate p * int vs"
    using n(4) unfolding chooser_def choose_subtract_def choose_added_def Let_def li T r sj
    by (auto simp: not_less not_le split: if_splits)
  ultimately show ?thesis by blast
qed

theorem insufficient_means_insufficient_witness:
  "\<exists>amounts. list_all2 (\<lambda>u a. amountInConnects (u_amount u) = Inr a) [ex_utxo 9999999999] amounts
     \<and> (\<exists>vs. estimateVsize (ex_job False) 1 False = Inr vs \<and> sum_list amounts < 10000000000 + 1500 * int vs)"
proof -
  have "payment_job ex_env (ex_options 9999999999 False) = Inr (COIN, ex_job False, [(ex_utxo 9999999999, 9999999999)])"
    by (rule ex_payment_job) (simp_all add: MAX_MONEY_def COIN_def)
  moreover have "j_requested (ex_job False) = 10000000000" by (simp add: ex_job_def)
  ultimately show ?thesis
    using insufficient_means_insufficient [OF ex_plan_poor, of COIN "ex_job False" "[(ex_utxo 9999999999, 9999999999)]"]
    by (simp add: ex_options_def DEFAULT_FEE_RATE_def)
qed

end
