(* ===== verification/Js_Map.thy ===== *)
theory Js_Map
  imports Main
begin

text \<open>
  The JavaScript \<open>Map\<close>: an association list in insertion order without repeated keys. \<open>set\<close> on a
  present key keeps its place, \<open>set\<close> after \<open>delete\<close> moves it to the end, and iteration runs in the
  order of the list; the caches and queues of the wallet rely on that order. The locale \<open>js_map\<close> is
  the contract the components use, and the association list interprets it.
\<close>

type_synonym ('k, 'v) jmap = "('k \<times> 'v) list"

abbreviation jget :: "('k, 'v) jmap \<Rightarrow> 'k \<Rightarrow> 'v option" where
  "jget m k \<equiv> map_of m k"

fun jset :: "('k, 'v) jmap \<Rightarrow> 'k \<Rightarrow> 'v \<Rightarrow> ('k, 'v) jmap" where
  "jset [] k v = [(k, v)]"
| "jset ((k', v') # m) k v = (if k' = k then (k, v) # m else (k', v') # jset m k v)"

definition jdelete :: "('k, 'v) jmap \<Rightarrow> 'k \<Rightarrow> ('k, 'v) jmap" where
  "jdelete m k = filter (\<lambda>e. fst e \<noteq> k) m"

definition jhas :: "('k, 'v) jmap \<Rightarrow> 'k \<Rightarrow> bool" where
  "jhas m k \<longleftrightarrow> map_of m k \<noteq> None"

abbreviation jkeys :: "('k, 'v) jmap \<Rightarrow> 'k list" where
  "jkeys m \<equiv> map fst m"

definition wf_jmap :: "('k, 'v) jmap \<Rightarrow> bool" where
  "wf_jmap m \<longleftrightarrow> distinct (map fst m)"

section \<open>Laws\<close>

lemma jget_jset [simp]: "jget (jset m k v) k' = (if k' = k then Some v else jget m k')"
  by (induction m) auto

lemma jget_jdelete [simp]: "jget (jdelete m k) k' = (if k' = k then None else jget m k')"
  by (induction m) (auto simp: jdelete_def)

lemma jkeys_jset: "jkeys (jset m k v) = (if k \<in> set (jkeys m) then jkeys m else jkeys m @ [k])"
  by (induction m) force+

lemma jkeys_jdelete: "jkeys (jdelete m k) = filter (\<lambda>x. x \<noteq> k) (jkeys m)"
  by (induction m) (auto simp: jdelete_def)

lemma wf_jmap_Nil [simp]: "wf_jmap []"
  by (simp add: wf_jmap_def)

lemma wf_jmap_Cons [simp]: "wf_jmap (e # m) \<longleftrightarrow> fst e \<notin> set (jkeys m) \<and> wf_jmap m"
  by (simp add: wf_jmap_def)

lemma wf_jset [simp]: "wf_jmap m \<Longrightarrow> wf_jmap (jset m k v)"
  by (simp add: wf_jmap_def jkeys_jset)

lemma wf_jdelete [simp]: "wf_jmap m \<Longrightarrow> wf_jmap (jdelete m k)"
  by (simp add: wf_jmap_def jkeys_jdelete)

lemma wf_jmap_filter [simp]: "wf_jmap m \<Longrightarrow> wf_jmap (filter P m)"
  by (induction m) auto

lemma jset_fresh: "k \<notin> set (jkeys m) \<Longrightarrow> jset m k v = m @ [(k, v)]"
  by (induction m) auto

lemma jdelete_fresh: "k \<notin> set (jkeys m) \<Longrightarrow> jdelete m k = m"
  by (auto simp: jdelete_def intro!: filter_True)

lemma not_in_jkeys_iff: "k \<notin> set (jkeys m) \<longleftrightarrow> jget m k = None"
  by (simp add: map_of_eq_None_iff)

lemma jdelete_notin [simp]: "k \<notin> fst ` set (jdelete m k)"
  by (auto simp: jdelete_def)

lemma jset_jdelete: "jset (jdelete m k) k v = jdelete m k @ [(k, v)]"
  by (rule jset_fresh) simp

lemma length_jset: "length (jset m k v) = (if jhas m k then length m else Suc (length m))"
  by (induction m) (auto simp: jhas_def)

lemma length_jdelete_le: "length (jdelete m k) \<le> length m"
  by (simp add: jdelete_def)

lemma length_jdelete:
  "wf_jmap m \<Longrightarrow> jhas m k \<Longrightarrow> Suc (length (jdelete m k)) = length m"
proof (induction m)
  case (Cons e m)
  show ?case
  proof (cases "fst e = k")
    case True
    with Cons.prems have "jdelete m k = m" by (auto intro: jdelete_fresh)
    with True show ?thesis by (simp add: jdelete_def)
  next
    case False
    with Cons show ?thesis by (cases e) (auto simp: jdelete_def jhas_def)
  qed
qed (simp add: jhas_def)

lemma set_jset_subset: "set (jset m k v) \<subseteq> insert (k, v) (set m)"
  by (induction m) (auto split: if_splits)

lemma set_jdelete_subset: "set (jdelete m k) \<subseteq> set m"
  by (auto simp: jdelete_def)

lemma ball_jset: "\<forall>x\<in>set m. P x \<Longrightarrow> P (k, v) \<Longrightarrow> \<forall>x\<in>set (jset m k v). P x"
  using set_jset_subset [of m k v] by blast

lemma ball_jdelete: "\<forall>x\<in>set m. P x \<Longrightarrow> \<forall>x\<in>set (jdelete m k). P x"
  using set_jdelete_subset [of m k] by blast

lemma jget_in_set: "jget m k = Some v \<Longrightarrow> (k, v) \<in> set m"
  by (rule map_of_SomeD)

lemma jget_of_mem: "wf_jmap m \<Longrightarrow> (k, v) \<in> set m \<Longrightarrow> jget m k = Some v"
  by (simp add: wf_jmap_def)

text \<open>The sum of a charge over the entries, as the caches keep it.\<close>

definition jsum :: "('v \<Rightarrow> int) \<Rightarrow> ('k, 'v) jmap \<Rightarrow> int" where
  "jsum f m = sum_list (map (\<lambda>e. f (snd e)) m)"

lemma jsum_simps [simp]:
  "jsum f [] = 0"
  "jsum f (e # m) = f (snd e) + jsum f m"
  "jsum f (m @ m') = jsum f m + jsum f m'"
  by (simp_all add: jsum_def)

lemma jsum_jdelete:
  "wf_jmap m \<Longrightarrow> jget m k = Some v \<Longrightarrow> jsum f (jdelete m k) = jsum f m - f v"
proof (induction m)
  case (Cons e m)
  show ?case
  proof (cases "fst e = k")
    case True
    with Cons.prems have "jdelete m k = m" by (auto intro: jdelete_fresh)
    with True Cons.prems show ?thesis by (cases e) (simp add: jdelete_def)
  next
    case False
    with Cons show ?thesis by (cases e) (auto simp: jdelete_def)
  qed
qed simp

lemma jsum_nonneg: "(\<And>k v. (k, v) \<in> set m \<Longrightarrow> 0 \<le> f v) \<Longrightarrow> 0 \<le> jsum f m"
  unfolding jsum_def by (rule sum_list_nonneg) auto

section \<open>The contract of a map\<close>

locale js_map =
  fixes ok :: "'m \<Rightarrow> bool"
    and lookup :: "'m \<Rightarrow> 'k \<Rightarrow> 'v option"
    and update :: "'m \<Rightarrow> 'k \<Rightarrow> 'v \<Rightarrow> 'm"
    and remove :: "'m \<Rightarrow> 'k \<Rightarrow> 'm"
    and order :: "'m \<Rightarrow> 'k list"
  assumes lookup_update: "lookup (update m k v) k' = (if k' = k then Some v else lookup m k')"
    and lookup_remove: "lookup (remove m k) k' = (if k' = k then None else lookup m k')"
    and ok_update: "ok m \<Longrightarrow> ok (update m k v)"
    and ok_remove: "ok m \<Longrightarrow> ok (remove m k)"
    and order_distinct: "ok m \<Longrightarrow> distinct (order m)"
    and order_keys: "k \<in> set (order m) \<longleftrightarrow> lookup m k \<noteq> None"
    and order_remove: "order (remove m k) = filter (\<lambda>x. x \<noteq> k) (order m)"
    and order_update: "order (update m k v) = (if lookup m k = None then order m @ [k] else order m)"
begin

text \<open>Reading an entry of a cache with \<open>delete\<close> and \<open>set\<close> makes it the youngest and changes nothing else.\<close>

definition touch :: "'m \<Rightarrow> 'k \<Rightarrow> 'v \<Rightarrow> 'm" where
  "touch m k v = update (remove m k) k v"

lemma lookup_touch: "lookup m k = Some v \<Longrightarrow> lookup (touch m k v) k' = lookup m k'"
  by (simp add: touch_def lookup_update lookup_remove)

lemma order_touch: "order (touch m k v) = filter (\<lambda>x. x \<noteq> k) (order m) @ [k]"
  by (simp add: touch_def order_update order_remove lookup_remove)

lemma ok_touch: "ok m \<Longrightarrow> ok (touch m k v)"
  by (simp add: touch_def ok_update ok_remove)

end

interpretation jmap: js_map wf_jmap jget jset jdelete jkeys
proof
  fix m :: "('k, 'v) jmap" and k k' :: 'k and v :: 'v
  show "wf_jmap m \<Longrightarrow> distinct (jkeys m)" by (simp add: wf_jmap_def)
  show "k \<in> set (jkeys m) \<longleftrightarrow> jget m k \<noteq> None" by (simp add: map_of_eq_None_iff)
  show "jkeys (jset m k v) = (if jget m k = None then jkeys m @ [k] else jkeys m)"
    by (simp add: jkeys_jset map_of_eq_None_iff)
qed (simp_all add: jkeys_jdelete)

end
