(* ===== verification/Funding_Cache.thy ===== *)
theory Funding_Cache
  imports Wallet_Prelude Js_Map
begin

text \<open>
  The cache of raw funding transactions (\<open>src/src/core/funding-cache.mjs\<close>) and the eviction loop it
  shares with the cache of validated ones in \<open>src/src/core/transaction.mjs\<close>. Both keep a \<open>Map\<close> whose
  order is the order of last use and a counter of retained bytes, and both evict from the front.
  The loop runs while a bound is exceeded; on an empty map it would not end, so a run of it is an
  option and \<open>None\<close> says that it never returns. The locale \<open>lru_store\<close> proves that it always returns.
\<close>

section \<open>Eviction\<close>

fun evict :: "('v \<Rightarrow> int) \<Rightarrow> nat \<Rightarrow> int \<Rightarrow> int \<Rightarrow> ('k, 'v) jmap \<Rightarrow> int \<Rightarrow> (('k, 'v) jmap \<times> int) option" where
  "evict charge maxEntries maxBytes bytes [] held =
     (if 0 \<ge> maxEntries \<or> held + bytes > maxBytes then None else Some ([], held))"
| "evict charge maxEntries maxBytes bytes (e # m) held =
     (if length (e # m) \<ge> maxEntries \<or> held + bytes > maxBytes
      then evict charge maxEntries maxBytes bytes m (held - charge (snd e))
      else Some (e # m, held))"

text \<open>The contract of a store: each entry has a positive charge, determined when it is stored.\<close>

locale lru_store =
  fixes charge :: "'v \<Rightarrow> int"
    and good :: "'k \<Rightarrow> 'v \<Rightarrow> bool"
  assumes charge_pos: "good k v \<Longrightarrow> 0 < charge v"
begin

definition entries_ok :: "('k, 'v) jmap \<Rightarrow> bool" where
  "entries_ok m \<longleftrightarrow> wf_jmap m \<and> (\<forall>e \<in> set m. good (fst e) (snd e))"

definition store_ok :: "nat \<Rightarrow> int \<Rightarrow> ('k, 'v) jmap \<Rightarrow> int \<Rightarrow> bool" where
  "store_ok maxEntries maxBytes m held \<longleftrightarrow>
     entries_ok m \<and> held = jsum charge m \<and> length m \<le> maxEntries \<and> held \<le> maxBytes"

lemma entries_ok_Cons [simp]:
  "entries_ok (e # m) \<longleftrightarrow> good (fst e) (snd e) \<and> fst e \<notin> fst ` set m \<and> entries_ok m"
  by (auto simp: entries_ok_def)

lemma entries_ok_Nil [simp]: "entries_ok []"
  by (simp add: entries_ok_def)

lemma store_ok_Nil: "0 \<le> maxBytes \<Longrightarrow> store_ok maxEntries maxBytes [] 0"
  by (simp add: store_ok_def)

lemma entries_ok_jdelete: "entries_ok m \<Longrightarrow> entries_ok (jdelete m k)"
  using set_jdelete_subset by (fastforce simp: entries_ok_def)

lemma entries_ok_append:
  "entries_ok m \<Longrightarrow> k \<notin> fst ` set m \<Longrightarrow> good k v \<Longrightarrow> entries_ok (m @ [(k, v)])"
  by (auto simp: entries_ok_def wf_jmap_def)

lemma evict_returns:
  assumes "entries_ok m" and "held = jsum charge m" and "1 \<le> maxEntries" and "bytes \<le> maxBytes"
  shows "\<exists>n. evict charge maxEntries maxBytes bytes m held = Some (drop n m, jsum charge (drop n m))
     \<and> length (drop n m) < maxEntries \<and> jsum charge (drop n m) + bytes \<le> maxBytes"
  using assms
proof (induction m arbitrary: held)
  case (Cons e m)
  show ?case
  proof (cases "length (e # m) \<ge> maxEntries \<or> held + bytes > maxBytes")
    case True
    from Cons.prems have "entries_ok m" and "held - charge (snd e) = jsum charge m" by simp_all
    from Cons.IH [OF this Cons.prems(3,4)] obtain n where
      "evict charge maxEntries maxBytes bytes m (held - charge (snd e)) = Some (drop n m, jsum charge (drop n m))
       \<and> length (drop n m) < maxEntries \<and> jsum charge (drop n m) + bytes \<le> maxBytes" by blast
    then have "evict charge maxEntries maxBytes bytes (e # m) held
          = Some (drop (Suc n) (e # m), jsum charge (drop (Suc n) (e # m)))
       \<and> length (drop (Suc n) (e # m)) < maxEntries \<and> jsum charge (drop (Suc n) (e # m)) + bytes \<le> maxBytes"
      using True by simp
    then show ?thesis by blast
  next
    case False
    then have "evict charge maxEntries maxBytes bytes (e # m) held = Some (drop 0 (e # m), jsum charge (drop 0 (e # m)))
       \<and> length (drop 0 (e # m)) < maxEntries \<and> jsum charge (drop 0 (e # m)) + bytes \<le> maxBytes"
      using Cons.prems by simp
    then show ?thesis by blast
  qed
qed (auto intro: exI [of _ 0])

text \<open>Evicting and appending a new entry keeps the store within its bounds.\<close>

lemma entries_ok_drop: "entries_ok m \<Longrightarrow> entries_ok (drop n m)"
  by (induction m arbitrary: n) (auto simp: drop_Cons split: nat.splits)

lemma evict_then_set:
  assumes "entries_ok m" and "held = jsum charge m" and "1 \<le> maxEntries" and "charge v \<le> maxBytes"
    and "good k v" and "k \<notin> fst ` set m"
  obtains n where "evict charge maxEntries maxBytes (charge v) m held = Some (drop n m, jsum charge (drop n m))"
    and "store_ok maxEntries maxBytes (jset (drop n m) k v) (jsum charge (drop n m) + charge v)"
    and "jset (drop n m) k v = drop n m @ [(k, v)]"
proof -
  from evict_returns [OF assms(1-4)] obtain n where n:
    "evict charge maxEntries maxBytes (charge v) m held = Some (drop n m, jsum charge (drop n m))"
    "length (drop n m) < maxEntries" "jsum charge (drop n m) + charge v \<le> maxBytes" by blast
  have k: "k \<notin> fst ` set (drop n m)" using assms(6) set_drop_subset [of n m] by blast
  then have app: "jset (drop n m) k v = drop n m @ [(k, v)]" by (intro jset_fresh) simp
  have "store_ok maxEntries maxBytes (jset (drop n m) k v) (jsum charge (drop n m) + charge v)"
    unfolding app store_ok_def
    using entries_ok_append [OF entries_ok_drop [OF assms(1)] k assms(5)] n(2,3) by simp
  with n(1) app show thesis using that by blast
qed

lemma store_ok_jdelete:
  assumes "store_ok maxEntries maxBytes m held" and "jget m k = Some v"
  shows "store_ok maxEntries maxBytes (jdelete m k) (held - charge v)"
proof -
  from assms have m: "entries_ok m" "wf_jmap m" "held = jsum charge m" "length m \<le> maxEntries" "held \<le> maxBytes"
    by (simp_all add: store_ok_def entries_ok_def)
  from m(1) jget_in_set [OF assms(2)] have "good k v" by (auto simp: entries_ok_def)
  then have "0 < charge v" by (rule charge_pos)
  with m show ?thesis
    using jsum_jdelete [OF m(2) assms(2), of charge] length_jdelete_le [of m k]
    by (simp add: store_ok_def entries_ok_jdelete)
qed

lemma store_ok_touch:
  assumes "store_ok maxEntries maxBytes m held" and "jget m k = Some v"
  shows "store_ok maxEntries maxBytes (jset (jdelete m k) k v) held"
proof -
  from assms have m: "entries_ok m" "wf_jmap m" "held = jsum charge m" "length m \<le> maxEntries" "held \<le> maxBytes"
    by (simp_all add: store_ok_def entries_ok_def)
  from m(1) jget_in_set [OF assms(2)] have good: "good k v" by (auto simp: entries_ok_def)
  have app: "jset (jdelete m k) k v = jdelete m k @ [(k, v)]" by (rule jset_jdelete)
  have len: "Suc (length (jdelete m k)) = length m"
    by (rule length_jdelete [OF m(2)]) (simp add: jhas_def assms(2))
  show ?thesis unfolding app store_ok_def
    using entries_ok_append [OF entries_ok_jdelete [OF m(1), of k] jdelete_notin good] m len
      jsum_jdelete [OF m(2) assms(2), of charge] by simp
qed

end

section \<open>FundingBytesCache\<close>

record bytes_entry =
  be_raw :: string
  be_bytes :: int

record bytes_cache =
  bc_entries :: "(string, bytes_entry) jmap"
  bc_bytes :: int
  bc_maxEntries :: nat
  bc_maxBytes :: int

definition bytes_cache_new :: "int \<Rightarrow> int \<Rightarrow> bytes_cache res" where
  "bytes_cache_new maxEntries maxBytes =
     (if maxEntries < 1 \<or> maxEntries > 256 \<or> maxBytes < 1 \<or> maxBytes > 16 * 1024 * 1024
      then Inl (Fund BadCacheBounds)
      else Inr \<lparr>bc_entries = [], bc_bytes = 0, bc_maxEntries = nat maxEntries, bc_maxBytes = maxBytes\<rparr>)"

definition bytes_cache_size :: "bytes_cache \<Rightarrow> nat" where
  "bytes_cache_size c = length (bc_entries c)"

definition bytes_cache_has :: "bytes_cache \<Rightarrow> string \<Rightarrow> bool" where
  "bytes_cache_has c key = jhas (bc_entries c) key"

definition bytes_cache_get :: "bytes_cache \<Rightarrow> string \<Rightarrow> string option \<times> bytes_cache" where
  "bytes_cache_get c key = (case jget (bc_entries c) key of
       None \<Rightarrow> (None, c)
     | Some entry \<Rightarrow> (Some (be_raw entry), c\<lparr>bc_entries := jset (jdelete (bc_entries c) key) key entry\<rparr>))"

definition bytes_cache_delete :: "bytes_cache \<Rightarrow> string \<Rightarrow> bool \<times> bytes_cache" where
  "bytes_cache_delete c key = (case jget (bc_entries c) key of
       None \<Rightarrow> (False, c)
     | Some entry \<Rightarrow> (True, c\<lparr>bc_bytes := bc_bytes c - be_bytes entry, bc_entries := jdelete (bc_entries c) key\<rparr>))"

definition bytes_cache_set :: "bytes_cache \<Rightarrow> string \<Rightarrow> string \<Rightarrow> bytes_cache option" where
  "bytes_cache_set c key raw =
     (let bytes = 256 + int (length key + length raw) * 2;
          c = snd (bytes_cache_delete c key)
      in if bytes > bc_maxBytes c then Some c
         else case evict be_bytes (bc_maxEntries c) (bc_maxBytes c) bytes (bc_entries c) (bc_bytes c) of
           None \<Rightarrow> None
         | Some (m, held) \<Rightarrow> Some (c\<lparr>bc_entries := jset m key \<lparr>be_raw = raw, be_bytes = bytes\<rparr>,
                                     bc_bytes := held + bytes\<rparr>))"

definition bytes_cache_clear :: "bytes_cache \<Rightarrow> bytes_cache" where
  "bytes_cache_clear c = c\<lparr>bc_entries := [], bc_bytes := 0\<rparr>"

definition bytes_charge :: "string \<Rightarrow> bytes_entry \<Rightarrow> bool" where
  "bytes_charge key e \<longleftrightarrow> be_bytes e = 256 + int (length key + length (be_raw e)) * 2"

interpretation bytes_store: lru_store be_bytes bytes_charge
  by unfold_locales (simp add: bytes_charge_def)

text \<open>The state of a cache: its bounds are those the constructor accepts and its store respects them.\<close>

definition bytes_cache_ok :: "bytes_cache \<Rightarrow> bool" where
  "bytes_cache_ok c \<longleftrightarrow> 1 \<le> bc_maxEntries c \<and> bc_maxEntries c \<le> 256
     \<and> 1 \<le> bc_maxBytes c \<and> bc_maxBytes c \<le> 16 * 1024 * 1024
     \<and> bytes_store.store_ok (bc_maxEntries c) (bc_maxBytes c) (bc_entries c) (bc_bytes c)"

definition bytes_view :: "bytes_cache \<Rightarrow> string \<Rightarrow> string option" where
  "bytes_view c key = map_option be_raw (jget (bc_entries c) key)"

lemma bytes_cache_new_ok: "bytes_cache_new e b = Inr c \<Longrightarrow> bytes_cache_ok c \<and> bytes_view c = Map.empty"
  by (auto simp: bytes_cache_new_def bytes_cache_ok_def bytes_store.store_ok_Nil bytes_view_def split: if_splits)

lemma bytes_cache_get_ok:
  "bytes_cache_ok c \<Longrightarrow> bytes_cache_get c key = (r, c') \<Longrightarrow> bytes_cache_ok c' \<and> bytes_view c' = bytes_view c \<and> r = bytes_view c key"
  by (auto simp: bytes_cache_get_def bytes_cache_ok_def bytes_view_def bytes_store.store_ok_touch
      split: option.splits)

lemma bytes_cache_delete_ok:
  "bytes_cache_ok c \<Longrightarrow> bytes_cache_delete c key = (r, c') \<Longrightarrow>
     bytes_cache_ok c' \<and> bytes_view c' = (bytes_view c)(key := None) \<and> r = bytes_cache_has c key"
  by (auto simp: bytes_cache_delete_def bytes_cache_ok_def bytes_view_def bytes_cache_has_def jhas_def
      bytes_store.store_ok_jdelete fun_eq_iff split: option.splits)

lemma bytes_cache_clear_ok:
  "bytes_cache_ok c \<Longrightarrow> bytes_cache_ok (bytes_cache_clear c) \<and> bytes_view (bytes_cache_clear c) = Map.empty"
  by (auto simp: bytes_cache_clear_def bytes_cache_ok_def bytes_store.store_ok_Nil bytes_view_def)

lemma jget_drop: "wf_jmap m \<Longrightarrow> jget (drop n m) k = Some v \<Longrightarrow> jget m k = Some v"
  by (metis in_set_dropD jget_of_mem jget_in_set)

text \<open>Storing always returns; the new value is the one a later \<open>get\<close> sees unless it is too large to keep.\<close>

lemma bytes_cache_set_ok:
  assumes ok: "bytes_cache_ok c"
  obtains c' where "bytes_cache_set c key raw = Some c'" and "bytes_cache_ok c'"
    and "bytes_view c' \<subseteq>\<^sub>m (bytes_view c)(key \<mapsto> raw)"
    and "256 + int (length key + length raw) * 2 \<le> bc_maxBytes c \<Longrightarrow> bytes_view c' key = Some raw"
proof -
  define d where "d = snd (bytes_cache_delete c key)"
  have d: "bytes_cache_ok d" "bytes_view d = (bytes_view c)(key := None)"
    using bytes_cache_delete_ok [OF ok, of key] by (metis d_def prod.collapse)+
  define e where "e = \<lparr>be_raw = raw, be_bytes = 256 + int (length key + length raw) * 2\<rparr>"
  have max: "bc_maxBytes d = bc_maxBytes c"
    by (simp add: d_def bytes_cache_delete_def split: option.splits)
  have b: "be_bytes e = 256 + int (length key + length raw) * 2" "be_raw e = raw" by (simp_all add: e_def)
  have set: "bytes_cache_set c key raw = (if be_bytes e > bc_maxBytes d then Some d
      else case evict be_bytes (bc_maxEntries d) (bc_maxBytes d) (be_bytes e) (bc_entries d) (bc_bytes d) of
        None \<Rightarrow> None
      | Some (m, held) \<Rightarrow> Some (d\<lparr>bc_entries := jset m key e, bc_bytes := held + be_bytes e\<rparr>))"
    unfolding bytes_cache_set_def Let_def d_def e_def bytes_entry.simps ..
  show thesis
  proof (cases "be_bytes e > bc_maxBytes d")
    case True
    then have "bytes_cache_set c key raw = Some d" by (simp add: set)
    then show thesis
      by (rule that) (use True max b d in \<open>auto simp: map_le_def\<close>)
  next
    case False
    from d(1) have st: "bytes_store.store_ok (bc_maxEntries d) (bc_maxBytes d) (bc_entries d) (bc_bytes d)"
      and one: "1 \<le> bc_maxEntries d" by (simp_all add: bytes_cache_ok_def)
    from d(2) have none: "jget (bc_entries d) key = None" by (auto simp: bytes_view_def fun_eq_iff split: if_splits)
    obtain n where n:
      "evict be_bytes (bc_maxEntries d) (bc_maxBytes d) (be_bytes e) (bc_entries d) (bc_bytes d)
         = Some (drop n (bc_entries d), jsum be_bytes (drop n (bc_entries d)))"
      "bytes_store.store_ok (bc_maxEntries d) (bc_maxBytes d) (jset (drop n (bc_entries d)) key e)
         (jsum be_bytes (drop n (bc_entries d)) + be_bytes e)"
    proof (rule bytes_store.evict_then_set [of "bc_entries d" "bc_bytes d" "bc_maxEntries d" e "bc_maxBytes d" key])
      show "bytes_charge key e" by (simp add: bytes_charge_def e_def)
      show "key \<notin> fst ` set (bc_entries d)" using none by (simp add: map_of_eq_None_iff)
    qed (use st one False in \<open>auto simp: bytes_store.store_ok_def\<close>)
    define c' where "c' = d\<lparr>bc_entries := jset (drop n (bc_entries d)) key e,
       bc_bytes := jsum be_bytes (drop n (bc_entries d)) + be_bytes e\<rparr>"
    have "bytes_cache_set c key raw = Some c'"
      using False n(1) by (simp add: set c'_def)
    moreover have "bytes_cache_ok c'" using d(1) n(2) by (simp add: c'_def bytes_cache_ok_def)
    moreover have wf: "wf_jmap (bc_entries d)" using st by (simp add: bytes_store.store_ok_def bytes_store.entries_ok_def)
    have old: "bytes_view c a = Some (be_raw y)" if "a \<noteq> key" "jget (drop n (bc_entries d)) a = Some y" for a y
      using fun_cong [OF d(2), of a] that(1) jget_drop [OF wf that(2)] by (simp add: bytes_view_def)
    have view: "bytes_view c' a = (if a = key then Some raw else map_option be_raw (jget (drop n (bc_entries d)) a))" for a
      by (simp add: c'_def bytes_view_def b)
    have "bytes_view c' \<subseteq>\<^sub>m (bytes_view c)(key \<mapsto> raw)"
      unfolding map_le_def by (auto simp: view dom_def old)
    moreover have "bytes_view c' key = Some raw" by (simp add: c'_def bytes_view_def b)
    ultimately show thesis using that by blast
  qed
qed

section \<open>Any use of the cache\<close>

datatype bytes_op = CacheSet string string | CacheGet string | CacheDelete string | CacheClear

fun bytes_step :: "bytes_op \<Rightarrow> bytes_cache \<Rightarrow> bytes_cache option" where
  "bytes_step (CacheSet k raw) c = bytes_cache_set c k raw"
| "bytes_step (CacheGet k) c = Some (snd (bytes_cache_get c k))"
| "bytes_step (CacheDelete k) c = Some (snd (bytes_cache_delete c k))"
| "bytes_step CacheClear c = Some (bytes_cache_clear c)"

fun bytes_run :: "bytes_op list \<Rightarrow> bytes_cache \<Rightarrow> bytes_cache option" where
  "bytes_run [] c = Some c"
| "bytes_run (a # ops) c = (case bytes_step a c of None \<Rightarrow> None | Some c \<Rightarrow> bytes_run ops c)"

text \<open>The unbounded map the cache is an approximation of.\<close>

fun spec_step :: "bytes_op \<Rightarrow> (string \<rightharpoonup> string) \<Rightarrow> (string \<rightharpoonup> string)" where
  "spec_step (CacheSet k raw) m = m(k \<mapsto> raw)"
| "spec_step (CacheGet k) m = m"
| "spec_step (CacheDelete k) m = m(k := None)"
| "spec_step CacheClear m = Map.empty"

lemma bytes_cache_bounds_kept:
  "bytes_step a c = Some c' \<Longrightarrow> bc_maxEntries c' = bc_maxEntries c \<and> bc_maxBytes c' = bc_maxBytes c"
  by (cases a) (auto simp: bytes_cache_set_def bytes_cache_get_def bytes_cache_delete_def bytes_cache_clear_def
      Let_def split: option.splits if_splits)

lemma map_le_upd: "f \<subseteq>\<^sub>m g \<Longrightarrow> f(k := v) \<subseteq>\<^sub>m g(k := v)"
  by (auto simp: map_le_def)

lemma bytes_step_ok:
  assumes "bytes_cache_ok c" and "bytes_view c \<subseteq>\<^sub>m m"
  shows "\<exists>c'. bytes_step a c = Some c' \<and> bytes_cache_ok c' \<and> bytes_view c' \<subseteq>\<^sub>m spec_step a m"
proof (cases a)
  case (CacheSet k raw)
  obtain c' where "bytes_cache_set c k raw = Some c'" "bytes_cache_ok c'"
    "bytes_view c' \<subseteq>\<^sub>m (bytes_view c)(k \<mapsto> raw)" using bytes_cache_set_ok [OF assms(1)] by blast
  with map_le_upd [OF assms(2), of k "Some raw"] CacheSet show ?thesis
    by (auto intro: map_le_trans)
next
  case (CacheGet k)
  then show ?thesis using bytes_cache_get_ok [OF assms(1), of k] assms(2)
    by (cases "bytes_cache_get c k") simp
next
  case (CacheDelete k)
  then show ?thesis using bytes_cache_delete_ok [OF assms(1), of k] map_le_upd [OF assms(2), of k None]
    by (cases "bytes_cache_delete c k") simp
next
  case CacheClear
  then show ?thesis using bytes_cache_clear_ok [OF assms(1)] by simp
qed

lemma bytes_run_ok:
  assumes "bytes_cache_ok c" and "bytes_view c \<subseteq>\<^sub>m m"
  shows "\<exists>c'. bytes_run ops c = Some c' \<and> bytes_cache_ok c' \<and> bytes_view c' \<subseteq>\<^sub>m fold spec_step ops m
     \<and> bc_maxEntries c' = bc_maxEntries c \<and> bc_maxBytes c' = bc_maxBytes c"
  using assms
proof (induction ops arbitrary: c m)
  case (Cons a ops)
  from bytes_step_ok [OF Cons.prems] obtain c1 where
    "bytes_step a c = Some c1" "bytes_cache_ok c1" "bytes_view c1 \<subseteq>\<^sub>m spec_step a m" by blast
  with Cons.IH [OF this(2,3)] bytes_cache_bounds_kept [OF this(1)] show ?case by auto
qed simp

text \<open>
  Property C13: whatever sequence of operations is run on a new cache of raw transactions, every one of
  them returns (the eviction loop always ends), the number of entries and the retained bytes stay
  within the bounds given to the constructor, the byte counter is the sum of the charges of the
  entries, and every value the cache holds is the one last stored under its key.
\<close>

theorem bytes_cache_bounded:
  assumes "bytes_cache_new maxEntries maxBytes = Inr c0"
  shows "\<exists>c. bytes_run ops c0 = Some c
     \<and> int (bytes_cache_size c) \<le> maxEntries \<and> bc_bytes c \<le> maxBytes
     \<and> bc_bytes c = jsum be_bytes (bc_entries c)
     \<and> bytes_view c \<subseteq>\<^sub>m fold spec_step ops Map.empty"
proof -
  from assms have bounds: "bc_maxEntries c0 = nat maxEntries" "bc_maxBytes c0 = maxBytes" "1 \<le> maxEntries"
    by (auto simp: bytes_cache_new_def split: if_splits)
  from bytes_cache_new_ok [OF assms] have "bytes_cache_ok c0" "bytes_view c0 \<subseteq>\<^sub>m Map.empty" by simp_all
  from bytes_run_ok [OF this, of ops] obtain c where "bytes_run ops c0 = Some c" "bytes_cache_ok c"
    "bytes_view c \<subseteq>\<^sub>m fold spec_step ops Map.empty" "bc_maxEntries c = bc_maxEntries c0"
    "bc_maxBytes c = bc_maxBytes c0" by blast
  with bounds show ?thesis
    by (auto simp: bytes_cache_ok_def bytes_store.store_ok_def bytes_cache_size_def)
qed

theorem bytes_cache_bounded_witness:
  "\<exists>c0 c. bytes_cache_new 2 600 = Inr c0
     \<and> bytes_run [CacheSet ''a'' ''00'', CacheSet ''b'' ''11'', CacheGet ''a'', CacheSet ''c'' ''22''] c0 = Some c
     \<and> bytes_cache_size c \<le> 2 \<and> bc_bytes c \<le> 600"
proof -
  have "bytes_cache_new 2 600 = Inr \<lparr>bc_entries = [], bc_bytes = 0, bc_maxEntries = 2, bc_maxBytes = 600\<rparr>"
    by (simp add: bytes_cache_new_def)
  with bytes_cache_bounded [OF this, of "[CacheSet ''a'' ''00'', CacheSet ''b'' ''11'', CacheGet ''a'', CacheSet ''c'' ''22'']"]
  show ?thesis by fastforce
qed

end
