(* ===== verification/Funding.thy ===== *)
theory Funding
  imports Payment_Laws Funding_Cache
begin

text \<open>
  Funding transactions (\<open>src/src/core/transaction.mjs\<close>, \<open>checkFundingOutput\<close> to
  \<open>validatePaymentFundingPayload\<close>): a coin is accepted only against the raw bytes of the transaction
  that made it. The cache of validated transactions is shown to be transparent: it returns what the
  uncached check returns, whatever was looked up before. \<open>sha\<close> is SHA-256 and \<open>on_curve\<close> the curve check
  of the cryptographic libraries.
\<close>

section \<open>Checking one output\<close>

definition checkFundingOutput ::
    "(bytes \<Rightarrow> bool) \<Rightarrow> utxo \<Rightarrow> key_arg option \<Rightarrow> tx_output list \<Rightarrow> string \<Rightarrow> tx_output res" where
  "checkFundingOutput on_curve u expected outs fundingId =
     bindE (hexBytes (Some 32) (u_txid u)) (\<lambda>_.
     if fundingId \<noteq> lower_str (u_txid u) then Inl (Fund FundingIdMismatch)
     else if u_vout u < 0 \<or> u_vout u \<ge> int (length outs) then Inl (Fund NoSuchFundingOutput)
     else let out = outs ! nat (u_vout u) in
       bindE (amountInConnects (JStr (out_amount out))) (\<lambda>a.
       bindE (amountInConnects (u_amount u)) (\<lambda>b.
       if a \<noteq> b then Inl (Fund FundingAmountMismatch)
       else case expected of
         None \<Rightarrow> Inr out
       | Some k \<Rightarrow> (case out of
           P2PK _ publicKey \<Rightarrow> bindE (validatePublicKey on_curve k) (\<lambda>key.
             if publicKey \<noteq> hex_of_bytes key then Inl (Fund FundingNotOwned) else Inr out)
         | _ \<Rightarrow> Inl (Fund FundingNotOwned)))))"

text \<open>\<open>parseTransaction(undefined)\<close> is refused by its first check.\<close>

definition parse_raw :: "(bytes \<Rightarrow> bool) \<Rightarrow> string option \<Rightarrow> tx res" where
  "parse_raw on_curve raw = (case raw of None \<Rightarrow> Inl TransactionTooLarge | Some r \<Rightarrow> parseTransaction on_curve r)"

definition verifyFunding ::
    "(bytes \<Rightarrow> bytes) \<Rightarrow> (bytes \<Rightarrow> bool) \<Rightarrow> utxo \<Rightarrow> key_arg option \<Rightarrow> tx_output res" where
  "verifyFunding sha on_curve u expected =
     bindE (hexBytes (Some 32) (u_txid u)) (\<lambda>_.
     bindE (parse_raw on_curve (u_raw u)) (\<lambda>funding.
     bindE (transactionId sha on_curve funding) (\<lambda>id.
     checkFundingOutput on_curve u expected (outputs funding) id)))"

section \<open>FundingTransactionCache\<close>

record tx_entry =
  te_id :: string
  te_outputs :: "tx_output list"
  te_bytes :: int

record tx_cache =
  tc_entries :: "(string, tx_entry) jmap"
  tc_bytes :: int
  tc_maxEntries :: nat
  tc_maxBytes :: int

definition tx_cache_new :: "int \<Rightarrow> int \<Rightarrow> tx_cache res" where
  "tx_cache_new maxEntries maxBytes =
     (if maxEntries < 1 \<or> maxEntries > 256 \<or> maxBytes < 1 \<or> maxBytes > 32 * 1024 * 1024
      then Inl (Fund BadCacheBounds)
      else Inr \<lparr>tc_entries = [], tc_bytes = 0, tc_maxEntries = nat maxEntries, tc_maxBytes = maxBytes\<rparr>)"

text \<open>The memory charge of an output: 512, two bytes per character of a string property, 8 for a number.\<close>

definition output_charge :: "tx_output \<Rightarrow> int" where
  "output_charge out = 512 + (case out of
       P2PK amount pk \<Rightarrow> 8 + int (length amount) * 2 + int (length pk) * 2
     | P2C amount domain target _ _ \<Rightarrow>
         8 + int (length amount) * 2 + int (length domain) * 2 + int (length target) * 2 + 8 + 8
     | OtherOutput amount \<Rightarrow> 8 + int (length amount) * 2)"

definition entry_charge :: "string \<Rightarrow> tx_output list \<Rightarrow> int" where
  "entry_charge raw outs = 256 + int (length raw) * 2 + sum_list (map output_charge outs)"

text \<open>The complete check of new bytes, with its own cache of lifted keys.\<close>

definition validate_new :: "(bytes \<Rightarrow> bytes) \<Rightarrow> (bytes \<Rightarrow> bool) \<Rightarrow> string \<Rightarrow> tx_entry res" where
  "validate_new sha on_curve raw =
     bindE (parseTransactionWithKeys on_curve raw (Some [])) (\<lambda>(funding, publicKeys).
     bindE (serializeTransactionWithKeys on_curve funding False publicKeys) (\<lambda>(b, _).
     Inr \<lparr>te_id = hex_of_bytes (rev (hash256 sha b)), te_outputs = outputs funding,
          te_bytes = entry_charge raw (outputs funding)\<rparr>))"

definition tx_cache_validated ::
    "(bytes \<Rightarrow> bytes) \<Rightarrow> (bytes \<Rightarrow> bool) \<Rightarrow> tx_cache \<Rightarrow> string option \<Rightarrow> (tx_entry res \<times> tx_cache) option" where
  "tx_cache_validated sha on_curve c raw = (case raw of
       None \<Rightarrow> Some (Inl TransactionTooLarge, c)
     | Some raw \<Rightarrow> (case jget (tc_entries c) raw of
         Some cached \<Rightarrow> Some (Inr cached, c\<lparr>tc_entries := jset (jdelete (tc_entries c) raw) raw cached\<rparr>)
       | None \<Rightarrow> (case validate_new sha on_curve raw of
           Inl e \<Rightarrow> Some (Inl e, c)
         | Inr entry \<Rightarrow>
             if te_bytes entry \<le> tc_maxBytes c
             then (case evict te_bytes (tc_maxEntries c) (tc_maxBytes c) (te_bytes entry) (tc_entries c) (tc_bytes c) of
                 None \<Rightarrow> None
               | Some (m, held) \<Rightarrow> Some (Inr entry,
                   c\<lparr>tc_entries := jset m raw entry, tc_bytes := held + te_bytes entry\<rparr>))
             else Some (Inr entry, c))))"

definition tx_cache_transactionId ::
    "(bytes \<Rightarrow> bytes) \<Rightarrow> (bytes \<Rightarrow> bool) \<Rightarrow> tx_cache \<Rightarrow> string option \<Rightarrow> (string res \<times> tx_cache) option" where
  "tx_cache_transactionId sha on_curve c raw = (case tx_cache_validated sha on_curve c raw of
       None \<Rightarrow> None
     | Some (r, c) \<Rightarrow> Some (bindE r (\<lambda>entry. Inr (te_id entry)), c))"

definition tx_cache_verifyFunding ::
    "(bytes \<Rightarrow> bytes) \<Rightarrow> (bytes \<Rightarrow> bool) \<Rightarrow> tx_cache \<Rightarrow> utxo \<Rightarrow> key_arg option \<Rightarrow> (tx_output res \<times> tx_cache) option" where
  "tx_cache_verifyFunding sha on_curve c u expected = (case hexBytes (Some 32) (u_txid u) of
       Inl e \<Rightarrow> Some (Inl e, c)
     | Inr _ \<Rightarrow> (case tx_cache_validated sha on_curve c (u_raw u) of
         None \<Rightarrow> None
       | Some (r, c) \<Rightarrow>
           Some (bindE r (\<lambda>entry. checkFundingOutput on_curve u expected (te_outputs entry) (te_id entry)), c)))"

definition tx_cache_clear :: "tx_cache \<Rightarrow> tx_cache" where
  "tx_cache_clear c = c\<lparr>tc_entries := [], tc_bytes := 0\<rparr>"

section \<open>The cache is transparent\<close>

lemma output_charge_nonneg: "0 \<le> output_charge out"
  by (simp add: output_charge_def split: tx_output.split)

lemma entry_charge_pos: "0 < entry_charge raw outs"
  using sum_list_nonneg_map [of outs output_charge] by (simp add: entry_charge_def output_charge_nonneg)

definition validated_entry :: "(bytes \<Rightarrow> bytes) \<Rightarrow> (bytes \<Rightarrow> bool) \<Rightarrow> string \<Rightarrow> tx_entry \<Rightarrow> bool" where
  "validated_entry sha on_curve raw e \<longleftrightarrow> validate_new sha on_curve raw = Inr e"

lemma validate_new_charge: "validate_new sha oc raw = Inr e \<Longrightarrow> te_bytes e = entry_charge raw (te_outputs e)"
  by (auto simp: validate_new_def)

interpretation tx_store: lru_store te_bytes "validated_entry sha on_curve" for sha on_curve
  by unfold_locales (simp add: validated_entry_def validate_new_charge entry_charge_pos)

definition tx_cache_ok :: "(bytes \<Rightarrow> bytes) \<Rightarrow> (bytes \<Rightarrow> bool) \<Rightarrow> tx_cache \<Rightarrow> bool" where
  "tx_cache_ok sha on_curve c \<longleftrightarrow> 1 \<le> tc_maxEntries c \<and> 1 \<le> tc_maxBytes c
     \<and> tx_store.store_ok sha on_curve (tc_maxEntries c) (tc_maxBytes c) (tc_entries c) (tc_bytes c)"

lemma tx_cache_new_ok: "tx_cache_new e b = Inr c \<Longrightarrow> tx_cache_ok sha oc c"
  by (auto simp: tx_cache_new_def tx_cache_ok_def tx_store.store_ok_Nil split: if_splits)

lemma tx_cache_clear_ok: "tx_cache_ok sha oc c \<Longrightarrow> tx_cache_ok sha oc (tx_cache_clear c)"
  by (simp add: tx_cache_ok_def tx_cache_clear_def tx_store.store_ok_Nil)

definition fresh_entry :: "(bytes \<Rightarrow> bytes) \<Rightarrow> (bytes \<Rightarrow> bool) \<Rightarrow> string option \<Rightarrow> tx_entry res" where
  "fresh_entry sha on_curve raw = (case raw of None \<Rightarrow> Inl TransactionTooLarge | Some r \<Rightarrow> validate_new sha on_curve r)"

lemma tx_cache_validated_ok:
  assumes ok: "tx_cache_ok sha oc c"
  shows "\<exists>c'. tx_cache_validated sha oc c raw = Some (fresh_entry sha oc raw, c') \<and> tx_cache_ok sha oc c'
     \<and> tc_maxEntries c' = tc_maxEntries c \<and> tc_maxBytes c' = tc_maxBytes c"
proof (cases raw)
  case None
  with ok show ?thesis by (simp add: tx_cache_validated_def fresh_entry_def)
next
  case (Some r)
  from ok have st: "tx_store.store_ok sha oc (tc_maxEntries c) (tc_maxBytes c) (tc_entries c) (tc_bytes c)"
    and one: "1 \<le> tc_maxEntries c" "1 \<le> tc_maxBytes c" by (simp_all add: tx_cache_ok_def)
  then have es: "tx_store.entries_ok sha oc (tc_entries c)" by (simp add: tx_store.store_ok_def)
  show ?thesis
  proof (cases "jget (tc_entries c) r")
    case hit: (Some e)
    from es jget_in_set [OF hit] have "validate_new sha oc r = Inr e"
      by (auto simp: tx_store.entries_ok_def validated_entry_def)
    with hit Some tx_store.store_ok_touch [OF st hit] one show ?thesis
      by (simp add: tx_cache_validated_def fresh_entry_def tx_cache_ok_def)
  next
    case miss: None
    show ?thesis
    proof (cases "validate_new sha oc r")
      case (Inl e)
      with miss Some ok show ?thesis by (simp add: tx_cache_validated_def fresh_entry_def)
    next
      case (Inr e)
      show ?thesis
      proof (cases "te_bytes e \<le> tc_maxBytes c")
        case False
        with Inr miss Some ok show ?thesis by (simp add: tx_cache_validated_def fresh_entry_def)
      next
        case True
        obtain n where
          "evict te_bytes (tc_maxEntries c) (tc_maxBytes c) (te_bytes e) (tc_entries c) (tc_bytes c)
             = Some (drop n (tc_entries c), jsum te_bytes (drop n (tc_entries c)))"
          "tx_store.store_ok sha oc (tc_maxEntries c) (tc_maxBytes c) (jset (drop n (tc_entries c)) r e)
             (jsum te_bytes (drop n (tc_entries c)) + te_bytes e)"
        proof (rule tx_store.evict_then_set [OF es, of "tc_bytes c" "tc_maxEntries c" e "tc_maxBytes c" r])
          show "validated_entry sha oc r e" using Inr by (simp add: validated_entry_def)
          show "r \<notin> fst ` set (tc_entries c)" using miss by (simp add: map_of_eq_None_iff)
        qed (use st one True in \<open>auto simp: tx_store.store_ok_def\<close>)
        with True Inr miss Some one show ?thesis
          by (simp add: tx_cache_validated_def fresh_entry_def tx_cache_ok_def)
      qed
    qed
  qed
qed

text \<open>A new entry carries the outputs and the identifier of the uncached functions.\<close>

lemma validate_new_plain:
  "validate_new sha oc raw = bindE (parseTransaction oc raw) (\<lambda>t. bindE (transactionId sha oc t) (\<lambda>id.
     Inr \<lparr>te_id = id, te_outputs = outputs t, te_bytes = entry_charge raw (outputs t)\<rparr>))"
proof (cases "parseTransaction oc raw")
  case (Inl e)
  with parse_cached [of oc "Some []" raw] show ?thesis
    by (simp add: parseTransaction_eq [symmetric] validate_new_def)
next
  case (Inr t)
  with parse_cached [of oc "Some []" raw] obtain keys where
    p: "parseTransactionWithKeys oc raw (Some []) = Inr (t, keys)" and k: "cache_ok oc keys"
    by (auto simp: parseTransaction_eq [symmetric] same_with_def)
  show ?thesis
    using serialize_cached [OF k, of t False] Inr p
    by (cases "serialize_plain oc t False")
      (auto simp: validate_new_def transactionId_def serializeTransaction_plain same_with_def)
qed

lemma fresh_entry_check:
  "bindE (fresh_entry sha oc raw) (\<lambda>e. f (te_outputs e) (te_id e))
   = bindE (parse_raw oc raw) (\<lambda>t. bindE (transactionId sha oc t) (f (outputs t)))"
  by (cases raw) (simp_all add: fresh_entry_def parse_raw_def validate_new_plain bindE_assoc)

text \<open>A session with the cache: lookups and clearings in any order.\<close>

datatype tx_cache_op = VerifyOp utxo "key_arg option" | IdentityOp "string option" | ClearOp

fun tx_cache_step ::
    "(bytes \<Rightarrow> bytes) \<Rightarrow> (bytes \<Rightarrow> bool) \<Rightarrow> tx_cache_op \<Rightarrow> tx_cache \<Rightarrow> tx_cache option" where
  "tx_cache_step sha on_curve (VerifyOp u k) c = map_option snd (tx_cache_verifyFunding sha on_curve c u k)"
| "tx_cache_step sha on_curve (IdentityOp raw) c = map_option snd (tx_cache_transactionId sha on_curve c raw)"
| "tx_cache_step sha on_curve ClearOp c = Some (tx_cache_clear c)"

fun tx_cache_run ::
    "(bytes \<Rightarrow> bytes) \<Rightarrow> (bytes \<Rightarrow> bool) \<Rightarrow> tx_cache_op list \<Rightarrow> tx_cache \<Rightarrow> tx_cache option" where
  "tx_cache_run sha on_curve [] c = Some c"
| "tx_cache_run sha on_curve (a # ops) c =
     (case tx_cache_step sha on_curve a c of None \<Rightarrow> None | Some c \<Rightarrow> tx_cache_run sha on_curve ops c)"

lemma tx_cache_step_ok:
  assumes "tx_cache_ok sha oc c"
  shows "\<exists>c'. tx_cache_step sha oc a c = Some c' \<and> tx_cache_ok sha oc c'
     \<and> tc_maxEntries c' = tc_maxEntries c \<and> tc_maxBytes c' = tc_maxBytes c"
proof (cases a)
  case (VerifyOp u k)
  with tx_cache_validated_ok [OF assms, of "u_raw u"] assms show ?thesis
    by (auto simp: tx_cache_verifyFunding_def split: sum.splits)
next
  case (IdentityOp raw)
  with tx_cache_validated_ok [OF assms, of raw] show ?thesis by (auto simp: tx_cache_transactionId_def)
next
  case ClearOp
  with tx_cache_clear_ok [OF assms] show ?thesis by (simp add: tx_cache_clear_def)
qed

lemma tx_cache_run_ok:
  "tx_cache_ok sha oc c \<Longrightarrow> \<exists>c'. tx_cache_run sha oc ops c = Some c' \<and> tx_cache_ok sha oc c'
     \<and> tc_maxEntries c' = tc_maxEntries c \<and> tc_maxBytes c' = tc_maxBytes c"
proof (induction ops arbitrary: c)
  case (Cons a ops)
  from tx_cache_step_ok [OF Cons.prems, of a] Cons.IH show ?case by fastforce
qed simp

lemma tx_cache_verify_plain:
  assumes "tx_cache_ok sha oc c"
  shows "map_option fst (tx_cache_verifyFunding sha oc c u k) = Some (verifyFunding sha oc u k)"
proof -
  from tx_cache_validated_ok [OF assms, of "u_raw u"] obtain c' where
    "tx_cache_validated sha oc c (u_raw u) = Some (fresh_entry sha oc (u_raw u), c')" by blast
  then show ?thesis
    using fresh_entry_check [of sha oc "u_raw u" "\<lambda>outs id. checkFundingOutput oc u k outs id"]
    by (cases "hexBytes (Some 32) (u_txid u)")
      (simp_all add: tx_cache_verifyFunding_def verifyFunding_def)
qed

text \<open>
  Property C14: the cache of validated funding transactions is transparent. After any session on a new
  cache every call returns, \<open>verifyFunding\<close> through the cache gives for every coin and key exactly
  the result, error or output, of the uncached \<open>verifyFunding\<close>, and the entries and the charged bytes
  stay within the bounds of the constructor.
\<close>

theorem tx_cache_transparent:
  assumes "tx_cache_new maxEntries maxBytes = Inr c0"
  shows "\<exists>c. tx_cache_run sha on_curve ops c0 = Some c
     \<and> map_option fst (tx_cache_verifyFunding sha on_curve c u k) = Some (verifyFunding sha on_curve u k)
     \<and> int (length (tc_entries c)) \<le> maxEntries \<and> tc_bytes c \<le> maxBytes
     \<and> tc_bytes c = jsum te_bytes (tc_entries c)"
proof -
  from assms have b: "tc_maxEntries c0 = nat maxEntries" "tc_maxBytes c0 = maxBytes" "1 \<le> maxEntries"
    by (auto simp: tx_cache_new_def split: if_splits)
  from tx_cache_run_ok [OF tx_cache_new_ok [OF assms], of sha on_curve ops] obtain c where
    "tx_cache_run sha on_curve ops c0 = Some c" "tx_cache_ok sha on_curve c"
    "tc_maxEntries c = tc_maxEntries c0" "tc_maxBytes c = tc_maxBytes c0" by blast
  with b tx_cache_verify_plain show ?thesis
    by (auto simp: tx_cache_ok_def tx_store.store_ok_def)
qed

theorem tx_cache_transparent_witness:
  "\<exists>c0 c. tx_cache_new 256 1000 = Inr c0
     \<and> tx_cache_run id (\<lambda>_. True) [IdentityOp (Some ''00''), VerifyOp (ex_utxo 5) None, ClearOp] c0 = Some c
     \<and> map_option fst (tx_cache_verifyFunding id (\<lambda>_. True) c (ex_utxo 5) None)
         = Some (verifyFunding id (\<lambda>_. True) (ex_utxo 5) None)"
proof -
  have "tx_cache_new 256 1000 = Inr \<lparr>tc_entries = [], tc_bytes = 0, tc_maxEntries = 256, tc_maxBytes = 1000\<rparr>"
    by (simp add: tx_cache_new_def)
  with tx_cache_transparent [OF this, of id "\<lambda>_. True"] show ?thesis by blast
qed

end
