(* ===== verification/Payment_Build.thy ===== *)
theory Payment_Build
  imports Funding
begin

text \<open>
  Building and signing a payment (\<open>src/src/core/transaction.mjs\<close>: the payload limits, the signature
  hash, \<open>buildPayment\<close>; \<open>src/src/core/payment-worker.mjs\<close>: the worker that attaches parents and keys).
  The record \<open>signer\<close> holds the Schnorr library; the random auxiliary bytes of each signature are the
  argument \<open>aux\<close>, and the account derivation of the worker is the argument \<open>derive\<close>.
\<close>

section \<open>Limits on the data sent to the worker\<close>

definition MAX_PAYMENT_PARENT_HEX_BYTES :: nat where
  "MAX_PAYMENT_PARENT_HEX_BYTES = 64 * 1024 * 1024"

definition count_raw :: "string \<Rightarrow> nat \<Rightarrow> nat res" where
  "count_raw raw n =
     (if length raw < 2 \<or> length raw > MAX_TX_BYTES * 2 \<or> odd (length raw) then Inl (Fund InvalidFundingBytes)
      else if n + length raw > MAX_PAYMENT_PARENT_HEX_BYTES then Inl (Fund FundingMemoryLimit)
      else Inr (n + length raw))"

definition valid_id :: "string \<Rightarrow> bool" where
  "valid_id v \<longleftrightarrow> length v = 64 \<and> list_all is_hex v"

fun check_parents :: "(string \<times> string) list \<Rightarrow> nat \<Rightarrow> (string, string) jmap \<Rightarrow> (nat \<times> (string, string) jmap) res" where
  "check_parents [] n parents = Inr (n, parents)"
| "check_parents ((tid, hex) # rest) n parents =
     (if \<not> valid_id tid then Inl (Fund InvalidFundingId)
      else if jhas parents (lower_str tid) then Inl (Fund DuplicateParent)
      else bindE (count_raw hex n) (\<lambda>n. check_parents rest n (jset parents (lower_str tid) hex)))"

definition payload_coin :: "(string, string) jmap \<Rightarrow> utxo \<Rightarrow> nat \<Rightarrow> nat res" where
  "payload_coin parents u n =
     (if \<not> valid_id (u_txid u) then Inl (Fund InvalidFundingId)
      else let parent = jget parents (lower_str (u_txid u)) in
        case u_raw u of
          Some raw \<Rightarrow> bindE (count_raw raw n) (\<lambda>n.
            if parent \<noteq> None \<and> parent \<noteq> Some raw then Inl (Fund ConflictingFunding) else Inr n)
        | None \<Rightarrow> if parent = None then Inl (Fund MissingParent) else Inr n)"

definition validatePaymentFundingPayload ::
    "utxo list \<Rightarrow> (string \<times> string) list option \<Rightarrow> (string, string) jmap res" where
  "validatePaymentFundingPayload us parents =
     (if length us < 1 \<or> length us > MAX_PAYMENT_INPUTS then Inl (Fund InvalidPaymentInputs)
      else bindE (case parents of None \<Rightarrow> Inr (0, [])
          | Some ps \<Rightarrow> if length ps < 1 \<or> length ps > MAX_PAYMENT_INPUTS then Inl (Fund InvalidParentCount)
                      else check_parents ps 0 []) (\<lambda>(n, m).
        bindE (foldE (payload_coin m) us n) (\<lambda>_. Inr m)))"

section \<open>Signatures\<close>

record signer =
  s_pub :: "bytes option \<Rightarrow> bytes res"
  s_sign :: "bytes \<Rightarrow> bytes option \<Rightarrow> bytes \<Rightarrow> bytes res"

definition taggedHash :: "(bytes \<Rightarrow> bytes) \<Rightarrow> string \<Rightarrow> bytes \<Rightarrow> bytes" where
  "taggedHash sha tag value = (let prefix = sha (ascii_bytes tag) in sha (prefix @ prefix @ value))"

definition publicKeyFromPrivate :: "signer \<Rightarrow> bytes option \<Rightarrow> bytes res" where
  "publicKeyFromPrivate sg privateKey = s_pub sg privateKey"

definition signSchnorr :: "signer \<Rightarrow> bytes \<Rightarrow> bytes option \<Rightarrow> bytes \<Rightarrow> bytes res" where
  "signSchnorr sg hash privateKey auxiliary =
     (if length hash \<noteq> 32 then Inl (Failure ''Expected 32-byte signature digest'')
      else s_sign sg hash privateKey auxiliary)"

text \<open>\<open>paymentSignatureHashes\<close>: the common part of the digest, and the digest of one input.\<close>

definition signature_prefix ::
    "(bytes \<Rightarrow> bytes) \<Rightarrow> (bytes \<Rightarrow> bool) \<Rightarrow> tx \<Rightarrow> tx_output list \<Rightarrow> bytes res" where
  "signature_prefix sha on_curve t spent =
     bindE (validateShape t) (\<lambda>_.
     if length spent \<noteq> length (inputs t) then Inl (Pay SpentOutputsRequired) else
     bindE (u32 (version t)) (\<lambda>v.
     bindE (u32 (locktime t)) (\<lambda>lt.
     bindE (enc_all outpoint (inputs t)) (\<lambda>points.
     bindE (enc_all (\<lambda>out. i64 (JStr (out_amount out))) spent) (\<lambda>amounts.
     bindE (enc_all (outputPayload on_curve) spent) (\<lambda>payloads.
     bindE (enc_all (\<lambda>i. u32 (sequence i)) (inputs t)) (\<lambda>sequences.
     bindE (enc_all (serializeOutput on_curve) (outputs t)) (\<lambda>outs.
     Inr ([0, 0] @ v @ lt @ sha points @ sha amounts @ sha payloads @ sha sequences @ sha outs @ [0])))))))))"

definition signature_hash_at :: "(bytes \<Rightarrow> bytes) \<Rightarrow> bytes \<Rightarrow> nat \<Rightarrow> int \<Rightarrow> bytes res" where
  "signature_hash_at sha prefix inputCount index =
     (if index < 0 \<or> index \<ge> int inputCount then Inl (Pay SpentOutputsRequired)
      else bindE (u32 index) (\<lambda>i. Inr (taggedHash sha ''TapSighash'' (prefix @ i))))"

definition signatureHash ::
    "(bytes \<Rightarrow> bytes) \<Rightarrow> (bytes \<Rightarrow> bool) \<Rightarrow> tx \<Rightarrow> tx_output list \<Rightarrow> int \<Rightarrow> bytes res" where
  "signatureHash sha on_curve t spent index =
     bindE (signature_prefix sha on_curve t spent) (\<lambda>prefix.
     signature_hash_at sha prefix (length (inputs t)) index)"

section \<open>buildPayment\<close>

record build_state =
  bs_parents :: "(string, tx \<times> string) jmap"
  bs_keys :: "key_cache option"
  bs_hexBytes :: nat

definition load_parent ::
    "(bytes \<Rightarrow> bytes) \<Rightarrow> (bytes \<Rightarrow> bool) \<Rightarrow> string option \<Rightarrow> build_state \<Rightarrow> ((tx \<times> string) \<times> build_state) res" where
  "load_parent sha on_curve raw s = (case raw of
       None \<Rightarrow> Inl (Fund InvalidFundingBytes)
     | Some raw \<Rightarrow> (case jget (bs_parents s) raw of
         Some parent \<Rightarrow> Inr (parent, s)
       | None \<Rightarrow>
           let n = bs_hexBytes s + length raw in
           if n > MAX_PAYMENT_PARENT_HEX_BYTES then Inl (Fund FundingMemoryLimit)
           else bindE (parseTransactionWithKeys on_curve raw (bs_keys s)) (\<lambda>(funding, keys).
             bindE (serializeTransactionWithKeys on_curve funding False keys) (\<lambda>(b, keys).
             let parent = (funding, hex_of_bytes (rev (hash256 sha b)))
             in Inr (parent, \<lparr>bs_parents = jset (bs_parents s) raw parent, bs_keys = keys, bs_hexBytes = n\<rparr>)))))"

definition spent_output ::
    "(bytes \<Rightarrow> bytes) \<Rightarrow> (bytes \<Rightarrow> bool) \<Rightarrow> signer \<Rightarrow> utxo \<Rightarrow> build_state \<Rightarrow> (tx_output \<times> build_state) res" where
  "spent_output sha on_curve sg u s =
     bindE (load_parent sha on_curve (u_raw u) s) (\<lambda>(parent, s).
     bindE (publicKeyFromPrivate sg (u_priv u)) (\<lambda>key.
     bindE (checkFundingOutput on_curve u (Some (KBytes key)) (outputs (fst parent)) (snd parent)) (\<lambda>out.
     Inr (out, s))))"

definition build_start :: build_state where
  "build_start = \<lparr>bs_parents = [], bs_keys = Some [], bs_hexBytes = 0\<rparr>"

definition sign_inputs ::
    "(bytes \<Rightarrow> bytes) \<Rightarrow> signer \<Rightarrow> (nat \<Rightarrow> bytes) \<Rightarrow> bytes \<Rightarrow> nat \<Rightarrow> utxo list \<Rightarrow> bytes list res" where
  "sign_inputs sha sg aux prefix inputCount selected =
     mapE (\<lambda>(index, u). bindE (signature_hash_at sha prefix inputCount (int index)) (\<lambda>h.
       signSchnorr sg h (u_priv u) (aux index))) (enumerate 0 selected)"

record built_payment =
  bp_hex :: string
  bp_txid :: string
  bp_plan :: plan
  bp_selected :: "(string \<times> int) list"
  bp_tx :: tx

definition buildPayment ::
    "(bytes \<Rightarrow> bytes) \<Rightarrow> env \<Rightarrow> signer \<Rightarrow> (nat \<Rightarrow> bytes) \<Rightarrow> options \<Rightarrow> built_payment res" where
  "buildPayment sha e sg aux p =
     bindE (paymentPlan e p) (\<lambda>r.
     bindE (mapSE (spent_output sha (e_curve e) sg) (p_selected r) build_start) (\<lambda>(spent, _).
     bindE (signature_prefix sha (e_curve e) (p_tx r) spent) (\<lambda>prefix.
     bindE (sign_inputs sha sg aux prefix (length (inputs (p_tx r))) (p_selected r)) (\<lambda>sigs.
     let t = signed_tx (p_tx r) sigs in
     bindE (serializeTransaction (e_curve e) t True) (\<lambda>full.
     let hex = hex_of_bytes full in
     if length hex > 800000 then Inl (Pay PaymentTooLong) else
     bindE (serializeTransaction (e_curve e) t False) (\<lambda>base.
     if length base * 3 + length hex div 2 > MAX_PAYMENT_WEIGHT then Inl (Pay PaymentTooHeavy) else
     bindE (transactionVsize (e_curve e) t) (\<lambda>vs.
     if vs \<noteq> p_vsize r then Inl (Pay SizeEstimateDiffers) else
     bindE (transactionId sha (e_curve e) t) (\<lambda>id.
     Inr \<lparr>bp_hex = hex, bp_txid = id, bp_plan = r,
          bp_selected = map (\<lambda>u. (u_txid u, u_vout u)) (p_selected r), bp_tx = t\<rparr>))))))))"

section \<open>The worker\<close>

definition attach_parent :: "(utxo \<Rightarrow> bytes res) \<Rightarrow> (string, string) jmap \<Rightarrow> utxo \<Rightarrow> utxo res" where
  "attach_parent derive parents u = bindE (derive u) (\<lambda>k.
     Inr (u\<lparr>u_raw := (case u_raw u of Some raw \<Rightarrow> Some raw | None \<Rightarrow> jget parents (lower_str (u_txid u))),
            u_priv := Some k\<rparr>))"

definition payment_worker ::
    "(bytes \<Rightarrow> bytes) \<Rightarrow> env \<Rightarrow> signer \<Rightarrow> (nat \<Rightarrow> bytes) \<Rightarrow> (utxo \<Rightarrow> bytes res)
      \<Rightarrow> (string \<times> string) list option \<Rightarrow> options \<Rightarrow> built_payment res" where
  "payment_worker sha e sg aux derive parents p =
     bindE (validatePaymentFundingPayload (o_utxos p) parents) (\<lambda>m.
     bindE (mapE (attach_parent derive m) (o_utxos p)) (\<lambda>us.
     buildPayment sha e sg aux (p\<lparr>o_utxos := us\<rparr>)))"

section \<open>What is signed has been verified\<close>

definition build_ok :: "(bytes \<Rightarrow> bytes) \<Rightarrow> (bytes \<Rightarrow> bool) \<Rightarrow> build_state \<Rightarrow> bool" where
  "build_ok sha on_curve s \<longleftrightarrow> cache_ok on_curve (bs_keys s) \<and> wf_jmap (bs_parents s)
     \<and> bs_hexBytes s = sum_list (map length (jkeys (bs_parents s)))
     \<and> (\<forall>raw t i. (raw, t, i) \<in> set (bs_parents s) \<longrightarrow>
          parseTransaction on_curve raw = Inr t \<and> transactionId sha on_curve t = Inr i)"

lemma build_ok_start: "build_ok sha oc build_start"
  by (simp add: build_ok_def build_start_def)

lemma load_new:
  assumes "cache_ok oc keys"
    and "parseTransactionWithKeys oc raw keys = Inr (t, keys1)"
    and "serializeTransactionWithKeys oc t False keys1 = Inr (b, keys2)"
  shows "parseTransaction oc raw = Inr t" and "transactionId sha oc t = Inr (hex_of_bytes (rev (hash256 sha b)))"
    and "cache_ok oc keys2"
proof -
  have p: "same_with (cache_ok oc) (parseTransactionWithKeys oc raw keys) (parseTransaction oc raw)"
    using parse_cached [OF assms(1), of raw] by (simp only: parseTransaction_eq [symmetric])
  then show t: "parseTransaction oc raw = Inr t"
    using assms(2) by (cases "parseTransaction oc raw") (simp_all add: same_with_def)
  from p assms(2) t have "cache_ok oc keys1" by (simp add: same_with_def)
  from serialize_cached [OF this, of t False] assms(3)
  have "serialize_plain oc t False = Inr b \<and> cache_ok oc keys2"
    by (cases "serialize_plain oc t False") (simp_all add: same_with_def)
  then show "transactionId sha oc t = Inr (hex_of_bytes (rev (hash256 sha b)))" "cache_ok oc keys2"
    by (simp_all add: transactionId_def serializeTransaction_plain)
qed

lemma load_parent_ok:
  assumes "build_ok sha oc s" and "load_parent sha oc raw s = Inr ((t, i), s')"
  shows "parse_raw oc raw = Inr t" and "transactionId sha oc t = Inr i" and "build_ok sha oc s'"
    and "set (jkeys (bs_parents s')) \<subseteq> set (jkeys (bs_parents s)) \<union> set_option raw"
proof -
  obtain r where r: "raw = Some r" using assms(2) by (cases raw) (simp_all add: load_parent_def)
  have "parse_raw oc raw = Inr t \<and> transactionId sha oc t = Inr i \<and> build_ok sha oc s'
     \<and> set (jkeys (bs_parents s')) \<subseteq> set (jkeys (bs_parents s)) \<union> set_option raw"
  proof (cases "jget (bs_parents s) r")
    case (Some parent)
    with assms r have "parent = (t, i)" "s' = s" by (simp_all add: load_parent_def)
    with assms(1) jget_in_set [OF Some] r show ?thesis by (auto simp: build_ok_def parse_raw_def)
  next
    case None
    with assms(2) r obtain keys1 b keys2 where
      p: "parseTransactionWithKeys oc r (bs_keys s) = Inr (t, keys1)"
        "serializeTransactionWithKeys oc t False keys1 = Inr (b, keys2)"
      and i: "i = hex_of_bytes (rev (hash256 sha b))"
      and s': "s' = \<lparr>bs_parents = jset (bs_parents s) r (t, i), bs_keys = keys2, bs_hexBytes = bs_hexBytes s + length r\<rparr>"
      by (auto simp: load_parent_def Let_def split: if_splits)
    from assms(1) have c: "cache_ok oc (bs_keys s)" by (simp add: build_ok_def)
    have fresh: "r \<notin> fst ` set (bs_parents s)" using None by (simp add: map_of_eq_None_iff)
    then have app: "jset (bs_parents s) r (t, i) = bs_parents s @ [(r, t, i)]" by (intro jset_fresh) simp
    have "transactionId sha oc t = Inr i" using load_new(2) [OF c p, of sha] i by simp
    then show ?thesis using load_new(1,3) [OF c p] assms(1) fresh r
      unfolding s' app by (auto simp: build_ok_def parse_raw_def wf_jmap_def)
  qed
  then show "parse_raw oc raw = Inr t" "transactionId sha oc t = Inr i" "build_ok sha oc s'"
    "set (jkeys (bs_parents s')) \<subseteq> set (jkeys (bs_parents s)) \<union> set_option raw" by simp_all
qed

lemma spent_output_ok:
  assumes "build_ok sha oc s" and "spent_output sha oc sg u s = Inr (out, s')"
  shows "build_ok sha oc s' \<and> set (jkeys (bs_parents s')) \<subseteq> set (jkeys (bs_parents s)) \<union> set_option (u_raw u)
     \<and> (\<exists>key. s_pub sg (u_priv u) = Inr key \<and> verifyFunding sha oc u (Some (KBytes key)) = Inr out)"
proof -
  from assms(2) obtain t i key where
    l: "load_parent sha oc (u_raw u) s = Inr ((t, i), s')" and k: "s_pub sg (u_priv u) = Inr key"
    and c: "checkFundingOutput oc u (Some (KBytes key)) (outputs t) i = Inr out"
    by (auto simp: spent_output_def publicKeyFromPrivate_def)
  from c obtain b where "hexBytes (Some 32) (u_txid u) = Inr b" by (auto simp: checkFundingOutput_def)
  with load_parent_ok [OF assms(1) l] k c show ?thesis by (auto simp: verifyFunding_def)
qed

lemma mapSE_inv:
  assumes "mapSE f xs s = Inr (ys, s')" and "I s"
    and step: "\<And>x s y s'. x \<in> set xs \<Longrightarrow> I s \<Longrightarrow> f x s = Inr (y, s') \<Longrightarrow> I s' \<and> P x y"
  shows "I s' \<and> list_all2 P xs ys"
  using assms
proof (induction xs arbitrary: s ys)
  case (Cons x xs)
  then obtain y s1 zs where 1: "f x s = Inr (y, s1)" "mapSE f xs s1 = Inr (zs, s')" "ys = y # zs" by auto
  from Cons.prems(3) [OF _ Cons.prems(2) 1(1)] have "I s1" "P x y" by simp_all
  moreover have "I s' \<and> list_all2 P xs zs"
    by (rule Cons.IH [OF 1(2) \<open>I s1\<close>]) (rule Cons.prems(3), simp_all)
  ultimately show ?case using 1(3) by simp
qed simp

lemma spent_outputs_ok:
  assumes "mapSE (spent_output sha oc sg) us build_start = Inr (outs, s)"
  shows "build_ok sha oc s \<and> set (jkeys (bs_parents s)) \<subseteq> \<Union> (set_option ` u_raw ` set us)
     \<and> list_all2 (\<lambda>u out. \<exists>key. s_pub sg (u_priv u) = Inr key
          \<and> verifyFunding sha oc u (Some (KBytes key)) = Inr out) us outs"
proof -
  have "(build_ok sha oc s \<and> set (jkeys (bs_parents s)) \<subseteq> \<Union> (set_option ` u_raw ` set us))
    \<and> list_all2 (\<lambda>u out. \<exists>key. s_pub sg (u_priv u) = Inr key
          \<and> verifyFunding sha oc u (Some (KBytes key)) = Inr out) us outs"
  proof (rule mapSE_inv [OF assms])
    show "build_ok sha oc build_start \<and> set (jkeys (bs_parents build_start)) \<subseteq> \<Union> (set_option ` u_raw ` set us)"
      using build_ok_start by (simp add: build_start_def)
  next
    fix u s out s'
    assume u: "u \<in> set us" and s: "build_ok sha oc s \<and> set (jkeys (bs_parents s)) \<subseteq> \<Union> (set_option ` u_raw ` set us)"
      and f: "spent_output sha oc sg u s = Inr (out, s')"
    from u have "set_option (u_raw u) \<subseteq> \<Union> (set_option ` u_raw ` set us)" by blast
    with spent_output_ok [OF conjunct1 [OF s] f] s
    show "(build_ok sha oc s' \<and> set (jkeys (bs_parents s')) \<subseteq> \<Union> (set_option ` u_raw ` set us))
      \<and> (\<exists>key. s_pub sg (u_priv u) = Inr key \<and> verifyFunding sha oc u (Some (KBytes key)) = Inr out)"
      by (meson Un_least order_trans)
  qed
  then show ?thesis by simp
qed

text \<open>An accepted funding output has the claimed amount and pays to the given key.\<close>

lemma verifyFunding_owned:
  assumes "verifyFunding sha oc u (Some (KBytes key)) = Inr out"
  shows "\<exists>t. parse_raw oc (u_raw u) = Inr t \<and> transactionId sha oc t = Inr (lower_str (u_txid u))
     \<and> 0 \<le> u_vout u \<and> nat (u_vout u) < length (outputs t) \<and> out = outputs t ! nat (u_vout u)
     \<and> amountInConnects (JStr (out_amount out)) = amountInConnects (u_amount u)
     \<and> out = P2PK (out_amount out) (hex_of_bytes key)"
  using assms
  by (auto simp: verifyFunding_def checkFundingOutput_def Let_def validatePublicKey_def nat_less_iff
      split: if_splits tx_output.splits dest!: sym [of "P2PK a b" for a b])

end
