(* ===== verification/Payment_Build_Laws.thy ===== *)
theory Payment_Build_Laws
  imports Payment_Build
begin

text \<open>
  The properties of \<open>buildPayment\<close> and of the limits in front of it: only verified coins are signed
  for, a payment whose coins verify is built, and the memory limit of the builder is implied by the
  limit on the payload.
\<close>

section \<open>Success of each step\<close>

lemma load_parent_succeeds:
  assumes ok: "build_ok sha oc s" and p: "parseTransaction oc raw = Inr t" and i: "transactionId sha oc t = Inr i"
    and room: "jget (bs_parents s) raw = None \<Longrightarrow> bs_hexBytes s + length raw \<le> MAX_PAYMENT_PARENT_HEX_BYTES"
  shows "\<exists>s'. load_parent sha oc (Some raw) s = Inr ((t, i), s')"
proof (cases "jget (bs_parents s) raw")
  case (Some parent)
  with ok p i jget_in_set [OF Some] have "parent = (t, i)" by (cases parent) (auto simp: build_ok_def)
  with Some show ?thesis by (simp add: load_parent_def)
next
  case None
  from ok have c: "cache_ok oc (bs_keys s)" by (simp add: build_ok_def)
  have "same_with (cache_ok oc) (parseTransactionWithKeys oc raw (bs_keys s)) (parseTransaction oc raw)"
    using parse_cached [OF c, of raw] by (simp only: parseTransaction_eq [symmetric])
  with p obtain keys1 where k1: "parseTransactionWithKeys oc raw (bs_keys s) = Inr (t, keys1)" "cache_ok oc keys1"
    by (auto simp: same_with_def)
  from i obtain b where "serialize_plain oc t False = Inr b" "i = hex_of_bytes (rev (hash256 sha b))"
    by (auto simp: transactionId_def serializeTransaction_plain)
  with serialize_cached [OF k1(2), of t False] obtain keys2 where
    "serializeTransactionWithKeys oc t False keys1 = Inr (b, keys2)" by (auto simp: same_with_def)
  with k1(1) None room \<open>i = _\<close> show ?thesis by (simp add: load_parent_def Let_def)
qed

definition raws :: "utxo list \<Rightarrow> string set" where
  "raws us = \<Union> (set_option ` u_raw ` set us)"

lemma finite_raws [simp]: "finite (raws us)"
  by (auto simp: raws_def)

lemma raws_simps [simp]: "raws [] = {}" "raws (u # us) = set_option (u_raw u) \<union> raws us"
  by (simp_all add: raws_def)

lemma room_for_raw:
  assumes "build_ok sha oc s" and "set (jkeys (bs_parents s)) \<subseteq> R" and "raw \<in> R" and "finite R"
    and "(\<Sum>x\<in>R. length x) \<le> limit" and "jget (bs_parents s) raw = None"
  shows "bs_hexBytes s + length raw \<le> limit"
proof -
  from assms(1) have "bs_hexBytes s = (\<Sum>x\<in>set (jkeys (bs_parents s)). length x)"
    by (simp add: build_ok_def wf_jmap_def sum_list_distinct_conv_sum_set [symmetric] del: set_map map_map)
  moreover from assms(6) have "raw \<notin> set (jkeys (bs_parents s))" by (simp add: map_of_eq_None_iff)
  ultimately have "bs_hexBytes s + length raw = (\<Sum>x\<in>insert raw (set (jkeys (bs_parents s))). length x)"
    by (simp del: set_map)
  also have "\<dots> \<le> (\<Sum>x\<in>R. length x)" using assms(2-4) by (intro sum_mono2) (auto simp del: set_map)
  finally show ?thesis using assms(5) by simp
qed

lemma spent_outputs_succeed:
  assumes "list_all (\<lambda>u. \<exists>key out. s_pub sg (u_priv u) = Inr key \<and> verifyFunding sha oc u (Some (KBytes key)) = Inr out) us"
    and "build_ok sha oc s" and "set (jkeys (bs_parents s)) \<subseteq> R" and "raws us \<subseteq> R" and "finite R"
    and "(\<Sum>x\<in>R. length x) \<le> MAX_PAYMENT_PARENT_HEX_BYTES"
  shows "\<exists>outs s'. mapSE (spent_output sha oc sg) us s = Inr (outs, s')"
  using assms
proof (induction us arbitrary: s)
  case (Cons u us)
  then obtain key out where k: "s_pub sg (u_priv u) = Inr key" and v: "verifyFunding sha oc u (Some (KBytes key)) = Inr out"
    by auto
  from v obtain t i where t: "parse_raw oc (u_raw u) = Inr t" "transactionId sha oc t = Inr i"
    and c: "checkFundingOutput oc u (Some (KBytes key)) (outputs t) i = Inr out" by (auto simp: verifyFunding_def)
  from t(1) obtain raw where raw: "u_raw u = Some raw" "parseTransaction oc raw = Inr t"
    by (auto simp: parse_raw_def split: option.splits)
  have "raw \<in> R" using Cons.prems(4) raw(1) by simp
  then have "\<exists>s'. load_parent sha oc (Some raw) s = Inr ((t, i), s')"
    by (intro load_parent_succeeds [OF Cons.prems(2) raw(2) t(2)]
        room_for_raw [OF Cons.prems(2,3) _ Cons.prems(5,6)])
  then obtain s1 where "load_parent sha oc (u_raw u) s = Inr ((t, i), s1)" using raw(1) by auto
  then have f: "spent_output sha oc sg u s = Inr (out, s1)"
    using k c by (simp add: spent_output_def publicKeyFromPrivate_def)
  from spent_output_ok [OF Cons.prems(2) f] Cons.prems(3,4)
  have "build_ok sha oc s1" "set (jkeys (bs_parents s1)) \<subseteq> R" by (auto simp del: set_map)
  with Cons.IH [OF _ this _ Cons.prems(5,6)] Cons.prems(1,4) obtain outs s' where
    "mapSE (spent_output sha oc sg) us s1 = Inr (outs, s')" by auto
  with f show ?case by simp
qed simp

lemma verifyFunding_payload:
  assumes "verifyFunding sha oc u (Some (KBytes key)) = Inr out"
  shows "(\<exists>n. amountInConnects (JStr (out_amount out)) = Inr n) \<and> (\<exists>b. outputPayload oc out = Inr b)"
proof -
  from assms have "length key = 32 \<and> oc key" "\<exists>n. amountInConnects (JStr (out_amount out)) = Inr n"
    by (auto simp: verifyFunding_def checkFundingOutput_def Let_def validatePublicKey_def
        split: if_splits tx_output.splits dest!: sym [of "P2PK a b" for a b])
  moreover from verifyFunding_owned [OF assms] have "out = P2PK (out_amount out) (hex_of_bytes key)" by blast
  ultimately show ?thesis
    by (metis bindE_simps(2) outputPayload_P2PK validatePublicKey_hex)
qed

lemma plan_selected_count:
  assumes "paymentPlan e p = Inr r"
  shows "length (p_selected r) \<le> MAX_PAYMENT_INPUTS"
proof -
  obtain mf j coins and pre rest :: "(utxo \<times> int) list" where
    job: "payment_job e p = Inr (mf, j, coins)" and c: "coins = pre @ rest" and sel: "p_selected r = map fst pre"
    using assms by (rule plan_choice) (rule that; assumption)
  obtain cs where cs: "coin_amounts (o_utxos p) = Inr cs" "coins = js_sort (coin_cmp (o_subtract p) (j_requested j)) cs"
    and max: "length (o_utxos p) \<le> MAX_PAYMENT_INPUTS"
    using job by (rule payment_job_Inr) (rule that; assumption)
  from cs(1) have "length cs = length (o_utxos p)" unfolding coin_amounts_def by (rule mapE_length)
  with cs(2) have "length coins = length (o_utxos p)" by simp
  with c sel max show ?thesis by simp
qed

text \<open>A planned transaction already has the shape it has when it is signed.\<close>

lemma plan_is_placeholder:
  assumes "paymentPlan e p = Inr r"
  shows "signed_tx (p_tx r) (replicate (length (p_selected r)) (replicate 64 0)) = p_tx r"
    and "length (inputs (p_tx r)) = length (p_selected r)"
proof -
  obtain pre :: "(utxo \<times> int) list" where
    sel: "p_selected r = map fst pre" and ins: "inputs (p_tx r) = map placeholder_input (map fst pre)"
    using assms by (rule plan_choice) (rule that; assumption)
  have z: "concat (replicate 64 ''00'') = hex_of_bytes (replicate 64 0)" by code_simp
  have "map2 (\<lambda>i g. set_witness i [hex_of_bytes g]) (map placeholder_input us) (replicate (length us) (replicate 64 0))
      = map placeholder_input us" for us
    by (induction us) (simp_all add: placeholder_input_def set_witness_def z)
  from this [of "map fst pre"] show "signed_tx (p_tx r) (replicate (length (p_selected r)) (replicate 64 0)) = p_tx r"
    by (simp add: signed_tx_def sel ins)
  show "length (inputs (p_tx r)) = length (p_selected r)" by (simp add: sel ins)
qed

lemma enc_all_Inr: "(\<exists>b. enc_all f xs = Inr b) \<longleftrightarrow> (\<forall>x\<in>set xs. \<exists>b. f x = Inr b)"
  by (induction xs) auto

lemma enc_mapE: "mapE f xs = Inr bs \<Longrightarrow> \<exists>b. enc_all f xs = Inr b"
  by (simp add: enc_all_def)

lemma plan_signature_prefix:
  assumes plan: "paymentPlan e p = Inr r" and l: "length spent = length (p_selected r)"
    and spent: "list_all (\<lambda>out. (\<exists>n. amountInConnects (JStr (out_amount out)) = Inr n)
         \<and> (\<exists>b. outputPayload (e_curve e) out = Inr b)) spent"
  shows "\<exists>b. signature_prefix sha (e_curve e) (p_tx r) spent = Inr b"
proof -
  obtain base full where f: "serializeTransaction (e_curve e) (p_tx r) True = Inr full"
    using plan_frames [OF plan, of "replicate (length (p_selected r)) (replicate 64 0)"]
    by (auto simp: plan_is_placeholder [OF plan])
  then have v: "validateShape (p_tx r) = Inr ()" "\<exists>b. u32 (version (p_tx r)) = Inr b" "\<exists>b. u32 (locktime (p_tx r)) = Inr b"
    and i: "\<exists>b. enc_all serialize_input (inputs (p_tx r)) = Inr b"
    and o': "\<exists>b. mapE (serializeOutput (e_curve e)) (outputs (p_tx r)) = Inr b"
    unfolding serializeTransaction_plain serialize_plain_def Let_def by auto
  from i have "\<exists>b. enc_all outpoint (inputs (p_tx r)) = Inr b" "\<exists>b. enc_all (\<lambda>i. u32 (sequence i)) (inputs (p_tx r)) = Inr b"
    unfolding enc_all_Inr by (auto simp: serialize_input_def)
  moreover have "\<exists>b. enc_all (\<lambda>out. i64 (JStr (out_amount out))) spent = Inr b"
    "\<exists>b. enc_all (outputPayload (e_curve e)) spent = Inr b"
    unfolding enc_all_Inr using spent by (auto simp: i64_def list_all_iff)
  moreover have "\<exists>b. enc_all (serializeOutput (e_curve e)) (outputs (p_tx r)) = Inr b" using o' enc_mapE by blast
  ultimately show ?thesis using v l plan_is_placeholder(2) [OF plan]
    by (auto simp: signature_prefix_def simp del: u32_Inr)
qed

section \<open>The properties\<close>

lemma mapE_total: "\<forall>x\<in>set xs. \<exists>y. f x = Inr y \<Longrightarrow> \<exists>ys. mapE f xs = Inr ys"
  by (induction xs) auto

lemma signature_lengths:
  assumes "sign_inputs sha sg aux prefix n us = Inr sigs"
    and "\<And>h k a g. s_sign sg h k a = Inr g \<Longrightarrow> length g = 64"
  shows "length sigs = length us \<and> list_all (\<lambda>g. length g = 64) sigs"
proof -
  from assms(1) have l: "list_all2 (\<lambda>x g. (case x of (i, u) \<Rightarrow> bindE (signature_hash_at sha prefix n (int i))
      (\<lambda>h. signSchnorr sg h (u_priv u) (aux i))) = Inr g) (enumerate 0 us) sigs"
    by (simp add: sign_inputs_def mapE_Inr_iff)
  moreover from l have "list_all (\<lambda>g. length g = 64) sigs"
    by (induction rule: list_all2_induct) (auto simp: signSchnorr_def split: prod.splits if_splits dest: assms(2))
  ultimately show ?thesis using list_all2_lengthD [OF l] by simp
qed

lemma signs_all:
  assumes "length us \<le> MAX_PAYMENT_INPUTS" and "\<And>x. length (sha x) = 32"
    and "\<And>h a u. u \<in> set us \<Longrightarrow> length h = 32 \<Longrightarrow> \<exists>g. s_sign sg h (u_priv u) a = Inr g"
  shows "\<exists>sigs. sign_inputs sha sg aux prefix (length us) us = Inr sigs"
proof -
  have "\<exists>g. (case x of (i, u) \<Rightarrow> bindE (signature_hash_at sha prefix (length us) (int i))
      (\<lambda>h. signSchnorr sg h (u_priv u) (aux i))) = Inr g" if "x \<in> set (enumerate 0 us)" for x
  proof (cases x)
    case (Pair i u)
    with that have "i < length us" "u \<in> set us" by (auto simp: in_set_enumerate_eq)
    with assms Pair show ?thesis
      by (simp add: signature_hash_at_def signSchnorr_def taggedHash_def Let_def u32_def MAX_PAYMENT_INPUTS_def)
  qed
  then show ?thesis unfolding sign_inputs_def by (intro mapE_total) blast
qed

text \<open>
  Property C15: only verified coins are signed for. When \<open>buildPayment\<close> returns, it returns the encoding and
  the identifier of the planned transaction with one signature per input, and for every selected coin
  the raw parent parses, its recomputed identifier is the coin's, and the output named by the coin
  exists, has exactly the claimed amount and pays to the public key of the coin's private key.
\<close>

theorem built_payment_verified:
  assumes "buildPayment sha e sg aux p = Inr b"
  shows "paymentPlan e p = Inr (bp_plan b)
     \<and> (\<exists>sigs. length sigs = length (p_selected (bp_plan b)) \<and> bp_tx b = signed_tx (p_tx (bp_plan b)) sigs)
     \<and> (\<exists>full. serializeTransaction (e_curve e) (bp_tx b) True = Inr full \<and> bp_hex b = hex_of_bytes full)
     \<and> transactionId sha (e_curve e) (bp_tx b) = Inr (bp_txid b)
     \<and> list_all (\<lambda>u. \<exists>key t. s_pub sg (u_priv u) = Inr key \<and> parse_raw (e_curve e) (u_raw u) = Inr t
           \<and> transactionId sha (e_curve e) t = Inr (lower_str (u_txid u))
           \<and> 0 \<le> u_vout u \<and> nat (u_vout u) < length (outputs t)
           \<and> (\<exists>amount. outputs t ! nat (u_vout u) = P2PK amount (hex_of_bytes key)
                \<and> amountInConnects (JStr amount) = amountInConnects (u_amount u)))
         (p_selected (bp_plan b))"
proof -
  from assms obtain spent s prefix sigs full where
    plan: "paymentPlan e p = Inr (bp_plan b)"
    and spent: "mapSE (spent_output sha (e_curve e) sg) (p_selected (bp_plan b)) build_start = Inr (spent, s)"
    and sigs: "sign_inputs sha sg aux prefix (length (inputs (p_tx (bp_plan b)))) (p_selected (bp_plan b)) = Inr sigs"
    and t: "bp_tx b = signed_tx (p_tx (bp_plan b)) sigs"
    and full: "serializeTransaction (e_curve e) (bp_tx b) True = Inr full" "bp_hex b = hex_of_bytes full"
    and i: "transactionId sha (e_curve e) (bp_tx b) = Inr (bp_txid b)"
    by (auto simp: buildPayment_def Let_def split: if_splits)
  have "length sigs = length (p_selected (bp_plan b))"
    using mapE_length [OF sigs [unfolded sign_inputs_def]] by simp
  moreover have "list_all2 (\<lambda>u out. \<exists>key. s_pub sg (u_priv u) = Inr key
      \<and> verifyFunding sha (e_curve e) u (Some (KBytes key)) = Inr out) (p_selected (bp_plan b)) spent"
    using spent_outputs_ok [OF spent] by simp
  then have "list_all (\<lambda>u. \<exists>key t. s_pub sg (u_priv u) = Inr key \<and> parse_raw (e_curve e) (u_raw u) = Inr t
           \<and> transactionId sha (e_curve e) t = Inr (lower_str (u_txid u))
           \<and> 0 \<le> u_vout u \<and> nat (u_vout u) < length (outputs t)
           \<and> (\<exists>amount. outputs t ! nat (u_vout u) = P2PK amount (hex_of_bytes key)
                \<and> amountInConnects (JStr amount) = amountInConnects (u_amount u)))
         (p_selected (bp_plan b))"
    by (induction rule: list_all2_induct) (auto dest!: verifyFunding_owned intro: exI)
  ultimately show ?thesis using plan t full i by blast
qed

lemma build_succeeds:
  assumes "paymentPlan e p = Inr r"
    and "\<And>x. length (sha x) = 32"
    and "\<And>h k a g. s_sign sg h k a = Inr g \<Longrightarrow> length g = 64"
    and "\<And>h a u. u \<in> set (p_selected r) \<Longrightarrow> length h = 32 \<Longrightarrow> \<exists>g. s_sign sg h (u_priv u) a = Inr g"
    and "list_all (\<lambda>u. \<exists>key out. s_pub sg (u_priv u) = Inr key
           \<and> verifyFunding sha (e_curve e) u (Some (KBytes key)) = Inr out) (p_selected r)"
    and "(\<Sum>raw\<in>raws (p_selected r). length raw) \<le> MAX_PAYMENT_PARENT_HEX_BYTES"
  shows "\<exists>b. buildPayment sha e sg aux p = Inr b \<and> bp_plan b = r"
proof -
  obtain spent s where spent: "mapSE (spent_output sha (e_curve e) sg) (p_selected r) build_start = Inr (spent, s)"
    using spent_outputs_succeed [OF assms(5) build_ok_start _ subset_refl _ assms(6)] by (auto simp: build_start_def)
  from spent_outputs_ok [OF spent] have all: "list_all2 (\<lambda>u out. \<exists>key. s_pub sg (u_priv u) = Inr key
      \<and> verifyFunding sha (e_curve e) u (Some (KBytes key)) = Inr out) (p_selected r) spent" by simp
  then have l: "length spent = length (p_selected r)" by (simp add: list_all2_lengthD)
  have "list_all (\<lambda>out. (\<exists>n. amountInConnects (JStr (out_amount out)) = Inr n)
         \<and> (\<exists>b. outputPayload (e_curve e) out = Inr b)) spent"
    using all by (induction rule: list_all2_induct) (auto dest: verifyFunding_payload)
  from plan_signature_prefix [OF assms(1) l this, of sha] obtain prefix where
    prefix: "signature_prefix sha (e_curve e) (p_tx r) spent = Inr prefix" by blast
  have n: "length (inputs (p_tx r)) = length (p_selected r)" "length (p_selected r) \<le> MAX_PAYMENT_INPUTS"
    using plan_is_placeholder(2) [OF assms(1)] plan_selected_count [OF assms(1)] by simp_all
  obtain sigs where sigs: "sign_inputs sha sg aux prefix (length (inputs (p_tx r))) (p_selected r) = Inr sigs"
    using signs_all [of "p_selected r" sha sg aux prefix] n assms(2,4) by auto
  note len = signature_lengths [OF sigs assms(3)]
  obtain base full where f: "serializeTransaction (e_curve e) (signed_tx (p_tx r) sigs) False = Inr base"
    "serializeTransaction (e_curve e) (signed_tx (p_tx r) sigs) True = Inr full"
    "p_vsize r = (length base * 3 + length full + 3) div 4"
    "length base * 3 + length full \<le> MAX_PAYMENT_WEIGHT"
    by (rule plan_frames [OF assms(1), of sigs]) (use len in auto)
  have "\<exists>i. transactionId sha (e_curve e) (signed_tx (p_tx r) sigs) = Inr i"
    using f(1) by (simp add: transactionId_def)
  with f spent prefix sigs assms(1) show ?thesis
    by (auto simp: buildPayment_def Let_def transactionVsize_def MAX_PAYMENT_WEIGHT_def)
qed

text \<open>
  Property C16: a payment whose coins verify is built. Given a hash of 32 bytes and a signature library
  that signs with the coins' keys and returns 64 bytes, a plan whose selected coins all pass
  \<open>verifyFunding\<close> for their own key and whose distinct parents fit the memory limit leads to a built
  payment: the size, weight and length checks after signing never reject it.
\<close>

theorem verified_payment_is_built:
  assumes "paymentPlan e p = Inr r"
    and "\<And>x. length (sha x) = 32"
    and "\<And>h k a g. s_sign sg h k a = Inr g \<Longrightarrow> length g = 64"
    and "\<And>h a u. u \<in> set (p_selected r) \<Longrightarrow> length h = 32 \<Longrightarrow> \<exists>g. s_sign sg h (u_priv u) a = Inr g"
    and "list_all (\<lambda>u. \<exists>key out. s_pub sg (u_priv u) = Inr key
           \<and> verifyFunding sha (e_curve e) u (Some (KBytes key)) = Inr out) (p_selected r)"
    and "(\<Sum>raw\<in>raws (p_selected r). length raw) \<le> MAX_PAYMENT_PARENT_HEX_BYTES"
  shows "\<exists>b. buildPayment sha e sg aux p = Inr b \<and> bp_plan b = r"
  using assms by (rule build_succeeds)

section \<open>A concrete payment\<close>

definition ex_sha :: "bytes \<Rightarrow> bytes" where "ex_sha b = replicate 32 9"

definition ex_signer :: signer where
  "ex_signer = \<lparr>s_pub = (\<lambda>_. Inr ex_key), s_sign = (\<lambda>_ _ _. Inr (replicate 64 0))\<rparr>"

lemma ex_parent_parsed:
  assumes "0 \<le> a" and "a \<le> MAX_MONEY"
  shows "parseTransaction (\<lambda>_. True) (ex_parent a) = Inr (ex_parent_tx a)"
    and "length (ex_parent a) \<le> 2 * MAX_TX_BYTES"
    and "transactionId ex_sha (\<lambda>_. True) (ex_parent_tx a) = Inr (hex_of_bytes (replicate 32 9))"
proof -
  have am: "amountInConnects (JStr (dec_str (nat a))) = Inr a" using assms by simp
  have wa: "wf_amount (dec_str (nat a))" unfolding wf_amount_iff using assms by blast
  have "hex_field 32 (hex_of_bytes (replicate 32 b))" "hex_field 32 (hex_of_bytes ex_key)" for b
    by (simp_all add: hex_field_def)
  moreover have "hex_blob 10000 []" by (simp add: hex_blob_def)
  ultimately have wf: "wf_tx (\<lambda>_. True) (ex_parent_tx a)"
    using wa assms by (simp add: wf_tx_def wf_shape_def ex_parent_tx_def is_u32_def tx_limits wf_input_def
        wf_stack_def wf_output_def output_value_def)
  then have v: "validateShape (ex_parent_tx a) = Inr ()"
    using validateShape_wf [of "\<lambda>_. True" "ex_parent_tx a"] by (simp add: wf_tx_def)
  have h: "hexBytes None [] = Inr []" by (simp add: hexBytes_def)
  have fr: "\<exists>bs. serializeTransaction (\<lambda>_. True) (ex_parent_tx a) w = Inr bs \<and> length bs \<le> MAX_TX_BYTES" for w
    unfolding serialize_frame v
    by (simp add: frame_def ex_parent_tx_def has_witness_def u32_def compactSize_def MAX_TX_BYTES_def
        serialize_input_def outpoint_def variable_def serializeOutput_eq i64_def am h outputPayload_P2PK)
  from fr [of True] obtain bs where b: "serializeTransaction (\<lambda>_. True) (ex_parent_tx a) True = Inr bs"
    "length bs \<le> MAX_TX_BYTES" by blast
  then have e: "ex_parent a = hex_of_bytes bs" by (simp add: ex_parent_def)
  with b show "parseTransaction (\<lambda>_. True) (ex_parent a) = Inr (ex_parent_tx a)"
    and "length (ex_parent a) \<le> 2 * MAX_TX_BYTES"
    by (simp_all add: parse_iff wf lower_str_lower)
  show "transactionId ex_sha (\<lambda>_. True) (ex_parent_tx a) = Inr (hex_of_bytes (replicate 32 9))"
    using fr [of False] by (auto simp: transactionId_def hash256_def ex_sha_def)
qed

lemma ex_verified:
  assumes "0 \<le> a" and "a \<le> MAX_MONEY"
  shows "verifyFunding ex_sha (\<lambda>_. True) (ex_utxo a) (Some (KBytes ex_key))
     = Inr (P2PK (dec_str (nat a)) (hex_of_bytes ex_key))"
  using ex_parent_parsed [OF assms] assms
  by (simp add: verifyFunding_def ex_utxo_def parse_raw_def checkFundingOutput_def lower_str_lower
      ex_parent_tx_def validatePublicKey_def Let_def)

lemma plan_selected_subset:
  assumes "paymentPlan e p = Inr r"
  shows "set (p_selected r) \<subseteq> set (o_utxos p)"
proof -
  obtain mf j coins and pre rest :: "(utxo \<times> int) list" where
    job: "payment_job e p = Inr (mf, j, coins)" and c: "coins = pre @ rest" and sel: "p_selected r = map fst pre"
    using assms by (rule plan_choice) (rule that; assumption)
  obtain cs where cs: "coin_amounts (o_utxos p) = Inr cs" "coins = js_sort (coin_cmp (o_subtract p) (j_requested j)) cs"
    using job by (rule payment_job_Inr) (rule that; assumption)
  from cs(1) have "map fst cs = o_utxos p" by (simp add: coin_amounts_iff)
  moreover have "set coins = set cs" using cs(2) by simp
  then have "set (map fst pre) \<subseteq> set (map fst cs)" using c by auto
  ultimately show ?thesis using sel by simp
qed

lemma ex_build:
  assumes "paymentPlan ex_env (ex_options 50000000000 False) = Inr r"
  shows "list_all (\<lambda>u. \<exists>key out. s_pub ex_signer (u_priv u) = Inr key
           \<and> verifyFunding ex_sha (e_curve ex_env) u (Some (KBytes key)) = Inr out) (p_selected r)"
    and "(\<Sum>raw\<in>raws (p_selected r). length raw) \<le> MAX_PAYMENT_PARENT_HEX_BYTES"
proof -
  have m: "(50000000000 :: int) \<le> MAX_MONEY" by (simp add: MAX_MONEY_def COIN_def)
  have sel: "set (p_selected r) \<subseteq> {ex_utxo 50000000000}"
    using plan_selected_subset [OF assms] by (simp add: ex_options_def)
  then show "list_all (\<lambda>u. \<exists>key out. s_pub ex_signer (u_priv u) = Inr key
           \<and> verifyFunding ex_sha (e_curve ex_env) u (Some (KBytes key)) = Inr out) (p_selected r)"
    using ex_verified [OF _ m] by (auto simp: list_all_iff ex_signer_def ex_env_def)
  from sel have "raws (p_selected r) \<subseteq> {ex_parent 50000000000}" by (auto simp: raws_def ex_utxo_def)
  then have "(\<Sum>raw\<in>raws (p_selected r). length raw) \<le> (\<Sum>raw\<in>{ex_parent 50000000000}. length raw)"
    by (intro sum_mono2) auto
  also have "\<dots> \<le> MAX_PAYMENT_PARENT_HEX_BYTES"
    using ex_parent_parsed(2) [OF _ m] by (simp add: MAX_TX_BYTES_def MAX_PAYMENT_PARENT_HEX_BYTES_def)
  finally show "(\<Sum>raw\<in>raws (p_selected r). length raw) \<le> MAX_PAYMENT_PARENT_HEX_BYTES" .
qed

theorem verified_payment_is_built_witness:
  "\<exists>b. buildPayment ex_sha ex_env ex_signer (\<lambda>_. []) (ex_options 50000000000 False) = Inr b
     \<and> p_fee (bp_plan b) = 225000"
proof -
  obtain r where r: "paymentPlan ex_env (ex_options 50000000000 False) = Inr r" "p_fee r = 225000"
    using ex_plan_added by blast
  have "\<exists>b. buildPayment ex_sha ex_env ex_signer (\<lambda>_. []) (ex_options 50000000000 False) = Inr b \<and> bp_plan b = r"
    by (rule verified_payment_is_built [OF r(1) _ _ _ ex_build [OF r(1)]])
      (auto simp: ex_sha_def ex_signer_def)
  with r(2) show ?thesis by auto
qed

text \<open>The witness of the safety property needs a built payment of its own, from the steps themselves.\<close>

lemma ex_built: "\<exists>b. buildPayment ex_sha ex_env ex_signer (\<lambda>_. []) (ex_options 50000000000 False) = Inr b"
proof -
  obtain r where r: "paymentPlan ex_env (ex_options 50000000000 False) = Inr r" using ex_plan_added by blast
  show ?thesis
    using build_succeeds [OF r(1) _ _ _ ex_build [OF r(1)], of "\<lambda>_. []"] by (auto simp: ex_sha_def ex_signer_def)
qed

theorem built_payment_verified_witness:
  "\<exists>b. buildPayment ex_sha ex_env ex_signer (\<lambda>_. []) (ex_options 50000000000 False) = Inr b
     \<and> transactionId ex_sha (\<lambda>_. True) (bp_tx b) = Inr (bp_txid b)"
proof -
  obtain b where b: "buildPayment ex_sha ex_env ex_signer (\<lambda>_. []) (ex_options 50000000000 False) = Inr b"
    using ex_built by blast
  from built_payment_verified [OF b] have "transactionId ex_sha (e_curve ex_env) (bp_tx b) = Inr (bp_txid b)" by blast
  with b show ?thesis by (auto simp: ex_env_def)
qed

section \<open>The payload limit\<close>

lemma check_parents_sum:
  "check_parents ps n m = Inr (n', m') \<Longrightarrow> n = sum_list (map (length \<circ> snd) m) \<Longrightarrow> n \<le> MAX_PAYMENT_PARENT_HEX_BYTES
     \<Longrightarrow> n' = sum_list (map (length \<circ> snd) m') \<and> n' \<le> MAX_PAYMENT_PARENT_HEX_BYTES"
proof (induction ps n m rule: check_parents.induct)
  case (2 tid hex rest n parents)
  then have f: "\<not> jhas parents (lower_str tid)" "count_raw hex n = Inr (n + length hex)"
    and max: "n + length hex \<le> MAX_PAYMENT_PARENT_HEX_BYTES"
    and rest: "check_parents rest (n + length hex) (jset parents (lower_str tid) hex) = Inr (n', m')"
    by (auto simp: count_raw_def split: if_splits)
  have "lower_str tid \<notin> set (jkeys parents)" using f(1) by (simp add: jhas_def map_of_eq_None_iff)
  then have app: "jset parents (lower_str tid) hex = parents @ [(lower_str tid, hex)]" by (rule jset_fresh)
  have "valid_id tid" using 2(2) by (auto split: if_splits)
  from 2(1) [OF _ f rest _ max] show ?case using \<open>valid_id tid\<close> 2(3) by (simp add: app)
qed simp

definition raw_length :: "utxo \<Rightarrow> nat" where
  "raw_length u = (case u_raw u of None \<Rightarrow> 0 | Some raw \<Rightarrow> length raw)"

lemma payload_coin_sum:
  "payload_coin m u n = Inr n' \<Longrightarrow> n \<le> MAX_PAYMENT_PARENT_HEX_BYTES \<Longrightarrow>
     n' = n + raw_length u \<and> n' \<le> MAX_PAYMENT_PARENT_HEX_BYTES
     \<and> (u_raw u = None \<longrightarrow> jget m (lower_str (u_txid u)) \<noteq> None)"
  by (cases "u_raw u") (auto simp: payload_coin_def raw_length_def count_raw_def Let_def split: if_splits)

lemma payload_coins_sum:
  "foldE (payload_coin m) us n = Inr n' \<Longrightarrow> n \<le> MAX_PAYMENT_PARENT_HEX_BYTES
     \<Longrightarrow> n' = n + sum_list (map raw_length us) \<and> n' \<le> MAX_PAYMENT_PARENT_HEX_BYTES
       \<and> (\<forall>u\<in>set us. u_raw u = None \<longrightarrow> jget m (lower_str (u_txid u)) \<noteq> None)"
proof (induction us arbitrary: n)
  case (Cons u us)
  from Cons.prems(1) obtain n1 where n1: "payload_coin m u n = Inr n1" "foldE (payload_coin m) us n1 = Inr n'" by auto
  from payload_coin_sum [OF n1(1) Cons.prems(2)] Cons.IH [OF n1(2)] show ?case by simp
qed simp

lemma sum_set_le_list: "(\<Sum>x\<in>set xs. f x) \<le> (sum_list (map f xs) :: nat)"
  by (induction xs) (auto simp: insert_absorb sum.insert_if)

lemma sum_Un_le: "finite A \<Longrightarrow> finite B \<Longrightarrow> (\<Sum>x\<in>A \<union> B. f x) \<le> (\<Sum>x\<in>A. f x) + (\<Sum>x\<in>B. f x :: nat)"
  by (simp add: sum.union_inter [symmetric, of A B f])

lemma raws_le: "(\<Sum>x\<in>raws us. length x) \<le> sum_list (map raw_length us)"
proof (induction us)
  case (Cons u us)
  have "(\<Sum>x\<in>set_option (u_raw u) \<union> raws us. length x) \<le> (\<Sum>x\<in>set_option (u_raw u). length x) + (\<Sum>x\<in>raws us. length x)"
    by (intro sum_Un_le) auto
  moreover have "(\<Sum>x\<in>set_option (u_raw u). length x) = raw_length u" by (cases "u_raw u") (simp_all add: raw_length_def)
  ultimately show ?case using Cons by simp
qed simp

lemma attached_coin:
  assumes "attach_parent derive m u = Inr v"
  shows "u_raw v = (case u_raw u of Some raw \<Rightarrow> Some raw | None \<Rightarrow> jget m (lower_str (u_txid u)))"
  using assms by (auto simp: attach_parent_def)

text \<open>
  The limit on the payload implies the limit of the builder. When the payload of a payment
  is accepted and the worker has attached parents and keys, every coin has the bytes of its parent and
  the distinct parents together fit the memory limit of \<open>buildPayment\<close>, so that limit never rejects a
  payment the first check accepted.
\<close>

lemma payload_bounds_parents:
  assumes "validatePaymentFundingPayload us parents = Inr m" and "mapE (attach_parent derive m) us = Inr vs"
  shows "list_all (\<lambda>v. u_raw v \<noteq> None) vs \<and> (\<Sum>raw\<in>raws vs. length raw) \<le> MAX_PAYMENT_PARENT_HEX_BYTES"
proof -
  from assms(1) obtain n n' where n: "n = sum_list (map (length \<circ> snd) m)" "n \<le> MAX_PAYMENT_PARENT_HEX_BYTES"
    and c: "foldE (payload_coin m) us n = Inr n'"
    by (cases parents) (auto simp: validatePaymentFundingPayload_def dest: check_parents_sum split: if_splits)
  note sum = payload_coins_sum [OF c n(2)]
  have all: "list_all2 (\<lambda>u v. u_raw v = (case u_raw u of Some raw \<Rightarrow> Some raw | None \<Rightarrow> jget m (lower_str (u_txid u)))) us vs"
    using assms(2) unfolding mapE_Inr_iff by (rule list_all2_mono) (rule attached_coin)
  have some: "list_all (\<lambda>v. u_raw v \<noteq> None) vs"
    using all conjunct2 [OF conjunct2 [OF sum]] by (induction rule: list_all2_induct) (auto split: option.splits)
  have "raws vs \<subseteq> set (map snd m) \<union> raws us"
    using all by (induction rule: list_all2_induct) (auto split: option.splits dest: map_of_SomeD intro: rev_image_eqI)
  then have "(\<Sum>raw\<in>raws vs. length raw) \<le> (\<Sum>raw\<in>set (map snd m) \<union> raws us. length raw)"
    by (intro sum_mono2) auto
  also have "\<dots> \<le> (\<Sum>raw\<in>set (map snd m). length raw) + (\<Sum>raw\<in>raws us. length raw)" by (intro sum_Un_le) auto
  also have "\<dots> \<le> n + sum_list (map raw_length us)"
    using sum_set_le_list [of length "map snd m"] raws_le [of us] n(1) by simp
  finally show ?thesis using sum some by simp
qed

lemma payload_bounds_parents_witness:
  "\<exists>m. validatePaymentFundingPayload [(ex_utxo 5)\<lparr>u_raw := Some ''00''\<rparr>] None = Inr m
     \<and> (\<Sum>raw\<in>raws [(ex_utxo 5)\<lparr>u_raw := Some ''00'', u_priv := Some []\<rparr>]. length raw) \<le> MAX_PAYMENT_PARENT_HEX_BYTES"
proof -
  have v: "validatePaymentFundingPayload [(ex_utxo 5)\<lparr>u_raw := Some ''00''\<rparr>] None = Inr []"
    by (simp add: validatePaymentFundingPayload_def MAX_PAYMENT_INPUTS_def payload_coin_def valid_id_def ex_utxo_def
        count_raw_def MAX_TX_BYTES_def MAX_PAYMENT_PARENT_HEX_BYTES_def list_all_lower_hex)
  have "mapE (attach_parent (\<lambda>_. Inr []) []) [(ex_utxo 5)\<lparr>u_raw := Some ''00''\<rparr>]
      = Inr [(ex_utxo 5)\<lparr>u_raw := Some ''00'', u_priv := Some []\<rparr>]"
    by (simp add: attach_parent_def)
  from payload_bounds_parents [OF v this] v show ?thesis by blast
qed

end
