(* ===== verification/Claim_Tx.thy ===== *)
theory Claim_Tx
  imports Payment_Build_Laws
begin

text \<open>
  Claim transactions (\<open>src/src/core/transaction.mjs\<close>, \<open>claimChallenge\<close> to \<open>attachClaimProof\<close>): a claim spends
  one bounty output to one reward output, its identifier fixes the challenge that the TLS handshake
  must carry, and the proof is attached as witness only if it answers that challenge and meets the
  work target of the bounty. \<open>sha\<close> is SHA-256.
\<close>

section \<open>The challenge and the fee\<close>

definition claimChallenge :: "(bytes \<Rightarrow> bytes) \<Rightarrow> (bytes \<Rightarrow> bool) \<Rightarrow> tx \<Rightarrow> int \<Rightarrow> string res" where
  "claimChallenge sha on_curve t index =
     (if index < 0 \<or> index \<ge> int (length (inputs t)) then Inl (Claim ClaimIndexRange)
      else bindE (transactionId sha on_curve t) (\<lambda>id.
        bindE (hexBytes (Some 32) id) (\<lambda>b.
        bindE (u32 index) (\<lambda>i.
        Inr (hex_of_bytes (taggedHash sha ''ConnectCoin/P2C/claim/v1'' (rev b @ i)))))))"

definition estimateClaimFee :: "int \<Rightarrow> int \<Rightarrow> string res" where
  "estimateClaimFee feeRate proofSize =
     bindE (checkedFeeRate feeRate) (\<lambda>_.
     if proofSize < 1 \<or> proofSize > int MAX_PROOF_SIZE then Inl (Claim BadProofSize)
     else bindE (compactSize (nat proofSize)) (\<lambda>n.
       Inr (dec_str (nat (int ((92 * 4 + 2 + 1 + length n + nat proofSize + 3) div 4) * feeRate)))))"

section \<open>Preparing a claim\<close>

text \<open>What the index reported about the bounty; an absent property is \<open>None\<close>.\<close>

record bounty =
  b_coin :: utxo
  b_domain :: "string option"
  b_target :: "string option"
  b_rootVersion :: "int option"
  b_mask :: "int option"

record claim_options =
  co_bounty :: bounty
  co_raw :: "string option"
  co_reward :: string
  co_fee :: "js_arg option"
  co_network :: string
  co_maxFee :: js_arg

record prepared_claim =
  pr_tx :: tx
  pr_hex :: string
  pr_txid :: string
  pr_challenge :: string
  pr_output :: tx_output     \<comment> \<open>the bounty output; its fields replace those of the index\<close>
  pr_fee :: string
  pr_payout :: string

definition differs :: "'a option \<Rightarrow> 'a \<Rightarrow> bool" where
  "differs remote here = (case remote of None \<Rightarrow> False | Some v \<Rightarrow> v \<noteq> here)"

definition claim_tx :: "utxo \<Rightarrow> tx_output \<Rightarrow> tx" where
  "claim_tx u reward = \<lparr>version = 2,
     inputs = [\<lparr>txid = u_txid u, vout = u_vout u, scriptSig = [], sequence = 0xffffffff, witness = []\<rparr>],
     outputs = [reward], locktime = 0\<rparr>"

definition claim_fee :: "claim_options \<Rightarrow> js_arg res" where
  "claim_fee q = (case co_fee q of Some f \<Rightarrow> Inr f
     | None \<Rightarrow> bindE (estimateClaimFee DEFAULT_FEE_RATE (int MAX_PROOF_SIZE)) (\<lambda>s. Inr (JStr s)))"

definition check_bounty :: "bounty \<Rightarrow> tx_output \<Rightarrow> unit res" where
  "check_bounty b out = (case out of
       P2C amount domain target rootVersion mk \<Rightarrow>
         if rootVersion \<noteq> 1 then Inl (Claim UnsupportedBounty)
         else if differs (b_domain b) domain \<or> differs (b_target b) target
            \<or> differs (b_rootVersion b) rootVersion \<or> differs (b_mask b) mk then Inl (Claim BountyFieldDiffers)
         else Inr ()
     | _ \<Rightarrow> Inl (Claim UnsupportedBounty))"

definition claim_reward ::
    "(bytes \<Rightarrow> bytes) \<Rightarrow> env \<Rightarrow> claim_options \<Rightarrow> tx_output \<Rightarrow> js_arg \<Rightarrow> prepared_claim res" where
  "claim_reward sha e q out fee =
     bindE (amountInConnects fee) (\<lambda>feeAmount.
     bindE (amountInConnects (co_maxFee q)) (\<lambda>maxFee.
     let value = int (dec_val (out_amount out)) in
     if feeAmount > maxFee \<or> feeAmount \<ge> value then Inl (Claim ClaimFeeLimit)
     else bindE (decodeAddress (e_lib e) (e_curve e) (co_reward q) (co_network q)) (\<lambda>key.
       let payout = dec_str (nat (value - feeAmount)); reward = P2PK payout (hex_of_bytes key) in
       bindE (dustThreshold (e_curve e) reward) (\<lambda>dust.
       if value - feeAmount < dust then Inl (Claim RewardBelowDust)
       else let t = claim_tx (b_coin (co_bounty q)) reward in
         bindE (claimChallenge sha (e_curve e) t 0) (\<lambda>challenge.
         bindE (serializeTransaction (e_curve e) t True) (\<lambda>bs.
         bindE (transactionId sha (e_curve e) t) (\<lambda>id.
         Inr \<lparr>pr_tx = t, pr_hex = hex_of_bytes bs, pr_txid = id, pr_challenge = challenge,
              pr_output = out, pr_fee = dec_str (nat feeAmount), pr_payout = payout\<rparr>)))))))"

definition prepareClaimWithFunding ::
    "(bytes \<Rightarrow> bytes) \<Rightarrow> env \<Rightarrow> claim_options \<Rightarrow> (utxo \<Rightarrow> tx_output res) \<Rightarrow> prepared_claim res" where
  "prepareClaimWithFunding sha e q verify =
     bindE (claim_fee q) (\<lambda>fee.
     bindE (verify ((b_coin (co_bounty q))\<lparr>u_raw := co_raw q\<rparr>)) (\<lambda>out.
     bindE (check_bounty (co_bounty q) out) (\<lambda>_.
     claim_reward sha e q out fee)))"

definition prepareClaim :: "(bytes \<Rightarrow> bytes) \<Rightarrow> env \<Rightarrow> claim_options \<Rightarrow> prepared_claim res" where
  "prepareClaim sha e q = prepareClaimWithFunding sha e q (\<lambda>u. verifyFunding sha (e_curve e) u None)"

text \<open>The same through the cache of validated transactions; the cache is the one after the lookup.\<close>

definition tx_cache_prepareClaim ::
    "(bytes \<Rightarrow> bytes) \<Rightarrow> env \<Rightarrow> tx_cache \<Rightarrow> claim_options \<Rightarrow> prepared_claim res option" where
  "tx_cache_prepareClaim sha e c q =
     (case tx_cache_verifyFunding sha (e_curve e) c ((b_coin (co_bounty q))\<lparr>u_raw := co_raw q\<rparr>) None of
        None \<Rightarrow> None
      | Some (r, _) \<Rightarrow> Some (prepareClaimWithFunding sha e q (\<lambda>_. r)))"

section \<open>Attaching the proof\<close>

fun be_val :: "bytes \<Rightarrow> nat" where
  "be_val bs = le_val (rev bs)"

definition handshake :: "(nat \<times> nat) list" where
  "handshake = [(1, 4096), (2, 2048), (8, 4096), (11, 49152), (15, 8192)]"

fun read_messages :: "bytes \<Rightarrow> (nat \<times> nat) list \<Rightarrow> nat \<Rightarrow> (bytes list \<times> nat) res" where
  "read_messages proof [] offset = Inr ([], offset)"
| "read_messages proof ((ty, maximum) # rest) offset =
     (if offset + 4 > length proof \<or> unat (proof ! offset) \<noteq> ty then Inl (Claim BadHandshakeSequence)
      else let sz = be_val (take 3 (drop (offset + 1) proof)) + 4 in
        if sz > maximum \<or> offset + sz > length proof then Inl (Claim BadHandshakeLength)
        else bindE (read_messages proof rest (offset + sz)) (\<lambda>(ms, n).
          Inr (take sz (drop offset proof) # ms, n)))"

record attached_claim =
  ac_hex :: string
  ac_txid :: string
  ac_fee :: string
  ac_payout :: string
  ac_tx :: tx

definition set_first_witness :: "tx \<Rightarrow> string list \<Rightarrow> tx" where
  "set_first_witness t w = t\<lparr>inputs := (case inputs t of [] \<Rightarrow> [] | i # is \<Rightarrow> set_witness i w # is)\<rparr>"

definition attachClaimProof ::
    "(bytes \<Rightarrow> bytes) \<Rightarrow> (bytes \<Rightarrow> bool) \<Rightarrow> prepared_claim \<Rightarrow> string \<Rightarrow> attached_claim res" where
  "attachClaimProof sha on_curve p proofHex =
     bindE (hexBytes None proofHex) (\<lambda>proof.
     if length proof < 1 \<or> length proof > MAX_PROOF_SIZE \<or> proof ! 0 \<noteq> 2 then Inl (Claim InvalidProof) else
     bindE (read_messages proof handshake 1) (\<lambda>(messages, offset).
     if offset \<noteq> length proof \<or> length (messages ! 0) < 38
        \<or> hex_of_bytes (take 32 (drop 6 (messages ! 0))) \<noteq> pr_challenge p then Inl (Claim ProofNotBound) else
     bindE (parseTransaction on_curve (pr_hex p)) (\<lambda>t.
     bindE (transactionId sha on_curve t) (\<lambda>id.
     if id \<noteq> pr_txid p then Inl (Claim ProposalChanged) else
     bindE (claimChallenge sha on_curve t 0) (\<lambda>challenge.
     if challenge \<noteq> pr_challenge p \<or> length (inputs t) \<noteq> 1 \<or> length (outputs t) \<noteq> 1
        \<or> witness (inputs t ! 0) \<noteq> [] then Inl (Claim ProposalChanged) else
     let work = taggedHash sha ''ConnectCoin/P2C/work/v2'' (concat (take 4 messages)) in
     if hex_num (hex_of_bytes (rev work)) > hex_num (out_target (pr_output p)) then Inl (Claim WorkTargetMissed) else
     let t = set_first_witness t [proofHex] in
     bindE (serializeTransaction on_curve t True) (\<lambda>bs.
     bindE (transactionId sha on_curve t) (\<lambda>id.
     Inr \<lparr>ac_hex = hex_of_bytes bs, ac_txid = id, ac_fee = pr_fee p, ac_payout = pr_payout p, ac_tx = t\<rparr>)))))))"

section \<open>The properties\<close>

lemma first_witness_fields [simp]:
  "txid (set_witness i w) = txid i" "vout (set_witness i w) = vout i" "scriptSig (set_witness i w) = scriptSig i"
  "sequence (set_witness i w) = sequence i" "witness (set_witness i w) = w"
  by (simp_all add: set_witness_def)

lemma stripped_single:
  assumes "inputs t = [i]" and "length w \<le> 100" and "length (witness i) \<le> 100"
  shows "serializeTransaction oc (set_first_witness t w) False = serializeTransaction oc t False"
proof -
  have "outpoint (set_witness i w) = outpoint i" by (simp add: outpoint_def)
  moreover have "serialize_input (set_witness i w) = serialize_input i" by (simp add: serialize_input_def outpoint_def)
  ultimately show ?thesis using assms
    by (simp add: serializeTransaction_plain serialize_plain_def set_first_witness_def validateShape_def check_inputs_def)
qed

text \<open>
  Property C17: a prepared claim takes exactly the bounty. The bounty output was verified against its raw
  transaction and agrees with what the index reported, the fee is within the caller's limit, the claim
  spends that one output to one key output with the key of the reward address, the payout is the
  bounty less the fee and at least dust, and the challenge and identifier are those of the transaction.
\<close>

theorem prepared_claim_takes_bounty:
  assumes "prepareClaim sha e q = Inr p"
  shows "\<exists>amount domain target mk fee maxFee key.
     verifyFunding sha (e_curve e) ((b_coin (co_bounty q))\<lparr>u_raw := co_raw q\<rparr>) None = Inr (P2C amount domain target 1 mk)
     \<and> pr_output p = P2C amount domain target 1 mk
     \<and> \<not> differs (b_domain (co_bounty q)) domain \<and> \<not> differs (b_target (co_bounty q)) target
     \<and> \<not> differs (b_rootVersion (co_bounty q)) 1 \<and> \<not> differs (b_mask (co_bounty q)) mk
     \<and> (\<forall>f. co_fee q = Some f \<longrightarrow> amountInConnects f = Inr fee)
     \<and> amountInConnects (co_maxFee q) = Inr maxFee \<and> 0 \<le> fee \<and> fee \<le> maxFee
     \<and> pr_fee p = dec_str (nat fee) \<and> pr_payout p = dec_str (nat (int (dec_val amount) - fee))
     \<and> fee < int (dec_val amount)
     \<and> decodeAddress (e_lib e) (e_curve e) (co_reward q) (co_network q) = Inr key
     \<and> pr_tx p = claim_tx (b_coin (co_bounty q)) (P2PK (pr_payout p) (hex_of_bytes key))
     \<and> (\<exists>dust. dustThreshold (e_curve e) (P2PK (pr_payout p) (hex_of_bytes key)) = Inr dust
          \<and> dust \<le> int (dec_val amount) - fee)
     \<and> claimChallenge sha (e_curve e) (pr_tx p) 0 = Inr (pr_challenge p)
     \<and> transactionId sha (e_curve e) (pr_tx p) = Inr (pr_txid p)"
proof -
  from assms obtain fee out where f: "\<forall>g. co_fee q = Some g \<longrightarrow> fee = g"
    and v: "verifyFunding sha (e_curve e) ((b_coin (co_bounty q))\<lparr>u_raw := co_raw q\<rparr>) None = Inr out"
    and c: "check_bounty (co_bounty q) out = Inr ()" and r: "claim_reward sha e q out fee = Inr p"
    by (cases "co_fee q") (auto simp: prepareClaim_def prepareClaimWithFunding_def claim_fee_def)
  from c obtain amount domain target mk where out: "out = P2C amount domain target 1 mk"
    "\<not> differs (b_domain (co_bounty q)) domain" "\<not> differs (b_target (co_bounty q)) target"
    "\<not> differs (b_rootVersion (co_bounty q)) 1" "\<not> differs (b_mask (co_bounty q)) mk"
    by (cases out) (auto simp: check_bounty_def split: if_splits)
  from r out(1) obtain n maxFee key dust where
    "amountInConnects fee = Inr n" "amountInConnects (co_maxFee q) = Inr maxFee" "n \<le> maxFee"
    "n < int (dec_val amount)" "decodeAddress (e_lib e) (e_curve e) (co_reward q) (co_network q) = Inr key"
    "pr_output p = out" "pr_fee p = dec_str (nat n)" "pr_payout p = dec_str (nat (int (dec_val amount) - n))"
    "dustThreshold (e_curve e) (P2PK (pr_payout p) (hex_of_bytes key)) = Inr dust" "dust \<le> int (dec_val amount) - n"
    "pr_tx p = claim_tx (b_coin (co_bounty q)) (P2PK (pr_payout p) (hex_of_bytes key))"
    "claimChallenge sha (e_curve e) (pr_tx p) 0 = Inr (pr_challenge p)"
    "transactionId sha (e_curve e) (pr_tx p) = Inr (pr_txid p)"
    by (auto simp: claim_reward_def Let_def not_less not_le split: if_splits)
  moreover from this(1) have "0 \<le> n" by (simp add: amountInConnects_range)
  ultimately show ?thesis using v out f by (intro exI conjI) auto
qed

text \<open>
  Property C18: attaching a proof never changes the claim. When \<open>attachClaimProof\<close> returns, the identifier is
  still that of the proposal and its challenge still the one of the transaction, the fee and payout are
  unchanged, the proof is the only witness, its ClientHello random is the challenge, and the work hash
  of its first four messages is at most the target of the bounty.
\<close>

theorem attached_proof_keeps_claim:
  assumes "attachClaimProof sha on_curve p proofHex = Inr c"
  shows "ac_txid c = pr_txid p \<and> ac_fee c = pr_fee p \<and> ac_payout c = pr_payout p
     \<and> (\<exists>t i proof messages. parseTransaction on_curve (pr_hex p) = Inr t \<and> inputs t = [i]
          \<and> ac_tx c = t\<lparr>inputs := [set_witness i [proofHex]]\<rparr>
          \<and> claimChallenge sha on_curve t 0 = Inr (pr_challenge p)
          \<and> hexBytes None proofHex = Inr proof \<and> length proof \<le> MAX_PROOF_SIZE
          \<and> read_messages proof handshake 1 = Inr (messages, length proof)
          \<and> hex_of_bytes (take 32 (drop 6 (messages ! 0))) = pr_challenge p
          \<and> hex_num (hex_of_bytes (rev (taggedHash sha ''ConnectCoin/P2C/work/v2'' (concat (take 4 messages)))))
              \<le> hex_num (out_target (pr_output p)))"
proof -
  from assms obtain pf messages t bs where
    p: "hexBytes None proofHex = Inr pf" "length pf \<le> MAX_PROOF_SIZE"
    and m: "read_messages pf handshake 1 = Inr (messages, length pf)"
    and ch: "hex_of_bytes (take 32 (drop 6 (messages ! 0))) = pr_challenge p"
    and t: "parseTransaction on_curve (pr_hex p) = Inr t" "transactionId sha on_curve t = Inr (pr_txid p)"
      "claimChallenge sha on_curve t 0 = Inr (pr_challenge p)"
    and one: "length (inputs t) = 1" "witness (inputs t ! 0) = []"
    and w: "hex_num (hex_of_bytes (rev (taggedHash sha ''ConnectCoin/P2C/work/v2'' (concat (take 4 messages)))))
              \<le> hex_num (out_target (pr_output p))"
    and c: "transactionId sha on_curve (set_first_witness t [proofHex]) = Inr (ac_txid c)"
      "ac_tx c = set_first_witness t [proofHex]" "ac_fee c = pr_fee p" "ac_payout c = pr_payout p"
    by (auto simp: attachClaimProof_def Let_def not_less not_le split: if_splits)
  from one obtain i where i: "inputs t = [i]" "witness i = []" by (cases "inputs t") auto
  have "serializeTransaction on_curve (set_first_witness t [proofHex]) False = serializeTransaction on_curve t False"
    by (rule stripped_single [OF i(1)]) (simp_all add: i)
  with c(1) t(2) have "ac_txid c = pr_txid p" by (auto simp: transactionId_def)
  with p m ch t w c i show ?thesis by (auto simp: set_first_witness_def)
qed

section \<open>A concrete claim\<close>

definition ex_proof :: bytes where
  "ex_proof = [2, 1, 0, 0, 34, 3, 3] @ replicate 32 9 @ [2, 0, 0, 0, 8, 0, 0, 0, 11, 0, 0, 0, 15, 0, 0, 0]"

definition ex_target :: string where "ex_target = hex_of_bytes (replicate 32 9)"

definition ex_prepared :: prepared_claim where
  "ex_prepared = \<lparr>pr_tx = ex_parent_tx 5, pr_hex = ex_parent 5, pr_txid = hex_of_bytes (replicate 32 9),
     pr_challenge = hex_of_bytes (replicate 32 9), pr_output = P2C ''5'' ''a.co'' ex_target 1 7,
     pr_fee = ''0'', pr_payout = ''5''\<rparr>"

lemma ex_tagged [simp]: "taggedHash ex_sha tag v = replicate 32 9"
  by (simp add: taggedHash_def ex_sha_def Let_def)

lemma claimChallenge_ex:
  "transactionId ex_sha oc t = Inr (hex_of_bytes (replicate 32 9)) \<Longrightarrow> inputs t \<noteq> [] \<Longrightarrow>
     claimChallenge ex_sha oc t 0 = Inr (hex_of_bytes (replicate 32 9))"
  by (simp add: claimChallenge_def u32_def)

text \<open>Reading a message that stands at the offset: its type, three length bytes, its body.\<close>

lemma read_message:
  assumes "drop offset bytes = ty # a # b # c # body @ rest" and "le_val [c, b, a] = length body"
    and "length body + 4 \<le> maximum"
  shows "read_messages bytes ((unat ty, maximum) # later) offset
     = bindE (read_messages bytes later (offset + (length body + 4))) (\<lambda>(ms, n). Inr ((ty # a # b # c # body) # ms, n))"
proof -
  have l: "length bytes - offset = 4 + length body + length rest"
    using arg_cong [OF assms(1), of length] by simp
  then have off: "offset + 4 \<le> length bytes" "offset + (length body + 4) \<le> length bytes" by linarith+
  then have "offset < length bytes" by linarith
  then have n: "bytes ! offset = ty" using hd_drop_conv_nth [of offset bytes] assms(1) by simp
  have "drop (offset + 1) bytes = a # b # c # body @ rest"
    using arg_cong [OF assms(1), of tl] by (simp add: drop_Suc tl_drop)
  then have t: "take 3 (drop (offset + 1) bytes) = [a, b, c]" by (simp add: numeral_3_eq_3)
  have "take (length body + 4) (drop offset bytes) = ty # a # b # c # body"
    unfolding assms(1) by (simp add: numeral_eq_Suc)
  with n t off assms(2,3) show ?thesis by (simp add: Let_def)
qed

lemma ex_messages: "read_messages ex_proof handshake 1
    = Inr ([[1, 0, 0, 34, 3, 3] @ replicate 32 9, [2, 0, 0, 0], [8, 0, 0, 0], [11, 0, 0, 0], [15, 0, 0, 0]], 55)"
proof -
  have d: "drop 39 ex_proof = [2, 0, 0, 0, 8, 0, 0, 0, 11, 0, 0, 0, 15, 0, 0, 0]"
    by (simp add: ex_proof_def)
  have d2: "drop 43 ex_proof = [8, 0, 0, 0, 11, 0, 0, 0, 15, 0, 0, 0]" using arg_cong [OF d, of "drop 4"] by simp
  have d3: "drop 47 ex_proof = [11, 0, 0, 0, 15, 0, 0, 0]" using arg_cong [OF d2, of "drop 4"] by simp
  have d4: "drop 51 ex_proof = [15, 0, 0, 0]" using arg_cong [OF d3, of "drop 4"] by simp
  have m1: "read_messages ex_proof ((1, 4096) # later) 1
      = bindE (read_messages ex_proof later 39) (\<lambda>(ms, n). Inr (([1, 0, 0, 34] @ [3, 3] @ replicate 32 9) # ms, n))" for later
    using read_message [of 1 ex_proof 1 0 0 34 "[3, 3] @ replicate 32 9" "[2, 0, 0, 0, 8, 0, 0, 0, 11, 0, 0, 0, 15, 0, 0, 0]" 4096 later]
    by (simp add: ex_proof_def)
  have m2: "read_messages ex_proof ((2, 2048) # later) 39
      = bindE (read_messages ex_proof later 43) (\<lambda>(ms, n). Inr ([2, 0, 0, 0] # ms, n))" for later
    using read_message [of 39 ex_proof 2 0 0 0 "[]" "[8, 0, 0, 0, 11, 0, 0, 0, 15, 0, 0, 0]" 2048 later] d by simp
  have m3: "read_messages ex_proof ((8, 4096) # later) 43
      = bindE (read_messages ex_proof later 47) (\<lambda>(ms, n). Inr ([8, 0, 0, 0] # ms, n))" for later
    using read_message [of 43 ex_proof 8 0 0 0 "[]" "[11, 0, 0, 0, 15, 0, 0, 0]" 4096 later] d2 by simp
  have m4: "read_messages ex_proof ((11, 49152) # later) 47
      = bindE (read_messages ex_proof later 51) (\<lambda>(ms, n). Inr ([11, 0, 0, 0] # ms, n))" for later
    using read_message [of 47 ex_proof 11 0 0 0 "[]" "[15, 0, 0, 0]" 49152 later] d3 by simp
  have m5: "read_messages ex_proof ((15, 8192) # later) 51
      = bindE (read_messages ex_proof later 55) (\<lambda>(ms, n). Inr ([15, 0, 0, 0] # ms, n))" for later
    using read_message [of 51 ex_proof 15 0 0 0 "[]" "[]" 8192 later] d4 by simp
  have "read_messages ex_proof [] 55 = Inr ([], 55)" by simp
  then show ?thesis unfolding handshake_def m1 m2 m3 m4 m5 by simp
qed

lemma ex_attached: "\<exists>c. attachClaimProof ex_sha (\<lambda>_. True) ex_prepared (hex_of_bytes ex_proof) = Inr c"
proof -
  have m: "(5 :: int) \<le> MAX_MONEY" by (simp add: MAX_MONEY_def COIN_def)
  note e = ex_parent_parsed [OF _ m]
  have ins: "inputs (ex_parent_tx 5) \<noteq> []" by (simp add: ex_parent_tx_def)
  have l: "length ex_proof = 55" "ex_proof ! 0 = 2" by (simp_all add: ex_proof_def)
  let ?t = "set_first_witness (ex_parent_tx 5) [hex_of_bytes ex_proof]"
  have am: "amountInConnects (JStr (dec_str 5)) = Inr 5" using amountInConnects_dec_str [of 5] m by simp
  have "hex_field 32 (hex_of_bytes (replicate 32 b))" "hex_field 32 (hex_of_bytes ex_key)" for b
    by (simp_all add: hex_field_def)
  moreover have "hex_blob 10000 []" by (simp add: hex_blob_def)
  moreover have "wf_amount (dec_str 5)" unfolding wf_amount_iff using m by (intro exI [of _ 5]) simp
  moreover have "wf_stack [hex_of_bytes ex_proof]" by (rule wf_stack_one) (simp add: l MAX_PROOF_SIZE_def)
  ultimately have "wf_tx (\<lambda>_. True) ?t" using m
    by (simp add: wf_tx_def wf_shape_def ex_parent_tx_def is_u32_def tx_limits wf_input_def wf_output_def
        output_value_def set_first_witness_def)
  then have v: "validateShape ?t = Inr ()"
    using validateShape_wf [of "\<lambda>_. True" ?t] by (simp add: wf_tx_def)
  have h: "hexBytes None [] = Inr []" by (simp add: hexBytes_def)
  have fr: "\<exists>bs. serializeTransaction (\<lambda>_. True) ?t w = Inr bs" for w
    unfolding serialize_frame v
    by (simp add: frame_def ex_parent_tx_def has_witness_def u32_def compactSize_def MAX_TX_BYTES_def
        serialize_input_def outpoint_def variable_def serializeOutput_eq i64_def am h outputPayload_P2PK
        set_first_witness_def serialize_stack_def serialize_item_def MAX_PROOF_SIZE_def l)
  have i: "\<exists>i. transactionId ex_sha (\<lambda>_. True) ?t = Inr i"
    using fr [of False] by (auto simp: transactionId_def)
  have w: "hex_num (hex_of_bytes (replicate 32 9)) \<le> hex_num ex_target"
    by (simp add: ex_target_def)
  from fr [of True] i obtain bs j where
    "serializeTransaction (\<lambda>_. True) ?t True = Inr bs" "transactionId ex_sha (\<lambda>_. True) ?t = Inr j" by blast
  moreover have "length (inputs (ex_parent_tx 5)) = 1" "length (outputs (ex_parent_tx 5)) = 1"
    "witness (inputs (ex_parent_tx 5) ! 0) = []" by (simp_all add: ex_parent_tx_def)
  moreover have "pr_hex ex_prepared = ex_parent 5" "pr_txid ex_prepared = hex_of_bytes (replicate 32 9)"
    "pr_challenge ex_prepared = hex_of_bytes (replicate 32 9)" "out_target (pr_output ex_prepared) = ex_target"
    by (simp_all add: ex_prepared_def)
  moreover have "take 32 (drop 6 ([1, 0, 0, 34, 3, 3] @ replicate 32 9)) = (replicate 32 9 :: bytes)" by simp
  ultimately show ?thesis
    using e(1,3) claimChallenge_ex [OF e(3) ins] w l
    unfolding attachClaimProof_def Let_def hexBytes_hex bindE_simps ex_messages prod.case
    by (simp add: MAX_PROOF_SIZE_def)
qed

theorem attached_proof_keeps_claim_witness:
  "\<exists>c. attachClaimProof ex_sha (\<lambda>_. True) ex_prepared (hex_of_bytes ex_proof) = Inr c
     \<and> ac_txid c = hex_of_bytes (replicate 32 9)"
proof -
  obtain c where c: "attachClaimProof ex_sha (\<lambda>_. True) ex_prepared (hex_of_bytes ex_proof) = Inr c"
    using ex_attached by blast
  from attached_proof_keeps_claim [OF c] c show ?thesis by (auto simp: ex_prepared_def)
qed

text \<open>A bounty of 5 CONN and its raw transaction, claimed with the default fee.\<close>

definition ex_bounty_tx :: tx where
  "ex_bounty_tx = \<lparr>version = 2,
     inputs = [\<lparr>txid = hex_of_bytes (replicate 32 17), vout = 1, scriptSig = [], sequence = 0, witness = []\<rparr>],
     outputs = [P2C (dec_str 50000000000) ''a.co'' ex_target 1 7], locktime = 0\<rparr>"

definition ex_bounty_raw :: string where
  "ex_bounty_raw = (case serializeTransaction (\<lambda>_. True) ex_bounty_tx True of
     Inl e \<Rightarrow> [] | Inr b \<Rightarrow> hex_of_bytes b)"

definition ex_claim :: claim_options where
  "ex_claim = \<lparr>co_bounty = \<lparr>b_coin = ex_utxo 50000000000, b_domain = Some ''a.co'', b_target = None,
       b_rootVersion = Some 1, b_mask = None\<rparr>,
     co_raw = Some ex_bounty_raw, co_reward = ex_address, co_fee = None, co_network = ''testnet4'',
     co_maxFee = JBig COIN\<rparr>"

lemma ex_domain: "isCanonicalDomain ''a.co''"
  by code_simp

lemma ex_ascii: "ascii_bytes ''a.co'' = [97, 46, 99, 111]"
  by code_simp

lemma ex_bounty_parsed:
  shows "parseTransaction (\<lambda>_. True) ex_bounty_raw = Inr ex_bounty_tx"
    and "transactionId ex_sha (\<lambda>_. True) ex_bounty_tx = Inr (hex_of_bytes (replicate 32 9))"
proof -
  have m: "(50000000000 :: int) \<le> MAX_MONEY" by (simp add: MAX_MONEY_def COIN_def)
  have am: "amountInConnects (JStr (dec_str 50000000000)) = Inr 50000000000"
    using amountInConnects_dec_str [of 50000000000] m by simp
  have wa: "wf_amount (dec_str 50000000000)" unfolding wf_amount_iff using m by (intro exI [of _ 50000000000]) simp
  have "hex_field 32 (hex_of_bytes (replicate 32 b))" for b by (simp add: hex_field_def)
  moreover have "hex_blob 10000 []" by (simp add: hex_blob_def)
  ultimately have wf: "wf_tx (\<lambda>_. True) ex_bounty_tx"
    using wa m by (simp add: wf_tx_def wf_shape_def ex_bounty_tx_def is_u32_def tx_limits wf_input_def
        wf_stack_def wf_output_def output_value_def ex_domain ex_target_def)
  then have v: "validateShape ex_bounty_tx = Inr ()"
    using validateShape_wf [of "\<lambda>_. True" ex_bounty_tx] by (simp add: wf_tx_def)
  have h: "hexBytes None [] = Inr []" by (simp add: hexBytes_def)
  have fr: "\<exists>bs. serializeTransaction (\<lambda>_. True) ex_bounty_tx w = Inr bs" for w
    unfolding serialize_frame v
    by (simp add: frame_def ex_bounty_tx_def has_witness_def u32_def compactSize_def MAX_TX_BYTES_def
        serialize_input_def outpoint_def variable_def serializeOutput_eq i64_def am h outputPayload_P2C ex_domain
        ex_target_def ex_ascii)
  from fr [of True] obtain bs where "serializeTransaction (\<lambda>_. True) ex_bounty_tx True = Inr bs" by blast
  then show "parseTransaction (\<lambda>_. True) ex_bounty_raw = Inr ex_bounty_tx"
    by (simp add: ex_bounty_raw_def parse_iff wf lower_str_lower)
  show "transactionId ex_sha (\<lambda>_. True) ex_bounty_tx = Inr (hex_of_bytes (replicate 32 9))"
    using fr [of False] by (auto simp: transactionId_def hash256_def ex_sha_def)
qed

lemma ex_claim_fee: "claim_fee ex_claim = Inr (JStr (dec_str 24717000))"
  by (simp add: claim_fee_def ex_claim_def estimateClaimFee_def checkedFeeRate_def DEFAULT_FEE_RATE_def
      MAX_PROOF_SIZE_def compactSize_def MAX_TX_BYTES_def u32_def)

lemma ex_claim_tx:
  defines "t \<equiv> claim_tx (ex_utxo 50000000000) (P2PK (dec_str 49975283000) (hex_of_bytes ex_key))"
  shows "\<exists>bs. serializeTransaction (\<lambda>_. True) t True = Inr bs"
    and "transactionId ex_sha (\<lambda>_. True) t = Inr (hex_of_bytes (replicate 32 9))"
proof -
  have m: "(49975283000 :: int) \<le> MAX_MONEY" by (simp add: MAX_MONEY_def COIN_def)
  have am: "amountInConnects (JStr (dec_str 49975283000)) = Inr 49975283000"
    using amountInConnects_dec_str [of 49975283000] m by simp
  have wa: "wf_amount (dec_str 49975283000)" unfolding wf_amount_iff using m by (intro exI [of _ 49975283000]) simp
  have "hex_field 32 (hex_of_bytes (replicate 32 b))" "hex_field 32 (hex_of_bytes ex_key)" for b
    by (simp_all add: hex_field_def)
  moreover have "hex_blob 10000 []" by (simp add: hex_blob_def)
  ultimately have "wf_tx (\<lambda>_. True) t"
    using wa m by (simp add: wf_tx_def wf_shape_def t_def claim_tx_def ex_utxo_def is_u32_def tx_limits wf_input_def
        wf_stack_def wf_output_def output_value_def)
  then have v: "validateShape t = Inr ()"
    using validateShape_wf [of "\<lambda>_. True" t] by (simp add: wf_tx_def)
  have h: "hexBytes None [] = Inr []" by (simp add: hexBytes_def)
  have fr: "\<exists>bs. serializeTransaction (\<lambda>_. True) t w = Inr bs" for w
    unfolding serialize_frame v
    by (simp add: frame_def t_def claim_tx_def ex_utxo_def has_witness_def u32_def compactSize_def MAX_TX_BYTES_def
        serialize_input_def outpoint_def variable_def serializeOutput_eq i64_def am h outputPayload_P2PK)
  then show "\<exists>bs. serializeTransaction (\<lambda>_. True) t True = Inr bs" by blast
  show "transactionId ex_sha (\<lambda>_. True) t = Inr (hex_of_bytes (replicate 32 9))"
    using fr [of False] by (auto simp: transactionId_def hash256_def ex_sha_def)
qed

lemma ex_prepares: "\<exists>p. prepareClaim ex_sha ex_env ex_claim = Inr p"
proof -
  have m: "(50000000000 :: int) \<le> MAX_MONEY" "(49975283000 :: int) \<le> MAX_MONEY" "(24717000 :: int) \<le> MAX_MONEY"
    "COIN \<le> MAX_MONEY" "(24717000 :: int) \<le> COIN" "0 \<le> COIN"
    by (simp_all add: MAX_MONEY_def COIN_def)
  have am: "amountInConnects (JStr (dec_str 50000000000)) = Inr 50000000000"
    "amountInConnects (JStr (dec_str 24717000)) = Inr 24717000" "amountInConnects (JBig COIN) = Inr COIN"
    "amountInConnects (JBig 50000000000) = Inr 50000000000"
    using amountInConnects_dec_str [of 50000000000] amountInConnects_dec_str [of 24717000] m by simp_all
  have v: "verifyFunding ex_sha (\<lambda>_. True) ((ex_utxo 50000000000)\<lparr>u_raw := Some ex_bounty_raw\<rparr>) None
      = Inr (P2C (dec_str 50000000000) ''a.co'' ex_target 1 7)"
    using ex_bounty_parsed am
    by (simp add: verifyFunding_def ex_utxo_def parse_raw_def checkFundingOutput_def lower_str_lower Let_def)
      (simp add: ex_bounty_tx_def am)
  have d: "dustThreshold (\<lambda>_. True) (P2PK (dec_str 49975283000) (hex_of_bytes ex_key)) = Inr 297"
    using ex_dust [of 49975283000] m by simp
  obtain bs where t: "serializeTransaction (\<lambda>_. True)
      (claim_tx (ex_utxo 50000000000) (P2PK (dec_str 49975283000) (hex_of_bytes ex_key))) True = Inr bs"
    using ex_claim_tx(1) by blast
  have "inputs (claim_tx u r) \<noteq> []" for u r by (simp add: claim_tx_def)
  note ch = claimChallenge_ex [OF ex_claim_tx(2) this]
  have e: "e_curve ex_env = (\<lambda>_. True)" "e_lib ex_env = plain_lib" by (simp_all add: ex_env_def)
  have q: "co_bounty ex_claim = \<lparr>b_coin = ex_utxo 50000000000, b_domain = Some ''a.co'', b_target = None,
       b_rootVersion = Some 1, b_mask = None\<rparr>" "co_raw ex_claim = Some ex_bounty_raw"
    "co_reward ex_claim = ex_address" "co_network ex_claim = ''testnet4''" "co_maxFee ex_claim = JBig COIN"
    by (simp_all add: ex_claim_def)
  show ?thesis
    unfolding prepareClaim_def prepareClaimWithFunding_def ex_claim_fee bindE_simps q e bounty.simps v
      check_bounty_def differs_def claim_reward_def
    using m by (simp add: am ex_decode d ch t ex_claim_tx(2) Let_def)
qed

theorem prepared_claim_takes_bounty_witness:
  "\<exists>p. prepareClaim ex_sha ex_env ex_claim = Inr p \<and> \<not> differs (b_domain (co_bounty ex_claim)) (out_domain (pr_output p))"
proof -
  obtain p where p: "prepareClaim ex_sha ex_env ex_claim = Inr p" using ex_prepares by blast
  from prepared_claim_takes_bounty [OF p] p show ?thesis by auto
qed

end
