(* ===== verification/Js_Number.thy ===== *)
theory Js_Number
  imports Complex_Main
begin

text \<open>
  JavaScript numbers where their rounding matters. IEEE double arithmetic is a record of operations on
  an abstract type, so a definition that uses it performs the operations of the source in the order
  of the source and no law of exact arithmetic is assumed. Counters and identifiers that the code
  keeps below \<open>2^53\<close> are integers. \<open>safe_integer\<close> is \<open>Number.isSafeInteger\<close> on an integer.
\<close>

record 'f js_float =
  fl_int :: "int \<Rightarrow> 'f"           \<comment> \<open>an integer literal or \<open>Number(bigint)\<close>\<close>
  fl_add :: "'f \<Rightarrow> 'f \<Rightarrow> 'f"
  fl_mul :: "'f \<Rightarrow> 'f \<Rightarrow> 'f"
  fl_div :: "'f \<Rightarrow> 'f \<Rightarrow> 'f"
  fl_less :: "'f \<Rightarrow> 'f \<Rightarrow> bool"
  fl_finite :: "'f \<Rightarrow> bool"
  fl_nan :: 'f
  fl_infinite :: "'f \<Rightarrow> bool"         \<comment> \<open>\<open>x === Infinity\<close>\<close>
  fl_max_value :: 'f
  fl_min_value :: 'f

definition fl_min :: "('f, 'z) js_float_scheme \<Rightarrow> 'f \<Rightarrow> 'f \<Rightarrow> 'f" where
  "fl_min F a b = (if fl_less F b a then b else a)"

definition fl_max :: "('f, 'z) js_float_scheme \<Rightarrow> 'f \<Rightarrow> 'f \<Rightarrow> 'f" where
  "fl_max F a b = (if fl_less F a b then b else a)"

definition MAX_SAFE_INTEGER :: int where
  "MAX_SAFE_INTEGER = 2 ^ 53 - 1"

definition safe_integer :: "int \<Rightarrow> bool" where
  "safe_integer n \<longleftrightarrow> - MAX_SAFE_INTEGER \<le> n \<and> n \<le> MAX_SAFE_INTEGER"

text \<open>Exact rational arithmetic is an instance; it is the one the concrete examples compute in.\<close>

definition exact_float :: "rat js_float" where
  "exact_float = \<lparr>fl_int = of_int, fl_add = (+), fl_mul = (*), fl_div = (/), fl_less = (<),
     fl_finite = (\<lambda>_. True), fl_nan = 0, fl_infinite = (\<lambda>_. False), fl_max_value = 10 ^ 308, fl_min_value = 1 / 10 ^ 324\<rparr>"

end
