(* ===== verification/Claim_Priority.thy ===== *)
theory Claim_Priority
  imports Address Js_Number
begin

text \<open>
  The scheduling policy of claims (\<open>src/src/core/claim-priority.mjs\<close>): when a bounty has used up its
  connections, the exact priority of a bounty and the order of bounties, the approximate priority of
  a domain, and the sliding hour of connection statistics of a domain.
\<close>

section \<open>The connection limit of a bounty\<close>

definition PRIORITY_FACTOR_SCALE :: int where "PRIORITY_FACTOR_SCALE = 1000000"
definition PRIORITY_FACTOR_MAX :: int where "PRIORITY_FACTOR_MAX = 1100000"
definition MIN_EXPECTED_RETURN :: int where "MIN_EXPECTED_RETURN = 1000"

definition MAX_P2C_SUCCESSFUL_CONNECTIONS :: int where
  "MAX_P2C_SUCCESSFUL_CONNECTIONS = 2 ^ 64 - 1"

datatype priority_error =
    InvalidWorkTarget      \<comment> \<open>Invalid claim work target\<close>
  | InvalidSuccessCount    \<comment> \<open>Invalid successful connection count\<close>
  | InvalidPriorityFactor  \<comment> \<open>Invalid bounty priority factor\<close>
  | InvalidMinReturn       \<comment> \<open>Minimum expected return must be a finite number ...\<close>
  | InvalidAttemptStats    \<comment> \<open>Invalid helper attempt statistics\<close>

definition valid_target :: "string \<Rightarrow> bool" where
  "valid_target t \<longleftrightarrow> length t = 64 \<and> list_all is_lower_hex t"

definition claimConnectionStopCount :: "string \<Rightarrow> priority_error + int" where
  "claimConnectionStopCount target =
     (if \<not> valid_target target then Inl InvalidWorkTarget
      else let firstExceeded = 2 ^ 257 div (int (hex_num target) + 1) + 1
        in Inr (if firstExceeded < MAX_P2C_SUCCESSFUL_CONNECTIONS then firstExceeded
                else MAX_P2C_SUCCESSFUL_CONNECTIONS))"

definition isP2CClaimConnectionLimitExceeded :: "string \<Rightarrow> int \<Rightarrow> priority_error + bool" where
  "isP2CClaimConnectionLimitExceeded target successes =
     (if \<not> valid_target target then Inl InvalidWorkTarget
      else if successes < 0 then Inl InvalidSuccessCount
      else if successes \<ge> MAX_P2C_SUCCESSFUL_CONNECTIONS then Inr True
      else Inr (successes * (int (hex_num target) + 1) > 2 ^ 257))"

lemma div_less_iff_mult: "0 < k \<Longrightarrow> n div k < s \<longleftrightarrow> n < s * (k :: int)"
proof
  assume k: "0 < k" and "n < s * k"
  show "n div k < s"
  proof (rule ccontr)
    assume "\<not> n div k < s"
    then have "s * k \<le> (n div k) * k" using k by (intro mult_right_mono) auto
    also have "\<dots> \<le> n" using k div_mult_mod_eq [of n k] pos_mod_sign [OF k, of n] by linarith
    finally show False using \<open>n < s * k\<close> by simp
  qed
next
  assume k: "0 < k" and "n div k < s"
  show "n < s * k"
  proof (rule ccontr)
    assume "\<not> n < s * k"
    then have "s * k div k \<le> n div k" using k by (intro zdiv_mono1) auto
    with k \<open>n div k < s\<close> show False by simp
  qed
qed

text \<open>
  Property C19: the precomputed stop count and the direct test agree. For a valid target the test stops
  a bounty at a number of successful connections exactly when that number has reached the stop count;
  so a connection count equal to twice the expected number is still allowed, and the saturated
  64-bit counter always stops.
\<close>

theorem stop_count_exact:
  assumes "claimConnectionStopCount target = Inr stop" and "0 \<le> successes"
  shows "isP2CClaimConnectionLimitExceeded target successes = Inr (stop \<le> successes)
     \<and> 1 \<le> stop \<and> stop \<le> MAX_P2C_SUCCESSFUL_CONNECTIONS"
proof -
  define k where "k = int (hex_num target) + 1"
  have k: "0 < k" by (simp add: k_def)
  from assms(1) have v: "valid_target target" by (auto simp: claimConnectionStopCount_def split: if_splits)
  define n where "n = (2 :: int) ^ 257"
  have "n div k < successes \<longleftrightarrow> n < successes * k" using k by (rule div_less_iff_mult)
  moreover have "0 \<le> n div k" using k by (simp add: pos_imp_zdiv_nonneg_iff n_def)
  moreover have "1 \<le> MAX_P2C_SUCCESSFUL_CONNECTIONS" by (simp add: MAX_P2C_SUCCESSFUL_CONNECTIONS_def)
  ultimately show ?thesis using assms v
    unfolding claimConnectionStopCount_def isP2CClaimConnectionLimitExceeded_def Let_def
      k_def [symmetric] n_def [symmetric]
    by (auto split: if_splits)
qed

theorem stop_count_exact_witness:
  "\<exists>stop. claimConnectionStopCount (replicate 64 (CHR ''f'')) = Inr stop
     \<and> isP2CClaimConnectionLimitExceeded (replicate 64 (CHR ''f'')) 3 = Inr (stop \<le> 3)"
proof -
  have "valid_target (replicate 64 (CHR ''f''))" by (simp add: valid_target_def is_lower_hex_def)
  then obtain stop where s: "claimConnectionStopCount (replicate 64 (CHR ''f'')) = Inr stop"
    by (simp add: claimConnectionStopCount_def Let_def)
  from stop_count_exact [OF s, of 3] s show ?thesis by simp
qed

section \<open>The order of bounties\<close>

definition claimPriority :: "string \<Rightarrow> int \<Rightarrow> int" where
  "claimPriority target netReward =
     (if \<not> valid_target target then 0
      else if netReward \<le> 0 \<or> netReward > MAX_MONEY then 0
      else (int (hex_num target) + 1) * netReward)"

definition selectionPriority :: "int \<Rightarrow> int \<Rightarrow> priority_error + int" where
  "selectionPriority raw factor =
     (if factor < PRIORITY_FACTOR_SCALE \<or> factor > PRIORITY_FACTOR_MAX then Inl InvalidPriorityFactor
      else Inr (raw * factor))"

record ranked =
  rk_priority :: int
  rk_txid :: string
  rk_vout :: int

text \<open>\<open>Buffer.compare\<close>: lexicographic, a proper prefix first.\<close>

fun bytes_compare :: "bytes \<Rightarrow> bytes \<Rightarrow> int" where
  "bytes_compare [] [] = 0"
| "bytes_compare [] (b # bs) = - 1"
| "bytes_compare (a # as) [] = 1"
| "bytes_compare (a # as) (b # bs) = (if a < b then - 1 else if b < a then 1 else bytes_compare as bs)"

definition compareClaimPriority :: "('a ranked_scheme) \<Rightarrow> ('a ranked_scheme) \<Rightarrow> int" where
  "compareClaimPriority a b =
     (if rk_priority a \<noteq> rk_priority b then (if rk_priority a > rk_priority b then - 1 else 1)
      else let hashOrder = bytes_compare (rev (bytes_of_hex (rk_txid a))) (rev (bytes_of_hex (rk_txid b)))
        in if hashOrder \<noteq> 0 then hashOrder else rk_vout a - rk_vout b)"

lemma bytes_compare_anti: "bytes_compare b a = - bytes_compare a b"
  by (induction a b rule: bytes_compare.induct) auto

lemma bytes_compare_eq_0 [simp]: "bytes_compare a b = 0 \<longleftrightarrow> a = b"
  by (induction a b rule: bytes_compare.induct) auto

lemma bytes_compare_trans:
  "bytes_compare a b \<le> 0 \<Longrightarrow> bytes_compare b c \<le> 0 \<Longrightarrow> bytes_compare a c \<le> 0"
proof (induction a b arbitrary: c rule: bytes_compare.induct)
  case (2 b bs)
  then show ?case by (cases c) auto
next
  case (4 a as b bs)
  then show ?case by (cases c) (auto split: if_splits)
qed auto

lemma bytes_compare_refl [simp]: "bytes_compare a a = 0"
  by simp

lemma bytes_compare_strict:
  "bytes_compare a b < 0 \<Longrightarrow> bytes_compare b c < 0 \<Longrightarrow> bytes_compare a c < 0"
  using bytes_compare_trans [of a b c] bytes_compare_anti [of b a] bytes_compare_eq_0 [of a c]
  by (cases "a = c") (auto simp: less_le dest: antisym)

lemma compareClaimPriority_anti: "compareClaimPriority b a = - compareClaimPriority a b"
  by (simp add: compareClaimPriority_def Let_def bytes_compare_anti [of "rev (bytes_of_hex (rk_txid b))"])

lemma compareClaimPriority_le: "compareClaimPriority a b \<le> 0 \<longleftrightarrow>
    rk_priority b < rk_priority a \<or> rk_priority a = rk_priority b \<and>
    (let h = bytes_compare (rev (bytes_of_hex (rk_txid a))) (rev (bytes_of_hex (rk_txid b))) in
     h < 0 \<or> h = 0 \<and> rk_vout a \<le> rk_vout b)"
  using bytes_compare_eq_0 [of "rev (bytes_of_hex (rk_txid a))" "rev (bytes_of_hex (rk_txid b))"]
  by (cases "bytes_of_hex (rk_txid a) = bytes_of_hex (rk_txid b)")
    (auto simp: compareClaimPriority_def Let_def simp del: bytes_compare_eq_0)

interpretation claim_order: js_comparator "compareClaimPriority"
proof
  fix a b c :: "'a ranked_scheme"
  show "compareClaimPriority a b \<le> 0 \<or> compareClaimPriority b a \<le> 0"
    using compareClaimPriority_anti [of a b] by linarith
  assume "compareClaimPriority a b \<le> 0" and "compareClaimPriority b c \<le> 0"
  then show "compareClaimPriority a c \<le> 0"
    using bytes_compare_strict [of "rev (bytes_of_hex (rk_txid a))" "rev (bytes_of_hex (rk_txid b))" "rev (bytes_of_hex (rk_txid c))"]
    unfolding compareClaimPriority_le Let_def by auto
qed

text \<open>
  The order of bounties is total and leaves no ties. Sorting with \<open>compareClaimPriority\<close> puts the
  highest priority first and equal priorities in the order of the stored transaction hash and output
  index, and two bounties compare as equal only if they have the same priority, the same hash and the
  same index; so the best bounty of a domain does not depend on the order in which bounties arrive.
\<close>

lemma claim_order_total:
  "sorted_wrt (\<lambda>a b. compareClaimPriority a b \<le> 0) (js_sort compareClaimPriority jobs)
   \<and> set (js_sort compareClaimPriority jobs) = set jobs
   \<and> compareClaimPriority a b = - compareClaimPriority b a
   \<and> (compareClaimPriority a b = 0 \<longleftrightarrow>
        rk_priority a = rk_priority b \<and> bytes_of_hex (rk_txid a) = bytes_of_hex (rk_txid b) \<and> rk_vout a = rk_vout b)"
  using claim_order.sorted_js_sort [of jobs] compareClaimPriority_anti [of a b]
  by (auto simp: compareClaimPriority_def Let_def)

section \<open>The priority of a domain\<close>

fun priority_words :: "nat \<Rightarrow> int \<Rightarrow> int list" where
  "priority_words 0 priority = [priority mod 2 ^ 32]"
| "priority_words (Suc k) priority = (priority div 2 ^ (32 * Suc k)) mod 2 ^ 32 # priority_words k priority"

definition domainPriority :: "('f, 'z) js_float_scheme \<Rightarrow> int \<Rightarrow> 'f \<Rightarrow> 'f \<Rightarrow> 'f" where
  "domainPriority F priority rate scale =
     (if priority < 0 \<or> priority \<ge> 2 ^ 352 \<or> \<not> fl_finite F scale \<or> \<not> fl_less F (fl_int F 0) scale then fl_nan F
      else let numerator = foldl (\<lambda>n w. fl_add F (fl_mul F n (fl_int F 4294967296)) (fl_int F w)) (fl_int F 0)
               (priority_words 10 priority);
             expected = fl_div F numerator (fl_int F (2 ^ 256));
             score = fl_div F (fl_mul F expected rate) scale
        in if fl_infinite F score
           then fl_min F (fl_max_value F) (fl_mul F (fl_div F expected scale) rate) else score)"

definition validateMinExpectedReturn :: "('f, 'z) js_float_scheme \<Rightarrow> 'f \<Rightarrow> priority_error + 'f" where
  "validateMinExpectedReturn F v =
     (if \<not> fl_finite F v \<or> fl_less F v (fl_int F 0) \<or> fl_less F (fl_int F MAX_SAFE_INTEGER) v
      then Inl InvalidMinReturn else Inr v)"

definition isWorthAttempting :: "('f, 'z) js_float_scheme \<Rightarrow> int \<Rightarrow> 'f \<Rightarrow> 'f \<Rightarrow> priority_error + bool" where
  "isWorthAttempting F raw rate minimum =
     bindE (validateMinExpectedReturn F minimum) (\<lambda>_.
     let expected = domainPriority F raw rate (fl_int F 1) in
     Inr (raw > 0 \<and> fl_finite F rate \<and> fl_less F (fl_int F 0) rate \<and> fl_finite F expected
       \<and> \<not> fl_less F expected minimum))"

section \<open>The statistics of a domain\<close>

text \<open>Sixty one-minute buckets; \<open>ds_minute\<close> is \<open>null\<close> before the first use.\<close>

record 'f domain_stats =
  ds_counts :: "int list"
  ds_valid :: "int list"
  ds_seconds :: "'f list"
  ds_minute :: "nat option"
  ds_attempts :: int
  ds_connections :: int
  ds_totalTime :: 'f
  ds_completed :: int

definition domain_stats_new :: "('f, 'z) js_float_scheme \<Rightarrow> 'f domain_stats" where
  "domain_stats_new F = \<lparr>ds_counts = replicate 60 0, ds_valid = replicate 60 0, ds_seconds = replicate 60 (fl_int F 0),
     ds_minute = None, ds_attempts = 0, ds_connections = 0, ds_totalTime = fl_int F 0, ds_completed = 0\<rparr>"

text \<open>The clock reading in whole milliseconds (a fraction does not change the minute); \<open>None\<close> is a
  reading that is not finite.\<close>

definition current_minute :: "int option \<Rightarrow> nat option \<Rightarrow> nat" where
  "current_minute time minute = (case time of
       Some t \<Rightarrow> nat (max 0 (min MAX_SAFE_INTEGER t)) div 60000
     | None \<Rightarrow> (case minute of None \<Rightarrow> 0 | Some m \<Rightarrow> m))"

fun clear_buckets :: "nat \<Rightarrow> nat \<Rightarrow> 'a \<Rightarrow> 'a list \<Rightarrow> 'a list" where
  "clear_buckets from 0 z xs = xs"
| "clear_buckets from (Suc n) z xs = clear_buckets (Suc from) n z (xs[from mod 60 := z])"

definition capped_add :: "('f, 'z) js_float_scheme \<Rightarrow> 'f \<Rightarrow> 'f \<Rightarrow> 'f" where
  "capped_add F a b = fl_min F (fl_max_value F) (fl_add F a b)"

definition stats_advance :: "('f, 'z) js_float_scheme \<Rightarrow> int option \<Rightarrow> 'f domain_stats \<Rightarrow> nat \<times> 'f domain_stats" where
  "stats_advance F time s =
     (let current = current_minute time (ds_minute s);
          minute = (case ds_minute s of None \<Rightarrow> current | Some m \<Rightarrow> max current m);
          last = (case ds_minute s of None \<Rightarrow> minute | Some m \<Rightarrow> m);
          s = s\<lparr>ds_minute := Some last\<rparr>
      in if minute = last then (minute mod 60, s)
         else let clear = (\<lambda>z xs. if minute - last \<ge> 60 then replicate 60 z else clear_buckets (Suc last) (minute - last) z xs);
                  counts = clear 0 (ds_counts s); valid = clear 0 (ds_valid s);
                  seconds = (if minute - last \<ge> 60 then replicate 60 (fl_int F 0)
                             else clear_buckets (Suc last) (minute - last) (fl_int F 0) (ds_seconds s))
           in (minute mod 60,
               s\<lparr>ds_counts := counts, ds_valid := valid, ds_seconds := seconds,
                 ds_attempts := sum_list counts, ds_connections := sum_list valid,
                 ds_totalTime := foldl (capped_add F) (fl_int F 0) seconds, ds_minute := Some minute\<rparr>))"

definition stats_record ::
    "('f, 'z) js_float_scheme \<Rightarrow> int option \<Rightarrow> bool \<Rightarrow> 'f \<Rightarrow> 'f domain_stats \<Rightarrow> 'f domain_stats" where
  "stats_record F time success seconds s =
     (if \<not> fl_finite F seconds \<or> fl_less F seconds (fl_int F 0) then s
      else let (i, s) = stats_advance F time s; v = (if success then 1 else 0) in
        s\<lparr>ds_counts := (ds_counts s)[i := ds_counts s ! i + 1], ds_attempts := ds_attempts s + 1,
          ds_valid := (ds_valid s)[i := ds_valid s ! i + v], ds_connections := ds_connections s + v,
          ds_seconds := (ds_seconds s)[i := capped_add F (ds_seconds s ! i) seconds],
          ds_totalTime := capped_add F (ds_totalTime s) seconds,
          ds_completed := min MAX_SAFE_INTEGER (ds_completed s + 1)\<rparr>)"

definition connectionRate :: "('f, 'z) js_float_scheme \<Rightarrow> int option \<Rightarrow> 'f domain_stats \<Rightarrow> 'f \<times> 'f domain_stats" where
  "connectionRate F time s = (let s = snd (stats_advance F time s) in
     (fl_max F (fl_min_value F) (fl_min F (fl_max_value F)
        (fl_div F (fl_int F (5 + ds_connections s)) (fl_add F (fl_int F 1) (ds_totalTime s)))), s))"

definition stats_snapshot ::
    "('f, 'z) js_float_scheme \<Rightarrow> int option \<Rightarrow> 'f domain_stats \<Rightarrow> (int \<times> int \<times> 'f \<times> int) \<times> 'f domain_stats" where
  "stats_snapshot F time s = (let s = snd (stats_advance F time s) in
     ((ds_attempts s, ds_connections s, ds_totalTime s, ds_completed s), s))"

text \<open>A helper's report: completed attempts and the most recent samples.\<close>

definition validateAttemptStats ::
    "('f, 'z) js_float_scheme \<Rightarrow> string \<Rightarrow> int \<Rightarrow> (bool \<times> 'f) list \<Rightarrow> int \<Rightarrow> priority_error + unit" where
  "validateAttemptStats F validation completed recent maxAttempts =
     (if validation \<noteq> ''certificate-proof-v1'' \<or> \<not> safe_integer completed \<or> completed < 0 \<or> completed > maxAttempts
         \<or> int (length recent) \<noteq> min 100 completed then Inl InvalidAttemptStats
      else if list_ex (\<lambda>(_, t). \<not> fl_finite F t \<or> fl_less F t (fl_int F 0) \<or> fl_less F (fl_int F 3600) t) recent
      then Inl InvalidAttemptStats else Inr ())"

end
