(* ===== verification/Claim_Stats.thy ===== *)
theory Claim_Stats
  imports Claim_Priority
begin

text \<open>
  The sixty buckets of \<open>P2CDomainStats\<close> implement a sliding hour. The specification keeps the whole history
  of recorded attempts with their minutes, outcomes and durations; the three rings of buckets refine it: every
  bucket is what its minute contributed to the last sixty minutes, and a snapshot reports the totals of
  that hour, however the clock jumps.
\<close>

section \<open>The specification\<close>

type_synonym 'f history = "(nat \<times> bool \<times> 'f) list"

definition minute_after :: "int option \<Rightarrow> nat option \<Rightarrow> nat" where
  "minute_after time minute = (case minute of None \<Rightarrow> current_minute time None
     | Some m \<Rightarrow> max (current_minute time (Some m)) m)"

text \<open>The records of the last sixty minutes, those of them in one bucket, and the records of a minute.\<close>

definition last_hour :: "nat \<Rightarrow> 'f history \<Rightarrow> 'f history" where
  "last_hour now h = filter (\<lambda>e. now < fst e + 60) h"

definition bucket :: "nat \<Rightarrow> nat \<Rightarrow> 'f history \<Rightarrow> 'f history" where
  "bucket now i h = filter (\<lambda>e. now < fst e + 60 \<and> fst e mod 60 = i) h"

text \<open>What the records are worth: how many, how many with success, and their time, added as doubles
  in the order of the records.\<close>

definition attempts_of :: "'f history \<Rightarrow> int" where
  "attempts_of h = int (length h)"

definition successes_of :: "'f history \<Rightarrow> int" where
  "successes_of h = int (length (filter (fst \<circ> snd) h))"

definition time_from :: "('f, 'z) js_float_scheme \<Rightarrow> 'f \<Rightarrow> 'f history \<Rightarrow> 'f" where
  "time_from F t h = foldl (capped_add F) t (map (snd \<circ> snd) h)"

definition time_of :: "('f, 'z) js_float_scheme \<Rightarrow> 'f history \<Rightarrow> 'f" where
  "time_of F h = time_from F (fl_int F 0) h"

text \<open>The total time of the hour: the buckets of the earlier minutes, added in the order of the ring
  when the current minute began, and then the records of the current minute.\<close>

definition hour_time :: "('f, 'z) js_float_scheme \<Rightarrow> nat \<Rightarrow> 'f history \<Rightarrow> 'f" where
  "hour_time F now h =
     time_from F (foldl (capped_add F) (fl_int F 0)
         (map (\<lambda>i. time_of F (bucket now i (filter (\<lambda>e. fst e < now) h))) [0..<60]))
       (filter (\<lambda>e. fst e = now) h)"

text \<open>The buckets partition the hour.\<close>

lemma bucket_Cons: "bucket now i (e # h) =
    (if now < fst e + 60 \<and> fst e mod 60 = i then e # bucket now i h else bucket now i h)"
  by (simp add: bucket_def)

lemma last_hour_Cons: "last_hour now (e # h) = (if now < fst e + 60 then e # last_hour now h else last_hour now h)"
  by (simp add: last_hour_def)

lemma sum_buckets: "(\<Sum>i<60. length (filter P (bucket now i h))) = length (filter P (last_hour now h))"
proof (induction h)
  case (Cons e h)
  have "length (filter P (bucket now i (e # h)))
      = (if now < fst e + 60 \<and> P e \<and> i = fst e mod 60 then 1 else 0) + length (filter P (bucket now i h))" for i
    by (auto simp: bucket_Cons)
  then have "(\<Sum>i<60. length (filter P (bucket now i (e # h))))
      = (\<Sum>i<60. if now < fst e + 60 \<and> P e \<and> i = fst e mod 60 then 1 else 0) + (\<Sum>i<60. length (filter P (bucket now i h)))"
    by (simp add: sum.distrib)
  also have "(\<Sum>i<60. if now < fst e + 60 \<and> P e \<and> i = fst e mod 60 then 1 else (0 :: nat)) = (if now < fst e + 60 \<and> P e then 1 else 0)"
    by (cases "now < fst e + 60 \<and> P e") (auto intro!: sum.neutral)
  finally show ?case by (simp add: Cons.IH last_hour_Cons)
qed (simp add: bucket_def last_hour_def)

section \<open>Clearing buckets\<close>

lemma length_clear_buckets [simp]: "length (clear_buckets from n z xs) = length xs"
  by (induction "from" n z xs rule: clear_buckets.induct) simp_all

lemma clear_buckets_nth:
  assumes "length xs = 60" and "i < 60"
  shows "clear_buckets from n z xs ! i = (if \<exists>c. from \<le> c \<and> c < from + n \<and> c mod 60 = i then z else xs ! i)"
  using assms
proof (induction "from" n z xs rule: clear_buckets.induct)
  case (2 "from" n z xs)
  have "(\<exists>c. from \<le> c \<and> c < from + Suc n \<and> c mod 60 = i)
      \<longleftrightarrow> from mod 60 = i \<or> (\<exists>c. Suc from \<le> c \<and> c < Suc from + n \<and> c mod 60 = i)"
    by (metis Suc_leI add_Suc_right add_Suc_shift le_eq_less_or_eq less_add_Suc1 Suc_le_lessD less_imp_le)
  with 2 show ?case by (auto simp: nth_list_update)
qed auto

text \<open>Moving the hour forward forgets exactly the cleared buckets.\<close>

lemma bucket_forward:
  assumes "\<forall>e\<in>set h. fst e \<le> prev" and "prev \<le> now" and "now - prev < 60" and "i < 60"
  shows "bucket now i h = (if \<exists>c. Suc prev \<le> c \<and> c < Suc prev + (now - prev) \<and> c mod 60 = i then [] else bucket prev i h)"
proof (cases "\<exists>c. Suc prev \<le> c \<and> c < Suc prev + (now - prev) \<and> c mod 60 = i")
  case True
  then obtain c where "Suc prev \<le> c" "c < Suc prev + (now - prev)" "c mod 60 = i" by blast
  with assms(2) have c: "prev < c" "c \<le> now" "c mod 60 = i" by linarith+
  have "\<not> (now < m + 60 \<and> m mod 60 = i)" if "m \<le> prev" for m
  proof
    assume "now < m + 60 \<and> m mod 60 = i"
    then have m: "now < m + 60" "m mod 60 = i" by simp_all
    from m(2) c(3) have "c mod 60 = m mod 60" by simp
    then have "60 dvd c - m" by (rule mod_eq_dvd_iff_nat [THEN iffD1, rotated]) (use c that in simp)
    with c that have "60 \<le> c - m" by (intro dvd_imp_le) auto
    with m(1) c(2) show False by linarith
  qed
  with assms(1) have "bucket now i h = []" by (auto simp: bucket_def filter_empty_conv)
  with True show ?thesis by (simp only: if_True)
next
  case False
  have "(now < m + 60 \<and> m mod 60 = i) = (prev < m + 60 \<and> m mod 60 = i)" if "m \<le> prev" for m
  proof (cases "prev < m + 60 \<and> \<not> now < m + 60")
    case True
    then have "Suc prev \<le> m + 60" "m + 60 < Suc prev + (now - prev)" using assms(2) by linarith+
    with False have "(m + 60) mod 60 \<noteq> i" by blast
    then show ?thesis by simp
  next
    case False
    with assms(2) show ?thesis by auto
  qed
  with assms(1) have "bucket now i h = bucket prev i h"
    unfolding bucket_def by (intro filter_cong refl) blast
  with False show ?thesis by (simp only: if_False)
qed

lemma bucket_far:
  assumes "\<forall>e\<in>set h. fst e \<le> prev" and "prev + 60 \<le> now"
  shows "bucket now i h = []"
  using assms by (fastforce simp: bucket_def filter_empty_conv)

section \<open>A ring of buckets\<close>

text \<open>A ring holds a quantity of the records: in every bucket, that of the records that fall there.\<close>

definition holds_ring :: "('f history \<Rightarrow> 'a) \<Rightarrow> nat \<Rightarrow> 'f history \<Rightarrow> 'a list \<Rightarrow> bool" where
  "holds_ring q now h xs \<longleftrightarrow> length xs = 60 \<and> (\<forall>i<60. xs ! i = q (bucket now i h))"

lemma holds_ring_empty: "q [] = z \<Longrightarrow> holds_ring q now [] (replicate 60 z)"
  by (simp add: holds_ring_def bucket_def)

lemma holds_ring_map: "holds_ring q now h xs \<Longrightarrow> xs = map (\<lambda>i. q (bucket now i h)) [0..<60]"
  by (auto simp: holds_ring_def intro: nth_equalityI)

lemma holds_ring_advance:
  assumes "holds_ring q prev h xs" and "q [] = z" and "\<forall>e\<in>set h. fst e \<le> prev" and "prev \<le> now"
  shows "holds_ring q now h (if now - prev \<ge> 60 then replicate 60 z else clear_buckets (Suc prev) (now - prev) z xs)"
  using assms(1,2) clear_buckets_nth [of xs _ "Suc prev" "now - prev" z] bucket_forward [OF assms(3,4)]
    bucket_far [OF assms(3), of now]
  by (auto simp: holds_ring_def)

lemma bucket_snoc: "bucket now i (h @ [(now, x)]) = bucket now i h @ (if now mod 60 = i then [(now, x)] else [])"
  by (simp add: bucket_def)

lemma holds_ring_snoc:
  assumes "holds_ring q now h xs" and "\<And>b. q (b @ [(now, x)]) = f (q b)"
  shows "holds_ring q now (h @ [(now, x)]) (xs[now mod 60 := f (xs ! (now mod 60))])"
  using assms by (auto simp: holds_ring_def bucket_snoc nth_list_update)

lemma sum_attempts: "holds_ring attempts_of now h xs \<Longrightarrow> sum_list xs = attempts_of (last_hour now h)"
  using sum_buckets [of "\<lambda>_. True" now h]
  by (simp add: holds_ring_def attempts_of_def sum_list_sum_nth atLeast0LessThan flip: of_nat_sum)

lemma sum_successes: "holds_ring successes_of now h xs \<Longrightarrow> sum_list xs = successes_of (last_hour now h)"
  using sum_buckets [of "fst \<circ> snd" now h]
  by (simp add: holds_ring_def successes_of_def sum_list_sum_nth atLeast0LessThan flip: of_nat_sum)

section \<open>The refinement\<close>

definition stats_at :: "('f, 'z) js_float_scheme \<Rightarrow> nat \<Rightarrow> 'f domain_stats \<Rightarrow> 'f history \<Rightarrow> bool" where
  "stats_at F now s h \<longleftrightarrow> ds_minute s = Some now \<and> (\<forall>e\<in>set h. fst e \<le> now)
     \<and> holds_ring attempts_of now h (ds_counts s) \<and> holds_ring successes_of now h (ds_valid s)
     \<and> holds_ring (time_of F) now h (ds_seconds s)
     \<and> ds_attempts s = attempts_of (last_hour now h) \<and> ds_connections s = successes_of (last_hour now h)
     \<and> ds_totalTime s = hour_time F now h \<and> ds_completed s = min MAX_SAFE_INTEGER (int (length h))"

definition stats_rel :: "('f, 'z) js_float_scheme \<Rightarrow> 'f domain_stats \<Rightarrow> 'f history \<Rightarrow> bool" where
  "stats_rel F s h = (case ds_minute s of None \<Rightarrow> h = [] \<and> s = domain_stats_new F | Some now \<Rightarrow> stats_at F now s h)"

lemma quantities_empty [simp]: "attempts_of [] = 0" "successes_of [] = 0" "time_of F [] = fl_int F 0" "time_from F t [] = t"
  by (simp_all add: attempts_of_def successes_of_def time_of_def time_from_def)

lemma hour_time_empty:
  assumes "capped_add F (fl_int F 0) (fl_int F 0) = fl_int F 0"
  shows "hour_time F now [] = fl_int F 0"
proof -
  have "foldl (capped_add F) (fl_int F 0) (map (\<lambda>i. fl_int F 0) xs) = fl_int F 0" for xs :: "nat list"
    by (induction xs) (simp_all add: assms)
  then show ?thesis by (simp add: hour_time_def bucket_def del: map_replicate_const)
qed

lemma stats_at_first:
  assumes "capped_add F (fl_int F 0) (fl_int F 0) = fl_int F 0"
  shows "stats_at F now (domain_stats_new F\<lparr>ds_minute := Some now\<rparr>) []"
  using hour_time_empty [OF assms]
  by (simp add: stats_at_def domain_stats_new_def holds_ring_empty last_hour_def MAX_SAFE_INTEGER_def)

lemma hour_time_begins:
  assumes "\<forall>e\<in>set h. fst e < now" and "holds_ring (time_of F) now h xs"
  shows "hour_time F now h = foldl (capped_add F) (fl_int F 0) xs"
proof -
  have "filter (\<lambda>e. fst e < now) h = h" "filter (\<lambda>e. fst e = now) h = []"
    using assms(1) by (auto simp: filter_id_conv filter_empty_conv)
  then show ?thesis by (simp add: hour_time_def holds_ring_map [OF assms(2), symmetric])
qed

lemma stats_advance_at:
  assumes "stats_at F prev s h" and "stats_advance F time s = (i, s')"
  shows "stats_at F (minute_after time (Some prev)) s' h" and "i = minute_after time (Some prev) mod 60"
proof -
  define now where "now = minute_after time (Some prev)"
  have le: "prev \<le> now" by (simp add: now_def minute_after_def)
  from assms(1) have r: "ds_minute s = Some prev" "\<forall>e\<in>set h. fst e \<le> prev" "holds_ring attempts_of prev h (ds_counts s)"
    "holds_ring successes_of prev h (ds_valid s)" "holds_ring (time_of F) prev h (ds_seconds s)"
    "ds_completed s = min MAX_SAFE_INTEGER (int (length h))" by (simp_all add: stats_at_def)
  have m: "max (current_minute time (Some prev)) prev = now" by (simp add: now_def minute_after_def)
  have "stats_at F now s' h \<and> i = now mod 60"
  proof (cases "now = prev")
    case True
    have "s\<lparr>ds_minute := Some prev\<rparr> = s" using r(1) by (cases s) simp
    with True assms r(1) m show ?thesis by (auto simp: stats_advance_def Let_def)
  next
    case False
    let ?clear = "\<lambda>z xs. if now - prev \<ge> 60 then replicate 60 z else clear_buckets (Suc prev) (now - prev) z xs"
    have e: "ds_minute s' = Some now" "i = now mod 60" "ds_completed s' = ds_completed s"
      "ds_counts s' = ?clear 0 (ds_counts s)" "ds_valid s' = ?clear 0 (ds_valid s)"
      "ds_seconds s' = ?clear (fl_int F 0) (ds_seconds s)"
      "ds_attempts s' = sum_list (ds_counts s')" "ds_connections s' = sum_list (ds_valid s')"
      "ds_totalTime s' = foldl (capped_add F) (fl_int F 0) (ds_seconds s')"
      using assms(2) False r(1) m by (auto simp: stats_advance_def Let_def)
    have b: "holds_ring attempts_of now h (ds_counts s')" "holds_ring successes_of now h (ds_valid s')"
      "holds_ring (time_of F) now h (ds_seconds s')"
      unfolding e(4-6) by (intro holds_ring_advance r le; simp)+
    have "\<forall>e\<in>set h. fst e < now" using r(2) le False by fastforce
    with e b r(6) show ?thesis
      by (auto simp: stats_at_def hour_time_begins sum_attempts sum_successes)
  qed
  then show "stats_at F (minute_after time (Some prev)) s' h" and "i = minute_after time (Some prev) mod 60"
    by (simp_all add: now_def)
qed

lemma stats_advance_rel:
  assumes "capped_add F (fl_int F 0) (fl_int F 0) = fl_int F 0"
    and "stats_rel F s h" and "stats_advance F time s = (i, s')"
  shows "stats_at F (minute_after time (ds_minute s)) s' h \<and> i = minute_after time (ds_minute s) mod 60"
proof (cases "ds_minute s")
  case None
  with assms(2) have h: "h = []" "s = domain_stats_new F" by (simp_all add: stats_rel_def)
  define now where "now = minute_after time None"
  have "s' = domain_stats_new F\<lparr>ds_minute := Some now\<rparr>" "i = now mod 60"
    using assms(3) None h by (auto simp: stats_advance_def Let_def now_def minute_after_def)
  with stats_at_first [OF assms(1), of now] None h show ?thesis by (simp add: now_def)
next
  case (Some prev)
  with assms(2) have "stats_at F prev s h" by (simp add: stats_rel_def)
  with stats_advance_at [OF this assms(3)] Some show ?thesis by simp
qed

text \<open>One more record.\<close>

lemma quantities_snoc:
  "attempts_of (b @ [e]) = attempts_of b + 1"
  "successes_of (b @ [(m, success, t)]) = successes_of b + (if success then 1 else 0)"
  "time_of F (b @ [(m, success, t)]) = capped_add F (time_of F b) t"
  by (simp_all add: attempts_of_def successes_of_def time_of_def time_from_def)

lemma last_hour_snoc: "last_hour now (h @ [(now, x)]) = last_hour now h @ [(now, x)]"
  by (simp add: last_hour_def)

lemma hour_time_snoc: "hour_time F now (h @ [(now, success, t)]) = capped_add F (hour_time F now h) t"
  by (simp add: hour_time_def time_from_def)

lemma stats_record_rel:
  assumes "capped_add F (fl_int F 0) (fl_int F 0) = fl_int F 0"
    and "stats_rel F s h" and "fl_finite F seconds" and "\<not> fl_less F seconds (fl_int F 0)"
  shows "stats_at F (minute_after time (ds_minute s)) (stats_record F time success seconds s)
     (h @ [(minute_after time (ds_minute s), success, seconds)])"
proof -
  obtain i s1 where a: "stats_advance F time s = (i, s1)" by (cases "stats_advance F time s")
  define now where "now = minute_after time (ds_minute s)"
  let ?h = "h @ [(now, success, seconds)]" and ?v = "if success then 1 else (0 :: int)"
  from stats_advance_rel [OF assms(1,2) a] have s1: "stats_at F now s1 h" "i = now mod 60" by (simp_all add: now_def)
  then have r: "holds_ring attempts_of now h (ds_counts s1)" "holds_ring successes_of now h (ds_valid s1)"
    "holds_ring (time_of F) now h (ds_seconds s1)" by (simp_all add: stats_at_def)
  have "holds_ring attempts_of now ?h ((ds_counts s1)[now mod 60 := ds_counts s1 ! (now mod 60) + 1])"
    "holds_ring successes_of now ?h ((ds_valid s1)[now mod 60 := ds_valid s1 ! (now mod 60) + ?v])"
    "holds_ring (time_of F) now ?h ((ds_seconds s1)[now mod 60 := capped_add F (ds_seconds s1 ! (now mod 60)) seconds])"
    by (rule holds_ring_snoc [OF r(1), where f = "\<lambda>c. c + 1"], simp add: quantities_snoc)
      (rule holds_ring_snoc [OF r(2), where f = "\<lambda>c. c + ?v"], simp add: quantities_snoc,
       rule holds_ring_snoc [OF r(3), where f = "\<lambda>c. capped_add F c seconds"], simp add: quantities_snoc)
  with s1 assms(3,4) show ?thesis
    by (simp add: stats_record_def a now_def [symmetric] stats_at_def last_hour_snoc quantities_snoc hour_time_snoc Let_def)
qed

section \<open>Any use of the statistics\<close>

datatype 'f stats_op = RecordOp "int option" bool 'f | RateOp "int option" | SnapshotOp "int option"

fun stats_step :: "('f, 'z) js_float_scheme \<Rightarrow> 'f stats_op \<Rightarrow> 'f domain_stats \<Rightarrow> 'f domain_stats" where
  "stats_step F (RecordOp t success seconds) s = stats_record F t success seconds s"
| "stats_step F (RateOp t) s = snd (connectionRate F t s)"
| "stats_step F (SnapshotOp t) s = snd (stats_snapshot F t s)"

text \<open>The specification: the history and the minute of the last clock reading.\<close>

fun history_step :: "('f, 'z) js_float_scheme \<Rightarrow> 'f stats_op \<Rightarrow> 'f history \<times> nat option \<Rightarrow> 'f history \<times> nat option" where
  "history_step F (RecordOp t success seconds) (h, m) =
     (if \<not> fl_finite F seconds \<or> fl_less F seconds (fl_int F 0) then (h, m)
      else (h @ [(minute_after t m, success, seconds)], Some (minute_after t m)))"
| "history_step F (RateOp t) (h, m) = (h, Some (minute_after t m))"
| "history_step F (SnapshotOp t) (h, m) = (h, Some (minute_after t m))"

lemma stats_at_rel: "stats_at F now s h \<Longrightarrow> stats_rel F s h \<and> ds_minute s = Some now"
  by (simp add: stats_rel_def stats_at_def)

lemma stats_step_rel:
  assumes zero: "capped_add F (fl_int F 0) (fl_int F 0) = fl_int F 0"
    and "stats_rel F s h" and "history_step F a (h, ds_minute s) = (h', m')"
  shows "stats_rel F (stats_step F a s) h' \<and> ds_minute (stats_step F a s) = m'"
proof (cases a)
  case (RecordOp t b x)
  show ?thesis
  proof (cases "\<not> fl_finite F x \<or> fl_less F x (fl_int F 0)")
    case True
    with assms RecordOp show ?thesis by (auto simp: stats_record_def)
  next
    case False
    with stats_at_rel [OF stats_record_rel [OF zero assms(2), of x t b]] assms(3) RecordOp show ?thesis by simp
  qed
next
  case (RateOp t)
  obtain i s1 where a: "stats_advance F t s = (i, s1)" by (cases "stats_advance F t s")
  with stats_at_rel [OF stats_advance_rel [OF zero assms(2) a, THEN conjunct1]] assms(3) RateOp
  show ?thesis by (simp add: connectionRate_def Let_def)
next
  case (SnapshotOp t)
  obtain i s1 where a: "stats_advance F t s = (i, s1)" by (cases "stats_advance F t s")
  with stats_at_rel [OF stats_advance_rel [OF zero assms(2) a, THEN conjunct1]] assms(3) SnapshotOp
  show ?thesis by (simp add: stats_snapshot_def Let_def)
qed

lemma stats_run_rel:
  assumes zero: "capped_add F (fl_int F 0) (fl_int F 0) = fl_int F 0"
  shows "stats_rel F s h \<Longrightarrow> fold (history_step F) ops (h, ds_minute s) = (h', m') \<Longrightarrow>
     stats_rel F (fold (stats_step F) ops s) h' \<and> ds_minute (fold (stats_step F) ops s) = m'"
proof (induction ops arbitrary: s h)
  case (Cons a ops)
  obtain h1 m1 where 1: "history_step F a (h, ds_minute s) = (h1, m1)" by (cases "history_step F a (h, ds_minute s)")
  from stats_step_rel [OF zero Cons.prems(1) 1] Cons.IH [of "stats_step F a s" h1] Cons.prems(2) 1 show ?case by simp
qed simp

lemma exact_float_sel:
  "fl_int exact_float n = of_int n" "fl_less exact_float = (<)" "fl_finite exact_float x" "fl_add exact_float = (+)"
  by (simp_all add: exact_float_def)

lemma exact_capped_add: "\<bar>a + b\<bar> \<le> 1000 \<Longrightarrow> capped_add exact_float a b = a + b"
proof -
  assume "\<bar>a + b\<bar> \<le> 1000"
  moreover have "1000 < fl_max_value exact_float" by (simp add: exact_float_def)
  ultimately have "a + b < fl_max_value exact_float" by linarith
  then show ?thesis by (simp add: capped_add_def fl_min_def exact_float_sel)
qed

text \<open>
  Property C20: the statistics of a domain are those of the last sixty minutes. After any sequence of
  records and readings, with any clock, every bucket of the three rings is exactly the number, the
  successes and the time of the records of its minute within the last sixty minutes of the full history,
  and a snapshot reports the number, the successes and the time of the records of that hour, and how
  many there were altogether; a clock that runs backwards counts as standing still, and a record with
  an impossible duration is ignored. Times are doubles, added in the order of the records, capped at
  the largest double; the hypothesis is that zero and zero are zero.
\<close>

theorem stats_sliding_hour:
  assumes "capped_add F (fl_int F 0) (fl_int F 0) = fl_int F 0"
    and "fold (history_step F) ops ([], None) = (h, m)"
    and "stats_snapshot F time (fold (stats_step F) ops (domain_stats_new F)) = ((attempts, connections, spent, completed), s)"
    and "now = minute_after time m"
  shows "attempts = attempts_of (last_hour now h) \<and> connections = successes_of (last_hour now h)
     \<and> spent = hour_time F now h \<and> completed = min MAX_SAFE_INTEGER (int (length h))
     \<and> (\<forall>i<60. ds_counts s ! i = attempts_of (bucket now i h) \<and> ds_valid s ! i = successes_of (bucket now i h)
          \<and> ds_seconds s ! i = time_of F (bucket now i h))"
proof -
  define s0 where "s0 = fold (stats_step F) ops (domain_stats_new F)"
  have "ds_minute (domain_stats_new F) = None" by (simp add: domain_stats_new_def)
  then have "stats_rel F (domain_stats_new F) []" by (simp add: stats_rel_def)
  with stats_run_rel [OF assms(1), of "domain_stats_new F" "[]" ops h m] assms(2) \<open>ds_minute _ = None\<close>
  have r: "stats_rel F s0 h" "ds_minute s0 = m" by (simp_all add: s0_def)
  obtain i s1 where a: "stats_advance F time s0 = (i, s1)" by (cases "stats_advance F time s0")
  from assms(3) a have "s = s1" "attempts = ds_attempts s1" "connections = ds_connections s1" "spent = ds_totalTime s1"
    "completed = ds_completed s1" by (auto simp: stats_snapshot_def Let_def s0_def [symmetric])
  with stats_advance_rel [OF assms(1) r(1) a] r(2) assms(4) show ?thesis
    by (simp add: stats_at_def holds_ring_def)
qed

theorem stats_sliding_hour_witness:
  "\<exists>c t s. stats_snapshot exact_float (Some 3660000)
       (fold (stats_step exact_float) [RecordOp (Some 0) True 1, RecordOp (Some 120000) False 2] (domain_stats_new exact_float))
     = ((1, c, t, 2), s) \<and> ds_seconds s ! 0 = 0 \<and> ds_seconds s ! 2 = 2"
proof -
  let ?h = "[(0, True, 1), (2, False, 2)]"
  have h: "fold (history_step exact_float) [RecordOp (Some 0) True 1, RecordOp (Some 120000) False 2] ([], None) = (?h, Some 2)"
    by (simp add: exact_float_sel minute_after_def current_minute_def MAX_SAFE_INTEGER_def)
  have z: "capped_add exact_float (fl_int exact_float 0) (fl_int exact_float 0) = fl_int exact_float 0"
    by (simp add: exact_capped_add exact_float_sel)
  have now: "61 = minute_after (Some 3660000) (Some 2)"
    by (simp add: minute_after_def current_minute_def MAX_SAFE_INTEGER_def)
  obtain n c t k s where s: "stats_snapshot exact_float (Some 3660000)
       (fold (stats_step exact_float) [RecordOp (Some 0) True 1, RecordOp (Some 120000) False 2] (domain_stats_new exact_float))
     = ((n, c, t, k), s)" by (metis prod.exhaust)
  have v: "attempts_of (last_hour 61 ?h) = 1" "min MAX_SAFE_INTEGER (int (length ?h)) = 2"
    by (simp_all add: attempts_of_def last_hour_def MAX_SAFE_INTEGER_def)
  have b: "time_of exact_float (bucket 61 0 ?h) = 0" "time_of exact_float (bucket 61 2 ?h) = 2"
    by (simp_all add: bucket_def time_of_def time_from_def exact_capped_add exact_float_sel)
  from stats_sliding_hour [OF z h s now] v have "n = 1" "k = 2"
    and r: "\<forall>i<60. ds_seconds s ! i = time_of exact_float (bucket 61 i ?h)" by simp_all
  from s have "stats_snapshot exact_float (Some 3660000)
       (fold (stats_step exact_float) [RecordOp (Some 0) True 1, RecordOp (Some 120000) False 2] (domain_stats_new exact_float))
     = ((1, c, t, 2), s)" unfolding \<open>n = 1\<close> \<open>k = 2\<close> .
  moreover have "ds_seconds s ! 0 = 0" "ds_seconds s ! 2 = 2"
    using r [THEN spec, of 0] r [THEN spec, of 2] unfolding b by simp_all
  ultimately show ?thesis by blast
qed

end
