(* ===== verification/Connection_Policy.thy ===== *)
theory Connection_Policy
  imports Js_Map
begin

text \<open>
  Recovery probes of claim policies (\<open>src/src/core/claim-connection-policy.mjs\<close>): a bounded table of
  sampling episodes, one global gate of 250 ms between probe starts and at most one reservation.
  A policy key is a string and a reservation token a number; times are milliseconds.
\<close>

definition RECOVERY_PROBE_INTERVAL_MS :: int where "RECOVERY_PROBE_INTERVAL_MS = 60000"
definition BOOTSTRAP_PROBE_COUNT :: int where "BOOTSTRAP_PROBE_COUNT = 32"
definition BOOTSTRAP_PROBE_INTERVAL_MS :: int where "BOOTSTRAP_PROBE_INTERVAL_MS = 250"
definition MAX_RECOVERY_POLICIES :: nat where "MAX_RECOVERY_POLICIES = 256"

record probe =
  pb_started :: int
  pb_due :: int

record connection_policy =
  cp_probes :: "(string, probe) jmap"
  cp_nextGlobalStart :: int
  cp_reservation :: "(string \<times> nat) option"

definition connection_policy_new :: connection_policy where
  "connection_policy_new = \<lparr>cp_probes = [], cp_nextGlobalStart = 0, cp_reservation = None\<rparr>"

definition reserved_key :: "connection_policy \<Rightarrow> string option" where
  "reserved_key p = map_option fst (cp_reservation p)"

definition policy_entry :: "string \<Rightarrow> int \<Rightarrow> connection_policy \<Rightarrow> probe \<times> connection_policy" where
  "policy_entry key now p = (case jget (cp_probes p) key of
       Some e \<Rightarrow> (e, p)
     | None \<Rightarrow>
         let probes = (if length (cp_probes p) \<ge> MAX_RECOVERY_POLICIES
               then (case find (\<lambda>candidate. Some candidate \<noteq> reserved_key p) (jkeys (cp_probes p)) of
                       Some oldest \<Rightarrow> jdelete (cp_probes p) oldest
                     | None \<Rightarrow> cp_probes p)
               else cp_probes p);
             e = \<lparr>pb_started = 0, pb_due = now\<rparr>
         in (e, p\<lparr>cp_probes := jset probes key e\<rparr>))"

definition probeDue :: "string \<Rightarrow> int \<Rightarrow> connection_policy \<Rightarrow> int \<times> connection_policy" where
  "probeDue key now p = (let (e, p) = policy_entry key now p in (max (pb_due e) (cp_nextGlobalStart p), p))"

definition reserveProbe :: "string \<Rightarrow> nat \<Rightarrow> int \<Rightarrow> connection_policy \<Rightarrow> bool \<times> connection_policy" where
  "reserveProbe key token now p =
     (if cp_reservation p \<noteq> None then (False, p)
      else let (due, p) = probeDue key now p in
        if due > now then (False, p) else (True, p\<lparr>cp_reservation := Some (key, token)\<rparr>))"

definition releaseProbe :: "nat \<Rightarrow> connection_policy \<Rightarrow> bool \<times> connection_policy" where
  "releaseProbe token p = (case cp_reservation p of
       Some (_, t) \<Rightarrow> if t \<noteq> token then (False, p) else (True, p\<lparr>cp_reservation := None\<rparr>)
     | None \<Rightarrow> (False, p))"

definition bump_probe :: "int \<Rightarrow> probe \<Rightarrow> probe" where
  "bump_probe now e = (let started = min BOOTSTRAP_PROBE_COUNT (pb_started e + 1) in
     \<lparr>pb_started = started, pb_due = now + (if started < BOOTSTRAP_PROBE_COUNT
        then BOOTSTRAP_PROBE_INTERVAL_MS else RECOVERY_PROBE_INTERVAL_MS)\<rparr>)"

text \<open>\<open>None\<close> is the thrown error \<open>Invalid recovery start reservation\<close>.\<close>

definition probeStarted :: "string \<Rightarrow> int \<Rightarrow> nat option \<Rightarrow> connection_policy \<Rightarrow> (int \<times> connection_policy) option" where
  "probeStarted key now token p =
     (if (case token of Some t \<Rightarrow> cp_reservation p \<noteq> Some (key, t) | None \<Rightarrow> False) then None
      else let (e, p) = policy_entry key now p;
               p = p\<lparr>cp_nextGlobalStart := max (cp_nextGlobalStart p) (now + BOOTSTRAP_PROBE_INTERVAL_MS),
                     cp_probes := jset (jdelete (cp_probes p) key) key (bump_probe now e)\<rparr>;
               p = (case token of Some t \<Rightarrow> snd (releaseProbe t p) | None \<Rightarrow> p)
           in Some (probeDue key now p))"

definition policy_retain :: "string set \<Rightarrow> connection_policy \<Rightarrow> connection_policy" where
  "policy_retain policies p =
     p\<lparr>cp_probes := filter (\<lambda>(key, _). key \<in> policies \<or> Some key = reserved_key p) (cp_probes p)\<rparr>"

definition policy_clear :: "connection_policy \<Rightarrow> connection_policy" where
  "policy_clear p = p\<lparr>cp_probes := []\<rparr>"

section \<open>Invariant\<close>

definition policy_ok :: "connection_policy \<Rightarrow> bool" where
  "policy_ok p \<longleftrightarrow> wf_jmap (cp_probes p) \<and> length (cp_probes p) \<le> MAX_RECOVERY_POLICIES
     \<and> (\<forall>e\<in>set (cp_probes p). 0 \<le> pb_started (snd e) \<and> pb_started (snd e) \<le> BOOTSTRAP_PROBE_COUNT)"

lemma policy_ok_new: "policy_ok connection_policy_new"
  by (simp add: policy_ok_def connection_policy_new_def)

lemma find_unreserved:
  assumes "wf_jmap m" and "2 \<le> length m"
  shows "\<exists>k. find (\<lambda>c. Some c \<noteq> r) (jkeys m) = Some k \<and> k \<in> set (jkeys m)"
proof -
  obtain a b m' where m: "m = a # b # m'" using assms(2) by (cases m; cases "tl m") auto
  then have "fst a \<noteq> fst b" using assms(1) by auto
  then show ?thesis by (cases r) (auto simp: m)
qed

lemma policy_entry_ok:
  assumes ok: "policy_ok p" and e: "policy_entry key now p = (e, p')"
  shows "policy_ok p' \<and> jget (cp_probes p') key = Some e \<and> 0 \<le> pb_started e
     \<and> cp_nextGlobalStart p' = cp_nextGlobalStart p \<and> cp_reservation p' = cp_reservation p"
proof (cases "jget (cp_probes p) key")
  case (Some x)
  with e ok jget_in_set [OF Some] show ?thesis by (auto simp: policy_entry_def policy_ok_def)
next
  case None
  define probes where "probes = (if length (cp_probes p) \<ge> MAX_RECOVERY_POLICIES
               then (case find (\<lambda>candidate. Some candidate \<noteq> reserved_key p) (jkeys (cp_probes p)) of
                       Some oldest \<Rightarrow> jdelete (cp_probes p) oldest
                     | None \<Rightarrow> cp_probes p)
               else cp_probes p)"
  have p': "e = \<lparr>pb_started = 0, pb_due = now\<rparr>" "p' = p\<lparr>cp_probes := jset probes key e\<rparr>"
    using e None by (auto simp: policy_entry_def Let_def probes_def)
  have sub: "set probes \<subseteq> set (cp_probes p)" and wf: "wf_jmap probes" and len: "length probes < MAX_RECOVERY_POLICIES"
  proof -
    show "set probes \<subseteq> set (cp_probes p)" 
      by (auto simp: probes_def split: option.splits dest: subsetD [OF set_jdelete_subset])
    show "wf_jmap probes" using ok by (simp add: probes_def policy_ok_def split: option.splits)
    show "length probes < MAX_RECOVERY_POLICIES"
    proof (cases "length (cp_probes p) \<ge> MAX_RECOVERY_POLICIES")
      case True
      with ok have l: "2 \<le> length (cp_probes p)" "length (cp_probes p) \<le> MAX_RECOVERY_POLICIES" "wf_jmap (cp_probes p)"
        by (simp_all add: policy_ok_def MAX_RECOVERY_POLICIES_def)
      from find_unreserved [OF l(3,1), of "reserved_key p"] obtain k where
        k: "find (\<lambda>c. Some c \<noteq> reserved_key p) (jkeys (cp_probes p)) = Some k" "k \<in> set (jkeys (cp_probes p))" by blast
      then have "jhas (cp_probes p) k" by (simp add: jhas_def map_of_eq_None_iff)
      from length_jdelete [OF l(3) this] k True l(2) show ?thesis by (simp add: probes_def)
    qed (simp add: probes_def)
  qed
  have "\<forall>x\<in>set probes. 0 \<le> pb_started (snd x) \<and> pb_started (snd x) \<le> BOOTSTRAP_PROBE_COUNT"
    using ok sub by (auto simp: policy_ok_def)
  then have "\<forall>x\<in>set (jset probes key e). 0 \<le> pb_started (snd x) \<and> pb_started (snd x) \<le> BOOTSTRAP_PROBE_COUNT"
    by (rule ball_jset) (simp add: p'(1) BOOTSTRAP_PROBE_COUNT_def)
  with wf len show ?thesis unfolding p'(2) by (simp add: policy_ok_def p'(1) length_jset)
qed

lemma releaseProbe_ok:
  "releaseProbe t p = (r, p') \<Longrightarrow> cp_probes p' = cp_probes p \<and> cp_nextGlobalStart p' = cp_nextGlobalStart p"
  by (auto simp: releaseProbe_def split: option.splits if_splits)

lemma probeDue_ok:
  assumes "policy_ok p" and "probeDue key now p = (d, p')"
  shows "policy_ok p' \<and> cp_nextGlobalStart p \<le> d \<and> cp_nextGlobalStart p' = cp_nextGlobalStart p
     \<and> cp_reservation p' = cp_reservation p"
proof -
  obtain e p1 where e: "policy_entry key now p = (e, p1)" by (cases "policy_entry key now p")
  with policy_entry_ok [OF assms(1) e] assms(2) show ?thesis by (auto simp: probeDue_def)
qed

lemma reserveProbe_ok:
  assumes "policy_ok p" and "reserveProbe key t now p = (r, p')"
  shows "policy_ok p' \<and> cp_nextGlobalStart p' = cp_nextGlobalStart p
     \<and> (r \<longrightarrow> cp_reservation p = None \<and> cp_reservation p' = Some (key, t) \<and> cp_nextGlobalStart p \<le> now)"
proof -
  obtain d p1 where d: "probeDue key now p = (d, p1)" by (cases "probeDue key now p")
  with probeDue_ok [OF assms(1) d] assms show ?thesis 
    by (cases "cp_reservation p") (auto simp: reserveProbe_def policy_ok_def split: if_splits)
qed

lemma probeStarted_ok:
  assumes "policy_ok p" and "probeStarted key now t p = Some (d, p')"
  shows "policy_ok p' \<and> cp_nextGlobalStart p' = max (cp_nextGlobalStart p) (now + BOOTSTRAP_PROBE_INTERVAL_MS)"
proof -
  obtain e p1 where e: "policy_entry key now p = (e, p1)" by (cases "policy_entry key now p")
  note o1 = policy_entry_ok [OF assms(1) e]
  define e' where "e' = bump_probe now e"
  define p2 where "p2 = p1\<lparr>cp_nextGlobalStart := max (cp_nextGlobalStart p1) (now + BOOTSTRAP_PROBE_INTERVAL_MS),
                     cp_probes := jset (jdelete (cp_probes p1) key) key e'\<rparr>"
  define p3 where "p3 = (case t of Some t \<Rightarrow> snd (releaseProbe t p2) | None \<Rightarrow> p2)"
  have d: "probeDue key now p3 = (d, p')"
    using assms(2) by (cases t) (simp_all add: probeStarted_def e Let_def e'_def p2_def p3_def split: if_splits)
  have has: "jhas (cp_probes p1) key" using o1 by (simp add: jhas_def)
  have wf: "wf_jmap (cp_probes p1)" using o1 by (simp add: policy_ok_def)
  have "length (jset (jdelete (cp_probes p1) key) key e') = length (cp_probes p1)"
    using length_jdelete [OF wf has] by (simp add: length_jset jhas_def)
  moreover have "\<forall>x\<in>set (jset (jdelete (cp_probes p1) key) key e').
      0 \<le> pb_started (snd x) \<and> pb_started (snd x) \<le> BOOTSTRAP_PROBE_COUNT"
    using o1 by (intro ball_jset ball_jdelete)
      (auto simp: policy_ok_def e'_def bump_probe_def Let_def BOOTSTRAP_PROBE_COUNT_def)
  ultimately have "policy_ok p2" using o1 by (simp add: policy_ok_def p2_def)
  moreover have "cp_probes p3 = cp_probes p2 \<and> cp_nextGlobalStart p3 = cp_nextGlobalStart p2"
  proof (cases t)
    case (Some x)
    with releaseProbe_ok [of x p2 "fst (releaseProbe x p2)" "snd (releaseProbe x p2)"] show ?thesis by (simp add: p3_def)
  qed (simp add: p3_def)
  ultimately have "policy_ok p3" "cp_nextGlobalStart p3 = cp_nextGlobalStart p2" by (simp_all add: policy_ok_def)
  with probeDue_ok [OF this(1) d] o1 show ?thesis by (simp add: p2_def)
qed

text \<open>A start with a token spends the reservation it names.\<close>

lemma probeStarted_spends:
  assumes "policy_ok p" and "probeStarted key now (Some t) p = Some (d, p')"
  shows "cp_reservation p = Some (key, t) \<and> cp_reservation p' = None"
proof -
  obtain e p1 where e: "policy_entry key now p = (e, p1)" by (cases "policy_entry key now p")
  note o1 = policy_entry_ok [OF assms(1) e]
  from assms(2) have r: "cp_reservation p = Some (key, t)" by (simp add: probeStarted_def split: if_splits)
  have due: "cp_reservation (snd (probeDue key now q)) = cp_reservation q" for q
    by (simp add: probeDue_def policy_entry_def Let_def split: prod.splits option.splits if_splits)
  from assms(2) r o1 show ?thesis
    by (auto simp: probeStarted_def e Let_def releaseProbe_def dest!: arg_cong [where f = "cp_reservation \<circ> snd"] simp: due)
qed

lemma policy_retain_ok: "policy_ok p \<Longrightarrow> policy_ok (policy_retain ks p)"
  by (auto simp: policy_ok_def policy_retain_def intro: le_trans [OF length_filter_le])

section \<open>Any use of the policy\<close>

datatype policy_op = DueOp string int | ReserveOp string nat int | ReleaseOp nat
  | StartOp string int "nat option" | RetainOp "string set" | ClearPolicyOp

text \<open>A start that throws leaves the policy unchanged; the list collects the times of successful starts.\<close>

fun policy_step :: "policy_op \<Rightarrow> connection_policy \<times> int list \<Rightarrow> connection_policy \<times> int list" where
  "policy_step (DueOp k now) (p, ts) = (snd (probeDue k now p), ts)"
| "policy_step (ReserveOp k t now) (p, ts) = (snd (reserveProbe k t now p), ts)"
| "policy_step (ReleaseOp t) (p, ts) = (snd (releaseProbe t p), ts)"
| "policy_step (StartOp k now t) (p, ts) =
     (case probeStarted k now t p of None \<Rightarrow> (p, ts) | Some (_, p) \<Rightarrow> (p, now # ts))"
| "policy_step (RetainOp ks) (p, ts) = (policy_retain ks p, ts)"
| "policy_step ClearPolicyOp (p, ts) = (policy_clear p, ts)"

definition policy_inv :: "connection_policy \<times> int list \<Rightarrow> bool" where
  "policy_inv = (\<lambda>(p, ts). policy_ok p \<and> (\<forall>t\<in>set ts. t + BOOTSTRAP_PROBE_INTERVAL_MS \<le> cp_nextGlobalStart p))"

lemma policy_step_inv:
  assumes "policy_inv s"
  shows "policy_inv (policy_step a s)"
proof -
  obtain p ts where s: "s = (p, ts)" by (cases s)
  with assms have ok: "policy_ok p" and ts: "\<forall>t\<in>set ts. t + BOOTSTRAP_PROBE_INTERVAL_MS \<le> cp_nextGlobalStart p"
    by (simp_all add: policy_inv_def)
  show ?thesis
  proof (cases a)
    case (DueOp k now)
    then show ?thesis using probeDue_ok [OF ok] ts by (cases "probeDue k now p") (simp add: s policy_inv_def)
  next
    case (ReserveOp k t now)
    then show ?thesis using reserveProbe_ok [OF ok] ts
      by (cases "reserveProbe k t now p") (simp add: s policy_inv_def)
  next
    case (ReleaseOp t)
    then show ?thesis using releaseProbe_ok ok ts
      by (cases "releaseProbe t p") (simp add: s policy_inv_def policy_ok_def)
  next
    case (StartOp k now t)
    show ?thesis
    proof (cases "probeStarted k now t p")
      case (Some r)
      then show ?thesis using probeStarted_ok [OF ok, of k now t "fst r" "snd r"] ts
        by (cases r) (auto simp: s policy_inv_def StartOp intro: order_trans)
    qed (use StartOp s assms in simp)
  next
    case (RetainOp ks)
    then show ?thesis using policy_retain_ok [OF ok] ts by (simp add: s policy_inv_def policy_retain_def)
  next
    case ClearPolicyOp
    then show ?thesis using ts by (simp add: s policy_inv_def policy_clear_def policy_ok_def)
  qed
qed

lemma policy_run_inv: "policy_inv s \<Longrightarrow> policy_inv (fold policy_step ops s)"
  by (induction ops arbitrary: s) (simp_all add: policy_step_inv)

section \<open>The distance of the starts\<close>

text \<open>The clock readings of a call, and that a start names its reservation, as the engine always does.\<close>

fun op_time :: "policy_op \<Rightarrow> int list" where
  "op_time (DueOp _ now) = [now]"
| "op_time (ReserveOp _ _ now) = [now]"
| "op_time (StartOp _ now _) = [now]"
| "op_time _ = []"

fun names_reservation :: "policy_op \<Rightarrow> bool" where
  "names_reservation (StartOp _ _ token) = (token \<noteq> None)"
| "names_reservation _ = True"

definition starts_spaced :: "int list \<Rightarrow> bool" where
  "starts_spaced = sorted_wrt (\<lambda>later earlier. earlier + BOOTSTRAP_PROBE_INTERVAL_MS \<le> later)"

text \<open>Between a reservation and its start no other probe starts, so the global gate stays behind the clock.\<close>

definition gate_inv :: "int \<Rightarrow> connection_policy \<times> int list \<Rightarrow> bool" where
  "gate_inv time = (\<lambda>(p, ts). starts_spaced ts \<and> (cp_reservation p \<noteq> None \<longrightarrow> cp_nextGlobalStart p \<le> time))"

lemma gate_inv_mono: "gate_inv time s \<Longrightarrow> time \<le> time' \<Longrightarrow> gate_inv time' s"
  by (auto simp: gate_inv_def)

lemma policy_step_gate:
  assumes i: "policy_inv s" and g: "gate_inv time s" and t: "\<forall>t\<in>set (op_time a). time \<le> t" and n: "names_reservation a"
  shows "gate_inv (last (time # op_time a)) (policy_step a s)"
proof -
  obtain p ts where s: "s = (p, ts)" by (cases s)
  with i g have ok: "policy_ok p" and ts: "\<forall>t\<in>set ts. t + BOOTSTRAP_PROBE_INTERVAL_MS \<le> cp_nextGlobalStart p"
    and sp: "starts_spaced ts" and r: "cp_reservation p \<noteq> None \<longrightarrow> cp_nextGlobalStart p \<le> time"
    by (simp_all add: policy_inv_def gate_inv_def)
  show ?thesis
  proof (cases a)
    case (DueOp k now)
    then show ?thesis using probeDue_ok [OF ok] sp r t by (cases "probeDue k now p") (auto simp: s gate_inv_def)
  next
    case (ReserveOp k x now)
    obtain b p' where b: "reserveProbe k x now p = (b, p')" by (cases "reserveProbe k x now p")
    have "\<not> b \<Longrightarrow> cp_reservation p' = cp_reservation p" using b probeDue_ok [OF ok]
      by (cases "probeDue k now p") (auto simp: reserveProbe_def Let_def split: if_splits)
    with reserveProbe_ok [OF ok b] ReserveOp b sp r t show ?thesis by (cases b) (auto simp: s gate_inv_def)
  next
    case (ReleaseOp x)
    then show ?thesis using sp r by (auto simp: s gate_inv_def releaseProbe_def split: option.splits)
  next
    case (StartOp k now x)
    from n StartOp obtain y where y: "x = Some y" by auto
    show ?thesis
    proof (cases "probeStarted k now x p")
      case (Some q)
      obtain d p' where q: "q = (d, p')" by (cases q)
      from probeStarted_spends [OF ok Some [unfolded y q]] r t StartOp
      have "cp_nextGlobalStart p \<le> now" "cp_reservation p' = None" by auto
      with ts sp have "starts_spaced (now # ts)" by (auto simp: starts_spaced_def)
      with Some q \<open>cp_reservation p' = None\<close> StartOp show ?thesis by (simp add: s gate_inv_def)
    qed (use StartOp s sp r t in \<open>auto simp: gate_inv_def\<close>)
  next
    case (RetainOp ks)
    then show ?thesis using sp r by (simp add: s gate_inv_def policy_retain_def)
  next
    case ClearPolicyOp
    then show ?thesis using sp r by (simp add: s gate_inv_def policy_clear_def)
  qed
qed

lemma policy_run_gate:
  "policy_inv s \<Longrightarrow> gate_inv time s \<Longrightarrow> sorted (time # concat (map op_time ops)) \<Longrightarrow> \<forall>a\<in>set ops. names_reservation a \<Longrightarrow>
     starts_spaced (snd (fold policy_step ops s))"
proof (induction ops arbitrary: s time)
  case Nil
  then show ?case by (cases s) (simp add: gate_inv_def)
next
  case (Cons a ops)
  have "op_time a = [] \<or> (\<exists>t. op_time a = [t])" by (cases a) simp_all
  then have srt: "sorted (last (time # op_time a) # concat (map op_time ops))" "\<forall>t\<in>set (op_time a). time \<le> t"
    using Cons.prems(3) by auto
  have "gate_inv (last (time # op_time a)) (policy_step a s)"
    using policy_step_gate [OF Cons.prems(1,2) srt(2)] Cons.prems(4) by simp
  from Cons.IH [OF policy_step_inv [OF Cons.prems(1)] this srt(1)] Cons.prems(4) show ?case by simp
qed

text \<open>
  Property C21: recovery probes are rate limited. However calls interleave, as long as the clock does not run
  backwards and every start names its reservation (as the engine does), any two probes that were started
  are at least 250 ms apart, also when they belong to different policies or the policies were evicted
  or cleared in between; at most 256 policies are tracked, each with at most 32 counted starts; and a
  probe is reserved only when no other reservation exists and the last start is 250 ms ago.
\<close>

theorem probe_rate_limited:
  assumes "fold policy_step ops (connection_policy_new, []) = (p, starts)"
    and "sorted (concat (map op_time ops))" and "\<forall>a\<in>set ops. names_reservation a"
  shows "sorted_wrt (\<lambda>later earlier. earlier + BOOTSTRAP_PROBE_INTERVAL_MS \<le> later) starts
     \<and> length (cp_probes p) \<le> MAX_RECOVERY_POLICIES
     \<and> (\<forall>e\<in>set (cp_probes p). pb_started (snd e) \<le> BOOTSTRAP_PROBE_COUNT)
     \<and> (fst (reserveProbe key token now p) \<longrightarrow> cp_reservation p = None
          \<and> cp_reservation (snd (reserveProbe key token now p)) = Some (key, token)
          \<and> (\<forall>t\<in>set starts. t + BOOTSTRAP_PROBE_INTERVAL_MS \<le> now))"
proof -
  have i: "policy_inv (connection_policy_new, [])" by (simp add: policy_inv_def policy_ok_new)
  define time where "time = Min (insert 0 (set (concat (map op_time ops))))"
  have "sorted (time # concat (map op_time ops))" using assms(2) by (simp add: time_def)
  moreover have "gate_inv time (connection_policy_new, [])"
    by (simp add: gate_inv_def starts_spaced_def connection_policy_new_def)
  ultimately have "starts_spaced starts" using policy_run_gate [OF i, of time ops] assms(1,3) by simp
  moreover from policy_run_inv [OF i, of ops] assms(1) have
    p: "policy_ok p" "\<forall>t\<in>set starts. t + BOOTSTRAP_PROBE_INTERVAL_MS \<le> cp_nextGlobalStart p"
    by (simp_all add: policy_inv_def)
  obtain r p' where r: "reserveProbe key token now p = (r, p')" by (cases "reserveProbe key token now p")
  ultimately show ?thesis using p reserveProbe_ok [OF p(1) r] by (fastforce simp: policy_ok_def starts_spaced_def)
qed

theorem probe_rate_limited_witness:
  "\<exists>p. fold policy_step [ReserveOp ''a'' 1 1000, StartOp ''b'' 1000 (Some 2), StartOp ''a'' 1000 (Some 1),
         ReserveOp ''b'' 2 1100, StartOp ''b'' 1100 (Some 2), ReserveOp ''b'' 3 1250, StartOp ''b'' 1250 (Some 3)]
       (connection_policy_new, []) = (p, [1250, 1000])
     \<and> (1000 :: int) + BOOTSTRAP_PROBE_INTERVAL_MS \<le> 1250"
proof -
  let ?ops = "[ReserveOp ''a'' 1 1000, StartOp ''b'' 1000 (Some 2), StartOp ''a'' 1000 (Some 1),
         ReserveOp ''b'' 2 1100, StartOp ''b'' 1100 (Some 2), ReserveOp ''b'' 3 1250, StartOp ''b'' 1250 (Some 3)]"
  have "snd (fold policy_step ?ops (connection_policy_new, [])) = [1250, 1000]" by code_simp
  then obtain p where p: "fold policy_step ?ops (connection_policy_new, []) = (p, [1250, 1000])"
    by (metis prod.collapse)
  have "sorted (concat (map op_time ?ops))" "\<forall>a\<in>set ?ops. names_reservation a" by simp_all
  from probe_rate_limited [OF p this] p show ?thesis by auto
qed

end
