(* ===== verification/Notifications.thy ===== *)
theory Notifications
  imports Js_Number
begin

text \<open>
  Three small machines between the services and the window: \<open>EventRefresh\<close> batches invalidations and
  retries failed reads (\<open>src/src/core/event-refresh.mjs\<close>), \<open>StatePublisher\<close> limits the rate of state
  publications (\<open>src/src/core/state-publisher.mjs\<close>), and \<open>StartupTiming\<close> logs the stages of an unlock
  (\<open>src/src/core/startup-timing.mjs\<close>). Timers, promises and clock readings are events of the machines.
\<close>

section \<open>EventRefresh\<close>

record refresh_config =
  rc_delayMs :: int
  rc_retryMs :: int
  rc_maxRetryMs :: int

text \<open>\<open>er_running\<close> is \<open>None\<close>, or whether the operation has reached its call of \<open>run\<close>; \<open>er_timer\<close> is the delay
  of the pending timer.\<close>

record refresh =
  er_dirty :: bool
  er_closed :: bool
  er_running :: "bool option"
  er_timer :: "int option"
  er_failures :: nat

definition refresh_new :: refresh where
  "refresh_new = \<lparr>er_dirty = False, er_closed = False, er_running = None, er_timer = None, er_failures = 0\<rparr>"

text \<open>\<open>active\<close> is the value of \<open>isActive()\<close> at the moment of the call.\<close>

definition refresh_schedule :: "bool \<Rightarrow> int \<Rightarrow> refresh \<Rightarrow> refresh" where
  "refresh_schedule active delay s =
     (if er_closed s \<or> \<not> active \<or> er_timer s \<noteq> None then s else s\<lparr>er_timer := Some delay\<rparr>)"

definition refresh_request :: "refresh_config \<Rightarrow> bool \<Rightarrow> refresh \<Rightarrow> refresh" where
  "refresh_request c active s =
     (if er_closed s \<or> \<not> active then s
      else let s = s\<lparr>er_dirty := True\<rparr> in
        if er_running s = None \<and> er_timer s = None then refresh_schedule active (rc_delayMs c) s else s)"

definition refresh_drain :: "bool \<Rightarrow> refresh \<Rightarrow> refresh" where
  "refresh_drain active s =
     (if er_closed s \<or> \<not> active \<or> \<not> er_dirty s \<or> er_running s \<noteq> None then s
      else s\<lparr>er_dirty := False, er_running := Some False\<rparr>)"

text \<open>The operation settles: success resets the failures, a failure that is not an abort asks again.\<close>

definition refresh_settle :: "refresh_config \<Rightarrow> bool \<Rightarrow> int \<Rightarrow> refresh \<Rightarrow> refresh" where
  "refresh_settle c active delay s =
     (let s = s\<lparr>er_running := None\<rparr> in if er_dirty s then refresh_schedule active delay s else s)"

definition refresh_succeeds :: "refresh_config \<Rightarrow> bool \<Rightarrow> refresh \<Rightarrow> refresh" where
  "refresh_succeeds c active s = refresh_settle c active (rc_delayMs c) (s\<lparr>er_failures := 0\<rparr>)"

definition refresh_fails :: "refresh_config \<Rightarrow> bool \<Rightarrow> bool \<Rightarrow> refresh \<Rightarrow> refresh" where
  "refresh_fails c active aborted s =
     (if \<not> er_closed s \<and> active \<and> \<not> aborted
      then refresh_settle c active (min (rc_maxRetryMs c) (rc_retryMs c * 2 ^ min (er_failures s) 10))
             (s\<lparr>er_dirty := True, er_failures := er_failures s + 1\<rparr>)
      else refresh_settle c active (rc_delayMs c) s)"

definition refresh_close :: "refresh \<Rightarrow> refresh" where
  "refresh_close s = s\<lparr>er_closed := True, er_dirty := False, er_timer := None\<rparr>"

datatype refresh_event = Requested bool | TimerFired bool | RunCalled bool | RunSucceeded bool
  | RunFailed bool bool | RefreshClosed

inductive refresh_step :: "refresh_config \<Rightarrow> refresh \<Rightarrow> refresh_event \<Rightarrow> refresh \<Rightarrow> bool" for c where
  request: "refresh_step c s (Requested active) (refresh_request c active s)"
| timer: "er_timer s \<noteq> None \<Longrightarrow> refresh_step c s (TimerFired active) (refresh_drain active (s\<lparr>er_timer := None\<rparr>))"
| call: "er_running s = Some False \<Longrightarrow> \<not> er_closed s \<and> active \<Longrightarrow>
    refresh_step c s (RunCalled active) (s\<lparr>er_running := Some True\<rparr>)"
| skip: "er_running s = Some False \<Longrightarrow> er_closed s \<or> \<not> active \<Longrightarrow>
    refresh_step c s (RunSucceeded active) (refresh_succeeds c active s)"
| success: "er_running s = Some True \<Longrightarrow> refresh_step c s (RunSucceeded active) (refresh_succeeds c active s)"
| failure: "er_running s = Some True \<Longrightarrow> refresh_step c s (RunFailed active aborted) (refresh_fails c active aborted s)"
| close: "refresh_step c s RefreshClosed (refresh_close s)"

inductive_cases refresh_stepE: "refresh_step c s e s'"

fun stays_active :: "refresh_event \<Rightarrow> bool" where
  "stays_active (Requested a) = a"
| "stays_active (TimerFired a) = a"
| "stays_active (RunCalled a) = a"
| "stays_active (RunSucceeded a) = a"
| "stays_active (RunFailed a _) = a"
| "stays_active RefreshClosed = True"

text \<open>What the owner is owed, read off the events alone. \<open>waiting\<close>: an invalidation arrived for which no read
  has started; \<open>reading\<close>: one that the running read answers when it succeeds. A read that fails leaves its
  invalidations unanswered, one that was aborted was given up by the owner, and closing gives up all.\<close>

fun owed :: "refresh_event \<Rightarrow> refresh \<Rightarrow> refresh \<Rightarrow> bool \<times> bool \<Rightarrow> bool \<times> bool" where
  "owed (Requested active) s s' (waiting, reading) = (waiting \<or> (active \<and> \<not> er_closed s), reading)"
| "owed (TimerFired _) s s' (waiting, reading) =
     (if er_running s = None \<and> er_running s' \<noteq> None then (False, waiting \<or> reading) else (waiting, reading))"
| "owed (RunCalled _) s s' g = g"
| "owed (RunSucceeded _) s s' (waiting, reading) = (if er_running s = Some True then (waiting, False) else (waiting, reading))"
| "owed (RunFailed _ aborted) s s' (waiting, reading) = (if aborted then (waiting, False) else (waiting \<or> reading, False))"
| "owed RefreshClosed s s' g = (False, False)"

text \<open>The states reached while the owner stays active, with what is owed.\<close>

inductive refresh_reach :: "refresh_config \<Rightarrow> refresh \<Rightarrow> bool \<times> bool \<Rightarrow> bool" for c where
  start: "refresh_reach c refresh_new (False, False)"
| move: "refresh_reach c s g \<Longrightarrow> refresh_step c s e s' \<Longrightarrow> stays_active e \<Longrightarrow> refresh_reach c s' (owed e s s' g)"

lemmas refresh_defs = refresh_request_def refresh_drain_def refresh_succeeds_def refresh_fails_def refresh_settle_def
  refresh_schedule_def refresh_close_def Let_def

definition refresh_inv :: "refresh_config \<Rightarrow> refresh \<Rightarrow> bool \<times> bool \<Rightarrow> bool" where
  "refresh_inv c s = (\<lambda>(waiting, reading).
     (er_dirty s \<longrightarrow> \<not> er_closed s \<and> (er_timer s \<noteq> None \<or> er_running s \<noteq> None))
     \<and> (er_closed s \<longrightarrow> er_timer s = None)
     \<and> (\<forall>d. er_timer s = Some d \<longrightarrow> d = rc_delayMs c \<or> (\<exists>n\<le>10. d = min (rc_maxRetryMs c) (rc_retryMs c * 2 ^ n)))
     \<and> (waiting \<longleftrightarrow> er_dirty s) \<and> (reading \<longleftrightarrow> \<not> er_closed s \<and> er_running s \<noteq> None))"

lemma refresh_step_inv:
  assumes "refresh_step c s e s'" and "stays_active e" and "refresh_inv c s g"
  shows "refresh_inv c s' (owed e s s' g)"
  using assms
proof cases
  case (failure active aborted)
  have "\<exists>n\<le>10. min (rc_maxRetryMs c) (rc_retryMs c * 2 ^ min (er_failures s) 10)
      = min (rc_maxRetryMs c) (rc_retryMs c * 2 ^ n)" by (intro exI [of _ "min (er_failures s) 10"]) simp
  with failure assms(2,3) show ?thesis unfolding refresh_inv_def
    by (cases g; cases "er_closed s"; cases aborted; cases "er_timer s") (auto simp: refresh_defs)
qed (cases g; auto simp: refresh_inv_def refresh_defs split: if_splits)+

lemma refresh_reach_inv: "refresh_reach c s g \<Longrightarrow> refresh_inv c s g"
proof (induction rule: refresh_reach.induct)
  case start
  show ?case by (simp add: refresh_inv_def refresh_new_def)
qed (rule refresh_step_inv)

text \<open>
  Property C22: no invalidation is lost. In every state that is reached while the owner stays active, as long
  as an invalidation is owed, by the events alone, the machine is open with a timer pending or a read running;
  one for which no read has started yet has a timer pending when the running read ends, however it ends,
  and a timer that fires with no read running starts a read; one whose read fails is asked for again
  with a timer pending. After closing nothing is pending, and every timer has the batching delay or a
  retry delay of at most the maximum.
\<close>

theorem refresh_never_loses:
  assumes "refresh_reach c s (waiting, reading)"
  shows "(waiting \<or> reading \<longrightarrow> \<not> er_closed s \<and> (er_timer s \<noteq> None \<or> er_running s \<noteq> None))
     \<and> (reading \<longrightarrow> er_running s \<noteq> None)
     \<and> (waiting \<longrightarrow> er_timer (refresh_succeeds c True s) \<noteq> None \<and> er_timer (refresh_fails c True aborted s) \<noteq> None)
     \<and> (waiting \<longrightarrow> er_running (refresh_drain True (s\<lparr>er_timer := None\<rparr>)) \<noteq> None)
     \<and> (reading \<longrightarrow> er_timer (refresh_fails c True False s) \<noteq> None
          \<and> er_running (refresh_drain True ((refresh_fails c True False s)\<lparr>er_timer := None\<rparr>)) \<noteq> None)
     \<and> (er_closed s \<longrightarrow> er_timer s = None \<and> \<not> waiting \<and> \<not> reading)
     \<and> (\<forall>d. er_timer s = Some d \<longrightarrow> d \<le> max (rc_delayMs c) (rc_maxRetryMs c))"
proof -
  from refresh_reach_inv [OF assms] have i: "refresh_inv c s (waiting, reading)" .
  then have d: "\<forall>d. er_timer s = Some d \<longrightarrow> d \<le> max (rc_delayMs c) (rc_maxRetryMs c)"
    by (auto simp: refresh_inv_def)
  from i have "waiting \<longrightarrow> er_timer (refresh_succeeds c True s) \<noteq> None \<and> er_timer (refresh_fails c True aborted s) \<noteq> None"
    "waiting \<longrightarrow> er_running (refresh_drain True (s\<lparr>er_timer := None\<rparr>)) \<noteq> None"
    "reading \<longrightarrow> er_timer (refresh_fails c True False s) \<noteq> None
          \<and> er_running (refresh_drain True ((refresh_fails c True False s)\<lparr>er_timer := None\<rparr>)) \<noteq> None"
    by (auto simp: refresh_inv_def refresh_defs)
  with i d show ?thesis by (auto simp: refresh_inv_def)
qed

theorem refresh_never_loses_witness:
  "\<exists>s. refresh_reach \<lparr>rc_delayMs = 25, rc_retryMs = 1000, rc_maxRetryMs = 30000\<rparr> s (True, False)
     \<and> er_timer s = Some 1000 \<and> er_running (refresh_drain True (s\<lparr>er_timer := None\<rparr>)) \<noteq> None"
proof -
  let ?c = "\<lparr>rc_delayMs = 25, rc_retryMs = 1000, rc_maxRetryMs = 30000\<rparr>"
  let ?s = "\<lambda>d r t f. \<lparr>er_dirty = d, er_closed = False, er_running = r, er_timer = t, er_failures = f\<rparr>"
  have "refresh_reach ?c (?s True None (Some 25) 0) (True, False)"
    using refresh_reach.move [OF refresh_reach.start refresh_step.request [of ?c _ True]]
    by (simp add: refresh_request_def refresh_new_def refresh_schedule_def)
  then have "refresh_reach ?c (?s False (Some False) None 0) (False, True)"
    using refresh_reach.move [OF _ refresh_step.timer [of _ ?c True]] by (fastforce simp: refresh_drain_def)
  then have "refresh_reach ?c (?s False (Some True) None 0) (False, True)"
    using refresh_reach.move [OF _ refresh_step.call [of _ True ?c]] by fastforce
  then have r: "refresh_reach ?c (?s True None (Some 1000) 1) (True, False)"
    using refresh_reach.move [OF _ refresh_step.failure [of _ ?c True False]]
    by (fastforce simp: refresh_fails_def refresh_settle_def refresh_schedule_def)
  from refresh_never_loses [OF r, of False] r show ?thesis by (intro exI [of _ "?s True None (Some 1000) 1"]) simp
qed

section \<open>StatePublisher\<close>

text \<open>Clock readings are milliseconds; the timer holds the time at which it was set and its delay.\<close>

record publisher =
  sp_lastPublished :: "int option"
  sp_timer :: "(int \<times> int) option"
  sp_closed :: bool

definition publisher_new :: publisher where
  "publisher_new = \<lparr>sp_lastPublished = None, sp_timer = None, sp_closed = False\<rparr>"

definition publishNow :: "int \<Rightarrow> publisher \<Rightarrow> publisher" where
  "publishNow now p = (if sp_closed p then p else p\<lparr>sp_lastPublished := Some now\<rparr>)"

definition cancelPending :: "publisher \<Rightarrow> publisher" where
  "cancelPending p = p\<lparr>sp_timer := None\<rparr>"

definition publisher_request :: "int \<Rightarrow> bool \<Rightarrow> int \<Rightarrow> publisher \<Rightarrow> publisher" where
  "publisher_request intervalMs immediate now p =
     (if sp_closed p then p
      else let remaining = (case sp_lastPublished p of None \<Rightarrow> 0 | Some t \<Rightarrow> intervalMs - (now - t)) in
        if immediate \<or> remaining \<le> 0 then publishNow now (cancelPending p)
        else if sp_timer p = None then p\<lparr>sp_timer := Some (now, remaining)\<rparr> else p)"

definition publisher_timer :: "int \<Rightarrow> publisher \<Rightarrow> publisher" where
  "publisher_timer now p = publishNow now (p\<lparr>sp_timer := None\<rparr>)"

definition publisher_close :: "publisher \<Rightarrow> publisher" where
  "publisher_close p = cancelPending (p\<lparr>sp_closed := True\<rparr>)"

text \<open>The states at a time: the clock does not run backwards and a timer fires no earlier than its delay.
  The list holds the publications, the youngest first, each with whether it was asked for immediately.\<close>

inductive publisher_reach :: "int \<Rightarrow> int \<Rightarrow> publisher \<Rightarrow> (int \<times> bool) list \<Rightarrow> bool" for interval where
  start: "publisher_reach interval now publisher_new []"
| wait: "publisher_reach interval now p ps \<Longrightarrow> now \<le> now' \<Longrightarrow> publisher_reach interval now' p ps"
| request: "publisher_reach interval now p ps \<Longrightarrow>
    publisher_reach interval now (publisher_request interval immediate now p)
      (if sp_closed p \<or> (\<not> immediate \<and> (\<exists>t. sp_lastPublished p = Some t \<and> now - t < interval)) then ps
       else (now, immediate) # ps)"
| timer: "publisher_reach interval now p ps \<Longrightarrow> sp_timer p = Some (t, d) \<Longrightarrow> t + d \<le> now \<Longrightarrow>
    publisher_reach interval now (publisher_timer now p) (if sp_closed p then ps else (now, False) # ps)"
| close: "publisher_reach interval now p ps \<Longrightarrow> publisher_reach interval now (publisher_close p) ps"

fun spaced :: "int \<Rightarrow> (int \<times> bool) list \<Rightarrow> bool" where
  "spaced interval ((t, b) # (u, c) # ps) \<longleftrightarrow> (b \<or> u + interval \<le> t) \<and> spaced interval ((u, c) # ps)"
| "spaced interval _ = True"

definition publisher_inv :: "int \<Rightarrow> int \<Rightarrow> publisher \<Rightarrow> (int \<times> bool) list \<Rightarrow> bool" where
  "publisher_inv interval now p ps \<longleftrightarrow> spaced interval ps
     \<and> sp_lastPublished p = (case ps of [] \<Rightarrow> None | (t, _) # _ \<Rightarrow> Some t)
     \<and> (case sp_timer p of None \<Rightarrow> True | Some (t, d) \<Rightarrow> \<not> sp_closed p \<and> (\<exists>u. sp_lastPublished p = Some u \<and> t + d = u + interval))"

lemma publisher_reach_inv: "publisher_reach interval now p ps \<Longrightarrow> publisher_inv interval now p ps"
proof (induction rule: publisher_reach.induct)
  case (start now)
  show ?case by (simp add: publisher_inv_def publisher_new_def)
next
  case (wait now p ps now')
  then show ?case by (simp add: publisher_inv_def)
next
  case (request now p ps immediate)
  then show ?case
    by (cases "sp_closed p"; cases immediate; cases ps; cases "sp_timer p")
      (auto simp: publisher_inv_def publisher_request_def publishNow_def cancelPending_def Let_def)
next
  case (timer now p ps t d)
  then show ?case
    by (cases ps) (auto simp: publisher_inv_def publisher_timer_def publishNow_def)
next
  case (close now p ps)
  then show ?case by (simp add: publisher_inv_def publisher_close_def cancelPending_def split: option.splits)
qed

text \<open>
  State publications are rate limited and the latest is not lost. However requests, timers and
  waiting interleave, two publications are at least the interval apart unless the later one was asked
  for immediately; after a request on an open publisher either the state was just published or a timer
  is pending, and it is due one interval after the last publication.
\<close>

lemma publications_spaced:
  assumes "publisher_reach interval now p ps" and "publisher_request interval immediate now p = p'"
  shows "spaced interval ps
     \<and> (\<not> sp_closed p \<longrightarrow> sp_lastPublished p' = Some now
          \<or> (\<exists>t d u. sp_timer p' = Some (t, d) \<and> sp_lastPublished p' = Some u \<and> t + d = u + interval))"
proof -
  have i: "publisher_inv interval now p ps" by (rule publisher_reach_inv [OF assms(1)])
  then have "\<not> sp_closed p \<longrightarrow> sp_lastPublished p' = Some now
          \<or> (\<exists>t d u. sp_timer p' = Some (t, d) \<and> sp_lastPublished p' = Some u \<and> t + d = u + interval)"
    unfolding assms(2) [symmetric]
    by (cases "sp_timer p"; cases "sp_lastPublished p")
      (auto simp: publisher_inv_def publisher_request_def publishNow_def cancelPending_def Let_def)
  with i show ?thesis by (simp add: publisher_inv_def)
qed

lemma publications_spaced_witness:
  "\<exists>p. publisher_reach 200 1100 p [(1000, False)]
     \<and> sp_timer (publisher_request 200 False 1100 p) = Some (1100, 100)"
proof -
  let ?p = "\<lparr>sp_lastPublished = Some 1000, sp_timer = None, sp_closed = False\<rparr>"
  have "publisher_reach 200 1000 ?p [(1000, False)]"
    using publisher_reach.request [OF publisher_reach.start [of 200 1000], of False]
    by (simp add: publisher_new_def publisher_request_def publishNow_def cancelPending_def)
  then have r: "publisher_reach 200 1100 ?p [(1000, False)]" by (rule publisher_reach.wait) simp
  have "publisher_request 200 False 1100 ?p = ?p\<lparr>sp_timer := Some (1100, 100)\<rparr>"
    by (simp add: publisher_request_def)
  from publications_spaced [OF r this] r \<open>_ = ?p\<lparr>sp_timer := Some (1100, 100)\<rparr>\<close> show ?thesis by auto
qed

section \<open>StartupTiming\<close>

record startup_run =
  sr_runId :: int
  sr_started :: int
  sr_epoch :: "int option"
  sr_ready :: bool

datatype startup_log = UnlockStarted int | Unlocked int int | SnapshotReady int int | RenderReady int int

record startup =
  st_nextRunId :: int
  st_active :: "startup_run option"
  st_logs :: "startup_log list"   \<comment> \<open>what was passed to \<open>record\<close>, with run and duration\<close>

definition valid_epoch :: "int \<Rightarrow> bool" where
  "valid_epoch epoch \<longleftrightarrow> safe_integer epoch \<and> epoch \<ge> 0"

definition startup_cancel :: "startup \<Rightarrow> startup" where
  "startup_cancel s = s\<lparr>st_active := None\<rparr>"

text \<open>A clock reading is \<open>None\<close> when the clock throws or is not finite.\<close>

definition startup_begin :: "int option \<Rightarrow> startup \<Rightarrow> int option \<times> startup" where
  "startup_begin time s = (let s = startup_cancel s in case time of
       None \<Rightarrow> (None, s)
     | Some started \<Rightarrow>
         if st_nextRunId s \<ge> MAX_SAFE_INTEGER then (None, s)
         else let n = st_nextRunId s + 1 in
           (Some n, s\<lparr>st_nextRunId := n,
              st_active := Some \<lparr>sr_runId = n, sr_started = started, sr_epoch = None, sr_ready = False\<rparr>,
              st_logs := st_logs s @ [UnlockStarted n]\<rparr>))"

definition startup_observe :: "int option \<Rightarrow> int \<Rightarrow> bool \<Rightarrow> bool \<Rightarrow> startup \<Rightarrow> startup" where
  "startup_observe time epoch unlocked ready s = (case st_active s of
       None \<Rightarrow> s
     | Some run \<Rightarrow>
         if \<not> valid_epoch epoch then s
         else if (case sr_epoch run of None \<Rightarrow> False | Some e \<Rightarrow> epoch < e) then s
         else if (case sr_epoch run of None \<Rightarrow> False | Some e \<Rightarrow> epoch > e) then startup_cancel s
         else if \<not> unlocked then (if sr_epoch run \<noteq> None then startup_cancel s else s)
         else (case time of
           None \<Rightarrow> startup_cancel s
         | Some moment \<Rightarrow>
             let duration = max 0 (moment - sr_started run);
                 first = sr_epoch run = None;
                 snapshot = ready \<and> \<not> sr_ready run
             in s\<lparr>st_active := Some (run\<lparr>sr_epoch := Some epoch, sr_ready := sr_ready run \<or> ready\<rparr>),
                  st_logs := st_logs s @ (if first then [Unlocked (sr_runId run) duration] else [])
                    @ (if snapshot then [SnapshotReady (sr_runId run) duration] else [])\<rparr>))"

definition startup_rendered :: "int option \<Rightarrow> int \<Rightarrow> startup \<Rightarrow> startup" where
  "startup_rendered time epoch s = (case st_active s of
       None \<Rightarrow> s
     | Some run \<Rightarrow>
         if \<not> valid_epoch epoch \<or> sr_epoch run \<noteq> Some epoch \<or> \<not> sr_ready run then s
         else s\<lparr>st_active := None, st_logs := st_logs s @ (case time of None \<Rightarrow> []
                | Some moment \<Rightarrow> [RenderReady (sr_runId run) (max 0 (moment - sr_started run))])\<rparr>)"

datatype startup_op = BeginRun "int option" | Observe "int option" int bool bool | Rendered "int option" int | CancelRun

fun startup_step :: "startup_op \<Rightarrow> startup \<Rightarrow> startup" where
  "startup_step (BeginRun t) s = snd (startup_begin t s)"
| "startup_step (Observe t e u r) s = startup_observe t e u r s"
| "startup_step (Rendered t e) s = startup_rendered t e s"
| "startup_step CancelRun s = startup_cancel s"

text \<open>What was logged of a run; the code logs a prefix of the four stages, each once and in order.\<close>

fun stages_of :: "int \<Rightarrow> startup_log list \<Rightarrow> nat list" where
  "stages_of n [] = []"
| "stages_of n (UnlockStarted m # ls) = (if m = n then 0 # stages_of n ls else stages_of n ls)"
| "stages_of n (Unlocked m _ # ls) = (if m = n then 1 # stages_of n ls else stages_of n ls)"
| "stages_of n (SnapshotReady m _ # ls) = (if m = n then 2 # stages_of n ls else stages_of n ls)"
| "stages_of n (RenderReady m _ # ls) = (if m = n then 3 # stages_of n ls else stages_of n ls)"

lemma stages_append [simp]: "stages_of n (xs @ ys) = stages_of n xs @ stages_of n ys"
  by (induction n xs rule: stages_of.induct) auto

definition stages_ok :: "startup \<Rightarrow> int \<Rightarrow> bool" where
  "stages_ok s n \<longleftrightarrow> stages_of n (st_logs s) = [0..<length (stages_of n (st_logs s))]
     \<and> length (stages_of n (st_logs s)) \<le> 4 \<and> (st_nextRunId s < n \<longrightarrow> stages_of n (st_logs s) = [])"

definition startup_inv :: "startup \<Rightarrow> bool" where
  "startup_inv s \<longleftrightarrow> (\<forall>n. stages_ok s n)
     \<and> (case st_active s of None \<Rightarrow> True | Some run \<Rightarrow> sr_runId run \<le> st_nextRunId s \<and> (sr_ready run \<longrightarrow> sr_epoch run \<noteq> None)
          \<and> stages_of (sr_runId run) (st_logs s) = [0..<(if sr_epoch run = None then 1 else if sr_ready run then 3 else 2)])"

lemma small_upts: "[0..<Suc 0] = [0]" "[0..<2] = [0, 1]" "[0..<3] = [0, 1, 2]" "[0..<4] = [0, 1, 2, 3]"
  by (simp_all add: upt_rec)

lemma startup_step_inv:
  assumes "startup_inv s"
  shows "startup_inv (startup_step a s)"
proof (cases a)
  case (BeginRun t)
  have "stages_of (st_nextRunId s + 1) (st_logs s) = []"
    using assms by (simp add: startup_inv_def stages_ok_def)
  with assms BeginRun show ?thesis
    by (auto simp: startup_inv_def stages_ok_def startup_begin_def startup_cancel_def Let_def split: option.splits)
next
  case CancelRun
  with assms show ?thesis by (simp add: startup_inv_def stages_ok_def startup_cancel_def)
next
  case (Rendered t e)
  show ?thesis
  proof (cases "st_active s")
    case (Some run)
    then show ?thesis using assms Rendered
      by (auto simp: startup_inv_def stages_ok_def startup_rendered_def small_upts split: option.splits)
  qed (use assms Rendered in \<open>simp add: startup_rendered_def\<close>)
next
  case (Observe t e u r)
  show ?thesis
  proof (cases "st_active s")
    case (Some run)
    then show ?thesis using assms Observe
      by (auto simp: startup_inv_def stages_ok_def startup_observe_def startup_cancel_def Let_def small_upts split: option.splits)
  qed (use assms Observe in \<open>simp add: startup_observe_def\<close>)
qed

text \<open>
  An unlock logs its stages at most once and in order. Whatever states are observed and
  rendered and whenever runs are started or cancelled, the log of each run is a prefix of
  unlock started, unlocked, snapshot ready, render ready, and only started runs appear in it.
\<close>

lemma startup_stages_in_order:
  assumes "fold startup_step ops \<lparr>st_nextRunId = 0, st_active = None, st_logs = []\<rparr> = s"
  shows "\<exists>k\<le>4. stages_of n (st_logs s) = [0..<k] \<and> (st_nextRunId s < n \<longrightarrow> k = 0)"
proof -
  have "startup_inv s \<Longrightarrow> startup_inv (fold startup_step ops s)" for s
    by (induction ops arbitrary: s) (simp_all add: startup_step_inv)
  moreover have "startup_inv \<lparr>st_nextRunId = 0, st_active = None, st_logs = []\<rparr>"
    by (simp add: startup_inv_def stages_ok_def)
  ultimately have "startup_inv s" using assms by blast
  then have "stages_ok s n" by (simp add: startup_inv_def)
  then show ?thesis unfolding stages_ok_def by (intro exI [of _ "length (stages_of n (st_logs s))"]) auto
qed

lemma startup_stages_in_order_witness:
  "\<exists>k\<le>4. stages_of 1 [UnlockStarted 1, Unlocked 1 5] = [0..<k]"
proof -
  have "fold startup_step [BeginRun (Some 10), Observe (Some 15) 3 True False] \<lparr>st_nextRunId = 0, st_active = None, st_logs = []\<rparr>
      = \<lparr>st_nextRunId = 1, st_active = Some \<lparr>sr_runId = 1, sr_started = 10, sr_epoch = Some 3, sr_ready = False\<rparr>,
         st_logs = [UnlockStarted 1, Unlocked 1 5]\<rparr>"
    by (simp add: startup_begin_def startup_cancel_def startup_observe_def valid_epoch_def safe_integer_def MAX_SAFE_INTEGER_def)
  from startup_stages_in_order [OF this, of 1] show ?thesis by auto
qed

end
