(* ===== verification/Ready_Index.thy ===== *)
theory Ready_Index
  imports Main "HOL-Library.Word"
begin

text \<open>
  The indexed counts of the claim scheduler (\<open>src/src/core/claim-scheduler.mjs\<close>: \<open>upperBound\<close> and the class
  \<open>ReadyIndex\<close>). \<open>ReadyIndex\<close> is a binary indexed tree over an array of counts; it is shown to refine
  that array: \<open>before\<close> is a prefix sum, \<open>at\<close> the position of the ready element with a given rank.
  Array indices of the tree start at 1, as in the code; slot 0 is unused. The cells are those of a
  \<open>Uint32Array\<close>: adding wraps around at \<open>2 ^ 32\<close>, also for a negative change, while \<open>total\<close> and what is
  read are plain numbers. The refinement holds as long as the counts are nonnegative with a sum
  below \<open>2 ^ 32\<close>, whatever the counts were in between.
\<close>

section \<open>upperBound\<close>

text \<open>The search loop; \<open>compare\<close> is the comparator of the array elements with the value.\<close>

function upper_bound_loop :: "('a \<Rightarrow> 'b \<Rightarrow> int) \<Rightarrow> 'a list \<Rightarrow> 'b \<Rightarrow> nat \<Rightarrow> nat \<Rightarrow> nat" where
  "upper_bound_loop compare vals v low high =
     (if low < high
      then let middle = (low + high) div 2 in
        if compare (vals ! middle) v \<le> 0 then upper_bound_loop compare vals v (middle + 1) high
        else upper_bound_loop compare vals v low middle
      else low)"
  by pat_completeness auto
termination
  by (relation "measure (\<lambda>(_, _, _, low, high). high - low)") auto

declare upper_bound_loop.simps [simp del]

definition upperBound :: "'a list \<Rightarrow> 'b \<Rightarrow> ('a \<Rightarrow> 'b \<Rightarrow> int) \<Rightarrow> nat" where
  "upperBound vals v compare = upper_bound_loop compare vals v 0 (length vals)"

lemma upper_bound_loop_split:
  assumes mono: "\<And>i j. i \<le> j \<Longrightarrow> j < length vals \<Longrightarrow> compare (vals ! j) v \<le> 0 \<Longrightarrow> compare (vals ! i) v \<le> (0 :: int)"
    and "low \<le> high" and "high \<le> length vals"
    and "\<forall>i<low. compare (vals ! i) v \<le> 0" and "\<forall>i. high \<le> i \<and> i < length vals \<longrightarrow> compare (vals ! i) v > 0"
  shows "upper_bound_loop compare vals v low high \<le> length vals
     \<and> (\<forall>i<upper_bound_loop compare vals v low high. compare (vals ! i) v \<le> 0)
     \<and> (\<forall>i. upper_bound_loop compare vals v low high \<le> i \<and> i < length vals \<longrightarrow> compare (vals ! i) v > 0)"
  using assms(2-5)
proof (induction "high - low" arbitrary: low high rule: less_induct)
  case less
  show ?case
  proof (cases "low < high")
    case True
    define m where "m = (low + high) div 2"
    have m: "low \<le> m" "m < high" using True by (auto simp: m_def)
    show ?thesis
    proof (cases "compare (vals ! m) v \<le> 0")
      case le: True
      have "\<forall>i<m + 1. compare (vals ! i) v \<le> 0" using mono [OF _ _ le] m less.prems(2) by auto
      moreover have "upper_bound_loop compare vals v low high = upper_bound_loop compare vals v (m + 1) high"
        using True le by (simp add: upper_bound_loop.simps [of _ _ _ low high] m_def)
      moreover have "high - (m + 1) < high - low" using m True by linarith
      ultimately show ?thesis using less.hyps [of high "m + 1"] less.prems(2,4) m(2) by (metis Suc_eq_plus1 Suc_leI)
    next
      case gt: False
      have "\<forall>i. m \<le> i \<and> i < length vals \<longrightarrow> compare (vals ! i) v > 0" using mono [of m] gt by (meson not_less)
      moreover have "upper_bound_loop compare vals v low high = upper_bound_loop compare vals v low m"
        using True gt by (simp add: upper_bound_loop.simps [of _ _ _ low high] m_def)
      moreover have "m - low < high - low" "m \<le> length vals" using m True less.prems(2) by linarith+
      ultimately show ?thesis using less.hyps [of m low] less.prems(3) m(1) by metis
    qed
  qed (use less.prems in \<open>simp add: upper_bound_loop.simps\<close>)
qed

lemma upperBound_split:
  assumes "\<And>i j. i \<le> j \<Longrightarrow> j < length vals \<Longrightarrow> compare (vals ! j) v \<le> 0 \<Longrightarrow> compare (vals ! i) v \<le> (0 :: int)"
  shows "upperBound vals v compare \<le> length vals"
    and "i < upperBound vals v compare \<Longrightarrow> compare (vals ! i) v \<le> 0"
    and "upperBound vals v compare \<le> i \<Longrightarrow> i < length vals \<Longrightarrow> compare (vals ! i) v > 0"
  using upper_bound_loop_split [of vals compare v 0 "length vals"] assms by (auto simp: upperBound_def)

section \<open>ReadyIndex\<close>

text \<open>\<open>index & -index\<close>: the lowest set b.\<close>

fun lowbit :: "nat \<Rightarrow> nat" where
  "lowbit n = (if n = 0 then 0 else if odd n then 1 else 2 * lowbit (n div 2))"

declare lowbit.simps [simp del]

record ready_index =
  ri_tree :: "32 word list"
  ri_total :: int

text \<open>The body of the constructor's loop for one index.\<close>

definition ready_build_step :: "int list \<Rightarrow> nat \<Rightarrow> ready_index \<Rightarrow> ready_index" where
  "ready_build_step vals i r =
     (let tree = (ri_tree r)[i := ri_tree r ! i + word_of_int (vals ! (i - 1))];
          parent = i + lowbit i
      in r\<lparr>ri_total := ri_total r + vals ! (i - 1),
           ri_tree := (if parent < length tree then tree[parent := tree ! parent + tree ! i] else tree)\<rparr>)"

definition ready_index_new :: "int list \<Rightarrow> ready_index" where
  "ready_index_new vals = fold (ready_build_step vals) [1..<length vals + 1]
     \<lparr>ri_tree = replicate (length vals + 1) 0, ri_total = 0\<rparr>"

function ready_add_loop :: "nat \<Rightarrow> int \<Rightarrow> 32 word list \<Rightarrow> 32 word list" where
  "ready_add_loop i delta tree =
     (if 0 < i \<and> i < length tree then ready_add_loop (i + lowbit i) delta (tree[i := tree ! i + word_of_int delta]) else tree)"
  by pat_completeness auto

lemma lowbit_0 [simp]: "lowbit 0 = 0"
  by (simp add: lowbit.simps)

lemma lowbit_odd [simp]: "odd n \<Longrightarrow> lowbit n = 1"
  by (cases "n = 0") (simp_all add: lowbit.simps)

lemma lowbit_double [simp]: "lowbit (2 * n) = 2 * lowbit n"
  by (cases "n = 0") (simp_all add: lowbit.simps [of "2 * n"])

lemma lowbit_pos: "0 < n \<Longrightarrow> 0 < lowbit n \<and> lowbit n \<le> n"
proof (induction n rule: lowbit.induct)
  case (1 n)
  show ?case
  proof (cases "odd n")
    case False
    then obtain k where "n = 2 * k" by blast
    with 1 False show ?thesis by auto
  qed (use 1 in auto)
qed

termination ready_add_loop
  by (relation "measure (\<lambda>(i, _, tree). length tree - i)") (auto intro!: diff_less_mono2 simp: lowbit_pos)

declare ready_add_loop.simps [simp del]

definition ready_add :: "nat \<Rightarrow> int \<Rightarrow> ready_index \<Rightarrow> ready_index" where
  "ready_add i delta r = r\<lparr>ri_total := ri_total r + delta, ri_tree := ready_add_loop (i + 1) delta (ri_tree r)\<rparr>"

function ready_before_loop :: "32 word list \<Rightarrow> nat \<Rightarrow> int" where
  "ready_before_loop tree e = (if e > 0 then uint (tree ! e) + ready_before_loop tree (e - lowbit e) else 0)"
  by pat_completeness auto
termination
  by (relation "measure snd") (auto simp: lowbit_pos)

declare ready_before_loop.simps [simp del]

definition ready_before :: "nat \<Rightarrow> ready_index \<Rightarrow> int" where
  "ready_before e r = ready_before_loop (ri_tree r) e"

text \<open>The highest power of two below the length, and the descent over the lower ones.\<close>

function top_bit :: "nat \<Rightarrow> nat \<Rightarrow> nat" where
  "top_bit len b = (if 0 < b \<and> b * 2 < len then top_bit len (b * 2) else b)"
  by pat_completeness auto
termination
  by (relation "measure (\<lambda>(len, b). len - b)") auto

declare top_bit.simps [simp del]

function ready_at_loop :: "32 word list \<Rightarrow> nat \<Rightarrow> nat \<Rightarrow> int \<Rightarrow> nat" where
  "ready_at_loop tree b index order =
     (if b > 0
      then (let nxt = index + b in
        if nxt < length tree \<and> uint (tree ! nxt) \<le> order then ready_at_loop tree (b div 2) nxt (order - uint (tree ! nxt))
        else ready_at_loop tree (b div 2) index order)
      else index)"
  by pat_completeness auto
termination
  by (relation "measure (\<lambda>(_, b, _, _). b)") auto

declare ready_at_loop.simps [simp del]

definition ready_at :: "int \<Rightarrow> ready_index \<Rightarrow> int" where
  "ready_at order r = (if order < 0 \<or> order \<ge> ri_total r then - 1
     else int (ready_at_loop (ri_tree r) (top_bit (length (ri_tree r)) 1) 0 order))"

section \<open>Which slots hold an element\<close>

text \<open>Slot \<open>i\<close> holds the elements at positions \<open>i - lowbit i + 1\<close> to \<open>i\<close>.\<close>

definition covers :: "nat \<Rightarrow> nat \<Rightarrow> bool" where
  "covers i p \<longleftrightarrow> i - lowbit i < p \<and> p \<le> i"

lemma covers_self: "0 < p \<Longrightarrow> covers p p"
  using lowbit_pos [of p] by (simp add: covers_def)

lemma covers_odd: "odd i \<Longrightarrow> covers i p \<longleftrightarrow> p = i"
  by (auto simp: covers_def elim!: oddE)

lemma covers_even: "0 < p \<Longrightarrow> covers (2 * i) p \<longleftrightarrow> covers i ((p + 1) div 2)"
proof -
  have "lowbit i \<le> i" using lowbit_pos [of i] by (cases "i = 0") auto
  then have "2 * i - 2 * lowbit i < p \<longleftrightarrow> i - lowbit i < (p + 1) div 2" by linarith
  moreover have "p \<le> 2 * i \<longleftrightarrow> (p + 1) div 2 \<le> i" by linarith
  ultimately show ?thesis by (simp add: covers_def)
qed

lemma covers_next: "0 < p \<Longrightarrow> p < i \<Longrightarrow> covers i p \<longleftrightarrow> covers i (p + lowbit p)"
proof (induction p arbitrary: i rule: lowbit.induct)
  case (1 p)
  have even_next: "even (p + lowbit p)"
  proof (cases "odd p")
    case False
    then obtain q where "p = 2 * q" by blast
    then show ?thesis by simp
  qed simp
  show ?case
  proof (cases "odd i")
    case True
    with even_next 1(2,3) show ?thesis by (metis covers_odd less_irrefl_nat)
  next
    case False
    then obtain j where i: "i = 2 * j" by blast
    show ?thesis
    proof (cases "odd p")
      case True
      then obtain q where "p = 2 * q + 1" by (rule oddE)
      with True 1(2) show ?thesis by (simp add: i covers_even)
    next
      case False
      then obtain q where p: "p = 2 * q" by blast
      with 1(2,3) i have q: "0 < q" "q < j" by simp_all
      have "(p + 1) div 2 = q" "(p + lowbit p + 1) div 2 = q + lowbit q" by (simp_all add: p)
      with 1(1) [of j] q 1(2) False p show ?thesis by (simp add: i covers_even)
    qed
  qed
qed

section \<open>Refinement of the array\<close>

definition slot_sum :: "int list \<Rightarrow> nat \<Rightarrow> int" where
  "slot_sum vals i = (\<Sum>p\<in>{p. 0 < p \<and> p \<le> length vals \<and> covers i p}. vals ! (p - 1))"

definition ready_rel :: "ready_index \<Rightarrow> int list \<Rightarrow> bool" where
  "ready_rel r vals \<longleftrightarrow> length (ri_tree r) = length vals + 1 \<and> ri_total r = sum_list vals
     \<and> (\<forall>i. 0 < i \<and> i \<le> length vals \<longrightarrow> ri_tree r ! i = word_of_int (slot_sum vals i))"

text \<open>What is read is the sum itself where no sum reaches \<open>2 ^ 32\<close>.\<close>

definition ready_exact :: "ready_index \<Rightarrow> int list \<Rightarrow> bool" where
  "ready_exact r vals \<longleftrightarrow> length (ri_tree r) = length vals + 1 \<and> ri_total r = sum_list vals
     \<and> (\<forall>i. 0 < i \<and> i \<le> length vals \<longrightarrow> uint (ri_tree r ! i) = slot_sum vals i)"

lemma prefix_sum: "e \<le> length vals \<Longrightarrow> sum_list (take e vals) = (\<Sum>p\<in>{1..e}. vals ! (p - 1))"
proof (induction e)
  case (Suc e)
  then have "sum_list (take (Suc e) vals) = sum_list (take e vals) + vals ! e" by (simp add: take_Suc_conv_app_nth)
  moreover have "{1..Suc e} = insert (Suc e) {1..e}" by auto
  ultimately show ?case using Suc by (simp add: add.commute)
qed simp

lemma slot_sum_interval:
  "0 < i \<Longrightarrow> i \<le> length vals \<Longrightarrow> slot_sum vals i = sum_list (take i vals) - sum_list (take (i - lowbit i) vals)"
proof -
  assume i: "0 < i" "i \<le> length vals"
  have "{1..i} = {1..i - lowbit i} \<union> {p. 0 < p \<and> p \<le> length vals \<and> covers i p}"
    using i by (auto simp: covers_def)
  moreover have "{1..i - lowbit i} \<inter> {p. 0 < p \<and> p \<le> length vals \<and> covers i p} = {}" by (auto simp: covers_def)
  moreover have "finite {p. 0 < p \<and> p \<le> length vals \<and> covers i p}" by (rule finite_subset [of _ "{..length vals}"]) auto
  ultimately have "(\<Sum>p\<in>{1..i}. vals ! (p - 1)) = (\<Sum>p\<in>{1..i - lowbit i}. vals ! (p - 1)) + slot_sum vals i"
    by (simp add: slot_sum_def sum.union_disjoint)
  then show ?thesis using i by (simp add: prefix_sum)
qed

lemma ready_rel_exact:
  assumes rel: "ready_rel r vals" and nonneg: "\<forall>v\<in>set vals. 0 \<le> v" and small: "sum_list vals < 2 ^ 32"
  shows "ready_exact r vals"
proof -
  have "uint (ri_tree r ! i) = slot_sum vals i" if i: "0 < i" "i \<le> length vals" for i
  proof -
    have whole: "sum_list vals = sum_list (take i vals) + sum_list (drop i vals)"
      using sum_list.append [of "take i vals" "drop i vals"] by simp
    have front: "sum_list (take i vals) = sum_list (take (i - lowbit i) vals) + sum_list (drop (i - lowbit i) (take i vals))"
      using sum_list.append [of "take (i - lowbit i) (take i vals)" "drop (i - lowbit i) (take i vals)"]
      unfolding append_take_drop_id by (simp add: min_absorb1)
    have "0 \<le> sum_list (drop i vals)" "0 \<le> sum_list (take (i - lowbit i) vals)" "0 \<le> sum_list (drop (i - lowbit i) (take i vals))"
      using nonneg by (auto intro!: sum_list_nonneg dest!: in_set_dropD in_set_takeD)
    with whole front slot_sum_interval [OF i] small have "0 \<le> slot_sum vals i" "slot_sum vals i < 2 ^ 32" by linarith+
    with rel i show ?thesis by (simp add: ready_rel_def uint_word_of_int take_bit_int_eq_self)
  qed
  with rel show ?thesis by (simp add: ready_rel_def ready_exact_def)
qed

lemma ready_before_sum:
  assumes "ready_exact r vals" and "e \<le> length vals"
  shows "ready_before e r = sum_list (take e vals)"
proof -
  have "e \<le> length vals \<Longrightarrow> ready_before_loop (ri_tree r) e = sum_list (take e vals)" for e
  proof (induction e rule: less_induct)
    case (less e)
    show ?case
    proof (cases "e = 0")
      case False
      then have "0 < e" by simp
      from lowbit_pos [OF this] less have "ready_before_loop (ri_tree r) (e - lowbit e) = sum_list (take (e - lowbit e) vals)"
        by simp
      then show ?thesis using \<open>0 < e\<close> less.prems assms(1) slot_sum_interval [of e vals]
        by (simp add: ready_before_loop.simps [of _ e] ready_exact_def)
    qed (simp add: ready_before_loop.simps)
  qed
  with assms(2) show ?thesis by (simp add: ready_before_def)
qed

text \<open>Changing one count changes exactly the slots that hold it.\<close>

lemma length_ready_add_loop [simp]: "length (ready_add_loop i delta tree) = length tree"
proof (induction i delta tree rule: ready_add_loop.induct)
  case (1 i delta tree)
  then show ?case by (subst ready_add_loop.simps) simp
qed

lemma ready_add_loop_nth:
  "0 < i \<Longrightarrow> 0 < j \<Longrightarrow> j < length tree \<Longrightarrow>
     ready_add_loop i delta tree ! j = tree ! j + (if covers j i then word_of_int delta else 0)"
proof (induction i delta tree rule: ready_add_loop.induct)
  case (1 i delta tree)
  show ?case
  proof (cases "i < length tree")
    case True
    have ih: "ready_add_loop (i + lowbit i) delta (tree[i := tree ! i + word_of_int delta]) ! j
        = tree[i := tree ! i + word_of_int delta] ! j + (if covers j (i + lowbit i) then word_of_int delta else 0)"
      using 1 True by simp
    have step: "ready_add_loop i delta tree = ready_add_loop (i + lowbit i) delta (tree[i := tree ! i + word_of_int delta])"
      using True 1(2) by (simp add: ready_add_loop.simps [of i])
    consider "j < i" | "j = i" | "i < j" by linarith
    then show ?thesis
    proof cases
      case 1
      then have "\<not> covers j i" "\<not> covers j (i + lowbit i)" by (simp_all add: covers_def)
      with 1 show ?thesis by (simp add: step ih)
    next
      case 2
      moreover have "covers i i" "\<not> covers i (i + lowbit i)"
        using covers_self [OF \<open>0 < i\<close>] lowbit_pos [OF \<open>0 < i\<close>] by (simp_all add: covers_def)
      ultimately show ?thesis using True ih step by simp
    next
      case 3
      with covers_next [OF \<open>0 < i\<close> 3] show ?thesis by (simp add: step ih)
    qed
  next
    case False
    with 1(4) have "\<not> covers j i" by (simp add: covers_def)
    with False show ?thesis by (simp add: ready_add_loop.simps [of i])
  qed
qed

lemma finite_slot [simp]: "finite {p. 0 < p \<and> p \<le> n \<and> covers i p}"
  by (rule finite_subset [of _ "{..n}"]) auto

lemma slot_sum_update:
  assumes "q < length vals"
  shows "slot_sum (vals[q := vals ! q + delta]) i = slot_sum vals i + (if covers i (q + 1) then delta else 0)"
proof -
  let ?A = "{p. 0 < p \<and> p \<le> length vals \<and> covers i p}"
  have "slot_sum (vals[q := vals ! q + delta]) i = (\<Sum>p\<in>?A. vals ! (p - 1) + (if p = q + 1 then delta else 0))"
    unfolding slot_sum_def length_list_update using assms by (intro sum.cong) (auto simp: nth_list_update)
  also have "\<dots> = slot_sum vals i + (\<Sum>p\<in>?A. if p = q + 1 then delta else 0)"
    by (simp add: sum.distrib slot_sum_def)
  also have "(\<Sum>p\<in>?A. if p = q + 1 then delta else 0) = (if covers i (q + 1) then delta else 0)"
    using assms by (subst sum.delta) auto
  finally show ?thesis .
qed

lemma sum_list_add_at: "q < length vals \<Longrightarrow> sum_list (vals[q := vals ! q + d]) = sum_list vals + (d :: int)"
  by (induction vals arbitrary: q) (auto split: nat.splits)

lemma ready_add_rel:
  assumes "ready_rel r vals" and "q < length vals"
  shows "ready_rel (ready_add q delta r) (vals[q := vals ! q + delta])"
  using assms slot_sum_update [OF assms(2)]
  by (auto simp: ready_rel_def ready_add_def ready_add_loop_nth sum_list_add_at)

text \<open>The constructor fills each slot from its children, in order.\<close>

lemma lowbit_children:
  "0 < a \<Longrightarrow> a + lowbit a - lowbit (a + lowbit a) = a - lowbit a
     \<or> 0 < a - lowbit a \<and> a - lowbit a + lowbit (a - lowbit a) = a + lowbit a"
proof (induction a rule: lowbit.induct)
  case (1 a)
  show ?case
  proof (cases "odd a")
    case True
    then obtain q where a: "a = 2 * q + 1" by (rule oddE)
    then have e: "a + lowbit a = 2 * (q + 1)" "a - lowbit a = 2 * q" by simp_all
    have l: "lowbit (a + lowbit a) = 2 * lowbit (q + 1)" unfolding e(1) by (rule lowbit_double)
    show ?thesis
    proof (cases "odd q")
      case True
      then have "0 < q" "lowbit (2 * q) = 2" by (auto intro: Nat.gr0I)
      with e show ?thesis by simp
    next
      case False
      then have "lowbit (q + 1) = 1" by simp
      with e l show ?thesis by simp
    qed
  next
    case False
    then obtain q where a: "a = 2 * q" by blast
    with 1 False have ih: "q + lowbit q - lowbit (q + lowbit q) = q - lowbit q
     \<or> 0 < q - lowbit q \<and> q - lowbit q + lowbit (q - lowbit q) = q + lowbit q" by simp
    have "a + lowbit a = 2 * (q + lowbit q)" "a - lowbit a = 2 * (q - lowbit q)" by (simp_all add: a)
    with ih show ?thesis by (metis lowbit_double diff_mult_distrib2 distrib_left nat_0_less_mult_iff zero_less_numeral)
  qed
qed

text \<open>How far slot \<open>i\<close> is filled once the indices up to \<open>k\<close> are processed.\<close>

fun filled :: "nat \<Rightarrow> nat \<Rightarrow> nat" where
  "filled i 0 = i - lowbit i"
| "filled i (Suc k) = (if Suc k + lowbit (Suc k) = i then Suc k else filled i k)"

lemma child_covered:
  assumes "0 < j" and "j + lowbit j = i"
  shows "covers i j"
proof -
  have "0 < lowbit j" using lowbit_pos [OF assms(1)] by simp
  with assms have "j < i" "0 < i" by auto
  then show ?thesis using covers_next [OF assms(1)] covers_self [of i] assms(2) by simp
qed

lemma filled_none: "(\<And>j. 0 < j \<Longrightarrow> j \<le> k \<Longrightarrow> j + lowbit j \<noteq> i) \<Longrightarrow> filled i k = i - lowbit i"
proof (induction k)
  case (Suc k)
  then show ?case using Suc.prems [of "Suc k"] by simp
qed simp

lemma filled_child:
  assumes a: "0 < a" and i: "i = a + lowbit a"
  shows "filled i (a - 1) = a - lowbit a"
proof -
  define c where "c = a - lowbit a"
  have lb: "0 < lowbit a" "lowbit a \<le> a" using lowbit_pos [OF a] by simp_all
  have at_c: "filled i c = c"
  proof (cases "i - lowbit i = c")
    case True
    have "j + lowbit j \<noteq> i" if "0 < j" "j \<le> c" for j
      using child_covered [of j i] that True by (auto simp: covers_def)
    then show ?thesis using filled_none [of c i] True by blast
  next
    case False
    with lowbit_children [OF a] have "0 < c" "c + lowbit c = i" by (auto simp: c_def i)
    then show ?thesis by (cases c) auto
  qed
  have none: "j + lowbit j \<noteq> i" if "c < j" "j < a" for j
  proof -
    have "covers a j" using that by (simp add: covers_def c_def)
    then have "covers a (j + lowbit j)" using covers_next [of j a] that by simp
    then have "j + lowbit j \<le> a" by (simp add: covers_def)
    with lb show ?thesis by (simp add: i)
  qed
  have "c + d < a \<Longrightarrow> filled i (c + d) = c" for d
  proof (induction d)
    case (Suc d)
    then show ?case using none [of "Suc (c + d)"] by simp
  qed (use at_c in simp)
  from this [of "a - 1 - c"] show ?thesis using lb by (simp add: c_def)
qed

lemma filled_full: "0 < i \<Longrightarrow> filled i (i - 1) = i - 1"
proof (cases "odd i")
  case True
  then have lb: "lowbit i = 1" by simp
  have "j + lowbit j \<noteq> i" if "0 < j" "j \<le> i - 1" for j
    using child_covered [of j i] that lb by (auto simp: covers_def)
  then show ?thesis using filled_none [of "i - 1" i] lb by simp
next
  case False
  assume "0 < i"
  with False have "odd (i - 1)" "0 < i - 1" by auto
  then have lb: "lowbit (i - 1) = 1" and pos: "0 < i - 1" using lowbit_odd [of "i - 1"] by blast+
  from pos obtain k where k: "i - 1 = Suc k" by (cases "i - 1") auto
  have "i = Suc (Suc k)" using k by simp
  then have "filled i (Suc k) = Suc k" using lb k by simp
  with k show ?thesis by simp
qed

definition build_inv :: "int list \<Rightarrow> nat \<Rightarrow> ready_index \<Rightarrow> bool" where
  "build_inv vals k r \<longleftrightarrow> length (ri_tree r) = length vals + 1 \<and> ri_total r = sum_list (take k vals)
     \<and> (\<forall>i. 0 < i \<and> i \<le> length vals \<longrightarrow> ri_tree r ! i =
          word_of_int (if i \<le> k then slot_sum vals i
           else sum_list (take (filled i k) vals) - sum_list (take (i - lowbit i) vals)))"

lemma ready_build_step_inv:
  assumes inv: "build_inv vals k r" and k: "k < length vals"
  shows "build_inv vals (Suc k) (ready_build_step vals (Suc k) r)"
proof -
  define a where "a = Suc k"
  define p where "p = a + lowbit a"
  define tree1 where "tree1 = (ri_tree r)[a := ri_tree r ! a + word_of_int (vals ! k)]"
  have lb: "0 < lowbit a" "lowbit a \<le> a" using lowbit_pos [of a] by (simp_all add: a_def)
  have len: "length (ri_tree r) = length vals + 1" using inv by (simp add: build_inv_def)
  have S: "sum_list (take a vals) = sum_list (take k vals) + vals ! k"
    using k by (simp add: a_def take_Suc_conv_app_nth)
  have "ri_tree r ! a = word_of_int (sum_list (take (filled a k) vals) - sum_list (take (a - lowbit a) vals))"
    using inv k by (simp add: build_inv_def a_def)
  also have "filled a k = k" using filled_full [of a] by (simp add: a_def)
  finally have own: "tree1 ! a = word_of_int (slot_sum vals a)"
    using S slot_sum_interval [of a vals] k len by (simp add: tree1_def a_def)
  have step: "ready_build_step vals (Suc k) r = r\<lparr>ri_total := ri_total r + vals ! k,
      ri_tree := (if p < length tree1 then tree1[p := tree1 ! p + tree1 ! a] else tree1)\<rparr>"
    by (simp add: ready_build_step_def Let_def a_def p_def tree1_def)
  have "ri_tree (ready_build_step vals (Suc k) r) ! i =
      word_of_int (if i \<le> a then slot_sum vals i
       else sum_list (take (filled i a) vals) - sum_list (take (i - lowbit i) vals))"
    if i: "0 < i" "i \<le> length vals" for i
  proof -
    have old: "ri_tree r ! i = word_of_int (if i \<le> k then slot_sum vals i
           else sum_list (take (filled i k) vals) - sum_list (take (i - lowbit i) vals))"
      using inv i by (simp add: build_inv_def)
    consider "i < a" | "i = a" | "a < i" "i = p" | "a < i" "i \<noteq> p" by linarith
    then show ?thesis
    proof cases
      case 1
      with old lb i len show ?thesis by (simp add: step tree1_def p_def a_def)
    next
      case 2
      with own lb show ?thesis by (simp add: step p_def)
    next
      case 3
      have "filled i k = a - lowbit a" using filled_child [of a i] 3 by (simp add: a_def p_def)
      moreover have "filled i a = a" using 3 by (simp add: a_def p_def)
      moreover have "slot_sum vals a = sum_list (take a vals) - sum_list (take (a - lowbit a) vals)"
        using slot_sum_interval [of a vals] k by (simp add: a_def)
      ultimately show ?thesis using 3 old own i len by (simp add: step tree1_def a_def)
    next
      case 4
      then have "filled i a = filled i k" by (simp add: a_def p_def)
      with 4 old i len show ?thesis by (simp add: step tree1_def a_def)
    qed
  qed
  then show ?thesis using inv S len by (simp add: build_inv_def step a_def tree1_def)
qed

lemma ready_index_new_rel: "ready_rel (ready_index_new vals) vals"
proof -
  have "k \<le> length vals \<Longrightarrow> build_inv vals k (fold (ready_build_step vals) [1..<k + 1]
     \<lparr>ri_tree = replicate (length vals + 1) 0, ri_total = 0\<rparr>)" for k
  proof (induction k)
    case 0
    show ?case by (auto simp: build_inv_def simp del: upt_Suc)
  next
    case (Suc k)
    then show ?case using ready_build_step_inv [of vals k] by simp
  qed
  from this [of "length vals"] show ?thesis by (simp add: ready_index_new_def build_inv_def ready_rel_def)
qed

section \<open>The position of a rank\<close>

lemma lowbit_power: "lowbit (2 ^ m * (2 * q + 1)) = 2 ^ m"
proof (induction m)
  case (Suc m)
  have "2 ^ Suc m * (2 * q + 1) = 2 * (2 ^ m * (2 * q + 1))" by simp
  then show ?case using Suc by (simp only: lowbit_double) simp
qed simp

lemma top_bit_power: "\<exists>m. top_bit len (2 ^ j) = 2 ^ m \<and> len \<le> 2 ^ Suc m"
proof (induction len "(2 :: nat) ^ j" arbitrary: j rule: top_bit.induct)
  case (1 len)
  show ?case
  proof (cases "2 ^ j * 2 < len")
    case True
    then have "top_bit len (2 ^ j) = top_bit len (2 ^ Suc j)" by (simp add: top_bit.simps [of len "2 ^ j"] mult.commute)
    with 1 [of "Suc j"] True show ?thesis by (simp add: mult.commute)
  next
    case False
    then show ?thesis by (intro exI [of _ j]) (simp add: top_bit.simps)
  qed
qed

lemma ready_at_loop_rank:
  assumes rel: "ready_exact r vals"
  shows "index = 2 ^ Suc m * q \<Longrightarrow> 0 \<le> order \<Longrightarrow> index \<le> length vals \<Longrightarrow>
     order + sum_list (take index vals) < sum_list (take (index + 2 ^ Suc m) vals) \<Longrightarrow>
     \<exists>k. ready_at_loop (ri_tree r) (2 ^ m) index order = k \<and> k < length vals
       \<and> sum_list (take k vals) \<le> order + sum_list (take index vals)
       \<and> order + sum_list (take index vals) < sum_list (take (Suc k) vals)"
proof (induction m arbitrary: index q order)
  case 0
  have tree: "uint (ri_tree r ! (index + 1)) = sum_list (take (index + 1) vals) - sum_list (take index vals)"
    if "index + 1 \<le> length vals"
    using rel that lowbit_power [of 0 q] 0(1) slot_sum_interval [of "index + 1" vals] by (simp add: ready_exact_def)
  have len: "length (ri_tree r) = length vals + 1" using rel by (simp add: ready_exact_def)
  show ?case
  proof (cases "index + 1 \<le> length vals \<and> uint (ri_tree r ! (index + 1)) \<le> order")
    case True
    with tree 0 have "index + 1 < length vals" by (cases "index + 1 = length vals") auto
    with True tree 0 len show ?thesis
      by (simp add: ready_at_loop.simps [of _ "Suc 0"] ready_at_loop.simps [of _ 0] Let_def)
  next
    case False
    moreover have "index + 1 \<le> length vals" using 0(2-4) by (cases "index = length vals") auto
    ultimately show ?thesis using 0 tree len
      by (simp add: ready_at_loop.simps [of _ "Suc 0"] ready_at_loop.simps [of _ 0] Let_def)
  qed
next
  case (Suc m)
  define b where "b = (2 :: nat) ^ Suc m"
  have b: "0 < b" "b div 2 = 2 ^ m" "(2 :: nat) ^ Suc (Suc m) = 2 * b" by (simp_all add: b_def)
  have lb: "lowbit (index + b) = b"
    using lowbit_power [of "Suc m" q] Suc.prems(1) by (simp add: b_def algebra_simps)
  have tree: "uint (ri_tree r ! (index + b)) = sum_list (take (index + b) vals) - sum_list (take index vals)"
    if "index + b \<le> length vals"
    using rel that lb slot_sum_interval [of "index + b" vals] b(1) by (simp add: ready_exact_def)
  have len: "length (ri_tree r) = length vals + 1" using rel by (simp add: ready_exact_def)
  show ?case
  proof (cases "index + b \<le> length vals \<and> uint (ri_tree r ! (index + b)) \<le> order")
    case True
    have e: "ready_at_loop (ri_tree r) (2 ^ Suc m) index order
        = ready_at_loop (ri_tree r) (2 ^ m) (index + b) (order - uint (ri_tree r ! (index + b)))"
      using True b len by (simp add: b_def [symmetric] ready_at_loop.simps [of _ b] Let_def)
    define rest where "rest = order - uint (ri_tree r ! (index + b))"
    have i: "index + b = 2 ^ Suc m * (2 * q + 1)" using Suc.prems(1) by (simp add: b_def algebra_simps)
    have same: "rest + sum_list (take (index + b) vals) = order + sum_list (take index vals)"
      using True tree by (simp add: rest_def)
    have "index + 2 ^ Suc (Suc m) = index + b + 2 ^ Suc m" by (simp add: b_def)
    then have bound: "rest + sum_list (take (index + b) vals) < sum_list (take (index + b + 2 ^ Suc m) vals)"
      using Suc.prems(4) same by (simp only:)
    have "0 \<le> rest" "index + b \<le> length vals" using True by (simp_all add: rest_def)
    from Suc.IH [OF i this bound] show ?thesis by (simp only: e same rest_def [symmetric])
  next
    case False
    have e: "ready_at_loop (ri_tree r) (2 ^ Suc m) index order = ready_at_loop (ri_tree r) (2 ^ m) index order"
      using False b len by (auto simp: b_def [symmetric] ready_at_loop.simps [of _ b] Let_def)
    have "order + sum_list (take index vals) < sum_list (take (index + b) vals)"
    proof (cases "index + b \<le> length vals")
      case True
      with False tree show ?thesis by simp
    next
      case False
      with Suc.prems(4) b(3) show ?thesis by simp
    qed
    moreover have "index = 2 ^ Suc m * (2 * q)" using Suc.prems(1) by (simp add: algebra_simps)
    ultimately show ?thesis using Suc.IH [of index "2 * q" order] Suc.prems(2,3) e by (simp add: b_def)
  qed
qed

lemma ready_at_rank:
  assumes "ready_exact r vals" and "0 \<le> order" and "order < sum_list vals"
  obtains k where "ready_at order r = int k" and "k < length vals" and "sum_list (take k vals) \<le> order"
    and "order < sum_list (take (Suc k) vals)"
proof -
  have len: "length (ri_tree r) = length vals + 1" and tot: "ri_total r = sum_list vals"
    using assms(1) by (simp_all add: ready_exact_def)
  obtain m where m: "top_bit (length vals + 1) 1 = 2 ^ m" "length vals + 1 \<le> 2 ^ Suc m"
    using top_bit_power [of "length vals + 1" 0] by auto
  then have "order + sum_list (take 0 vals) < sum_list (take (0 + 2 ^ Suc m) vals)" using assms(3) by simp
  from ready_at_loop_rank [OF assms(1) _ assms(2) _ this, of 0] obtain k where
    "ready_at_loop (ri_tree r) (2 ^ m) 0 order = k" "k < length vals" "sum_list (take k vals) \<le> order"
    "order < sum_list (take (Suc k) vals)" by auto
  with assms(2,3) m(1) len tot that show thesis by (simp add: ready_at_def)
qed

text \<open>
  Property C23: the indexed counts implement an array. After building an index over an array and any
  changes of single counts, \<open>before\<close> is the sum of the counts in front of a position, and when every
  count is 0 or 1, \<open>at\<close> is the position of the ready element that has exactly the given number of ready
  elements in front of it; it is -1 exactly when there is no such element. The cells of the index wrap
  around at \<open>2 ^ 32\<close>, so the counts have to be nonnegative with a sum below that when it is read.
\<close>

theorem ready_index_refines:
  assumes "\<forall>(q, d)\<in>set changes. q < length vals"
    and "vals' = fold (\<lambda>(q, d) vs. vs[q := vs ! q + d]) changes vals"
    and "r = fold (\<lambda>(q, d). ready_add q d) changes (ready_index_new vals)"
    and "\<forall>v\<in>set vals'. 0 \<le> v" and "sum_list vals' < 2 ^ 32"
  shows "(e \<le> length vals \<longrightarrow> ready_before e r = sum_list (take e vals'))
     \<and> (ready_at order r = - 1 \<longleftrightarrow> order < 0 \<or> order \<ge> sum_list vals')
     \<and> (\<forall>k. ready_at order r = int k \<and> set vals' \<subseteq> {0, 1} \<longrightarrow>
          k < length vals \<and> vals' ! k = 1 \<and> sum_list (take k vals') = order)"
proof -
  have "ready_rel r vals \<Longrightarrow> \<forall>(q, d)\<in>set changes. q < length vals \<Longrightarrow>
      ready_rel (fold (\<lambda>(q, d). ready_add q d) changes r) (fold (\<lambda>(q, d) vs. vs[q := vs ! q + d]) changes vals)
      \<and> length (fold (\<lambda>(q, d) vs. vs[q := vs ! q + d]) changes vals) = length vals" for r vals
  proof (induction changes arbitrary: r vals)
    case (Cons c changes)
    obtain q d where c: "c = (q, d)" by (cases c)
    with Cons.prems have "ready_rel (ready_add q d r) (vals[q := vals ! q + d])" by (intro ready_add_rel) auto
    from Cons.IH [OF this] Cons.prems(2) show ?case by (simp add: c)
  qed simp
  from this [OF ready_index_new_rel assms(1)] have rel: "ready_rel r vals'" and len: "length vals' = length vals"
    by (simp_all add: assms(2,3))
  from rel assms(4,5) have exact: "ready_exact r vals'" by (rule ready_rel_exact)
  have none: "ready_at order r = - 1 \<longleftrightarrow> order < 0 \<or> order \<ge> sum_list vals'"
  proof (cases "order < 0 \<or> order \<ge> sum_list vals'")
    case False
    then obtain k where "ready_at order r = int k" using ready_at_rank [OF exact, of order] by auto
    with False show ?thesis by simp
  qed (use rel in \<open>auto simp: ready_at_def ready_rel_def\<close>)
  have "k < length vals \<and> vals' ! k = 1 \<and> sum_list (take k vals') = order"
    if k: "ready_at order r = int k" and zo: "set vals' \<subseteq> {0, 1}" for k
  proof -
    from k none have "0 \<le> order" "order < sum_list vals'" by auto
    then obtain k' where k': "ready_at order r = int k'" "k' < length vals'" "sum_list (take k' vals') \<le> order"
      "order < sum_list (take (Suc k') vals')" using ready_at_rank [OF exact] by blast
    from k k'(1) have "k' = k" by simp
    with k' have "order < sum_list (take k vals') + vals' ! k" by (simp add: take_Suc_conv_app_nth)
    moreover have "vals' ! k \<in> {0, 1}" using zo k'(2) \<open>k' = k\<close> nth_mem by blast
    ultimately show ?thesis using k' \<open>k' = k\<close> len by auto
  qed
  with none ready_before_sum [OF exact] len show ?thesis by auto
qed

theorem ready_index_refines_witness:
  "ready_before 3 (ready_add 1 1 (ready_index_new [1, 0, 0, 1, 1])) = 2
   \<and> ready_at 3 (ready_add 1 1 (ready_index_new [1, 0, 0, 1, 1])) \<noteq> - 1"
  using ready_index_refines [of "[(1, 1)]" "[1, 0, 0, 1, 1]" "[1, 1, 0, 1, 1]"
      "ready_add 1 1 (ready_index_new [1, 0, 0, 1, 1])" 3 3] by simp

end
