(* ===== verification/Indexed_Heap.thy ===== *)
theory Indexed_Heap
  imports Wallet_Prelude Js_Map "HOL-Library.Multiset"
begin

text \<open>
  The indexed heap of the claim scheduler (\<open>src/src/core/claim-scheduler.mjs\<close>, class \<open>IndexedHeap\<close>): a binary
  heap of keyed values with a map from keys to positions, so that a value can be replaced or removed
  in place. It is shown to refine a finite map whose least value \<open>peek\<close> returns. The proofs are done
  for any comparator that satisfies the contract \<open>js_order\<close>.
\<close>

locale js_order = js_comparator +
  assumes cmp_sign: "cmp a b < 0 \<longleftrightarrow> 0 < cmp b a"
begin

lemma not_less_cmp: "\<not> cmp a b < 0 \<Longrightarrow> cmp b a \<le> 0"
  using cmp_sign [of a b] by linarith

lemma less_cmp: "0 < cmp a b \<Longrightarrow> cmp b a \<le> 0"
  using cmp_sign [of b a] by linarith

end

record ('k, 'v) indexed_heap =
  ih_items :: "('k \<times> 'v) list"
  ih_indices :: "('k, nat) jmap"

definition heap_new :: "('k, 'v) indexed_heap" where
  "heap_new = \<lparr>ih_items = [], ih_indices = []\<rparr>"

definition heap_peek :: "('k, 'v) indexed_heap \<Rightarrow> 'v option" where
  "heap_peek h = (case ih_items h of [] \<Rightarrow> None | (_, v) # _ \<Rightarrow> Some v)"

definition heap_swap :: "nat \<Rightarrow> nat \<Rightarrow> ('k, 'v) indexed_heap \<Rightarrow> ('k, 'v) indexed_heap" where
  "heap_swap a b h =
     (let items = (ih_items h)[a := ih_items h ! b, b := ih_items h ! a]
      in h\<lparr>ih_items := items, ih_indices := jset (jset (ih_indices h) (fst (items ! a)) a) (fst (items ! b)) b\<rparr>)"

text \<open>The two loops of \<open>repair\<close>; the first returns the position it stops at.\<close>

fun heap_up :: "('v \<Rightarrow> 'v \<Rightarrow> int) \<Rightarrow> nat \<Rightarrow> ('k, 'v) indexed_heap \<Rightarrow> nat \<times> ('k, 'v) indexed_heap" where
  "heap_up cmp i h =
     (if i > 0
      then let parent = (i - 1) div 2 in
        if cmp (snd (ih_items h ! parent)) (snd (ih_items h ! i)) \<le> 0 then (i, h)
        else heap_up cmp parent (heap_swap parent i h)
      else (i, h))"

declare heap_up.simps [simp del]

definition heap_best :: "('v \<Rightarrow> 'v \<Rightarrow> int) \<Rightarrow> nat \<Rightarrow> ('k \<times> 'v) list \<Rightarrow> nat" where
  "heap_best cmp i items =
     foldl (\<lambda>best child. if child < length items \<and> cmp (snd (items ! child)) (snd (items ! best)) < 0 then child else best)
       i [2 * i + 1, 2 * i + 2]"

lemma parent_less: "0 < (j :: nat) \<Longrightarrow> (j - 1) div 2 < j"
  by linarith

lemma length_heap_swap [simp]: "length (ih_items (heap_swap a b h)) = length (ih_items h)"
  by (simp add: heap_swap_def Let_def)

lemma heap_best_cases: "heap_best cmp i items = i \<or> heap_best cmp i items = 2 * i + 1 \<and> 2 * i + 1 < length items
    \<or> heap_best cmp i items = 2 * i + 2 \<and> 2 * i + 2 < length items"
  by (simp add: heap_best_def)

function heap_down :: "('v \<Rightarrow> 'v \<Rightarrow> int) \<Rightarrow> nat \<Rightarrow> ('k, 'v) indexed_heap \<Rightarrow> ('k, 'v) indexed_heap" where
  "heap_down cmp i h =
     (let best = heap_best cmp i (ih_items h)
      in if best = i then h else heap_down cmp best (heap_swap i best h))"
  by pat_completeness auto
termination
proof (relation "measure (\<lambda>(_, i, h). length (ih_items h) - i)")
  fix cmp :: "'v \<Rightarrow> 'v \<Rightarrow> int" and i best and h :: "('k, 'v) indexed_heap"
  assume "best = heap_best cmp i (ih_items h)" and "best \<noteq> i"
  with heap_best_cases [of cmp i "ih_items h"] have "i < best \<and> best < length (ih_items h)" by linarith
  then show "((cmp, best, heap_swap i best h), cmp, i, h) \<in> measure (\<lambda>(_, i, h). length (ih_items h) - i)"
    by (simp add: diff_less_mono2)
qed simp

declare heap_down.simps [simp del]

definition heap_repair :: "('v \<Rightarrow> 'v \<Rightarrow> int) \<Rightarrow> nat \<Rightarrow> ('k, 'v) indexed_heap \<Rightarrow> ('k, 'v) indexed_heap" where
  "heap_repair cmp i h = (let (i, h) = heap_up cmp i h in heap_down cmp i h)"

definition heap_set :: "('v \<Rightarrow> 'v \<Rightarrow> int) \<Rightarrow> 'k \<Rightarrow> 'v \<Rightarrow> ('k, 'v) indexed_heap \<Rightarrow> ('k, 'v) indexed_heap" where
  "heap_set cmp key v h = (case jget (ih_indices h) key of
       None \<Rightarrow> heap_repair cmp (length (ih_items h))
         (h\<lparr>ih_items := ih_items h @ [(key, v)], ih_indices := jset (ih_indices h) key (length (ih_items h))\<rparr>)
     | Some i \<Rightarrow> heap_repair cmp i (h\<lparr>ih_items := (ih_items h)[i := (key, v)]\<rparr>))"

definition heap_remove :: "('v \<Rightarrow> 'v \<Rightarrow> int) \<Rightarrow> 'k \<Rightarrow> ('k, 'v) indexed_heap \<Rightarrow> ('k, 'v) indexed_heap" where
  "heap_remove cmp key h = (case jget (ih_indices h) key of
       None \<Rightarrow> h
     | Some i \<Rightarrow>
         let h = h\<lparr>ih_indices := jdelete (ih_indices h) key\<rparr>;
             final = List.last (ih_items h);
             h = h\<lparr>ih_items := butlast (ih_items h)\<rparr>
         in if i < length (ih_items h)
            then heap_repair cmp i (h\<lparr>ih_items := (ih_items h)[i := final],
                   ih_indices := jset (ih_indices h) (fst final) i\<rparr>)
            else h)"

section \<open>Keys and positions\<close>

definition index_ok :: "('k, 'v) indexed_heap \<Rightarrow> bool" where
  "index_ok h \<longleftrightarrow> (\<forall>k i. jget (ih_indices h) k = Some i \<longleftrightarrow> i < length (ih_items h) \<and> fst (ih_items h ! i) = k)"

lemma index_ok_inj: "index_ok h \<Longrightarrow> i < length (ih_items h) \<Longrightarrow> j < length (ih_items h) \<Longrightarrow>
    fst (ih_items h ! i) = fst (ih_items h ! j) \<Longrightarrow> i = j"
  unfolding index_ok_def by (metis option.inject)

lemma heap_swap_nth:
  assumes "a < length (ih_items h)" and "b < length (ih_items h)"
  shows "ih_items (heap_swap a b h) ! i = (if i = b then ih_items h ! a else if i = a then ih_items h ! b else ih_items h ! i)"
  using assms by (auto simp: heap_swap_def Let_def nth_list_update)

lemma heap_swap_index:
  assumes ok: "index_ok h" and ab: "a < length (ih_items h)" "b < length (ih_items h)"
  shows "index_ok (heap_swap a b h)"
proof -
  have ind: "jget (ih_indices (heap_swap a b h)) k
      = (if fst (ih_items h ! a) = k then Some b else if fst (ih_items h ! b) = k then Some a else jget (ih_indices h) k)" for k
    using ab by (auto simp: heap_swap_def Let_def nth_list_update)
  show ?thesis
    unfolding index_ok_def length_heap_swap
  proof (intro allI)
    fix k i
    show "(jget (ih_indices (heap_swap a b h)) k = Some i)
        = (i < length (ih_items h) \<and> fst (ih_items (heap_swap a b h) ! i) = k)"
      using ok ab index_ok_inj [OF ok]
      by (auto simp: ind heap_swap_nth index_ok_def)
  qed
qed

lemma heap_swap_mset:
  "a < length (ih_items h) \<Longrightarrow> b < length (ih_items h) \<Longrightarrow> mset (ih_items (heap_swap a b h)) = mset (ih_items h)"
  by (cases "a = b") (simp_all add: heap_swap_def Let_def mset_swap)

lemma heap_up_keeps:
  "index_ok h \<Longrightarrow> i < length (ih_items h) \<Longrightarrow> heap_up cmp i h = (i', h') \<Longrightarrow>
     index_ok h' \<and> mset (ih_items h') = mset (ih_items h) \<and> length (ih_items h') = length (ih_items h) \<and> i' \<le> i"
proof (induction cmp i h rule: heap_up.induct)
  case (1 cmp i h)
  show ?case
  proof (cases "0 < i \<and> \<not> cmp (snd (ih_items h ! ((i - 1) div 2))) (snd (ih_items h ! i)) \<le> 0")
    case True
    define p where "p = (i - 1) div 2"
    have p: "p < i" "p < length (ih_items h)" using True 1(3) by (auto simp: p_def)
    have "heap_up cmp p (heap_swap p i h) = (i', h')"
      using True 1(4) by (simp add: heap_up.simps [of cmp i h] Let_def p_def)
    from 1(1) [OF conjunct1 [OF True] p_def conjunct2 [OF True [folded p_def]] heap_swap_index [OF 1(2) p(2) 1(3)] _ this]
    show ?thesis using p 1(3) heap_swap_mset [of p h i] by simp
  next
    case False
    with 1(4) have "i' = i" "h' = h" by (auto simp: heap_up.simps [of cmp i h] Let_def split: if_splits)
    with 1 show ?thesis by simp
  qed
qed

lemma heap_down_keeps:
  "index_ok h \<Longrightarrow> i < length (ih_items h) \<Longrightarrow>
     index_ok (heap_down cmp i h) \<and> mset (ih_items (heap_down cmp i h)) = mset (ih_items h)"
proof (induction cmp i h rule: heap_down.induct)
  case (1 cmp i h)
  define best where "best = heap_best cmp i (ih_items h)"
  show ?case
  proof (cases "best = i")
    case False
    have b: "best < length (ih_items h)" using heap_best_cases [of cmp i "ih_items h"] 1(3) by (auto simp: best_def)
    have "heap_down cmp i h = heap_down cmp best (heap_swap i best h)"
      using False by (simp add: heap_down.simps [of cmp i h] Let_def best_def)
    with 1(1) [OF best_def False heap_swap_index [OF 1(2,3) b]] b heap_swap_mset [OF 1(3) b] show ?thesis by simp
  qed (use 1 best_def in \<open>simp add: heap_down.simps [of cmp i h] Let_def\<close>)
qed

text \<open>The finite map a heap stands for.\<close>

definition heap_map :: "('k, 'v) indexed_heap \<Rightarrow> 'k \<Rightarrow> 'v option" where
  "heap_map h k = map_option (\<lambda>i. snd (ih_items h ! i)) (jget (ih_indices h) k)"

lemma heap_map_iff: "index_ok h \<Longrightarrow> heap_map h k = Some v \<longleftrightarrow> (k, v) \<in> set (ih_items h)"
  by (auto simp: heap_map_def index_ok_def in_set_conv_nth intro: exI [of _ "_ :: nat"])

lemma heap_size: "index_ok h \<Longrightarrow> length (ih_items h) = card (dom (heap_map h))"
proof -
  assume ok: "index_ok h"
  have "distinct (map fst (ih_items h))"
    unfolding distinct_conv_nth by (auto dest: index_ok_inj [OF ok])
  then have "length (ih_items h) = card (fst ` set (ih_items h))" by (metis distinct_card length_map set_map)
  moreover have "fst ` set (ih_items h) = dom (heap_map h)" using heap_map_iff [OF ok] by (force simp: dom_def)
  ultimately show ?thesis by simp
qed

lemma heap_map_eqI:
  assumes "index_ok h" and "index_ok h'" and "set (ih_items h') = set (ih_items h)"
  shows "heap_map h' = heap_map h"
proof
  fix k
  show "heap_map h' k = heap_map h k"
  proof (cases "heap_map h' k")
    case None
    then have "heap_map h k \<noteq> Some v" for v
      using heap_map_iff [OF assms(1)] heap_map_iff [OF assms(2)] assms(3) by (metis option.distinct(1))
    with None show ?thesis by (cases "heap_map h k") auto
  next
    case (Some v)
    then have "heap_map h k = Some v" using heap_map_iff [OF assms(1)] heap_map_iff [OF assms(2)] assms(3) by metis
    with Some show ?thesis by simp
  qed
qed

lemma index_ok_append:
  assumes "index_ok h" and "jget (ih_indices h) k = None"
  shows "index_ok (h\<lparr>ih_items := ih_items h @ [(k, v)], ih_indices := jset (ih_indices h) k (length (ih_items h))\<rparr>)
    \<and> heap_map (h\<lparr>ih_items := ih_items h @ [(k, v)], ih_indices := jset (ih_indices h) k (length (ih_items h))\<rparr>)
       = (heap_map h)(k \<mapsto> v)"
proof -
  have no: "i < length (ih_items h) \<Longrightarrow> fst (ih_items h ! i) \<noteq> k" for i
    using assms(1) [unfolded index_ok_def, rule_format, of k i] assms(2) by auto
  let ?h = "h\<lparr>ih_items := ih_items h @ [(k, v)], ih_indices := jset (ih_indices h) k (length (ih_items h))\<rparr>"
  have get: "jget (ih_indices h) k' = Some j \<longleftrightarrow> j < length (ih_items h) \<and> fst (ih_items h ! j) = k'" for k' j
    using assms(1) by (simp add: index_ok_def)
  have "(jget (ih_indices ?h) k' = Some j) = (j < length (ih_items ?h) \<and> fst (ih_items ?h ! j) = k')" for k' j
    using get [of k' j] no [of j] by (cases "j < length (ih_items h)") (auto simp: nth_append less_Suc_eq)
  moreover have "heap_map ?h k' = ((heap_map h)(k \<mapsto> v)) k'" for k'
    using get [of k'] by (cases "jget (ih_indices h) k'") (auto simp: heap_map_def nth_append)
  ultimately show ?thesis by (auto simp: index_ok_def)
qed

lemma index_ok_update:
  assumes "index_ok h" and "jget (ih_indices h) k = Some i"
  shows "index_ok (h\<lparr>ih_items := (ih_items h)[i := (k, v)]\<rparr>)
    \<and> heap_map (h\<lparr>ih_items := (ih_items h)[i := (k, v)]\<rparr>) = (heap_map h)(k \<mapsto> v)"
proof -
  have i: "i < length (ih_items h)" "fst (ih_items h ! i) = k" using assms by (auto simp: index_ok_def)
  have inj: "jget (ih_indices h) k' = Some i \<Longrightarrow> k' = k" for k' using assms by (auto simp: index_ok_def)
  have "index_ok (h\<lparr>ih_items := (ih_items h)[i := (k, v)]\<rparr>)"
    using assms(1) i by (auto simp: index_ok_def nth_list_update)
  moreover have "heap_map (h\<lparr>ih_items := (ih_items h)[i := (k, v)]\<rparr>) k' = ((heap_map h)(k \<mapsto> v)) k'" for k'
    using assms(2) i inj [of k'] by (cases "jget (ih_indices h) k'") (auto simp: heap_map_def nth_list_update)
  ultimately show ?thesis by auto
qed

lemma index_ok_remove:
  assumes "index_ok h" and "jget (ih_indices h) k = Some i"
    and "ih_items h' = (if i < length (ih_items h) - 1 then (butlast (ih_items h))[i := List.last (ih_items h)]
      else butlast (ih_items h))"
    and "ih_indices h' = (if i < length (ih_items h) - 1
      then jset (jdelete (ih_indices h) k) (fst (List.last (ih_items h))) i else jdelete (ih_indices h) k)"
  shows "index_ok h'" and "heap_map h' = (heap_map h)(k := None)"
proof -
  define n where "n = length (ih_items h) - 1"
  have i: "i < length (ih_items h)" "fst (ih_items h ! i) = k" using assms by (auto simp: index_ok_def)
  then have n: "length (ih_items h) = Suc n" "i \<le> n" by (auto simp: n_def)
  then have "ih_items h \<noteq> []" by auto
  then have l: "List.last (ih_items h) = ih_items h ! n" "ih_items h \<noteq> []" using n(1) by (simp_all add: last_conv_nth)
  note inj = index_ok_inj [OF assms(1), unfolded n(1)]
  have get: "jget (ih_indices h) k' = Some j \<longleftrightarrow> j < Suc n \<and> fst (ih_items h ! j) = k'" for k' j
    using assms(1) n(1) by (simp add: index_ok_def)
  have len: "length (ih_items h') = n" using assms(3) n(1) by simp
  have items: "ih_items h' ! j = (if j = i then ih_items h ! n else ih_items h ! j)" if "j < n" for j
    using assms(3) that n l by (auto simp: nth_list_update nth_butlast)
  have ind: "jget (ih_indices h') k' = (if i < n \<and> k' = fst (ih_items h ! n) then Some i
      else if k' = k then None else jget (ih_indices h) k')" for k'
    using assms(4) n(1) l by simp
  have key: "fst (ih_items h ! j) = k \<longleftrightarrow> j = i" if "j < Suc n" for j
    using inj [of j i] that i n(2) by auto
  show "index_ok h'"
    unfolding index_ok_def len
  proof (intro allI)
    fix k' j
    show "(jget (ih_indices h') k' = Some j) = (j < n \<and> fst (ih_items h' ! j) = k')"
    proof (cases "j < n")
      case True
      then show ?thesis using items [of j] ind [of k'] get [of k' j] get [of k' n] key [of j] key [of n] inj [of j n] inj [of i n] n(2)
        by auto
    next
      case False
      then show ?thesis using ind [of k'] get [of k' j] key [of n] i(2) n(2) by (auto simp: less_Suc_eq)
    qed
  qed
  show "heap_map h' = (heap_map h)(k := None)"
  proof
    fix k'
    show "heap_map h' k' = ((heap_map h)(k := None)) k'"
    proof (cases "jget (ih_indices h) k'")
      case None
      then have "k' \<noteq> fst (ih_items h ! n)" using get [of k' n] by auto
      with None show ?thesis using ind [of k'] by (simp add: heap_map_def)
    next
      case (Some j)
      with get [of k' j] have j: "j < Suc n" "fst (ih_items h ! j) = k'" by auto
      show ?thesis
      proof (cases "j = n")
        case True
        then show ?thesis using Some ind [of k'] items [of i] key [of n] j n(2) by (auto simp: heap_map_def)
      next
        case False
        then show ?thesis using Some ind [of k'] items [of j] key [of j] inj [of j n] j by (auto simp: heap_map_def)
      qed
    qed
  qed
qed

section \<open>The heap order\<close>

context js_order
begin

definition ordered_at :: "('k \<times> 'a) list \<Rightarrow> nat \<Rightarrow> bool" where
  "ordered_at items j \<longleftrightarrow> cmp (snd (items ! ((j - 1) div 2))) (snd (items ! j)) \<le> 0"

definition heap_ordered :: "('k \<times> 'a) list \<Rightarrow> bool" where
  "heap_ordered items \<longleftrightarrow> (\<forall>j. 0 < j \<and> j < length items \<longrightarrow> ordered_at items j)"

text \<open>Everything is in order except possibly position \<open>i\<close> with its parent and its children.\<close>

definition disturbed :: "nat \<Rightarrow> ('k \<times> 'a) list \<Rightarrow> bool" where
  "disturbed i items \<longleftrightarrow> (\<forall>j. 0 < j \<and> j < length items \<and> j \<noteq> i \<and> (j - 1) div 2 \<noteq> i \<longrightarrow> ordered_at items j)
     \<and> (\<forall>j. 0 < i \<and> 0 < j \<and> j < length items \<and> (j - 1) div 2 = i \<longrightarrow>
          cmp (snd (items ! ((i - 1) div 2))) (snd (items ! j)) \<le> 0)"

lemma heap_up_ordered:
  "i < length (ih_items h) \<Longrightarrow> disturbed i (ih_items h) \<Longrightarrow> heap_up cmp i h = (i', h') \<Longrightarrow>
     disturbed i' (ih_items h') \<and> (0 < i' \<longrightarrow> ordered_at (ih_items h') i') \<and> i' < length (ih_items h')"
proof (induction i arbitrary: h rule: less_induct)
  case (less i)
  define p where "p = (i - 1) div 2"
  show ?case
  proof (cases "0 < i \<and> \<not> cmp (snd (ih_items h ! p)) (snd (ih_items h ! i)) \<le> 0")
    case True
    let ?h = "heap_swap p i h"
    have p: "p < i" "p < length (ih_items h)" using True less.prems(1) by (auto simp: p_def)
    have gt: "cmp (snd (ih_items h ! i)) (snd (ih_items h ! p)) \<le> 0" using True less_cmp by auto
    note nth = heap_swap_nth [OF p(2) less.prems(1)]
    have old: "0 < j \<Longrightarrow> j < length (ih_items h) \<Longrightarrow> j \<noteq> i \<Longrightarrow> (j - 1) div 2 \<noteq> i \<Longrightarrow> ordered_at (ih_items h) j" for j
      using less.prems(2) by (simp add: disturbed_def)
    have grand: "0 < j \<Longrightarrow> j < length (ih_items h) \<Longrightarrow> (j - 1) div 2 = i \<Longrightarrow>
        cmp (snd (ih_items h ! p)) (snd (ih_items h ! j)) \<le> 0" for j
      using less.prems(2) True by (simp add: disturbed_def p_def)
    have "disturbed p (ih_items ?h)"
      unfolding disturbed_def length_heap_swap
    proof (intro conjI allI impI)
      fix j assume j: "0 < j \<and> j < length (ih_items h) \<and> j \<noteq> p \<and> (j - 1) div 2 \<noteq> p"
      show "ordered_at (ih_items ?h) j"
      proof (cases "(j - 1) div 2 = i")
        case True
        with j grand [of j] have "j \<noteq> i" by (auto simp: p_def)
        with True j grand [of j] show ?thesis by (simp add: ordered_at_def nth)
      next
        case False
        with j have "j \<noteq> i" by (auto simp: p_def)
        with False j old [of j] show ?thesis by (simp add: ordered_at_def nth)
      qed
    next
      fix j assume j: "0 < p \<and> 0 < j \<and> j < length (ih_items h) \<and> (j - 1) div 2 = p"
      have pp: "(p - 1) div 2 < p" using j by (intro parent_less) simp
      then have "(p - 1) div 2 \<noteq> i" using p(1) by linarith
      note pp = pp this
      have top: "cmp (snd (ih_items h ! ((p - 1) div 2))) (snd (ih_items h ! p)) \<le> 0"
        using old [of p] j p pp by (simp add: ordered_at_def)
      show "cmp (snd (ih_items ?h ! ((p - 1) div 2))) (snd (ih_items ?h ! j)) \<le> 0"
      proof (cases "j = i")
        case True
        with top pp show ?thesis by (simp add: nth)
      next
        case False
        have "j \<noteq> p" using j by (cases j) auto
        have "cmp (snd (ih_items h ! p)) (snd (ih_items h ! j)) \<le> 0"
          using old [of j] j False p(1) by (simp add: ordered_at_def)
        with top have "cmp (snd (ih_items h ! ((p - 1) div 2))) (snd (ih_items h ! j)) \<le> 0" by (rule cmp_trans)
        with False \<open>j \<noteq> p\<close> pp show ?thesis by (simp add: nth)
      qed
    qed
    moreover have "heap_up cmp p ?h = (i', h')"
      using True less.prems(3) by (simp add: heap_up.simps [of cmp i h] Let_def p_def)
    ultimately show ?thesis using less.IH [OF p(1), of ?h] p(2) by simp
  next
    case False
    with less.prems(3) have "i' = i" "h' = h" by (auto simp: heap_up.simps [of cmp i h] Let_def p_def split: if_splits)
    with less.prems False show ?thesis by (auto simp: ordered_at_def p_def)
  qed
qed

lemma heap_best_least:
  assumes "c \<in> {i, 2 * i + 1, 2 * i + 2}" and "c < length items"
  shows "cmp (snd (items ! heap_best cmp i items)) (snd (items ! c)) \<le> 0"
proof -
  define v where "v j = snd (items ! j)" for j
  define b1 where "b1 = (if 2 * i + 1 < length items \<and> cmp (v (2 * i + 1)) (v i) < 0 then 2 * i + 1 else i)"
  have best: "heap_best cmp i items
      = (if 2 * i + 2 < length items \<and> cmp (v (2 * i + 2)) (v b1) < 0 then 2 * i + 2 else b1)"
    by (simp add: heap_best_def v_def b1_def)
  have b1: "cmp (v b1) (v i) \<le> 0" "2 * i + 1 < length items \<Longrightarrow> cmp (v b1) (v (2 * i + 1)) \<le> 0"
    using not_less_cmp [of "v (2 * i + 1)" "v i"] by (auto simp: b1_def cmp_refl)
  have up: "cmp (v (heap_best cmp i items)) (v b1) \<le> 0" by (simp add: best cmp_refl)
  consider "c = i" | "c = 2 * i + 1" | "c = 2 * i + 2" using assms(1) by blast
  then have "cmp (v (heap_best cmp i items)) (v c) \<le> 0"
  proof cases
    case 1
    with cmp_trans [OF up b1(1)] show ?thesis by simp
  next
    case 2
    with cmp_trans [OF up b1(2)] assms(2) show ?thesis by simp
  next
    case 3
    with assms(2) not_less_cmp [of "v c" "v b1"] show ?thesis by (auto simp: best cmp_refl)
  qed
  then show ?thesis by (simp add: v_def)
qed

lemma heap_down_ordered:
  "i < length (ih_items h) \<Longrightarrow> disturbed i (ih_items h) \<Longrightarrow> (0 < i \<longrightarrow> ordered_at (ih_items h) i) \<Longrightarrow>
     heap_ordered (ih_items (heap_down cmp i h))"
proof (induction "length (ih_items h) - i" arbitrary: i h rule: less_induct)
  case less
  define best where "best = heap_best cmp i (ih_items h)"
  have old: "0 < j \<Longrightarrow> j < length (ih_items h) \<Longrightarrow> j \<noteq> i \<Longrightarrow> (j - 1) div 2 \<noteq> i \<Longrightarrow> ordered_at (ih_items h) j" for j
    using less.prems(2) by (simp add: disturbed_def)
  have least: "cmp (snd (ih_items h ! best)) (snd (ih_items h ! j)) \<le> 0"
    if "0 < j" "j < length (ih_items h)" "(j - 1) div 2 = i" for j
  proof -
    from that(1,3) have "j = 2 * i + 1 \<or> j = 2 * i + 2" by (cases j) auto
    with that(2) show ?thesis using heap_best_least [of j i "ih_items h"] by (auto simp: best_def)
  qed
  show ?case
  proof (cases "best = i")
    case True
    have "ordered_at (ih_items h) j" if "0 < j" "j < length (ih_items h)" for j
      using old [of j] least [of j] less.prems(3) that True by (cases "j = i"; cases "(j - 1) div 2 = i") (auto simp: ordered_at_def)
    then show ?thesis using True by (simp add: heap_down.simps [of cmp i h] Let_def best_def heap_ordered_def)
  next
    case False
    have b: "i < best" "best < length (ih_items h)" "(best - 1) div 2 = i"
      using heap_best_cases [of cmp i "ih_items h"] False by (auto simp: best_def)
    let ?h = "heap_swap i best h"
    note nth = heap_swap_nth [OF less.prems(1) b(2)]
    have up: "cmp (snd (ih_items h ! best)) (snd (ih_items h ! i)) \<le> 0"
      using heap_best_least [of i i "ih_items h"] less.prems(1) by (simp add: best_def)
    have "disturbed best (ih_items ?h)"
      unfolding disturbed_def length_heap_swap
    proof (intro conjI allI impI)
      fix j assume j: "0 < j \<and> j < length (ih_items h) \<and> j \<noteq> best \<and> (j - 1) div 2 \<noteq> best"
      consider "j = i" | "j \<noteq> i" "(j - 1) div 2 = i" | "j \<noteq> i" "(j - 1) div 2 \<noteq> i" by blast
      then show "ordered_at (ih_items ?h) j"
      proof cases
        case 1
        then have "(i - 1) div 2 \<noteq> i" using j by (cases i) auto
        moreover have "cmp (snd (ih_items h ! ((i - 1) div 2))) (snd (ih_items h ! best)) \<le> 0"
          using less.prems(2) b 1 j unfolding disturbed_def by (metis gr_implies_not0 neq0_conv)
        ultimately show ?thesis using 1 j b(1) by (simp add: ordered_at_def nth)
      next
        case 2
        with least [of j] j show ?thesis by (simp add: ordered_at_def nth)
      next
        case 3
        with old [of j] j show ?thesis by (simp add: ordered_at_def nth)
      qed
    next
      fix j assume j: "0 < best \<and> 0 < j \<and> j < length (ih_items h) \<and> (j - 1) div 2 = best"
      have "j \<noteq> i" "j \<noteq> best" "(j - 1) div 2 \<noteq> i" using j b(1) by (cases j; auto)+
      with old [of j] j have "cmp (snd (ih_items h ! best)) (snd (ih_items h ! j)) \<le> 0" by (simp add: ordered_at_def)
      with j b \<open>j \<noteq> i\<close> \<open>j \<noteq> best\<close> show "cmp (snd (ih_items ?h ! ((best - 1) div 2))) (snd (ih_items ?h ! j)) \<le> 0"
        by (simp add: nth)
    qed
    moreover have "ordered_at (ih_items ?h) best" using up b by (simp add: ordered_at_def nth)
    moreover have "heap_down cmp i h = heap_down cmp best ?h"
      using False by (simp add: heap_down.simps [of cmp i h] Let_def best_def)
    ultimately show ?thesis using less.hyps [of ?h best] b less.prems(1) by simp
  qed
qed

lemma heap_repair_ok:
  assumes "index_ok h" and "i < length (ih_items h)" and "disturbed i (ih_items h)"
  shows "index_ok (heap_repair cmp i h) \<and> mset (ih_items (heap_repair cmp i h)) = mset (ih_items h)
     \<and> heap_ordered (ih_items (heap_repair cmp i h))"
proof -
  obtain i' h' where u: "heap_up cmp i h = (i', h')" by (cases "heap_up cmp i h")
  note k = heap_up_keeps [OF assms(1,2) u] and o = heap_up_ordered [OF assms(2,3) u]
  with heap_down_keeps [of h' i' cmp] heap_down_ordered [of i' h'] u show ?thesis by (simp add: heap_repair_def)
qed

lemma heap_ordered_least:
  assumes "heap_ordered items" and "j < length items"
  shows "cmp (snd (items ! 0)) (snd (items ! j)) \<le> 0"
  using assms(2)
proof (induction j rule: less_induct)
  case (less j)
  show ?case
  proof (cases "j = 0")
    case False
    then have p: "(j - 1) div 2 < j" by (intro parent_less) simp
    have "ordered_at items j" using assms(1) less.prems False by (simp add: heap_ordered_def)
    then have "cmp (snd (items ! ((j - 1) div 2))) (snd (items ! j)) \<le> 0" by (simp only: ordered_at_def)
    moreover have "cmp (snd (items ! 0)) (snd (items ! ((j - 1) div 2))) \<le> 0"
      using p less.prems by (intro less.IH) linarith+
    ultimately show ?thesis by (rule cmp_trans [rotated])
  qed (simp add: cmp_refl)
qed


lemma heap_ordered_butlast: "heap_ordered items \<Longrightarrow> heap_ordered (butlast items)"
  by (auto simp: heap_ordered_def ordered_at_def nth_butlast)

lemma disturbed_append: "heap_ordered items \<Longrightarrow> disturbed (length items) (items @ [e])"
  unfolding disturbed_def
proof (intro conjI allI impI)
  fix j assume h: "heap_ordered items"
    and j: "0 < j \<and> j < length (items @ [e]) \<and> j \<noteq> length items \<and> (j - 1) div 2 \<noteq> length items"
  then have "(j - 1) div 2 < length items" using parent_less [of j] by simp
  with h j show "ordered_at (items @ [e]) j" by (simp add: heap_ordered_def ordered_at_def nth_append)
next
  fix j assume "0 < length items \<and> 0 < j \<and> j < length (items @ [e]) \<and> (j - 1) div 2 = length items"
  then show "cmp (snd ((items @ [e]) ! ((length items - 1) div 2))) (snd ((items @ [e]) ! j)) \<le> 0"
    using parent_less [of j] by simp
qed

lemma disturbed_update:
  assumes "heap_ordered items" and "i < length items"
  shows "disturbed i (items[i := e])"
  unfolding disturbed_def
proof (intro conjI allI impI)
  fix j assume "0 < j \<and> j < length (items[i := e]) \<and> j \<noteq> i \<and> (j - 1) div 2 \<noteq> i"
  with assms show "ordered_at (items[i := e]) j" by (simp add: heap_ordered_def ordered_at_def)
next
  fix j assume j: "0 < i \<and> 0 < j \<and> j < length (items[i := e]) \<and> (j - 1) div 2 = i"
  then have ne: "j \<noteq> i" "(i - 1) div 2 \<noteq> i" using parent_less [of j] parent_less [of i] by auto
  have "ordered_at items i" "ordered_at items j" using j assms by (auto simp: heap_ordered_def)
  then have "cmp (snd (items ! ((i - 1) div 2))) (snd (items ! j)) \<le> 0"
    using j unfolding ordered_at_def by (metis cmp_trans)
  with ne show "cmp (snd (items[i := e] ! ((i - 1) div 2))) (snd (items[i := e] ! j)) \<le> 0" by simp
qed

definition heap_ok :: "('k, 'a) indexed_heap \<Rightarrow> bool" where
  "heap_ok h \<longleftrightarrow> index_ok h \<and> heap_ordered (ih_items h)"

lemma heap_ok_new [simp]: "heap_ok heap_new"
  by (simp add: heap_ok_def index_ok_def heap_ordered_def heap_new_def)

lemma heap_repair_refines:
  assumes "index_ok h" and "i < length (ih_items h)" and "disturbed i (ih_items h)"
  shows "heap_ok (heap_repair cmp i h) \<and> heap_map (heap_repair cmp i h) = heap_map h"
proof -
  note r = heap_repair_ok [OF assms]
  then have "set (ih_items (heap_repair cmp i h)) = set (ih_items h)" by (intro mset_eq_setD) simp
  with r assms(1) have "heap_map (heap_repair cmp i h) = heap_map h" by (intro heap_map_eqI) simp_all
  with r show ?thesis by (simp add: heap_ok_def)
qed

lemma heap_set_refines:
  assumes "heap_ok h"
  shows "heap_ok (heap_set cmp k v h) \<and> heap_map (heap_set cmp k v h) = (heap_map h)(k \<mapsto> v)"
proof -
  have ok: "index_ok h" and ord: "heap_ordered (ih_items h)" using assms by (auto simp: heap_ok_def)
  show ?thesis
  proof (cases "jget (ih_indices h) k")
    case None
    let ?h = "h\<lparr>ih_items := ih_items h @ [(k, v)], ih_indices := jset (ih_indices h) k (length (ih_items h))\<rparr>"
    note x = index_ok_append [OF ok None, of v]
    have "disturbed (length (ih_items h)) (ih_items ?h)" using disturbed_append [OF ord] by simp
    from heap_repair_refines [OF conjunct1 [OF x] _ this] conjunct2 [OF x] None show ?thesis by (simp add: heap_set_def)
  next
    case (Some i)
    let ?h = "h\<lparr>ih_items := (ih_items h)[i := (k, v)]\<rparr>"
    have i: "i < length (ih_items h)" using ok Some by (simp add: index_ok_def)
    note x = index_ok_update [OF ok Some, of v]
    have "disturbed i (ih_items ?h)" using disturbed_update [OF ord i] by simp
    from heap_repair_refines [OF conjunct1 [OF x] _ this] conjunct2 [OF x] Some i show ?thesis by (simp add: heap_set_def)
  qed
qed

lemma heap_remove_refines:
  assumes "heap_ok h"
  shows "heap_ok (heap_remove cmp k h) \<and> heap_map (heap_remove cmp k h) = (heap_map h)(k := None)"
proof -
  have ok: "index_ok h" and ord: "heap_ordered (ih_items h)" using assms by (auto simp: heap_ok_def)
  show ?thesis
  proof (cases "jget (ih_indices h) k")
    case None
    then have "heap_map h k = None" by (simp add: heap_map_def)
    with None assms show ?thesis by (simp add: heap_remove_def fun_upd_idem)
  next
    case (Some i)
    have i: "i < length (ih_items h)" using ok Some by (simp add: index_ok_def)
    note x = index_ok_remove [OF ok Some]
    show ?thesis
    proof (cases "i < length (ih_items h) - 1")
      case True
      define h' where "h' = h\<lparr>ih_items := (butlast (ih_items h))[i := List.last (ih_items h)],
          ih_indices := jset (jdelete (ih_indices h) k) (fst (List.last (ih_items h))) i\<rparr>"
      have i': "i < length (ih_items h')" "disturbed i (ih_items h')"
        using disturbed_update [OF heap_ordered_butlast [OF ord], of i] True by (simp_all add: h'_def)
      have "heap_remove cmp k h = heap_repair cmp i h'" using Some True by (simp add: heap_remove_def Let_def h'_def)
      with heap_repair_refines [OF x(1) i'] x(2) [of h'] True show ?thesis by (simp add: h'_def)
    next
      case False
      define h' where "h' = heap_remove cmp k h"
      have h': "ih_items h' = butlast (ih_items h)" "ih_indices h' = jdelete (ih_indices h) k"
        using Some False by (simp_all add: heap_remove_def Let_def h'_def)
      with x [of h'] False heap_ordered_butlast [OF ord] show ?thesis by (simp add: heap_ok_def h'_def)
    qed
  qed
qed

lemma heap_peek_least:
  assumes "heap_ok h"
  shows "heap_peek h = None \<longleftrightarrow> heap_map h = Map.empty"
    and "heap_peek h = Some v \<Longrightarrow> v \<in> ran (heap_map h) \<and> (\<forall>w\<in>ran (heap_map h). cmp v w \<le> 0)"
proof -
  have ok: "index_ok h" and ord: "heap_ordered (ih_items h)" using assms by (auto simp: heap_ok_def)
  show "heap_peek h = None \<longleftrightarrow> heap_map h = Map.empty"
  proof (cases "ih_items h")
    case Nil
    then have "heap_map h k = None" for k using heap_map_iff [OF ok, of k] by (cases "heap_map h k") auto
    with Nil show ?thesis by (simp add: heap_peek_def fun_eq_iff)
  next
    case (Cons e items)
    then have "heap_map h (fst e) = Some (snd e)" using heap_map_iff [OF ok] by simp
    with Cons show ?thesis by (auto simp: heap_peek_def fun_eq_iff split: prod.splits)
  qed
  assume p: "heap_peek h = Some v"
  then obtain k rest where items: "ih_items h = (k, v) # rest"
    by (cases "ih_items h") (auto simp: heap_peek_def)
  have "cmp v w \<le> 0" if w: "w \<in> ran (heap_map h)" for w
  proof -
    from w obtain k' where "(k', w) \<in> set (ih_items h)" using heap_map_iff [OF ok] by (auto simp: ran_def)
    then obtain j where "j < length (ih_items h)" "ih_items h ! j = (k', w)" by (auto simp: in_set_conv_nth)
    with heap_ordered_least [OF ord, of j] items show ?thesis by simp
  qed
  moreover have "heap_map h k = Some v" using heap_map_iff [OF ok] items by simp
  ultimately show "v \<in> ran (heap_map h) \<and> (\<forall>w\<in>ran (heap_map h). cmp v w \<le> 0)" by (auto simp: ran_def)
qed

text \<open>Any use of the heap.\<close>

lemma heap_fold_refines:
  "heap_ok h \<Longrightarrow> heap_map h = m \<Longrightarrow>
     heap_ok (fold (\<lambda>(k, u). case u of None \<Rightarrow> heap_remove cmp k | Some v \<Rightarrow> heap_set cmp k v) ops h)
     \<and> heap_map (fold (\<lambda>(k, u). case u of None \<Rightarrow> heap_remove cmp k | Some v \<Rightarrow> heap_set cmp k v) ops h)
        = fold (\<lambda>(k, u) m. m(k := u)) ops m"
proof (induction ops arbitrary: h m)
  case (Cons a ops)
  obtain k u where a: "a = (k, u)" by (cases a)
  show ?case
  proof (cases u)
    case None
    with Cons.IH [of "heap_remove cmp k h" "m(k := None)"] heap_remove_refines [OF Cons.prems(1), of k] Cons.prems(2)
    show ?thesis by (simp add: a)
  next
    case (Some v)
    with Cons.IH [of "heap_set cmp k v h" "m(k \<mapsto> v)"] heap_set_refines [OF Cons.prems(1), of k v] Cons.prems(2)
    show ?thesis by (simp add: a)
  qed
qed simp

end

end
