(* ===== verification/Claim_Scheduler.thy ===== *)
theory Claim_Scheduler
  imports Claim_Priority Ready_Index Indexed_Heap "HOL-Library.List_Lexorder" "HOL-Library.Char_ord"
begin

text \<open>
  The claim scheduler (\<open>src/src/core/claim-scheduler.mjs\<close>, class \<open>ClaimScheduler\<close>): bounties are grouped by domain,
  and within a domain by signature mask; every domain has a leader, fair turns rotate over the
  domains by name and economic turns take the leader with the best score. The ready counts are the
  indexes of \<open>Ready_Index\<close>, the economic order and the deadlines are heaps of \<open>Indexed_Heap\<close>.

  Objects that the code shares by reference are addressed: an entry by its key in \<open>sc_objects\<close>, a
  group by its name, a job by a number; the contents of the job objects, which the engine mutates
  between calls, are the argument \<open>J\<close> of the operations that read them. \<open>entries\<close> and the null job of a
  removed entry change together, so an entry is in \<open>entries\<close> exactly when its \<open>en_job\<close> is not \<open>None\<close>.
  A score is a finite double and is stored as the rational number it denotes (the argument \<open>val\<close>).
  An operation that throws returns the error together with the state it leaves.
\<close>

datatype sched_error =
    InvalidDeadline             \<comment> \<open>Invalid claim scheduler deadline\<close>
  | DuplicateBounty             \<comment> \<open>Duplicate bounty in claim schedule\<close>
  | PolicyError priority_error

section \<open>Text order, jobs and deadlines\<close>

definition compareText :: "string \<Rightarrow> string \<Rightarrow> int" where
  "compareText a b = (if a < b then - 1 else if a > b then 1 else 0)"

text \<open>A time is a finite number, or \<open>None\<close> for \<open>NaN\<close> and infinity.\<close>

type_synonym js_time = "rat option"

record claim_job =
  jb_domain :: string
  jb_txid :: string
  jb_vout :: nat
  jb_mask :: int
  jb_priority :: int
  jb_rawPriority :: int
  jb_retired :: bool
  jb_unavailable :: bool
  jb_budgetExceeded :: bool
  jb_winner :: bool
  jb_recoveryProbe :: bool
  jb_due :: "js_time option"
  jb_probeDue :: "js_time option"
  jb_prepared :: bool

definition keyOf :: "claim_job \<Rightarrow> string" where
  "keyOf j = jb_txid j @ '':'' @ dec_str (jb_vout j)"

definition eligible :: "claim_job \<Rightarrow> bool" where
  "eligible j \<longleftrightarrow> \<not> jb_retired j \<and> \<not> jb_unavailable j \<and> \<not> jb_budgetExceeded j \<and> \<not> jb_winner j"

definition rankSnapshot :: "claim_job \<Rightarrow> ranked" where
  "rankSnapshot j = \<lparr>rk_priority = jb_priority j, rk_txid = jb_txid j, rk_vout = int (jb_vout j)\<rparr>"

definition deadline :: "js_time \<Rightarrow> sched_error + rat" where
  "deadline t = (case t of None \<Rightarrow> Inl InvalidDeadline | Some v \<Rightarrow> if v < 0 then Inl InvalidDeadline else Inr v)"

definition job_time :: "js_time option \<Rightarrow> js_time" where
  "job_time t = (case t of None \<Rightarrow> Some 0 | Some v \<Rightarrow> v)"

definition time_max :: "js_time \<Rightarrow> js_time \<Rightarrow> js_time" where
  "time_max a b = (case (a, b) of (Some x, Some y) \<Rightarrow> Some (max x y) | _ \<Rightarrow> None)"

section \<open>State\<close>

record gate =
  gt_ready :: bool
  gt_due :: rat

record sched_entry = ranked +
  en_key :: string
  en_job :: "nat option"
  en_score :: rat
  en_due :: rat
  en_allowed :: bool
  en_active :: bool
  en_preparedActive :: bool
  en_group :: string
  en_position :: nat
  en_mask :: int
  en_maskPosition :: nat

record sched_mask =
  mk_entries :: "string list"
  mk_ready :: ready_index
  mk_preparedReady :: ready_index

record sched_group =
  gr_name :: string
  gr_entries :: "string list"
  gr_masks :: "(int, sched_mask) jmap"
  gr_active :: bool
  gr_preparedActive :: bool
  gr_gate :: gate
  gr_index :: nat
  gr_ready :: ready_index
  gr_leader :: "string option"
  gr_preparedLeader :: "string option"

text \<open>Values of the heaps; the rank of a leader does not change, so it is kept instead of a reference.\<close>

record economic_item =
  ec_name :: string
  ec_score :: rat
  ec_leader :: ranked

datatype wait_target = JobTarget string | DomainTarget string

record waiting_item =
  wt_id :: string
  wt_due :: rat
  wt_target :: wait_target

record selection =
  tk_id :: nat
  tk_serial :: nat
  tk_job :: nat
  tk_key :: string
  tk_domain :: string
  tk_economic :: bool

record 'f scheduler =
  sc_minExpectedReturn :: 'f
  sc_objects :: "(string, sched_entry) jmap"
  sc_groups :: "(string, sched_group) jmap"
  sc_names :: "string list"
  sc_readyDomains :: ready_index
  sc_preparedDomains :: ready_index
  sc_economic :: "(string, economic_item) indexed_heap"
  sc_preparedEconomic :: "(string, economic_item) indexed_heap"
  sc_waiting :: "(string, waiting_item) indexed_heap"
  sc_pending :: "selection option"
  sc_domainAfter :: "string option"
  sc_preferReward :: bool
  sc_domainGates :: "(string, gate) jmap"
  sc_serial :: nat
  sc_committed :: "nat list"    \<comment> \<open>tokens whose \<open>committed\<close> flag is set\<close>
  sc_tokens :: nat              \<comment> \<open>tokens created so far\<close>

section \<open>Comparators\<close>

definition compareEconomic :: "economic_item \<Rightarrow> economic_item \<Rightarrow> int" where
  "compareEconomic a b =
     (if ec_score a \<noteq> ec_score b then (if ec_score b < ec_score a then - 1 else 1)
      else if compareClaimPriority (ec_leader a) (ec_leader b) \<noteq> 0 then compareClaimPriority (ec_leader a) (ec_leader b)
      else compareText (ec_name a) (ec_name b))"

definition compareDue :: "waiting_item \<Rightarrow> waiting_item \<Rightarrow> int" where
  "compareDue a b =
     (if wt_due a \<noteq> wt_due b then (if wt_due a < wt_due b then - 1 else 1) else compareText (wt_id a) (wt_id b))"

section \<open>Construction and clearing\<close>

definition sched_clear :: "bool \<Rightarrow> 'f scheduler \<Rightarrow> 'f scheduler" where
  "sched_clear preserveSelection s =
     (let s = s\<lparr>sc_objects := [], sc_groups := [], sc_names := [], sc_readyDomains := ready_index_new [],
            sc_preparedDomains := ready_index_new [], sc_economic := heap_new, sc_preparedEconomic := heap_new,
            sc_waiting := heap_new, sc_pending := None\<rparr>
      in if preserveSelection then s
         else s\<lparr>sc_serial := sc_serial s + 1, sc_domainGates := [], sc_domainAfter := None, sc_preferReward := False\<rparr>)"

definition scheduler_new :: "('f, 'z) js_float_scheme \<Rightarrow> 'f \<Rightarrow> sched_error + 'f scheduler" where
  "scheduler_new F minimum = (case validateMinExpectedReturn F minimum of
       Inl e \<Rightarrow> Inl (PolicyError e)
     | Inr m \<Rightarrow> Inr \<lparr>sc_minExpectedReturn = m, sc_objects = [], sc_groups = [], sc_names = [],
         sc_readyDomains = ready_index_new [], sc_preparedDomains = ready_index_new [],
         sc_economic = heap_new, sc_preparedEconomic = heap_new, sc_waiting = heap_new, sc_pending = None,
         sc_domainAfter = None, sc_preferReward = False, sc_domainGates = [], sc_serial = 0,
         sc_committed = [], sc_tokens = 0\<rparr>)"

section \<open>Leaders\<close>

definition better :: "sched_entry \<Rightarrow> sched_entry option \<Rightarrow> bool" where
  "better candidate leader = (case leader of None \<Rightarrow> True
     | Some l \<Rightarrow> en_score candidate > en_score l
         \<or> en_score candidate = en_score l \<and> compareClaimPriority candidate l < 0)"

definition pick_leader ::
    "(string, sched_entry) jmap \<Rightarrow> (sched_mask \<Rightarrow> ready_index) \<Rightarrow> sched_mask \<Rightarrow> sched_entry option \<Rightarrow> sched_entry option" where
  "pick_leader objects view m leader =
     (if ri_total (view m) \<noteq> 0
      then (case jget objects (mk_entries m ! nat (ready_at 0 (view m))) of
              None \<Rightarrow> leader
            | Some candidate \<Rightarrow> if better candidate leader then Some candidate else leader)
      else leader)"

definition group_leader :: "(string, sched_entry) jmap \<Rightarrow> (sched_mask \<Rightarrow> ready_index) \<Rightarrow> rat \<Rightarrow> sched_group \<Rightarrow> sched_entry option" where
  "group_leader objects view now g =
     (if gt_ready (gr_gate g) \<and> gt_due (gr_gate g) \<le> now
      then fold (\<lambda>e. pick_leader objects view (snd e)) (gr_masks g) None else None)"

definition economic_of :: "string \<Rightarrow> sched_entry \<Rightarrow> economic_item" where
  "economic_of name l = \<lparr>ec_name = name, ec_score = en_score l, ec_leader = ranked.truncate l\<rparr>"

definition refreshGroup :: "string \<Rightarrow> rat \<Rightarrow> 'f scheduler \<Rightarrow> 'f scheduler" where
  "refreshGroup name now s = (case jget (sc_groups s) name of None \<Rightarrow> s
     | Some g \<Rightarrow>
         let leader = group_leader (sc_objects s) mk_ready now g;
             preparedLeader = group_leader (sc_objects s) mk_preparedReady now g;
             active = leader \<noteq> None; preparedActive = preparedLeader \<noteq> None
         in s\<lparr>sc_readyDomains := (if gr_active g \<noteq> active
                then ready_add (gr_index g) (if active then 1 else - 1) (sc_readyDomains s) else sc_readyDomains s),
              sc_economic := (case leader of Some l \<Rightarrow> heap_set compareEconomic name (economic_of name l) (sc_economic s)
                | None \<Rightarrow> heap_remove compareEconomic name (sc_economic s)),
              sc_preparedDomains := (if gr_preparedActive g \<noteq> preparedActive
                then ready_add (gr_index g) (if preparedActive then 1 else - 1) (sc_preparedDomains s) else sc_preparedDomains s),
              sc_preparedEconomic := (case preparedLeader of
                  Some l \<Rightarrow> heap_set compareEconomic name (economic_of name l) (sc_preparedEconomic s)
                | None \<Rightarrow> heap_remove compareEconomic name (sc_preparedEconomic s)),
              sc_groups := jset (sc_groups s) name (g\<lparr>gr_leader := map_option en_key leader, gr_active := active,
                gr_preparedLeader := map_option en_key preparedLeader, gr_preparedActive := preparedActive\<rparr>)\<rparr>)"

definition domain_id :: "string \<Rightarrow> string" where "domain_id name = ''domain:'' @ name"
definition job_id :: "string \<Rightarrow> string" where "job_id key = ''job:'' @ key"

definition armDomain :: "string \<Rightarrow> rat \<Rightarrow> 'f scheduler \<Rightarrow> 'f scheduler" where
  "armDomain name now s = (case jget (sc_groups s) name of None \<Rightarrow> s
     | Some g \<Rightarrow> s\<lparr>sc_waiting :=
         (if gt_ready (gr_gate g) \<and> gt_due (gr_gate g) > now
          then heap_set compareDue (domain_id name)
                 \<lparr>wt_id = domain_id name, wt_due = gt_due (gr_gate g), wt_target = DomainTarget name\<rparr> (sc_waiting s)
          else heap_remove compareDue (domain_id name) (sc_waiting s))\<rparr>)"

section \<open>Changes of one entry\<close>

definition flag :: "bool \<Rightarrow> int" where "flag b = (if b then 1 else 0)"
definition delta_of :: "bool \<Rightarrow> int" where "delta_of b = (if b then 1 else - 1)"

definition map_mask :: "int \<Rightarrow> (sched_mask \<Rightarrow> sched_mask) \<Rightarrow> sched_group \<Rightarrow> sched_group" where
  "map_mask k f g = (case jget (gr_masks g) k of None \<Rightarrow> g
     | Some m \<Rightarrow> g\<lparr>gr_masks := jset (gr_masks g) k (f m)\<rparr>)"

definition map_group :: "string \<Rightarrow> (sched_group \<Rightarrow> sched_group) \<Rightarrow> 'f scheduler \<Rightarrow> 'f scheduler" where
  "map_group name f s = (case jget (sc_groups s) name of None \<Rightarrow> s
     | Some g \<Rightarrow> s\<lparr>sc_groups := jset (sc_groups s) name (f g)\<rparr>)"

definition put_entry :: "sched_entry \<Rightarrow> 'f scheduler \<Rightarrow> 'f scheduler" where
  "put_entry e s = s\<lparr>sc_objects := jset (sc_objects s) (en_key e) e\<rparr>"

definition job_prepared :: "(nat \<Rightarrow> claim_job) \<Rightarrow> sched_entry \<Rightarrow> bool" where
  "job_prepared J e = (case en_job e of None \<Rightarrow> False | Some j \<Rightarrow> jb_prepared (J j))"

definition setActive :: "(nat \<Rightarrow> claim_job) \<Rightarrow> sched_entry \<Rightarrow> bool \<Rightarrow> rat \<Rightarrow> 'f scheduler \<Rightarrow> 'f scheduler" where
  "setActive J e active now s =
     (let preparedActive = active \<and> job_prepared J e in
      if en_active e = active \<and> en_preparedActive e = preparedActive then s
      else let s = put_entry (e\<lparr>en_active := active, en_preparedActive := preparedActive\<rparr>) s;
               s = (if en_active e \<noteq> active
                    then map_group (en_group e)
                      (\<lambda>g. map_mask (en_mask e) (\<lambda>m. m\<lparr>mk_ready := ready_add (en_maskPosition e) (delta_of active) (mk_ready m)\<rparr>)
                        (g\<lparr>gr_ready := ready_add (en_position e) (delta_of active) (gr_ready g)\<rparr>)) s
                    else s);
               s = (if en_preparedActive e \<noteq> preparedActive
                    then map_group (en_group e)
                      (map_mask (en_mask e)
                        (\<lambda>m. m\<lparr>mk_preparedReady := ready_add (en_maskPosition e) (delta_of preparedActive) (mk_preparedReady m)\<rparr>)) s
                    else s)
           in refreshGroup (en_group e) now s)"

text \<open>The entry of a key in \<open>entries\<close>.\<close>

definition live_entry :: "'f scheduler \<Rightarrow> string \<Rightarrow> sched_entry option" where
  "live_entry s key = (case jget (sc_objects s) key of
       Some e \<Rightarrow> if en_job e \<noteq> None then Some e else None | None \<Rightarrow> None)"

definition job_due :: "(nat \<Rightarrow> claim_job) \<Rightarrow> sched_entry \<Rightarrow> js_time" where
  "job_due J e = (case en_job e of None \<Rightarrow> Some 0 | Some j \<Rightarrow> job_time (jb_due (J j)))"

definition arm_job :: "sched_entry \<Rightarrow> rat \<Rightarrow> 'f scheduler \<Rightarrow> 'f scheduler" where
  "arm_job e now s = s\<lparr>sc_waiting :=
     (if en_allowed e \<and> en_due e > now
      then heap_set compareDue (job_id (en_key e))
             \<lparr>wt_id = job_id (en_key e), wt_due = en_due e, wt_target = JobTarget (en_key e)\<rparr> (sc_waiting s)
      else heap_remove compareDue (job_id (en_key e)) (sc_waiting s))\<rparr>"

definition setReady ::
    "(nat \<Rightarrow> claim_job) \<Rightarrow> string \<Rightarrow> bool \<Rightarrow> js_time option \<Rightarrow> js_time \<Rightarrow> 'f scheduler \<Rightarrow> (sched_error + bool) \<times> 'f scheduler" where
  "setReady J key ready due now s = (case deadline now of Inl e \<Rightarrow> (Inl e, s)
     | Inr now \<Rightarrow> (case live_entry s key of None \<Rightarrow> (Inr False, s)
     | Some e \<Rightarrow> (case deadline (case due of Some d \<Rightarrow> d | None \<Rightarrow> job_due J e) of
         Inl err \<Rightarrow> (Inl err, put_entry (e\<lparr>en_allowed := ready\<rparr>) s)
       | Inr d \<Rightarrow>
           let e = e\<lparr>en_allowed := ready, en_due := d\<rparr>;
               s = arm_job e now (put_entry e s)
           in (Inr True, setActive J e (en_allowed e \<and> en_due e \<le> now) now s))))"

definition refreshPrepared :: "(nat \<Rightarrow> claim_job) \<Rightarrow> string \<Rightarrow> js_time \<Rightarrow> 'f scheduler \<Rightarrow> (sched_error + bool) \<times> 'f scheduler" where
  "refreshPrepared J key now s = (case deadline now of Inl e \<Rightarrow> (Inl e, s)
     | Inr now \<Rightarrow> (case live_entry s key of None \<Rightarrow> (Inr False, s)
     | Some e \<Rightarrow> (Inr True, setActive J e (en_active e) now s)))"

definition setDomainReady :: "string \<Rightarrow> bool \<Rightarrow> js_time \<Rightarrow> js_time \<Rightarrow> 'f scheduler \<Rightarrow> (sched_error + bool) \<times> 'f scheduler" where
  "setDomainReady name ready due now s = (case (deadline now, deadline due) of
       (Inr now, Inr due) \<Rightarrow>
         let gate = \<lparr>gt_ready = ready, gt_due = due\<rparr> in
         if jget (sc_groups s) name = None \<and> \<not> jhas (sc_domainGates s) name then (Inr False, s)
         else let s = s\<lparr>sc_domainGates := jset (sc_domainGates s) name gate\<rparr> in
           (Inr True,
            if jget (sc_groups s) name = None then s
            else refreshGroup name now (armDomain name now (map_group name (\<lambda>g. g\<lparr>gr_gate := gate\<rparr>) s)))
     | _ \<Rightarrow> (Inl InvalidDeadline, s))"

definition sched_remove :: "(nat \<Rightarrow> claim_job) \<Rightarrow> string \<Rightarrow> js_time \<Rightarrow> 'f scheduler \<Rightarrow> (sched_error + bool) \<times> 'f scheduler" where
  "sched_remove J key now s = (case live_entry s key of None \<Rightarrow> (Inr False, s)
     | Some _ \<Rightarrow> (case setReady J key False None now s of
         (Inl e, s) \<Rightarrow> (Inl e, s)
       | (Inr _, s) \<Rightarrow> (Inr True, case live_entry s key of None \<Rightarrow> s | Some e \<Rightarrow> put_entry (e\<lparr>en_job := None\<rparr>) s)))"

section \<open>Rebuilding\<close>

datatype sched_item = Keyed string nat | Unkeyed nat

fun item_job :: "(nat \<Rightarrow> claim_job) \<Rightarrow> sched_item \<Rightarrow> string \<times> nat" where
  "item_job J (Keyed key j) = (key, j)"
| "item_job J (Unkeyed j) = (keyOf (J j), j)"

text \<open>
  The first loop: one entry for every bounty that may be attempted. \<open>rate\<close> is the callback
  \<open>connectionRate\<close>, asked once for each domain and mask; \<open>isReady\<close> is the readiness predicate.
\<close>

definition rebuild_item ::
    "('f, 'z) js_float_scheme \<Rightarrow> ('f \<Rightarrow> rat) \<Rightarrow> (nat \<Rightarrow> claim_job) \<Rightarrow> (nat \<Rightarrow> 'f) \<Rightarrow> (nat \<Rightarrow> bool) \<Rightarrow> rat \<Rightarrow> sched_item
     \<Rightarrow> (string \<times> int, 'f) jmap \<Rightarrow> 'f scheduler \<Rightarrow> (sched_error + (string \<times> int, 'f) jmap) \<times> 'f scheduler" where
  "rebuild_item F val J rate isReady now item rates s =
     (let (key, j) = item_job J item; job = J j; name = jb_domain job; policy = (name, jb_mask job);
          rates = (if jhas rates policy then rates else jset rates policy (rate j));
          r = (case jget rates policy of Some r \<Rightarrow> r | None \<Rightarrow> rate j)
      in if \<not> eligible job then (Inr rates, s)
         else (case isWorthAttempting F (jb_rawPriority job) r (sc_minExpectedReturn s) of
           Inl e \<Rightarrow> (Inl (PolicyError e), s)
         | Inr worth \<Rightarrow>
             if \<not> worth \<and> \<not> jb_recoveryProbe job then (Inr rates, s)
             else if live_entry s key \<noteq> None then (Inl DuplicateBounty, s)
             else let rank = rankSnapshot job;
                      score = domainPriority F (rk_priority rank) r (fl_int F PRIORITY_FACTOR_SCALE)
               in if \<not> fl_finite F score then (Inr rates, s)
                  else let g = (case jget (sc_groups s) name of Some g \<Rightarrow> g
                             | None \<Rightarrow> \<lparr>gr_name = name, gr_entries = [], gr_masks = [], gr_active = False, gr_preparedActive = False,
                                 gr_gate = (case jget (sc_domainGates s) name of Some gt \<Rightarrow> gt | None \<Rightarrow> \<lparr>gt_ready = True, gt_due = 0\<rparr>),
                                 gr_index = 0, gr_ready = ready_index_new [], gr_leader = None, gr_preparedLeader = None\<rparr>);
                           s = s\<lparr>sc_groups := jset (sc_groups s) name g\<rparr>
                    in (case deadline (time_max (job_time (jb_due job))
                              (if jb_recoveryProbe job then job_time (jb_probeDue job) else Some 0)) of
                      Inl e \<Rightarrow> (Inl e, s)
                    | Inr due \<Rightarrow>
                        let allowed = isReady j; active = allowed \<and> due \<le> now;
                            e = \<lparr>rk_priority = rk_priority rank, rk_txid = rk_txid rank, rk_vout = rk_vout rank,
                                  en_key = key, en_job = Some j, en_score = val score, en_due = due, en_allowed = allowed,
                                  en_active = active, en_preparedActive = active \<and> jb_prepared job, en_group = name,
                                  en_position = 0, en_mask = jb_mask job, en_maskPosition = 0\<rparr>
                        in (Inr rates, put_entry e (s\<lparr>sc_groups := jset (sc_groups s) name
                              (g\<lparr>gr_entries := gr_entries g @ [key]\<rparr>)\<rparr>)))))"

fun rebuild_items ::
    "('f, 'z) js_float_scheme \<Rightarrow> ('f \<Rightarrow> rat) \<Rightarrow> (nat \<Rightarrow> claim_job) \<Rightarrow> (nat \<Rightarrow> 'f) \<Rightarrow> (nat \<Rightarrow> bool) \<Rightarrow> rat \<Rightarrow> sched_item list
     \<Rightarrow> (string \<times> int, 'f) jmap \<Rightarrow> 'f scheduler \<Rightarrow> (sched_error + unit) \<times> 'f scheduler" where
  "rebuild_items F val J rate isReady now [] rates s = (Inr (), s)"
| "rebuild_items F val J rate isReady now (item # items) rates s =
     (case rebuild_item F val J rate isReady now item rates s of
        (Inl e, s) \<Rightarrow> (Inl e, s)
      | (Inr rates, s) \<Rightarrow> rebuild_items F val J rate isReady now items rates s)"

text \<open>The second loop, for one group: positions, masks, deadlines and the ready counts.\<close>

definition place_entry :: "string \<Rightarrow> rat \<Rightarrow> nat \<times> string \<Rightarrow> 'f scheduler \<Rightarrow> 'f scheduler" where
  "place_entry name now = (\<lambda>(position, key) s. case (jget (sc_groups s) name, jget (sc_objects s) key) of
       (Some g, Some e) \<Rightarrow>
         let m = (case jget (gr_masks g) (en_mask e) of Some m \<Rightarrow> m
               | None \<Rightarrow> \<lparr>mk_entries = [], mk_ready = ready_index_new [], mk_preparedReady = ready_index_new []\<rparr>);
             e = e\<lparr>en_position := position, en_maskPosition := length (mk_entries m)\<rparr>;
             s = put_entry e (s\<lparr>sc_groups := jset (sc_groups s) name
                   (g\<lparr>gr_masks := jset (gr_masks g) (en_mask e) (m\<lparr>mk_entries := mk_entries m @ [key]\<rparr>)\<rparr>)\<rparr>)
         in if en_allowed e \<and> en_due e > now then arm_job e now s else s
     | _ \<Rightarrow> s)"

definition active_flags :: "(string, sched_entry) jmap \<Rightarrow> (sched_entry \<Rightarrow> bool) \<Rightarrow> string list \<Rightarrow> int list" where
  "active_flags objects active keys =
     map (\<lambda>k. case jget objects k of Some e \<Rightarrow> flag (active e) | None \<Rightarrow> 0) keys"

definition index_group :: "(string, sched_entry) jmap \<Rightarrow> sched_group \<Rightarrow> sched_group" where
  "index_group objects g = g\<lparr>gr_ready := ready_index_new (active_flags objects en_active (gr_entries g)),
     gr_masks := map (\<lambda>(k, m). (k, m\<lparr>mk_ready := ready_index_new (active_flags objects en_active (mk_entries m)),
       mk_preparedReady := ready_index_new (active_flags objects en_preparedActive (mk_entries m))\<rparr>)) (gr_masks g)\<rparr>"

definition rebuild_group :: "rat \<Rightarrow> nat \<times> string \<Rightarrow> 'f scheduler \<Rightarrow> 'f scheduler" where
  "rebuild_group now = (\<lambda>(i, name) s.
     let s = map_group name (\<lambda>g. g\<lparr>gr_index := i, gr_entries := map en_key
               (js_sort compareClaimPriority (List.map_filter (jget (sc_objects s)) (gr_entries g)))\<rparr>) s;
         keys = (case jget (sc_groups s) name of Some g \<Rightarrow> gr_entries g | None \<Rightarrow> []);
         s = fold (place_entry name now) (enumerate 0 keys) s;
         s = map_group name (index_group (sc_objects s)) s
     in refreshGroup name now (armDomain name now s))"

definition rebuild ::
    "('f, 'z) js_float_scheme \<Rightarrow> ('f \<Rightarrow> rat) \<Rightarrow> (nat \<Rightarrow> claim_job) \<Rightarrow> (nat \<Rightarrow> 'f) \<Rightarrow> (nat \<Rightarrow> bool) \<Rightarrow> sched_item list \<Rightarrow> js_time
     \<Rightarrow> 'f scheduler \<Rightarrow> (sched_error + unit) \<times> 'f scheduler" where
  "rebuild F val J rate isReady items now s = (case deadline now of Inl e \<Rightarrow> (Inl e, s)
     | Inr now \<Rightarrow> (case rebuild_items F val J rate isReady now items [] (sched_clear True s) of
         (Inl e, s) \<Rightarrow> (Inl e, s)
       | (Inr _, s) \<Rightarrow>
           let tracked = map (\<lambda>item. jb_domain (J (snd (item_job J item)))) items;
               names = js_sort compareText (jkeys (sc_groups s));
               s = s\<lparr>sc_domainGates := filter (\<lambda>(name, _). name \<in> set tracked) (sc_domainGates s), sc_names := names,
                     sc_readyDomains := ready_index_new (map (\<lambda>_. 0) names),
                     sc_preparedDomains := ready_index_new (map (\<lambda>_. 0) names)\<rparr>
           in (Inr (), fold (rebuild_group now) (enumerate 0 names) s)))"

section \<open>Selection\<close>

text \<open>The loop of \<open>promote\<close>; every turn removes one deadline, so their number bounds the turns.\<close>

fun promote_loop :: "nat \<Rightarrow> (nat \<Rightarrow> claim_job) \<Rightarrow> rat \<Rightarrow> 'f scheduler \<Rightarrow> 'f scheduler" where
  "promote_loop 0 J now s = s"
| "promote_loop (Suc n) J now s = (case heap_peek (sc_waiting s) of None \<Rightarrow> s
     | Some w \<Rightarrow>
         if wt_due w \<le> now
         then let s = s\<lparr>sc_waiting := heap_remove compareDue (wt_id w) (sc_waiting s)\<rparr>
           in promote_loop n J now (case wt_target w of
                JobTarget key \<Rightarrow> (case jget (sc_objects s) key of
                    Some e \<Rightarrow> setActive J e (en_allowed e) now s | None \<Rightarrow> s)
              | DomainTarget name \<Rightarrow> refreshGroup name now s)
         else s)"

definition promote :: "(nat \<Rightarrow> claim_job) \<Rightarrow> rat \<Rightarrow> 'f scheduler \<Rightarrow> 'f scheduler" where
  "promote J now s = promote_loop (length (ih_items (sc_waiting s))) J now s"

definition nextDue :: "'f scheduler \<Rightarrow> rat option" where
  "nextDue s = map_option wt_due (heap_peek (sc_waiting s))"

definition fair_domain :: "ready_index \<Rightarrow> 'f scheduler \<Rightarrow> string" where
  "fair_domain readyDomains s =
     (let i = (case sc_domainAfter s of None \<Rightarrow> 0 | Some d \<Rightarrow> upperBound (sc_names s) d compareText);
          earlier = ready_before i readyDomains
      in sc_names s ! nat (ready_at (if earlier < ri_total readyDomains then earlier else 0) readyDomains))"

definition select_domain :: "bool \<Rightarrow> 'f scheduler \<Rightarrow> string option" where
  "select_domain allowPreparation s =
     (let readyDomains = (if allowPreparation then sc_readyDomains s else sc_preparedDomains s) in
      if ri_total readyDomains = 0 then None
      else if sc_preferReward s
      then map_option ec_name (heap_peek (if allowPreparation then sc_economic s else sc_preparedEconomic s))
      else Some (fair_domain readyDomains s))"

text \<open>Without a leader or its job the code would throw a \<open>TypeError\<close> where this returns no selection; a domain
  with a ready count always has a leader, so the case does not arise.\<close>

definition sched_next ::
    "(nat \<Rightarrow> claim_job) \<Rightarrow> js_time \<Rightarrow> bool \<Rightarrow> 'f scheduler \<Rightarrow> (sched_error + selection option) \<times> 'f scheduler" where
  "sched_next J now allowPreparation s = (case deadline now of Inl e \<Rightarrow> (Inl e, s)
     | Inr now \<Rightarrow>
         let s = promote J now s;
             chosen = Option.bind (select_domain allowPreparation s) (jget (sc_groups s));
             key = Option.bind chosen (if allowPreparation then gr_leader else gr_preparedLeader)
         in (case Option.bind key (live_entry s) of
               None \<Rightarrow> (Inr None, s)
             | Some e \<Rightarrow>
                 let token = \<lparr>tk_id = sc_tokens s, tk_serial = sc_serial s, tk_job = the (en_job e), tk_key = en_key e,
                       tk_domain = en_group e, tk_economic = sc_preferReward s\<rparr>
                 in (Inr (Some token), s\<lparr>sc_pending := Some token, sc_tokens := sc_tokens s + 1\<rparr>)))"

datatype commit_arg = BySelection selection | ByJob nat

definition commit_token :: "commit_arg \<Rightarrow> 'f scheduler \<Rightarrow> selection option" where
  "commit_token a s = (case a of BySelection t \<Rightarrow> Some t
     | ByJob j \<Rightarrow> (case sc_pending s of Some t \<Rightarrow> if tk_job t = j then Some t else None | None \<Rightarrow> None))"

definition sched_commit :: "commit_arg \<Rightarrow> 'f scheduler \<Rightarrow> bool \<times> 'f scheduler" where
  "sched_commit a s = (case commit_token a s of None \<Rightarrow> (False, s)
     | Some t \<Rightarrow>
         if tk_id t \<in> set (sc_committed s) \<or> tk_serial t \<noteq> sc_serial s then (False, s)
         else (True, s\<lparr>sc_committed := tk_id t # sc_committed s,
                sc_domainAfter := (if tk_economic t then sc_domainAfter s else Some (tk_domain t)),
                sc_preferReward := \<not> tk_economic t, sc_serial := sc_serial s + 1, sc_pending := None\<rparr>))"

end
