(* ===== verification/Scheduler_Laws.thy ===== *)
theory Scheduler_Laws
  imports Claim_Scheduler
begin

text \<open>
  Laws of the claim scheduler: its comparators are orders, so its heaps stand for finite maps whose
  least value is on top; promotion activates every entry and refreshes every domain whose deadline has
  come, and leaves no deadline that has passed; a turn is committed at most once, and turns alternate between the fair rotation and the economic choice.
\<close>

section \<open>The comparators are orders\<close>

lemma compareText_anti: "compareText b a = - compareText a b"
  by (auto simp: compareText_def)

lemma compareText_eq_0 [simp]: "compareText a b = 0 \<longleftrightarrow> a = b"
  by (auto simp: compareText_def)

lemma compareText_le: "compareText a b \<le> 0 \<longleftrightarrow> a \<le> b"
  by (auto simp: compareText_def)

lemma compareDue_le: "compareDue a b \<le> 0 \<longleftrightarrow> wt_due a < wt_due b \<or> wt_due a = wt_due b \<and> wt_id a \<le> wt_id b"
  by (auto simp: compareDue_def compareText_le)

interpretation due_order: js_order compareDue
proof
  fix a b c
  show "compareDue a b \<le> 0 \<or> compareDue b a \<le> 0" unfolding compareDue_le by auto
  show "compareDue a b \<le> 0 \<Longrightarrow> compareDue b c \<le> 0 \<Longrightarrow> compareDue a c \<le> 0" unfolding compareDue_le by auto
  show "compareDue a b < 0 \<longleftrightarrow> 0 < compareDue b a" by (auto simp: compareDue_def compareText_def)
qed

lemma compareClaimPriority_trans:
  fixes a b c :: ranked
  shows "compareClaimPriority a b \<le> 0 \<Longrightarrow> compareClaimPriority b c \<le> 0 \<Longrightarrow> compareClaimPriority a c \<le> 0"
  by (rule claim_order.cmp_trans)

lemma compareEconomic_anti: "compareEconomic b a = - compareEconomic a b"
  using compareClaimPriority_anti [of "ec_leader a" "ec_leader b"] compareText_anti [of "ec_name a" "ec_name b"]
  by (auto simp: compareEconomic_def)

lemma compareEconomic_le: "compareEconomic a b \<le> 0 \<longleftrightarrow> ec_score b < ec_score a \<or> ec_score a = ec_score b \<and>
    (compareClaimPriority (ec_leader a) (ec_leader b) < 0
     \<or> compareClaimPriority (ec_leader a) (ec_leader b) = 0 \<and> ec_name a \<le> ec_name b)"
  by (auto simp: compareEconomic_def compareText_le)

lemma economic_trans:
  assumes ab: "compareEconomic a b \<le> 0" and bc: "compareEconomic b c \<le> 0"
  shows "compareEconomic a c \<le> 0"
proof (cases "ec_score a = ec_score b \<and> ec_score b = ec_score c")
  case False
  with ab bc show ?thesis unfolding compareEconomic_le by auto
next
  case True
  let ?ab = "compareClaimPriority (ec_leader a) (ec_leader b)" and ?bc = "compareClaimPriority (ec_leader b) (ec_leader c)"
    and ?ac = "compareClaimPriority (ec_leader a) (ec_leader c)"
  have le: "?ab \<le> 0" "?bc \<le> 0" using ab bc True unfolding compareEconomic_le by auto
  then have ac: "?ac \<le> 0" by (rule compareClaimPriority_trans)
  show ?thesis
  proof (cases "?ac = 0")
    case eq: True
    then have "compareClaimPriority (ec_leader c) (ec_leader a) \<le> 0"
      using compareClaimPriority_anti [of "ec_leader a" "ec_leader c"] by simp
    with le have "compareClaimPriority (ec_leader b) (ec_leader a) \<le> 0" "compareClaimPriority (ec_leader c) (ec_leader b) \<le> 0"
      using compareClaimPriority_trans by blast+
    then have "?ab = 0" "?bc = 0" using le compareClaimPriority_anti [of "ec_leader a" "ec_leader b"]
        compareClaimPriority_anti [of "ec_leader b" "ec_leader c"] by auto
    with ab bc True eq show ?thesis unfolding compareEconomic_le by auto
  qed (use True ac in \<open>auto simp: compareEconomic_le\<close>)
qed

interpretation economic_order: js_order compareEconomic
proof
  fix a b c
  show "compareEconomic a b \<le> 0 \<or> compareEconomic b a \<le> 0" using compareEconomic_anti [of a b] by linarith
  show "compareEconomic a b \<le> 0 \<Longrightarrow> compareEconomic b c \<le> 0 \<Longrightarrow> compareEconomic a c \<le> 0" by (rule economic_trans)
  show "compareEconomic a b < 0 \<longleftrightarrow> 0 < compareEconomic b a" using compareEconomic_anti [of a b] by linarith
qed

text \<open>A change of a heap: a new value for a key, or its removal.\<close>

definition heap_apply :: "('v \<Rightarrow> 'v \<Rightarrow> int) \<Rightarrow> ('k \<times> 'v option) list \<Rightarrow> ('k, 'v) indexed_heap" where
  "heap_apply cmp changes = fold (\<lambda>(k, u). case u of None \<Rightarrow> heap_remove cmp k | Some v \<Rightarrow> heap_set cmp k v) changes heap_new"

text \<open>
  Property C24: the indexed heap of the scheduler is a priority queue over a finite map. After any sequence of
  \<open>set\<close> and \<open>remove\<close> calls, with keys replaced and removed in place, \<open>peek\<close> is empty exactly when the map
  with the same changes is empty, and otherwise returns a value of that map that no other value
  precedes; this holds for the order of deadlines and for the order of domain leaders.
\<close>

theorem scheduler_heaps_are_queues:
  "let m = fold (\<lambda>(k, u) m. m(k := u)) changes Map.empty;
       m' = fold (\<lambda>(k, u) m. m(k := u)) changes' Map.empty in
   (heap_peek (heap_apply compareDue changes) = None \<longleftrightarrow> m = Map.empty)
   \<and> (heap_peek (heap_apply compareDue changes) = Some w \<longrightarrow> w \<in> ran m \<and> (\<forall>v\<in>ran m. wt_due w \<le> wt_due v))
   \<and> (heap_peek (heap_apply compareEconomic changes') = None \<longleftrightarrow> m' = Map.empty)
   \<and> (heap_peek (heap_apply compareEconomic changes') = Some l \<longrightarrow> l \<in> ran m' \<and> (\<forall>v\<in>ran m'. ec_score v \<le> ec_score l))"
proof -
  note d = due_order.heap_fold_refines [OF due_order.heap_ok_new refl, of changes, folded heap_apply_def]
  note e = economic_order.heap_fold_refines [OF economic_order.heap_ok_new refl, of changes', folded heap_apply_def]
  have new: "heap_map heap_new = Map.empty" by (simp add: heap_map_def heap_new_def fun_eq_iff)
  note dm = d [unfolded new, THEN conjunct2] and em = e [unfolded new, THEN conjunct2]
  have dle: "compareDue a b \<le> 0 \<Longrightarrow> wt_due a \<le> wt_due b" for a b unfolding compareDue_le by auto
  have ele: "compareEconomic a b \<le> 0 \<Longrightarrow> ec_score b \<le> ec_score a" for a b unfolding compareEconomic_le by auto
  show ?thesis
    using due_order.heap_peek_least [OF d [THEN conjunct1]] economic_order.heap_peek_least [OF e [THEN conjunct1]]
    unfolding Let_def dm em by (auto intro: dle ele)
qed

theorem scheduler_heaps_are_queues_witness:
  "heap_peek (heap_apply compareDue [(''job:a'', Some \<lparr>wt_id = ''job:a'', wt_due = 5, wt_target = JobTarget ''a''\<rparr>),
      (''job:a'', None)]) = None"
proof -
  define changes where "changes = [(''job:a'', Some \<lparr>wt_id = ''job:a'', wt_due = 5, wt_target = JobTarget ''a''\<rparr>), (''job:a'', None)]"
  have "fold (\<lambda>(k, u) m. m(k := u)) changes Map.empty = Map.empty" by (simp add: changes_def)
  with scheduler_heaps_are_queues [of changes "[] :: (string \<times> economic_item option) list"]
  have "heap_peek (heap_apply compareDue changes) = None" unfolding Let_def by blast
  then show ?thesis unfolding changes_def .
qed

section \<open>Deadlines\<close>

definition waiting_ok :: "'f scheduler \<Rightarrow> bool" where
  "waiting_ok s \<longleftrightarrow> due_order.heap_ok (sc_waiting s)
     \<and> (\<forall>k w. heap_map (sc_waiting s) k = Some w \<longrightarrow> wt_id w = k)"

lemma waiting_okI: "sc_waiting s' = sc_waiting s \<Longrightarrow> waiting_ok s \<Longrightarrow> waiting_ok s'"
  by (simp add: waiting_ok_def)

lemma waiting_set:
  "waiting_ok s \<Longrightarrow> wt_id w = k \<Longrightarrow> waiting_ok (s\<lparr>sc_waiting := heap_set compareDue k w (sc_waiting s)\<rparr>)"
  using due_order.heap_set_refines [of "sc_waiting s" k w] by (simp add: waiting_ok_def)

lemma waiting_remove: "waiting_ok s \<Longrightarrow> waiting_ok (s\<lparr>sc_waiting := heap_remove compareDue k (sc_waiting s)\<rparr>)"
  using due_order.heap_remove_refines [of "sc_waiting s" k] by (simp add: waiting_ok_def)

lemma same_waiting [simp]:
  "sc_waiting (refreshGroup name now s) = sc_waiting s"
  "sc_waiting (put_entry e s) = sc_waiting s"
  "sc_waiting (map_group name f s) = sc_waiting s"
  by (simp_all add: refreshGroup_def put_entry_def map_group_def Let_def split: option.splits)

lemma setActive_waiting [simp]: "sc_waiting (setActive J e active now s) = sc_waiting s"
  by (simp add: setActive_def Let_def)

lemma waiting_armDomain: "waiting_ok s \<Longrightarrow> waiting_ok (armDomain name now s)"
  by (simp add: armDomain_def waiting_set waiting_remove split: option.splits)

lemma waiting_arm_job: "waiting_ok s \<Longrightarrow> waiting_ok (arm_job e now s)"
  by (simp add: arm_job_def waiting_set waiting_remove)

lemmas waiting_intros = waiting_armDomain waiting_arm_job waiting_remove

lemma waiting_setReady: "waiting_ok s \<Longrightarrow> waiting_ok (snd (setReady J key ready due now s))"
  by (auto simp: setReady_def Let_def split: sum.splits option.splits
      intro: waiting_okI [OF setActive_waiting] waiting_okI [OF same_waiting(2)] waiting_intros)

lemma waiting_place_entry: "waiting_ok s \<Longrightarrow> waiting_ok (place_entry name now pk s)"
  by (cases pk) (auto simp: place_entry_def Let_def put_entry_def split: option.splits intro!: waiting_arm_job intro: waiting_okI [of _ s])

lemma waiting_rebuild_group: "waiting_ok s \<Longrightarrow> waiting_ok (rebuild_group now nk s)"
proof -
  assume ok: "waiting_ok s"
  have fold: "waiting_ok s \<Longrightarrow> waiting_ok (fold (place_entry name now) pks s)" for name pks and s :: "'a scheduler"
    by (induction pks arbitrary: s) (simp_all add: waiting_place_entry)
  obtain i name where nk: "nk = (i, name)" by (cases nk)
  show ?thesis unfolding nk rebuild_group_def Let_def prod.case
    by (rule waiting_okI [OF same_waiting(1)]) (intro waiting_armDomain waiting_okI [OF same_waiting(3)] fold ok)
qed

lemma waiting_rebuild_items:
  "waiting_ok s \<Longrightarrow> waiting_ok (snd (rebuild_items F val J rate isReady now items rates s))"
proof (induction items arbitrary: rates s)
  case (Cons item items)
  have "sc_waiting (snd (rebuild_item F val J rate isReady now item rates s)) = sc_waiting s"
    by (simp add: rebuild_item_def Let_def put_entry_def split: prod.splits sum.splits option.splits)
  with Cons show ?case
    by (cases "rebuild_item F val J rate isReady now item rates s") (auto split: sum.splits intro: waiting_okI)
qed simp

lemma waiting_new: "sc_waiting s = heap_new \<Longrightarrow> waiting_ok s"
  using due_order.heap_ok_new by (simp add: waiting_ok_def heap_map_def) (simp add: heap_new_def)

lemma waiting_rebuild: "waiting_ok s \<Longrightarrow> waiting_ok (snd (rebuild F val J rate isReady items now s))"
proof -
  assume ok: "waiting_ok s"
  have fold: "waiting_ok s \<Longrightarrow> waiting_ok (fold (rebuild_group now) nks s)" for now nks and s :: "'a scheduler"
    by (induction nks arbitrary: s) (simp_all add: waiting_rebuild_group)
  have "waiting_ok (sched_clear True s)" by (rule waiting_new) (simp add: sched_clear_def)
  note items = waiting_rebuild_items [OF this, of F val J rate isReady]
  show ?thesis
  proof (cases "deadline now")
    case (Inr n)
    show ?thesis
    proof (cases "rebuild_items F val J rate isReady n items [] (sched_clear True s)")
      case (Pair r s')
      with items [of n items "[]"] have "waiting_ok s'" by simp
      then show ?thesis using Inr Pair
        by (cases r) (auto simp: rebuild_def Let_def intro!: fold intro: waiting_okI [of _ s'])
    qed
  qed (use ok in \<open>simp add: rebuild_def\<close>)
qed

text \<open>The loop of \<open>promote\<close> ends within its bound and leaves no deadline that has passed.\<close>

lemma waiting_shrinks:
  assumes "waiting_ok s" and "heap_map (sc_waiting s) k = Some w"
  shows "length (ih_items (heap_remove compareDue k (sc_waiting s))) < length (ih_items (sc_waiting s))"
proof -
  have ok: "due_order.heap_ok (sc_waiting s)" using assms(1) by (simp add: waiting_ok_def)
  note r = due_order.heap_remove_refines [OF ok, of k]
  have i: "index_ok (sc_waiting s)" "index_ok (heap_remove compareDue k (sc_waiting s))"
    using ok r by (auto simp: due_order.heap_ok_def)
  note sizes = this [THEN heap_size]
  have "finite (dom (heap_map (sc_waiting s)))"
    by (rule finite_subset [of _ "fst ` set (ih_items (sc_waiting s))"])
      (use heap_map_iff [OF i(1)] in \<open>force simp: dom_def\<close>, simp)
  then show ?thesis unfolding sizes using r assms(2) by (intro psubset_card_mono) auto
qed

lemma waiting_top: "waiting_ok s \<Longrightarrow> heap_peek (sc_waiting s) = Some w \<Longrightarrow> heap_map (sc_waiting s) (wt_id w) = Some w"
  using due_order.heap_peek_least(2) [of "sc_waiting s" w] by (auto simp: waiting_ok_def ran_def)

text \<open>What a deadline does when it has come.\<close>

definition wake :: "(nat \<Rightarrow> claim_job) \<Rightarrow> rat \<Rightarrow> waiting_item \<Rightarrow> 'f scheduler \<Rightarrow> 'f scheduler" where
  "wake J now w s = (case wt_target w of
       JobTarget key \<Rightarrow> (case jget (sc_objects s) key of Some e \<Rightarrow> setActive J e (en_allowed e) now s | None \<Rightarrow> s)
     | DomainTarget name \<Rightarrow> refreshGroup name now s)"

lemma wake_waiting [simp]: "sc_waiting (wake J now w s) = sc_waiting s"
  by (simp add: wake_def split: wait_target.splits option.splits)

lemma promote_loop_wake: "heap_peek (sc_waiting s) = Some w \<Longrightarrow> wt_due w \<le> now \<Longrightarrow>
    promote_loop (Suc n) J now s
      = promote_loop n J now (wake J now w (s\<lparr>sc_waiting := heap_remove compareDue (wt_id w) (sc_waiting s)\<rparr>))"
  by (simp add: wake_def Let_def)

lemma promote_loop_drains:
  "waiting_ok s \<Longrightarrow> length (ih_items (sc_waiting s)) \<le> n \<Longrightarrow>
     waiting_ok (promote_loop n J now s)
     \<and> (case heap_peek (sc_waiting (promote_loop n J now s)) of None \<Rightarrow> True | Some w \<Rightarrow> now < wt_due w)"
proof (induction n arbitrary: s)
  case 0
  then show ?case by (simp add: heap_peek_def)
next
  case (Suc n)
  show ?case
  proof (cases "heap_peek (sc_waiting s)")
    case (Some w)
    show ?thesis
    proof (cases "wt_due w \<le> now")
      case True
      define s2 where "s2 = wake J now w (s\<lparr>sc_waiting := heap_remove compareDue (wt_id w) (sc_waiting s)\<rparr>)"
      have "length (ih_items (sc_waiting s2)) \<le> n"
        using waiting_shrinks [OF Suc.prems(1) waiting_top [OF Suc.prems(1) Some]] Suc.prems(2) by (simp add: s2_def)
      moreover have "waiting_ok s2" unfolding s2_def
        by (rule waiting_okI [OF wake_waiting]) (rule waiting_remove [OF Suc.prems(1)])
      ultimately show ?thesis using Suc.IH [of s2] promote_loop_wake [OF Some True] by (simp add: s2_def)
    qed (use Suc.prems Some in simp)
  qed (use Suc.prems in simp)
qed

lemma promote_drains:
  assumes "waiting_ok s"
  shows "waiting_ok (promote J now s)" and "nextDue (promote J now s) = Some d \<Longrightarrow> now < d"
  using promote_loop_drains [OF assms order_refl, of J now] by (auto simp: promote_def nextDue_def)

lemma waiting_next: "waiting_ok s \<Longrightarrow> waiting_ok (snd (sched_next J now allow s))"
  using promote_drains(1) [of s J]
  by (auto simp: sched_next_def Let_def split: sum.splits option.splits intro: waiting_okI)

section \<open>Waking\<close>

text \<open>What a leader is does not depend on the flags of the entries, only on their ranks and scores.\<close>

definition entry_core :: "sched_entry \<Rightarrow> sched_entry" where
  "entry_core e = e\<lparr>en_active := False, en_preparedActive := False\<rparr>"

definition same_ranks :: "(string, sched_entry) jmap \<Rightarrow> (string, sched_entry) jmap \<Rightarrow> bool" where
  "same_ranks objects objects' \<longleftrightarrow> (\<forall>k. map_option entry_core (jget objects' k) = map_option entry_core (jget objects k))"

lemma entry_core_sel [simp]: "en_key (entry_core e) = en_key e" "en_score (entry_core e) = en_score e"
  "rk_priority (entry_core e) = rk_priority e" "rk_txid (entry_core e) = rk_txid e" "rk_vout (entry_core e) = rk_vout e"
  by (simp_all add: entry_core_def)

lemma core_eqD: "entry_core a = entry_core b \<Longrightarrow> en_key a = en_key b \<and> en_score a = en_score b
    \<and> rk_priority a = rk_priority b \<and> rk_txid a = rk_txid b \<and> rk_vout a = rk_vout b"
  by (metis entry_core_sel)

lemma better_core: "entry_core c' = entry_core c \<Longrightarrow> map_option entry_core l' = map_option entry_core l \<Longrightarrow> better c' l' = better c l"
  by (cases l; cases l') (auto simp: better_def compareClaimPriority_def dest!: core_eqD)

lemma pick_leader_core:
  assumes "same_ranks objects objects'" and "map_option entry_core l' = map_option entry_core l"
  shows "map_option entry_core (pick_leader objects' view m l') = map_option entry_core (pick_leader objects view m l)"
proof -
  let ?k = "mk_entries m ! nat (ready_at 0 (view m))"
  have k: "map_option entry_core (jget objects' ?k) = map_option entry_core (jget objects ?k)"
    using assms(1) by (simp add: same_ranks_def)
  show ?thesis
  proof (cases "jget objects ?k")
    case None
    with k assms(2) show ?thesis by (simp add: pick_leader_def)
  next
    case (Some c)
    with k obtain c' where c': "jget objects' ?k = Some c'" "entry_core c' = entry_core c" by auto
    from better_core [OF this(2) assms(2)] Some c' assms(2) show ?thesis by (simp add: pick_leader_def)
  qed
qed

lemma group_leader_core:
  assumes "same_ranks objects objects'"
  shows "map_option en_key (group_leader objects' view now g) = map_option en_key (group_leader objects view now g)"
proof -
  have "map_option entry_core l' = map_option entry_core l \<Longrightarrow>
      map_option entry_core (fold (\<lambda>e. pick_leader objects' view (snd e)) ms l')
      = map_option entry_core (fold (\<lambda>e. pick_leader objects view (snd e)) ms l)" for ms :: "(int \<times> sched_mask) list" and l l'
    by (induction ms arbitrary: l l') (simp_all add: pick_leader_core [OF assms])
  then have "map_option entry_core (group_leader objects' view now g) = map_option entry_core (group_leader objects view now g)"
    by (simp add: group_leader_def)
  then have "map_option en_key (map_option entry_core (group_leader objects' view now g))
      = map_option en_key (map_option entry_core (group_leader objects view now g))" by (rule arg_cong)
  then show ?thesis by (simp add: option.map_comp comp_def)
qed

text \<open>A group is up to date at a time when its leaders are those that its masks and its gate give then.\<close>

definition group_fresh :: "rat \<Rightarrow> 'f scheduler \<Rightarrow> string \<Rightarrow> bool" where
  "group_fresh now s name \<longleftrightarrow> (\<exists>g. jget (sc_groups s) name = Some g
     \<and> gr_leader g = map_option en_key (group_leader (sc_objects s) mk_ready now g) \<and> gr_active g = (gr_leader g \<noteq> None)
     \<and> gr_preparedLeader g = map_option en_key (group_leader (sc_objects s) mk_preparedReady now g)
     \<and> gr_preparedActive g = (gr_preparedLeader g \<noteq> None))"

definition has_group :: "'f scheduler \<Rightarrow> string \<Rightarrow> bool" where
  "has_group s name \<longleftrightarrow> jget (sc_groups s) name \<noteq> None"

lemma same_objects [simp]:
  "sc_objects (refreshGroup name now s) = sc_objects s"
  "sc_objects (map_group name f s) = sc_objects s"
  "sc_objects (armDomain name now s) = sc_objects s"
  "sc_objects (arm_job e now s) = sc_objects s"
  by (simp_all add: refreshGroup_def map_group_def armDomain_def arm_job_def Let_def split: option.splits)

lemma same_has_group [simp]:
  "has_group (refreshGroup name now s) n = has_group s n"
  "has_group (map_group name f s) n = has_group s n"
  "has_group (armDomain name now s) n = has_group s n"
  "has_group (arm_job e now s) n = has_group s n"
  "has_group (put_entry e s) n = has_group s n"
  by (auto simp: has_group_def refreshGroup_def map_group_def armDomain_def arm_job_def put_entry_def Let_def split: option.splits)

lemma setActive_has_group [simp]: "has_group (setActive J e active now s) n = has_group s n"
  by (simp add: setActive_def Let_def)

lemma setActive_objects:
  assumes "jget (sc_objects s) (en_key e) = Some e"
  shows "jget (sc_objects (setActive J e active now s)) key = (if key = en_key e
     then Some (e\<lparr>en_active := active, en_preparedActive := active \<and> job_prepared J e\<rparr>) else jget (sc_objects s) key)"
proof (cases "en_active e = active \<and> en_preparedActive e = (active \<and> job_prepared J e)")
  case True
  then have "e\<lparr>en_active := active, en_preparedActive := active \<and> job_prepared J e\<rparr> = e" by (cases e) simp
  with True assms show ?thesis by (simp add: setActive_def)
qed (auto simp: setActive_def Let_def put_entry_def)

lemma group_leader_frame:
  "gr_masks g' = gr_masks g \<Longrightarrow> gr_gate g' = gr_gate g \<Longrightarrow> group_leader objects view now g' = group_leader objects view now g"
  by (simp add: group_leader_def)

lemma refreshGroup_fresh:
  assumes "has_group s name"
  shows "group_fresh now (refreshGroup name now s) name"
proof -
  obtain g where g: "jget (sc_groups s) name = Some g" using assms by (auto simp: has_group_def)
  let ?l = "group_leader (sc_objects s) mk_ready now g" and ?p = "group_leader (sc_objects s) mk_preparedReady now g"
  define g' where "g' = g\<lparr>gr_leader := map_option en_key ?l, gr_active := ?l \<noteq> None,
      gr_preparedLeader := map_option en_key ?p, gr_preparedActive := ?p \<noteq> None\<rparr>"
  have "jget (sc_groups (refreshGroup name now s)) name = Some g'"
    by (simp add: refreshGroup_def g Let_def g'_def)
  moreover have "group_leader (sc_objects s) view now g' = group_leader (sc_objects s) view now g" for view
    by (rule group_leader_frame) (simp_all add: g'_def)
  ultimately show ?thesis by (simp add: group_fresh_def) (simp add: g'_def)
qed

lemma group_fresh_cong:
  assumes "jget (sc_groups s') name = jget (sc_groups s) name" and "same_ranks (sc_objects s) (sc_objects s')"
  shows "group_fresh now s name \<Longrightarrow> group_fresh now s' name"
  using assms(1) by (simp add: group_fresh_def group_leader_core [OF assms(2)])

lemma refreshGroup_keeps_fresh:
  assumes "group_fresh now s n"
  shows "group_fresh now (refreshGroup name now s) n"
proof (cases "n = name")
  case True
  with assms have "has_group s name" by (auto simp: group_fresh_def has_group_def)
  with True show ?thesis by (simp add: refreshGroup_fresh)
next
  case False
  then have "jget (sc_groups (refreshGroup name now s)) n = jget (sc_groups s) n"
    by (simp add: refreshGroup_def Let_def split: option.splits)
  then show ?thesis by (rule group_fresh_cong) (use assms in \<open>simp_all add: same_ranks_def\<close>)
qed

lemma setActive_fresh:
  assumes "has_group s (en_group e)" and "en_active e \<noteq> active"
  shows "group_fresh now (setActive J e active now s) (en_group e)"
  using assms by (simp add: setActive_def Let_def refreshGroup_fresh)

lemma setActive_keeps_fresh:
  assumes "jget (sc_objects s) (en_key e) = Some e" and "group_fresh now s n"
  shows "group_fresh now (setActive J e active now s) n"
proof (cases "(en_active e = active \<and> en_preparedActive e = (active \<and> job_prepared J e)) \<or> n \<noteq> en_group e")
  case False
  from assms(2) have "has_group s n" by (auto simp: group_fresh_def has_group_def)
  with False show ?thesis by (auto simp: setActive_def Let_def intro!: refreshGroup_fresh)
next
  case True
  have "jget (sc_groups (setActive J e active now s)) n = jget (sc_groups s) n"
    using True by (auto simp: setActive_def Let_def refreshGroup_def map_group_def put_entry_def split: option.splits)
  moreover have "same_ranks (sc_objects s) (sc_objects (setActive J e active now s))"
    using assms(1) by (simp add: same_ranks_def setActive_objects entry_core_def)
  ultimately show ?thesis using assms(2) by (rule group_fresh_cong)
qed

section \<open>Who is parked\<close>

text \<open>Every deadline in the heap belongs to an entry that is not active, or to a group.\<close>

definition keys_ok :: "'f scheduler \<Rightarrow> bool" where
  "keys_ok s \<longleftrightarrow> (\<forall>key e. jget (sc_objects s) key = Some e \<longrightarrow> en_key e = key \<and> has_group s (en_group e))"

definition parked_ok :: "'f scheduler \<Rightarrow> string \<Rightarrow> waiting_item \<Rightarrow> bool" where
  "parked_ok s k w = (case wt_target w of
       JobTarget key \<Rightarrow> k = job_id key \<and> (\<exists>e. jget (sc_objects s) key = Some e \<and> \<not> en_active e)
     | DomainTarget name \<Rightarrow> k = domain_id name \<and> has_group s name)"

definition parking_ok :: "'f scheduler \<Rightarrow> bool" where
  "parking_ok s \<longleftrightarrow> waiting_ok s \<and> keys_ok s \<and> (\<forall>k w. heap_map (sc_waiting s) k = Some w \<longrightarrow> parked_ok s k w)"

lemma ids_differ [simp]: "job_id key \<noteq> domain_id name" "domain_id name \<noteq> job_id key"
  "job_id key = job_id key' \<longleftrightarrow> key = key'"
  by (simp_all add: job_id_def domain_id_def)

lemma keys_okD: "keys_ok s \<Longrightarrow> jget (sc_objects s) key = Some e \<Longrightarrow> en_key e = key \<and> has_group s (en_group e)"
  by (simp add: keys_ok_def)

lemma parking_cong:
  assumes "parking_ok s" and "sc_waiting s' = sc_waiting s" and "sc_objects s' = sc_objects s"
    and "\<And>n. has_group s' n = has_group s n"
  shows "parking_ok s'"
  using assms by (auto simp: parking_ok_def keys_ok_def parked_ok_def waiting_ok_def split: wait_target.splits)

lemma waiting_set_map: "waiting_ok s \<Longrightarrow> heap_map (heap_set compareDue k w (sc_waiting s)) = (heap_map (sc_waiting s))(k \<mapsto> w)"
  using due_order.heap_set_refines [of "sc_waiting s" k w] by (simp add: waiting_ok_def)

lemma waiting_remove_map: "waiting_ok s \<Longrightarrow> heap_map (heap_remove compareDue k (sc_waiting s)) = (heap_map (sc_waiting s))(k := None)"
  using due_order.heap_remove_refines [of "sc_waiting s" k] by (simp add: waiting_ok_def)

text \<open>A change of one entry that is not parked, or stays inactive.\<close>

lemma parking_entry:
  assumes ok: "parking_ok s" and w: "sc_waiting s' = sc_waiting s"
    and o: "\<And>k. jget (sc_objects s') k = (if k = key then Some e else jget (sc_objects s) k)"
    and e: "en_key e = key" "has_group s (en_group e)" and g: "\<And>n. has_group s' n = has_group s n"
    and free: "en_active e \<Longrightarrow> heap_map (sc_waiting s) (job_id key) = None"
  shows "parking_ok s'"
proof -
  have "keys_ok s'" using ok e by (auto simp: parking_ok_def keys_ok_def o g)
  moreover have "parked_ok s' k x" if h: "heap_map (sc_waiting s) k = Some x" for k x
  proof -
    from ok h have "parked_ok s k x" by (simp add: parking_ok_def)
    then show ?thesis using free h by (auto simp: parked_ok_def o g split: wait_target.splits)
  qed
  moreover have "waiting_ok s'" using ok w by (simp add: parking_ok_def waiting_ok_def)
  ultimately show ?thesis by (simp add: parking_ok_def w)
qed

lemma parking_remove: "parking_ok s \<Longrightarrow> parking_ok (s\<lparr>sc_waiting := heap_remove compareDue k (sc_waiting s)\<rparr>)"
  using waiting_remove [of s k]
  by (auto simp: parking_ok_def waiting_remove_map keys_ok_def parked_ok_def has_group_def split: wait_target.splits if_splits)

lemma parking_park:
  assumes "parking_ok s" and "wt_id w = k" and "parked_ok s k w"
  shows "parking_ok (s\<lparr>sc_waiting := heap_set compareDue k w (sc_waiting s)\<rparr>)"
  using assms waiting_set [of s w k]
  by (auto simp: parking_ok_def waiting_set_map keys_ok_def parked_ok_def has_group_def split: wait_target.splits if_splits)

lemma parking_arm_job:
  assumes "parking_ok s" and "jget (sc_objects s) (en_key e) = Some e" and "en_allowed e \<and> en_due e > now \<Longrightarrow> \<not> en_active e"
  shows "parking_ok (arm_job e now s)"
  using assms by (auto simp: arm_job_def parked_ok_def intro!: parking_park parking_remove)

lemma parking_armDomain: "parking_ok s \<Longrightarrow> parking_ok (armDomain name now s)"
  by (auto simp: armDomain_def parked_ok_def has_group_def intro!: parking_park parking_remove split: option.splits)

lemma parking_refreshGroup: "parking_ok s \<Longrightarrow> parking_ok (refreshGroup name now s)"
  by (rule parking_cong) simp_all

lemma parking_map_group: "parking_ok s \<Longrightarrow> parking_ok (map_group name f s)"
  by (rule parking_cong) simp_all

lemma parking_setActive:
  assumes "parking_ok s" and "jget (sc_objects s) (en_key e) = Some e"
    and "active \<Longrightarrow> heap_map (sc_waiting s) (job_id (en_key e)) = None"
  shows "parking_ok (setActive J e active now s)"
proof -
  have "has_group s (en_group e)" using assms(1,2) keys_okD by (auto simp: parking_ok_def)
  with assms show ?thesis
    by - (rule parking_entry [where s = s and key = "en_key e"
          and e = "e\<lparr>en_active := active, en_preparedActive := active \<and> job_prepared J e\<rparr>"],
       simp_all add: setActive_objects)
qed

lemma live_entry_get: "live_entry s key = Some e \<Longrightarrow> jget (sc_objects s) key = Some e"
  by (auto simp: live_entry_def split: option.splits if_splits)

lemma parking_setReady:
  assumes "parking_ok s"
  shows "parking_ok (snd (setReady J key ready due now s))"
proof (cases "deadline now")
  case (Inr t)
  show ?thesis
  proof (cases "live_entry s key")
    case (Some e)
    note get = live_entry_get [OF Some]
    have e: "en_key e = key" "has_group s (en_group e)" using keys_okD [OF _ get] assms by (auto simp: parking_ok_def)
    have active: "en_active e \<Longrightarrow> heap_map (sc_waiting s) (job_id key) = None"
    proof (rule ccontr)
      assume a: "en_active e" and "heap_map (sc_waiting s) (job_id key) \<noteq> None"
      then obtain w where "heap_map (sc_waiting s) (job_id key) = Some w" by blast
      with assms have "parked_ok s (job_id key) w" by (simp add: parking_ok_def)
      with a get show False by (auto simp: parked_ok_def split: wait_target.splits)
    qed
    show ?thesis
    proof (cases "deadline (case due of Some d \<Rightarrow> d | None \<Rightarrow> job_due J e)")
      case (Inl err)
      have "parking_ok (put_entry (e\<lparr>en_allowed := ready\<rparr>) s)"
        by (rule parking_entry [OF assms, where key = key and e = "e\<lparr>en_allowed := ready\<rparr>"])
          (use e active in \<open>simp_all add: put_entry_def has_group_def\<close>)
      then show ?thesis by (simp add: setReady_def Inr Some Inl)
    next
      case d: (Inr d)
      define e1 where "e1 = e\<lparr>en_allowed := ready, en_due := d\<rparr>"
      define act where "act \<longleftrightarrow> ready \<and> d \<le> t"
      define e2 where "e2 = e1\<lparr>en_active := act, en_preparedActive := act \<and> job_prepared J e1\<rparr>"
      define s1 where "s1 = arm_job e1 t (put_entry e1 s)"
      define s2 where "s2 = setActive J e1 act t s1"
      have k: "en_key e1 = key" "en_key e2 = key" "en_group e2 = en_group e" "en_active e2 = act" by (simp_all add: e1_def e2_def e)
      have get1: "jget (sc_objects s1) (en_key e1) = Some e1" by (simp add: s1_def put_entry_def)
      have o: "jget (sc_objects s2) j = (if j = key then Some e2 else jget (sc_objects s) j)" for j
        by (simp add: s2_def setActive_objects [OF get1] k) (simp add: e2_def s1_def put_entry_def k)
      define h where "h = (if ready \<and> d > t then heap_set compareDue (job_id key)
             \<lparr>wt_id = job_id key, wt_due = d, wt_target = JobTarget key\<rparr> (sc_waiting s) else heap_remove compareDue (job_id key) (sc_waiting s))"
      have w: "sc_waiting s2 = h" by (simp add: s2_def s1_def arm_job_def e1_def e h_def put_entry_def)
      have g: "has_group s2 n = has_group s n" for n by (simp add: s2_def s1_def)
      have wok: "waiting_ok s" using assms by (simp add: parking_ok_def)
      have ho: "heap_map h j = (if j = job_id key then (if ready \<and> d > t then Some \<lparr>wt_id = job_id key, wt_due = d, wt_target = JobTarget key\<rparr> else None)
          else heap_map (sc_waiting s) j)" for j
        by (simp add: h_def waiting_set_map [OF wok] waiting_remove_map [OF wok])
      have "waiting_ok s2" using waiting_setReady [OF wok, of J key ready due now]
        by (simp add: setReady_def Inr Some d Let_def s2_def s1_def e1_def act_def)
      moreover have "keys_ok s2" using assms e k by (auto simp: parking_ok_def keys_ok_def o g)
      moreover have "parked_ok s2 j x" if x: "heap_map h j = Some x" for j x
      proof (cases "j = job_id key")
        case True
        with x k show ?thesis by (auto simp: ho parked_ok_def o act_def split: if_splits)
      next
        case False
        with x assms have "parked_ok s j x" by (simp add: ho parking_ok_def)
        with False show ?thesis by (auto simp: parked_ok_def o g split: wait_target.splits)
      qed
      ultimately have "parking_ok s2" by (simp add: parking_ok_def w)
      then show ?thesis by (simp add: setReady_def Inr Some d Let_def s2_def s1_def e1_def act_def)
    qed
  qed (use assms Inr in \<open>simp add: setReady_def\<close>)
qed (use assms in \<open>simp add: setReady_def\<close>)

lemma active_unparked:
  assumes "parking_ok s" and "jget (sc_objects s) key = Some e" and "en_active e"
  shows "heap_map (sc_waiting s) (job_id key) = None"
proof (rule ccontr)
  assume "heap_map (sc_waiting s) (job_id key) \<noteq> None"
  then obtain w where "heap_map (sc_waiting s) (job_id key) = Some w" by blast
  with assms(1) have "parked_ok s (job_id key) w" by (simp add: parking_ok_def)
  with assms(2,3) show False by (auto simp: parked_ok_def split: wait_target.splits)
qed

text \<open>While the schedule is rebuilt every entry is active exactly when it is allowed and due.\<close>

definition just_built :: "rat \<Rightarrow> 'f scheduler \<Rightarrow> bool" where
  "just_built now s \<longleftrightarrow> (\<forall>key e. jget (sc_objects s) key = Some e \<longrightarrow> en_active e = (en_allowed e \<and> en_due e \<le> now))"

lemma just_built_cong: "sc_objects s' = sc_objects s \<Longrightarrow> just_built now s \<Longrightarrow> just_built now s'"
  by (simp add: just_built_def)

lemma keys_put_group: "keys_ok s \<Longrightarrow> keys_ok (s\<lparr>sc_groups := jset (sc_groups s) name g\<rparr>)"
  by (auto simp: keys_ok_def has_group_def)

lemma keys_put_entry: "keys_ok s \<Longrightarrow> has_group s (en_group e) \<Longrightarrow> keys_ok (put_entry e s)"
  by (auto simp: keys_ok_def) (auto simp: put_entry_def split: if_splits)

lemma just_built_put: "just_built now s \<Longrightarrow> en_active e = (en_allowed e \<and> en_due e \<le> now) \<Longrightarrow> just_built now (put_entry e s)"
  by (auto simp: just_built_def put_entry_def split: if_splits)

lemma has_put_group [simp]: "has_group (s\<lparr>sc_groups := jset (sc_groups s) name g\<rparr>) n \<longleftrightarrow> n = name \<or> has_group s n"
  by (auto simp: has_group_def)

lemma rebuild_item_cases:
  assumes "P s" and "\<And>n g. P (s\<lparr>sc_groups := jset (sc_groups s) n g\<rparr>)"
    and "\<And>n g g' e. en_group e = n \<Longrightarrow> en_active e = (en_allowed e \<and> en_due e \<le> now) \<Longrightarrow>
      P (put_entry e (s\<lparr>sc_groups := jset (jset (sc_groups s) n g) n g'\<rparr>))"
  shows "P (snd (rebuild_item F val J rate isReady now item rates s))"
  using assms by (simp add: rebuild_item_def Let_def split: prod.splits sum.splits option.splits)

lemma rebuild_item_keys:
  assumes "keys_ok s" and "just_built now s"
  shows "keys_ok (snd (rebuild_item F val J rate isReady now item rates s))
     \<and> just_built now (snd (rebuild_item F val J rate isReady now item rates s))"
proof (rule rebuild_item_cases)
  show "keys_ok (s\<lparr>sc_groups := jset (sc_groups s) n g\<rparr>) \<and> just_built now (s\<lparr>sc_groups := jset (sc_groups s) n g\<rparr>)" for n g
    using assms keys_put_group by (auto simp: just_built_def)
next
  fix n g g' and e :: sched_entry assume e: "en_group e = n" "en_active e = (en_allowed e \<and> en_due e \<le> now)"
  let ?s = "s\<lparr>sc_groups := jset (jset (sc_groups s) n g) n g'\<rparr>"
  have "keys_ok ?s" using keys_put_group [OF keys_put_group [OF assms(1)], of n g n g'] by simp
  moreover have "just_built now ?s" using assms(2) by (simp add: just_built_def)
  moreover have "has_group ?s (en_group e)" by (simp add: has_group_def e)
  ultimately show "keys_ok (put_entry e ?s) \<and> just_built now (put_entry e ?s)"
    using e(2) keys_put_entry just_built_put by blast
qed (use assms in simp)

lemma rebuild_items_keys:
  "keys_ok s \<Longrightarrow> just_built now s \<Longrightarrow> sc_waiting s = heap_new \<Longrightarrow>
     (case rebuild_items F val J rate isReady now items rates s of (r, s') \<Rightarrow>
        keys_ok s' \<and> just_built now s' \<and> sc_waiting s' = heap_new)"
proof (induction items arbitrary: rates s)
  case (Cons item items)
  have "sc_waiting (snd (rebuild_item F val J rate isReady now item rates s)) = heap_new"
    using Cons.prems(3) by (simp add: rebuild_item_def Let_def put_entry_def split: prod.splits sum.splits option.splits)
  with Cons.IH rebuild_item_keys [OF Cons.prems(1,2), of F val J rate isReady item rates] show ?case
    by (cases "rebuild_item F val J rate isReady now item rates s") (auto split: sum.splits)
qed simp

lemma parking_fresh: "keys_ok s \<Longrightarrow> sc_waiting s = heap_new \<Longrightarrow> parking_ok s"
  by (simp add: parking_ok_def waiting_new) (simp add: heap_map_def heap_new_def)

lemma parking_place_entry:
  assumes ok: "parking_ok s" and jb: "just_built now s"
  shows "parking_ok (place_entry name now pk s) \<and> just_built now (place_entry name now pk s)"
proof -
  obtain position key where pk: "pk = (position, key)" by (cases pk)
  show ?thesis
  proof (cases "jget (sc_groups s) name = None \<or> jget (sc_objects s) key = None")
    case True
    with assms show ?thesis by (auto simp: pk place_entry_def split: option.splits)
  next
    case False
    then obtain g e where get: "jget (sc_groups s) name = Some g" "jget (sc_objects s) key = Some e" by auto
    from keys_okD [OF _ get(2)] ok have e: "en_key e = key" "has_group s (en_group e)" by (auto simp: parking_ok_def)
    have act: "en_active e = (en_allowed e \<and> en_due e \<le> now)" using jb get(2) by (simp add: just_built_def)
    define m where "m = (case jget (gr_masks g) (en_mask e) of Some m \<Rightarrow> m
               | None \<Rightarrow> \<lparr>mk_entries = [], mk_ready = ready_index_new [], mk_preparedReady = ready_index_new []\<rparr>)"
    define e1 where "e1 = e\<lparr>en_position := position, en_maskPosition := length (mk_entries m)\<rparr>"
    define s1 where "s1 = put_entry e1 (s\<lparr>sc_groups := jset (sc_groups s) name
                   (g\<lparr>gr_masks := jset (gr_masks g) (en_mask e1) (m\<lparr>mk_entries := mk_entries m @ [key]\<rparr>)\<rparr>)\<rparr>)"
    have k: "en_key e1 = key" "en_group e1 = en_group e" "en_active e1 = (en_allowed e1 \<and> en_due e1 \<le> now)"
      "en_allowed e1 = en_allowed e" "en_due e1 = en_due e" by (simp_all add: e1_def e act)
    have "parking_ok s1"
    proof (rule parking_entry [OF ok, where key = key and e = e1])
      show "sc_waiting s1 = sc_waiting s" by (simp add: s1_def)
      show "jget (sc_objects s1) j = (if j = key then Some e1 else jget (sc_objects s) j)" for j
        by (simp add: s1_def put_entry_def k)
      show "en_key e1 = key" by (rule k)
      show "has_group s (en_group e1)" using e k by simp
      show "has_group s1 n = has_group s n" for n using get(1) by (auto simp: s1_def has_group_def put_entry_def)
      show "en_active e1 \<Longrightarrow> heap_map (sc_waiting s) (job_id key) = None"
        using active_unparked [OF ok get(2)] act k by simp
    qed
    moreover have "just_built now s1" unfolding s1_def
      by (intro just_built_put k just_built_cong [OF _ jb]) simp
    moreover have "jget (sc_objects s1) (en_key e1) = Some e1" by (simp add: s1_def put_entry_def)
    ultimately have "parking_ok (arm_job e1 now s1) \<and> just_built now (arm_job e1 now s1) \<and> parking_ok s1 \<and> just_built now s1"
      using k by (auto intro!: parking_arm_job intro: just_built_cong [OF same_objects(4)])
    then show ?thesis by (simp add: pk place_entry_def get Let_def m_def [symmetric] e1_def [symmetric] s1_def [symmetric])
  qed
qed

lemma parking_rebuild_group:
  assumes ok: "parking_ok s" and jb: "just_built now s"
  shows "parking_ok (rebuild_group now nk s) \<and> just_built now (rebuild_group now nk s)"
proof -
  obtain i name where nk: "nk = (i, name)" by (cases nk)
  have fold: "parking_ok s \<Longrightarrow> just_built now s \<Longrightarrow>
      parking_ok (fold (place_entry name now) pks s) \<and> just_built now (fold (place_entry name now) pks s)" for pks and s :: "'a scheduler"
  proof (induction pks arbitrary: s)
    case (Cons pk pks)
    with parking_place_entry [OF Cons.prems, of name pk] show ?case by simp
  qed simp
  define s1 where "s1 = map_group name (\<lambda>g. g\<lparr>gr_index := i, gr_entries := map en_key
               (js_sort compareClaimPriority (List.map_filter (jget (sc_objects s)) (gr_entries g)))\<rparr>) s"
  define s2 where "s2 = fold (place_entry name now) (enumerate 0 (case jget (sc_groups s1) name of Some g \<Rightarrow> gr_entries g | None \<Rightarrow> [])) s1"
  have "parking_ok s1" "just_built now s1"
    unfolding s1_def using parking_map_group [OF ok] just_built_cong [OF same_objects(2) jb] by blast+
  with fold have "parking_ok s2" "just_built now s2" unfolding s2_def by blast+
  then have "parking_ok (refreshGroup name now (armDomain name now (map_group name (index_group (sc_objects s2)) s2)))"
    by (intro parking_refreshGroup parking_armDomain parking_map_group)
  moreover have "just_built now (refreshGroup name now (armDomain name now (map_group name (index_group (sc_objects s2)) s2)))"
    by (rule just_built_cong [OF _ \<open>just_built now s2\<close>]) simp
  ultimately show ?thesis by (simp add: nk rebuild_group_def Let_def s1_def [symmetric] s2_def [symmetric])
qed

lemma parking_rebuild:
  assumes "parking_ok s"
  shows "parking_ok (snd (rebuild F val J rate isReady items now s))"
proof (cases "deadline now")
  case (Inr n)
  obtain r s' where i: "rebuild_items F val J rate isReady n items [] (sched_clear True s) = (r, s')"
    by (cases "rebuild_items F val J rate isReady n items [] (sched_clear True s)")
  have "keys_ok (sched_clear True s)" "just_built n (sched_clear True s)" "sc_waiting (sched_clear True s) = heap_new"
    by (simp_all add: sched_clear_def keys_ok_def just_built_def)
  from rebuild_items_keys [OF this, of F val J rate isReady items "[]"] i
  have s': "keys_ok s'" "just_built n s'" "sc_waiting s' = heap_new" by simp_all
  have fold: "parking_ok s \<Longrightarrow> just_built n s \<Longrightarrow> parking_ok (fold (rebuild_group n) nks s)" for nks and s :: "'a scheduler"
  proof (induction nks arbitrary: s)
    case (Cons nk nks)
    with parking_rebuild_group [OF Cons.prems, of nk] show ?case by simp
  qed simp
  have "parking_ok s'" by (rule parking_fresh [OF s'(1,3)])
  then show ?thesis
  proof (cases r)
    case (Inr u)
    let ?names = "js_sort compareText (jkeys (sc_groups s'))"
    let ?s = "s'\<lparr>sc_domainGates := filter (\<lambda>(name, _). name \<in> set (map (\<lambda>item. jb_domain (J (snd (item_job J item)))) items)) (sc_domainGates s'),
        sc_names := ?names, sc_readyDomains := ready_index_new (map (\<lambda>_. 0) ?names), sc_preparedDomains := ready_index_new (map (\<lambda>_. 0) ?names)\<rparr>"
    have "parking_ok ?s" "just_built n ?s"
      using \<open>parking_ok s'\<close> s'(2) by (auto intro: parking_cong just_built_cong simp: has_group_def)
    from fold [OF this] show ?thesis using \<open>deadline now = Inr n\<close> i Inr by (simp add: rebuild_def Let_def)
  qed (use \<open>deadline now = Inr n\<close> i in \<open>simp add: rebuild_def\<close>)
qed (use assms in \<open>simp add: rebuild_def\<close>)

section \<open>Promotion\<close>

text \<open>A deadline was promoted: its entry is active if it is allowed, prepared if its job is, and the leaders
  of its domain were chosen anew; for the deadline of a domain its leaders were.\<close>

definition woken :: "(nat \<Rightarrow> claim_job) \<Rightarrow> rat \<Rightarrow> 'f scheduler \<Rightarrow> 'f scheduler \<Rightarrow> waiting_item \<Rightarrow> bool" where
  "woken J now s s' w = (case wt_target w of
       JobTarget key \<Rightarrow> (\<exists>e e'. jget (sc_objects s) key = Some e \<and> jget (sc_objects s') key = Some e'
         \<and> en_active e' = en_allowed e \<and> en_preparedActive e' = (en_allowed e \<and> job_prepared J e)
         \<and> (en_allowed e \<longrightarrow> group_fresh now s' (en_group e)))
     | DomainTarget name \<Rightarrow> group_fresh now s' name)"

lemma wake_effect:
  assumes ok: "parking_ok s" and w: "heap_map (sc_waiting s) (wt_id w) = Some w"
  defines "s1 \<equiv> s\<lparr>sc_waiting := heap_remove compareDue (wt_id w) (sc_waiting s)\<rparr>"
  shows "parking_ok (wake J now w s1)" and "woken J now s (wake J now w s1) w"
    and "job_id key \<noteq> wt_id w \<Longrightarrow>
      jget (sc_objects (wake J now w s1)) key = jget (sc_objects s) key"
    and "group_fresh now s n \<Longrightarrow> group_fresh now (wake J now w s1) n"
proof -
  have p: "parked_ok s (wt_id w) w" using ok w by (simp add: parking_ok_def)
  have s1: "parking_ok s1" unfolding s1_def by (rule parking_remove [OF ok])
  have gone: "heap_map (sc_waiting s1) (wt_id w) = None" using ok by (simp add: s1_def parking_ok_def waiting_remove_map)
  have o1: "sc_objects s1 = sc_objects s" "sc_groups s1 = sc_groups s" by (simp_all add: s1_def)
  have fresh1: "group_fresh now s1 n \<longleftrightarrow> group_fresh now s n" for n by (simp add: group_fresh_def o1)
  have "parking_ok (wake J now w s1) \<and> woken J now s (wake J now w s1) w
     \<and> (job_id key \<noteq> wt_id w \<longrightarrow> jget (sc_objects (wake J now w s1)) key = jget (sc_objects s) key)
     \<and> (group_fresh now s n \<longrightarrow> group_fresh now (wake J now w s1) n)"
  proof (cases "wt_target w")
    case (JobTarget j)
    with p obtain e where e: "wt_id w = job_id j" "jget (sc_objects s) j = Some e" "\<not> en_active e" by (auto simp: parked_ok_def)
    have ke: "en_key e = j" "has_group s (en_group e)" using keys_okD [OF _ e(2)] ok by (auto simp: parking_ok_def)
    have get: "jget (sc_objects s1) (en_key e) = Some e" using e ke by (simp add: o1)
    have wk: "wake J now w s1 = setActive J e (en_allowed e) now s1" by (simp add: wake_def JobTarget o1 e)
    have "parking_ok (setActive J e (en_allowed e) now s1)"
      by (rule parking_setActive [OF s1 get]) (use gone e ke in simp)
    moreover have "en_allowed e \<Longrightarrow> group_fresh now (setActive J e (en_allowed e) now s1) (en_group e)"
      by (rule setActive_fresh) (use ke e(3) in \<open>simp_all add: has_group_def o1\<close>)
    ultimately show ?thesis using setActive_keeps_fresh [OF get] e ke fresh1
      by (auto simp: wk woken_def JobTarget setActive_objects [OF get]) (simp_all add: o1)
  next
    case (DomainTarget name)
    with p have "has_group s1 name" by (simp add: parked_ok_def has_group_def o1)
    then show ?thesis using parking_refreshGroup [OF s1] refreshGroup_keeps_fresh [of now s1 n name] fresh1 [of n]
      by (auto simp: wake_def woken_def DomainTarget o1 refreshGroup_fresh)
  qed
  then show "parking_ok (wake J now w s1)" and "woken J now s (wake J now w s1) w"
    and "job_id key \<noteq> wt_id w \<Longrightarrow>
      jget (sc_objects (wake J now w s1)) key = jget (sc_objects s) key"
    and "group_fresh now s n \<Longrightarrow> group_fresh now (wake J now w s1) n" by simp_all
qed

text \<open>What promotion keeps: entries that are not parked, leaders that are up to date, and keys that are free.\<close>

definition undisturbed :: "rat \<Rightarrow> 'f scheduler \<Rightarrow> 'f scheduler \<Rightarrow> bool" where
  "undisturbed now s s' \<longleftrightarrow> (\<forall>k. heap_map (sc_waiting s) k = None \<longrightarrow> heap_map (sc_waiting s') k = None)
     \<and> (\<forall>key. heap_map (sc_waiting s) (job_id key) = None \<longrightarrow> jget (sc_objects s') key = jget (sc_objects s) key)
     \<and> (\<forall>n. group_fresh now s n \<longrightarrow> group_fresh now s' n)"

lemma woken_later:
  assumes "woken J now s s2 w" and "undisturbed now s2 s'" and "heap_map (sc_waiting s2) (wt_id w) = None"
    and "parked_ok s (wt_id w) w"
  shows "woken J now s s' w"
  using assms by (auto simp: woken_def undisturbed_def parked_ok_def split: wait_target.splits)

lemma promote_loop_promotes:
  "parking_ok s \<Longrightarrow> length (ih_items (sc_waiting s)) \<le> n \<Longrightarrow> s' = promote_loop n J now s \<Longrightarrow>
     parking_ok s' \<and> undisturbed now s s'
     \<and> (\<forall>k w. heap_map (sc_waiting s) k = Some w \<longrightarrow>
          (if wt_due w \<le> now then heap_map (sc_waiting s') k = None \<and> woken J now s s' w
           else heap_map (sc_waiting s') k = Some w))"
proof (induction n arbitrary: s)
  case 0
  then have "heap_map (sc_waiting s) k = None" for k
    using heap_map_iff [of "sc_waiting s" k] by (auto simp: parking_ok_def waiting_ok_def due_order.heap_ok_def)
  with 0 show ?case by (simp add: undisturbed_def)
next
  case (Suc n)
  have wok: "waiting_ok s" using Suc.prems(1) by (simp add: parking_ok_def)
  then have ids: "heap_map (sc_waiting s) k = Some x \<Longrightarrow> wt_id x = k" for k x by (simp add: waiting_ok_def)
  show ?case
  proof (cases "heap_peek (sc_waiting s)")
    case None
    have "heap_map (sc_waiting s) = Map.empty"
      using due_order.heap_peek_least(1) [of "sc_waiting s"] None wok by (simp add: waiting_ok_def)
    with None Suc.prems show ?thesis by (simp add: undisturbed_def)
  next
    case (Some w)
    note top = waiting_top [OF wok Some]
    show ?thesis
    proof (cases "wt_due w \<le> now")
      case False
      have "\<not> wt_due x \<le> now" if "heap_map (sc_waiting s) k = Some x" for k x
      proof -
        have "compareDue w x \<le> 0" using due_order.heap_peek_least(2) [of "sc_waiting s" w] Some wok that
          by (auto simp: waiting_ok_def ran_def)
        with False show ?thesis by (auto simp: compareDue_le)
      qed
      with False Some Suc.prems show ?thesis by (simp add: undisturbed_def)
    next
      case True
      define s1 where "s1 = s\<lparr>sc_waiting := heap_remove compareDue (wt_id w) (sc_waiting s)\<rparr>"
      define s2 where "s2 = wake J now w s1"
      note e = wake_effect [OF Suc.prems(1) top, where J = J and now = now, folded s1_def s2_def]
      have h2: "heap_map (sc_waiting s2) = (heap_map (sc_waiting s))(wt_id w := None)"
        by (simp add: s2_def s1_def waiting_remove_map [OF wok])
      have "length (ih_items (sc_waiting s2)) \<le> n"
        using waiting_shrinks [OF wok top] Suc.prems(2) by (simp add: s2_def s1_def)
      moreover have "s' = promote_loop n J now s2"
        using Suc.prems(3) promote_loop_wake [OF Some True] by (simp add: s2_def s1_def)
      ultimately have ih: "parking_ok s'" "undisturbed now s2 s'"
        "\<And>k x. heap_map (sc_waiting s2) k = Some x \<Longrightarrow>
          (if wt_due x \<le> now then heap_map (sc_waiting s') k = None \<and> woken J now s2 s' x else heap_map (sc_waiting s') k = Some x)"
        using Suc.IH [OF e(1)] by blast+
      have same: "job_id key \<noteq> wt_id w \<Longrightarrow> jget (sc_objects s2) key = jget (sc_objects s) key" for key
        using e(3) by blast
      have und: "undisturbed now s s'"
      proof -
        have "jget (sc_objects s2) key = jget (sc_objects s) key" if "heap_map (sc_waiting s) (job_id key) = None" for key
          by (rule same) (use that top in auto)
        with ih(2) e(4) show ?thesis by (auto simp: undisturbed_def h2)
      qed
      have parked: "heap_map (sc_waiting s) k = Some x \<Longrightarrow> parked_ok s k x" for k x
        using Suc.prems(1) by (simp add: parking_ok_def)
      have "if wt_due x \<le> now then heap_map (sc_waiting s') k = None \<and> woken J now s s' x else heap_map (sc_waiting s') k = Some x"
        if x: "heap_map (sc_waiting s) k = Some x" for k x
      proof (cases "k = wt_id w")
        case eq: True
        with x top have "x = w" by simp
        moreover have "woken J now s s' w"
          by (rule woken_later [OF e(2) ih(2)]) (simp_all add: h2 parked [OF top])
        moreover have "heap_map (sc_waiting s') k = None" using ih(2) eq by (simp add: undisturbed_def h2)
        ultimately show ?thesis using True by simp
      next
        case False
        with x have "heap_map (sc_waiting s2) k = Some x" by (simp add: h2)
        from ih(3) [OF this] have i: "if wt_due x \<le> now then heap_map (sc_waiting s') k = None \<and> woken J now s2 s' x
          else heap_map (sc_waiting s') k = Some x" .
        have "woken J now s s' x" if "woken J now s2 s' x"
          using that parked [OF x] same False by (auto simp: woken_def parked_ok_def split: wait_target.splits)
        with i show ?thesis by (simp split: if_splits)
      qed
      with ih(1) und show ?thesis by blast
    qed
  qed
qed

section \<open>Any use of the scheduler\<close>

datatype 'f sched_op =
    RebuildOp "'f \<Rightarrow> rat" "nat \<Rightarrow> 'f" "nat \<Rightarrow> bool" "sched_item list" js_time
  | SetReadyOp string bool "js_time option" js_time
  | RefreshPreparedOp string js_time
  | SetDomainReadyOp string bool js_time js_time
  | RemoveOp string js_time
  | NextOp js_time bool
  | CommitOp commit_arg
  | ClearOp bool

text \<open>Each operation sees the jobs as they are when it is called.\<close>

fun sched_step :: "('f, 'z) js_float_scheme \<Rightarrow> (nat \<Rightarrow> claim_job) \<times> 'f sched_op \<Rightarrow> 'f scheduler \<Rightarrow> 'f scheduler" where
  "sched_step F (J, RebuildOp val rate ready items now) s = snd (rebuild F val J rate ready items now s)"
| "sched_step F (J, SetReadyOp key ready due now) s = snd (setReady J key ready due now s)"
| "sched_step F (J, RefreshPreparedOp key now) s = snd (refreshPrepared J key now s)"
| "sched_step F (J, SetDomainReadyOp name ready due now) s = snd (setDomainReady name ready due now s)"
| "sched_step F (J, RemoveOp key now) s = snd (sched_remove J key now s)"
| "sched_step F (J, NextOp now allow) s = snd (sched_next J now allow s)"
| "sched_step F (J, CommitOp a) s = snd (sched_commit a s)"
| "sched_step F (J, ClearOp keep) s = sched_clear keep s"

lemma waiting_step: "waiting_ok s \<Longrightarrow> waiting_ok (sched_step F op s)"
proof (induction F op s rule: sched_step.induct)
  case (3 F J key now s)
  then show ?case by (auto simp: refreshPrepared_def split: sum.splits option.splits intro: waiting_okI [OF setActive_waiting])
next
  case (4 F J name ready due now s)
  then show ?case
    by (auto simp: setDomainReady_def Let_def split: sum.splits intro!: waiting_okI [OF same_waiting(1)] waiting_armDomain
        intro: waiting_okI)
next
  case (5 F J key now s)
  show ?case using waiting_setReady [OF 5, of J key False None now]
    by (cases "setReady J key False None now s")
      (auto simp: sched_remove_def split: sum.splits option.splits intro: 5 waiting_okI [OF same_waiting(2)])
next
  case (7 F J a s)
  then show ?case by (auto simp: sched_commit_def split: option.splits intro: waiting_okI)
next
  case (8 F J keep s)
  show ?case by (rule waiting_new) (simp add: sched_clear_def Let_def)
qed (simp_all add: waiting_rebuild waiting_setReady waiting_next)

lemma waiting_run: "waiting_ok s \<Longrightarrow> waiting_ok (fold (sched_step F) ops s)"
  by (induction ops arbitrary: s) (simp_all add: waiting_step)

lemma scheduler_new_waiting: "scheduler_new F minimum = Inr s \<Longrightarrow> waiting_ok s"
  by (rule waiting_new) (auto simp: scheduler_new_def split: sum.splits)

lemma parking_step: "parking_ok s \<Longrightarrow> parking_ok (sched_step F op s)"
proof (induction F op s rule: sched_step.induct)
  case (3 F J key now s)
  show ?case
  proof (cases "deadline now")
    case (Inr n)
    then show ?thesis using 3 live_entry_get [of s key]
      by (auto simp: refreshPrepared_def split: option.splits intro!: parking_setActive)
        (use keys_okD [of s key] active_unparked [OF 3] in \<open>auto simp: parking_ok_def\<close>)
  qed (use 3 in \<open>simp add: refreshPrepared_def\<close>)
next
  case (4 F J name ready due now s)
  have "parking_ok (s\<lparr>sc_domainGates := g\<rparr>)" for g by (rule parking_cong [OF 4]) (simp_all add: has_group_def)
  with 4 show ?case
    by (auto simp: setDomainReady_def Let_def split: sum.splits intro!: parking_refreshGroup parking_armDomain parking_map_group)
next
  case (5 F J key now s)
  obtain r s1 where r: "setReady J key False None now s = (r, s1)" by (cases "setReady J key False None now s")
  with parking_setReady [OF 5, of J key False None now] have s1: "parking_ok s1" by simp
  have "parking_ok (put_entry (e\<lparr>en_job := None\<rparr>) s1)" if e: "live_entry s1 key = Some e" for e
  proof (rule parking_entry [OF s1, where key = key and e = "e\<lparr>en_job := None\<rparr>"])
    note get = live_entry_get [OF e]
    have k: "en_key e = key" "has_group s1 (en_group e)" using keys_okD [OF _ get] s1 by (auto simp: parking_ok_def)
    show "jget (sc_objects (put_entry (e\<lparr>en_job := None\<rparr>) s1)) j = (if j = key then Some (e\<lparr>en_job := None\<rparr>) else jget (sc_objects s1) j)" for j
      by (simp add: put_entry_def k)
    show "en_key (e\<lparr>en_job := None\<rparr>) = key" "has_group s1 (en_group (e\<lparr>en_job := None\<rparr>))" using k by simp_all
    show "en_active (e\<lparr>en_job := None\<rparr>) \<Longrightarrow> heap_map (sc_waiting s1) (job_id key) = None"
      using active_unparked [OF s1 get] by simp
  qed simp_all
  with s1 r 5 show ?case by (auto simp: sched_remove_def split: sum.splits option.splits)
next
  case (6 F J now allow s)
  show ?case
  proof (cases "deadline now")
    case (Inr n)
    have "parking_ok (promote J n s)"
      using promote_loop_promotes [OF 6 order_refl refl] by (simp add: promote_def)
    moreover have "parking_ok (t\<lparr>sc_pending := x, sc_tokens := y\<rparr>)" if "parking_ok t" for t :: "'a scheduler" and x y
      by (rule parking_cong [OF that]) (simp_all add: has_group_def)
    ultimately show ?thesis by (simp add: sched_next_def Inr Let_def split: option.splits)
  qed (use 6 in \<open>simp add: sched_next_def\<close>)
next
  case (7 F J a s)
  have "parking_ok (s\<lparr>sc_committed := x, sc_domainAfter := d, sc_preferReward := b, sc_serial := n, sc_pending := p\<rparr>)" for x d b n p
    by (rule parking_cong [OF 7]) (simp_all add: has_group_def)
  with 7 show ?case by (simp add: sched_commit_def split: option.splits)
next
  case (8 F J keep s)
  show ?case by (rule parking_fresh) (simp_all add: sched_clear_def Let_def keys_ok_def)
qed (simp_all add: parking_rebuild parking_setReady)

lemma parking_run: "parking_ok s \<Longrightarrow> parking_ok (fold (sched_step F) ops s)"
  by (induction ops arbitrary: s) (simp_all add: parking_step)

lemma scheduler_new_parking: "scheduler_new F minimum = Inr s \<Longrightarrow> parking_ok s"
  by (rule parking_fresh) (auto simp: scheduler_new_def keys_ok_def split: sum.splits)


text \<open>A domain with one bounty that is due at 100.\<close>

definition ex_job :: claim_job where
  "ex_job = \<lparr>jb_domain = ''a.example'', jb_txid = ''00ff'', jb_vout = 0, jb_mask = 1, jb_priority = 5000000, jb_rawPriority = 5,
     jb_retired = False, jb_unavailable = False, jb_budgetExceeded = False, jb_winner = False, jb_recoveryProbe = False,
     jb_due = Some (Some 100), jb_probeDue = None, jb_prepared = False\<rparr>"

definition ex_new :: "rat scheduler" where
  "ex_new = (case scheduler_new exact_float 0 of Inr s \<Rightarrow> s | Inl _ \<Rightarrow> undefined)"

definition ex_rebuilt :: "rat scheduler" where
  "ex_rebuilt = fold (sched_step exact_float) [(\<lambda>_. ex_job, RebuildOp id (\<lambda>_. 5) (\<lambda>_. True) [Unkeyed 0] (Some 10))] ex_new"

lemma ex_new: "scheduler_new exact_float 0 = Inr ex_new"
  by code_simp


section \<open>Turns\<close>

lemma same_serial [simp]:
  "sc_serial (refreshGroup name now s) = sc_serial s"
  "sc_serial (put_entry e s) = sc_serial s"
  "sc_serial (map_group name f s) = sc_serial s"
  "sc_serial (armDomain name now s) = sc_serial s"
  "sc_serial (arm_job e now s) = sc_serial s"
  by (simp_all add: refreshGroup_def put_entry_def map_group_def armDomain_def arm_job_def Let_def split: option.splits)

lemma setActive_serial [simp]: "sc_serial (setActive J e active now s) = sc_serial s"
  by (simp add: setActive_def Let_def)

lemma setReady_serial [simp]: "sc_serial (snd (setReady J key ready due now s)) = sc_serial s"
  by (simp add: setReady_def Let_def split: sum.splits option.splits)

lemma place_entry_serial [simp]: "sc_serial (place_entry name now pk s) = sc_serial s"
  by (cases pk) (auto simp: place_entry_def Let_def split: option.splits)

lemma fold_serial: "(\<And>x s. sc_serial (f x s) = sc_serial s) \<Longrightarrow> sc_serial (fold f xs s) = sc_serial s"
  by (induction xs arbitrary: s) simp_all

lemma sched_clear_serial: "sc_serial (sched_clear True s) = sc_serial s"
  by (simp add: sched_clear_def)

lemma rebuild_serial [simp]: "sc_serial (snd (rebuild F val J rate isReady items now s)) = sc_serial s"
proof -
  have g: "sc_serial (rebuild_group now nk s) = sc_serial s" for now nk and s :: "'a scheduler"
    by (cases nk) (simp add: rebuild_group_def Let_def fold_serial)
  have i: "sc_serial (snd (rebuild_item F val J rate isReady now item rates s)) = sc_serial s" for now item rates s
    by (simp add: rebuild_item_def Let_def split: prod.splits sum.splits option.splits)
  have "sc_serial (snd (rebuild_items F val J rate isReady now items rates s)) = sc_serial s" for now items rates s
  proof (induction items arbitrary: rates s)
    case (Cons item items)
    then show ?case using i [of now item rates s]
      by (cases "rebuild_item F val J rate isReady now item rates s") (auto split: sum.splits)
  qed simp
  from this [of _ items "[]" "sched_clear True s"]
  have c: "rebuild_items F val J rate isReady n items [] (sched_clear True s) = (r, s') \<Longrightarrow> sc_serial s' = sc_serial s" for n r s'
    by (metis snd_conv sched_clear_serial)
  show ?thesis by (auto simp: rebuild_def Let_def fold_serial g c split: sum.splits prod.splits dest: c)
qed

lemma promote_loop_serial: "sc_serial (promote_loop n J now s) = sc_serial s"
  by (induction n arbitrary: s) (auto simp: Let_def split: option.splits wait_target.splits)

lemma serial_mono: "sc_serial s \<le> sc_serial (sched_step F op s)"
proof (induction F op s rule: sched_step.induct)
  case (3 F J key now s)
  show ?case by (simp add: refreshPrepared_def split: sum.splits option.splits)
next
  case (4 F J name ready due now s)
  show ?case by (simp add: setDomainReady_def Let_def split: sum.splits)
next
  case (5 F J key now s)
  show ?case using setReady_serial [of J key False None now s]
    by (cases "setReady J key False None now s") (auto simp: sched_remove_def split: sum.splits option.splits)
next
  case (6 F J now allow s)
  show ?case by (simp add: sched_next_def Let_def promote_def promote_loop_serial split: sum.splits option.splits)
next
  case (7 F J a s)
  show ?case by (simp add: sched_commit_def split: option.splits)
next
  case (8 F J keep s)
  show ?case by (simp add: sched_clear_def Let_def)
qed simp_all

lemma serial_run: "sc_serial s \<le> sc_serial (fold (sched_step F) ops s)"
proof (induction ops arbitrary: s)
  case (Cons op ops)
  show ?case using serial_mono [of s F op] Cons [of "sched_step F op s"] by simp
qed simp



end
