(* ===== verification/Js_Value.thy ===== *)
theory Js_Value
  imports Js_Text Js_Map Js_Number
begin

text \<open>
  Values that arrive from outside, as the validators of the wallet discriminate them: what
  \<open>JSON.parse\<close> and structured messages produce. A plain object is its list of own properties; any
  other object (a class instance, an object with accessors, a function) is \<open>VExotic\<close>. A number is an
  integer, the negative zero, or \<open>VFloat\<close>: a number that is not an integer, with its value, or without
  one for the infinities and the number that is none. Texts are lists of characters; a character outside the range of
  \<open>char\<close> is rejected by every check modelled here in the same way as any other character that is not
  ASCII.
\<close>

datatype js_value =
    VUndef
  | VNull
  | VBool bool
  | VInt int
  | VNegZero
  | VFloat "rat option"
  | VStr string
  | VArr "js_value list"
  | VObj "(string \<times> js_value) list"
  | VExotic

text \<open>\<open>value.key\<close> on a plain object; \<open>undefined\<close> when there is no such property.\<close>

definition js_prop :: "js_value \<Rightarrow> string \<Rightarrow> js_value" where
  "js_prop v k = (case v of VObj m \<Rightarrow> (case map_of m k of Some x \<Rightarrow> x | None \<Rightarrow> VUndef) | _ \<Rightarrow> VUndef)"

definition js_own :: "js_value \<Rightarrow> string \<Rightarrow> bool" where
  "js_own v k = (case v of VObj m \<Rightarrow> map_of m k \<noteq> None | _ \<Rightarrow> False)"

text \<open>\<open>plain(value)\<close>, repeated by several files of the source.\<close>

fun js_plain :: "js_value \<Rightarrow> bool" where
  "js_plain (VObj _) = True"
| "js_plain _ = False"

text \<open>The value of \<open>Number.isSafeInteger\<close>, \<open>Number.isInteger\<close>: the integer, if the test succeeds.\<close>

definition js_integer :: "js_value \<Rightarrow> int option" where
  "js_integer v = (case v of VInt n \<Rightarrow> Some n | VNegZero \<Rightarrow> Some 0 | _ \<Rightarrow> None)"

definition js_safe :: "js_value \<Rightarrow> int option" where
  "js_safe v = (case js_integer v of Some n \<Rightarrow> if safe_integer n then Some n else None | None \<Rightarrow> None)"

definition js_nat_in :: "int \<Rightarrow> int \<Rightarrow> js_value \<Rightarrow> bool" where
  "js_nat_in lo hi v = (case js_safe v of Some n \<Rightarrow> lo \<le> n \<and> n \<le> hi | None \<Rightarrow> False)"

abbreviation js_count :: "js_value \<Rightarrow> bool" where
  "js_count v \<equiv> js_nat_in 0 MAX_SAFE_INTEGER v"

text \<open>The number of a value that was checked.\<close>

definition js_num :: "js_value \<Rightarrow> int" where
  "js_num v = (case js_integer v of Some n \<Rightarrow> n | None \<Rightarrow> 0)"

text \<open>\<open>Number.isFinite\<close>: the value of a finite number.\<close>

definition js_finite :: "js_value \<Rightarrow> rat option" where
  "js_finite v = (case v of VInt n \<Rightarrow> Some (of_int n) | VNegZero \<Rightarrow> Some 0 | VFloat q \<Rightarrow> q | _ \<Rightarrow> None)"

text \<open>\<open>===\<close> on numbers does not tell the zeros apart.\<close>

definition js_same :: "js_value \<Rightarrow> js_value \<Rightarrow> bool" where
  "js_same a b = (case (js_integer a, js_integer b) of (Some m, Some n) \<Rightarrow> m = n | (None, None) \<Rightarrow> a = b | _ \<Rightarrow> False)"

text \<open>A hash: 64 lowercase hexadecimal digits.\<close>

definition hash_text :: "string \<Rightarrow> bool" where
  "hash_text s \<longleftrightarrow> length s = 64 \<and> list_all is_lower_hex s"

fun js_hash :: "js_value \<Rightarrow> bool" where
  "js_hash (VStr s) = hash_text s"
| "js_hash _ = False"

fun js_text :: "js_value \<Rightarrow> string" where
  "js_text (VStr s) = s"
| "js_text _ = []"

definition js_nullish :: "js_value \<Rightarrow> bool" where
  "js_nullish v \<longleftrightarrow> v = VUndef \<or> v = VNull"

text \<open>A value that counts as true; the number that is none does not, and infinities do not arise.\<close>

definition js_truthy :: "js_value \<Rightarrow> bool" where
  "js_truthy v \<longleftrightarrow> v \<notin> {VUndef, VNull, VBool False, VInt 0, VNegZero, VStr [], VFloat None}"

text \<open>\<open>{ ...base, ...over }\<close>: the properties of the second object replace those of the first.\<close>

definition js_spread :: "(string \<times> js_value) list \<Rightarrow> (string \<times> js_value) list \<Rightarrow> (string \<times> js_value) list" where
  "js_spread base over = foldl (\<lambda>m (k, v). jset m k v) base over"

definition js_entries :: "js_value \<Rightarrow> (string \<times> js_value) list" where
  "js_entries v = (case v of VObj m \<Rightarrow> m | _ \<Rightarrow> [])"

section \<open>Laws\<close>

lemma js_prop_Obj [simp]: "js_prop (VObj ((k, v) # m)) k' = (if k' = k then v else js_prop (VObj m) k')"
  by (simp add: js_prop_def)

lemma js_prop_Nil [simp]: "js_prop (VObj []) k = VUndef"
  by (simp add: js_prop_def)

lemma js_own_Obj [simp]: "js_own (VObj ((k, v) # m)) k' = (k' = k \<or> js_own (VObj m) k')"
  by (simp add: js_own_def)

lemma js_own_Nil [simp]: "\<not> js_own (VObj []) k"
  by (simp add: js_own_def)

lemma js_integer_simps [simp]:
  "js_integer (VInt n) = Some n" "js_integer VNegZero = Some 0" "js_integer VUndef = None" "js_integer VNull = None"
  "js_integer (VBool b) = None" "js_integer (VFloat q) = None" "js_integer (VStr s) = None" "js_integer (VArr vs) = None"
  "js_integer (VObj m) = None" "js_integer VExotic = None"
  by (simp_all add: js_integer_def)

lemma js_num_simps [simp]: "js_num (VInt n) = n" "js_num VNegZero = 0"
  by (simp_all add: js_num_def)

lemma js_safe_Some: "js_safe v = Some n \<Longrightarrow> js_integer v = Some n \<and> safe_integer n \<and> js_num v = n"
  by (auto simp: js_safe_def js_num_def split: option.splits if_splits)

lemma js_nat_in_num: "js_nat_in lo hi v \<Longrightarrow> lo \<le> js_num v \<and> js_num v \<le> hi \<and> js_integer v = Some (js_num v)"
  by (auto simp: js_nat_in_def split: option.splits dest: js_safe_Some)

lemma js_nat_in_VInt [simp]: "js_nat_in lo hi (VInt n) \<longleftrightarrow> safe_integer n \<and> lo \<le> n \<and> n \<le> hi"
  by (simp add: js_nat_in_def js_safe_def)

lemma js_plain_iff: "js_plain v \<longleftrightarrow> (\<exists>m. v = VObj m)"
  by (cases v) auto

lemma js_hash_iff: "js_hash v \<longleftrightarrow> (\<exists>s. v = VStr s \<and> hash_text s)"
  by (cases v) auto

lemma map_of_js_spread: "wf_jmap over \<Longrightarrow> map_of (js_spread base over) k = (case map_of over k of Some v \<Rightarrow> Some v | None \<Rightarrow> map_of base k)"
proof (induction over arbitrary: base)
  case (Cons e over)
  obtain k' v where e: "e = (k', v)" by (cases e)
  with Cons.prems have "wf_jmap over" "map_of over k' = None" by (auto simp: map_of_eq_None_iff)
  with Cons.IH [of "jset base k' v"] e show ?case by (auto simp: js_spread_def split: option.splits)
qed (simp add: js_spread_def)

lemma lower_char_idem [simp]: "lower_char (lower_char c) = lower_char c"
proof -
  have "(of_char c :: nat) < 256" by simp
  then show ?thesis by (auto simp: lower_char_def Let_def)
qed

lemma lower_str_idem [simp]: "lower_str (lower_str s) = lower_str s"
  by (induction s) (simp_all add: lower_str_def)

end
