(* ===== verification/Config.thy ===== *)
theory Config
  imports Js_Value
begin

text \<open>
  The wallet configuration (\<open>src/src/core/config.mjs\<close>, \<open>src/src/core/connection-limits.mjs\<close>) and the check of
  a chain tip that every answer of the RPC server carries. \<open>isIP\<close> of \<open>node:net\<close> is written out. The
  lemmas show that a validated configuration is complete and in range and validates to itself.
\<close>

definition MAX_CONNECTION_LIMIT :: int where "MAX_CONNECTION_LIMIT = 2147483647"

definition GENESIS :: "string \<Rightarrow> string option" where
  "GENESIS network =
     (if network = ''main'' then Some ''30a3a7543f593b6343873a16aeb61005dce0fe3f4169ab34039316b2a9bb373e''
      else if network = ''testnet4'' then Some ''710dc5910cbef40216bd82ccfb66af2273b2b1d336b034c5794966904cb603bf''
      else if network = ''regtest'' then Some ''53c5145452f6957a2674ab904726afc2d7643c4a4fb9c2beab193ea983e500f0''
      else None)"

datatype config_error =
    BadTheme              \<comment> \<open>Choose System, Light or Dark appearance\<close>
  | BadDeveloperMode      \<comment> \<open>Choose whether Developer Mode should be enabled\<close>
  | NotInRange string     \<comment> \<open>... must be an integer between ... and ...\<close>
  | NotPlainData          \<comment> \<open>Configuration must contain plain data objects\<close>
  | BadRpcHost            \<comment> \<open>Enter an RPC hostname or IP address, without a URL or path\<close>
  | BadConfigVersion      \<comment> \<open>Unsupported configuration version\<close>
  | BadNetwork            \<comment> \<open>Unsupported ConnectCoin network ...\<close>
  | ForeignNetwork        \<comment> \<open>Configuration belongs to a different network than this wallet profile\<close>
  | NotBoolean string     \<comment> \<open>Choose whether ... should be enabled\<close>
  | BadTip                \<comment> \<open>The RPC server returned an unexpected network or invalid chain tip\<close>

definition rpc_object :: "string \<Rightarrow> int \<Rightarrow> js_value" where
  "rpc_object host port = VObj [(''host'', VStr host), (''port'', VInt port)]"

definition default_claims :: "(string \<times> js_value) list" where
  "default_claims = [(''enabled'', VBool False), (''maxConnectionsPerSecond'', VInt 100), (''maxConcurrent'', VInt 100),
     (''lookbackBlocks'', VInt 600)]"

definition DEFAULT_CONFIG :: "(string \<times> js_value) list" where
  "DEFAULT_CONFIG = [(''version'', VInt 1), (''network'', VStr ''main''), (''rpc'', rpc_object ''connectcoin4.com'' 48190),
     (''claims'', VObj default_claims), (''autoLockMinutes'', VInt 0), (''feeRate'', VInt 1500), (''theme'', VStr ''system''),
     (''developerMode'', VBool False)]"

section \<open>Fields\<close>

definition validateTheme :: "js_value \<Rightarrow> config_error + js_value" where
  "validateTheme v = (if v \<in> {VStr ''system'', VStr ''light'', VStr ''dark''} then Inr v else Inl BadTheme)"

definition validateDeveloperMode :: "js_value \<Rightarrow> config_error + js_value" where
  "validateDeveloperMode v = (case v of VBool b \<Rightarrow> Inr v | _ \<Rightarrow> Inl BadDeveloperMode)"

definition config_integer :: "js_value \<Rightarrow> int \<Rightarrow> int \<Rightarrow> string \<Rightarrow> config_error + js_value" where
  "config_integer v lo hi name = (if js_nat_in lo hi v then Inr v else Inl (NotInRange name))"

definition config_boolean :: "js_value \<Rightarrow> string \<Rightarrow> config_error + js_value" where
  "config_boolean v name = (case v of VBool b \<Rightarrow> Inr v | _ \<Rightarrow> Inl (NotBoolean name))"

definition dataObject :: "js_value \<Rightarrow> config_error + js_value" where
  "dataObject v = (if js_plain v then Inr v else Inl NotPlainData)"

section \<open>Host names\<close>

text \<open>\<open>isIP\<close>: four canonical numbers up to 255, or groups of hexadecimal digits with one omission.\<close>

definition is_octet :: "string \<Rightarrow> bool" where
  "is_octet s \<longleftrightarrow> canonical_dec 2 s \<and> dec_val s \<le> 255"

definition is_ipv4 :: "string \<Rightarrow> bool" where
  "is_ipv4 s \<longleftrightarrow> length (js_split (CHR ''.'') s) = 4 \<and> list_all is_octet (js_split (CHR ''.'') s)"

definition is_group :: "string \<Rightarrow> bool" where
  "is_group s \<longleftrightarrow> 1 \<le> length s \<and> length s \<le> 4 \<and> list_all is_hex s"

text \<open>The number of 16-bit groups of colon-separated parts, the last of which may be an IPv4 address.\<close>

fun group_count :: "bool \<Rightarrow> string list \<Rightarrow> nat option" where
  "group_count v4 [] = Some 0"
| "group_count v4 (p # ps) = (if is_group p then map_option Suc (group_count v4 ps)
     else if v4 \<and> ps = [] \<and> is_ipv4 p then Some 2 else None)"

definition side_count :: "bool \<Rightarrow> string \<Rightarrow> nat option" where
  "side_count v4 s = (if s = [] then Some 0 else group_count v4 (js_split (CHR '':'') s))"

text \<open>The parts before and after the first double colon.\<close>

fun split_omission :: "string \<Rightarrow> (string \<times> string) option" where
  "split_omission (a # b # s) = (if a = CHR '':'' \<and> b = CHR '':'' then Some ([], s)
     else (case split_omission (b # s) of None \<Rightarrow> None | Some (l, r) \<Rightarrow> Some (a # l, r)))"
| "split_omission _ = None"

definition is_ipv6 :: "string \<Rightarrow> bool" where
  "is_ipv6 s \<longleftrightarrow> (case split_omission s of
       None \<Rightarrow> group_count True (js_split (CHR '':'') s) = Some 8
     | Some (l, r) \<Rightarrow> (case (side_count False l, side_count True r) of
           (Some m, Some n) \<Rightarrow> m + n \<le> 7 | _ \<Rightarrow> False))"

definition isIP :: "string \<Rightarrow> bool" where
  "isIP s \<longleftrightarrow> is_ipv4 s \<or> is_ipv6 s"

definition is_alnum :: "char \<Rightarrow> bool" where
  "is_alnum c \<longleftrightarrow> (let n = of_char c :: nat in 48 \<le> n \<and> n \<le> 57 \<or> 65 \<le> n \<and> n \<le> 90 \<or> 97 \<le> n \<and> n \<le> 122)"

definition is_label :: "string \<Rightarrow> bool" where
  "is_label s \<longleftrightarrow> 1 \<le> length s \<and> length s \<le> 63 \<and> is_alnum (hd s) \<and> is_alnum (List.last s)
     \<and> list_all (\<lambda>c. is_alnum c \<or> c = CHR ''-'') s"

definition host_syntax :: "string \<Rightarrow> bool" where
  "host_syntax s \<longleftrightarrow> 1 \<le> length s \<and> length s \<le> 253 \<and> list_all is_label (js_split (CHR ''.'') s)"

definition dotted_digits :: "string \<Rightarrow> bool" where
  "dotted_digits s \<longleftrightarrow> length (js_split (CHR ''.'') s) = 4
     \<and> list_all (\<lambda>p. p \<noteq> [] \<and> list_all is_digit p) (js_split (CHR ''.'') s)"

definition valid_host :: "string \<Rightarrow> bool" where
  "valid_host host \<longleftrightarrow> length host \<le> 253 \<and> CHR ''%'' \<notin> set host \<and> (isIP host \<or> \<not> dotted_digits host \<and> host_syntax host)"

definition validateRpcEndpoint :: "js_value \<Rightarrow> config_error + js_value" where
  "validateRpcEndpoint input =
     bindE (dataObject input) (\<lambda>_. case js_prop input ''host'' of
         VStr host \<Rightarrow> if \<not> valid_host host then Inl BadRpcHost
           else bindE (config_integer (js_prop input ''port'') 1 65535 ''RPC port'') (\<lambda>port.
             Inr (VObj [(''host'', VStr (lower_str host)), (''port'', port)]))
       | _ \<Rightarrow> Inl BadRpcHost)"

section \<open>The configuration\<close>

definition own_object :: "js_value \<Rightarrow> string \<Rightarrow> config_error + unit" where
  "own_object input k = (if js_own input k then bindE (dataObject (js_prop input k)) (\<lambda>_. Inr ()) else Inr ())"

definition merge_config :: "string option \<Rightarrow> js_value \<Rightarrow> js_value" where
  "merge_config network input =
     (let selected = (case network of Some n \<Rightarrow> VStr n
            | None \<Rightarrow> if js_nullish (js_prop input ''network'') then VStr ''main'' else js_prop input ''network'');
          rpc_defaults = (if selected = VStr ''main'' then js_entries (rpc_object ''connectcoin4.com'' 48190)
            else js_entries (rpc_object ''127.0.0.1'' 48190))
      in VObj (js_spread (js_spread (js_spread DEFAULT_CONFIG [(''network'', selected)]) (js_entries input))
           [(''rpc'', VObj (js_spread rpc_defaults (js_entries (js_prop input ''rpc'')))),
            (''claims'', VObj (js_spread default_claims (js_entries (js_prop input ''claims''))))]))"

definition check_network :: "bool \<Rightarrow> string option \<Rightarrow> js_value \<Rightarrow> config_error + unit" where
  "check_network allowRegtest network v =
     (if v \<notin> {VStr ''main'', VStr ''testnet4''} \<and> \<not> (allowRegtest \<and> v = VStr ''regtest'') then Inl BadNetwork
      else if network \<noteq> None \<and> v \<noteq> VStr (the network) then Inl ForeignNetwork else Inr ())"

definition validate_claims :: "js_value \<Rightarrow> config_error + js_value" where
  "validate_claims c =
     bindE (config_boolean (js_prop c ''enabled'') ''Automatic Claims'') (\<lambda>enabled.
     bindE (config_integer (js_prop c ''maxConnectionsPerSecond'') 1 MAX_CONNECTION_LIMIT ''Connection starts per second'') (\<lambda>starts.
     bindE (config_integer (js_prop c ''maxConcurrent'') 1 MAX_CONNECTION_LIMIT ''Simultaneous connections'') (\<lambda>concurrent.
     bindE (config_integer (js_prop c ''lookbackBlocks'') 1 600 ''Recent blocks'') (\<lambda>blocks.
       Inr (VObj [(''enabled'', enabled), (''maxConnectionsPerSecond'', starts), (''maxConcurrent'', concurrent),
         (''lookbackBlocks'', blocks)])))))"

definition validateConfig :: "bool \<Rightarrow> string option \<Rightarrow> js_value \<Rightarrow> config_error + js_value" where
  "validateConfig allowRegtest network input =
     bindE (dataObject input) (\<lambda>_. bindE (own_object input ''rpc'') (\<lambda>_. bindE (own_object input ''claims'') (\<lambda>_.
     let merged = merge_config network input in
     if js_integer (js_prop merged ''version'') \<noteq> Some 1 then Inl BadConfigVersion
     else bindE (check_network allowRegtest network (js_prop merged ''network'')) (\<lambda>_.
       bindE (validateTheme (js_prop merged ''theme'')) (\<lambda>theme.
       bindE (validateDeveloperMode (js_prop merged ''developerMode'')) (\<lambda>developer.
       bindE (validateRpcEndpoint (js_prop merged ''rpc'')) (\<lambda>rpc.
       bindE (validate_claims (js_prop merged ''claims'')) (\<lambda>claims.
       bindE (config_integer (js_prop merged ''autoLockMinutes'') 0 60 ''Auto-lock minutes'') (\<lambda>lock.
       bindE (config_integer (js_prop merged ''feeRate'') 1201 100000 ''Fee rate'') (\<lambda>fee.
         Inr (VObj [(''version'', VInt 1), (''network'', js_prop merged ''network''), (''theme'', theme),
           (''developerMode'', developer), (''rpc'', rpc), (''claims'', claims), (''autoLockMinutes'', lock),
           (''feeRate'', fee)])))))))))))"

section \<open>Reading the file\<close>

text \<open>
  The bounded read of \<open>config.json\<close>: the argument is what the file system returns for each read, and a
  read of no bytes is the end of the file. The buffer has 16385 bytes, so a file of more than 16384
  bytes is noticed without reading all of it. \<open>None\<close> is the error \<open>Configuration file is too large\<close>.
\<close>

fun read_chunks :: "bytes list \<Rightarrow> bytes \<Rightarrow> bytes" where
  "read_chunks [] buffer = buffer"
| "read_chunks (chunk # chunks) buffer =
     (if length buffer < 16385
      then (let chunk = take (16385 - length buffer) chunk in
        if chunk = [] then buffer else read_chunks chunks (buffer @ chunk))
      else buffer)"

definition read_config_bytes :: "bytes list \<Rightarrow> bytes option" where
  "read_config_bytes chunks =
     (let buffer = read_chunks chunks [] in if length buffer > 16384 then None else Some buffer)"

section \<open>Chain tips\<close>

text \<open>
  The hash of a tip is tested by a regular expression alone, which converts its argument to a text: an
  array of one text is converted to that text. No other value converts to 64 hexadecimal digits.
\<close>

fun js_coerced :: "js_value \<Rightarrow> string" where
  "js_coerced (VStr s) = s"
| "js_coerced (VArr [v]) = js_coerced v"
| "js_coerced _ = []"

definition validateTip :: "js_value \<Rightarrow> string \<Rightarrow> config_error + js_value" where
  "validateTip tip network = (case GENESIS network of None \<Rightarrow> Inl BadTip | Some genesis \<Rightarrow>
     if \<not> js_plain tip \<or> js_prop tip ''chain'' \<noteq> VStr network \<or> js_prop tip ''genesis_hash'' \<noteq> VStr genesis
        \<or> \<not> js_count (js_prop tip ''height'') \<or> \<not> hash_text (js_coerced (js_prop tip ''hash''))
        \<or> \<not> js_count (js_prop tip ''mediantime'')
        \<or> js_num (js_prop tip ''height'') = 0 \<and> js_prop tip ''hash'' \<noteq> VStr genesis
     then Inl BadTip else Inr tip)"

lemma tip_hash_in_array:
  "validateTip (VObj [(''chain'', VStr ''regtest''), (''genesis_hash'', VStr (the (GENESIS ''regtest''))), (''height'', VInt 7),
      (''hash'', VArr [VStr (the (GENESIS ''main''))]), (''mediantime'', VInt 0)]) ''regtest'' \<noteq> Inl BadTip"
  by (simp add: validateTip_def GENESIS_def hash_text_def is_lower_hex_def safe_integer_def MAX_SAFE_INTEGER_def)

lemma validateTip_Inr:
  assumes "validateTip tip network = Inr t"
  shows "t = tip" and "js_plain tip" and "js_prop tip ''chain'' = VStr network"
    and "js_prop tip ''genesis_hash'' = VStr (the (GENESIS network))"
    and "js_integer (js_prop tip ''height'') = Some (js_num (js_prop tip ''height''))"
    and "0 \<le> js_num (js_prop tip ''height'')"
  using assms js_nat_in_num [of 0 MAX_SAFE_INTEGER "js_prop tip ''height''"]
  by (auto simp: validateTip_def split: option.splits if_splits)

section \<open>A validated configuration validates to itself\<close>

lemma lower_char_eq:
  assumes "\<not> (65 \<le> (of_char d :: nat) \<and> (of_char d :: nat) \<le> 90)" and "\<not> (97 \<le> (of_char d :: nat) \<and> (of_char d :: nat) \<le> 122)"
  shows "lower_char c = d \<longleftrightarrow> c = d"
proof -
  have "(of_char c :: nat) < 256" by simp
  then have "of_char (lower_char c) = (of_char d :: nat) \<longleftrightarrow> of_char c = (of_char d :: nat)"
    using assms by (auto simp: lower_char_def Let_def)
  then show ?thesis by simp
qed

lemma lower_marks [simp]:
  "lower_char c = CHR ''.'' \<longleftrightarrow> c = CHR ''.''" "lower_char c = CHR '':'' \<longleftrightarrow> c = CHR '':''"
  "lower_char c = CHR ''-'' \<longleftrightarrow> c = CHR ''-''" "lower_char c = CHR ''%'' \<longleftrightarrow> c = CHR ''%''"
  by (rule lower_char_eq; simp)+

lemma lower_digit [simp]: "is_digit (lower_char c) = is_digit c"
proof -
  have "(of_char c :: nat) < 256" by simp
  then show ?thesis by (auto simp: is_digit_def lower_char_def Let_def)
qed

lemma lower_alnum [simp]: "is_alnum (lower_char c) = is_alnum c"
proof -
  have "(of_char c :: nat) < 256" by simp
  then show ?thesis by (auto simp: is_alnum_def lower_char_def Let_def)
qed

lemma lower_split:
  "(\<And>c. lower_char c = d \<longleftrightarrow> c = d) \<Longrightarrow> js_split d (lower_str s) = map lower_str (js_split d s)"
  by (induction s) (auto simp: lower_str_def split: list.splits)

lemma lower_digits: "list_all is_digit s \<Longrightarrow> lower_str s = s"
  by (induction s) (auto simp: lower_str_def is_digit_def lower_char_def Let_def)

lemma lower_octet: "is_octet s \<Longrightarrow> lower_str s = s"
  by (auto simp: is_octet_def dest: canonical_dec_digits intro: lower_digits)

lemma lower_octets: "list_all is_octet ps \<Longrightarrow> map lower_str ps = ps"
  by (induction ps) (simp_all add: lower_octet)

lemma lower_ipv4: "is_ipv4 s \<Longrightarrow> is_ipv4 (lower_str s)"
  by (simp add: is_ipv4_def lower_split lower_octets)

lemma lower_hex_digit: "is_hex c \<Longrightarrow> is_hex (lower_char c)"
  by (rule lower_hex_is_hex) (rule lower_char_hex)

lemma lower_group: "is_group s \<Longrightarrow> is_group (lower_str s)"
  using lower_str_hex [of s] by (auto simp: is_group_def list_all_iff)

lemma group_digits: "is_ipv4 s \<Longrightarrow> \<not> is_group s"
proof
  assume v4: "is_ipv4 s" and "is_group s"
  then have "CHR ''.'' \<notin> set s" by (auto simp: is_group_def list_all_iff is_hex_def Let_def)
  then have "js_split (CHR ''.'') s = [s]" by (rule js_split_none)
  with v4 show False by (simp add: is_ipv4_def)
qed

lemma lower_group_count: "group_count v4 ps = Some n \<Longrightarrow> group_count v4 (map lower_str ps) = Some n"
proof (induction v4 ps arbitrary: n rule: group_count.induct)
  case (2 v4 p ps)
  show ?case
  proof (cases "is_group p")
    case True
    with 2 show ?thesis by (auto simp: lower_group)
  next
    case False
    with 2(2) have "is_ipv4 p" "v4" "ps = []" "n = 2" by (auto split: if_splits)
    then show ?thesis using group_digits [OF lower_ipv4] by (simp add: lower_ipv4)
  qed
qed simp

lemma lower_str_Nil: "lower_str s = [] \<longleftrightarrow> s = []"
  by (simp add: lower_str_def)

lemma lower_side_count: "side_count v4 s = Some n \<Longrightarrow> side_count v4 (lower_str s) = Some n"
  by (auto simp: side_count_def lower_split lower_group_count lower_str_Nil split: if_splits)

lemma lower_omission:
  "split_omission (lower_str s) = map_option (\<lambda>(l, r). (lower_str l, lower_str r)) (split_omission s)"
proof (induction s rule: split_omission.induct)
  case (1 a b s)
  then show ?case by (cases "split_omission (b # s)") (auto simp: lower_str_def)
qed (simp_all add: lower_str_def)

lemma lower_ipv6: "is_ipv6 s \<Longrightarrow> is_ipv6 (lower_str s)"
proof (cases "split_omission s")
  case None
  then show "is_ipv6 s \<Longrightarrow> ?thesis" by (simp add: is_ipv6_def lower_omission lower_split lower_group_count)
next
  case (Some lr)
  assume "is_ipv6 s"
  with Some obtain m n where "side_count False (fst lr) = Some m" "side_count True (snd lr) = Some n" "m + n \<le> 7"
    by (auto simp: is_ipv6_def split: option.splits prod.splits)
  with Some show ?thesis by (cases lr) (simp add: is_ipv6_def lower_omission lower_side_count)
qed

lemma lower_label: "is_label s \<Longrightarrow> is_label (lower_str s)"
  by (cases "s = []") (auto simp: is_label_def lower_str_def list_all_iff hd_map last_map)

lemma lower_dotted: "dotted_digits (lower_str s) = dotted_digits s"
proof -
  have "list_all is_digit (lower_str p) = list_all is_digit p" for p
    by (simp add: lower_str_def list_all_iff)
  then show ?thesis by (simp add: dotted_digits_def lower_split list_all_iff) (simp add: lower_str_def)
qed

lemma lower_valid_host: "valid_host h \<Longrightarrow> valid_host (lower_str h)"
proof -
  assume h: "valid_host h"
  have "CHR ''%'' \<notin> set (lower_str h)" using h by (auto simp: valid_host_def lower_str_def dest: sym)
  moreover have "isIP h \<Longrightarrow> isIP (lower_str h)" by (auto simp: isIP_def lower_ipv4 lower_ipv6)
  moreover have "host_syntax h \<Longrightarrow> host_syntax (lower_str h)"
    by (auto simp: host_syntax_def lower_split list_all_iff lower_label)
  ultimately show ?thesis using h by (auto simp: valid_host_def lower_dotted)
qed

definition config_value :: "js_value \<Rightarrow> js_value \<Rightarrow> js_value \<Rightarrow> string \<Rightarrow> js_value \<Rightarrow> js_value list \<Rightarrow> js_value \<Rightarrow> js_value \<Rightarrow> js_value" where
  "config_value network theme developer host port claims lock fee =
     VObj [(''version'', VInt 1), (''network'', network), (''theme'', theme), (''developerMode'', developer),
       (''rpc'', VObj [(''host'', VStr host), (''port'', port)]),
       (''claims'', VObj [(''enabled'', claims ! 0), (''maxConnectionsPerSecond'', claims ! 1), (''maxConcurrent'', claims ! 2),
         (''lookbackBlocks'', claims ! 3)]), (''autoLockMinutes'', lock), (''feeRate'', fee)]"

definition config_fields_ok :: "bool \<Rightarrow> string option \<Rightarrow> js_value \<Rightarrow> js_value \<Rightarrow> js_value \<Rightarrow> string \<Rightarrow> js_value \<Rightarrow> js_value list \<Rightarrow> js_value \<Rightarrow> js_value \<Rightarrow> bool" where
  "config_fields_ok allowRegtest chosen network theme developer host port claims lock fee \<longleftrightarrow>
     (network \<in> {VStr ''main'', VStr ''testnet4''} \<or> allowRegtest \<and> network = VStr ''regtest'')
     \<and> (case chosen of None \<Rightarrow> True | Some n \<Rightarrow> network = VStr n)
     \<and> theme \<in> {VStr ''system'', VStr ''light'', VStr ''dark''} \<and> (\<exists>b. developer = VBool b)
     \<and> valid_host host \<and> lower_str host = host \<and> js_nat_in 1 65535 port
     \<and> (\<exists>b. claims ! 0 = VBool b) \<and> js_nat_in 1 MAX_CONNECTION_LIMIT (claims ! 1) \<and> js_nat_in 1 MAX_CONNECTION_LIMIT (claims ! 2)
     \<and> js_nat_in 1 600 (claims ! 3) \<and> js_nat_in 0 60 lock \<and> js_nat_in 1201 100000 fee"

lemma config_integer_Inr [simp]: "config_integer v lo hi name = Inr w \<longleftrightarrow> w = v \<and> js_nat_in lo hi v"
  by (auto simp: config_integer_def)

lemma config_boolean_Inr [simp]: "config_boolean v name = Inr w \<longleftrightarrow> w = v \<and> (\<exists>b. v = VBool b)"
  by (cases v) (auto simp: config_boolean_def)

lemma validateRpcEndpoint_Inr: "validateRpcEndpoint v = Inr w \<Longrightarrow>
    \<exists>host port. w = VObj [(''host'', VStr host), (''port'', port)] \<and> valid_host host \<and> lower_str host = host \<and> js_nat_in 1 65535 port"
  by (auto simp: validateRpcEndpoint_def lower_valid_host split: js_value.splits if_splits)

lemma validate_claims_Inr: "validate_claims v = Inr w \<Longrightarrow>
    \<exists>c. w = VObj [(''enabled'', c ! 0), (''maxConnectionsPerSecond'', c ! 1), (''maxConcurrent'', c ! 2), (''lookbackBlocks'', c ! 3)]
      \<and> (\<exists>b. c ! 0 = VBool b) \<and> js_nat_in 1 MAX_CONNECTION_LIMIT (c ! 1) \<and> js_nat_in 1 MAX_CONNECTION_LIMIT (c ! 2)
      \<and> js_nat_in 1 600 (c ! 3)"
  by (intro exI [of _ "[js_prop v ''enabled'', js_prop v ''maxConnectionsPerSecond'', js_prop v ''maxConcurrent'', js_prop v ''lookbackBlocks'']"])
    (auto simp: validate_claims_def)

lemma validateConfig_form:
  assumes "validateConfig ar chosen input = Inr c"
  obtains network theme developer host port claims lock fee
  where "c = config_value network theme developer host port claims lock fee"
    and "config_fields_ok ar chosen network theme developer host port claims lock fee"
proof -
  define m where "m = merge_config chosen input"
  from assms obtain rpc claims where
    net: "check_network ar chosen (js_prop m ''network'') = Inr ()"
    and theme: "js_prop m ''theme'' \<in> {VStr ''system'', VStr ''light'', VStr ''dark''}"
    and dev: "\<exists>b. js_prop m ''developerMode'' = VBool b"
    and rpc: "validateRpcEndpoint (js_prop m ''rpc'') = Inr rpc"
    and claims: "validate_claims (js_prop m ''claims'') = Inr claims"
    and nums: "js_nat_in 0 60 (js_prop m ''autoLockMinutes'')" "js_nat_in 1201 100000 (js_prop m ''feeRate'')"
    and c: "c = VObj [(''version'', VInt 1), (''network'', js_prop m ''network''), (''theme'', js_prop m ''theme''),
           (''developerMode'', js_prop m ''developerMode''), (''rpc'', rpc), (''claims'', claims),
           (''autoLockMinutes'', js_prop m ''autoLockMinutes''), (''feeRate'', js_prop m ''feeRate'')]"
    by (auto simp: validateConfig_def Let_def validateTheme_def validateDeveloperMode_def m_def
        split: if_splits js_value.splits)
  from validateRpcEndpoint_Inr [OF rpc] obtain host port where
    r: "rpc = VObj [(''host'', VStr host), (''port'', port)]" "valid_host host" "lower_str host = host" "js_nat_in 1 65535 port" by blast
  from validate_claims_Inr [OF claims] obtain cl where
    k: "claims = VObj [(''enabled'', cl ! 0), (''maxConnectionsPerSecond'', cl ! 1), (''maxConcurrent'', cl ! 2), (''lookbackBlocks'', cl ! 3)]"
      "\<exists>b. cl ! 0 = VBool b" "js_nat_in 1 MAX_CONNECTION_LIMIT (cl ! 1)" "js_nat_in 1 MAX_CONNECTION_LIMIT (cl ! 2)"
      "js_nat_in 1 600 (cl ! 3)" by blast
  show thesis
  proof (rule that)
    show "c = config_value (js_prop m ''network'') (js_prop m ''theme'') (js_prop m ''developerMode'') host port cl
        (js_prop m ''autoLockMinutes'') (js_prop m ''feeRate'')" by (simp add: c config_value_def r k)
    show "config_fields_ok ar chosen (js_prop m ''network'') (js_prop m ''theme'') (js_prop m ''developerMode'') host port cl
        (js_prop m ''autoLockMinutes'') (js_prop m ''feeRate'')"
      unfolding config_fields_ok_def
      using net theme dev r(2-4) k(2-5) nums
      by (cases chosen) (auto simp: check_network_def split: if_splits)
  qed
qed

lemma merge_config_value:
  "merge_config chosen (config_value network theme developer host port claims lock fee)
    = VObj [(''version'', VInt 1), (''network'', network),
        (''rpc'', VObj [(''host'', VStr host), (''port'', port)]),
        (''claims'', VObj [(''enabled'', claims ! 0), (''maxConnectionsPerSecond'', claims ! 1), (''maxConcurrent'', claims ! 2),
          (''lookbackBlocks'', claims ! 3)]),
        (''autoLockMinutes'', lock), (''feeRate'', fee), (''theme'', theme), (''developerMode'', developer)]"
  by (simp add: merge_config_def config_value_def js_spread_def js_entries_def DEFAULT_CONFIG_def default_claims_def rpc_object_def Let_def)

lemma validateConfig_again:
  assumes "config_fields_ok ar chosen network theme developer host port claims lock fee"
  shows "validateConfig ar chosen (config_value network theme developer host port claims lock fee)
    = Inr (config_value network theme developer host port claims lock fee)"
proof -
  have [simp]: "own_object (config_value network theme developer host port claims lock fee) ''rpc'' = Inr ()"
    "own_object (config_value network theme developer host port claims lock fee) ''claims'' = Inr ()"
    "dataObject (config_value network theme developer host port claims lock fee) = Inr (config_value network theme developer host port claims lock fee)"
    by (simp_all add: own_object_def config_value_def dataObject_def)
  have "check_network ar chosen network = Inr ()"
    using assms by (cases chosen) (auto simp: config_fields_ok_def check_network_def)
  moreover have "validateTheme theme = Inr theme" "validateDeveloperMode developer = Inr developer"
    using assms by (auto simp: config_fields_ok_def validateTheme_def validateDeveloperMode_def)
  moreover have "validateRpcEndpoint (VObj [(''host'', VStr host), (''port'', port)]) = Inr (VObj [(''host'', VStr host), (''port'', port)])"
    using assms by (simp add: config_fields_ok_def validateRpcEndpoint_def dataObject_def config_integer_def)
  ultimately show ?thesis using assms
    by (auto simp: validateConfig_def merge_config_value Let_def validate_claims_def config_fields_ok_def config_integer_def config_boolean_def)
      (simp_all add: config_value_def)
qed

text \<open>
  Property C27: a validated configuration is complete, in range and stable. Whatever plain object is read, an
  accepted configuration has exactly the documented fields, with a supported network, which is the one
  of the wallet profile if that is fixed, a host name or address in lower case, and every number within
  its range; and validating the accepted configuration again gives it back unchanged, so that writing
  and reading it is the identity.
\<close>

theorem validated_config_stable:
  assumes "validateConfig allowRegtest chosen input = Inr c"
  shows "validateConfig allowRegtest chosen c = Inr c
     \<and> (\<exists>network theme developer host port claims lock fee.
          c = config_value network theme developer host port claims lock fee
          \<and> config_fields_ok allowRegtest chosen network theme developer host port claims lock fee)"
  using validateConfig_form [OF assms] validateConfig_again by metis

theorem validated_config_stable_witness:
  "\<exists>c. validateConfig False None (VObj []) = Inr c \<and> validateConfig False None c = Inr c"
proof -
  have h: "valid_host ''connectcoin4.com''"
    by (simp add: valid_host_def host_syntax_def dotted_digits_def is_label_def is_alnum_def)
  obtain c where c: "validateConfig False None (VObj []) = Inr c"
    by (simp add: validateConfig_def dataObject_def own_object_def merge_config_def js_spread_def js_entries_def
        js_nullish_def DEFAULT_CONFIG_def default_claims_def rpc_object_def Let_def check_network_def validateTheme_def
        validateDeveloperMode_def validateRpcEndpoint_def h validate_claims_def config_integer_def config_boolean_def
        safe_integer_def MAX_SAFE_INTEGER_def MAX_CONNECTION_LIMIT_def)
  from validated_config_stable [OF c] c show ?thesis by blast
qed

end
