(* ===== verification/Address_Sync.thy ===== *)
theory Address_Sync
  imports Config "HOL-Library.List_Lexorder" "HOL-Library.Char_ord"
begin

text \<open>
  Synchronization of the wallet's addresses with the server (\<open>src/src/core/address-sync.mjs\<close>) and the
  compact status of a claim (\<open>src/src/core/claim-receipt.mjs\<close>). Rows that arrive are validated and
  normalized; the pages of the change journal are applied to a private candidate, which replaces the
  published state only when every batch of addresses has reached the same tip and journal sequence.

  The server and the caller are arguments: \<open>ask n addresses cursor\<close> is the outcome of the request made at
  time \<open>n\<close>, and \<open>alive n\<close> says whether \<open>check()\<close> returns at time \<open>n\<close>; every request and check advances the
  time. Values are not shared in the model, so the copies the code makes before it writes to the rows
  of a candidate have no counterpart. A tip is read into a record once it is validated. \<open>validateTip\<close> also
  accepts a hash that is an array whose text has the form of a hash; \<open>ct_textual\<close> says that it is a text. Such
  arrays are compared by reference, and those of different answers differ.
\<close>

datatype sync_error =
    SyncInvalid            \<comment> \<open>RPC returned an invalid address synchronization response\<close>
  | SyncStale              \<comment> \<open>Address synchronization snapshot must be refreshed\<close>
  | SyncTooLarge           \<comment> \<open>Address synchronization exceeds this release's local resource limit\<close>
  | SyncTip config_error
  | SyncFailed string      \<comment> \<open>a failed request\<close>
  | SyncCancelled          \<comment> \<open>an error of \<open>check()\<close>\<close>

definition MAX_SYNC_MONEY :: int where "MAX_SYNC_MONEY = 1000000000000000000"
definition MAX_ROWS_PER_ADDRESS :: nat where "MAX_ROWS_PER_ADDRESS = 20000"
definition MAX_TOTAL_ROWS :: nat where "MAX_TOTAL_ROWS = 200000"

section \<open>Tips\<close>

record chain_tip =
  ct_chain :: string
  ct_genesis :: string
  ct_height :: int
  ct_hash :: string
  ct_textual :: bool
  ct_mediantime :: int

definition read_tip :: "js_value \<Rightarrow> chain_tip" where
  "read_tip v = \<lparr>ct_chain = js_text (js_prop v ''chain''), ct_genesis = js_text (js_prop v ''genesis_hash''),
     ct_height = js_num (js_prop v ''height''), ct_hash = js_coerced (js_prop v ''hash''),
     ct_textual = (js_prop v ''hash'' = VStr (js_coerced (js_prop v ''hash''))),
     ct_mediantime = js_num (js_prop v ''mediantime'')\<rparr>"

definition sync_tip :: "string \<Rightarrow> js_value \<Rightarrow> sync_error + chain_tip" where
  "sync_tip network v = (case validateTip v network of Inl e \<Rightarrow> Inl (SyncTip e) | Inr t \<Rightarrow> Inr (read_tip t))"

text \<open>The comparison of the tips of two different answers.\<close>

definition sameTip :: "chain_tip \<Rightarrow> chain_tip \<Rightarrow> sync_error + bool" where
  "sameTip l r =
     (if \<not> ct_textual l \<or> \<not> ct_textual r \<or> ct_hash l \<noteq> ct_hash r then Inr False
      else if ct_height l \<noteq> ct_height r \<or> ct_mediantime l \<noteq> ct_mediantime r \<or> ct_chain l \<noteq> ct_chain r
        \<or> ct_genesis l \<noteq> ct_genesis r then Inl SyncInvalid
      else Inr True)"

section \<open>Rows\<close>

text \<open>The pattern \<open>/^-?\d{1,19}$/\<close>.\<close>

definition sync_digits :: "string \<Rightarrow> bool" where
  "sync_digits s \<longleftrightarrow> 1 \<le> length s \<and> length s \<le> 19 \<and> list_all is_digit s"

definition sync_amount :: "js_value \<Rightarrow> int option" where
  "sync_amount v = (case v of
       VStr (c # s) \<Rightarrow> if c = CHR ''-'' then (if sync_digits s then Some (- int (dec_val s)) else None)
         else if sync_digits (c # s) then Some (int (dec_val (c # s))) else None
     | _ \<Rightarrow> None)"

definition sync_money :: "bool \<Rightarrow> js_value \<Rightarrow> sync_error + int" where
  "sync_money signed_value v = (case sync_amount v of None \<Rightarrow> Inl SyncInvalid
     | Some amount \<Rightarrow> if amount > MAX_SYNC_MONEY \<or> amount < (if signed_value then - MAX_SYNC_MONEY else 0)
         then Inl SyncInvalid else Inr amount)"

record sync_row =
  sr_txid :: string
  sr_pending :: bool              \<comment> \<open>status \<open>pending\<close>, otherwise \<open>confirmed\<close>\<close>
  sr_height :: "int option"
  sr_confirmations :: int

record history_row = sync_row +
  hr_hash :: "string option"
  hr_received :: int
  hr_spent :: int
  hr_delta :: int

record utxo_row = sync_row +
  ur_vout :: int
  ur_amount :: int
  ur_coinbase :: bool
  ur_mature :: bool
  ur_spent_by :: "string option"

definition sync_location :: "js_value \<Rightarrow> sync_error + sync_row" where
  "sync_location row =
     (let status = js_prop row ''status''; height = js_prop row ''block_height''; count = js_prop row ''confirmations'' in
      if \<not> js_plain row \<or> \<not> js_hash (js_prop row ''txid'') \<or> status \<notin> {VStr ''pending'', VStr ''confirmed''}
         \<or> \<not> js_count count then Inl SyncInvalid
      else if status = VStr ''pending'' \<and> (height \<noteq> VNull \<or> js_num count \<noteq> 0) then Inl SyncInvalid
      else if status \<noteq> VStr ''pending'' \<and> \<not> js_count height then Inl SyncInvalid
      else Inr \<lparr>sr_txid = js_text (js_prop row ''txid''), sr_pending = (status = VStr ''pending''),
             sr_height = js_integer height, sr_confirmations = js_num count\<rparr>)"

definition syncHistoryRow :: "js_value \<Rightarrow> sync_error + history_row" where
  "syncHistoryRow row = bindE (sync_location row) (\<lambda>l.
     let hash = js_prop row ''block_hash'' in
     if (if sr_pending l then hash \<noteq> VNull else \<not> js_hash hash) then Inl SyncInvalid
     else bindE (sync_money False (js_prop row ''received'')) (\<lambda>received.
       bindE (sync_money False (js_prop row ''spent'')) (\<lambda>spent.
       bindE (sync_money True (js_prop row ''balance_delta'')) (\<lambda>delta.
         if received - spent \<noteq> delta then Inl SyncInvalid
         else Inr \<lparr>sr_txid = sr_txid l, sr_pending = sr_pending l, sr_height = sr_height l,
                sr_confirmations = sr_confirmations l, hr_hash = (if sr_pending l then None else Some (js_text hash)),
                hr_received = received, hr_spent = spent, hr_delta = delta\<rparr>))))"

text \<open>\<open>Number.isInteger\<close> and the range of an unsigned 32-bit number.\<close>

definition js_u32 :: "js_value \<Rightarrow> bool" where
  "js_u32 v = (case js_integer v of Some n \<Rightarrow> 0 \<le> n \<and> n \<le> 0xffffffff | None \<Rightarrow> False)"

fun js_bool :: "js_value \<Rightarrow> bool option" where
  "js_bool (VBool b) = Some b"
| "js_bool _ = None"

definition syncUtxoRow :: "js_value \<Rightarrow> sync_error + utxo_row" where
  "syncUtxoRow row = bindE (sync_location row) (\<lambda>l.
     let vout = js_prop row ''vout''; spent_by = js_prop row ''pending_spent_by'' in
     case (js_bool (js_prop row ''coinbase''), js_bool (js_prop row ''mature'')) of
       (Some coinbase, Some mature) \<Rightarrow>
         if \<not> js_u32 vout \<or> (spent_by \<noteq> VNull \<and> \<not> js_hash spent_by) \<or> (sr_pending l \<and> coinbase) then Inl SyncInvalid
         else bindE (sync_money False (js_prop row ''amount'')) (\<lambda>amount.
           Inr \<lparr>sr_txid = sr_txid l, sr_pending = sr_pending l, sr_height = sr_height l,
              sr_confirmations = sr_confirmations l, ur_vout = js_num vout, ur_amount = amount, ur_coinbase = coinbase,
              ur_mature = mature, ur_spent_by = (if spent_by = VNull then None else Some (js_text spent_by))\<rparr>)
     | _ \<Rightarrow> Inl SyncInvalid)"

definition utxo_key :: "string \<Rightarrow> int \<Rightarrow> string" where
  "utxo_key txid vout = txid @ '':'' @ dec_str (nat vout)"

section \<open>State\<close>

record address_rows =
  ar_history :: "(string, history_row) jmap"
  ar_utxos :: "(string, utxo_row) jmap"

record sync_batch =
  sb_addresses :: "string list"
  sb_cursor :: string
  sb_through :: int
  sb_epoch :: int
  sb_tip :: chain_tip

record sync_state =
  ss_network :: string
  ss_key :: string
  ss_batches :: "sync_batch list"
  ss_addresses :: "(string, address_rows) jmap"
  ss_tip :: "chain_tip option"

definition text_cmp :: "string \<Rightarrow> string \<Rightarrow> int" where
  "text_cmp a b = (if a < b then - 1 else if a > b then 1 else 0)"

definition sorted_set :: "string list \<Rightarrow> string list" where
  "sorted_set addresses = js_sort text_cmp (remdups addresses)"

fun join_lines :: "string list \<Rightarrow> string" where
  "join_lines [] = []"
| "join_lines [s] = s"
| "join_lines (s # ss) = s @ CHR 0x0A # join_lines ss"

definition addressSetKey :: "string list \<Rightarrow> string" where
  "addressSetKey addresses = join_lines (sorted_set addresses)"

text \<open>A validated answer of \<open>getaddresschanges\<close>.\<close>

record sync_page =
  pg_changes :: "js_value list"
  pg_has_more :: bool
  pg_next_cursor :: string
  pg_through :: int
  pg_epoch :: int
  pg_tip :: chain_tip

definition cursor_char :: "char \<Rightarrow> bool" where
  "cursor_char c \<longleftrightarrow> is_alnum c \<or> c \<in> {CHR ''_'', CHR ''.'', CHR ''-''}"

definition sync_cursor :: "js_value \<Rightarrow> bool" where
  "sync_cursor v = (case v of VStr s \<Rightarrow> 1 \<le> length s \<and> length s \<le> 4096 \<and> list_all cursor_char s | _ \<Rightarrow> False)"

definition sync_response :: "string \<Rightarrow> js_value \<Rightarrow> sync_error + sync_page" where
  "sync_response network v =
     (case (js_prop v ''changes'', js_bool (js_prop v ''has_more'')) of
        (VArr changes, Some further) \<Rightarrow>
          if \<not> js_plain v \<or> js_prop v ''unit'' \<noteq> VStr ''connects'' \<or> length changes > 500
             \<or> \<not> sync_cursor (js_prop v ''next_cursor'') \<or> \<not> js_count (js_prop v ''through_sequence'')
             \<or> \<not> js_count (js_prop v ''journal_epoch'') then Inl SyncInvalid
          else bindE (sync_tip network (js_prop v ''tip'')) (\<lambda>tip.
            Inr \<lparr>pg_changes = changes, pg_has_more = further, pg_next_cursor = js_text (js_prop v ''next_cursor''),
              pg_through = js_num (js_prop v ''through_sequence''), pg_epoch = js_num (js_prop v ''journal_epoch''), pg_tip = tip\<rparr>)
      | _ \<Rightarrow> Inl SyncInvalid)"

definition sync_check :: "(nat \<Rightarrow> bool) \<Rightarrow> nat \<Rightarrow> sync_error + nat" where
  "sync_check alive n = (if alive n then Inr (n + 1) else Inl SyncCancelled)"

type_synonym ask = "nat \<Rightarrow> string list \<Rightarrow> string option \<Rightarrow> sync_error + js_value"

text \<open>\<open>check(); const result = response(await rpc.request(...)); check();\<close>\<close>

definition sync_request ::
    "ask \<Rightarrow> (nat \<Rightarrow> bool) \<Rightarrow> string \<Rightarrow> string list \<Rightarrow> string option \<Rightarrow> nat \<Rightarrow> sync_error + sync_page \<times> nat" where
  "sync_request ask alive network addresses cursor n =
     bindE (sync_check alive n) (\<lambda>n. bindE (ask n addresses cursor) (\<lambda>v.
     bindE (sync_response network v) (\<lambda>page. bindE (sync_check alive (n + 1)) (\<lambda>n. Inr (page, n)))))"

section \<open>Beginning a synchronization\<close>

fun begin_batches ::
    "ask \<Rightarrow> (nat \<Rightarrow> bool) \<Rightarrow> nat \<Rightarrow> string list \<Rightarrow> sync_state \<Rightarrow> nat \<Rightarrow> sync_error + sync_state \<times> nat" where
  "begin_batches ask alive 0 addresses state n = Inr (state, n)"
| "begin_batches ask alive (Suc k) addresses state n =
     (if addresses = [] then Inr (state, n)
      else let batch = take 100 addresses in
        bindE (sync_request ask alive (ss_network state) batch None n) (\<lambda>(page, n).
        if pg_changes page \<noteq> [] \<or> pg_has_more page then Inl SyncInvalid
        else bindE (case ss_tip state of None \<Rightarrow> Inr True | Some t \<Rightarrow> sameTip t (pg_tip page)) (\<lambda>_.
          begin_batches ask alive k (drop 100 addresses)
            (state\<lparr>ss_batches := ss_batches state @ [\<lparr>sb_addresses = batch, sb_cursor = pg_next_cursor page,
               sb_through = pg_through page, sb_epoch = pg_epoch page, sb_tip = pg_tip page\<rparr>],
               ss_tip := Some (pg_tip page)\<rparr>) n)))"

definition beginAddressSync ::
    "ask \<Rightarrow> (nat \<Rightarrow> bool) \<Rightarrow> string \<Rightarrow> string list \<Rightarrow> sync_error + sync_state" where
  "beginAddressSync ask alive network addresses =
     (let sorted = sorted_set addresses in
      if sorted = [] \<or> length sorted \<noteq> length addresses then Inl SyncInvalid
      else bindE (begin_batches ask alive (length sorted) sorted
          \<lparr>ss_network = network, ss_key = addressSetKey sorted, ss_batches = [],
            ss_addresses = map (\<lambda>a. (a, \<lparr>ar_history = [], ar_utxos = []\<rparr>)) sorted, ss_tip = None\<rparr> 0)
        (\<lambda>(state, _). Inr state))"

definition rows_size :: "address_rows \<Rightarrow> nat" where
  "rows_size r = length (ar_history r) + length (ar_utxos r)"

definition checkSize :: "sync_state \<Rightarrow> sync_error + unit" where
  "checkSize state =
     (if list_ex (\<lambda>(_, r). length (ar_history r) > MAX_ROWS_PER_ADDRESS \<or> length (ar_utxos r) > MAX_ROWS_PER_ADDRESS) (ss_addresses state)
      then Inl SyncTooLarge
      else if sum_list (map (\<lambda>(_, r). rows_size r) (ss_addresses state)) > MAX_TOTAL_ROWS then Inl SyncTooLarge
      else Inr ())"

definition setAddressBaseline ::
    "string \<Rightarrow> js_value list \<Rightarrow> js_value list \<Rightarrow> sync_state \<Rightarrow> sync_error + sync_state" where
  "setAddressBaseline address history utxos state = (case jget (ss_addresses state) address of
       None \<Rightarrow> Inl SyncInvalid
     | Some rows \<Rightarrow>
         if length history > MAX_ROWS_PER_ADDRESS \<or> length utxos > MAX_ROWS_PER_ADDRESS then Inl SyncInvalid
         else bindE (foldE (\<lambda>raw h. bindE (syncHistoryRow raw) (\<lambda>row. Inr (jset h (sr_txid row) row))) history (ar_history rows)) (\<lambda>h.
           bindE (foldE (\<lambda>raw u. bindE (syncUtxoRow raw) (\<lambda>row. Inr (jset u (utxo_key (sr_txid row) (ur_vout row)) row)))
             utxos (ar_utxos rows)) (\<lambda>u.
           let next_state = state\<lparr>ss_addresses := jset (ss_addresses state) address \<lparr>ar_history = h, ar_utxos = u\<rparr>\<rparr> in
           bindE (checkSize next_state) (\<lambda>_. Inr next_state))))"

section \<open>Applying the journal\<close>

text \<open>What the loops over pages and events change: sequence, event count and the rows of the candidate.\<close>

record sync_progress =
  sp_previous :: int
  sp_events :: nat
  sp_addresses :: "(string, address_rows) jmap"

definition map_rows :: "string \<Rightarrow> (address_rows \<Rightarrow> address_rows) \<Rightarrow> sync_progress \<Rightarrow> sync_progress" where
  "map_rows address f p = (case jget (sp_addresses p) address of None \<Rightarrow> p
     | Some r \<Rightarrow> p\<lparr>sp_addresses := jset (sp_addresses p) address (f r)\<rparr>)"

definition apply_history :: "js_value \<Rightarrow> string \<Rightarrow> sync_progress \<Rightarrow> sync_error + sync_progress" where
  "apply_history event address p =
     (let key = js_text (js_prop event ''txid'') in
      if js_prop event ''action'' = VStr ''remove''
      then if js_prop event ''item'' \<noteq> VUndef then Inl SyncInvalid
        else Inr (map_rows address (\<lambda>r. r\<lparr>ar_history := jdelete (ar_history r) key\<rparr>) p)
      else bindE (syncHistoryRow (js_prop event ''item'')) (\<lambda>item.
        if sr_txid item \<noteq> key then Inl SyncInvalid
        else Inr (map_rows address (\<lambda>r. if jget (ar_history r) key = Some item then r
               else r\<lparr>ar_history := jset (ar_history r) key item\<rparr>) p)))"

definition apply_utxo :: "js_value \<Rightarrow> string \<Rightarrow> sync_progress \<Rightarrow> sync_error + sync_progress" where
  "apply_utxo event address p =
     (let txid = js_text (js_prop event ''txid''); vout = js_prop event ''vout'' in
      if \<not> js_u32 vout then Inl SyncInvalid
      else let key = utxo_key txid (js_num vout) in
        if js_prop event ''action'' = VStr ''remove''
        then if js_prop event ''item'' \<noteq> VUndef then Inl SyncInvalid
          else Inr (map_rows address (\<lambda>r. r\<lparr>ar_utxos := jdelete (ar_utxos r) key\<rparr>) p)
        else bindE (syncUtxoRow (js_prop event ''item'')) (\<lambda>item.
          if sr_txid item \<noteq> txid \<or> ur_vout item \<noteq> js_num vout then Inl SyncInvalid
          else Inr (map_rows address (\<lambda>r. if jget (ar_utxos r) key = Some item then r
                 else r\<lparr>ar_utxos := jset (ar_utxos r) key item\<rparr>) p)))"

definition apply_event :: "string list \<Rightarrow> int \<Rightarrow> js_value \<Rightarrow> sync_progress \<Rightarrow> sync_error + sync_progress" where
  "apply_event allowed through event p =
     (let sequence = js_prop event ''sequence''; address = js_prop event ''address'' in
      if \<not> js_plain event \<or> \<not> js_count sequence \<or> js_num sequence \<le> sp_previous p \<or> js_num sequence > through
         \<or> address \<notin> VStr ` set allowed \<or> js_prop event ''kind'' \<notin> {VStr ''history'', VStr ''utxo''}
         \<or> js_prop event ''action'' \<notin> {VStr ''upsert'', VStr ''remove''} \<or> \<not> js_hash (js_prop event ''txid'')
      then Inl SyncInvalid
      else let p = p\<lparr>sp_previous := js_num sequence, sp_events := sp_events p + 1\<rparr> in
        if sp_events p > 100000 then Inl SyncTooLarge
        else if js_prop event ''kind'' = VStr ''history'' then apply_history event (js_text address) p
        else apply_utxo event (js_text address) p)"

text \<open>One page of a batch: the request, the checks of the answer and the events.\<close>

definition sync_page_step ::
    "ask \<Rightarrow> (nat \<Rightarrow> bool) \<Rightarrow> string \<Rightarrow> string list \<Rightarrow> (chain_tip \<times> int) option \<Rightarrow> sync_batch \<Rightarrow> sync_progress \<Rightarrow> nat
     \<Rightarrow> sync_error + sync_page \<times> sync_progress \<times> nat" where
  "sync_page_step ask alive network cursors frozen batch p n =
     bindE (sync_check alive n) (\<lambda>n.
     if sb_cursor batch \<in> set cursors then Inl SyncInvalid
     else bindE (ask n (sb_addresses batch) (Some (sb_cursor batch))) (\<lambda>v. bindE (sync_response network v) (\<lambda>page.
       bindE (sync_check alive (n + 1)) (\<lambda>n.
       if pg_epoch page \<noteq> sb_epoch batch then Inl SyncStale
       else bindE (sameTip (sb_tip batch) (pg_tip page)) (\<lambda>_.
         bindE (case frozen of None \<Rightarrow> Inr True
            | Some (t, q) \<Rightarrow> bindE (sameTip (pg_tip page) t) (\<lambda>same. Inr (same \<and> pg_through page = q))) (\<lambda>steady.
         if \<not> steady then Inl SyncStale
         else if pg_through page < sb_through batch then Inl SyncInvalid
         else if pg_has_more page \<and> pg_changes page = [] \<or> pg_changes page \<noteq> [] \<and> pg_next_cursor page = sb_cursor batch
         then Inl SyncInvalid
         else bindE (foldE (apply_event (sb_addresses batch) (pg_through page)) (pg_changes page) p) (\<lambda>p.
           Inr (page, p, n))))))))"

text \<open>The pages of one batch; \<open>k\<close> is the number of pages that are still allowed.\<close>

fun sync_pages ::
    "ask \<Rightarrow> (nat \<Rightarrow> bool) \<Rightarrow> string \<Rightarrow> nat \<Rightarrow> string list \<Rightarrow> (chain_tip \<times> int) option \<Rightarrow> sync_batch \<Rightarrow> sync_progress \<Rightarrow> nat
     \<Rightarrow> sync_error + sync_batch \<times> sync_progress \<times> nat" where
  "sync_pages ask alive network 0 cursors frozen batch p n = bindE (sync_check alive n) (\<lambda>_. Inl SyncInvalid)"
| "sync_pages ask alive network (Suc k) cursors frozen batch p n =
     bindE (sync_page_step ask alive network cursors frozen batch p n) (\<lambda>(page, p, n).
       if \<not> pg_has_more page
       then Inr (batch\<lparr>sb_cursor := pg_next_cursor page, sb_tip := pg_tip page, sb_through := pg_through page\<rparr>, p, n)
       else sync_pages ask alive network k (sb_cursor batch # cursors) (Some (pg_tip page, pg_through page))
         (batch\<lparr>sb_cursor := pg_next_cursor page\<rparr>) p n)"

text \<open>One batch of the candidate; the batches are addressed by their positions.\<close>

definition sync_batch_step ::
    "ask \<Rightarrow> (nat \<Rightarrow> bool) \<Rightarrow> nat \<Rightarrow> sync_state \<times> nat \<times> nat \<Rightarrow> sync_error + sync_state \<times> nat \<times> nat" where
  "sync_batch_step ask alive i = (\<lambda>(state, events, n).
     let batch = ss_batches state ! i in
     bindE (sync_pages ask alive (ss_network state) 1000 [] None batch
        \<lparr>sp_previous = sb_through batch, sp_events = events, sp_addresses = ss_addresses state\<rparr> n) (\<lambda>(batch, p, n).
     Inr (state\<lparr>ss_batches := (ss_batches state)[i := batch], ss_addresses := sp_addresses p, ss_tip := Some (sb_tip batch)\<rparr>,
       sp_events p, n)))"

definition differs_from :: "sync_batch \<Rightarrow> sync_batch \<Rightarrow> sync_error + bool" where
  "differs_from latest batch = bindE (sameTip (sb_tip batch) (sb_tip latest)) (\<lambda>same.
     Inr (\<not> same \<or> sb_through batch \<noteq> sb_through latest \<or> sb_epoch batch \<noteq> sb_epoch latest))"

text \<open>The batches that differ from the latest one, which does not differ from itself.\<close>

definition still_pending :: "sync_state \<Rightarrow> nat \<Rightarrow> sync_error + nat list" where
  "still_pending state latest =
     bindE (mapE (\<lambda>i. bindE (if i = latest then Inr False else differs_from (ss_batches state ! latest) (ss_batches state ! i))
         (\<lambda>d. Inr (i, d))) [0..<length (ss_batches state)])
       (\<lambda>ds. Inr (map fst (filter snd ds)))"

text \<open>An update ends with a state, an error, or the candidate that is still catching up.\<close>

datatype sync_result = Synced sync_state | CatchingUp sync_state

fun sync_rounds ::
    "ask \<Rightarrow> (nat \<Rightarrow> bool) \<Rightarrow> nat \<Rightarrow> nat list \<Rightarrow> sync_state \<Rightarrow> nat \<Rightarrow> nat \<Rightarrow> sync_error + sync_result" where
  "sync_rounds ask alive 0 pending state events n = Inr (CatchingUp state)"
| "sync_rounds ask alive (Suc k) pending state events n =
     bindE (foldE (sync_batch_step ask alive) pending (state, events, n)) (\<lambda>(state, events, n).
     bindE (still_pending state (List.last pending)) (\<lambda>rest.
     bindE (checkSize state) (\<lambda>_. bindE (sync_check alive n) (\<lambda>n.
       if rest = [] then Inr (Synced state) else sync_rounds ask alive k rest state events n))))"

definition updateAddressSync :: "ask \<Rightarrow> (nat \<Rightarrow> bool) \<Rightarrow> sync_state \<Rightarrow> sync_error + sync_result" where
  "updateAddressSync ask alive state = sync_rounds ask alive 3 [0..<length (ss_batches state)] state 0 0"

section \<open>Balances\<close>

record account =
  ac_address :: string
  ac_change :: bool
  ac_index :: int

record balance_totals =
  bt_confirmed :: int
  bt_available :: int
  bt_pending :: int
  bt_immature :: int

record snapshot_utxo =
  su_row :: utxo_row
  su_confirmations :: int
  su_mature :: bool
  su_account :: account

record snapshot_history =
  sh_row :: history_row
  sh_confirmations :: int
  sh_net :: int

record sync_snapshot =
  sn_totals :: balance_totals
  sn_history :: "(string, snapshot_history) jmap"
  sn_utxos :: "snapshot_utxo list"
  sn_highestReceive :: int
  sn_highestChange :: int

definition row_confirmations :: "int \<Rightarrow> ('a sync_row_scheme) \<Rightarrow> sync_error + int" where
  "row_confirmations height row =
     (if sr_pending row then Inr 0
      else case sr_height row of None \<Rightarrow> Inl SyncInvalid
        | Some h \<Rightarrow> if h > height then Inl SyncStale else Inr (height - h + 1))"

definition merge_history :: "int \<Rightarrow> history_row \<Rightarrow> sync_snapshot \<Rightarrow> sync_error + sync_snapshot" where
  "merge_history height row s = bindE (row_confirmations height row) (\<lambda>count.
     case jget (sn_history s) (sr_txid row) of
       Some e \<Rightarrow>
         if sr_pending (sh_row e) \<noteq> sr_pending row \<or> sr_height (sh_row e) \<noteq> sr_height row \<or> hr_hash (sh_row e) \<noteq> hr_hash row
         then Inl SyncStale
         else Inr (s\<lparr>sn_history := jset (sn_history s) (sr_txid row)
                (e\<lparr>sh_row := (sh_row e)\<lparr>hr_received := hr_received row, hr_spent := hr_spent row, hr_delta := hr_delta row\<rparr>,
                  sh_confirmations := count, sh_net := sh_net e + hr_delta row\<rparr>)\<rparr>)
     | None \<Rightarrow> Inr (s\<lparr>sn_history := jset (sn_history s) (sr_txid row)
                \<lparr>sh_row = row, sh_confirmations = count, sh_net = hr_delta row\<rparr>\<rparr>))"

definition add_utxo :: "utxo_row \<Rightarrow> bool \<Rightarrow> balance_totals \<Rightarrow> balance_totals" where
  "add_utxo row mature t =
     (if \<not> sr_pending row
      then t\<lparr>bt_confirmed := bt_confirmed t + ur_amount row,
             bt_immature := bt_immature t + (if mature then 0 else ur_amount row),
             bt_available := bt_available t + (if ur_spent_by row = None \<and> mature then ur_amount row else 0),
             bt_pending := bt_pending t - (if ur_spent_by row \<noteq> None then ur_amount row else 0)\<rparr>
      else t\<lparr>bt_pending := bt_pending t + (if ur_spent_by row = None then ur_amount row else 0)\<rparr>)"

definition merge_utxo :: "int \<Rightarrow> account \<Rightarrow> utxo_row \<Rightarrow> sync_snapshot \<Rightarrow> sync_error + sync_snapshot" where
  "merge_utxo height ac row s = bindE (row_confirmations height row) (\<lambda>count.
     let mature = (\<not> ur_coinbase row \<or> count \<ge> 100) in
     Inr (s\<lparr>sn_utxos := sn_utxos s @ [\<lparr>su_row = row, su_confirmations = count, su_mature = mature, su_account = ac\<rparr>],
            sn_totals := add_utxo row mature (sn_totals s)\<rparr>))"

definition merge_account :: "sync_state \<Rightarrow> int \<Rightarrow> account \<Rightarrow> sync_snapshot \<Rightarrow> sync_error + sync_snapshot" where
  "merge_account state height ac s = (case jget (ss_addresses state) (ac_address ac) of
       None \<Rightarrow> Inl SyncInvalid
     | Some rows \<Rightarrow>
         let s = (if ar_history rows = [] then s
                  else if ac_change ac then s\<lparr>sn_highestChange := max (sn_highestChange s) (ac_index ac)\<rparr>
                  else s\<lparr>sn_highestReceive := max (sn_highestReceive s) (ac_index ac)\<rparr>)
         in bindE (foldE (merge_history height) (map snd (ar_history rows)) s)
              (foldE (merge_utxo height ac) (map snd (ar_utxos rows))))"

definition addressSyncSnapshot :: "sync_state \<Rightarrow> account list \<Rightarrow> sync_error + sync_snapshot" where
  "addressSyncSnapshot state accounts =
     foldE (merge_account state (case ss_tip state of Some t \<Rightarrow> ct_height t | None \<Rightarrow> 0)) accounts
       \<lparr>sn_totals = \<lparr>bt_confirmed = 0, bt_available = 0, bt_pending = 0, bt_immature = 0\<rparr>, sn_history = [], sn_utxos = [],
         sn_highestReceive = - 1, sn_highestChange = - 1\<rparr>"

section \<open>The compact status of a claim\<close>

datatype receipt_error =
    ReceiptTip config_error
  | BadReceiptStatus       \<comment> \<open>Invalid compact claim receipt identity or status\<close>
  | UnexpectedReceiptMeta  \<comment> \<open>Unconfirmed claim receipt has confirmation metadata\<close>
  | BadReceiptMeta         \<comment> \<open>Invalid compact claim confirmation metadata\<close>
  | ReceiptConflict        \<comment> \<open>Claim receipt conflicts with the validated chain window\<close>

text \<open>\<open>window\<close> is the list of height and hash of the validated blocks.\<close>

definition validateIndexedClaimStatus ::
    "js_value \<Rightarrow> string \<Rightarrow> string \<Rightarrow> (int \<times> string) list \<Rightarrow> receipt_error + unit" where
  "validateIndexedClaimStatus result txid network window =
     (case validateTip (js_prop result ''tip'') network of Inl e \<Rightarrow> Inl (ReceiptTip e)
      | Inr tip \<Rightarrow>
        let status = js_prop result ''status''; count = js_prop result ''confirmations'';
            height = js_prop result ''block_height''; hash = js_prop result ''block_hash'';
            tip_height = js_num (js_prop tip ''height'') in
        if \<not> js_hash (js_prop result ''txid'') \<or> js_prop result ''txid'' \<noteq> VStr txid
           \<or> status \<notin> {VStr ''pending'', VStr ''confirmed''} \<or> \<not> js_count count then Inl BadReceiptStatus
        else if status = VStr ''pending''
        then (if js_num count \<noteq> 0 \<or> hash \<noteq> VUndef \<or> height \<noteq> VUndef then Inl UnexpectedReceiptMeta else Inr ())
        else if \<not> js_count height \<or> js_num height > tip_height \<or> \<not> js_hash hash
           \<or> js_num count \<noteq> tip_height - js_num height + 1
           \<or> js_num height = 0 \<and> hash \<noteq> js_prop tip ''genesis_hash''
           \<or> js_num height = tip_height \<and> hash \<noteq> js_prop tip ''hash'' then Inl BadReceiptMeta
        else case find (\<lambda>(h, _). h = js_num height) window of
            Some (_, known) \<Rightarrow> if VStr known \<noteq> hash then Inl ReceiptConflict else Inr ()
          | None \<Rightarrow> Inr ())"

end
