(* ===== verification/Sync_Laws.thy ===== *)
theory Sync_Laws
  imports Address_Sync
begin

text \<open>
  Laws of the address synchronization: every state that is reached holds only validated rows under
  their own keys, an update that ends has all batches at one tip and one journal sequence, and the
  balances of a snapshot are the sums over its unspent outputs.
\<close>

lemma if_Inl_eq_Inr: "(if c then Inl e else m) = Inr y \<longleftrightarrow> \<not> c \<and> m = Inr y"
  by simp

section \<open>Valid rows\<close>

definition history_ok :: "string \<times> history_row \<Rightarrow> bool" where
  "history_ok = (\<lambda>(k, r). sr_txid r = k \<and> hash_text k \<and> 0 \<le> hr_received r \<and> hr_received r \<le> MAX_SYNC_MONEY
     \<and> 0 \<le> hr_spent r \<and> hr_spent r \<le> MAX_SYNC_MONEY \<and> hr_delta r = hr_received r - hr_spent r)"

definition utxo_ok :: "string \<times> utxo_row \<Rightarrow> bool" where
  "utxo_ok = (\<lambda>(k, r). k = utxo_key (sr_txid r) (ur_vout r) \<and> hash_text (sr_txid r) \<and> 0 \<le> ur_amount r
     \<and> ur_amount r \<le> MAX_SYNC_MONEY \<and> (sr_pending r \<longrightarrow> \<not> ur_coinbase r))"

definition address_ok :: "address_rows \<Rightarrow> bool" where
  "address_ok r \<longleftrightarrow> wf_jmap (ar_history r) \<and> wf_jmap (ar_utxos r)
     \<and> (\<forall>e\<in>set (ar_history r). history_ok e) \<and> (\<forall>e\<in>set (ar_utxos r). utxo_ok e)"

definition rows_ok :: "(string, address_rows) jmap \<Rightarrow> bool" where
  "rows_ok m \<longleftrightarrow> wf_jmap m \<and> (\<forall>e\<in>set m. address_ok (snd e))"

lemma address_ok_delete:
  "address_ok r \<Longrightarrow> address_ok (r\<lparr>ar_history := jdelete (ar_history r) k\<rparr>)"
  "address_ok r \<Longrightarrow> address_ok (r\<lparr>ar_utxos := jdelete (ar_utxos r) k\<rparr>)"
  using ball_jdelete [of "ar_history r" history_ok k] ball_jdelete [of "ar_utxos r" utxo_ok k]
  by (simp_all add: address_ok_def)

lemma address_ok_set:
  "address_ok r \<Longrightarrow> history_ok (k, h) \<Longrightarrow> address_ok (r\<lparr>ar_history := jset (ar_history r) k h\<rparr>)"
  "address_ok r \<Longrightarrow> utxo_ok (k, u) \<Longrightarrow> address_ok (r\<lparr>ar_utxos := jset (ar_utxos r) k u\<rparr>)"
  using ball_jset [of "ar_history r" history_ok k h] ball_jset [of "ar_utxos r" utxo_ok k u]
  by (simp_all add: address_ok_def)

lemma sync_money_range: "sync_money False v = Inr n \<Longrightarrow> 0 \<le> n \<and> n \<le> MAX_SYNC_MONEY"
  by (auto simp: sync_money_def split: option.splits if_splits)

lemma sync_location_Inr: "sync_location row = Inr l \<Longrightarrow> hash_text (sr_txid l)"
  by (auto simp: sync_location_def Let_def js_hash_iff split: if_splits)

lemma syncHistoryRow_ok: "syncHistoryRow v = Inr r \<Longrightarrow> history_ok (sr_txid r, r)"
  by (auto simp: syncHistoryRow_def Let_def history_ok_def dest: sync_money_range sync_location_Inr split: if_splits)

lemma syncUtxoRow_ok:
  assumes "syncUtxoRow v = Inr r"
  shows "utxo_ok (utxo_key (sr_txid r) (ur_vout r), r)"
proof -
  from assms obtain l coinbase mature amount where l: "sync_location v = Inr l" "\<not> (sr_pending l \<and> coinbase)"
    "sync_money False (js_prop v ''amount'') = Inr amount" "sr_txid r = sr_txid l" "sr_pending r = sr_pending l"
    "ur_coinbase r = coinbase" "ur_amount r = amount"
    by (cases "js_bool (js_prop v ''coinbase'')"; cases "js_bool (js_prop v ''mature'')")
      (auto simp: syncUtxoRow_def Let_def if_Inl_eq_Inr simp del: if_split)
  with sync_location_Inr [OF l(1)] sync_money_range [OF l(3)] show ?thesis by (auto simp: utxo_ok_def)
qed

lemma rows_ok_jset: "rows_ok m \<Longrightarrow> address_ok r \<Longrightarrow> rows_ok (jset m a r)"
  using ball_jset [of m "\<lambda>e. address_ok (snd e)" a r] by (simp add: rows_ok_def)

lemma rows_ok_get: "rows_ok m \<Longrightarrow> jget m a = Some r \<Longrightarrow> address_ok r"
  using jget_in_set [of m a r] by (force simp: rows_ok_def)

lemma map_rows_ok:
  assumes "rows_ok (sp_addresses p)" and "\<And>r. address_ok r \<Longrightarrow> address_ok (f r)"
  shows "rows_ok (sp_addresses (map_rows a f p))"
  using assms by (auto simp: map_rows_def intro!: rows_ok_jset split: option.splits dest: rows_ok_get)

lemma apply_history_ok:
  assumes "rows_ok (sp_addresses p)" and "apply_history event a p = Inr p'"
  shows "rows_ok (sp_addresses p')"
  using assms(2) unfolding apply_history_def Let_def
  by (auto split: if_splits intro!: map_rows_ok [OF assms(1)] address_ok_delete address_ok_set dest!: syncHistoryRow_ok)

lemma apply_utxo_ok:
  assumes "rows_ok (sp_addresses p)" and "apply_utxo event a p = Inr p'"
  shows "rows_ok (sp_addresses p')"
  using assms(2) unfolding apply_utxo_def Let_def
  by (auto split: if_splits intro!: map_rows_ok [OF assms(1)] address_ok_delete address_ok_set dest!: syncUtxoRow_ok)

lemma apply_event_ok: "rows_ok (sp_addresses p) \<Longrightarrow> apply_event allowed through event p = Inr p' \<Longrightarrow> rows_ok (sp_addresses p')"
  by (auto simp: apply_event_def Let_def split: if_splits elim!: apply_history_ok [rotated] apply_utxo_ok [rotated])

lemma foldE_invariant:
  assumes "\<And>x s s'. x \<in> set xs \<Longrightarrow> P s \<Longrightarrow> f x s = Inr s' \<Longrightarrow> P s'"
  shows "P s \<Longrightarrow> foldE f xs s = Inr s' \<Longrightarrow> P s'"
  using assms
proof (induction xs arbitrary: s)
  case (Cons x xs)
  from Cons.prems(2) obtain s1 where s1: "f x s = Inr s1" "foldE f xs s1 = Inr s'" by auto
  show ?case by (rule Cons.IH [OF Cons.prems(3) [OF _ Cons.prems(1) s1(1)] s1(2)]) (use Cons.prems(3) in auto)
qed simp

lemma sync_page_step_ok:
  assumes "rows_ok (sp_addresses p)" and "sync_page_step ask alive network cursors frozen batch p n = Inr (page, p', n')"
  shows "rows_ok (sp_addresses p')"
proof -
  from assms(2) have "\<exists>through events. foldE (apply_event (sb_addresses batch) through) events p = Inr p'"
    by (auto simp: sync_page_step_def if_Inl_eq_Inr simp del: foldE.simps)
  then obtain through events where p': "foldE (apply_event (sb_addresses batch) through) events p = Inr p'" by blast
  show ?thesis
    by (rule foldE_invariant [where P = "\<lambda>p. rows_ok (sp_addresses p)", OF _ assms(1) p']) (rule apply_event_ok)
qed

lemma sync_pages_ok:
  "rows_ok (sp_addresses p) \<Longrightarrow> sync_pages ask alive network k cursors frozen batch p n = Inr (batch', p', n') \<Longrightarrow>
     rows_ok (sp_addresses p') \<and> sb_addresses batch' = sb_addresses batch \<and> sb_epoch batch' = sb_epoch batch"
proof (induction k arbitrary: cursors frozen batch p n)
  case (Suc k)
  then obtain page p1 n1 where "sync_page_step ask alive network cursors frozen batch p n = Inr (page, p1, n1)" by auto
  with Suc sync_page_step_ok [OF Suc.prems(1) this] show ?case by (auto split: if_splits)
qed auto

definition sync_ok :: "sync_state \<Rightarrow> bool" where
  "sync_ok s \<longleftrightarrow> rows_ok (ss_addresses s) \<and> ss_batches s \<noteq> []"

lemma sync_batch_step_ok:
  assumes "i < length (ss_batches s)" and "sync_ok s" and "sync_batch_step ask alive i (s, e, n) = Inr (s', e', n')"
  shows "sync_ok s' \<and> length (ss_batches s') = length (ss_batches s) \<and> ss_tip s' = Some (sb_tip (ss_batches s' ! i))
     \<and> map sb_addresses (ss_batches s') = map sb_addresses (ss_batches s)"
proof -
  from assms(3) obtain batch p where b: "sync_pages ask alive (ss_network s) 1000 [] None (ss_batches s ! i)
        \<lparr>sp_previous = sb_through (ss_batches s ! i), sp_events = e, sp_addresses = ss_addresses s\<rparr> n = Inr (batch, p, n')"
    and s': "s' = s\<lparr>ss_batches := (ss_batches s)[i := batch], ss_addresses := sp_addresses p, ss_tip := Some (sb_tip batch)\<rparr>"
    by (auto simp: sync_batch_step_def Let_def simp del: sync_pages.simps)
  from sync_pages_ok [OF _ b] assms(2) have "rows_ok (sp_addresses p)" "sb_addresses batch = sb_addresses (ss_batches s ! i)"
    by (simp_all add: sync_ok_def)
  with assms(1,2) show ?thesis by (simp add: s' sync_ok_def map_update list_update_same_conv)
qed

lemma sync_steps_ok:
  "\<forall>i\<in>set is'. i < length (ss_batches s) \<Longrightarrow> sync_ok s \<Longrightarrow> foldE (sync_batch_step ask alive) is' (s, e, n) = Inr (s', e', n') \<Longrightarrow>
     sync_ok s' \<and> length (ss_batches s') = length (ss_batches s) \<and> map sb_addresses (ss_batches s') = map sb_addresses (ss_batches s)
     \<and> (is' \<noteq> [] \<longrightarrow> ss_tip s' = Some (sb_tip (ss_batches s' ! List.last is')))"
proof (induction is' arbitrary: s e n)
  case (Cons i is')
  from Cons.prems(3) obtain s1 e1 n1 where s1: "sync_batch_step ask alive i (s, e, n) = Inr (s1, e1, n1)"
    and rest: "foldE (sync_batch_step ask alive) is' (s1, e1, n1) = Inr (s', e', n')" by auto
  have ok: "sync_ok s1 \<and> length (ss_batches s1) = length (ss_batches s) \<and> ss_tip s1 = Some (sb_tip (ss_batches s1 ! i))
     \<and> map sb_addresses (ss_batches s1) = map sb_addresses (ss_batches s)"
    using sync_batch_step_ok [OF _ Cons.prems(2) s1] Cons.prems(1) by simp
  show ?case
  proof (cases "is' = []")
    case True
    with rest ok show ?thesis by simp
  next
    case False
    with Cons.IH [OF _ _ rest] ok Cons.prems(1) show ?thesis by simp
  qed
qed simp

section \<open>An update that ends\<close>

lemma sameTip_True: "sameTip l r = Inr True \<Longrightarrow> l = r"
  by (auto simp: sameTip_def split: if_splits intro: chain_tip.equality)

lemma still_pending_Inr:
  assumes "still_pending s j = Inr rest"
  shows "\<forall>i\<in>set rest. i < length (ss_batches s)"
    and "rest = [] \<Longrightarrow> b \<in> set (ss_batches s) \<Longrightarrow> sb_tip b = sb_tip (ss_batches s ! j)
      \<and> sb_through b = sb_through (ss_batches s ! j) \<and> sb_epoch b = sb_epoch (ss_batches s ! j)"
proof -
  let ?d = "\<lambda>i. if i = j then Inr False else differs_from (ss_batches s ! j) (ss_batches s ! i)"
  from assms obtain ds where ds: "mapE (\<lambda>i. bindE (?d i) (\<lambda>d. Inr (i, d))) [0..<length (ss_batches s)] = Inr ds"
    and rest: "rest = map fst (filter snd ds)" by (auto simp: still_pending_def)
  from ds have all: "list_all2 (\<lambda>i d. fst d = i \<and> ?d i = Inr (snd d)) [0..<length (ss_batches s)] ds"
    unfolding mapE_Inr_iff by (rule list_all2_mono) (auto split: if_splits)
  then have len: "length ds = length (ss_batches s)" by (auto dest: list_all2_lengthD)
  have nth: "fst (ds ! i) = i \<and> ?d i = Inr (snd (ds ! i))" if "i < length ds" for i
    using list_all2_nthD2 [OF all that] that len by (auto split: if_splits)
  show "\<forall>i\<in>set rest. i < length (ss_batches s)"
  proof
    fix i assume "i \<in> set rest"
    then obtain d where "d \<in> set ds" "i = fst d" by (auto simp: rest)
    then obtain k where "k < length ds" "i = fst (ds ! k)" by (auto simp: in_set_conv_nth)
    with nth len show "i < length (ss_batches s)" by simp
  qed
  assume "rest = []" and "b \<in> set (ss_batches s)"
  then obtain i where i: "i < length (ss_batches s)" "b = ss_batches s ! i" by (auto simp: in_set_conv_nth)
  have "\<not> snd (ds ! i)" using \<open>rest = []\<close> i(1) len by (auto simp: rest filter_empty_conv)
  with nth [of i] i len have "i = j \<or> differs_from (ss_batches s ! j) b = Inr False" by (auto split: if_splits)
  then show "sb_tip b = sb_tip (ss_batches s ! j) \<and> sb_through b = sb_through (ss_batches s ! j) \<and> sb_epoch b = sb_epoch (ss_batches s ! j)"
    using i(2) by (auto simp: differs_from_def dest: sameTip_True)
qed

definition coherent :: "sync_state \<Rightarrow> bool" where
  "coherent s \<longleftrightarrow> (\<exists>tip through epoch. ss_tip s = Some tip
     \<and> (\<forall>b\<in>set (ss_batches s). sb_tip b = tip \<and> sb_through b = through \<and> sb_epoch b = epoch))"

lemma sync_rounds_ok:
  assumes "sync_rounds ask alive k pending s e n = Inr r" and "sync_ok s"
    and "pending \<noteq> []" and "\<forall>i\<in>set pending. i < length (ss_batches s)"
  shows "case r of Synced s' \<Rightarrow> sync_ok s' \<and> coherent s' \<and> checkSize s' = Inr () \<and> map sb_addresses (ss_batches s') = map sb_addresses (ss_batches s)
    | CatchingUp s' \<Rightarrow> sync_ok s' \<and> map sb_addresses (ss_batches s') = map sb_addresses (ss_batches s)"
  using assms
proof (induction k arbitrary: pending s e n)
  case 0
  then show ?case by auto
next
  case (Suc k)
  from Suc.prems(1) obtain s1 e1 n1 rest n2 where
    f: "foldE (sync_batch_step ask alive) pending (s, e, n) = Inr (s1, e1, n1)"
    and rest: "still_pending s1 (List.last pending) = Inr rest"
    and sz: "checkSize s1 = Inr ()"
    and r: "(if rest = [] then Inr (Synced s1) else sync_rounds ask alive k rest s1 e1 n2) = Inr r"
    by auto
  note ok = sync_steps_ok [OF Suc.prems(4,2) f]
  show ?case
  proof (cases "rest = []")
    case True
    have "coherent s1" unfolding coherent_def
      using still_pending_Inr(2) [OF rest True] ok Suc.prems(3) by blast
    with True r ok sz show ?thesis by auto
  next
    case False
    with r have "sync_rounds ask alive k rest s1 e1 n2 = Inr r" by simp
    from Suc.IH [OF this _ False still_pending_Inr(1) [OF rest]] ok show ?thesis by (auto split: sync_result.splits)
  qed
qed

section \<open>Which addresses\<close>

text \<open>The state holds rows for the addresses of its batches, in their order.\<close>

definition rows_cover :: "sync_state \<Rightarrow> bool" where
  "rows_cover s \<longleftrightarrow> jkeys (ss_addresses s) = concat (map sb_addresses (ss_batches s))"

lemma jkeys_jset_same: "jget m k \<noteq> None \<Longrightarrow> jkeys (jset m k v) = jkeys m"
  by (simp add: jkeys_jset not_in_jkeys_iff [symmetric])

lemma map_rows_keys: "jkeys (sp_addresses (map_rows a f p)) = jkeys (sp_addresses p)"
  by (cases "jget (sp_addresses p) a") (simp_all add: map_rows_def jkeys_jset_same)

lemma apply_event_keys: "apply_event allowed through event p = Inr p' \<Longrightarrow> jkeys (sp_addresses p') = jkeys (sp_addresses p)"
  unfolding apply_event_def apply_history_def apply_utxo_def Let_def
  by (auto simp: map_rows_keys split: if_splits)

lemma sync_page_step_keys:
  assumes "sync_page_step ask alive network cursors frozen batch p n = Inr (page, p', n')"
  shows "jkeys (sp_addresses p') = jkeys (sp_addresses p)"
proof -
  from assms obtain through events where p': "foldE (apply_event (sb_addresses batch) through) events p = Inr p'"
    by (auto simp: sync_page_step_def if_Inl_eq_Inr simp del: foldE.simps)
  show ?thesis
    by (rule foldE_invariant [where P = "\<lambda>q. jkeys (sp_addresses q) = jkeys (sp_addresses p)", OF _ refl p'])
      (simp add: apply_event_keys)
qed

lemma sync_pages_keys:
  "sync_pages ask alive network k cursors frozen batch p n = Inr (batch', p', n') \<Longrightarrow> jkeys (sp_addresses p') = jkeys (sp_addresses p)"
proof (induction k arbitrary: cursors frozen batch p n)
  case (Suc k)
  then obtain page p1 n1 where "sync_page_step ask alive network cursors frozen batch p n = Inr (page, p1, n1)" by auto
  with Suc sync_page_step_keys [OF this] show ?case by (auto split: if_splits)
qed auto

lemma sync_steps_keys:
  "foldE (sync_batch_step ask alive) is' (s, e, n) = Inr (s', e', n') \<Longrightarrow> jkeys (ss_addresses s') = jkeys (ss_addresses s)"
proof (induction is' arbitrary: s e n)
  case (Cons i is')
  from Cons.prems obtain s1 e1 n1 where s1: "sync_batch_step ask alive i (s, e, n) = Inr (s1, e1, n1)"
    and rest: "foldE (sync_batch_step ask alive) is' (s1, e1, n1) = Inr (s', e', n')" by auto
  from s1 have "jkeys (ss_addresses s1) = jkeys (ss_addresses s)"
    by (auto simp: sync_batch_step_def Let_def simp del: sync_pages.simps dest!: sync_pages_keys)
  with Cons.IH [OF rest] show ?case by simp
qed simp

lemma sync_rounds_keys:
  assumes "sync_rounds ask alive k pending s e n = Inr r"
  shows "case r of Synced s' \<Rightarrow> jkeys (ss_addresses s') = jkeys (ss_addresses s)
    | CatchingUp s' \<Rightarrow> jkeys (ss_addresses s') = jkeys (ss_addresses s)"
  using assms
proof (induction k arbitrary: pending s e n)
  case (Suc k)
  from Suc.prems obtain s1 e1 n1 rest n2 where f: "foldE (sync_batch_step ask alive) pending (s, e, n) = Inr (s1, e1, n1)"
    and r: "(if rest = [] then Inr (Synced s1) else sync_rounds ask alive k rest s1 e1 n2) = Inr r" by auto
  have ks: "jkeys (ss_addresses s1) = jkeys (ss_addresses s)" by (rule sync_steps_keys [OF f])
  show ?case
  proof (cases "rest = []")
    case False
    with r have "sync_rounds ask alive k rest s1 e1 n2 = Inr r" by simp
    from Suc.IH [OF this] ks show ?thesis by (simp split: sync_result.splits)
  qed (use r ks in auto)
qed auto

text \<open>The states a wallet works with: a new synchronization, baselines, and updates, finished or not.\<close>

inductive sync_reach :: "string list \<Rightarrow> sync_state \<Rightarrow> bool" for addresses where
  begin_sync: "beginAddressSync ask alive network addresses = Inr s \<Longrightarrow> sync_reach addresses s"
| baseline: "sync_reach addresses s \<Longrightarrow> setAddressBaseline a history utxos s = Inr s' \<Longrightarrow> sync_reach addresses s'"
| update: "sync_reach addresses s \<Longrightarrow> updateAddressSync ask alive s = Inr (Synced s') \<Longrightarrow> sync_reach addresses s'"
| catch_up: "sync_reach addresses s \<Longrightarrow> updateAddressSync ask alive s = Inr (CatchingUp s') \<Longrightarrow> sync_reach addresses s'"

lemma begin_batches_ok:
  "begin_batches ask alive k addresses s n = Inr (s', n') \<Longrightarrow>
     ss_addresses s' = ss_addresses s \<and> (ss_batches s \<noteq> [] \<or> 0 < k \<and> addresses \<noteq> [] \<longrightarrow> ss_batches s' \<noteq> [])
     \<and> (length addresses \<le> k \<longrightarrow> concat (map sb_addresses (ss_batches s')) = concat (map sb_addresses (ss_batches s)) @ addresses)"
proof (induction k arbitrary: addresses s n)
  case (Suc k)
  show ?case
  proof (cases "addresses = []")
    case False
    with Suc.prems obtain page n1 where
      r: "sync_request ask alive (ss_network s) (take 100 addresses) None n = Inr (page, n1)"
      by (auto simp: Let_def)
    with Suc.prems False have
      "begin_batches ask alive k (drop 100 addresses) (s\<lparr>ss_batches := ss_batches s @ [\<lparr>sb_addresses = take 100 addresses, sb_cursor = pg_next_cursor page,
               sb_through = pg_through page, sb_epoch = pg_epoch page, sb_tip = pg_tip page\<rparr>],
               ss_tip := Some (pg_tip page)\<rparr>) n1 = Inr (s', n')"
      by (auto simp: Let_def if_Inl_eq_Inr)
    from Suc.IH [OF this] False show ?thesis by auto
  qed (use Suc.prems in auto)
qed auto

lemma set_sorted_set: "set (sorted_set xs) = set xs"
  by (simp add: sorted_set_def)

lemma distinct_sorted_set: "distinct (sorted_set xs)"
  by (simp add: sorted_set_def)

lemma begin_ok:
  assumes "beginAddressSync ask alive network addresses = Inr s"
  shows "sync_ok s \<and> rows_cover s \<and> jkeys (ss_addresses s) = sorted_set addresses"
proof -
  define sorted where "sorted = sorted_set addresses"
  from assms obtain n where ne: "sorted \<noteq> []"
    and b: "begin_batches ask alive (length sorted) sorted
          \<lparr>ss_network = network, ss_key = addressSetKey sorted, ss_batches = [],
            ss_addresses = map (\<lambda>a. (a, \<lparr>ar_history = [], ar_utxos = []\<rparr>)) sorted, ss_tip = None\<rparr> 0 = Inr (s, n)"
    by (auto simp: beginAddressSync_def Let_def sorted_def [symmetric] split: if_splits)
  have "rows_ok (map (\<lambda>a. (a, \<lparr>ar_history = [], ar_utxos = []\<rparr>)) sorted)"
    using distinct_sorted_set [of addresses] by (auto simp: rows_ok_def wf_jmap_def sorted_def comp_def address_ok_def)
  with begin_batches_ok [OF b] ne show ?thesis by (simp add: sync_ok_def rows_cover_def sorted_def comp_def)
qed

lemma baseline_ok:
  assumes "sync_ok s" and "setAddressBaseline a history utxos s = Inr s'"
  shows "sync_ok s'"
proof -
  from assms(2) obtain rows h u where rows: "jget (ss_addresses s) a = Some rows"
    and h: "foldE (\<lambda>raw h. bindE (syncHistoryRow raw) (\<lambda>row. Inr (jset h (sr_txid row) row))) history (ar_history rows) = Inr h"
    and u: "foldE (\<lambda>raw u. bindE (syncUtxoRow raw) (\<lambda>row. Inr (jset u (utxo_key (sr_txid row) (ur_vout row)) row)))
             utxos (ar_utxos rows) = Inr u"
    and s': "s' = s\<lparr>ss_addresses := jset (ss_addresses s) a \<lparr>ar_history = h, ar_utxos = u\<rparr>\<rparr>"
    by (auto simp: setAddressBaseline_def Let_def split: option.splits if_splits)
  have r: "address_ok rows" using rows_ok_get [OF _ rows] assms(1) by (simp add: sync_ok_def)
  have "wf_jmap h \<and> (\<forall>e\<in>set h. history_ok e)"
    by (rule foldE_invariant [where P = "\<lambda>h. wf_jmap h \<and> (\<forall>e\<in>set h. history_ok e)", OF _ _ h])
      (use r in \<open>auto simp: address_ok_def dest!: subsetD [OF set_jset_subset] dest: syncHistoryRow_ok\<close>)
  moreover have "wf_jmap u \<and> (\<forall>e\<in>set u. utxo_ok e)"
    by (rule foldE_invariant [where P = "\<lambda>u. wf_jmap u \<and> (\<forall>e\<in>set u. utxo_ok e)", OF _ _ u])
      (use r in \<open>auto simp: address_ok_def dest!: subsetD [OF set_jset_subset] dest: syncUtxoRow_ok\<close>)
  ultimately have "address_ok \<lparr>ar_history = h, ar_utxos = u\<rparr>" by (simp add: address_ok_def)
  with assms(1) show ?thesis by (simp add: s' sync_ok_def rows_ok_jset)
qed

lemma baseline_keys:
  assumes "setAddressBaseline a history utxos s = Inr s'"
  shows "jkeys (ss_addresses s') = jkeys (ss_addresses s) \<and> ss_batches s' = ss_batches s"
  using assms by (auto simp: setAddressBaseline_def Let_def jkeys_jset_same split: option.splits if_splits)

lemma sync_reach_ok:
  "sync_reach addresses s \<Longrightarrow> sync_ok s \<and> rows_cover s \<and> jkeys (ss_addresses s) = sorted_set addresses"
proof (induction rule: sync_reach.induct)
  case (begin_sync ask alive network s)
  then show ?case by (rule begin_ok)
next
  case (baseline s a history utxos s')
  with baseline_ok [of s a history utxos s'] baseline_keys [OF baseline(2)] show ?case by (auto simp: rows_cover_def)
next
  case (update s ask alive s')
  with sync_rounds_ok [OF update(2) [unfolded updateAddressSync_def]] sync_rounds_keys [OF update(2) [unfolded updateAddressSync_def]]
  show ?case by (auto simp: sync_ok_def rows_cover_def)
next
  case (catch_up s ask alive s')
  with sync_rounds_ok [OF catch_up(2) [unfolded updateAddressSync_def]] sync_rounds_keys [OF catch_up(2) [unfolded updateAddressSync_def]]
  show ?case by (auto simp: sync_ok_def rows_cover_def)
qed

text \<open>
  Property C28: a published synchronization is coherent. Whatever the server answers, when an update of any
  state the wallet can be in returns normally, all batches of addresses are at the same chain tip, which
  is the tip of the state, at the same journal sequence and in the same journal epoch; there are rows
  for exactly the addresses the synchronization was begun with, each once, and the batches ask for
  exactly these; every row is stored under its own key and was validated, with amounts in range and a
  balance change equal to received minus spent; and the sizes are within the limits.
\<close>

theorem published_sync_coherent:
  assumes "sync_reach addresses s" and "updateAddressSync ask alive s = Inr (Synced s')"
  shows "coherent s' \<and> rows_ok (ss_addresses s') \<and> checkSize s' = Inr ()
     \<and> set (jkeys (ss_addresses s')) = set addresses \<and> distinct (jkeys (ss_addresses s'))
     \<and> concat (map sb_addresses (ss_batches s')) = jkeys (ss_addresses s')
     \<and> map sb_addresses (ss_batches s') = map sb_addresses (ss_batches s)"
proof -
  from sync_reach_ok [OF assms(1)] have s: "sync_ok s" "rows_cover s" "jkeys (ss_addresses s) = sorted_set addresses" by simp_all
  then have ne: "[0..<length (ss_batches s)] \<noteq> []" by (simp add: sync_ok_def)
  from sync_rounds_ok [OF assms(2) [unfolded updateAddressSync_def] s(1) ne]
  have b: "sync_ok s'" "coherent s'" "checkSize s' = Inr ()" "map sb_addresses (ss_batches s') = map sb_addresses (ss_batches s)" by simp_all
  from sync_rounds_keys [OF assms(2) [unfolded updateAddressSync_def]] s(3)
  have k: "jkeys (ss_addresses s') = sorted_set addresses" by simp
  have "concat (map sb_addresses (ss_batches s')) = jkeys (ss_addresses s')" using s(2,3) k b(4) by (simp add: rows_cover_def)
  with b k show ?thesis unfolding k by (simp add: sync_ok_def set_sorted_set distinct_sorted_set del: set_map)
qed

text \<open>A server with one address and nothing to report.\<close>

definition ex_tip_value :: js_value where
  "ex_tip_value = VObj [(''chain'', VStr ''regtest''), (''genesis_hash'', VStr (the (GENESIS ''regtest''))), (''height'', VInt 0),
     (''hash'', VStr (the (GENESIS ''regtest''))), (''mediantime'', VInt 0)]"

definition ex_ask :: ask where
  "ex_ask n addresses cursor = Inr (VObj [(''unit'', VStr ''connects''), (''changes'', VArr []), (''has_more'', VBool False),
     (''next_cursor'', VStr ''c1''), (''through_sequence'', VInt 0), (''journal_epoch'', VInt 0), (''tip'', ex_tip_value)])"

definition ex_begun :: sync_state where
  "ex_begun = (case beginAddressSync ex_ask (\<lambda>_. True) ''regtest'' [''a''] of Inr s \<Rightarrow> s | Inl _ \<Rightarrow> undefined)"

lemma ex_response: "sync_response ''regtest'' (VObj [(''unit'', VStr ''connects''), (''changes'', VArr []), (''has_more'', VBool False),
     (''next_cursor'', VStr ''c1''), (''through_sequence'', VInt 0), (''journal_epoch'', VInt 0), (''tip'', ex_tip_value)])
   = Inr \<lparr>pg_changes = [], pg_has_more = False, pg_next_cursor = ''c1'', pg_through = 0, pg_epoch = 0, pg_tip = read_tip ex_tip_value\<rparr>"
proof -
  have "validateTip ex_tip_value ''regtest'' = Inr ex_tip_value"
    by (simp add: validateTip_def ex_tip_value_def GENESIS_def hash_text_def is_lower_hex_def safe_integer_def MAX_SAFE_INTEGER_def)
  then show ?thesis
    by (simp add: sync_response_def sync_tip_def sync_cursor_def cursor_char_def is_alnum_def safe_integer_def MAX_SAFE_INTEGER_def)
qed

lemma ex_begun: "beginAddressSync ex_ask (\<lambda>_. True) ''regtest'' [''a''] = Inr ex_begun"
  and ex_begun_batches: "ss_batches ex_begun = [\<lparr>sb_addresses = [''a''], sb_cursor = ''c1'', sb_through = 0, sb_epoch = 0, sb_tip = read_tip ex_tip_value\<rparr>]"
  and ex_begun_network: "ss_network ex_begun = ''regtest''"
  and ex_begun_rows: "ss_addresses ex_begun = [(''a'', \<lparr>ar_history = [], ar_utxos = []\<rparr>)]"
  by (simp_all add: ex_begun_def beginAddressSync_def sorted_set_def Let_def sync_request_def sync_check_def ex_ask_def ex_response)

theorem published_sync_coherent_witness:
  "\<exists>s'. updateAddressSync ex_ask (\<lambda>_. True) ex_begun = Inr (Synced s') \<and> coherent s' \<and> set (jkeys (ss_addresses s')) = {''a''}"
proof -
  have same: "sameTip (read_tip ex_tip_value) (read_tip ex_tip_value) = Inr True"
    by (simp add: sameTip_def read_tip_def ex_tip_value_def)
  have "sync_pages ex_ask (\<lambda>_. True) ''regtest'' (Suc k) [] None \<lparr>sb_addresses = [''a''], sb_cursor = ''c1'', sb_through = 0, sb_epoch = 0, sb_tip = read_tip ex_tip_value\<rparr> p n
    = Inr (\<lparr>sb_addresses = [''a''], sb_cursor = ''c1'', sb_through = 0, sb_epoch = 0, sb_tip = read_tip ex_tip_value\<rparr>, p, n + 3)" for k p n
    by (simp add: sync_page_step_def sync_check_def ex_ask_def ex_response same)
  moreover have "(1000 :: nat) = Suc 999" by simp
  ultimately have "sync_pages ex_ask (\<lambda>_. True) ''regtest'' 1000 [] None \<lparr>sb_addresses = [''a''], sb_cursor = ''c1'', sb_through = 0, sb_epoch = 0, sb_tip = read_tip ex_tip_value\<rparr> p n
    = Inr (\<lparr>sb_addresses = [''a''], sb_cursor = ''c1'', sb_through = 0, sb_epoch = 0, sb_tip = read_tip ex_tip_value\<rparr>, p, n + 3)" for p n
    by (simp only:)
  then have "foldE (sync_batch_step ex_ask (\<lambda>_. True)) [0] (ex_begun, 0, 0) = Inr (ex_begun\<lparr>ss_tip := Some (read_tip ex_tip_value)\<rparr>, 0, 3)"
    by (simp add: sync_batch_step_def ex_begun_batches ex_begun_network)
  then obtain s' where s': "updateAddressSync ex_ask (\<lambda>_. True) ex_begun = Inr (Synced s')"
    by (auto simp: updateAddressSync_def ex_begun_batches ex_begun_rows numeral_3_eq_3 still_pending_def differs_from_def same
        checkSize_def rows_size_def sync_check_def MAX_ROWS_PER_ADDRESS_def MAX_TOTAL_ROWS_def simp del: foldE.simps)
  from published_sync_coherent [OF sync_reach.begin_sync [OF ex_begun] s'] s' show ?thesis by auto
qed

section \<open>Balances\<close>

lemma foldE_merge_history:
  "foldE (merge_history height) rows s = Inr s' \<Longrightarrow> sn_totals s' = sn_totals s \<and> sn_utxos s' = sn_utxos s"
  by (rule foldE_invariant [where P = "\<lambda>x. sn_totals x = sn_totals s \<and> sn_utxos x = sn_utxos s"])
    (auto simp: merge_history_def split: option.splits if_splits)

definition sum_where :: "(snapshot_utxo \<Rightarrow> bool) \<Rightarrow> snapshot_utxo list \<Rightarrow> int" where
  "sum_where P us = sum_list (map (\<lambda>u. ur_amount (su_row u)) (filter P us))"

lemma sum_where_simps [simp]:
  "sum_where P [] = 0"
  "sum_where P (us @ us') = sum_where P us + sum_where P us'"
  "sum_where P [u] = (if P u then ur_amount (su_row u) else 0)"
  by (simp_all add: sum_where_def)

abbreviation "su_pending u \<equiv> sr_pending (su_row u)"
abbreviation "su_unspent u \<equiv> ur_spent_by (su_row u) = None"

definition totals_ok :: "int \<Rightarrow> sync_snapshot \<Rightarrow> bool" where
  "totals_ok height s \<longleftrightarrow>
     bt_confirmed (sn_totals s) = sum_where (\<lambda>u. \<not> su_pending u) (sn_utxos s)
     \<and> bt_available (sn_totals s) = sum_where (\<lambda>u. \<not> su_pending u \<and> su_mature u \<and> su_unspent u) (sn_utxos s)
     \<and> bt_immature (sn_totals s) = sum_where (\<lambda>u. \<not> su_pending u \<and> \<not> su_mature u) (sn_utxos s)
     \<and> bt_confirmed (sn_totals s) + bt_pending (sn_totals s) = sum_where su_unspent (sn_utxos s)
     \<and> (\<forall>u\<in>set (sn_utxos s). su_mature u = (\<not> ur_coinbase (su_row u) \<or> su_confirmations u \<ge> 100)
          \<and> (if su_pending u then su_confirmations u = 0
             else \<exists>h. sr_height (su_row u) = Some h \<and> h \<le> height \<and> su_confirmations u = height - h + 1))"

lemma merge_utxo_ok:
  assumes "totals_ok height s" and "merge_utxo height ac row s = Inr s'"
  shows "totals_ok height s' \<and> map su_row (sn_utxos s') = map su_row (sn_utxos s) @ [row]"
proof -
  from assms(2) obtain count where count: "row_confirmations height row = Inr count"
    and s': "s' = s\<lparr>sn_utxos := sn_utxos s @ [\<lparr>su_row = row, su_confirmations = count,
        su_mature = (\<not> ur_coinbase row \<or> count \<ge> 100), su_account = ac\<rparr>],
      sn_totals := add_utxo row (\<not> ur_coinbase row \<or> count \<ge> 100) (sn_totals s)\<rparr>"
    by (auto simp: merge_utxo_def Let_def)
  have "if sr_pending row then count = 0 else \<exists>h. sr_height row = Some h \<and> h \<le> height \<and> count = height - h + 1"
    using count by (auto simp: row_confirmations_def split: if_splits option.splits)
  with assms(1) show ?thesis unfolding s' totals_ok_def by (auto simp: add_utxo_def split: if_splits)
qed

lemma foldE_merge_utxo:
  "totals_ok height s \<Longrightarrow> foldE (merge_utxo height ac) rows s = Inr s' \<Longrightarrow>
     totals_ok height s' \<and> map su_row (sn_utxos s') = map su_row (sn_utxos s) @ rows"
proof (induction rows arbitrary: s)
  case (Cons row rows)
  from Cons.prems(2) obtain s1 where s1: "merge_utxo height ac row s = Inr s1" "foldE (merge_utxo height ac) rows s1 = Inr s'" by auto
  from merge_utxo_ok [OF Cons.prems(1) s1(1)] Cons.IH [OF _ s1(2)] show ?case by simp
qed simp

definition account_utxos :: "sync_state \<Rightarrow> account \<Rightarrow> utxo_row list" where
  "account_utxos state ac = (case jget (ss_addresses state) (ac_address ac) of None \<Rightarrow> [] | Some r \<Rightarrow> map snd (ar_utxos r))"

lemma merge_account_ok:
  assumes "totals_ok height s" and "merge_account state height ac s = Inr s'"
  shows "totals_ok height s' \<and> map su_row (sn_utxos s') = map su_row (sn_utxos s) @ account_utxos state ac"
proof -
  from assms(2) obtain rows where rows: "jget (ss_addresses state) (ac_address ac) = Some rows"
    by (auto simp: merge_account_def split: option.splits)
  define s0 where "s0 = (if ar_history rows = [] then s
                  else if ac_change ac then s\<lparr>sn_highestChange := max (sn_highestChange s) (ac_index ac)\<rparr>
                  else s\<lparr>sn_highestReceive := max (sn_highestReceive s) (ac_index ac)\<rparr>)"
  have s0: "sn_totals s0 = sn_totals s" "sn_utxos s0 = sn_utxos s" by (simp_all add: s0_def)
  from assms(2) rows obtain s1 where s1: "foldE (merge_history height) (map snd (ar_history rows)) s0 = Inr s1"
    and s': "foldE (merge_utxo height ac) (map snd (ar_utxos rows)) s1 = Inr s'"
    by (auto simp: merge_account_def Let_def s0_def simp del: if_split)
  have "totals_ok height s1" using foldE_merge_history [OF s1] s0 assms(1) by (simp add: totals_ok_def)
  from foldE_merge_utxo [OF this s'] foldE_merge_history [OF s1] s0 rows show ?thesis by (simp add: account_utxos_def)
qed

lemma merge_accounts_ok:
  "totals_ok height s \<Longrightarrow> foldE (merge_account state height) accounts s = Inr s' \<Longrightarrow>
     totals_ok height s' \<and> map su_row (sn_utxos s') = map su_row (sn_utxos s) @ concat (map (account_utxos state) accounts)"
proof (induction accounts arbitrary: s)
  case (Cons ac accounts)
  from Cons.prems(2) obtain s1 where s1: "merge_account state height ac s = Inr s1" "foldE (merge_account state height) accounts s1 = Inr s'" by auto
  from merge_account_ok [OF Cons.prems(1) s1(1)] Cons.IH [OF _ s1(2)] show ?case by simp
qed simp

text \<open>
  The balances of a snapshot are sums over the outputs of its accounts. The snapshot lists
  exactly the outputs stored for the accounts, in order; the confirmed balance is the sum of the
  confirmed ones, the available balance of those that are mature and not spent by a pending transaction,
  the immature balance of coinbase outputs with fewer than 100 confirmations, and confirmed plus pending
  is what is not spent; confirmations count from the height of the tip, and no row lies above it.
\<close>

lemma snapshot_totals:
  assumes "addressSyncSnapshot state accounts = Inr s" and "ss_tip state = Some tip"
  shows "totals_ok (ct_height tip) s \<and> map su_row (sn_utxos s) = concat (map (account_utxos state) accounts)"
  using merge_accounts_ok [of "ct_height tip" "\<lparr>sn_totals = \<lparr>bt_confirmed = 0, bt_available = 0, bt_pending = 0, bt_immature = 0\<rparr>,
      sn_history = [], sn_utxos = [], sn_highestReceive = - 1, sn_highestChange = - 1\<rparr>" state accounts s] assms
  by (simp add: addressSyncSnapshot_def totals_ok_def)

lemma snapshot_totals_witness:
  "\<exists>s. addressSyncSnapshot (ex_begun\<lparr>ss_addresses := [(''a'', \<lparr>ar_history = [], ar_utxos = [(''x'',
       \<lparr>sr_txid = ''x'', sr_pending = True, sr_height = None, sr_confirmations = 0, ur_vout = 0, ur_amount = 7, ur_coinbase = False,
        ur_mature = False, ur_spent_by = None\<rparr>)]\<rparr>)], ss_tip := Some (read_tip ex_tip_value)\<rparr>)
       [\<lparr>ac_address = ''a'', ac_change = False, ac_index = 0\<rparr>] = Inr s
     \<and> bt_confirmed (sn_totals s) + bt_pending (sn_totals s) = 7"
proof -
  define state where "state = ex_begun\<lparr>ss_addresses := [(''a'', \<lparr>ar_history = [], ar_utxos = [(''x'',
       \<lparr>sr_txid = ''x'', sr_pending = True, sr_height = None, sr_confirmations = 0, ur_vout = 0, ur_amount = 7, ur_coinbase = False,
        ur_mature = False, ur_spent_by = None\<rparr>)]\<rparr>)], ss_tip := Some (read_tip ex_tip_value)\<rparr>"
  define accounts where "accounts = [\<lparr>ac_address = ''a'', ac_change = False, ac_index = 0\<rparr>]"
  obtain s where s: "addressSyncSnapshot state accounts = Inr s" and us: "sum_where su_unspent (sn_utxos s) = 7"
    by (simp add: addressSyncSnapshot_def state_def accounts_def merge_account_def merge_utxo_def row_confirmations_def add_utxo_def Let_def)
  from snapshot_totals [OF s, of "read_tip ex_tip_value"] us have "bt_confirmed (sn_totals s) + bt_pending (sn_totals s) = 7"
    by (simp add: totals_ok_def state_def)
  with s show ?thesis unfolding state_def accounts_def by blast
qed

end
