(* ===== verification/Js_Units.thy ===== *)
theory Js_Units
  imports Js_Text
begin

text \<open>
  Texts as JavaScript has them: lists of UTF-16 code units. This theory holds what the source uses of
  the language on such texts: code points, \<open>trim\<close>, case conversion within ASCII, \<open>split\<close>, the character
  classes of its regular expressions, and \<open>encodeURIComponent\<close> with its inverse.
\<close>

type_synonym units = "nat list"

definition units :: "string \<Rightarrow> units" where
  "units s = map of_char s"

definition of_units :: "units \<Rightarrow> string" where
  "of_units u = map char_of u"

section \<open>Code points\<close>

definition high_surrogate :: "nat \<Rightarrow> bool" where
  "high_surrogate c \<longleftrightarrow> 0xD800 \<le> c \<and> c \<le> 0xDBFF"

definition low_surrogate :: "nat \<Rightarrow> bool" where
  "low_surrogate c \<longleftrightarrow> 0xDC00 \<le> c \<and> c \<le> 0xDFFF"

text \<open>The characters of \<open>for (const character of value)\<close>: a surrogate pair is one character.\<close>

fun code_point_list :: "units \<Rightarrow> nat list" where
  "code_point_list [] = []"
| "code_point_list [c] = [c]"
| "code_point_list (c # d # s) =
     (if high_surrogate c \<and> low_surrogate d then (0x10000 + (c - 0xD800) * 0x400 + (d - 0xDC00)) # code_point_list s
      else c # code_point_list (d # s))"

definition code_points :: "units \<Rightarrow> nat" where
  "code_points s = length (code_point_list s)"

definition cp_units :: "nat \<Rightarrow> units" where
  "cp_units p = (if p < 0x10000 then [p] else [0xD800 + (p - 0x10000) div 0x400, 0xDC00 + (p - 0x10000) mod 0x400])"

text \<open>The class \<open>\p{Cs}\<close> of a regular expression with the flag \<open>u\<close>: a surrogate that is not part of a pair.\<close>

definition lone_surrogate :: "nat \<Rightarrow> bool" where
  "lone_surrogate p \<longleftrightarrow> 0xD800 \<le> p \<and> p \<le> 0xDFFF"

definition control_point :: "nat \<Rightarrow> bool" where
  "control_point p \<longleftrightarrow> p < 32 \<or> 127 \<le> p \<and> p < 160"

text \<open>The marks that change the direction of a text.\<close>

definition direction_point :: "nat \<Rightarrow> bool" where
  "direction_point p \<longleftrightarrow> p \<in> {0x061c, 0x200e, 0x200f} \<or> 0x202a \<le> p \<and> p \<le> 0x202e \<or> 0x2066 \<le> p \<and> p \<le> 0x2069"

section \<open>White space, case, parts\<close>

definition unit_space :: "nat \<Rightarrow> bool" where
  "unit_space c \<longleftrightarrow> 9 \<le> c \<and> c \<le> 13 \<or> 0x2000 \<le> c \<and> c \<le> 0x200a
     \<or> c \<in> {32, 0xa0, 0x1680, 0x2028, 0x2029, 0x202f, 0x205f, 0x3000, 0xfeff}"

definition unit_trim :: "units \<Rightarrow> units" where
  "unit_trim s = rev (dropWhile unit_space (rev (dropWhile unit_space s)))"

definition unit_lower :: "nat \<Rightarrow> nat" where
  "unit_lower c = (if 65 \<le> c \<and> c \<le> 90 then c + 32 else c)"

definition unit_upper :: "nat \<Rightarrow> nat" where
  "unit_upper c = (if 97 \<le> c \<and> c \<le> 122 then c - 32 else c)"

fun split_units :: "(nat \<Rightarrow> bool) \<Rightarrow> units \<Rightarrow> units list" where
  "split_units sep [] = [[]]"
| "split_units sep (x # xs) = (if sep x then [] # split_units sep xs
     else (case split_units sep xs of [] \<Rightarrow> [[x]] | p # ps \<Rightarrow> (x # p) # ps))"

text \<open>\<open>text.replace(/\r\n?/g, '\n')\<close>.\<close>

fun unify_newlines :: "units \<Rightarrow> units" where
  "unify_newlines [] = []"
| "unify_newlines [c] = [if c = 13 then 10 else c]"
| "unify_newlines (c # d # s) = (if c = 13 then 10 # (if d = 10 then unify_newlines s else unify_newlines (d # s))
     else c # unify_newlines (d # s))"

definition unit_alpha :: "nat \<Rightarrow> bool" where
  "unit_alpha c \<longleftrightarrow> 97 \<le> c \<and> c \<le> 122"

definition unit_digit :: "nat \<Rightarrow> bool" where
  "unit_digit c \<longleftrightarrow> 48 \<le> c \<and> c \<le> 57"

section \<open>Percent encoding\<close>

text \<open>The characters that \<open>encodeURIComponent\<close> leaves alone.\<close>

definition uri_unreserved :: "nat \<Rightarrow> bool" where
  "uri_unreserved c \<longleftrightarrow> unit_alpha c \<or> 65 \<le> c \<and> c \<le> 90 \<or> unit_digit c \<or> c \<in> {45, 95, 46, 33, 126, 42, 39, 40, 41}"

definition utf8 :: "nat \<Rightarrow> nat list" where
  "utf8 p = (if p < 0x80 then [p]
     else if p < 0x800 then [0xC0 + p div 64, 0x80 + p mod 64]
     else if p < 0x10000 then [0xE0 + p div 4096, 0x80 + p div 64 mod 64, 0x80 + p mod 64]
     else [0xF0 + p div 262144, 0x80 + p div 4096 mod 64, 0x80 + p div 64 mod 64, 0x80 + p mod 64])"

definition hex_unit :: "nat \<Rightarrow> nat" where
  "hex_unit d = (if d < 10 then 48 + d else 55 + d)"

definition percent :: "nat \<Rightarrow> units" where
  "percent b = [37, hex_unit (b div 16), hex_unit (b mod 16)]"

definition encode_point :: "nat \<Rightarrow> units" where
  "encode_point p = (if uri_unreserved p then [p] else concat (map percent (utf8 p)))"

text \<open>\<open>encodeURIComponent\<close> throws on a lone surrogate.\<close>

definition encodeURIComponent :: "units \<Rightarrow> units option" where
  "encodeURIComponent s =
     (if list_ex lone_surrogate (code_point_list s) then None else Some (concat (map encode_point (code_point_list s))))"

definition hex_of_unit :: "nat \<Rightarrow> nat option" where
  "hex_of_unit c = (if 48 \<le> c \<and> c \<le> 57 then Some (c - 48) else if 65 \<le> c \<and> c \<le> 70 then Some (c - 55)
     else if 97 \<le> c \<and> c \<le> 102 then Some (c - 87) else None)"

text \<open>The next byte of a percent encoding, and the continuation bytes of a sequence.\<close>

fun read_percent :: "units \<Rightarrow> (nat \<times> units) option" where
  "read_percent (c # h # l # s) = (if c \<noteq> 37 then None else
     case (hex_of_unit h, hex_of_unit l) of (Some x, Some y) \<Rightarrow> Some (16 * x + y, s) | _ \<Rightarrow> None)"
| "read_percent _ = None"

fun read_tail :: "nat \<Rightarrow> nat \<Rightarrow> units \<Rightarrow> (nat \<times> units) option" where
  "read_tail 0 v s = Some (v, s)"
| "read_tail (Suc k) v s = (case read_percent s of None \<Rightarrow> None
     | Some (b, s) \<Rightarrow> if b < 0x80 \<or> 0xC0 \<le> b then None else read_tail k (v * 64 + (b - 0x80)) s)"

text \<open>Length and first bits of a UTF-8 sequence, by its first byte, and the least value of the length.\<close>

definition utf8_head :: "nat \<Rightarrow> (nat \<times> nat \<times> nat) option" where
  "utf8_head b = (if b < 0x80 then Some (0, b, 0)
     else if 0xC0 \<le> b \<and> b < 0xE0 then Some (1, b - 0xC0, 0x80)
     else if 0xE0 \<le> b \<and> b < 0xF0 then Some (2, b - 0xE0, 0x800)
     else if 0xF0 \<le> b \<and> b < 0xF8 then Some (3, b - 0xF0, 0x10000) else None)"

definition read_point :: "units \<Rightarrow> (nat \<times> units) option" where
  "read_point s = (case read_percent s of None \<Rightarrow> None
     | Some (b, s) \<Rightarrow> (case utf8_head b of None \<Rightarrow> None
         | Some (k, v, least) \<Rightarrow> (case read_tail k v s of None \<Rightarrow> None
             | Some (p, s) \<Rightarrow> if p < least \<or> lone_surrogate p \<or> p > 0x10FFFF then None else Some (p, s))))"

lemma read_percent_length: "read_percent s = Some (b, t) \<Longrightarrow> length t < length s"
  by (induction s rule: read_percent.induct) (auto split: if_splits option.splits)

lemma read_tail_length: "read_tail k v s = Some (p, t) \<Longrightarrow> length t \<le> length s"
proof (induction k v s rule: read_tail.induct)
  case (2 k v s)
  then show ?case by (fastforce split: option.splits if_splits dest!: read_percent_length)
qed simp

lemma read_point_length: "read_point s = Some (p, t) \<Longrightarrow> length t < length s"
  by (fastforce simp: read_point_def split: option.splits if_splits dest: read_percent_length read_tail_length)

lemma read_point_shorter [termination_simp]: "read_point (c # s) = Some (p, t) \<Longrightarrow> length t < Suc (length s)"
  using read_point_length [of "c # s"] by simp

text \<open>\<open>decodeURIComponent\<close>, \<open>None\<close> where it throws.\<close>

fun decodeURIComponent :: "units \<Rightarrow> units option" where
  "decodeURIComponent [] = Some []"
| "decodeURIComponent (c # s) =
     (if c \<noteq> 37 then map_option (Cons c) (decodeURIComponent s)
      else case read_point (c # s) of None \<Rightarrow> None
        | Some (p, t) \<Rightarrow> map_option (append (cp_units p)) (decodeURIComponent t))"

end
