(* ===== verification/Input_Field.thy ===== *)
theory Input_Field
  imports Js_Units
begin

text \<open>
  A text control of the window, as the two input guards use it (\<open>src/src/ui/amount-input.mjs\<close>,
  \<open>src/src/ui/text-input.mjs\<close>). A text is a list of UTF-16 code units, which is what JavaScript
  counts and slices. \<open>setSelectionRange\<close> clamps its arguments to the text. The functions \<open>snapshot\<close>
  and \<open>restore\<close> are the same in both files.
\<close>

record snapshot =
  sn_value :: units
  sn_start :: nat
  sn_end :: nat
  sn_direction :: string

record field =
  fd_value :: units
  fd_start :: "nat option"     \<comment> \<open>\<open>selectionStart\<close>, \<open>selectionEnd\<close>; null on a control without a selection\<close>
  fd_end :: "nat option"
  fd_direction :: string       \<comment> \<open>empty when there is none\<close>
  fd_default :: "units option"

definition take_snapshot :: "('a field_scheme) \<Rightarrow> snapshot" where
  "take_snapshot f = \<lparr>sn_value = fd_value f,
     sn_start = (case fd_start f of Some n \<Rightarrow> n | None \<Rightarrow> length (fd_value f)),
     sn_end = (case fd_end f of Some n \<Rightarrow> n | None \<Rightarrow> length (fd_value f)),
     sn_direction = (if fd_direction f = [] then ''none'' else fd_direction f)\<rparr>"

definition setSelectionRange :: "nat \<Rightarrow> nat \<Rightarrow> string \<Rightarrow> ('a field_scheme) \<Rightarrow> ('a field_scheme)" where
  "setSelectionRange s e d f =
     (let e = min e (length (fd_value f)) in f\<lparr>fd_start := Some (min s e), fd_end := Some e, fd_direction := d\<rparr>)"

definition restore :: "snapshot \<Rightarrow> ('a field_scheme) \<Rightarrow> ('a field_scheme)" where
  "restore saved f = setSelectionRange (sn_start saved) (sn_end saved) (sn_direction saved) (f\<lparr>fd_value := sn_value saved\<rparr>)"

text \<open>\<open>value.slice(0, start) + text + value.slice(end)\<close>.\<close>

definition replace_range :: "units \<Rightarrow> nat \<Rightarrow> nat \<Rightarrow> units \<Rightarrow> units" where
  "replace_range v s e t = take s v @ t @ drop e v"

definition starts_with :: "string \<Rightarrow> string \<Rightarrow> bool" where
  "starts_with p s \<longleftrightarrow> take (length p) s = p"

text \<open>An input event: its type, its data, the text of its data transfer and whether a composition is active.\<close>

record input_event =
  ie_type :: string
  ie_data :: "units option"
  ie_transfer :: "units option"
  ie_composing :: bool

definition event_text :: "input_event \<Rightarrow> units option" where
  "event_text e = (case ie_data e of Some t \<Rightarrow> Some t | None \<Rightarrow> ie_transfer e)"

text \<open>A composition of an input method. The code compares compositions by identity, which is \<open>cm_id\<close>.\<close>

record composition =
  cm_id :: nat
  cm_active :: bool
  cm_before :: snapshot
  cm_valid :: bool

text \<open>The tasks that \<open>queueMicrotask\<close> holds back.\<close>

datatype microtask = ClearReport nat | FinishComposition nat "units option"

lemma restore_value [simp]: "fd_value (restore saved f) = sn_value saved"
  by (simp add: restore_def setSelectionRange_def Let_def)

lemma restore_default [simp]: "fd_default (restore saved f) = fd_default f"
  by (simp add: restore_def setSelectionRange_def Let_def)

lemma take_snapshot_value [simp]: "sn_value (take_snapshot f) = fd_value f"
  by (simp add: take_snapshot_def)

end
