(* ===== verification/Amount_Input.thy ===== *)
theory Amount_Input
  imports Input_Field
begin

text \<open>
  The guard of the amount controls (\<open>src/src/ui/amount-input.mjs\<close>). The handlers act on one control; the
  weak maps of the code are fields of its state, and the events of the browser, with the native edits
  that happen between them, are the steps of a machine. \<open>am_seen\<close> collects the values with which input
  events reach the application, \<open>am_rejections\<close> the calls of \<open>onReject\<close>. The control matches the selector and is
  neither disabled nor read-only. Disposing removes the listeners: then every input event reaches the
  application with the value the control has, and only \<open>sync()\<close> and queued microtasks still run.
\<close>

section \<open>Normalization\<close>

definition digit_unit :: "nat \<Rightarrow> bool" where
  "digit_unit c \<longleftrightarrow> 48 \<le> c \<and> c \<le> 57"

definition separator_unit :: "nat \<Rightarrow> bool" where
  "separator_unit c \<longleftrightarrow> c = 46 \<or> c = 44"

text \<open>\<open>whole.replace(/^0+(?=\d)/, '')\<close>.\<close>

fun strip_leading :: "units \<Rightarrow> units" where
  "strip_leading (c # d # s) = (if c = 48 \<and> digit_unit d then strip_leading (d # s) else c # d # s)"
| "strip_leading s = s"

record amount_rules =
  ru_integer :: nat
  ru_fraction :: nat

definition normalizeAmountInput :: "amount_rules \<Rightarrow> units \<Rightarrow> units option" where
  "normalizeAmountInput rules v =
     (if list_ex (\<lambda>c. \<not> digit_unit c \<and> \<not> separator_unit c) v then None
      else if v = [] then Some []
      else case split_units separator_unit v of
        [whole] \<Rightarrow>
          let integer = (if strip_leading whole = [] then [48] else strip_leading whole) in
          if length integer > ru_integer rules then None else Some integer
      | [whole, fraction] \<Rightarrow>
          let integer = (if strip_leading whole = [] then [48] else strip_leading whole) in
          if length integer > ru_integer rules \<or> length fraction > ru_fraction rules then None
          else Some (integer @ 46 # fraction)
      | _ \<Rightarrow> None)"

text \<open>\<open>data-numeric\<close> and the number in \<open>data-integer-digits\<close>, \<open>None\<close> when it is not a safe integer.\<close>

record amount_field = field +
  fd_numeric :: string
  fd_digits :: "int option"

definition rulesFor :: "amount_field \<Rightarrow> amount_rules" where
  "rulesFor f =
     (if fd_numeric f \<noteq> ''integer'' then \<lparr>ru_integer = 9, ru_fraction = 10\<rparr>
      else \<lparr>ru_integer = (case fd_digits f of Some n \<Rightarrow> if n > 0 then nat n else 9 | None \<Rightarrow> 9), ru_fraction = 0\<rparr>)"

definition normalizedSnapshot :: "snapshot \<Rightarrow> units \<Rightarrow> snapshot" where
  "normalizedSnapshot saved v =
     (let shift = int (length (hd (split_units (\<lambda>c. c = 46) v))) - int (length (hd (split_units separator_unit (sn_value saved))));
          position = (\<lambda>offset. nat (max 0 (min (int (length v)) (int offset + shift))))
      in \<lparr>sn_value = v, sn_start = position (sn_start saved), sn_end = position (sn_end saved), sn_direction = sn_direction saved\<rparr>)"

definition transferSource :: "string \<Rightarrow> string option" where
  "transferSource t =
     (if t = ''insertFromPaste'' \<or> t = ''insertFromPasteAsQuotation'' then Some ''paste''
      else if t = ''insertFromDrop'' then Some ''drop'' else None)"

text \<open>The value a native edit would leave, where the event tells; \<open>None\<close> leaves the decision to the input event.\<close>

definition proposedEdit :: "amount_field \<Rightarrow> input_event \<Rightarrow> units option" where
  "proposedEdit f e =
     (let sn = take_snapshot f; v = sn_value sn; s = sn_start sn; en = sn_end sn; t = ie_type e in
      if starts_with ''insert'' t \<and> event_text e \<noteq> None then Some (replace_range v s en (the (event_text e)))
      else if t = ''insertLineBreak'' \<or> t = ''insertParagraph'' then Some (v @ [10])
      else if starts_with ''delete'' t
      then if s \<noteq> en then Some (replace_range v s en [])
        else if t = ''deleteContentBackward'' then Some (take (s - 1) v @ drop en v)
        else if t = ''deleteContentForward'' then Some (take s v @ drop (en + 1) v)
        else None
      else None)"

section \<open>The guard\<close>

record amount_guard =
  am_field :: amount_field
  am_accepted :: "snapshot option"
  am_composition :: "composition option"
  am_reported :: "nat option"
  am_fresh :: nat                      \<comment> \<open>identities used so far\<close>
  am_tasks :: "microtask list"
  am_listening :: bool                 \<comment> \<open>whether \<open>onReject\<close> was given\<close>
  am_disposed :: bool
  am_rejections :: "(string \<times> units) list"
  am_seen :: "units list"

definition am_normalize :: "amount_guard \<Rightarrow> units \<Rightarrow> units option" where
  "am_normalize g v = normalizeAmountInput (rulesFor (am_field g)) v"

definition am_value :: "amount_guard \<Rightarrow> units" where
  "am_value g = fd_value (am_field g)"

definition am_remember :: "amount_guard \<Rightarrow> amount_guard" where
  "am_remember g =
     (if am_composition g = None \<and> am_normalize g (am_value g) \<noteq> None
      then g\<lparr>am_accepted := Some (take_snapshot (am_field g))\<rparr> else g)"

definition am_previous :: "amount_guard \<Rightarrow> snapshot" where
  "am_previous g = (case am_accepted g of Some s \<Rightarrow> s
     | None \<Rightarrow> let v = (case am_normalize g (case fd_default (am_field g) of Some d \<Rightarrow> d | None \<Rightarrow> []) of Some v \<Rightarrow> v | None \<Rightarrow> [])
         in \<lparr>sn_value = v, sn_start = length v, sn_end = length v, sn_direction = ''none''\<rparr>)"

definition am_reject :: "string option \<Rightarrow> units \<Rightarrow> amount_guard \<Rightarrow> amount_guard" where
  "am_reject source attempted g =
     (if source = None \<or> \<not> am_listening g \<or> am_reported g \<noteq> None then g
      else g\<lparr>am_reported := Some (am_fresh g), am_fresh := am_fresh g + 1, am_tasks := am_tasks g @ [ClearReport (am_fresh g)],
             am_rejections := am_rejections g @ [(the source, attempted)]\<rparr>)"

definition am_restore :: "snapshot \<Rightarrow> amount_guard \<Rightarrow> amount_guard" where
  "am_restore s g = g\<lparr>am_field := restore s (am_field g)\<rparr>"

definition am_accept :: "amount_guard \<Rightarrow> amount_guard" where
  "am_accept g = g\<lparr>am_accepted := Some (take_snapshot (am_field g))\<rparr>"

definition normalizeCurrent :: "amount_guard \<Rightarrow> bool \<times> amount_guard" where
  "normalizeCurrent g = (case am_normalize g (am_value g) of None \<Rightarrow> (False, g)
     | Some v \<Rightarrow>
         let g = (if v \<noteq> am_value g then am_restore (normalizedSnapshot (take_snapshot (am_field g)) v) g else g)
         in (True, am_accept g))"

text \<open>The handler of \<open>input\<close>; an event that is not stopped reaches the application.\<close>

definition am_deliver :: "amount_guard \<Rightarrow> amount_guard" where
  "am_deliver g = g\<lparr>am_seen := am_seen g @ [am_value g]\<rparr>"

definition am_check_input :: "input_event \<Rightarrow> amount_guard \<Rightarrow> amount_guard" where
  "am_check_input e g =
     (let attempted = am_value g; (ok, g) = normalizeCurrent g in
      if ok then am_deliver g
      else am_reject (transferSource (ie_type e)) attempted (am_restore (am_previous g) g))"

definition am_on_input :: "input_event \<Rightarrow> amount_guard \<Rightarrow> amount_guard" where
  "am_on_input e g =
     (if ie_type e = ''insertFromDrop'' \<or> ie_type e = ''deleteByDrag''
      then am_reject (Some ''drop'') (am_value g) (am_restore (am_previous g) g)
      else case am_composition g of
          None \<Rightarrow> if ie_composing e then g else am_check_input e g
        | Some c \<Rightarrow>
            if cm_active c then g
            else let g = g\<lparr>am_composition := None\<rparr> in
              if \<not> cm_valid c then am_restore (cm_before c) g else am_check_input e g)"

definition am_on_beforeinput :: "input_event \<Rightarrow> amount_guard \<Rightarrow> bool \<times> amount_guard" where
  "am_on_beforeinput e g =
     (if ie_composing e \<or> am_composition g \<noteq> None then (False, g)
      else let g = am_remember g in
        if ie_type e = ''insertFromDrop'' \<or> ie_type e = ''deleteByDrag''
        then (True, am_reject (Some ''drop'') (case ie_data e of Some t \<Rightarrow> t | None \<Rightarrow> []) g)
        else case proposedEdit (am_field g) e of
            None \<Rightarrow> (False, g)
          | Some candidate \<Rightarrow>
              if am_normalize g candidate = None then (True, am_reject (transferSource (ie_type e)) candidate g)
              else (False, g))"

definition am_on_drop :: "units option \<Rightarrow> amount_guard \<Rightarrow> amount_guard" where
  "am_on_drop text g = am_reject (Some ''drop'') (case text of Some t \<Rightarrow> t | None \<Rightarrow> []) g"

text \<open>
  The handler of \<open>paste\<close>. \<open>exec\<close> is what the editing command of the browser makes of the control, when the
  control has the focus and the command exists; its own events are suppressed by \<open>nativeEdits\<close>.
\<close>

definition am_exec :: "(amount_field \<Rightarrow> amount_field) option \<Rightarrow> nat \<Rightarrow> amount_guard \<Rightarrow> amount_guard" where
  "am_exec exec n g = (case exec of None \<Rightarrow> g
     | Some command \<Rightarrow> g\<lparr>am_field := (am_field g)\<lparr>fd_value :=
         fd_value (command (setSelectionRange 0 n (fd_direction (am_field g)) (am_field g)))\<rparr>\<rparr>)"

definition am_paste_normalized ::
    "units \<Rightarrow> (amount_field \<Rightarrow> amount_field) option \<Rightarrow> snapshot \<Rightarrow> units \<Rightarrow> units \<Rightarrow> amount_guard \<Rightarrow> amount_guard" where
  "am_paste_normalized text exec saved candidate v g =
     (let caret = sn_start saved + length text;
          desired = normalizedSnapshot \<lparr>sn_value = candidate, sn_start = caret, sn_end = caret, sn_direction = ''none''\<rparr> v;
          g = am_accept (am_restore desired (am_exec exec (length (sn_value saved)) g))
      in am_on_input \<lparr>ie_type = ''insertFromPaste'', ie_data = Some text, ie_transfer = None, ie_composing = False\<rparr> g)"

definition am_on_paste :: "units option \<Rightarrow> (amount_field \<Rightarrow> amount_field) option \<Rightarrow> amount_guard \<Rightarrow> bool \<times> amount_guard" where
  "am_on_paste text exec g = (case text of None \<Rightarrow> (True, g)
     | Some text \<Rightarrow>
         if text = [] \<or> am_composition g \<noteq> None then (True, g)
         else let g = am_remember g;
                  saved = take_snapshot (am_field g);
                  candidate = replace_range (sn_value saved) (sn_start saved) (sn_end saved) text
           in case am_normalize g candidate of
               None \<Rightarrow> (True, am_reject (Some ''paste'') candidate g)
             | Some v \<Rightarrow>
                 if v = candidate then (False, g) else (True, am_paste_normalized text exec saved candidate v g))"

definition am_on_compositionstart :: "amount_guard \<Rightarrow> amount_guard" where
  "am_on_compositionstart g =
     (let g = am_remember g in
      g\<lparr>am_composition := Some \<lparr>cm_id = am_fresh g, cm_active = True, cm_before = am_previous g, cm_valid = False\<rparr>,
        am_fresh := am_fresh g + 1\<rparr>)"

definition am_current :: "amount_guard \<Rightarrow> composition" where
  "am_current g = (case am_composition g of Some c \<Rightarrow> c
     | None \<Rightarrow> \<lparr>cm_id = am_fresh g, cm_active = True, cm_before = am_previous g, cm_valid = False\<rparr>)"

definition am_finish :: "composition \<Rightarrow> units option \<Rightarrow> bool \<times> amount_guard \<Rightarrow> amount_guard" where
  "am_finish c data = (\<lambda>(ok, g). (if ok then g else am_restore (cm_before c) g)\<lparr>
     am_composition := Some (c\<lparr>cm_active := False, cm_valid := ok\<rparr>),
     am_tasks := am_tasks g @ [FinishComposition (cm_id c) data]\<rparr>)"

definition am_on_compositionend :: "units option \<Rightarrow> amount_guard \<Rightarrow> amount_guard" where
  "am_on_compositionend data g =
     am_finish (am_current g) data (normalizeCurrent (g\<lparr>am_fresh := am_fresh g + 1\<rparr>))"

fun am_run_task :: "microtask \<Rightarrow> amount_guard \<Rightarrow> amount_guard" where
  "am_run_task (ClearReport token) g = (if am_reported g = Some token then g\<lparr>am_reported := None\<rparr> else g)"
| "am_run_task (FinishComposition i data) g = (case am_composition g of None \<Rightarrow> g
     | Some c \<Rightarrow>
         if am_disposed g \<or> cm_id c \<noteq> i then g
         else let g = g\<lparr>am_composition := None\<rparr> in
           if cm_valid c \<and> am_value g \<noteq> sn_value (cm_before c)
           then (if am_disposed g then g
                 else am_on_input \<lparr>ie_type = ''insertFromComposition'', ie_data = data, ie_transfer = None, ie_composing = False\<rparr> g)
           else g)"

section \<open>The machine\<close>

datatype amount_step =
    Attend                        \<comment> \<open>focusin, keydown, pointerdown, selectionchange\<close>
  | Sync                          \<comment> \<open>\<open>sync()\<close> of the disposer, which works after disposing too\<close>
  | BeforeInput input_event
  | Native units "nat option" "nat option" string   \<comment> \<open>a native edit, or an assignment by the application\<close>
  | Input input_event
  | Drop "units option"
  | Paste "units option" "(amount_field \<Rightarrow> amount_field) option"
  | CompositionStart
  | CompositionEnd "units option"
  | RunTask
  | Dispose

definition am_handle :: "amount_step \<Rightarrow> amount_guard \<Rightarrow> amount_guard" where
  "am_handle a g = (case a of
       Attend \<Rightarrow> am_remember g
     | BeforeInput e \<Rightarrow> snd (am_on_beforeinput e g)
     | Input e \<Rightarrow> am_on_input e g
     | Drop t \<Rightarrow> am_on_drop t g
     | Paste t exec \<Rightarrow> snd (am_on_paste t exec g)
     | CompositionStart \<Rightarrow> am_on_compositionstart g
     | CompositionEnd data \<Rightarrow> am_on_compositionend data g
     | _ \<Rightarrow> g)"

definition am_step :: "amount_step \<Rightarrow> amount_guard \<Rightarrow> amount_guard" where
  "am_step a g = (case a of
       Native v s e d \<Rightarrow> g\<lparr>am_field := (am_field g)\<lparr>fd_value := v, fd_start := s, fd_end := e, fd_direction := d\<rparr>\<rparr>
     | RunTask \<Rightarrow> (case am_tasks g of [] \<Rightarrow> g | t # ts \<Rightarrow> am_run_task t (g\<lparr>am_tasks := ts\<rparr>))
     | Dispose \<Rightarrow> g\<lparr>am_disposed := True\<rparr>
     | Sync \<Rightarrow> am_remember g
     | Input e \<Rightarrow> if am_disposed g then am_deliver g else am_handle a g
     | _ \<Rightarrow> if am_disposed g then g else am_handle a g)"

text \<open>Installing the guard remembers the value the control has.\<close>

definition am_install :: "amount_field \<Rightarrow> bool \<Rightarrow> amount_guard" where
  "am_install f listening = am_remember \<lparr>am_field = f, am_accepted = None, am_composition = None, am_reported = None, am_fresh = 0,
     am_tasks = [], am_listening = listening, am_disposed = False, am_rejections = [], am_seen = []\<rparr>"

section \<open>Normalization is stable\<close>

lemma split_units_nonempty [simp]: "split_units sep s \<noteq> []"
  by (induction s) (auto split: list.splits)

lemma split_units_none: "\<forall>c\<in>set s. \<not> sep c \<Longrightarrow> split_units sep s = [s]"
  by (induction s) auto

lemma split_units_one: "\<forall>c\<in>set a. \<not> sep c \<Longrightarrow> sep c \<Longrightarrow> split_units sep (a @ c # b) = a # split_units sep b"
  by (induction a) auto

lemma split_units_parts: "p \<in> set (split_units sep s) \<Longrightarrow> c \<in> set p \<Longrightarrow> c \<in> set s \<and> \<not> sep c"
proof (induction s arbitrary: p)
  case (Cons x s)
  show ?case
  proof (cases "sep x")
    case True
    with Cons show ?thesis by auto
  next
    case False
    obtain q qs where q: "split_units sep s = q # qs" by (cases "split_units sep s") auto
    with False Cons.prems(1) have "p = x # q \<or> p \<in> set qs" by simp
    then show ?thesis
    proof
      assume "p = x # q"
      with Cons.IH [of q] Cons.prems(2) q False show ?thesis by (cases "c = x") simp_all
    next
      assume "p \<in> set qs"
      with Cons.IH [of p] Cons.prems(2) q show ?thesis by simp
    qed
  qed
qed simp

lemma strip_leading_set: "set (strip_leading s) \<subseteq> set s"
  by (induction s rule: strip_leading.induct) auto

lemma strip_leading_idem [simp]: "strip_leading (strip_leading s) = strip_leading s"
  by (induction s rule: strip_leading.induct) auto

lemma strip_leading_single [simp]: "strip_leading [c] = [c]"
  by simp

lemma normalize_stable:
  assumes "normalizeAmountInput r v = Some w"
  shows "normalizeAmountInput r w = Some w"
proof (cases "v = []")
  case True
  with assms show ?thesis by (simp add: normalizeAmountInput_def)
next
  case False
  define clean where "clean p = (if strip_leading p = [] then [48] else strip_leading p)" for p
  have clean: "clean (clean p) = clean p" "clean p \<noteq> []" for p by (auto simp: clean_def)
  from assms False have chars: "\<forall>c\<in>set v. digit_unit c \<or> separator_unit c"
    by (auto simp: normalizeAmountInput_def list_ex_iff split: if_splits)
  have digits: "\<forall>c\<in>set p. digit_unit c \<and> \<not> separator_unit c" if "p \<in> set (split_units separator_unit v)" for p
    using split_units_parts [OF that] chars by auto
  have cd: "\<forall>c\<in>set p. digit_unit c \<and> \<not> separator_unit c \<Longrightarrow> \<forall>c\<in>set (clean p). digit_unit c \<and> \<not> separator_unit c" for p
    using strip_leading_set [of p] by (auto simp: clean_def digit_unit_def separator_unit_def)
  from assms False consider
    (one) whole where "split_units separator_unit v = [whole]" "w = clean whole" "length w \<le> ru_integer r"
  | (two) whole fraction where "split_units separator_unit v = [whole, fraction]" "w = clean whole @ 46 # fraction"
      "length (clean whole) \<le> ru_integer r" "length fraction \<le> ru_fraction r"
    by (auto simp: normalizeAmountInput_def clean_def Let_def split: if_splits list.splits)
  then show ?thesis
  proof cases
    case one
    have w: "\<forall>c\<in>set w. digit_unit c \<and> \<not> separator_unit c" unfolding one(2) by (rule cd) (use digits one(1) in auto)
    then have "split_units separator_unit w = [w]" by (intro split_units_none) auto
    moreover have "\<not> list_ex (\<lambda>c. \<not> digit_unit c \<and> \<not> separator_unit c) w" using w by (auto simp: list_ex_iff)
    moreover have "clean w = w" "w \<noteq> []" using clean one(2) by auto
    ultimately show ?thesis using one(3)
      unfolding normalizeAmountInput_def clean_def [symmetric] by (simp add: clean_def [symmetric])
  next
    case two
    have whole: "\<forall>c\<in>set (clean whole). digit_unit c \<and> \<not> separator_unit c" by (rule cd) (use digits two(1) in auto)
    have fraction: "\<forall>c\<in>set fraction. digit_unit c \<and> \<not> separator_unit c" by (rule digits) (simp add: two(1))
    have "split_units separator_unit w = clean whole # split_units separator_unit fraction"
      unfolding two(2) by (rule split_units_one) (use whole in \<open>auto simp: separator_unit_def\<close>)
    also have "split_units separator_unit fraction = [fraction]" using fraction by (intro split_units_none) auto
    finally have "split_units separator_unit w = [clean whole, fraction]" .
    moreover have "\<not> list_ex (\<lambda>c. \<not> digit_unit c \<and> \<not> separator_unit c) w"
      using whole fraction by (auto simp: two(2) list_ex_iff separator_unit_def)
    ultimately show ?thesis using two(2-4) clean(1) [of whole]
      unfolding normalizeAmountInput_def clean_def [symmetric] by (simp add: Let_def clean_def [symmetric])
  qed
qed

section \<open>What the application sees\<close>

definition am_valid :: "amount_guard \<Rightarrow> units \<Rightarrow> bool" where
  "am_valid g v \<longleftrightarrow> am_normalize g v \<noteq> None"

definition am_ok :: "amount_rules \<Rightarrow> amount_guard \<Rightarrow> bool" where
  "am_ok r g \<longleftrightarrow> rulesFor (am_field g) = r
     \<and> (case am_accepted g of None \<Rightarrow> True | Some s \<Rightarrow> normalizeAmountInput r (sn_value s) \<noteq> None)
     \<and> (case am_composition g of None \<Rightarrow> True | Some c \<Rightarrow> normalizeAmountInput r (sn_value (cm_before c)) \<noteq> None)
     \<and> (\<forall>v\<in>set (am_seen g). normalizeAmountInput r v = Some v)"

lemma rulesFor_restore [simp]: "rulesFor (restore s f) = rulesFor f"
  by (simp add: rulesFor_def restore_def setSelectionRange_def Let_def)

lemma rulesFor_update [simp]:
  "rulesFor (f\<lparr>fd_value := v\<rparr>) = rulesFor f" "rulesFor (f\<lparr>fd_start := s\<rparr>) = rulesFor f"
  "rulesFor (f\<lparr>fd_end := e\<rparr>) = rulesFor f" "rulesFor (f\<lparr>fd_direction := d\<rparr>) = rulesFor f"
  by (simp_all add: rulesFor_def)

lemma normalize_empty [simp]: "normalizeAmountInput r [] = Some []"
  by (simp add: normalizeAmountInput_def)

lemma am_remember_ok: "am_ok r g \<Longrightarrow> am_ok r (am_remember g)"
  by (auto simp: am_ok_def am_remember_def am_normalize_def am_value_def)

lemma am_previous_valid: "am_ok r g \<Longrightarrow> normalizeAmountInput r (sn_value (am_previous g)) \<noteq> None"
  by (auto simp: am_ok_def am_previous_def am_normalize_def Let_def normalize_stable split: option.splits)

lemma am_reject_ok [simp]: "am_ok r (am_reject s v g) = am_ok r g"
  by (simp add: am_ok_def am_reject_def)

lemma am_restore_ok [simp]: "am_ok r (am_restore s g) = am_ok r g"
  by (simp add: am_ok_def am_restore_def)

lemma normalizeCurrent_ok:
  assumes "am_ok r g" and "normalizeCurrent g = (ok, g')"
  shows "am_ok r g' \<and> (ok \<longrightarrow> normalizeAmountInput r (am_value g') = Some (am_value g')) \<and> (\<not> ok \<longrightarrow> g' = g)
    \<and> am_composition g' = am_composition g"
proof (cases "am_normalize g (am_value g)")
  case None
  with assms show ?thesis by (auto simp: normalizeCurrent_def)
next
  case (Some v)
  have r: "rulesFor (am_field g) = r" using assms(1) by (simp add: am_ok_def)
  from Some r have v: "normalizeAmountInput r v = Some v" by (auto simp: am_normalize_def intro: normalize_stable)
  have "sn_value (normalizedSnapshot s v) = v" for s by (simp add: normalizedSnapshot_def Let_def)
  with assms Some v show ?thesis
    by (auto simp: normalizeCurrent_def am_accept_def am_restore_def am_ok_def am_value_def Let_def split: if_splits)
qed

lemma am_deliver_ok: "am_ok r g \<Longrightarrow> normalizeAmountInput r (am_value g) = Some (am_value g) \<Longrightarrow> am_ok r (am_deliver g)"
  by (simp add: am_ok_def am_deliver_def)

lemma am_check_input_ok: "am_ok r g \<Longrightarrow> am_ok r (am_check_input e g)"
  using normalizeCurrent_ok [of r g]
  by (cases "normalizeCurrent g") (auto simp: am_check_input_def intro: am_deliver_ok)

lemma am_ok_no_composition: "am_ok r g \<Longrightarrow> am_ok r (g\<lparr>am_composition := None\<rparr>)"
  by (simp add: am_ok_def)

lemma am_on_input_ok: "am_ok r g \<Longrightarrow> am_ok r (am_on_input e g)"
  by (auto simp: am_on_input_def Let_def am_check_input_ok am_ok_no_composition split: option.splits)

lemma am_on_beforeinput_ok: "am_ok r g \<Longrightarrow> am_ok r (snd (am_on_beforeinput e g))"
  by (simp add: am_on_beforeinput_def Let_def am_remember_ok split: option.splits)

lemma am_paste_normalized_ok:
  assumes h: "am_ok r g" and n: "am_normalize g candidate = Some v"
  shows "am_ok r (am_paste_normalized t exec saved candidate v g)"
proof -
  have v: "normalizeAmountInput r v = Some v" using n h by (auto simp: am_normalize_def am_ok_def intro: normalize_stable)
  have "am_ok r (am_exec exec k g)" for k using h by (simp add: am_ok_def am_exec_def split: option.splits)
  then have "am_ok r (am_restore sn (am_exec exec k g))" for sn k by simp
  then have "am_ok r (am_accept (am_restore (normalizedSnapshot sn v) (am_exec exec k g)))" for sn k
    using v by (simp add: am_ok_def am_accept_def am_restore_def normalizedSnapshot_def Let_def)
  then show ?thesis unfolding am_paste_normalized_def Let_def by (rule am_on_input_ok)
qed

lemma am_on_paste_ok: "am_ok r g \<Longrightarrow> am_ok r (snd (am_on_paste text exec g))"
  by (auto simp: am_on_paste_def Let_def am_remember_ok am_paste_normalized_ok split: option.splits)

lemma am_composition_ok: "am_ok r g \<Longrightarrow> normalizeAmountInput r (sn_value (cm_before c)) \<noteq> None \<Longrightarrow>
    am_ok r (g\<lparr>am_composition := Some c, am_fresh := n\<rparr>)"
  by (simp add: am_ok_def)

lemma am_on_compositionend_ok:
  assumes "am_ok r g"
  shows "am_ok r (am_on_compositionend data g)"
proof -
  have c: "normalizeAmountInput r (sn_value (cm_before (am_current g))) \<noteq> None"
    using assms am_previous_valid [OF assms] by (auto simp: am_current_def am_ok_def split: option.splits)
  obtain ok h where h: "normalizeCurrent (g\<lparr>am_fresh := am_fresh g + 1\<rparr>) = (ok, h)" by (rule prod.exhaust)
  have "am_ok r (g\<lparr>am_fresh := am_fresh g + 1\<rparr>)" using assms by (simp add: am_ok_def)
  from conjunct1 [OF normalizeCurrent_ok [OF this h]] have "am_ok r h" .
  with c show ?thesis
    unfolding am_on_compositionend_def h by (simp add: am_finish_def am_ok_def am_restore_def)
qed

lemma am_run_task_ok: "am_ok r g \<Longrightarrow> am_ok r (am_run_task t g)"
proof (cases t)
  case (FinishComposition i data)
  assume "am_ok r g"
  with FinishComposition am_on_input_ok [OF am_ok_no_composition [of r g]] am_ok_no_composition [of r g] show ?thesis
    by (simp add: Let_def split: option.splits)
qed (simp add: am_ok_def)

lemma am_handle_ok: "am_ok r g \<Longrightarrow> am_ok r (am_handle a g)"
  using am_previous_valid [OF am_remember_ok, of r g]
  by (cases a) (simp_all add: am_handle_def am_remember_ok am_on_beforeinput_ok am_on_input_ok am_on_drop_def am_on_paste_ok
      am_on_compositionend_ok am_on_compositionstart_def Let_def am_composition_ok)

text \<open>Only disposing sets the flag.\<close>

lemma am_disposed_simps [simp]:
  "am_disposed (am_remember g) = am_disposed g" "am_disposed (am_reject s v g) = am_disposed g"
  "am_disposed (am_restore sn g) = am_disposed g" "am_disposed (am_accept g) = am_disposed g"
  "am_disposed (am_deliver g) = am_disposed g" "am_disposed (am_exec exec n g) = am_disposed g"
  "am_disposed (snd (normalizeCurrent g)) = am_disposed g"
  by (simp_all add: am_remember_def am_reject_def am_restore_def am_accept_def am_deliver_def am_exec_def normalizeCurrent_def
      Let_def split: option.splits)

lemma am_on_input_disposed [simp]: "am_disposed (am_on_input e g) = am_disposed g"
proof -
  have "am_disposed (am_check_input e h) = am_disposed h" for h
    using am_disposed_simps(7) [of h] by (cases "normalizeCurrent h") (simp add: am_check_input_def)
  then show ?thesis by (simp add: am_on_input_def Let_def split: option.splits)
qed

lemma am_handle_disposed [simp]: "am_disposed (am_handle a g) = am_disposed g"
proof -
  have "am_disposed (am_finish c d x) = am_disposed (snd x)" for c d x by (cases x) (simp add: am_finish_def)
  then show ?thesis
    by (simp add: am_handle_def am_on_beforeinput_def am_on_drop_def am_on_paste_def am_paste_normalized_def
        am_on_compositionstart_def am_on_compositionend_def Let_def split: amount_step.splits option.splits)
qed

lemma am_run_task_disposed [simp]: "am_disposed (am_run_task t g) = am_disposed g"
  by (cases t) (simp_all add: Let_def split: option.splits)

lemma am_step_ok:
  assumes "am_ok r g" and "\<not> am_disposed g" and "a \<noteq> Dispose"
  shows "am_ok r (am_step a g) \<and> \<not> am_disposed (am_step a g)"
proof (cases a)
  case (Native v s e d)
  with assms show ?thesis by (simp add: am_step_def am_ok_def)
next
  case RunTask
  have "am_ok r (g\<lparr>am_tasks := ts\<rparr>)" for ts using assms by (simp add: am_ok_def)
  with RunTask assms show ?thesis by (simp add: am_step_def am_run_task_ok split: list.splits)
qed (use assms in \<open>simp_all add: am_step_def am_handle_ok am_remember_ok\<close>)

lemma am_run_ok: "am_ok r g \<Longrightarrow> \<not> am_disposed g \<Longrightarrow> Dispose \<notin> set steps \<Longrightarrow>
    am_ok r (fold am_step steps g) \<and> \<not> am_disposed (fold am_step steps g)"
proof (induction steps arbitrary: g)
  case (Cons a steps)
  with am_step_ok [of r g a] show ?case by auto
qed simp

text \<open>After disposing the application sees what the control holds.\<close>

fun raw_inputs :: "amount_step list \<Rightarrow> units \<Rightarrow> units list" where
  "raw_inputs [] v = []"
| "raw_inputs (Native w _ _ _ # steps) v = raw_inputs steps w"
| "raw_inputs (Input _ # steps) v = v # raw_inputs steps v"
| "raw_inputs (_ # steps) v = raw_inputs steps v"

lemma am_run_disposed: "am_disposed g \<Longrightarrow> am_seen (fold am_step steps g) = am_seen g @ raw_inputs steps (am_value g)"
proof (induction steps arbitrary: g)
  case (Cons a steps)
  have task: "am_disposed h \<Longrightarrow> am_run_task t h = h \<or> am_run_task t h = h\<lparr>am_reported := None\<rparr>" for t h
    by (cases t) (auto split: option.splits)
  have run: "am_disposed (am_step RunTask g) \<and> am_seen (am_step RunTask g) = am_seen g \<and> am_value (am_step RunTask g) = am_value g"
  proof (cases "am_tasks g")
    case (Cons t ts)
    with task [of "g\<lparr>am_tasks := ts\<rparr>" t] \<open>am_disposed g\<close> show ?thesis by (auto simp: am_step_def am_value_def)
  qed (use \<open>am_disposed g\<close> in \<open>simp add: am_step_def\<close>)
  from Cons run show ?case
    by (cases a) (simp_all add: am_step_def am_deliver_def am_value_def am_remember_def)
qed simp

text \<open>
  Property C29: the application sees only normalized amounts until the guard is disposed. Whatever is typed,
  pasted, dropped, composed by an input method, edited natively or assigned, in whatever order, every
  input event of an amount control that reaches the application carries a value that normalization
  accepts and leaves unchanged; and the values the guard would roll back to are acceptable. From the
  moment the guard is disposed it changes nothing any more: every input event reaches the application,
  with the value the control was given.
\<close>

theorem amount_guard_safe:
  assumes "Dispose \<notin> set steps" and "g = fold am_step steps (am_install f listening)"
  shows "(\<forall>v\<in>set (am_seen g). normalizeAmountInput (rulesFor f) v = Some v)
     \<and> normalizeAmountInput (rulesFor f) (sn_value (am_previous g)) \<noteq> None
     \<and> am_seen (fold am_step (Dispose # later) g) = am_seen g @ raw_inputs later (am_value g)"
proof -
  have "am_ok (rulesFor f) (am_install f listening)"
    unfolding am_install_def by (rule am_remember_ok) (simp add: am_ok_def)
  moreover have "\<not> am_disposed (am_install f listening)" by (simp add: am_install_def)
  ultimately have ok: "am_ok (rulesFor f) g" unfolding assms(2) using am_run_ok assms(1) by blast
  have "am_seen (fold am_step (Dispose # later) g) = am_seen g @ raw_inputs later (am_value g)"
    using am_run_disposed [of "am_step Dispose g" later] by (simp add: am_step_def am_value_def)
  with ok am_previous_valid [OF ok] show ?thesis by (simp add: am_ok_def)
qed

theorem amount_guard_safe_witness:
  "am_seen (fold am_step ([Native [48, 48, 55, 44] (Some 4) (Some 4) [],
      Input \<lparr>ie_type = ''insertText'', ie_data = None, ie_transfer = None, ie_composing = False\<rparr>] @
      [Dispose, Native [50, 120] (Some 2) (Some 2) [],
      Input \<lparr>ie_type = ''insertText'', ie_data = None, ie_transfer = None, ie_composing = False\<rparr>])
      (am_install \<lparr>fd_value = [], fd_start = Some 0, fd_end = Some 0, fd_direction = [], fd_default = None, fd_numeric = [], fd_digits = None\<rparr> True))
    = [[55, 46], [50, 120]] \<and> normalizeAmountInput \<lparr>ru_integer = 9, ru_fraction = 10\<rparr> [55, 46] = Some [55, 46]"
proof -
  define f where "f = \<lparr>fd_value = [], fd_start = Some 0, fd_end = Some 0, fd_direction = [], fd_default = None, fd_numeric = [], fd_digits = None\<rparr>"
  define steps where "steps = [Native [48, 48, 55, 44] (Some 4) (Some 4) [],
      Input \<lparr>ie_type = ''insertText'', ie_data = None, ie_transfer = None, ie_composing = False\<rparr>]"
  define later where "later = [Native [50, 120] (Some 2) (Some 2) [],
      Input \<lparr>ie_type = ''insertText'', ie_data = None, ie_transfer = None, ie_composing = False\<rparr>]"
  define g where "g = fold am_step steps (am_install f True)"
  have seen: "am_seen g = [[55, 46]]" unfolding g_def f_def steps_def by code_simp
  have no: "Dispose \<notin> set steps" by (simp add: steps_def)
  have "rulesFor f = \<lparr>ru_integer = 9, ru_fraction = 10\<rparr>" by (simp add: f_def rulesFor_def)
  moreover have "raw_inputs later (am_value g) = [[50, 120]]" by (simp add: later_def)
  ultimately have "am_seen (fold am_step (steps @ Dispose # later) (am_install f True)) = [[55, 46], [50, 120]]"
    "normalizeAmountInput \<lparr>ru_integer = 9, ru_fraction = 10\<rparr> [55, 46] = Some [55, 46]"
    using amount_guard_safe [OF no g_def, of later] seen by (simp_all add: g_def)
  then show ?thesis unfolding steps_def later_def f_def by simp
qed

end
