(* ===== verification/Text_Input.thy ===== *)
theory Text_Input
  imports Input_Field Js_Number
begin

text \<open>
  The guard of the text controls with a length limit (\<open>src/src/ui/text-input.mjs\<close>), one control as in
  the guard of the amount controls: the handlers, the microtasks they queue and the native edits in
  between are the steps of a machine. \<open>tx_seen\<close> collects the values with which input events reach the
  application and \<open>tx_rejections\<close> the calls of \<open>onReject\<close>, which carry the source and the limit only. A control
  without a valid limit is not guarded, and disposing removes the listeners: in both cases every input
  event reaches the application with the value the control has.
\<close>

section \<open>Limits\<close>

record text_field = field +
  tf_limit :: "string option"   \<comment> \<open>\<open>data-text-limit\<close>\<close>
  tf_count :: string            \<comment> \<open>\<open>data-text-count\<close>\<close>
  tf_name :: string             \<comment> \<open>\<open>localName\<close>\<close>

definition limitOf :: "text_field \<Rightarrow> nat option" where
  "limitOf f = (case tf_limit f of None \<Rightarrow> None
     | Some t \<Rightarrow> if t \<noteq> [] \<and> list_all is_digit t \<and> safe_integer (int (dec_val t)) then Some (dec_val t) else None)"

definition text_fits :: "text_field \<Rightarrow> units \<Rightarrow> bool" where
  "text_fits f v = (case limitOf f of None \<Rightarrow> v = []
     | Some limit \<Rightarrow> (if tf_count f = ''utf16'' then length v else code_points v) \<le> limit)"

text \<open>\<open>text.replace(/\r\n?/g, '\n')\<close> in a text area; a one-line control loses its line breaks.\<close>

definition nativeText :: "text_field \<Rightarrow> units \<Rightarrow> units" where
  "nativeText f t = (if tf_name f = ''textarea'' then unify_newlines t
     else if tf_name f = ''input'' then filter (\<lambda>c. c \<noteq> 13 \<and> c \<noteq> 10) t else t)"

definition insertedValue :: "text_field \<Rightarrow> units \<Rightarrow> units" where
  "insertedValue f t = (let sn = take_snapshot f in replace_range (sn_value sn) (sn_start sn) (sn_end sn) (nativeText f t))"

definition text_transferSource :: "string \<Rightarrow> string option" where
  "text_transferSource t =
     (if t = ''insertFromPaste'' \<or> t = ''insertFromPasteAsQuotation'' then Some ''paste''
      else if t = ''insertFromDrop'' \<or> t = ''deleteByDrag'' then Some ''drop'' else None)"

section \<open>The guard\<close>

record text_guard =
  tx_field :: text_field
  tx_accepted :: "snapshot option"
  tx_composition :: "composition option"
  tx_reported :: "nat option"
  tx_fresh :: nat
  tx_tasks :: "microtask list"
  tx_listening :: bool
  tx_disposed :: bool
  tx_rejections :: "(string \<times> nat) list"
  tx_seen :: "units list"

definition tx_value :: "text_guard \<Rightarrow> units" where
  "tx_value g = fd_value (tx_field g)"

definition tx_fits :: "text_guard \<Rightarrow> units \<Rightarrow> bool" where
  "tx_fits g v = text_fits (tx_field g) v"

definition tx_accept :: "text_guard \<Rightarrow> text_guard" where
  "tx_accept g = g\<lparr>tx_accepted := Some (take_snapshot (tx_field g))\<rparr>"

definition tx_restore :: "snapshot \<Rightarrow> text_guard \<Rightarrow> text_guard" where
  "tx_restore s g = g\<lparr>tx_field := restore s (tx_field g)\<rparr>"

definition tx_remember :: "text_guard \<Rightarrow> text_guard" where
  "tx_remember g = (if tx_composition g = None \<and> tx_fits g (tx_value g) then tx_accept g else g)"

definition tx_previous :: "text_guard \<Rightarrow> snapshot" where
  "tx_previous g = (case tx_accepted g of Some s \<Rightarrow> s
     | None \<Rightarrow> let fallback = (case fd_default (tx_field g) of Some d \<Rightarrow> d | None \<Rightarrow> []);
           v = (if tx_fits g fallback then fallback else [])
         in \<lparr>sn_value = v, sn_start = length v, sn_end = length v, sn_direction = ''none''\<rparr>)"

definition tx_reject :: "string option \<Rightarrow> text_guard \<Rightarrow> text_guard" where
  "tx_reject source g =
     (if source = None \<or> \<not> tx_listening g \<or> tx_reported g \<noteq> None then g
      else g\<lparr>tx_reported := Some (tx_fresh g), tx_fresh := tx_fresh g + 1, tx_tasks := tx_tasks g @ [ClearReport (tx_fresh g)],
             tx_rejections := tx_rejections g @ [(the source, the (limitOf (tx_field g)))]\<rparr>)"

text \<open>The text that an insertion is about to add, where the event tells.\<close>

definition inserted_text :: "input_event \<Rightarrow> units option" where
  "inserted_text e =
     (if ie_type e = ''insertLineBreak'' \<or> ie_type e = ''insertParagraph'' then Some [10]
      else if starts_with ''insert'' (ie_type e) then event_text e else None)"

definition tx_on_beforeinput :: "input_event \<Rightarrow> text_guard \<Rightarrow> bool \<times> text_guard" where
  "tx_on_beforeinput e g =
     (if ie_composing e \<or> tx_composition g \<noteq> None then (False, g)
      else let g = tx_remember g; source = text_transferSource (ie_type e) in
        if source = Some ''drop'' then (True, tx_reject source g)
        else case inserted_text e of
            None \<Rightarrow> (False, g)
          | Some t \<Rightarrow> if tx_fits g (insertedValue (tx_field g) t) then (False, g) else (True, tx_reject source g))"

definition tx_on_paste :: "units option \<Rightarrow> text_guard \<Rightarrow> bool \<times> text_guard" where
  "tx_on_paste pasted g = (case pasted of None \<Rightarrow> (True, g)
     | Some t \<Rightarrow>
         if t = [] \<or> nativeText (tx_field g) t = [] \<or> tx_composition g \<noteq> None then (True, g)
         else let g = tx_remember g in
           if tx_fits g (insertedValue (tx_field g) t) then (False, g) else (True, tx_reject (Some ''paste'') g))"

definition tx_check_input :: "string option \<Rightarrow> text_guard \<Rightarrow> text_guard" where
  "tx_check_input source g =
     (if tx_fits g (tx_value g) then (tx_accept g)\<lparr>tx_seen := tx_seen g @ [tx_value g]\<rparr>
      else tx_reject source (tx_restore (tx_previous g) g))"

definition tx_on_input :: "input_event \<Rightarrow> text_guard \<Rightarrow> text_guard" where
  "tx_on_input e g = (let source = text_transferSource (ie_type e) in
     if source = Some ''drop'' then tx_reject source (tx_restore (tx_previous g) g)
     else case tx_composition g of
         None \<Rightarrow> if ie_composing e then g else tx_check_input source g
       | Some c \<Rightarrow>
           if cm_active c then g
           else let g = g\<lparr>tx_composition := None\<rparr> in
             if \<not> cm_valid c then tx_restore (cm_before c) g else tx_check_input source g)"

definition tx_on_compositionstart :: "text_guard \<Rightarrow> text_guard" where
  "tx_on_compositionstart g =
     (let g = tx_remember g in
      g\<lparr>tx_composition := Some \<lparr>cm_id = tx_fresh g, cm_active = True, cm_before = tx_previous g, cm_valid = False\<rparr>,
        tx_fresh := tx_fresh g + 1\<rparr>)"

definition tx_current :: "text_guard \<Rightarrow> composition" where
  "tx_current g = (case tx_composition g of Some c \<Rightarrow> c
     | None \<Rightarrow> \<lparr>cm_id = tx_fresh g, cm_active = True, cm_before = tx_previous g, cm_valid = False\<rparr>)"

definition tx_on_compositionend :: "text_guard \<Rightarrow> text_guard" where
  "tx_on_compositionend g =
     (let c = tx_current g; valid = tx_fits g (tx_value g) in
      (if valid then tx_accept g else tx_restore (cm_before c) g)\<lparr>
        tx_composition := Some (c\<lparr>cm_active := False, cm_valid := valid\<rparr>),
        tx_fresh := tx_fresh g + 1,
        tx_tasks := tx_tasks g @ [FinishComposition (cm_id c) None]\<rparr>)"

fun tx_run_task :: "microtask \<Rightarrow> text_guard \<Rightarrow> text_guard" where
  "tx_run_task (ClearReport token) g = (if tx_reported g = Some token then g\<lparr>tx_reported := None\<rparr> else g)"
| "tx_run_task (FinishComposition i data) g = (case tx_composition g of None \<Rightarrow> g
     | Some c \<Rightarrow>
         if tx_disposed g \<or> cm_id c \<noteq> i then g
         else let g = g\<lparr>tx_composition := None\<rparr> in
           if cm_valid c \<and> tx_value g \<noteq> sn_value (cm_before c)
           then tx_on_input \<lparr>ie_type = ''insertFromComposition'', ie_data = None, ie_transfer = None, ie_composing = False\<rparr> g
           else g)"

datatype text_step =
    TAttend                       \<comment> \<open>focusin, keydown, pointerdown, selectionchange\<close>
  | TSync                         \<comment> \<open>\<open>sync()\<close> of the disposer, which works after disposing too\<close>
  | TBeforeInput input_event
  | TNative units "nat option" "nat option" string   \<comment> \<open>a native edit, or an assignment by the application\<close>
  | TInput input_event
  | TDrop
  | TPaste "units option"
  | TCompositionStart
  | TCompositionEnd
  | TRunTask
  | TDispose

definition tx_handle :: "text_step \<Rightarrow> text_guard \<Rightarrow> text_guard" where
  "tx_handle a g = (case a of
       TAttend \<Rightarrow> tx_remember g
     | TBeforeInput e \<Rightarrow> snd (tx_on_beforeinput e g)
     | TInput e \<Rightarrow> tx_on_input e g
     | TDrop \<Rightarrow> tx_reject (Some ''drop'') g
     | TPaste t \<Rightarrow> snd (tx_on_paste t g)
     | TCompositionStart \<Rightarrow> tx_on_compositionstart g
     | TCompositionEnd \<Rightarrow> tx_on_compositionend g
     | _ \<Rightarrow> g)"

definition tx_step :: "text_step \<Rightarrow> text_guard \<Rightarrow> text_guard" where
  "tx_step a g = (case a of
       TNative v s e d \<Rightarrow> g\<lparr>tx_field := (tx_field g)\<lparr>fd_value := v, fd_start := s, fd_end := e, fd_direction := d\<rparr>\<rparr>
     | TRunTask \<Rightarrow> (case tx_tasks g of [] \<Rightarrow> g | t # ts \<Rightarrow> tx_run_task t (g\<lparr>tx_tasks := ts\<rparr>))
     | TDispose \<Rightarrow> g\<lparr>tx_disposed := True\<rparr>
     | TSync \<Rightarrow> if limitOf (tx_field g) = None then g else tx_remember g
     | TInput e \<Rightarrow> if tx_disposed g \<or> limitOf (tx_field g) = None then g\<lparr>tx_seen := tx_seen g @ [tx_value g]\<rparr> else tx_handle a g
     | _ \<Rightarrow> if tx_disposed g \<or> limitOf (tx_field g) = None then g else tx_handle a g)"

definition tx_install :: "text_field \<Rightarrow> bool \<Rightarrow> text_guard" where
  "tx_install f listening =
     (let g = \<lparr>tx_field = f, tx_accepted = None, tx_composition = None, tx_reported = None, tx_fresh = 0, tx_tasks = [],
        tx_listening = listening, tx_disposed = False, tx_rejections = [], tx_seen = []\<rparr>
      in if limitOf f = None then g else tx_remember g)"

section \<open>Only texts that fit reach the application\<close>

definition same_limits :: "text_field \<Rightarrow> text_field \<Rightarrow> bool" where
  "same_limits f h \<longleftrightarrow> tf_limit f = tf_limit h \<and> tf_count f = tf_count h"

definition tx_ok :: "text_field \<Rightarrow> text_guard \<Rightarrow> bool" where
  "tx_ok f g \<longleftrightarrow> same_limits f (tx_field g)
     \<and> (\<forall>s. tx_accepted g = Some s \<longrightarrow> text_fits f (sn_value s))
     \<and> (\<forall>c. tx_composition g = Some c \<longrightarrow> text_fits f (sn_value (cm_before c)))
     \<and> (\<forall>v\<in>set (tx_seen g). text_fits f v)"

lemma limits_fits: "same_limits f h \<Longrightarrow> text_fits h v = text_fits f v"
  by (simp add: same_limits_def text_fits_def limitOf_def)

lemma empty_fits [simp]: "text_fits f []"
  by (simp add: text_fits_def code_points_def split: option.splits)

lemma restore_limits [simp]: "same_limits f (restore s h) = same_limits f h"
  by (simp add: same_limits_def restore_def setSelectionRange_def Let_def)

lemma tx_fits_ok: "tx_ok f g \<Longrightarrow> tx_fits g v = text_fits f v"
  by (simp add: tx_fits_def tx_ok_def limits_fits)

lemma tx_accept_ok: "tx_ok f g \<Longrightarrow> tx_fits g (tx_value g) \<Longrightarrow> tx_ok f (tx_accept g)"
  using tx_fits_ok [of f g] by (simp add: tx_ok_def tx_accept_def tx_value_def)

lemma tx_remember_ok [intro]: "tx_ok f g \<Longrightarrow> tx_ok f (tx_remember g)"
  by (simp add: tx_remember_def tx_accept_ok)

lemma tx_restore_ok [simp]: "tx_ok f (tx_restore s g) = tx_ok f g"
  by (simp add: tx_ok_def tx_restore_def)

lemma tx_reject_ok [simp]: "tx_ok f (tx_reject s g) = tx_ok f g"
  by (simp add: tx_ok_def tx_reject_def)

lemma tx_previous_fits: "tx_ok f g \<Longrightarrow> text_fits f (sn_value (tx_previous g))"
  by (auto simp: tx_previous_def Let_def tx_fits_ok split: option.splits) (auto simp: tx_ok_def)

lemma tx_check_input_ok: "tx_ok f g \<Longrightarrow> tx_ok f (tx_check_input s g)"
  using tx_accept_ok [of f g] tx_fits_ok [of f g] by (simp add: tx_check_input_def) (auto simp: tx_ok_def tx_accept_def)

lemma tx_compose_ok:
  "tx_ok f g \<Longrightarrow> text_fits f (sn_value (cm_before c)) \<Longrightarrow> tx_ok f (g\<lparr>tx_composition := Some c, tx_fresh := n\<rparr>)"
  "tx_ok f g \<Longrightarrow> tx_ok f (g\<lparr>tx_composition := None\<rparr>)"
  by (simp_all add: tx_ok_def)

lemma tx_on_input_ok: "tx_ok f g \<Longrightarrow> tx_ok f (tx_on_input e g)"
  by (simp add: tx_on_input_def Let_def tx_check_input_ok tx_compose_ok split: option.splits)

lemma tx_on_beforeinput_ok: "tx_ok f g \<Longrightarrow> tx_ok f (snd (tx_on_beforeinput e g))"
  by (simp add: tx_on_beforeinput_def Let_def tx_remember_ok split: option.splits)

lemma tx_on_paste_ok: "tx_ok f g \<Longrightarrow> tx_ok f (snd (tx_on_paste t g))"
  by (simp add: tx_on_paste_def Let_def tx_remember_ok split: option.splits)

lemma tx_on_compositionend_ok:
  assumes "tx_ok f g"
  shows "tx_ok f (tx_on_compositionend g)"
proof -
  have "text_fits f (sn_value (cm_before (tx_current g)))"
    using assms tx_previous_fits [OF assms] by (auto simp: tx_current_def tx_ok_def split: option.splits)
  moreover have "tx_ok f (if tx_fits g (tx_value g) then tx_accept g else tx_restore (cm_before (tx_current g)) g)"
    using assms by (simp add: tx_accept_ok)
  ultimately show ?thesis unfolding tx_on_compositionend_def Let_def by (simp add: tx_ok_def)
qed

lemma tx_run_task_ok: "tx_ok f g \<Longrightarrow> tx_ok f (tx_run_task t g)"
proof (cases t)
  case (FinishComposition i data)
  assume "tx_ok f g"
  with FinishComposition tx_on_input_ok [OF tx_compose_ok(2)] tx_compose_ok(2) [of f g] show ?thesis
    by (simp add: Let_def split: option.splits)
qed (simp add: tx_ok_def)

lemma tx_handle_ok: "tx_ok f g \<Longrightarrow> tx_ok f (tx_handle a g)"
  using tx_previous_fits [OF tx_remember_ok, of f g]
  by (cases a) (simp_all add: tx_handle_def tx_remember_ok tx_on_beforeinput_ok tx_on_input_ok tx_on_paste_ok
      tx_on_compositionend_ok tx_on_compositionstart_def Let_def tx_compose_ok)

text \<open>Only disposing sets the flag.\<close>

lemma tx_disposed_simps [simp]:
  "tx_disposed (tx_remember g) = tx_disposed g" "tx_disposed (tx_reject s g) = tx_disposed g"
  "tx_disposed (tx_restore sn g) = tx_disposed g" "tx_disposed (tx_accept g) = tx_disposed g"
  "tx_disposed (tx_check_input s g) = tx_disposed g"
  by (simp_all add: tx_remember_def tx_reject_def tx_restore_def tx_accept_def tx_check_input_def)

lemma tx_on_input_disposed [simp]: "tx_disposed (tx_on_input e g) = tx_disposed g"
  by (simp add: tx_on_input_def Let_def split: option.splits)

lemma tx_handle_disposed [simp]: "tx_disposed (tx_handle a g) = tx_disposed g"
  by (simp add: tx_handle_def tx_on_beforeinput_def tx_on_paste_def tx_on_compositionstart_def tx_on_compositionend_def Let_def
      split: text_step.splits option.splits)

lemma tx_run_task_disposed [simp]: "tx_disposed (tx_run_task t g) = tx_disposed g"
  by (cases t) (simp_all add: Let_def split: option.splits)

lemma tx_step_ok:
  assumes "tx_ok f g" and "\<not> tx_disposed g" and "a \<noteq> TDispose" and "limitOf f \<noteq> None"
  shows "tx_ok f (tx_step a g) \<and> \<not> tx_disposed (tx_step a g)"
proof (cases a)
  case TRunTask
  have "tx_ok f (g\<lparr>tx_tasks := ts\<rparr>)" for ts using assms by (simp add: tx_ok_def)
  with TRunTask assms show ?thesis by (simp add: tx_step_def tx_run_task_ok split: list.splits)
next
  case (TNative v s e d)
  with assms show ?thesis by (simp add: tx_step_def tx_ok_def same_limits_def)
next
  case (TInput e)
  have "limitOf (tx_field g) = limitOf f" using assms(1) by (simp add: tx_ok_def same_limits_def limitOf_def)
  with assms TInput show ?thesis by (auto simp: tx_step_def tx_handle_ok)
qed (use assms in \<open>simp_all add: tx_step_def tx_handle_ok tx_remember_ok\<close>)

lemma tx_run_ok: "tx_ok f g \<Longrightarrow> \<not> tx_disposed g \<Longrightarrow> limitOf f \<noteq> None \<Longrightarrow> TDispose \<notin> set steps \<Longrightarrow>
    tx_ok f (fold tx_step steps g) \<and> \<not> tx_disposed (fold tx_step steps g)"
proof (induction steps arbitrary: g)
  case (Cons a steps)
  with tx_step_ok [of f g a] show ?case by auto
qed simp

text \<open>After disposing the application sees what the control holds.\<close>

fun raw_texts :: "text_step list \<Rightarrow> units \<Rightarrow> units list" where
  "raw_texts [] v = []"
| "raw_texts (TNative w _ _ _ # steps) v = raw_texts steps w"
| "raw_texts (TInput _ # steps) v = v # raw_texts steps v"
| "raw_texts (_ # steps) v = raw_texts steps v"

lemma tx_run_disposed: "tx_disposed g \<Longrightarrow> tx_seen (fold tx_step steps g) = tx_seen g @ raw_texts steps (tx_value g)"
proof (induction steps arbitrary: g)
  case (Cons a steps)
  have task: "tx_disposed h \<Longrightarrow> tx_run_task t h = h \<or> tx_run_task t h = h\<lparr>tx_reported := None\<rparr>" for t h
    by (cases t) (auto split: option.splits)
  have run: "tx_disposed (tx_step TRunTask g) \<and> tx_seen (tx_step TRunTask g) = tx_seen g \<and> tx_value (tx_step TRunTask g) = tx_value g"
  proof (cases "tx_tasks g")
    case (Cons t ts)
    with task [of "g\<lparr>tx_tasks := ts\<rparr>" t] \<open>tx_disposed g\<close> show ?thesis by (auto simp: tx_step_def tx_value_def)
  qed (use \<open>tx_disposed g\<close> in \<open>simp add: tx_step_def\<close>)
  from Cons run show ?case
    by (cases a) (simp_all add: tx_step_def tx_value_def tx_remember_def tx_accept_def)
qed simp

text \<open>
  Property C30: the application sees only texts within the limit until the guard is disposed. Whatever is
  typed, pasted, dropped, composed by an input method, edited natively or assigned, in whatever order,
  every input event of a text control with a limit that reaches the application carries a value within
  the limit, counted the way the control says, and so is the value that a rejected edit is rolled back
  to. From the moment the guard is disposed it changes nothing any more: every input event reaches the
  application, with the value the control was given.
\<close>

theorem text_guard_safe:
  assumes "limitOf f \<noteq> None" and "TDispose \<notin> set steps" and "g = fold tx_step steps (tx_install f listening)"
  shows "(\<forall>v\<in>set (tx_seen g). text_fits f v) \<and> text_fits f (sn_value (tx_previous g))
     \<and> tx_seen (fold tx_step (TDispose # later) g) = tx_seen g @ raw_texts later (tx_value g)"
proof -
  have "tx_ok f \<lparr>tx_field = f, tx_accepted = None, tx_composition = None, tx_reported = None, tx_fresh = 0, tx_tasks = [],
        tx_listening = listening, tx_disposed = False, tx_rejections = [], tx_seen = []\<rparr>"
    by (simp add: tx_ok_def same_limits_def)
  then have "tx_ok f (tx_install f listening)" "\<not> tx_disposed (tx_install f listening)"
    by (simp_all add: tx_install_def Let_def tx_remember_ok)
  then have ok: "tx_ok f g" unfolding assms(3) using tx_run_ok assms(1,2) by blast
  have "tx_seen (fold tx_step (TDispose # later) g) = tx_seen g @ raw_texts later (tx_value g)"
    using tx_run_disposed [of "tx_step TDispose g" later] by (simp add: tx_step_def tx_value_def)
  with ok tx_previous_fits [OF ok] show ?thesis by (simp add: tx_ok_def)
qed

theorem text_guard_safe_witness:
  "let f = \<lparr>fd_value = [], fd_start = Some 0, fd_end = Some 0, fd_direction = [], fd_default = None,
      tf_limit = Some ''1'', tf_count = ''utf16'', tf_name = ''input''\<rparr>;
     g = fold tx_step [TNative [65] (Some 1) (Some 1) [],
       TInput \<lparr>ie_type = ''insertText'', ie_data = None, ie_transfer = None, ie_composing = False\<rparr>,
       TNative [65, 66] (Some 2) (Some 2) [],
       TInput \<lparr>ie_type = ''insertFromPaste'', ie_data = None, ie_transfer = None, ie_composing = False\<rparr>] (tx_install f True)
   in tx_seen g = [[65]] \<and> tx_value g = [65] \<and> tx_rejections g = [(''paste'', 1)]
     \<and> text_fits f [65]"
proof -
  define f where "f = \<lparr>fd_value = [], fd_start = Some 0, fd_end = Some 0, fd_direction = [], fd_default = None,
      tf_limit = Some ''1'', tf_count = ''utf16'', tf_name = ''input''\<rparr>"
  define steps where "steps = [TNative [65] (Some 1) (Some 1) [],
       TInput \<lparr>ie_type = ''insertText'', ie_data = None, ie_transfer = None, ie_composing = False\<rparr>,
       TNative [65, 66] (Some 2) (Some 2) [],
       TInput \<lparr>ie_type = ''insertFromPaste'', ie_data = None, ie_transfer = None, ie_composing = False\<rparr>]"
  define g where "g = fold tx_step steps (tx_install f True)"
  have "tx_seen g = [[65]] \<and> tx_value g = [65] \<and> tx_rejections g = [(''paste'', 1)]"
    unfolding g_def f_def steps_def by code_simp
  moreover have "limitOf f \<noteq> None" "TDispose \<notin> set steps" unfolding f_def steps_def by code_simp+
  ultimately show ?thesis using text_guard_safe [OF _ _ g_def] unfolding g_def f_def steps_def Let_def by simp
qed

end
