(* ===== verification/Payment_Uri.thy ===== *)
theory Payment_Uri
  imports Money Js_Units
begin

text \<open>
  Payment links and the texts copied for a payment (\<open>src/src/core/payment-uri.mjs\<close>). Texts are lists of
  UTF-16 code units; an argument that is not a text is \<open>None\<close>.
\<close>

datatype uri_error =
    AmountError error
  | NotText string | TextTooLong string | TextCharacter string   \<comment> \<open>of the label or the message\<close>
  | BadPercent             \<comment> \<open>invalid percent encoding or Unicode\<close>
  | UriTooLong             \<comment> \<open>The payment link must be text of no more than 1024 characters\<close>
  | UriScheme              \<comment> \<open>Enter a connectcoin: payment link\<close>
  | UriCharacter | UriAddress | UriEmptyQuery | UriField | UriParameter | UriDuplicate
  | UriAmountSpaces | UriRequired | UriInstruction
  | ClipboardTooLong | ClipboardCharacter | ClipboardInvalid
  | NoReceiveAddress | RequestTooLong

definition PAYMENT_LABEL_MAX_LENGTH :: nat where "PAYMENT_LABEL_MAX_LENGTH = 100"
definition PAYMENT_MESSAGE_MAX_LENGTH :: nat where "PAYMENT_MESSAGE_MAX_LENGTH = 200"
definition PAYMENT_URI_MAX_LENGTH :: nat where "PAYMENT_URI_MAX_LENGTH = 1024"

text \<open>The pattern \<open>ADDRESS\<close>.\<close>

definition address_body :: "units \<Rightarrow> bool" where
  "address_body s \<longleftrightarrow> length s = 58 \<and> (\<forall>c\<in>set s. c \<in> set (units ''qpzry9x8gf2tvdw0s3jn54khce6mua7l''))"

definition ADDRESS :: "units \<Rightarrow> bool" where
  "ADDRESS s \<longleftrightarrow> take 4 s = units ''cc1p'' \<and> address_body (drop 4 s)
     \<or> take 5 s = units ''tcc1p'' \<and> address_body (drop 5 s) \<or> take 6 s = units ''ccrt1p'' \<and> address_body (drop 6 s)"

text \<open>
  \<open>paymentAmount\<close> on a text: a unit outside the range of \<open>char\<close> that \<open>trim\<close> leaves is refused by the
  pattern, like every other character that is not a digit or a point.
\<close>

definition payment_amount :: "units option \<Rightarrow> uri_error + units" where
  "payment_amount value = (case value of None \<Rightarrow> Inl (AmountError BadRequestAmount)
     | Some v \<Rightarrow>
         let v = unit_trim v in
         if list_ex (\<lambda>c. 128 \<le> c) v then Inl (AmountError BadRequestAmount)
         else (case paymentAmount (JStr (of_units v)) of Inl e \<Rightarrow> Inl (AmountError e) | Inr t \<Rightarrow> Inr (units t)))"

definition unsupported_point :: "nat \<Rightarrow> bool" where
  "unsupported_point p \<longleftrightarrow> control_point p \<or> lone_surrogate p \<or> direction_point p"

definition paymentText :: "units option \<Rightarrow> string \<Rightarrow> nat \<Rightarrow> bool \<Rightarrow> uri_error + units" where
  "paymentText value name limit multiline = (case value of None \<Rightarrow> Inl (NotText name)
     | Some v \<Rightarrow>
         let v = unit_trim v; v = (if multiline then unify_newlines v else v) in
         if code_points v > limit then Inl (TextTooLong name)
         else if list_ex unsupported_point (code_point_list (if multiline then filter (\<lambda>c. c \<noteq> 10) v else v))
         then Inl (TextCharacter name) else Inr v)"

definition validatePaymentDetails :: "units option \<Rightarrow> units option \<Rightarrow> uri_error + units \<times> units" where
  "validatePaymentDetails label message =
     bindE (paymentText label ''Label'' PAYMENT_LABEL_MAX_LENGTH False) (\<lambda>l.
     bindE (paymentText message ''Message'' PAYMENT_MESSAGE_MAX_LENGTH True) (\<lambda>m. Inr (l, m)))"

definition decodePaymentComponent :: "units \<Rightarrow> uri_error + units" where
  "decodePaymentComponent v = (case decodeURIComponent v of None \<Rightarrow> Inl BadPercent | Some t \<Rightarrow> Inr t)"

section \<open>Parsing\<close>

record payment_details =
  pd_address :: units
  pd_amount :: units
  pd_label :: units
  pd_message :: units
  pd_ignored :: "units list"

definition connectcoin :: units where "connectcoin = units ''connectcoin:''"

definition has_scheme :: "units \<Rightarrow> bool" where
  "has_scheme s \<longleftrightarrow> map unit_lower (take 12 s) = connectcoin"

text \<open>An address in one case; the checks that the link and the clipboard share.\<close>

definition plain_address :: "units \<Rightarrow> bool" where
  "plain_address a \<longleftrightarrow> \<not> list_ex (\<lambda>c. 128 \<le> c) a \<and> (a = map unit_lower a \<or> a = map unit_upper a) \<and> ADDRESS (map unit_lower a)"

text \<open>The text before and after the first separator.\<close>

definition cut_at :: "nat \<Rightarrow> units \<Rightarrow> units \<times> units option" where
  "cut_at c s = (takeWhile (\<lambda>x. x \<noteq> c) s, case dropWhile (\<lambda>x. x \<noteq> c) s of [] \<Rightarrow> None | _ # t \<Rightarrow> Some t)"

definition parameter_name :: "units \<Rightarrow> bool" where
  "parameter_name n \<longleftrightarrow> (case n of [] \<Rightarrow> False
     | c # s \<Rightarrow> unit_alpha c \<and> length s \<le> 63 \<and> list_all (\<lambda>d. unit_alpha d \<or> unit_digit d \<or> d = 45) s)"

definition refused_keys :: "string list" where
  "refused_keys = [''r'', ''pj'', ''pjos'', ''payjoin'', ''payment-protocol'', ''network'', ''chain'', ''fee'', ''feerate'',
     ''fee-rate'', ''address'', ''domain'', ''lightning'', ''lno'', ''lna'']"

definition apply_parameter :: "bool \<Rightarrow> units \<Rightarrow> units \<Rightarrow> payment_details \<Rightarrow> uri_error + payment_details" where
  "apply_parameter required key value r =
     (if key = units ''amount''
      then (if value \<noteq> unit_trim value then Inl UriAmountSpaces
        else bindE (payment_amount (Some value)) (\<lambda>v. Inr (r\<lparr>pd_amount := v\<rparr>)))
      else if key = units ''label''
      then bindE (paymentText (Some value) ''Label'' PAYMENT_LABEL_MAX_LENGTH False) (\<lambda>v. Inr (r\<lparr>pd_label := v\<rparr>))
      else if key = units ''message''
      then bindE (paymentText (Some value) ''Message'' PAYMENT_MESSAGE_MAX_LENGTH True) (\<lambda>v. Inr (r\<lparr>pd_message := v\<rparr>))
      else if required then Inl UriRequired
      else if key \<in> set (map units refused_keys) then Inl UriInstruction
      else Inr (r\<lparr>pd_ignored := pd_ignored r @ [key]\<rparr>))"

definition parse_field :: "units \<Rightarrow> payment_details \<times> units list \<Rightarrow> uri_error + payment_details \<times> units list" where
  "parse_field field = (\<lambda>(r, seen). case cut_at 61 field of
       (_, None) \<Rightarrow> Inl UriField
     | (raw_name, Some raw_value) \<Rightarrow>
         if raw_name = [] then Inl UriField
         else bindE (decodePaymentComponent raw_name) (\<lambda>name. bindE (decodePaymentComponent raw_value) (\<lambda>value.
           let required = (take 4 name = units ''req-''); key = (if required then drop 4 name else name);
               tested = (if key = units ''message'' then filter (\<lambda>c. c \<noteq> 13 \<and> c \<noteq> 10) value else value) in
           if \<not> parameter_name name \<or> list_ex unsupported_point (code_point_list tested) then Inl UriParameter
           else if key \<in> set seen then Inl UriDuplicate
           else bindE (apply_parameter required key value r) (\<lambda>r. Inr (r, key # seen)))))"

definition link_address :: "units \<Rightarrow> uri_error + units" where
  "link_address a =
     (let a = (if a \<noteq> [] \<and> last a = 47 then butlast a else a) in
      if plain_address a then Inr (map unit_lower a) else Inl UriAddress)"

definition parsePaymentUri :: "units option \<Rightarrow> uri_error + payment_details" where
  "parsePaymentUri uri = (case uri of None \<Rightarrow> Inl UriTooLong
     | Some uri \<Rightarrow>
         if length uri > PAYMENT_URI_MAX_LENGTH then Inl UriTooLong
         else let uri = unit_trim uri in
           if \<not> has_scheme uri then Inl UriScheme
           else if list_ex (\<lambda>p. control_point p \<or> lone_surrogate p \<or> unit_space p \<or> p = 35) (code_point_list uri) then Inl UriCharacter
           else let (before, query) = cut_at 63 (drop 12 uri) in
             bindE (link_address before) (\<lambda>a.
             let r = \<lparr>pd_address = a, pd_amount = [], pd_label = [], pd_message = [], pd_ignored = []\<rparr> in
             case query of None \<Rightarrow> Inr r
             | Some q \<Rightarrow> if q = [] then Inl UriEmptyQuery
                 else bindE (foldE parse_field (split_units (\<lambda>c. c = 38) q) (r, [])) (\<lambda>(r, _). Inr r)))"

text \<open>The kind of a copied text, with its details.\<close>

datatype clipboard_kind = UriText | AddressText

definition parseClipboardPaymentText :: "units option \<Rightarrow> uri_error + payment_details \<times> clipboard_kind" where
  "parseClipboardPaymentText copied = (case copied of None \<Rightarrow> Inl ClipboardTooLong
     | Some t \<Rightarrow>
         if length t > PAYMENT_URI_MAX_LENGTH then Inl ClipboardTooLong
         else if list_ex (\<lambda>p. control_point p \<or> lone_surrogate p) (code_point_list t) then Inl ClipboardCharacter
         else let t = unit_trim t in
           if has_scheme t then bindE (parsePaymentUri (Some t)) (\<lambda>r. Inr (r, UriText))
           else if \<not> plain_address t then Inl ClipboardInvalid
           else Inr (\<lparr>pd_address = map unit_lower t, pd_amount = [], pd_label = [], pd_message = [], pd_ignored = []\<rparr>, AddressText))"

section \<open>Building\<close>

fun join_fields :: "units list \<Rightarrow> units" where
  "join_fields [] = []"
| "join_fields [f] = f"
| "join_fields (f # fs) = f @ 38 # join_fields fs"

definition uri_field :: "string \<Rightarrow> units \<Rightarrow> uri_error + units list" where
  "uri_field key v = (if v = [] then Inr [] else case encodeURIComponent v of
       None \<Rightarrow> Inl BadPercent | Some t \<Rightarrow> Inr [units key @ 61 # t])"

definition buildPaymentUri :: "units option \<Rightarrow> units option \<Rightarrow> units option \<Rightarrow> units option \<Rightarrow> uri_error + units" where
  "buildPaymentUri address amount label message = (case address of None \<Rightarrow> Inl NoReceiveAddress
     | Some a \<Rightarrow>
         if \<not> ADDRESS a then Inl NoReceiveAddress
         else bindE (payment_amount amount) (\<lambda>amount.
           bindE (paymentText label ''Label'' PAYMENT_LABEL_MAX_LENGTH False) (\<lambda>label.
           bindE (paymentText message ''Message'' PAYMENT_MESSAGE_MAX_LENGTH True) (\<lambda>message.
           bindE (uri_field ''amount'' amount) (\<lambda>f. bindE (uri_field ''label'' label) (\<lambda>g. bindE (uri_field ''message'' message) (\<lambda>h.
           let query = join_fields (f @ g @ h); uri = connectcoin @ a @ (if query \<noteq> [] then 63 # query else []) in
           if length uri > PAYMENT_URI_MAX_LENGTH then Inl RequestTooLong else Inr uri)))))))"

end
