(* ===== verification/Mobile_Model.thy ===== *)
theory Mobile_Model
  imports Address Payment_Uri Address_Sync
begin

text \<open>
  The public model of the mobile wallet (\<open>src/mobile/src/model.mjs\<close>): what it accepts from the server, the
  amounts it shows and the bounded history it displays. Every object must have exactly the fields that
  are expected. The libraries for Bech32m and the curve are arguments, as in the theory \<open>Address\<close>.
\<close>

datatype mobile_error = MobileInvalid | WrongNetwork | MobileAddress

definition MAINNET_GENESIS :: string where
  "MAINNET_GENESIS = ''30a3a7543f593b6343873a16aeb61005dce0fe3f4169ab34039316b2a9bb373e''"

definition MAX_HISTORY :: nat where "MAX_HISTORY = 2000"
definition MAX_PAGE :: nat where "MAX_PAGE = 500"

definition TIP_FIELDS :: "string list" where
  "TIP_FIELDS = [''chain'', ''genesis_hash'', ''height'', ''hash'', ''mediantime'']"

definition BALANCE_FIELDS :: "string list" where
  "BALANCE_FIELDS = [''confirmed'', ''immature'', ''available_confirmed'', ''pending_received'', ''pending_spent'', ''pending_delta'', ''total'']"

definition HISTORY_FIELDS :: "string list" where
  "HISTORY_FIELDS = [''txid'', ''status'', ''block_height'', ''block_hash'', ''confirmations'', ''received'', ''spent'', ''balance_delta'']"

section \<open>Fields\<close>

definition mobile_record :: "js_value \<Rightarrow> string list \<Rightarrow> mobile_error + js_value" where
  "mobile_record v names = (case v of
       VObj m \<Rightarrow> if length m \<noteq> length names \<or> list_ex (\<lambda>(k, _). k \<notin> set names) m then Inl MobileInvalid
         else if list_all (js_own v) names then Inr v else Inl MobileInvalid
     | _ \<Rightarrow> Inl MobileInvalid)"

text \<open>The negative zero is refused.\<close>

definition mobile_integer :: "js_value \<Rightarrow> mobile_error + int" where
  "mobile_integer v = (case v of VInt n \<Rightarrow> if safe_integer n \<and> 0 \<le> n then Inr n else Inl MobileInvalid | _ \<Rightarrow> Inl MobileInvalid)"

definition mobile_hash :: "js_value \<Rightarrow> mobile_error + string" where
  "mobile_hash v = (if js_hash v then Inr (js_text v) else Inl MobileInvalid)"

definition money_text :: "bool \<Rightarrow> string \<Rightarrow> int option" where
  "money_text signed_value s =
     (if canonical_dec 18 s then Some (int (dec_val s))
      else case s of c # t \<Rightarrow> if signed_value \<and> c = CHR ''-'' \<and> canonical_dec 18 t \<and> t \<noteq> ''0'' then Some (- int (dec_val t)) else None
        | [] \<Rightarrow> None)"

definition mobile_money :: "bool \<Rightarrow> js_value \<Rightarrow> mobile_error + int" where
  "mobile_money signed_value v = (case v of
       VStr s \<Rightarrow> if length s > 20 then Inl MobileInvalid
         else (case money_text signed_value s of None \<Rightarrow> Inl MobileInvalid
           | Some amount \<Rightarrow> if amount > MAX_MONEY \<or> amount < (if signed_value then - MAX_MONEY else 0)
               then Inl MobileInvalid else Inr amount)
     | _ \<Rightarrow> Inl MobileInvalid)"

section \<open>Addresses and amounts\<close>

text \<open>Every failure, of the text, of a library or of a check, ends in one message.\<close>

definition parseMainnetAddress :: "bech32_lib \<Rightarrow> (bytes \<Rightarrow> bool) \<Rightarrow> units option \<Rightarrow> mobile_error + string" where
  "parseMainnetAddress lib on_curve copied = (case parseClipboardPaymentText copied of
       Inl _ \<Rightarrow> Inl MobileAddress
     | Inr (r, _) \<Rightarrow>
         let address = of_units (pd_address r) in
         if length address > 90 then Inl MobileAddress
         else (case b32_decode lib address of
             Some (prefix, w # words) \<Rightarrow>
               if prefix \<noteq> ''cc'' \<or> w \<noteq> 1 then Inl MobileAddress
               else (case b32_fromWords lib words of
                   Some key \<Rightarrow>
                     if length key \<noteq> 32 \<or> \<not> on_curve key then Inl MobileAddress
                     else Inr (b32_encode lib ''cc'' (1 # b32_toWords lib key))
                 | None \<Rightarrow> Inl MobileAddress)
           | _ \<Rightarrow> Inl MobileAddress))"

definition formatConn :: "js_value \<Rightarrow> mobile_error + string" where
  "formatConn v = bindE (mobile_money True v) (\<lambda>amount.
     Inr ((if amount < 0 then ''-'' else []) @ coin_text (if amount < 0 then - amount else amount)))"

definition mobile_validateTip :: "js_value \<Rightarrow> mobile_error + chain_tip" where
  "mobile_validateTip v = bindE (mobile_record v TIP_FIELDS) (\<lambda>tip.
     if js_prop tip ''chain'' \<noteq> VStr ''main'' \<or> js_prop tip ''genesis_hash'' \<noteq> VStr MAINNET_GENESIS then Inl WrongNetwork
     else bindE (mobile_integer (js_prop tip ''height'')) (\<lambda>height.
       bindE (mobile_hash (js_prop tip ''hash'')) (\<lambda>hash.
       bindE (mobile_integer (js_prop tip ''mediantime'')) (\<lambda>mediantime.
         if height = 0 \<and> hash \<noteq> MAINNET_GENESIS then Inl MobileInvalid
         else Inr \<lparr>ct_chain = ''main'', ct_genesis = MAINNET_GENESIS, ct_height = height, ct_hash = hash, ct_textual = True, ct_mediantime = mediantime\<rparr>))))"

section \<open>Answers of the server\<close>

text \<open>\<open>parse\<close> is \<open>parseMainnetAddress\<close> with its libraries.\<close>

definition addressEnvelope ::
    "(units option \<Rightarrow> mobile_error + string) \<Rightarrow> js_value \<Rightarrow> units option \<Rightarrow> mobile_error + string \<times> chain_tip" where
  "addressEnvelope parse result address = bindE (parse address) (\<lambda>canonical.
     if js_prop result ''address'' \<noteq> VStr canonical \<or> js_prop result ''unit'' \<noteq> VStr ''connects'' then Inl MobileInvalid
     else bindE (mobile_validateTip (js_prop result ''tip'')) (\<lambda>tip. Inr (canonical, tip)))"

record address_balance =
  ab_address :: string
  ab_tip :: chain_tip
  ab_confirmed :: int
  ab_immature :: int
  ab_available :: int
  ab_received :: int
  ab_spent :: int
  ab_delta :: int
  ab_total :: int

definition balance_amounts :: "js_value \<Rightarrow> mobile_error + int list" where
  "balance_amounts result = mapE (\<lambda>field. mobile_money (field = ''pending_delta'') (js_prop result field)) BALANCE_FIELDS"

definition validateBalance ::
    "(units option \<Rightarrow> mobile_error + string) \<Rightarrow> js_value \<Rightarrow> units option \<Rightarrow> mobile_error + address_balance" where
  "validateBalance parse result address = bindE (mobile_record result ([''address'', ''tip'', ''unit''] @ BALANCE_FIELDS)) (\<lambda>result.
     bindE (addressEnvelope parse result address) (\<lambda>(canonical, tip). bindE (balance_amounts result) (\<lambda>amounts.
     case amounts of
       [confirmed, immature, available, received, spent, delta, total_amount] \<Rightarrow>
         if available \<noteq> confirmed - immature - spent \<or> delta \<noteq> received - spent \<or> total_amount \<noteq> confirmed + delta
         then Inl MobileInvalid
         else Inr \<lparr>ab_address = canonical, ab_tip = tip, ab_confirmed = confirmed, ab_immature = immature, ab_available = available,
                ab_received = received, ab_spent = spent, ab_delta = delta, ab_total = total_amount\<rparr>
     | _ \<Rightarrow> Inl MobileInvalid)))"

text \<open>The place of a transaction: its status, and for a confirmed one its block, checked against the tip if there is one.\<close>

definition history_place :: "js_value \<Rightarrow> int \<Rightarrow> chain_tip option \<Rightarrow> mobile_error + (int \<times> string) option" where
  "history_place row confirmations tip =
     (let height = js_prop row ''block_height''; hash = js_prop row ''block_hash'' in
      if js_prop row ''status'' = VStr ''pending''
      then (if height \<noteq> VNull \<or> hash \<noteq> VNull \<or> confirmations \<noteq> 0 then Inl MobileInvalid else Inr None)
      else if js_prop row ''status'' = VStr ''confirmed''
      then bindE (mobile_integer height) (\<lambda>height. bindE (mobile_hash hash) (\<lambda>hash.
        if confirmations < 1 \<or> height = 0 \<and> hash \<noteq> MAINNET_GENESIS then Inl MobileInvalid
        else if (case tip of None \<Rightarrow> False | Some t \<Rightarrow> height > ct_height t \<or> confirmations \<noteq> ct_height t - height + 1
            \<or> height = ct_height t \<and> hash \<noteq> ct_hash t) then Inl MobileInvalid
        else Inr (Some (height, hash))))
      else Inl MobileInvalid)"

definition historyItem :: "js_value \<Rightarrow> chain_tip option \<Rightarrow> mobile_error + history_row" where
  "historyItem v tip = bindE (mobile_record v HISTORY_FIELDS) (\<lambda>row. bindE (mobile_hash (js_prop row ''txid'')) (\<lambda>txid.
     bindE (mobile_integer (js_prop row ''confirmations'')) (\<lambda>confirmations. bindE (history_place row confirmations tip) (\<lambda>place.
     bindE (mobile_money False (js_prop row ''received'')) (\<lambda>received. bindE (mobile_money False (js_prop row ''spent'')) (\<lambda>spent.
     bindE (mobile_money True (js_prop row ''balance_delta'')) (\<lambda>delta.
       if delta \<noteq> received - spent then Inl MobileInvalid
       else Inr \<lparr>sr_txid = txid, sr_pending = (place = None), sr_height = map_option fst place, sr_confirmations = confirmations,
              hr_hash = map_option snd place, hr_received = received, hr_spent = spent, hr_delta = delta\<rparr>)))))))"

definition cursor_part :: "string \<Rightarrow> bool" where
  "cursor_part s \<longleftrightarrow> s \<noteq> [] \<and> list_all (\<lambda>c. is_alnum c \<or> c \<in> {CHR ''_'', CHR ''-''}) s"

definition history_cursor :: "js_value \<Rightarrow> bool" where
  "history_cursor v = (case v of VStr s \<Rightarrow> length s \<le> 1024 \<and>
       (case js_split (CHR ''.'') s of [a, b] \<Rightarrow> cursor_part a \<and> cursor_part b | _ \<Rightarrow> False) | _ \<Rightarrow> False)"

record history_page =
  hp_address :: string
  hp_tip :: chain_tip
  hp_items :: "history_row list"
  hp_cursor :: "string option"

definition validateHistory ::
    "(units option \<Rightarrow> mobile_error + string) \<Rightarrow> bool \<Rightarrow> js_value \<Rightarrow> units option \<Rightarrow> mobile_error + history_page" where
  "validateHistory parse allow_empty result address =
     bindE (mobile_record result [''address'', ''tip'', ''unit'', ''live'', ''items'', ''next_cursor'']) (\<lambda>result.
     bindE (addressEnvelope parse result address) (\<lambda>(canonical, tip).
     case js_prop result ''items'' of
       VArr items \<Rightarrow>
         let cursor = js_prop result ''next_cursor'' in
         if js_prop result ''live'' \<noteq> VBool True \<or> length items > MAX_PAGE then Inl MobileInvalid
         else if cursor \<noteq> VNull \<and> (\<not> history_cursor cursor \<or> \<not> allow_empty \<and> items = []) then Inl MobileInvalid
         else bindE (mapE (\<lambda>item. historyItem item (Some tip)) items) (\<lambda>rows.
           if \<not> distinct (map sr_txid rows) then Inl MobileInvalid
           else Inr \<lparr>hp_address = canonical, hp_tip = tip, hp_items = rows,
                  hp_cursor = (if cursor = VNull then None else Some (js_text cursor))\<rparr>)
     | _ \<Rightarrow> Inl MobileInvalid))"

section \<open>The displayed history\<close>

text \<open>A difference with \<open>null\<close> takes it as zero.\<close>

definition row_height :: "history_row \<Rightarrow> int" where
  "row_height row = (case sr_height row of Some h \<Rightarrow> h | None \<Rightarrow> 0)"

definition compare_rows :: "history_row \<Rightarrow> history_row \<Rightarrow> int" where
  "compare_rows a b =
     (if sr_pending a \<noteq> sr_pending b then (if sr_pending a then - 1 else 1)
      else if sr_height a \<noteq> sr_height b then row_height b - row_height a
      else text_cmp (sr_txid a) (sr_txid b))"

definition add_history :: "js_value list \<Rightarrow> (string, history_row) jmap \<Rightarrow> mobile_error + (string, history_row) jmap" where
  "add_history = foldE (\<lambda>v rows. bindE (historyItem v None) (\<lambda>item. Inr (jset rows (sr_txid item) item)))"

definition mergeHistory :: "js_value \<Rightarrow> js_value \<Rightarrow> mobile_error + history_row list" where
  "mergeHistory existing incoming = (case (existing, incoming) of
       (VArr a, VArr b) \<Rightarrow>
         if length a > MAX_HISTORY \<or> length b > MAX_HISTORY then Inl MobileInvalid
         else bindE (add_history a []) (\<lambda>rows. bindE (add_history b rows) (\<lambda>rows.
           Inr (take MAX_HISTORY (js_sort compare_rows (map snd rows)))))
     | _ \<Rightarrow> Inl MobileInvalid)"

section \<open>The displayed history is ordered and bounded\<close>

definition compare_place :: "history_row \<Rightarrow> history_row \<Rightarrow> int" where
  "compare_place a b =
     (if sr_pending a \<noteq> sr_pending b then (if sr_pending a then - 1 else 1)
      else if row_height a \<noteq> row_height b then row_height b - row_height a
      else text_cmp (sr_txid a) (sr_txid b))"

interpretation place_order: js_comparator compare_place
proof unfold_locales
  show "compare_place a b \<le> 0 \<or> compare_place b a \<le> 0" for a b
    by (auto simp: compare_place_def text_cmp_def)
  show "compare_place a b \<le> 0 \<Longrightarrow> compare_place b c \<le> 0 \<Longrightarrow> compare_place a c \<le> 0" for a b c
    by (auto simp: compare_place_def text_cmp_def split: if_splits)
qed

definition placed :: "history_row \<Rightarrow> bool" where
  "placed row \<longleftrightarrow> sr_pending row = (sr_height row = None)"

lemma compare_rows_placed: "placed a \<Longrightarrow> placed b \<Longrightarrow> compare_rows a b = compare_place a b"
  by (auto simp: placed_def compare_rows_def compare_place_def row_height_def split: option.splits)

lemma insert_cmp_cong: "(\<And>y. y \<in> set ys \<Longrightarrow> f x y = g x y) \<Longrightarrow> insert_cmp f x ys = insert_cmp g x ys"
  by (induction ys) auto

lemma js_sort_cong: "(\<And>x y. x \<in> set xs \<Longrightarrow> y \<in> set xs \<Longrightarrow> f x y = g x y) \<Longrightarrow> js_sort f xs = js_sort g xs"
proof (induction xs)
  case (Cons x xs)
  then have "js_sort f xs = js_sort g xs" by simp
  with Cons.prems show ?case by (auto intro!: insert_cmp_cong)
qed simp

lemma historyItem_placed: "historyItem v tip = Inr row \<Longrightarrow> placed row"
  by (auto simp: historyItem_def placed_def split: if_splits)

definition history_rows_ok :: "(string, history_row) jmap \<Rightarrow> bool" where
  "history_rows_ok rows \<longleftrightarrow> wf_jmap rows \<and> (\<forall>(k, row)\<in>set rows. sr_txid row = k \<and> placed row)"

lemma add_history_ok: "history_rows_ok rows \<Longrightarrow> add_history vs rows = Inr rows' \<Longrightarrow> history_rows_ok rows'"
proof (induction vs arbitrary: rows)
  case (Cons v vs)
  from Cons.prems(2) obtain row where row: "historyItem v None = Inr row" "add_history vs (jset rows (sr_txid row) row) = Inr rows'"
    by (auto simp: add_history_def)
  have "history_rows_ok (jset rows (sr_txid row) row)"
    using Cons.prems(1) historyItem_placed [OF row(1)] unfolding history_rows_ok_def
    by (intro conjI wf_jset ball_jset) auto
  from Cons.IH [OF this row(2)] show ?case .
qed (simp add: add_history_def)

text \<open>
  Property C31: the displayed history. The merge of two accepted histories has at most 2000 rows, at most one per
  transaction, and shows the pending transactions first and the confirmed ones after them from the
  highest block down, ties ordered by transaction.
\<close>

theorem merged_history_ordered:
  assumes "mergeHistory existing incoming = Inr rows"
  shows "length rows \<le> 2000 \<and> distinct (map sr_txid rows) \<and>
    sorted_wrt (\<lambda>a b. (sr_pending b \<longrightarrow> sr_pending a) \<and> (sr_pending a = sr_pending b \<longrightarrow>
      row_height a > row_height b \<or> row_height a = row_height b \<and> sr_txid a \<le> sr_txid b)) rows"
proof -
  from assms obtain a b r1 r2 where "existing = VArr a" "incoming = VArr b" and r1: "add_history a [] = Inr r1"
      and r2: "add_history b r1 = Inr r2" and rows: "rows = take MAX_HISTORY (js_sort compare_rows (map snd r2))"
    by (auto simp: mergeHistory_def split: js_value.splits if_splits)
  have "history_rows_ok []" by (simp add: history_rows_ok_def)
  from add_history_ok [OF add_history_ok [OF this r1] r2] have ok: "history_rows_ok r2" .
  then have "js_sort compare_rows (map snd r2) = js_sort compare_place (map snd r2)"
    by (intro js_sort_cong compare_rows_placed) (auto simp: history_rows_ok_def)
  moreover have "sorted_wrt (\<lambda>a b. compare_place a b \<le> 0) (take MAX_HISTORY (js_sort compare_place (map snd r2)))"
    by (rule sorted_wrt_take [OF place_order.sorted_js_sort])
  ultimately have s: "sorted_wrt (\<lambda>a b. compare_place a b \<le> 0) rows" unfolding rows by simp
  have "map (sr_txid \<circ> snd) r2 = map fst r2"
    using ok by (auto simp: history_rows_ok_def)
  with ok have "distinct (map sr_txid (map snd r2))" by (simp only: history_rows_ok_def wf_jmap_def map_map)
  then have "distinct (map sr_txid (js_sort compare_rows (map snd r2)))" by (simp only: distinct_map_js_sort)
  then have "distinct (map sr_txid rows)" unfolding rows by (simp add: take_map [symmetric])
  moreover have "length rows \<le> 2000" by (simp add: rows MAX_HISTORY_def)
  moreover from s have "sorted_wrt (\<lambda>a b. (sr_pending b \<longrightarrow> sr_pending a) \<and> (sr_pending a = sr_pending b \<longrightarrow>
      row_height a > row_height b \<or> row_height a = row_height b \<and> sr_txid a \<le> sr_txid b)) rows"
    by (rule sorted_wrt_mono_rel [rotated]) (auto simp: compare_place_def text_cmp_def split: if_splits)
  ultimately show ?thesis by blast
qed

text \<open>Two rows, the pending one older in the list.\<close>

definition ex_row :: "string \<Rightarrow> js_value \<Rightarrow> js_value \<Rightarrow> js_value \<Rightarrow> js_value \<Rightarrow> js_value" where
  "ex_row i status height hash count = VObj [(''txid'', VStr i), (''status'', status), (''block_height'', height),
     (''block_hash'', hash), (''confirmations'', count), (''received'', VStr ''7''), (''spent'', VStr ''2''), (''balance_delta'', VStr ''5'')]"

definition ex_txid :: string where "ex_txid = replicate 64 (CHR ''a'')"

theorem merged_history_ordered_witness:
  "\<exists>rows. mergeHistory (VArr [ex_row MAINNET_GENESIS (VStr ''confirmed'') (VInt 9) (VStr ex_txid) (VInt 3)])
      (VArr [ex_row ex_txid (VStr ''pending'') VNull VNull (VInt 0)]) = Inr rows
    \<and> map sr_txid rows = [ex_txid, MAINNET_GENESIS] \<and> length rows \<le> 2000"
proof -
  define a b where "a = \<lparr>sr_txid = MAINNET_GENESIS, sr_pending = False, sr_height = Some 9, sr_confirmations = 3,
      hr_hash = Some ex_txid, hr_received = 7, hr_spent = 2, hr_delta = 5\<rparr>"
    and "b = \<lparr>sr_txid = ex_txid, sr_pending = True, sr_height = None, sr_confirmations = 0,
      hr_hash = None, hr_received = 7, hr_spent = 2, hr_delta = 5\<rparr>"
  have "historyItem (ex_row MAINNET_GENESIS (VStr ''confirmed'') (VInt 9) (VStr ex_txid) (VInt 3)) None = Inr a"
    unfolding a_def by code_simp
  moreover have "historyItem (ex_row ex_txid (VStr ''pending'') VNull VNull (VInt 0)) None = Inr b"
    unfolding b_def by code_simp
  moreover have "ex_txid \<noteq> MAINNET_GENESIS" by code_simp
  ultimately have r: "mergeHistory (VArr [ex_row MAINNET_GENESIS (VStr ''confirmed'') (VInt 9) (VStr ex_txid) (VInt 3)])
      (VArr [ex_row ex_txid (VStr ''pending'') VNull VNull (VInt 0)]) = Inr [b, a]"
    by (simp add: mergeHistory_def add_history_def MAX_HISTORY_def compare_rows_def a_def b_def)
  with merged_history_ordered [OF r] show ?thesis by (simp add: a_def b_def)
qed

end
