(* ===== verification/Hd_Sync.thy ===== *)
theory Hd_Sync
  imports Mobile_Model Sync_Laws
begin

text \<open>
  The synchronization of the mobile wallet (\<open>src/mobile/src/hd-sync.mjs\<close>), adapted from the desktop file
  that \<open>Address_Sync\<close> models. Rows, state and limits are written the same way in both files, so they are
  shared here; the tips are validated by the mobile model, a tip that repeats a hash with other data
  is refused where it is met, checkpoints that were taken separately are joined, and an update can start with the groups
  that are new. A request that fails is an error of the argument \<open>ask\<close>, as on the desktop.
\<close>

datatype hd_error = HdSync sync_error | HdTip mobile_error

definition hd_lift :: "sync_error + 'a \<Rightarrow> hd_error + 'a" where
  "hd_lift m = (case m of Inl e \<Rightarrow> Inl (HdSync e) | Inr x \<Rightarrow> Inr x)"

definition hd_invalid :: hd_error where "hd_invalid = HdSync SyncInvalid"

definition hd_stale :: hd_error where "hd_stale = HdSync SyncStale"

section \<open>Rows\<close>

definition hd_sameTip :: "chain_tip \<Rightarrow> chain_tip \<Rightarrow> bool" where
  "hd_sameTip a b \<longleftrightarrow> ct_hash a = ct_hash b \<and> ct_height a = ct_height b \<and> ct_mediantime a = ct_mediantime b"

definition hd_money :: "bool \<Rightarrow> js_value \<Rightarrow> sync_error + int" where
  "hd_money signed_value v = (case sync_amount v of None \<Rightarrow> Inl SyncInvalid
     | Some amount \<Rightarrow> if amount > MAX_SYNC_MONEY \<or> amount < (if signed_value then - MAX_SYNC_MONEY else 0)
         then Inl SyncInvalid else Inr amount)"

definition hd_location :: "js_value \<Rightarrow> sync_error + sync_row" where
  "hd_location row =
     (let status = js_prop row ''status''; height = js_prop row ''block_height''; count = js_prop row ''confirmations'' in
      if \<not> js_plain row \<or> \<not> js_hash (js_prop row ''txid'') \<or> status \<notin> {VStr ''pending'', VStr ''confirmed''}
         \<or> \<not> js_count count then Inl SyncInvalid
      else if status = VStr ''pending'' \<and> (height \<noteq> VNull \<or> js_num count \<noteq> 0) then Inl SyncInvalid
      else if status \<noteq> VStr ''pending'' \<and> \<not> js_count height then Inl SyncInvalid
      else Inr \<lparr>sr_txid = js_text (js_prop row ''txid''), sr_pending = (status = VStr ''pending''),
             sr_height = js_integer height, sr_confirmations = js_num count\<rparr>)"

definition hd_syncHistoryRow :: "js_value \<Rightarrow> sync_error + history_row" where
  "hd_syncHistoryRow row = bindE (hd_location row) (\<lambda>l.
     let hash = js_prop row ''block_hash'' in
     if (if sr_pending l then hash \<noteq> VNull else \<not> js_hash hash) then Inl SyncInvalid
     else bindE (hd_money False (js_prop row ''received'')) (\<lambda>received.
       bindE (hd_money False (js_prop row ''spent'')) (\<lambda>spent.
       bindE (hd_money True (js_prop row ''balance_delta'')) (\<lambda>delta.
         if received - spent \<noteq> delta then Inl SyncInvalid
         else Inr \<lparr>sr_txid = sr_txid l, sr_pending = sr_pending l, sr_height = sr_height l,
                sr_confirmations = sr_confirmations l, hr_hash = (if sr_pending l then None else Some (js_text hash)),
                hr_received = received, hr_spent = spent, hr_delta = delta\<rparr>))))"

definition hd_syncUtxoRow :: "js_value \<Rightarrow> sync_error + utxo_row" where
  "hd_syncUtxoRow row = bindE (hd_location row) (\<lambda>l.
     let vout = js_prop row ''vout''; spent_by = js_prop row ''pending_spent_by'' in
     case (js_bool (js_prop row ''coinbase''), js_bool (js_prop row ''mature'')) of
       (Some coinbase, Some mature) \<Rightarrow>
         if \<not> js_u32 vout \<or> (spent_by \<noteq> VNull \<and> \<not> js_hash spent_by) \<or> (sr_pending l \<and> coinbase) then Inl SyncInvalid
         else bindE (hd_money False (js_prop row ''amount'')) (\<lambda>amount.
           Inr \<lparr>sr_txid = sr_txid l, sr_pending = sr_pending l, sr_height = sr_height l,
              sr_confirmations = sr_confirmations l, ur_vout = js_num vout, ur_amount = amount, ur_coinbase = coinbase,
              ur_mature = mature, ur_spent_by = (if spent_by = VNull then None else Some (js_text spent_by))\<rparr>)
     | _ \<Rightarrow> Inl SyncInvalid)"

definition hd_response :: "js_value \<Rightarrow> hd_error + sync_page" where
  "hd_response v =
     (case (js_prop v ''changes'', js_bool (js_prop v ''has_more'')) of
        (VArr changes, Some further) \<Rightarrow>
          if \<not> js_plain v \<or> js_prop v ''unit'' \<noteq> VStr ''connects'' \<or> length changes > 500
             \<or> \<not> sync_cursor (js_prop v ''next_cursor'') \<or> \<not> js_count (js_prop v ''through_sequence'')
             \<or> \<not> js_count (js_prop v ''journal_epoch'') then Inl hd_invalid
          else (case mobile_validateTip (js_prop v ''tip'') of Inl e \<Rightarrow> Inl (HdTip e)
            | Inr tip \<Rightarrow> Inr \<lparr>pg_changes = changes, pg_has_more = further, pg_next_cursor = js_text (js_prop v ''next_cursor''),
                pg_through = js_num (js_prop v ''through_sequence''), pg_epoch = js_num (js_prop v ''journal_epoch''), pg_tip = tip\<rparr>)
      | _ \<Rightarrow> Inl hd_invalid)"

section \<open>Beginning\<close>

definition empty_state :: "string \<Rightarrow> string list \<Rightarrow> sync_state" where
  "empty_state network as = \<lparr>ss_network = network, ss_key = addressSetKey as, ss_batches = [],
     ss_addresses = map (\<lambda>a. (a, \<lparr>ar_history = [], ar_utxos = []\<rparr>)) as, ss_tip = None\<rparr>"

definition page_batch :: "string list \<Rightarrow> sync_page \<Rightarrow> sync_batch" where
  "page_batch batch page = \<lparr>sb_addresses = batch, sb_cursor = pg_next_cursor page, sb_through = pg_through page,
     sb_epoch = pg_epoch page, sb_tip = pg_tip page\<rparr>"

definition push_batch :: "sync_batch \<Rightarrow> sync_state \<Rightarrow> sync_state" where
  "push_batch b state = state\<lparr>ss_batches := ss_batches state @ [b], ss_tip := Some (sb_tip b)\<rparr>"

text \<open>A checkpoint: a group of addresses with the answer that was captured for it.\<close>

definition claim_addresses :: "string list \<Rightarrow> string list \<Rightarrow> string list \<Rightarrow> hd_error + string list" where
  "claim_addresses allowed = foldE (\<lambda>a seen. if a \<notin> set allowed \<or> a \<in> set seen then Inl hd_invalid else Inr (a # seen))"

definition join_checkpoint ::
    "string list \<Rightarrow> string list \<times> js_value \<Rightarrow> sync_state \<times> string list \<Rightarrow> hd_error + sync_state \<times> string list" where
  "join_checkpoint allowed = (\<lambda>(batch, sync) (state, seen).
     if batch = [] \<or> length batch > 100 then Inl hd_invalid
     else bindE (claim_addresses allowed batch seen) (\<lambda>seen. bindE (hd_response sync) (\<lambda>page.
       if pg_changes page \<noteq> [] \<or> pg_has_more page then Inl hd_invalid
       else Inr (push_batch (page_batch (js_sort text_cmp batch) page) state, seen))))"

definition addressSyncFromCheckpoints ::
    "string \<Rightarrow> string list \<Rightarrow> (string list \<times> js_value) list \<Rightarrow> hd_error + sync_state" where
  "addressSyncFromCheckpoints network addresses checkpoints =
     (let as = sorted_set addresses in
      if as = [] \<or> length as \<noteq> length addresses \<or> length checkpoints > length addresses then Inl hd_invalid
      else bindE (foldE (join_checkpoint as) checkpoints (empty_state network as, [])) (\<lambda>(state, seen).
        if length seen \<noteq> length as then Inl hd_invalid else Inr state))"

definition hd_check :: "(nat \<Rightarrow> bool) \<Rightarrow> nat \<Rightarrow> hd_error + nat" where
  "hd_check alive n = hd_lift (sync_check alive n)"

definition hd_request ::
    "ask \<Rightarrow> (nat \<Rightarrow> bool) \<Rightarrow> string list \<Rightarrow> string option \<Rightarrow> nat \<Rightarrow> hd_error + sync_page \<times> nat" where
  "hd_request ask alive addresses cursor n =
     bindE (hd_check alive n) (\<lambda>n. bindE (hd_lift (ask n addresses cursor)) (\<lambda>v.
     bindE (hd_response v) (\<lambda>page. bindE (hd_check alive (n + 1)) (\<lambda>n. Inr (page, n)))))"

fun hd_begin_batches :: "ask \<Rightarrow> (nat \<Rightarrow> bool) \<Rightarrow> nat \<Rightarrow> string list \<Rightarrow> sync_state \<Rightarrow> nat \<Rightarrow> hd_error + sync_state" where
  "hd_begin_batches ask alive 0 addresses state n = Inr state"
| "hd_begin_batches ask alive (Suc k) addresses state n =
     (if addresses = [] then Inr state
      else bindE (hd_request ask alive (take 100 addresses) None n) (\<lambda>(page, n).
        if pg_changes page \<noteq> [] \<or> pg_has_more page then Inl hd_invalid
        else hd_begin_batches ask alive k (drop 100 addresses) (push_batch (page_batch (take 100 addresses) page) state) n))"

definition hd_beginAddressSync :: "ask \<Rightarrow> (nat \<Rightarrow> bool) \<Rightarrow> string \<Rightarrow> string list \<Rightarrow> hd_error + sync_state" where
  "hd_beginAddressSync ask alive network addresses =
     (let as = sorted_set addresses in
      if as = [] \<or> length as \<noteq> length addresses then Inl hd_invalid
      else hd_begin_batches ask alive (length as) as (empty_state network as) 0)"

definition hd_checkSize :: "sync_state \<Rightarrow> sync_error + unit" where
  "hd_checkSize state =
     (if list_ex (\<lambda>(_, r). length (ar_history r) > MAX_ROWS_PER_ADDRESS \<or> length (ar_utxos r) > MAX_ROWS_PER_ADDRESS) (ss_addresses state)
        \<or> sum_list (map (\<lambda>(_, r). rows_size r) (ss_addresses state)) > MAX_TOTAL_ROWS
      then Inl SyncTooLarge else Inr ())"

definition hd_setAddressBaseline ::
    "string \<Rightarrow> js_value list \<Rightarrow> js_value list \<Rightarrow> sync_state \<Rightarrow> sync_error + sync_state" where
  "hd_setAddressBaseline address history utxos state = (case jget (ss_addresses state) address of
       None \<Rightarrow> Inl SyncInvalid
     | Some rows \<Rightarrow>
         if length history > MAX_ROWS_PER_ADDRESS \<or> length utxos > MAX_ROWS_PER_ADDRESS then Inl SyncInvalid
         else if history = [] \<and> utxos = [] then bindE (hd_checkSize state) (\<lambda>_. Inr state)
         else bindE (foldE (\<lambda>raw h. bindE (hd_syncHistoryRow raw) (\<lambda>row. Inr (jset h (sr_txid row) row))) history (ar_history rows)) (\<lambda>h.
           bindE (foldE (\<lambda>raw u. bindE (hd_syncUtxoRow raw) (\<lambda>row. Inr (jset u (utxo_key (sr_txid row) (ur_vout row)) row)))
             utxos (ar_utxos rows)) (\<lambda>u.
           let next_state = state\<lparr>ss_addresses := jset (ss_addresses state) address \<lparr>ar_history = h, ar_utxos = u\<rparr>\<rparr> in
           bindE (hd_checkSize next_state) (\<lambda>_. Inr next_state))))"

section \<open>Applying the journal\<close>

text \<open>The events are applied as on the desktop: \<open>apply_event\<close> models the same lines of both files.\<close>

definition hd_apply_events :: "sync_batch \<Rightarrow> sync_page \<Rightarrow> sync_progress \<Rightarrow> hd_error + sync_progress" where
  "hd_apply_events batch page p = hd_lift (foldE (apply_event (sb_addresses batch) (pg_through page)) (pg_changes page) p)"

definition hd_page_checks :: "(chain_tip \<times> int) option \<Rightarrow> sync_batch \<Rightarrow> sync_page \<Rightarrow> hd_error + unit" where
  "hd_page_checks frozen batch page =
     (if pg_epoch page \<noteq> sb_epoch batch then Inl hd_stale
      else if ct_hash (pg_tip page) = ct_hash (sb_tip batch) \<and> \<not> hd_sameTip (pg_tip page) (sb_tip batch) then Inl hd_invalid
      else if (case frozen of None \<Rightarrow> False | Some (t, q) \<Rightarrow> \<not> hd_sameTip (pg_tip page) t \<or> pg_through page \<noteq> q) then Inl hd_stale
      else if pg_through page < sb_through batch then Inl hd_invalid
      else if pg_has_more page \<and> pg_changes page = [] \<or> pg_changes page \<noteq> [] \<and> pg_next_cursor page = sb_cursor batch
      then Inl hd_invalid else Inr ())"

fun hd_pages ::
    "ask \<Rightarrow> (nat \<Rightarrow> bool) \<Rightarrow> nat \<Rightarrow> string list \<Rightarrow> (chain_tip \<times> int) option \<Rightarrow> sync_batch \<Rightarrow> sync_progress \<Rightarrow> nat
     \<Rightarrow> hd_error + sync_batch \<times> sync_progress \<times> nat" where
  "hd_pages ask alive 0 cursors frozen batch p n = bindE (hd_check alive n) (\<lambda>_. Inl hd_invalid)"
| "hd_pages ask alive (Suc k) cursors frozen batch p n =
     bindE (hd_check alive n) (\<lambda>n.
     if sb_cursor batch \<in> set cursors then Inl hd_invalid
     else bindE (hd_lift (ask n (sb_addresses batch) (Some (sb_cursor batch)))) (\<lambda>v. bindE (hd_response v) (\<lambda>page.
       bindE (hd_check alive (n + 1)) (\<lambda>n. bindE (hd_page_checks frozen batch page) (\<lambda>_.
       bindE (hd_apply_events batch page p) (\<lambda>p.
         if \<not> pg_has_more page
         then Inr (batch\<lparr>sb_cursor := pg_next_cursor page, sb_tip := pg_tip page, sb_through := pg_through page\<rparr>, p, n)
         else hd_pages ask alive k (sb_cursor batch # cursors) (Some (pg_tip page, pg_through page))
           (batch\<lparr>sb_cursor := pg_next_cursor page\<rparr>) p n))))))"

definition hd_batch_step ::
    "ask \<Rightarrow> (nat \<Rightarrow> bool) \<Rightarrow> nat \<Rightarrow> sync_state \<times> nat \<times> nat \<Rightarrow> hd_error + sync_state \<times> nat \<times> nat" where
  "hd_batch_step ask alive i = (\<lambda>(state, events, n).
     let batch = ss_batches state ! i in
     bindE (hd_pages ask alive 1000 [] None batch
        \<lparr>sp_previous = sb_through batch, sp_events = events, sp_addresses = ss_addresses state\<rparr> n) (\<lambda>(batch, p, n).
     Inr (state\<lparr>ss_batches := (ss_batches state)[i := batch], ss_addresses := sp_addresses p, ss_tip := Some (sb_tip batch)\<rparr>,
       sp_events p, n)))"

definition hd_pending :: "sync_state \<Rightarrow> sync_batch \<Rightarrow> nat list" where
  "hd_pending state latest = filter (\<lambda>i. let batch = ss_batches state ! i in
     \<not> hd_sameTip (sb_tip batch) (sb_tip latest) \<or> sb_through batch \<noteq> sb_through latest \<or> sb_epoch batch \<noteq> sb_epoch latest)
     [0..<length (ss_batches state)]"

fun hd_rounds :: "ask \<Rightarrow> (nat \<Rightarrow> bool) \<Rightarrow> nat \<Rightarrow> nat list \<Rightarrow> sync_state \<Rightarrow> nat \<Rightarrow> nat \<Rightarrow> hd_error + sync_result" where
  "hd_rounds ask alive 0 pending state events n = Inr (CatchingUp state)"
| "hd_rounds ask alive (Suc k) pending state events n =
     bindE (foldE (hd_batch_step ask alive) pending (state, events, n)) (\<lambda>(state, events, n).
     let rest = hd_pending state (ss_batches state ! List.last pending) in
     bindE (hd_lift (hd_checkSize state)) (\<lambda>_. bindE (hd_check alive n) (\<lambda>n.
       if rest = [] then Inr (Synced state) else hd_rounds ask alive k rest state events n)))"

text \<open>The groups to begin with: all, or those whose keys are requested.\<close>

definition initial_batches :: "string list option \<Rightarrow> sync_state \<Rightarrow> hd_error + nat list" where
  "initial_batches requested state = (case requested of None \<Rightarrow> Inr [0..<length (ss_batches state)]
     | Some keys \<Rightarrow>
         let known = map (addressSetKey \<circ> sb_addresses) (ss_batches state) in
         if keys = [] \<or> \<not> distinct keys \<or> \<not> set keys \<subseteq> set known then Inl hd_invalid
         else Inr (filter (\<lambda>i. known ! i \<in> set keys) [0..<length (ss_batches state)]))"

definition hd_updateAddressSync ::
    "ask \<Rightarrow> (nat \<Rightarrow> bool) \<Rightarrow> string list option \<Rightarrow> sync_state \<Rightarrow> hd_error + sync_result" where
  "hd_updateAddressSync ask alive requested state =
     bindE (initial_batches requested state) (\<lambda>pending. hd_rounds ask alive 3 pending state 0 0)"

section \<open>Balances\<close>

definition hd_confirmations :: "int \<Rightarrow> ('a sync_row_scheme) \<Rightarrow> sync_error + int" where
  "hd_confirmations height row =
     (if sr_pending row then Inr 0
      else case sr_height row of None \<Rightarrow> Inl SyncInvalid
        | Some h \<Rightarrow> if h > height then Inl SyncStale else Inr (height - h + 1))"

definition hd_merge_history :: "int \<Rightarrow> history_row \<Rightarrow> sync_snapshot \<Rightarrow> sync_error + sync_snapshot" where
  "hd_merge_history height row s = bindE (hd_confirmations height row) (\<lambda>count.
     let existing = jget (sn_history s) (sr_txid row) in
     if (case existing of None \<Rightarrow> False | Some e \<Rightarrow> sr_pending (sh_row e) \<noteq> sr_pending row
           \<or> sr_height (sh_row e) \<noteq> sr_height row \<or> hr_hash (sh_row e) \<noteq> hr_hash row) then Inl SyncStale
     else Inr (s\<lparr>sn_history := jset (sn_history s) (sr_txid row) \<lparr>sh_row = row, sh_confirmations = count,
        sh_net = (case existing of None \<Rightarrow> 0 | Some e \<Rightarrow> sh_net e) + hr_delta row\<rparr>\<rparr>))"

definition hd_merge_utxo :: "int \<Rightarrow> account \<Rightarrow> utxo_row \<Rightarrow> sync_snapshot \<Rightarrow> sync_error + sync_snapshot" where
  "hd_merge_utxo height ac row s = bindE (hd_confirmations height row) (\<lambda>count.
     let mature = (\<not> ur_coinbase row \<or> count \<ge> 100) in
     Inr (s\<lparr>sn_utxos := sn_utxos s @ [\<lparr>su_row = row, su_confirmations = count, su_mature = mature, su_account = ac\<rparr>],
            sn_totals := add_utxo row mature (sn_totals s)\<rparr>))"

definition hd_merge_account :: "sync_state \<Rightarrow> int \<Rightarrow> account \<Rightarrow> sync_snapshot \<Rightarrow> sync_error + sync_snapshot" where
  "hd_merge_account state height ac s = (case jget (ss_addresses state) (ac_address ac) of
       None \<Rightarrow> Inl SyncInvalid
     | Some rows \<Rightarrow>
         let s = (if ar_history rows = [] then s
                  else if ac_change ac then s\<lparr>sn_highestChange := max (sn_highestChange s) (ac_index ac)\<rparr>
                  else s\<lparr>sn_highestReceive := max (sn_highestReceive s) (ac_index ac)\<rparr>)
         in bindE (foldE (hd_merge_history height) (map snd (ar_history rows)) s)
              (foldE (hd_merge_utxo height ac) (map snd (ar_utxos rows))))"

definition hd_addressSyncSnapshot :: "sync_state \<Rightarrow> account list \<Rightarrow> sync_error + sync_snapshot" where
  "hd_addressSyncSnapshot state accounts =
     foldE (hd_merge_account state (case ss_tip state of Some t \<Rightarrow> ct_height t | None \<Rightarrow> 0)) accounts
       \<lparr>sn_totals = \<lparr>bt_confirmed = 0, bt_available = 0, bt_pending = 0, bt_immature = 0\<rparr>, sn_history = [], sn_utxos = [],
         sn_highestReceive = - 1, sn_highestChange = - 1\<rparr>"

section \<open>The phone and the desktop show the same wallet\<close>

text \<open>
  The desktop keeps the row it met first and replaces its amounts; the phone keeps the row it met last.
  Of the two, only the confirmation count that came with the row can differ, and both show the count that
  follows from the tip instead.
\<close>

definition blank_count :: "snapshot_history \<Rightarrow> snapshot_history" where
  "blank_count e = e\<lparr>sh_row := (sh_row e)\<lparr>sr_confirmations := 0\<rparr>\<rparr>"

definition shown_history :: "(string, snapshot_history) jmap \<Rightarrow> (string, snapshot_history) jmap" where
  "shown_history m = map (\<lambda>(k, e). (k, blank_count e)) m"

definition shown :: "sync_snapshot \<Rightarrow> sync_snapshot" where
  "shown s = s\<lparr>sn_history := shown_history (sn_history s)\<rparr>"

definition keyed :: "sync_snapshot \<Rightarrow> bool" where
  "keyed s \<longleftrightarrow> (\<forall>(k, e)\<in>set (sn_history s). sr_txid (sh_row e) = k)"

lemma jget_shown: "jget (shown_history m) k = map_option blank_count (jget m k)"
  by (simp add: shown_history_def map_of_map)

lemma jset_shown: "shown_history (jset m k e) = jset (shown_history m) k (blank_count e)"
  by (induction m) (auto simp: shown_history_def)

lemma blank_count_fields:
  "sr_pending (sh_row (blank_count e)) = sr_pending (sh_row e)" "sr_height (sh_row (blank_count e)) = sr_height (sh_row e)"
  "hr_hash (sh_row (blank_count e)) = hr_hash (sh_row e)" "sh_net (blank_count e) = sh_net e"
  by (simp_all add: blank_count_def)

lemma hd_confirmations_eq: "hd_confirmations = row_confirmations"
  by (intro ext) (simp add: hd_confirmations_def row_confirmations_def)

definition agree :: "sync_error + sync_snapshot \<Rightarrow> sync_error + sync_snapshot \<Rightarrow> bool" where
  "agree a b \<longleftrightarrow> (case (a, b) of (Inl e, Inl f) \<Rightarrow> e = f | (Inr s, Inr t) \<Rightarrow> shown s = shown t \<and> keyed s | _ \<Rightarrow> False)"

lemma agree_simps [simp]:
  "agree (Inl e) (Inl f) \<longleftrightarrow> e = f" "agree (Inr s) (Inr t) \<longleftrightarrow> shown s = shown t \<and> keyed s"
  by (simp_all add: agree_def)

lemma agree_bind:
  "agree a b \<Longrightarrow> (\<And>s t. shown s = shown t \<Longrightarrow> keyed s \<Longrightarrow> agree (f s) (g t)) \<Longrightarrow> agree (bindE a f) (bindE b g)"
  by (cases a; cases b) (simp_all add: agree_def)

lemma agree_fold:
  "(\<And>x s t. shown s = shown t \<Longrightarrow> keyed s \<Longrightarrow> agree (f x s) (g x t)) \<Longrightarrow> shown s = shown t \<Longrightarrow> keyed s \<Longrightarrow>
    agree (foldE f xs s) (foldE g xs t)"
  by (induction xs arbitrary: s t) (auto intro: agree_bind)

lemma shown_fields:
  assumes "shown s = shown t"
  shows "shown_history (sn_history s) = shown_history (sn_history t)" and "sn_totals s = sn_totals t" and "sn_utxos s = sn_utxos t"
    and "sn_highestReceive s = sn_highestReceive t" and "sn_highestChange s = sn_highestChange t"
  using assms by (cases s; cases t; simp add: shown_def)+

lemma keyed_jset: "keyed s \<Longrightarrow> sr_txid (sh_row e) = k \<Longrightarrow> keyed (s\<lparr>sn_history := jset (sn_history s) k e\<rparr>)"
  unfolding keyed_def by simp (intro ball_jset; simp)

lemma shown_jset:
  assumes "shown s = shown t" and "blank_count e = blank_count e'"
  shows "shown (s\<lparr>sn_history := jset (sn_history s) k e\<rparr>) = shown (t\<lparr>sn_history := jset (sn_history t) k e'\<rparr>)"
  using assms by (cases s; cases t) (simp add: shown_def jset_shown)

lemma agree_history:
  assumes "shown s = shown t" and "keyed s"
  shows "agree (merge_history height row s) (hd_merge_history height row t)"
proof (cases "row_confirmations height row")
  case (Inl e)
  then show ?thesis by (simp add: merge_history_def hd_merge_history_def hd_confirmations_eq)
next
  case (Inr count)
  note h = shown_fields(1) [OF assms(1)]
  from h have j: "map_option blank_count (jget (sn_history s) (sr_txid row)) = map_option blank_count (jget (sn_history t) (sr_txid row))"
    by (metis jget_shown)
  show ?thesis
  proof (cases "jget (sn_history s) (sr_txid row)")
    case None
    with j have n: "jget (sn_history t) (sr_txid row) = None" by simp
    show ?thesis
      unfolding merge_history_def hd_merge_history_def hd_confirmations_eq Inr None n
      by (simp add: shown_jset [OF assms(1)] keyed_jset [OF assms(2)])
  next
    case (Some e)
    with j obtain e' where e': "jget (sn_history t) (sr_txid row) = Some e'" and b: "blank_count e = blank_count e'" by (cases "jget (sn_history t) (sr_txid row)") auto
    note f = blank_count_fields [of e, unfolded b, unfolded blank_count_fields]
    have k: "sr_txid (sh_row e) = sr_txid row" using assms(2) jget_in_set [OF Some] by (auto simp: keyed_def)
    show ?thesis
    proof (cases "sr_pending (sh_row e) \<noteq> sr_pending row \<or> sr_height (sh_row e) \<noteq> sr_height row \<or> hr_hash (sh_row e) \<noteq> hr_hash row")
      case True
      with Inr Some e' f show ?thesis by (simp add: merge_history_def hd_merge_history_def hd_confirmations_eq)
    next
      case False
      have r: "blank_count (e\<lparr>sh_row := (sh_row e)\<lparr>hr_received := hr_received row, hr_spent := hr_spent row, hr_delta := hr_delta row\<rparr>,
          sh_confirmations := count, sh_net := sh_net e + hr_delta row\<rparr>)
        = blank_count \<lparr>sh_row = row, sh_confirmations = count, sh_net = sh_net e' + hr_delta row\<rparr>"
        using False k f by (cases e; cases "sh_row e"; cases row) (simp add: blank_count_def)
      from False f k show ?thesis
        unfolding merge_history_def hd_merge_history_def hd_confirmations_eq Inr Some e'
        by (simp add: shown_jset [OF assms(1) r] keyed_jset [OF assms(2)])
    qed
  qed
qed

lemma agree_utxo: "shown s = shown t \<Longrightarrow> keyed s \<Longrightarrow> agree (merge_utxo height ac row s) (hd_merge_utxo height ac row t)"
  by (cases s; cases t; cases "row_confirmations height row")
    (simp_all add: merge_utxo_def hd_merge_utxo_def hd_confirmations_eq shown_def keyed_def Let_def)

lemma agree_account:
  assumes "shown s = shown t" and "keyed s"
  shows "agree (merge_account state height ac s) (hd_merge_account state height ac t)"
proof (cases "jget (ss_addresses state) (ac_address ac)")
  case (Some rows)
  define up where "up s = (if ar_history rows = [] then s
      else if ac_change ac then s\<lparr>sn_highestChange := max (sn_highestChange s) (ac_index ac)\<rparr>
      else s\<lparr>sn_highestReceive := max (sn_highestReceive s) (ac_index ac)\<rparr>)" for s :: sync_snapshot
  have "shown (up s) = shown (up t)" "keyed (up s)"
    using assms by (cases s; cases t; simp add: up_def shown_def keyed_def)+
  then have "agree (foldE (merge_history height) (map snd (ar_history rows)) (up s))
      (foldE (hd_merge_history height) (map snd (ar_history rows)) (up t))"
    by (intro agree_fold agree_history)
  then have "agree (bindE (foldE (merge_history height) (map snd (ar_history rows)) (up s)) (foldE (merge_utxo height ac) (map snd (ar_utxos rows))))
      (bindE (foldE (hd_merge_history height) (map snd (ar_history rows)) (up t)) (foldE (hd_merge_utxo height ac) (map snd (ar_utxos rows))))"
    by (rule agree_bind) (intro agree_fold agree_utxo)
  with Some show ?thesis by (simp add: merge_account_def hd_merge_account_def Let_def up_def)
qed (simp add: merge_account_def hd_merge_account_def)

text \<open>
  Property C32: the phone and the desktop show the same wallet. On the same synchronized state and the same
  accounts the two snapshot functions fail with the same error or give the same balances, the same
  outputs, the same highest indices and the same history.
\<close>

theorem mobile_snapshot_agrees:
  "map_sum id shown (hd_addressSyncSnapshot state accounts) = map_sum id shown (addressSyncSnapshot state accounts)"
proof -
  have "agree (addressSyncSnapshot state accounts) (hd_addressSyncSnapshot state accounts)"
    unfolding addressSyncSnapshot_def hd_addressSyncSnapshot_def
    by (intro agree_fold agree_account) (simp_all add: keyed_def)
  then show ?thesis
    by (cases "addressSyncSnapshot state accounts"; cases "hd_addressSyncSnapshot state accounts") (auto simp: agree_def)
qed

end
