(* ===== verification/Claim_Context.thy ===== *)
theory Claim_Context
  imports Config Claim_Stats Js_Units
begin

text \<open>
  What may cross to the proof helper and back (\<open>src/src/core/claims.mjs\<close>): the options and the public context
  of a claim, and the bridge that runs a helper for one proof, as a machine over the output it writes.
  \<open>JSON.parse\<close> is the argument \<open>parse\<close> (\<open>None\<close> where it throws); starting the process and the wall clock
  are not modelled, so the end of the deadline is a step.
\<close>

datatype claims_error =
    BadClaimInteger string | BadClaimOptions | UnknownClaimOption | BadClaimContext | NotPublicDomain | BadClaimHash
  | BadRootVersion
  | ClaimsAborted | MalformedResponse | OutputAfterProof | BadProgress | NoStatistics | BadStatistics | BadAttemptSequence
  | BadFinalSequence | ProofMismatch | BadProofEncoding | IncompatibleHelper | HelperError string | UnknownResponse
  | OutputLimit | FrameLimit | DiagnosticLimit | InputFailed | NoVerifiedProof | DeadlineExceeded | NotStarted

definition claims_integer :: "js_value \<Rightarrow> int \<Rightarrow> int \<Rightarrow> string \<Rightarrow> claims_error + int" where
  "claims_integer v minimum maximum name = (if js_nat_in minimum maximum v then Inr (js_num v) else Inl (BadClaimInteger name))"

record claim_options =
  co_rate :: int
  co_concurrency :: int
  co_timeout :: int
  co_attempts :: int

definition DEFAULT_CLAIM_OPTIONS :: "(string \<times> js_value) list" where
  "DEFAULT_CLAIM_OPTIONS = [(''connectionsPerSecond'', VInt 100), (''concurrency'', VInt 100), (''overallTimeout'', VInt 180),
     (''maxAttempts'', VInt 1000)]"

text \<open>\<open>VUndef\<close> stands for the missing argument, whose default is the empty object.\<close>

definition validateClaimOptions :: "js_value \<Rightarrow> claims_error + claim_options" where
  "validateClaimOptions arg =
     (let input = (if arg = VUndef then VObj [] else arg) in
      if \<not> js_plain input then Inl BadClaimOptions
      else if \<not> set (map fst (js_entries input)) \<subseteq> set (map fst DEFAULT_CLAIM_OPTIONS) then Inl UnknownClaimOption
      else let r = VObj (js_spread DEFAULT_CLAIM_OPTIONS (js_entries input)) in
        bindE (claims_integer (js_prop r ''connectionsPerSecond'') 1 MAX_CONNECTION_LIMIT ''connections per second'') (\<lambda>rate.
        bindE (claims_integer (js_prop r ''concurrency'') 1 MAX_CONNECTION_LIMIT ''simultaneous connections'') (\<lambda>concurrency.
        bindE (claims_integer (js_prop r ''overallTimeout'') 1 600 ''claim timeout'') (\<lambda>timeout.
        bindE (claims_integer (js_prop r ''maxAttempts'') 1 100000 ''claim attempts'') (\<lambda>attempts.
          Inr \<lparr>co_rate = rate, co_concurrency = concurrency, co_timeout = timeout, co_attempts = attempts\<rparr>)))))"

definition CONTEXT_KEYS :: "string list" where
  "CONTEXT_KEYS = [''domain'', ''txid'', ''input_index'', ''connection_work_target'', ''root_certificates_version'',
     ''signature_algorithms_mask'', ''validation_time'']"

record claim_context =
  cc_domain :: string
  cc_txid :: string
  cc_input :: int
  cc_target :: string
  cc_mask :: int
  cc_time :: int

text \<open>The pattern \<open>DOMAIN\<close> and the names that are not public.\<close>

definition dns_domain :: "string \<Rightarrow> bool" where
  "dns_domain d \<longleftrightarrow> 1 \<le> length d \<and> length d \<le> 253 \<and> 2 \<le> length (js_split (CHR ''.'') d)
     \<and> list_all canonical_label (js_split (CHR ''.'') d)"

definition private_domain :: "string \<Rightarrow> bool" where
  "private_domain d \<longleftrightarrow> List.last (js_split (CHR ''.'') d) \<in> {''localhost'', ''local'', ''internal''}"

definition validateClaimContext :: "js_value \<Rightarrow> claims_error + claim_context" where
  "validateClaimContext input =
     (if \<not> js_plain input \<or> length (js_entries input) \<noteq> length CONTEXT_KEYS \<or> \<not> list_all (js_own input) CONTEXT_KEYS
      then Inl BadClaimContext
      else case js_prop input ''domain'' of
        VStr d \<Rightarrow>
          if \<not> dns_domain d \<or> private_domain d then Inl NotPublicDomain
          else if \<not> js_hash (js_prop input ''txid'') \<or> \<not> js_hash (js_prop input ''connection_work_target'') then Inl BadClaimHash
          else bindE (claims_integer (js_prop input ''input_index'') 0 0xffffffff ''claim input index'') (\<lambda>i.
            if js_integer (js_prop input ''root_certificates_version'') \<noteq> Some 1 then Inl BadRootVersion
            else bindE (claims_integer (js_prop input ''signature_algorithms_mask'') 1 7 ''signature policy'') (\<lambda>m.
              bindE (claims_integer (js_prop input ''validation_time'') 1 253402300799 ''chain median time'') (\<lambda>t.
                Inr \<lparr>cc_domain = d, cc_txid = js_text (js_prop input ''txid''), cc_input = i,
                  cc_target = js_text (js_prop input ''connection_work_target''), cc_mask = m, cc_time = t\<rparr>)))
      | _ \<Rightarrow> Inl NotPublicDomain)"

text \<open>Only rejections that the API recognizes can be recovered from.\<close>

definition isKnownClaimRejection :: "js_value \<Rightarrow> bool" where
  "isKnownClaimRejection e \<longleftrightarrow> js_integer (js_prop e ''code'') = Some (- 32020)
     \<and> js_integer (js_prop (js_prop e ''data'') ''node_code'') \<in> {Some (- 22), Some (- 25), Some (- 26), Some (- 8)}
     \<and> js_prop e ''unknownOutcome'' \<in> {VUndef, VNull, VBool False, VInt 0, VNegZero, VStr []}"

definition lower_hex_pairs :: "string \<Rightarrow> bool" where
  "lower_hex_pairs s \<longleftrightarrow> s \<noteq> [] \<and> even (length s) \<and> list_all is_lower_hex s"

text \<open>The pattern \<open>/^02(?:[0-9a-f]{2})+$/\<close> and the limit of a proof.\<close>

fun proof_text :: "js_value \<Rightarrow> bool" where
  "proof_text (VStr s) = (take 2 s = ''02'' \<and> lower_hex_pairs (drop 2 s) \<and> length s \<le> 131072)"
| "proof_text _ = False"

section \<open>The bridge for one proof\<close>

definition stats_sample :: "js_value \<Rightarrow> bool" where
  "stats_sample v = (case v of
       VArr [VBool _, t] \<Rightarrow> (case js_finite t of Some q \<Rightarrow> 0 \<le> q \<and> q \<le> 3600 | None \<Rightarrow> False)
     | _ \<Rightarrow> False)"

definition attempt_stats :: "js_value \<Rightarrow> int \<Rightarrow> claims_error + int" where
  "attempt_stats stats maxAttempts = (case js_prop stats ''recent'' of
       VArr recent \<Rightarrow>
         if js_prop stats ''validation'' \<noteq> VStr ''certificate-proof-v1'' \<or> \<not> js_nat_in 0 maxAttempts (js_prop stats ''completed'')
            \<or> int (length recent) \<noteq> min 100 (js_num (js_prop stats ''completed'')) \<or> \<not> list_all stats_sample recent
         then Inl BadStatistics else Inr (js_num (js_prop stats ''completed''))
     | _ \<Rightarrow> Inl BadStatistics)"

record proof_run =
  pr_context :: claim_context
  pr_limits :: claim_options
  pr_output :: units
  pr_bytes :: nat
  pr_stderr :: nat
  pr_result :: "string option"          \<comment> \<open>the proof of the result message\<close>
  pr_failure :: "claims_error option"
  pr_killed :: bool
  pr_aborted :: bool
  pr_completed :: int
  pr_progress :: "int list"             \<comment> \<open>the calls of \<open>onProgress\<close>, by their attempts\<close>
  pr_settled :: "(claims_error + string) option"

definition run_start :: "claim_context \<Rightarrow> claim_options \<Rightarrow> proof_run" where
  "run_start context limits = \<lparr>pr_context = context, pr_limits = limits, pr_output = [], pr_bytes = 0, pr_stderr = 0,
     pr_result = None, pr_failure = None, pr_killed = False, pr_aborted = False, pr_completed = 0, pr_progress = [], pr_settled = None\<rparr>"

definition run_stop :: "claims_error \<Rightarrow> proof_run \<Rightarrow> proof_run" where
  "run_stop e r = r\<lparr>pr_failure := (case pr_failure r of None \<Rightarrow> Some e | f \<Rightarrow> f), pr_killed := True\<rparr>"

definition run_finish :: "claims_error option \<Rightarrow> proof_run \<Rightarrow> proof_run" where
  "run_finish e r = (if pr_settled r \<noteq> None then r
     else r\<lparr>pr_settled := Some (case e of Some e \<Rightarrow> Inl e | None \<Rightarrow> (case pr_result r of Some p \<Rightarrow> Inr p | None \<Rightarrow> Inl NotStarted))\<rparr>)"

definition run_progress :: "js_value \<Rightarrow> proof_run \<Rightarrow> claims_error + proof_run" where
  "run_progress m r =
     bindE (claims_integer (js_prop m ''attempts'') 0 (co_attempts (pr_limits r)) ''progress attempts'') (\<lambda>attempts.
     if (case js_finite (js_prop m ''elapsed'') of Some q \<Rightarrow> q < 0 | None \<Rightarrow> True) then Inl BadProgress
     else if js_prop m ''attemptStats'' = VUndef then Inl NoStatistics
     else bindE (attempt_stats (js_prop m ''attemptStats'') (co_attempts (pr_limits r))) (\<lambda>completed.
       if completed < pr_completed r \<or> completed \<noteq> attempts then Inl BadAttemptSequence
       else Inr (r\<lparr>pr_completed := completed, pr_progress := pr_progress r @ [attempts]\<rparr>)))"

definition run_result :: "js_value \<Rightarrow> proof_run \<Rightarrow> claims_error + proof_run" where
  "run_result m r =
     (if pr_completed r = 0 then Inl NoStatistics
      else bindE (claims_integer (js_prop m ''attempts'') 1 (co_attempts (pr_limits r)) ''proof attempts'') (\<lambda>attempts.
        if attempts \<noteq> pr_completed r then Inl BadFinalSequence
        else bindE (validateClaimContext (js_prop m ''context'')) (\<lambda>context.
          if context \<noteq> pr_context r \<or> js_prop m ''verified'' \<noteq> VBool True then Inl ProofMismatch
          else if \<not> proof_text (js_prop m ''proof'') then Inl BadProofEncoding
          else Inr (r\<lparr>pr_result := Some (js_text (js_prop m ''proof''))\<rparr>))))"

definition run_receive :: "(units \<Rightarrow> js_value option) \<Rightarrow> units \<Rightarrow> proof_run \<Rightarrow> claims_error + proof_run" where
  "run_receive parse line r = (case parse line of None \<Rightarrow> Inl MalformedResponse
     | Some m \<Rightarrow>
         if \<not> js_plain m then Inl MalformedResponse
         else if pr_result r \<noteq> None then Inl OutputAfterProof
         else if js_prop m ''type'' = VStr ''progress'' then run_progress m r
         else if js_prop m ''type'' = VStr ''result'' then run_result m r
         else if js_prop m ''type'' = VStr ''error''
         then (if js_prop m ''message'' = VStr ''unknown helper arguments'' then Inl IncompatibleHelper
           else Inl (HelperError (case js_prop m ''message'' of VStr s \<Rightarrow> take 500 s | _ \<Rightarrow> ''TLS proof generation failed'')))
         else Inl UnknownResponse)"

definition FRAME_LIMIT :: nat where "FRAME_LIMIT = 160 * 1024"

text \<open>The complete lines of the output, each at most a frame; \<open>Inl\<close> is the error with the state it leaves.\<close>

function run_lines :: "(units \<Rightarrow> js_value option) \<Rightarrow> proof_run \<Rightarrow> (claims_error \<times> proof_run) + proof_run" where
  "run_lines parse r =
     (if 10 \<notin> set (pr_output r) then (if length (pr_output r) > FRAME_LIMIT then Inl (FrameLimit, r) else Inr r)
      else let line = takeWhile (\<lambda>c. c \<noteq> 10) (pr_output r); rest = tl (dropWhile (\<lambda>c. c \<noteq> 10) (pr_output r)) in
        if length line > FRAME_LIMIT then Inl (FrameLimit, r)
        else (case run_receive parse line (r\<lparr>pr_output := rest\<rparr>) of
            Inl e \<Rightarrow> Inl (e, r\<lparr>pr_output := rest\<rparr>)
          | Inr r' \<Rightarrow> run_lines parse (r'\<lparr>pr_output := rest\<rparr>)))"
  by pat_completeness auto
termination
proof (relation "measure (\<lambda>(_, r). length (pr_output r))")
  fix r :: proof_run and line rest r'
  assume "\<not> 10 \<notin> set (pr_output r)" "rest = tl (dropWhile (\<lambda>c. c \<noteq> 10) (pr_output r))"
  then have "length rest < length (pr_output r)"
    using length_dropWhile_le [of "\<lambda>c. c \<noteq> 10" "pr_output r"] by (cases "dropWhile (\<lambda>c. c \<noteq> 10) (pr_output r)") auto
  then show "((parse, r'\<lparr>pr_output := rest\<rparr>), parse, r) \<in> measure (\<lambda>(_, r). length (pr_output r))" for parse :: "units \<Rightarrow> js_value option"
    by simp
qed simp

declare run_lines.simps [simp del]

text \<open>A chunk of standard output: its size in bytes and its text.\<close>

definition run_stdout :: "(units \<Rightarrow> js_value option) \<Rightarrow> nat \<Rightarrow> units \<Rightarrow> proof_run \<Rightarrow> proof_run" where
  "run_stdout parse n chunk r =
     (if pr_failure r \<noteq> None \<or> pr_settled r \<noteq> None then r
      else let r = r\<lparr>pr_bytes := pr_bytes r + n\<rparr> in
        if pr_bytes r > 4 * 1024 * 1024 then run_stop OutputLimit r
        else case run_lines parse (r\<lparr>pr_output := pr_output r @ chunk\<rparr>) of Inl (e, r) \<Rightarrow> run_stop e r | Inr r \<Rightarrow> r)"

definition run_stderr :: "nat \<Rightarrow> proof_run \<Rightarrow> proof_run" where
  "run_stderr n r = (let r = r\<lparr>pr_stderr := pr_stderr r + n\<rparr> in if pr_stderr r > 8192 then run_stop DiagnosticLimit r else r)"

definition run_abort :: "proof_run \<Rightarrow> proof_run" where
  "run_abort r = (if pr_settled r \<noteq> None then r\<lparr>pr_aborted := True\<rparr> else run_stop ClaimsAborted (r\<lparr>pr_aborted := True\<rparr>))"

definition run_close :: "int option \<Rightarrow> proof_run \<Rightarrow> proof_run" where
  "run_close code r =
     (let failure = (case pr_failure r of None \<Rightarrow> if pr_aborted r then Some ClaimsAborted else None | f \<Rightarrow> f);
          r = r\<lparr>pr_failure := failure\<rparr> in
      if failure \<noteq> None then run_finish failure r
      else if code \<noteq> Some 0 \<or> pr_result r = None \<or> unit_trim (pr_output r) \<noteq> [] then run_finish (Some NoVerifiedProof) r
      else run_finish None r)"

datatype run_event =
    Stdout nat units | Stderr nat | InputError | SpawnError | Deadline | Abort | Closed "int option"

definition run_step :: "(units \<Rightarrow> js_value option) \<Rightarrow> run_event \<Rightarrow> proof_run \<Rightarrow> proof_run" where
  "run_step parse e r = (case e of
       Stdout n chunk \<Rightarrow> run_stdout parse n chunk r
     | Stderr n \<Rightarrow> run_stderr n r
     | InputError \<Rightarrow> run_stop InputFailed r
     | SpawnError \<Rightarrow> run_finish (Some NotStarted) r
     | Deadline \<Rightarrow> if pr_settled r \<noteq> None then r else run_stop DeadlineExceeded r
     | Abort \<Rightarrow> run_abort r
     | Closed code \<Rightarrow> run_close code r)"

end
