(* ===== verification/Claim_Pool.thy ===== *)
theory Claim_Pool
  imports Claim_Context
begin

text \<open>
  The persistent proof helper (\<open>src/src/core/claim-pool.mjs\<close>): one process that serves name resolutions,
  connection attempts and the admission gate. The pool is a state; its methods, the output of the
  process, the end of the process, timers and cancellations are its steps. What leaves the pool is recorded: the
  frames it sends, the callbacks and the settling of every request. \<open>JSON.parse\<close> is the argument \<open>parse\<close>;
  the encoded size of a frame is the argument \<open>frame_size\<close> and the unwritten input of the process a field
  that the environment sets. Callbacks are assumed not to throw.
\<close>

datatype pool_error =
    PoolClaims claims_error
  | PoolAborted | BadConnectionOptions | BadConnectionLimit | BadCounter
  | RequestLimit | Backpressure | DeadlineMissed | StartDeadlineMissed | AdmissionDeadlineMissed | StartupTimeout
  | CapacityExceeded | BadBounty | BadAdmission
  | MalformedHelper | IncompatibleProtocol | HelperFailed | BadIdentity | UnexpectedResponse | BadAcknowledgement
  | BadResolution | ResolutionFailed | MismatchedType | DuplicateStart | UnknownType | WrongContext | BadCaptureStatus
  | CounterBackwards | BlockedCapture | UnexpectedCapture | MissingCapture | BadBlocked | UnexpectedDelay | BadUnavailable
  | ConflictingCapture | BadObservation | BadProof | BadProofStatus
  | PoolFrameLimit | PoolParse | PoolDiagnosticLimit | SpawnFailed | PoolInputFailed | ClosedUnexpectedly

definition lift_claims :: "claims_error + 'a \<Rightarrow> pool_error + 'a" where
  "lift_claims m = (case m of Inl e \<Rightarrow> Inl (PoolClaims e) | Inr x \<Rightarrow> Inr x)"

section \<open>Options and counters\<close>

definition CONNECTION_DEFAULTS :: "(string \<times> js_value) list" where
  "CONNECTION_DEFAULTS = [(''connectionsPerSecond'', VInt 100), (''concurrency'', VInt 100)]"

text \<open>The two limits, connections per second and concurrency.\<close>

definition validateConnectionOptions :: "js_value \<Rightarrow> pool_error + int \<times> int" where
  "validateConnectionOptions arg =
     (let input = (if arg = VUndef then VObj [] else arg) in
      if \<not> js_plain input \<or> \<not> set (map fst (js_entries input)) \<subseteq> set (map fst CONNECTION_DEFAULTS) then Inl BadConnectionOptions
      else let options = js_spread CONNECTION_DEFAULTS (js_entries input) in
        if list_all (\<lambda>(_, v). js_nat_in 1 MAX_CONNECTION_LIMIT v) options
        then Inr (js_num (js_prop (VObj options) ''connectionsPerSecond''), js_num (js_prop (VObj options) ''concurrency''))
        else Inl BadConnectionLimit)"

definition MAX_COUNTER :: int where "MAX_COUNTER = 2 ^ 64 - 1"

definition pool_counter :: "js_value \<Rightarrow> pool_error + int" where
  "pool_counter v = (case v of
       VStr s \<Rightarrow> if canonical_dec 19 s \<and> int (dec_val s) \<le> MAX_COUNTER then Inr (int (dec_val s)) else Inl BadCounter
     | _ \<Rightarrow> Inl BadCounter)"

definition ATTEMPT_MESSAGES :: "string list" where
  "ATTEMPT_MESSAGES = [''TLS capture cancelled'', ''TLS connection timed out'', ''TLS capture or proof validation failed'',
     ''Public DNS resolution is required'', ''Local network endpoint is temporarily unavailable'',
     ''Local IP family is unsupported'', ''Local network route is unavailable'']"

section \<open>The pool\<close>

datatype request_body =
    ResolveBody string
  | AttemptBody claim_context string int    \<comment> \<open>context, bounty, successful connections\<close>
  | AdmissionBody bool

fun is_attempt :: "request_body \<Rightarrow> bool" where
  "is_attempt (AttemptBody _ _ _) = True"
| "is_attempt _ = False"

fun is_admission :: "request_body \<Rightarrow> bool" where
  "is_admission (AdmissionBody _) = True"
| "is_admission _ = False"

record capture =
  cp_captured :: bool
  cp_seconds :: rat
  cp_connections :: int

record pool_request =
  rq_body :: request_body
  rq_aborted :: bool                       \<comment> \<open>the caller's signal\<close>
  rq_started :: bool
  rq_capture :: "capture option"
  rq_deadline :: "(rat \<times> pool_error) option"   \<comment> \<open>milliseconds until the request fails the helper\<close>

datatype frame = CancelFrame int | RequestFrame int request_body | StartFrame "int \<times> int" | ShutdownFrame

datatype pool_call = OnStarted int | OnCapture int capture | OnResult int js_value

record pool =
  pl_requireNative :: bool
  pl_options :: "int \<times> int"
  pl_started :: bool
  pl_closing :: bool
  pl_failure :: "pool_error option"
  pl_drainFailed :: bool
  pl_processClosed :: bool
  pl_killed :: bool
  pl_buffer :: units
  pl_stderr :: nat
  pl_requests :: "(int, pool_request) jmap"
  pl_sequence :: int
  pl_pendingStarts :: int
  pl_admissionTarget :: bool
  pl_admissionPaused :: bool
  pl_admissionControls :: int
  pl_backlog :: nat
  pl_sent :: "frame list"
  pl_calls :: "pool_call list"
  pl_settled :: "(int \<times> (pool_error + js_value)) list"

definition pool_new :: "bool \<Rightarrow> int \<times> int \<Rightarrow> pool" where
  "pool_new native options = \<lparr>pl_requireNative = native, pl_options = options, pl_started = False, pl_closing = False,
     pl_failure = None, pl_drainFailed = False, pl_processClosed = False, pl_killed = False, pl_buffer = [], pl_stderr = 0,
     pl_requests = [], pl_sequence = 0, pl_pendingStarts = 0, pl_admissionTarget = True, pl_admissionPaused = False,
     pl_admissionControls = 0, pl_backlog = 0, pl_sent = [], pl_calls = [], pl_settled = []\<rparr>"

text \<open>\<open>finish\<close>: a closing pool gives no results.\<close>

definition pool_finish :: "int \<Rightarrow> pool_error + js_value \<Rightarrow> pool \<Rightarrow> pool" where
  "pool_finish i outcome p = (case jget (pl_requests p) i of None \<Rightarrow> p
     | Some r \<Rightarrow> p\<lparr>pl_requests := jdelete (pl_requests p) i,
         pl_admissionControls := pl_admissionControls p - (if is_admission (rq_body r) then 1 else 0),
         pl_pendingStarts := pl_pendingStarts p - (if is_attempt (rq_body r) \<and> \<not> rq_started r then 1 else 0),
         pl_settled := pl_settled p @ [(i, if pl_closing p then Inl PoolAborted else outcome)]\<rparr>)"

definition finish_all :: "pool_error \<Rightarrow> pool \<Rightarrow> pool" where
  "finish_all e p = fold (\<lambda>i. pool_finish i (Inl e)) (jkeys (pl_requests p)) p"

definition pool_fail :: "pool_error \<Rightarrow> pool \<Rightarrow> pool" where
  "pool_fail e p =
     (if pl_failure p \<noteq> None \<or> pl_drainFailed p then p
      else if pl_closing p
      then (finish_all PoolAborted (p\<lparr>pl_drainFailed := True, pl_buffer := []\<rparr>))\<lparr>pl_killed := pl_killed p \<or> \<not> pl_processClosed p\<rparr>
      else (finish_all e (p\<lparr>pl_failure := Some e\<rparr>))\<lparr>pl_killed := pl_killed p \<or> \<not> pl_processClosed p\<rparr>)"

definition pool_send :: "(frame \<Rightarrow> nat) \<Rightarrow> frame \<Rightarrow> pool \<Rightarrow> pool_error + pool" where
  "pool_send frame_size f p = (case pl_failure p of Some e \<Rightarrow> Inl e
     | None \<Rightarrow> if frame_size f > 16384 then Inl RequestLimit
         else if pl_backlog p > 1024 * 1024 then Inl Backpressure
         else Inr (p\<lparr>pl_sent := pl_sent p @ [f]\<rparr>))"

text \<open>\<open>start\<close>, from the process on: its first frame.\<close>

definition pool_spawn :: "(frame \<Rightarrow> nat) \<Rightarrow> pool \<Rightarrow> pool" where
  "pool_spawn frame_size p = (case pool_send frame_size (StartFrame (pl_options p)) p of Inl e \<Rightarrow> pool_fail e p | Inr p \<Rightarrow> p)"

section \<open>Deadlines\<close>

definition MAXIMUM_DELAY :: rat where "MAXIMUM_DELAY = 2147483647"

definition arm_deadline :: "rat \<Rightarrow> pool_error \<Rightarrow> pool_request \<Rightarrow> pool_request" where
  "arm_deadline delay e r = r\<lparr>rq_deadline := Some (delay, e)\<rparr>"

definition start_delay :: "pool \<Rightarrow> rat" where
  "start_delay p = 60000 + of_int (pl_pendingStarts p) * 1000 / of_int (fst (pl_options p))"

definition armStartDeadline :: "pool \<Rightarrow> pool_request \<Rightarrow> pool_request" where
  "armStartDeadline p = arm_deadline (start_delay p) StartDeadlineMissed"

text \<open>The timer of a request: a longer delay is served in several timers.\<close>

definition timer_milliseconds :: "pool_request \<Rightarrow> rat option" where
  "timer_milliseconds r = map_option (\<lambda>(delay, _). min delay MAXIMUM_DELAY) (rq_deadline r)"

definition pool_timer :: "int \<Rightarrow> pool \<Rightarrow> pool" where
  "pool_timer i p = (case jget (pl_requests p) i of None \<Rightarrow> p
     | Some r \<Rightarrow> (case rq_deadline r of None \<Rightarrow> p
         | Some (delay, e) \<Rightarrow> if delay > MAXIMUM_DELAY
             then p\<lparr>pl_requests := jset (pl_requests p) i (arm_deadline (delay - MAXIMUM_DELAY) e r)\<rparr>
             else pool_fail e p))"

section \<open>Requests\<close>

definition capacity_left :: "request_body \<Rightarrow> pool \<Rightarrow> bool" where
  "capacity_left body p \<longleftrightarrow> (if is_admission body then pl_admissionControls p < 32
     else int (length (pl_requests p)) - pl_admissionControls p < max 512 (snd (pl_options p) + 2)) \<and> pl_sequence p < MAX_SAFE_INTEGER"

definition new_request :: "request_body \<Rightarrow> pool \<Rightarrow> pool_request" where
  "new_request body p =
     (let r = \<lparr>rq_body = body, rq_aborted = False, rq_started = False, rq_capture = None, rq_deadline = None\<rparr> in
      case body of
        AdmissionBody _ \<Rightarrow> arm_deadline 15000 AdmissionDeadlineMissed r
      | ResolveBody _ \<Rightarrow> arm_deadline 45000 DeadlineMissed r
      | AttemptBody _ _ _ \<Rightarrow> if pl_admissionPaused p then r else armStartDeadline p r)"

text \<open>The request is counted and armed before it is entered.\<close>

definition pool_enter :: "request_body \<Rightarrow> pool \<Rightarrow> pool" where
  "pool_enter body p =
     (let p = p\<lparr>pl_sequence := pl_sequence p + 1,
        pl_admissionControls := pl_admissionControls p + (if is_admission body then 1 else 0),
        pl_pendingStarts := pl_pendingStarts p + (if is_attempt body then 1 else 0)\<rparr>
      in p\<lparr>pl_requests := jset (pl_requests p) (pl_sequence p) (new_request body p)\<rparr>)"

definition pool_request_do :: "(frame \<Rightarrow> nat) \<Rightarrow> request_body \<Rightarrow> bool \<Rightarrow> pool \<Rightarrow> (pool_error + int) \<times> pool" where
  "pool_request_do frame_size body aborted p = (case pl_failure p of Some e \<Rightarrow> (Inl e, p)
     | None \<Rightarrow>
         if \<not> pl_started p \<or> pl_closing p \<or> aborted then (Inl PoolAborted, p)
         else if \<not> capacity_left body p then (Inl CapacityExceeded, p)
         else let i = pl_sequence p + 1; p = pool_enter body p in
           (Inr i, case pool_send frame_size (RequestFrame i body) p of Inl e \<Rightarrow> pool_fail e p | Inr p \<Rightarrow> p))"

text \<open>The signal of a caller: the helper is told, and whatever it answers will count as aborted.\<close>

definition pool_abort :: "(frame \<Rightarrow> nat) \<Rightarrow> int \<Rightarrow> pool \<Rightarrow> pool" where
  "pool_abort frame_size i p = (case jget (pl_requests p) i of None \<Rightarrow> p
     | Some r \<Rightarrow> if rq_aborted r then p
         else let p = p\<lparr>pl_requests := jset (pl_requests p) i (r\<lparr>rq_aborted := True\<rparr>)\<rparr> in
           (case pool_send frame_size (CancelFrame i) p of Inl _ \<Rightarrow> p | Inr p \<Rightarrow> p))"

definition bounty_identity :: "string \<Rightarrow> bool" where
  "bounty_identity s \<longleftrightarrow> (case js_split (CHR '':'') s of
       [hash, index] \<Rightarrow> hash_text hash \<and> canonical_dec 9 index \<and> dec_val index \<le> 0xffffffff
     | _ \<Rightarrow> False)"

definition pool_attempt ::
    "(frame \<Rightarrow> nat) \<Rightarrow> js_value \<Rightarrow> js_value \<Rightarrow> int \<Rightarrow> bool \<Rightarrow> pool \<Rightarrow> (pool_error + int) \<times> pool" where
  "pool_attempt frame_size context bounty connections aborted p =
     (if \<not> (case bounty of VStr s \<Rightarrow> bounty_identity s | _ \<Rightarrow> False) then (Inl BadBounty, p)
      else case validateClaimContext context of Inl e \<Rightarrow> (Inl (PoolClaims e), p)
        | Inr c \<Rightarrow> if connections < 0 \<or> connections > MAX_COUNTER then (Inl BadCounter, p)
            else pool_request_do frame_size (AttemptBody c (js_text bounty) connections) aborted p)"

definition map_requests :: "(pool_request \<Rightarrow> pool_request) \<Rightarrow> pool \<Rightarrow> pool" where
  "map_requests f p = p\<lparr>pl_requests := map (\<lambda>(i, r). (i, if is_attempt (rq_body r) \<and> \<not> rq_started r then f r else r)) (pl_requests p)\<rparr>"

text \<open>What \<open>setAdmissionAllowed\<close> returns: a refusal, the outcome after the helper is ready, the earlier request or a new one.\<close>

datatype admission_outcome = Refused pool_error | AfterReady | SameRequest | NewRequest int

definition setAdmissionAllowed :: "(frame \<Rightarrow> nat) \<Rightarrow> js_value \<Rightarrow> pool \<Rightarrow> admission_outcome \<times> pool" where
  "setAdmissionAllowed frame_size allowed p = (case allowed of
       VBool allow \<Rightarrow> (case pl_failure p of Some e \<Rightarrow> (Refused e, p)
         | None \<Rightarrow>
             if pl_closing p then (Refused PoolAborted, p)
             else if \<not> pl_started p then (AfterReady, p)
             else if pl_admissionTarget p = allow then (SameRequest, p)
             else let p = p\<lparr>pl_admissionTarget := allow\<rparr>;
                 p = (if allow then p else map_requests (\<lambda>r. r\<lparr>rq_deadline := None\<rparr>) (p\<lparr>pl_admissionPaused := True\<rparr>))
               in (case pool_request_do frame_size (AdmissionBody allow) False p of
                   (Inr i, p) \<Rightarrow> (NewRequest i, p)
                 | (Inl e, p) \<Rightarrow> (Refused e, if pl_closing p then p else pool_fail e p)))
     | _ \<Rightarrow> (Refused BadAdmission, p))"

section \<open>What the helper answers\<close>

definition CLAIMS_ROOT_SHA256 :: string where
  "CLAIMS_ROOT_SHA256 = ''f66dff1bdf8f96060b8177976f8b7d9254bc89bc4db933d769f7384d28480bc9''"

definition CLAIMS_MBEDTLS_VERSION :: string where
  "CLAIMS_MBEDTLS_VERSION = ''3.6.7''"

definition js_is :: "js_value \<Rightarrow> int \<Rightarrow> bool" where
  "js_is v n \<longleftrightarrow> js_integer v = Some n"

definition receive_ready :: "js_value \<Rightarrow> pool \<Rightarrow> pool_error + pool" where
  "receive_ready m p =
     (let security = js_prop m ''security'' in
      if pl_started p \<or> \<not> js_is (js_prop m ''protocol'') 4 \<or> \<not> js_is (js_prop m ''roots'') 1
         \<or> \<not> js_is (js_prop security ''rsaPublicExponentMaxBits'') 64 \<or> \<not> js_is (js_prop security ''admissionGate'') 1
         \<or> pl_requireNative p \<and> (js_prop security ''provider'' \<noteq> VStr ''mbedtls''
             \<or> js_prop security ''mbedtlsVersion'' \<noteq> VStr CLAIMS_MBEDTLS_VERSION
             \<or> js_prop security ''rootsSha256'' \<noteq> VStr CLAIMS_ROOT_SHA256)
      then Inl IncompatibleProtocol else Inr (p\<lparr>pl_started := True\<rparr>))"

text \<open>Only fixed descriptions get past the pool.\<close>

definition known_message :: "js_value \<Rightarrow> js_value" where
  "known_message m = (if js_own m ''message''
     then VObj (jset (js_entries m) ''message'' (if js_prop m ''message'' \<in> VStr ` set ATTEMPT_MESSAGES
       then js_prop m ''message'' else VStr ''TLS capture or proof validation failed''))
     else m)"

definition receive_admission :: "int \<Rightarrow> bool \<Rightarrow> js_value \<Rightarrow> pool \<Rightarrow> pool_error + pool" where
  "receive_admission i allowed m p =
     (if length (js_entries m) \<noteq> 3 \<or> js_prop m ''allowed'' \<noteq> VBool allowed then Inl BadAcknowledgement
      else let p = (if allowed \<and> pl_admissionTarget p
          then map_requests (armStartDeadline p) (p\<lparr>pl_admissionPaused := False\<rparr>) else p)
        in Inr (pool_finish i (Inr m) p))"

definition receive_resolved :: "int \<Rightarrow> pool_request \<Rightarrow> js_value \<Rightarrow> pool \<Rightarrow> pool_error + pool" where
  "receive_resolved i r m p = (case js_prop m ''ok'' of
       VBool ok \<Rightarrow> Inr (pool_finish i (if rq_aborted r then Inl PoolAborted else if ok then Inr m else Inl ResolutionFailed) p)
     | _ \<Rightarrow> Inl BadResolution)"

definition receive_started :: "int \<Rightarrow> pool_request \<Rightarrow> pool \<Rightarrow> pool_error + pool" where
  "receive_started i r p =
     (if rq_started r \<or> rq_capture r \<noteq> None then Inl DuplicateStart
      else Inr (p\<lparr>pl_pendingStarts := pl_pendingStarts p - 1,
        pl_requests := jset (pl_requests p) i ((arm_deadline 45000 DeadlineMissed r)\<lparr>rq_started := True\<rparr>),
        pl_calls := pl_calls p @ [OnStarted i]\<rparr>))"

text \<open>The observation that a capture and a final message both carry, and whether the attempt was cancelled.\<close>

definition read_capture :: "claim_context \<Rightarrow> int \<Rightarrow> pool_request \<Rightarrow> js_value \<Rightarrow> pool_error + capture \<times> bool" where
  "read_capture c connections r m = bindE (lift_claims (validateClaimContext (js_prop m ''context''))) (\<lambda>context.
     if context \<noteq> c then Inl WrongContext
     else case (js_prop m ''started'', js_prop m ''captured'', js_prop m ''cancelled'', js_finite (js_prop m ''seconds'')) of
       (VBool started, VBool captured, VBool cancelled, Some seconds) \<Rightarrow>
         if started \<noteq> rq_started r \<or> seconds < 0 \<or> seconds > 3600 \<or> captured \<and> \<not> started then Inl BadCaptureStatus
         else bindE (pool_counter (js_prop m ''successfulConnections'')) (\<lambda>n.
           if n < min MAX_COUNTER (connections + (if captured then 1 else 0)) then Inl CounterBackwards
           else Inr (\<lparr>cp_captured = captured, cp_seconds = seconds, cp_connections = n\<rparr>, cancelled))
     | _ \<Rightarrow> Inl BadCaptureStatus)"

definition receive_capture :: "int \<Rightarrow> pool_request \<Rightarrow> capture \<Rightarrow> js_value \<Rightarrow> pool \<Rightarrow> pool_error + pool" where
  "receive_capture i r cp m p =
     (if js_own m ''blocked'' \<or> js_own m ''retryAfterMs'' \<or> js_own m ''localUnavailable'' then Inl BlockedCapture
      else if \<not> rq_started r \<or> rq_capture r \<noteq> None then Inl UnexpectedCapture
      else Inr (p\<lparr>pl_requests := jset (pl_requests p) i (r\<lparr>rq_capture := Some cp\<rparr>), pl_calls := pl_calls p @ [OnCapture i cp]\<rparr>))"

text \<open>The checks of a final message before its proof.\<close>

definition check_blocked :: "pool_request \<Rightarrow> capture \<Rightarrow> js_value \<Rightarrow> pool_error + unit" where
  "check_blocked r cp m =
     (if js_own m ''blocked'' \<and> (js_prop m ''blocked'' \<noteq> VStr ''budget'' \<or> cp_captured cp \<or> js_prop m ''proof'' \<noteq> VNull
         \<or> js_prop m ''verified'' \<noteq> VBool False \<or> js_prop m ''validationPassed'' \<noteq> VNull \<or> \<not> rq_started r \<and> cp_seconds cp \<noteq> 0)
      then Inl BadBlocked
      else if js_own m ''retryAfterMs'' then Inl UnexpectedDelay
      else if js_own m ''localUnavailable'' \<and> (js_prop m ''localUnavailable'' \<noteq> VBool True \<or> cp_captured cp
         \<or> js_prop m ''proof'' \<noteq> VNull \<or> js_prop m ''verified'' \<noteq> VBool False \<or> js_prop m ''validationPassed'' = VBool True
         \<or> js_own m ''blocked'') then Inl BadUnavailable
      else Inr ())"

definition check_observation :: "pool_request \<Rightarrow> capture \<Rightarrow> bool \<Rightarrow> js_value \<Rightarrow> pool_error + unit" where
  "check_observation r cp cancelled m =
     (let passed = js_prop m ''validationPassed'' in
      if (case rq_capture r of None \<Rightarrow> False | Some earlier \<Rightarrow> earlier \<noteq> cp) then Inl ConflictingCapture
      else if passed \<notin> {VBool True, VBool False, VNull} \<or> passed \<noteq> VNull \<and> \<not> rq_started r
         \<or> passed = VBool True \<and> \<not> cp_captured cp
         \<or> passed = VNull \<and> rq_started r \<and> \<not> cancelled \<and> js_prop m ''blocked'' \<noteq> VStr ''budget''
            \<and> js_prop m ''localUnavailable'' \<noteq> VBool True then Inl BadObservation
      else Inr ())"

definition check_proof :: "capture \<Rightarrow> bool \<Rightarrow> js_value \<Rightarrow> pool_error + unit" where
  "check_proof cp cancelled m =
     (if js_prop m ''proof'' \<noteq> VNull
      then (if \<not> cp_captured cp \<or> js_prop m ''validationPassed'' \<noteq> VBool True \<or> js_prop m ''verified'' \<noteq> VBool True
          \<or> cancelled \<or> \<not> proof_text (js_prop m ''proof'') then Inl BadProof else Inr ())
      else if js_prop m ''verified'' \<noteq> VBool False then Inl BadProofStatus else Inr ())"

definition without_proof :: "js_value \<Rightarrow> js_value" where
  "without_proof m = VObj (jset (jset (jset (js_entries m) ''proof'' VNull) ''verified'' (VBool False)) ''cancelled'' (VBool True))"

definition receive_result :: "int \<Rightarrow> pool_request \<Rightarrow> capture \<Rightarrow> bool \<Rightarrow> js_value \<Rightarrow> pool \<Rightarrow> pool_error + pool" where
  "receive_result i r cp cancelled m p =
     (if rq_started r \<and> rq_capture r = None then Inl MissingCapture
      else bindE (check_blocked r cp m) (\<lambda>_. bindE (check_observation r cp cancelled m) (\<lambda>_. bindE (check_proof cp cancelled m) (\<lambda>_.
        let p = p\<lparr>pl_calls := pl_calls p @ [OnResult i (if pl_closing p then without_proof m else m)]\<rparr>
        in Inr (pool_finish i (if rq_aborted r then Inl PoolAborted else Inr m) p)))))"

definition receive_attempt :: "int \<Rightarrow> pool_request \<Rightarrow> claim_context \<Rightarrow> int \<Rightarrow> js_value \<Rightarrow> pool \<Rightarrow> pool_error + pool" where
  "receive_attempt i r c connections m p =
     (let kind = js_prop m ''type'' in
      if kind = VStr ''started'' then receive_started i r p
      else if kind \<notin> {VStr ''capture'', VStr ''attempt''} then Inl UnknownType
      else bindE (read_capture c connections r m) (\<lambda>(cp, cancelled).
        if kind = VStr ''capture'' then receive_capture i r cp m p else receive_result i r cp cancelled m p))"

definition receive_for :: "int \<Rightarrow> pool_request \<Rightarrow> js_value \<Rightarrow> pool \<Rightarrow> pool_error + pool" where
  "receive_for i r m p = (case rq_body r of
       AdmissionBody allowed \<Rightarrow> if js_prop m ''type'' = VStr ''admission'' then receive_admission i allowed m p else Inl MismatchedType
     | ResolveBody _ \<Rightarrow> if js_prop m ''type'' = VStr ''resolved'' then receive_resolved i r m p else Inl MismatchedType
     | AttemptBody c _ connections \<Rightarrow> receive_attempt i r c connections m p)"

definition pool_receive :: "js_value \<Rightarrow> pool \<Rightarrow> pool_error + pool" where
  "pool_receive m p =
     (if \<not> js_plain m then Inl MalformedHelper
      else if js_prop m ''type'' = VStr ''ready'' then receive_ready m p
      else if js_prop m ''type'' = VStr ''error'' then Inl HelperFailed
      else let m = known_message m in
        case js_safe (js_prop m ''id'') of None \<Rightarrow> Inl BadIdentity
        | Some i \<Rightarrow> (case jget (pl_requests p) i of None \<Rightarrow> Inl UnexpectedResponse
            | Some r \<Rightarrow> receive_for i r m p))"

section \<open>The process\<close>

text \<open>The lines that are complete; \<open>Inl\<close> is the error that is thrown with the state at that point.\<close>

function pool_lines :: "(units \<Rightarrow> js_value option) \<Rightarrow> units \<Rightarrow> pool \<Rightarrow> (pool_error \<times> pool) + pool" where
  "pool_lines parse buffer p =
     (if 10 \<notin> set buffer
      then (if length buffer > FRAME_LIMIT then Inl (PoolFrameLimit, p\<lparr>pl_buffer := buffer\<rparr>) else Inr (p\<lparr>pl_buffer := buffer\<rparr>))
      else let line = takeWhile (\<lambda>c. c \<noteq> 10) buffer; rest = tl (dropWhile (\<lambda>c. c \<noteq> 10) buffer) in
        if length line > FRAME_LIMIT then Inl (PoolFrameLimit, p\<lparr>pl_buffer := buffer\<rparr>)
        else (case (case parse line of None \<Rightarrow> Inl PoolParse | Some m \<Rightarrow> pool_receive m p) of
            Inl e \<Rightarrow> Inl (e, p\<lparr>pl_buffer := rest\<rparr>)
          | Inr p \<Rightarrow> pool_lines parse rest p))"
  by pat_completeness auto
termination
proof (relation "measure (\<lambda>(_, buffer, _). length buffer)")
  fix buffer :: units and line rest
  assume "\<not> 10 \<notin> set buffer" "rest = tl (dropWhile (\<lambda>c. c \<noteq> 10) buffer)"
  then have "length rest < length buffer"
    using length_dropWhile_le [of "\<lambda>c. c \<noteq> 10" buffer] by (cases "dropWhile (\<lambda>c. c \<noteq> 10) buffer") auto
  then show "((parse, rest, p'), parse, buffer, p) \<in> measure (\<lambda>(_, buffer, _). length buffer)"
    for parse :: "units \<Rightarrow> js_value option" and p p' :: pool by simp
qed simp

declare pool_lines.simps [simp del]

definition pool_stdout :: "(units \<Rightarrow> js_value option) \<Rightarrow> units \<Rightarrow> pool \<Rightarrow> pool" where
  "pool_stdout parse chunk p =
     (if pl_failure p \<noteq> None \<or> pl_drainFailed p \<or> pl_processClosed p then p
      else case pool_lines parse (pl_buffer p @ chunk) p of Inl (e, p) \<Rightarrow> pool_fail e p | Inr p \<Rightarrow> p)"

definition pool_stderr :: "nat \<Rightarrow> pool \<Rightarrow> pool" where
  "pool_stderr n p = (let p = p\<lparr>pl_stderr := min 1073741824 (pl_stderr p + n)\<rparr> in
     if pl_stderr p > 8192 then pool_fail PoolDiagnosticLimit p else p)"

definition pool_process_end :: "pool \<Rightarrow> pool" where
  "pool_process_end p = (let p = p\<lparr>pl_processClosed := True\<rparr> in
     if pl_closing p then finish_all PoolAborted p else pool_fail ClosedUnexpectedly p)"

definition pool_close :: "(frame \<Rightarrow> nat) \<Rightarrow> pool \<Rightarrow> pool" where
  "pool_close frame_size p =
     (if pl_closing p then p
      else let p = p\<lparr>pl_closing := True\<rparr> in
        if pl_processClosed p then p
        else case pool_send frame_size ShutdownFrame p of Inl _ \<Rightarrow> p\<lparr>pl_killed := True\<rparr> | Inr p \<Rightarrow> p)"

definition pool_kill_timer :: "pool \<Rightarrow> pool" where
  "pool_kill_timer p = (if pl_closing p \<and> \<not> pl_processClosed p then p\<lparr>pl_killed := True\<rparr> else p)"

datatype pool_event =
    PSpawn
  | PRequest request_body bool
  | PAttempt js_value js_value int bool
  | PAdmission js_value
  | PAbort int
  | PTimer int
  | PStartTimeout
  | PStdout units
  | PStderr nat
  | PSpawnError | PInputError
  | PProcessEnd
  | PClose | PKillTimer
  | PBacklog nat

definition pool_step :: "(frame \<Rightarrow> nat) \<Rightarrow> (units \<Rightarrow> js_value option) \<Rightarrow> pool_event \<Rightarrow> pool \<Rightarrow> pool" where
  "pool_step frame_size parse e p = (case e of
       PSpawn \<Rightarrow> pool_spawn frame_size p
     | PRequest body aborted \<Rightarrow> snd (pool_request_do frame_size body aborted p)
     | PAttempt context bounty connections aborted \<Rightarrow> snd (pool_attempt frame_size context bounty connections aborted p)
     | PAdmission allowed \<Rightarrow> snd (setAdmissionAllowed frame_size allowed p)
     | PAbort i \<Rightarrow> pool_abort frame_size i p
     | PTimer i \<Rightarrow> pool_timer i p
     | PStartTimeout \<Rightarrow> if pl_started p \<or> pl_closing p then p else pool_fail StartupTimeout p
     | PStdout chunk \<Rightarrow> pool_stdout parse chunk p
     | PStderr n \<Rightarrow> pool_stderr n p
     | PSpawnError \<Rightarrow> pool_fail SpawnFailed p
     | PInputError \<Rightarrow> if pl_closing p then p else pool_fail PoolInputFailed p
     | PProcessEnd \<Rightarrow> pool_process_end p
     | PClose \<Rightarrow> pool_close frame_size p
     | PKillTimer \<Rightarrow> pool_kill_timer p
     | PBacklog n \<Rightarrow> p\<lparr>pl_backlog := n\<rparr>)"

end
