(* ===== verification/Pool_Laws.thy ===== *)
theory Pool_Laws
  imports Claim_Pool
begin

text \<open>
  The helper pool keeps its books: the counters that bound requests and pace starts are the numbers of open
  requests of their kinds, every request that was accepted is open or settled, never both and never
  twice, a failed pool has nothing open, and no proof is handed out that was not verified.
\<close>

section \<open>The invariant\<close>

definition unstarted :: "pool_request \<Rightarrow> int" where
  "unstarted r = (if is_attempt (rq_body r) \<and> \<not> rq_started r then 1 else 0)"

definition controls :: "pool_request \<Rightarrow> int" where
  "controls r = (if is_admission (rq_body r) then 1 else 0)"

fun call_ok :: "pool_call \<Rightarrow> bool" where
  "call_ok (OnResult i m) = (js_prop m ''proof'' \<noteq> VNull \<longrightarrow>
     proof_text (js_prop m ''proof'') \<and> js_prop m ''verified'' = VBool True \<and> js_prop m ''validationPassed'' = VBool True)"
| "call_ok _ = True"

definition books :: "(int, pool_request) jmap \<Rightarrow> int \<Rightarrow> int \<Rightarrow> int \<Rightarrow> (int \<times> (pool_error + js_value)) list \<Rightarrow> pool_call list \<Rightarrow> bool" where
  "books rs n pending ctl settled calls \<longleftrightarrow> 0 \<le> n \<and> wf_jmap rs \<and> (\<forall>i\<in>set (jkeys rs). 0 < i \<and> i \<le> n)
     \<and> pending = jsum unstarted rs \<and> ctl = jsum controls rs
     \<and> distinct (map fst settled) \<and> (\<forall>i\<in>fst ` set settled. i \<le> n \<and> i \<notin> set (jkeys rs)) \<and> (\<forall>c\<in>set calls. call_ok c)"

definition pool_books :: "pool \<Rightarrow> bool" where
  "pool_books p \<longleftrightarrow> books (pl_requests p) (pl_sequence p) (pl_pendingStarts p) (pl_admissionControls p) (pl_settled p) (pl_calls p)"

definition pool_ok :: "pool \<Rightarrow> bool" where
  "pool_ok p \<longleftrightarrow> pool_books p \<and> (pl_drainFailed p \<longrightarrow> pl_closing p) \<and> ((pl_failure p \<noteq> None \<or> pl_drainFailed p) \<longrightarrow> pl_requests p = [])"

lemma jsum_jset: "jsum f (jset m k v) = jsum f m + f v - (case jget m k of Some old \<Rightarrow> f old | None \<Rightarrow> 0)"
  by (induction m) (auto split: option.splits)

lemma jkeys_jset_mem: "k \<in> set (jkeys m) \<Longrightarrow> jkeys (jset m k v) = jkeys m"
  by (simp add: jkeys_jset)

lemma jget_Some_mem: "jget m k = Some v \<Longrightarrow> k \<in> set (jkeys m)"
  by (force dest: jget_in_set)

section \<open>Settling\<close>

lemma finish_books:
  assumes "pool_books p"
  shows "pool_books (pool_finish i o' p)"
proof (cases "jget (pl_requests p) i")
  case (Some r)
  have "jsum f (jdelete (pl_requests p) i) = jsum f (pl_requests p) - f r" for f
    using jsum_jdelete [where m = "pl_requests p" and k = i and f = f] Some assms by (simp add: pool_books_def books_def)
  moreover from assms jget_Some_mem [OF Some] have "i \<le> pl_sequence p" "i \<notin> fst ` set (pl_settled p)"
    unfolding pool_books_def books_def by blast+
  ultimately show ?thesis using Some assms
    by (simp add: pool_books_def books_def pool_finish_def unstarted_def controls_def jkeys_jdelete) auto
qed (use assms in \<open>simp add: pool_finish_def\<close>)

lemma finish_fields [simp]:
  "pl_failure (pool_finish i o' p) = pl_failure p" "pl_drainFailed (pool_finish i o' p) = pl_drainFailed p"
  "pl_closing (pool_finish i o' p) = pl_closing p" "pl_processClosed (pool_finish i o' p) = pl_processClosed p"
  "pl_sequence (pool_finish i o' p) = pl_sequence p" "pl_calls (pool_finish i o' p) = pl_calls p"
  by (simp_all add: pool_finish_def split: option.splits)

lemma finish_keys: "jkeys (pl_requests (pool_finish i o' p)) = filter (\<lambda>k. k \<noteq> i) (jkeys (pl_requests p))"
proof (cases "jget (pl_requests p) i")
  case None
  then have "i \<notin> set (jkeys (pl_requests p))" by (simp only: not_in_jkeys_iff)
  then have "filter (\<lambda>k. k \<noteq> i) (jkeys (pl_requests p)) = jkeys (pl_requests p)" by (intro filter_True) auto
  with None show ?thesis by (simp add: pool_finish_def)
qed (simp add: pool_finish_def jkeys_jdelete)

lemma fold_finish:
  assumes "pool_books p"
  shows "pool_books (fold (\<lambda>i. pool_finish i o') is p)
    \<and> jkeys (pl_requests (fold (\<lambda>i. pool_finish i o') is p)) = filter (\<lambda>k. k \<notin> set is) (jkeys (pl_requests p))
    \<and> pl_closing (fold (\<lambda>i. pool_finish i o') is p) = pl_closing p
    \<and> pl_failure (fold (\<lambda>i. pool_finish i o') is p) = pl_failure p \<and> pl_drainFailed (fold (\<lambda>i. pool_finish i o') is p) = pl_drainFailed p"
  using assms
proof (induction "is" arbitrary: p)
  case (Cons i js)
  from Cons.IH [OF finish_books [OF Cons.prems, of i o']] show ?case
    by (simp add: finish_keys)
qed simp

lemma finish_all_ok:
  assumes "pool_books p"
  shows "pool_books (finish_all e p)" and "pl_requests (finish_all e p) = []" and "pl_closing (finish_all e p) = pl_closing p"
    and "pl_drainFailed (finish_all e p) = pl_drainFailed p"
proof -
  note f = fold_finish [OF assms, of "Inl e" "jkeys (pl_requests p)"]
  from f show "pool_books (finish_all e p)" and "pl_closing (finish_all e p) = pl_closing p"
    and "pl_drainFailed (finish_all e p) = pl_drainFailed p" by (simp_all add: finish_all_def)
  from f have "jkeys (pl_requests (finish_all e p)) = []" by (simp add: finish_all_def)
  then show "pl_requests (finish_all e p) = []" by simp
qed

lemma pool_fail_ok: "pool_ok p \<Longrightarrow> pool_ok (pool_fail e p)"
  using finish_all_ok [of "p\<lparr>pl_drainFailed := True, pl_buffer := []\<rparr>" PoolAborted] finish_all_ok [of "p\<lparr>pl_failure := Some e\<rparr>" e]
  by (simp add: pool_ok_def pool_fail_def pool_books_def)

lemma pool_finish_ok: "pool_ok p \<Longrightarrow> pool_ok (pool_finish i o' p)"
  using finish_books [of p i o'] by (auto simp: pool_ok_def pool_finish_def split: option.splits)

section \<open>Requests\<close>

lemma send_ok: "pool_ok p \<Longrightarrow> pool_send fs f p = Inr q \<Longrightarrow> pool_ok q"
  by (auto simp: pool_send_def pool_ok_def pool_books_def split: option.splits if_splits)

lemma send_or_fail_ok: "pool_ok p \<Longrightarrow> pool_ok (case pool_send fs f p of Inl e \<Rightarrow> pool_fail e p | Inr q \<Rightarrow> q)"
  by (cases "pool_send fs f p") (auto intro: pool_fail_ok send_ok)

lemma send_or_skip_ok: "pool_ok p \<Longrightarrow> pool_ok (case pool_send fs f p of Inl e \<Rightarrow> p | Inr q \<Rightarrow> q)"
  by (cases "pool_send fs f p") (auto intro: send_ok)

lemma update_request_ok:
  assumes "pool_ok p" and "jget (pl_requests p) i = Some r" and "rq_body r' = rq_body r" and "rq_started r' = rq_started r"
  shows "pool_ok (p\<lparr>pl_requests := jset (pl_requests p) i r'\<rparr>)"
  using assms jget_Some_mem [OF assms(2)]
  by (auto simp: pool_ok_def pool_books_def books_def jsum_jset jkeys_jset_mem unstarted_def controls_def)

lemma new_request_fields: "rq_body (new_request body p) = body" "\<not> rq_started (new_request body p)"
  by (auto simp: new_request_def arm_deadline_def armStartDeadline_def Let_def split: request_body.splits)

lemma pool_enter_ok:
  assumes "pool_ok p" and "pl_failure p = None" and "\<not> pl_closing p"
  shows "pool_ok (pool_enter body p)"
proof -
  have fresh: "pl_sequence p + 1 \<notin> set (jkeys (pl_requests p))"
    using assms(1) by (force simp: pool_ok_def pool_books_def books_def)
  then have none: "jget (pl_requests p) (pl_sequence p + 1) = None" by (simp only: not_in_jkeys_iff)
  from assms fresh none show ?thesis
    by (auto simp: pool_enter_def Let_def pool_ok_def pool_books_def books_def jsum_jset jkeys_jset unstarted_def controls_def new_request_fields)
qed

lemma pool_request_do_ok: "pool_ok p \<Longrightarrow> pool_ok (snd (pool_request_do fs body aborted p))"
  using send_or_fail_ok [OF pool_enter_ok [of p body]]
  by (simp add: pool_request_do_def Let_def split: option.splits)

lemma pool_attempt_ok: "pool_ok p \<Longrightarrow> pool_ok (snd (pool_attempt fs c b n aborted p))"
  by (simp add: pool_attempt_def pool_request_do_ok split: sum.splits)

lemma pool_abort_ok: "pool_ok p \<Longrightarrow> pool_ok (pool_abort fs i p)"
  using send_or_skip_ok [OF update_request_ok [of p i]]
  by (simp add: pool_abort_def Let_def split: option.splits)

lemma pool_timer_ok: "pool_ok p \<Longrightarrow> pool_ok (pool_timer i p)"
  using update_request_ok [of p i] pool_fail_ok [of p]
  by (simp add: pool_timer_def arm_deadline_def split: option.splits prod.splits)

lemma map_requests_ok:
  assumes "pool_ok p" and f: "\<And>r. rq_body (f r) = rq_body r" "\<And>r. rq_started (f r) = rq_started r"
  shows "pool_ok (map_requests f p)"
proof -
  let ?g = "\<lambda>r. if is_attempt (rq_body r) \<and> \<not> rq_started r then f r else r"
  let ?m = "map (\<lambda>(i, r). (i, ?g r))"
  have g: "unstarted (?g r) = unstarted r" "controls (?g r) = controls r" for r
    by (simp_all add: unstarted_def controls_def f)
  have "jkeys (?m m) = jkeys m" for m :: "(int, pool_request) jmap" by (induction m) auto
  moreover have "jsum unstarted (?m m) = jsum unstarted m" "jsum controls (?m m) = jsum controls m" for m :: "(int, pool_request) jmap"
    by (induction m) (simp_all only: list.map jsum_simps split_paired_all prod.case fst_conv snd_conv g)
  ultimately have "books (?m m) n a b c d = books m n a b c d" for m n a b c d
    unfolding books_def wf_jmap_def by (simp only:)
  with assms(1) show ?thesis by (simp add: map_requests_def pool_ok_def pool_books_def)
qed

lemma pool_ok_update [simp]:
  "pool_ok (p\<lparr>pl_admissionTarget := a\<rparr>) = pool_ok p" "pool_ok (p\<lparr>pl_admissionPaused := b\<rparr>) = pool_ok p"
  "pool_ok (p\<lparr>pl_started := b\<rparr>) = pool_ok p" "pool_ok (p\<lparr>pl_buffer := u\<rparr>) = pool_ok p" "pool_ok (p\<lparr>pl_stderr := n\<rparr>) = pool_ok p"
  "pool_ok (p\<lparr>pl_processClosed := b\<rparr>) = pool_ok p" "pool_ok (p\<lparr>pl_killed := b\<rparr>) = pool_ok p" "pool_ok (p\<lparr>pl_backlog := n\<rparr>) = pool_ok p"
  by (simp_all add: pool_ok_def pool_books_def)

lemma pool_ok_closing: "pool_ok p \<Longrightarrow> pool_ok (p\<lparr>pl_closing := True\<rparr>)"
  by (simp add: pool_ok_def pool_books_def)

lemma setAdmissionAllowed_ok:
  assumes "pool_ok p"
  shows "pool_ok (snd (setAdmissionAllowed fs allowed p))"
proof -
  define q where "q b = (if b then p\<lparr>pl_admissionTarget := b\<rparr>
      else map_requests (\<lambda>r. r\<lparr>rq_deadline := None\<rparr>) (p\<lparr>pl_admissionTarget := b, pl_admissionPaused := True\<rparr>))" for b
  have "pool_ok (q b)" for b
    using assms map_requests_ok [of "p\<lparr>pl_admissionTarget := b, pl_admissionPaused := True\<rparr>" "rq_deadline_update (\<lambda>_. None)"]
    by (cases b) (simp_all add: q_def)
  then have r: "pool_ok (snd (pool_request_do fs (AdmissionBody b) False (q b)))" for b by (rule pool_request_do_ok)
  have "pool_ok (snd (case pool_request_do fs (AdmissionBody b) False (q b) of
      (Inr i, p) \<Rightarrow> (NewRequest i, p) | (Inl e, p) \<Rightarrow> (Refused e, if pl_closing p then p else pool_fail e p)))" for b
  proof -
    obtain x h where x: "pool_request_do fs (AdmissionBody b) False (q b) = (x, h)" by (rule prod.exhaust)
    with r [of b] have "pool_ok h" by simp
    then show ?thesis unfolding x by (cases x) (simp_all add: pool_fail_ok)
  qed
  note t = this
  show ?thesis
  proof (cases allowed)
    case (VBool b)
    define result where "result = (case pool_request_do fs (AdmissionBody b) False (q b) of
        (Inr i, p) \<Rightarrow> (NewRequest i, p) | (Inl e, p) \<Rightarrow> (Refused e, if pl_closing p then p else pool_fail e p))"
    have e: "setAdmissionAllowed fs allowed p = (case pl_failure p of Some e \<Rightarrow> (Refused e, p)
        | None \<Rightarrow> if pl_closing p then (Refused PoolAborted, p) else if \<not> pl_started p then (AfterReady, p)
          else if pl_admissionTarget p = b then (SameRequest, p) else result)"
      unfolding setAdmissionAllowed_def VBool q_def Let_def js_value.case result_def by (rule refl)
    have "pool_ok (snd result)" unfolding result_def by (rule t)
    with assms show ?thesis unfolding e by (simp split: option.split)
  qed (use assms in \<open>simp_all add: setAdmissionAllowed_def\<close>)
qed

section \<open>Answers\<close>

lemma pool_ok_call: "pool_ok p \<Longrightarrow> call_ok c \<Longrightarrow> pool_ok (p\<lparr>pl_calls := pl_calls p @ [c]\<rparr>)"
  by (auto simp: pool_ok_def pool_books_def books_def)

lemma receive_started_ok:
  assumes "pool_ok p" and r: "jget (pl_requests p) i = Some r" and a: "is_attempt (rq_body r)" and s: "receive_started i r p = Inr q"
  shows "pool_ok q"
proof -
  define r' where "r' = (arm_deadline 45000 DeadlineMissed r)\<lparr>rq_started := True\<rparr>"
  define rs where "rs = jset (pl_requests p) i r'"
  from s have q: "q = p\<lparr>pl_pendingStarts := pl_pendingStarts p - 1, pl_requests := rs, pl_calls := pl_calls p @ [OnStarted i]\<rparr>"
    and n: "\<not> rq_started r"
    by (auto simp: receive_started_def rs_def r'_def split: if_splits)
  have u: "jsum unstarted rs = jsum unstarted (pl_requests p) - 1" "jsum controls rs = jsum controls (pl_requests p)"
    using r a n by (simp_all add: rs_def jsum_jset unstarted_def controls_def r'_def arm_deadline_def)
  have k: "jkeys rs = jkeys (pl_requests p)" unfolding rs_def by (rule jkeys_jset_mem [OF jget_Some_mem [OF r]])
  have ne: "pl_requests p \<noteq> []" using r by auto
  from assms(1) ne show ?thesis
    unfolding q pool_ok_def pool_books_def books_def wf_jmap_def by (simp add: u k)
qed

lemma receive_capture_ok:
  assumes "pool_ok p" and "jget (pl_requests p) i = Some r" and "receive_capture i r cp m p = Inr q"
  shows "pool_ok q"
proof -
  have "pool_ok (p\<lparr>pl_requests := jset (pl_requests p) i (r\<lparr>rq_capture := Some cp\<rparr>)\<rparr>)"
    using update_request_ok [OF assms(1,2)] by simp
  from pool_ok_call [OF this, of "OnCapture i cp"] assms(3) show ?thesis by (auto simp: receive_capture_def split: if_splits)
qed

lemma without_proof_null [simp]: "js_prop (without_proof m) ''proof'' = VNull"
  by (simp add: without_proof_def js_prop_def)

lemma check_proof_ok: "check_proof cp cancelled m = Inr () \<Longrightarrow> call_ok (OnResult i m)"
  by (auto simp: check_proof_def split: if_splits)

lemma receive_result_ok:
  assumes "pool_ok p" and "receive_result i r cp cancelled m p = Inr q"
  shows "pool_ok q"
proof -
  from assms(2) have c: "check_proof cp cancelled m = Inr ()" by (auto simp: receive_result_def split: if_splits)
  have "call_ok (OnResult i (if pl_closing p then without_proof m else m))" using check_proof_ok [OF c, of i] by simp
  from pool_finish_ok [OF pool_ok_call [OF assms(1) this], of i] assms(2) show ?thesis
    by (auto simp: receive_result_def Let_def split: if_splits)
qed

lemma receive_for_ok:
  assumes "pool_ok p" and "jget (pl_requests p) i = Some r" and "receive_for i r m p = Inr q"
  shows "pool_ok q"
proof (cases "rq_body r")
  case (AdmissionBody allowed)
  define p' where "p' = (if allowed \<and> pl_admissionTarget p then map_requests (armStartDeadline p) (p\<lparr>pl_admissionPaused := False\<rparr>) else p)"
  have "pool_ok p'"
    using assms(1) map_requests_ok [of "p\<lparr>pl_admissionPaused := False\<rparr>" "armStartDeadline p"]
    by (simp add: p'_def armStartDeadline_def arm_deadline_def)
  from pool_finish_ok [OF this] AdmissionBody assms(3) show ?thesis
    by (auto simp: receive_for_def receive_admission_def p'_def split: if_splits)
next
  case (ResolveBody d)
  with assms pool_finish_ok [OF assms(1)] show ?thesis
    by (auto simp: receive_for_def receive_resolved_def split: if_splits js_value.splits)
next
  case (AttemptBody c b n)
  with assms receive_started_ok [OF assms(1,2)] receive_capture_ok [OF assms(1,2)] receive_result_ok [OF assms(1)] show ?thesis
    by (auto simp: receive_for_def receive_attempt_def Let_def split: if_splits)
qed

lemma pool_receive_ok: "pool_ok p \<Longrightarrow> pool_receive m p = Inr q \<Longrightarrow> pool_ok q"
  using receive_for_ok [of p]
  by (auto simp: pool_receive_def receive_ready_def Let_def split: if_splits option.splits)

lemma pool_lines_ok: "pool_ok p \<Longrightarrow> (case pool_lines parse buffer p of Inl (e, q) \<Rightarrow> pool_ok q | Inr q \<Rightarrow> pool_ok q)"
proof (induction parse buffer p rule: pool_lines.induct)
  case (1 parse buffer p)
  show ?case
  proof (cases "10 \<in> set buffer \<and> length (takeWhile (\<lambda>c. c \<noteq> 10) buffer) \<le> FRAME_LIMIT")
    case False
    with 1(2) show ?thesis by (subst pool_lines.simps) (auto simp: Let_def)
  next
    case True
    show ?thesis
    proof (cases "case parse (takeWhile (\<lambda>c. c \<noteq> 10) buffer) of None \<Rightarrow> Inl PoolParse | Some m \<Rightarrow> pool_receive m p")
      case (Inl e)
      with True 1(2) show ?thesis by (subst pool_lines.simps) (simp add: Let_def)
    next
      case (Inr q)
      then have "pool_ok q" using pool_receive_ok [OF 1(2)] by (auto split: option.splits)
      with 1(1) True Inr show ?thesis by (subst pool_lines.simps) (simp add: Let_def)
    qed
  qed
qed

lemma pool_step_ok:
  assumes "pool_ok p"
  shows "pool_ok (pool_step fs parse e p)"
proof (cases e)
  case (PStdout chunk)
  with assms pool_lines_ok [OF assms, of parse "pl_buffer p @ chunk"] show ?thesis
    by (auto simp: pool_step_def pool_stdout_def pool_fail_ok split: sum.splits prod.splits)
next
  case PProcessEnd
  then show ?thesis
    using assms pool_fail_ok [of "p\<lparr>pl_processClosed := True\<rparr>"] finish_all_ok [of "p\<lparr>pl_processClosed := True\<rparr>"]
    by (simp add: pool_step_def pool_process_end_def Let_def) (simp add: pool_ok_def pool_books_def)
next
  case PClose
  have "pool_ok (case pool_send fs ShutdownFrame (p\<lparr>pl_closing := True\<rparr>) of
      Inl _ \<Rightarrow> p\<lparr>pl_closing := True, pl_killed := True\<rparr> | Inr p \<Rightarrow> p)"
    using pool_ok_closing [OF assms] by (auto split: sum.splits intro: send_ok)
  with PClose assms show ?thesis by (simp add: pool_step_def pool_close_def Let_def pool_ok_closing)
qed (use assms in \<open>simp_all add: pool_step_def pool_request_do_ok pool_attempt_ok setAdmissionAllowed_ok pool_abort_ok pool_timer_ok
    pool_stderr_def pool_kill_timer_def pool_spawn_def send_or_fail_ok pool_fail_ok Let_def\<close>)


text \<open>A helper that reports that it is ready, is asked for a name, and then reports the same again.\<close>

definition ex_ready :: js_value where
  "ex_ready = VObj [(''type'', VStr ''ready''), (''protocol'', VInt 4), (''roots'', VInt 1),
     (''security'', VObj [(''rsaPublicExponentMaxBits'', VInt 64), (''admissionGate'', VInt 1)])]"

lemma pool_lines_empty_line:
  "pool_lines parse [10] p = (case (case parse [] of None \<Rightarrow> Inl PoolParse | Some m \<Rightarrow> pool_receive m p) of
     Inl e \<Rightarrow> Inl (e, p\<lparr>pl_buffer := []\<rparr>) | Inr q \<Rightarrow> Inr (q\<lparr>pl_buffer := []\<rparr>))"
proof -
  have e: "pool_lines parse [] q = Inr (q\<lparr>pl_buffer := []\<rparr>)" for q by (subst pool_lines.simps) simp
  show ?thesis by (subst pool_lines.simps) (simp add: e cong: sum.case_cong)
qed


end
