(* ===== verification/Numeric_Value.thy ===== *)
theory Numeric_Value
  imports Js_Units
begin

text \<open>
  Numbers while they are typed (\<open>src/src/ui/numeric-value.mjs\<close>): a separator at the end is not part of the
  value. A value that is not a text is \<open>None\<close>.
\<close>

definition unit_digits :: "units \<Rightarrow> bool" where
  "unit_digits s \<longleftrightarrow> s \<noteq> [] \<and> list_all unit_digit s"

definition units_val :: "units \<Rightarrow> nat" where
  "units_val s = dec_val (of_units s)"

definition numeric_text :: "units \<Rightarrow> units" where
  "numeric_text s = (if s \<noteq> [] \<and> last s \<in> {46, 44} \<and> unit_digits (butlast s) then butlast s else s)"

definition numericInputValue :: "units option \<Rightarrow> units option" where
  "numericInputValue value = map_option numeric_text value"

datatype input_error = NoError | NotWhole | BelowMinimum nat | AboveMaximum nat

definition integerInputError :: "units option \<Rightarrow> nat option \<Rightarrow> nat option \<Rightarrow> input_error" where
  "integerInputError value least greatest = (case numericInputValue value of
       None \<Rightarrow> NotWhole
     | Some s \<Rightarrow>
         if s = [] then NoError
         else if \<not> unit_digits s then NotWhole
         else case least of
             Some m \<Rightarrow> if units_val s < m then BelowMinimum m
               else (case greatest of Some n \<Rightarrow> if units_val s > n then AboveMaximum n else NoError | None \<Rightarrow> NoError)
           | None \<Rightarrow> (case greatest of Some n \<Rightarrow> if units_val s > n then AboveMaximum n else NoError | None \<Rightarrow> NoError))"

lemma numeric_text_idem: "numeric_text (numeric_text s) = numeric_text s"
proof (cases "s \<noteq> [] \<and> last s \<in> {46, 44} \<and> unit_digits (butlast s)")
  case True
  then have d: "unit_digits (butlast s)" by blast
  then have "unit_digit (last (butlast s))" by (auto simp: unit_digits_def list_all_iff)
  then have "last (butlast s) \<notin> {46, 44}" by (auto simp: unit_digit_def)
  with True show ?thesis by (simp add: numeric_text_def)
qed (auto simp: numeric_text_def)

lemma integerInputError_None: "integerInputError (Some s) least greatest = NoError \<Longrightarrow> numeric_text s \<noteq> [] \<Longrightarrow>
    unit_digits (numeric_text s) \<and> (\<forall>m. least = Some m \<longrightarrow> m \<le> units_val (numeric_text s))
      \<and> (\<forall>n. greatest = Some n \<longrightarrow> units_val (numeric_text s) \<le> n)"
  by (auto simp: integerInputError_def numericInputValue_def split: if_splits option.splits)

end
