(* ===== verification/Preferences.thy ===== *)
theory Preferences
  imports Config Numeric_Value
begin

text \<open>
  Preferences on their way from the window to the wallet (\<open>src/src/ui/preferences.mjs\<close>): the batch of valid
  edits that may be saved, and the saver that writes one batch at a time. A draft is its list of raw
  values; \<open>url_host\<close> says whether the URL parser of the platform accepts a bracketed address.
\<close>

section \<open>The batch of edits\<close>

text \<open>The number of a raw value whose text consists of digits, with or without a separator at its end.\<close>

fun draft_number :: "js_value \<Rightarrow> nat option" where
  "draft_number (VStr s) = (let t = numeric_text (units s) in if unit_digits t then Some (units_val t) else None)"
| "draft_number (VInt n) = (if 0 \<le> n then Some (nat n) else None)"
| "draft_number VNegZero = Some 0"
| "draft_number _ = None"

definition draft_integer :: "js_value \<Rightarrow> int \<Rightarrow> int \<Rightarrow> int option" where
  "draft_integer v least greatest = (case draft_number v of
       Some n \<Rightarrow> if safe_integer (int n) \<and> least \<le> int n \<and> int n \<le> greatest then Some (int n) else None
     | None \<Rightarrow> None)"

definition draft_octet :: "string \<Rightarrow> bool" where
  "draft_octet p \<longleftrightarrow> p \<noteq> [] \<and> list_all is_digit p \<and> (p = ''0'' \<or> hd p \<noteq> CHR ''0'') \<and> dec_val p \<le> 255"

definition draft_host :: "(string \<Rightarrow> bool) \<Rightarrow> js_value \<Rightarrow> bool" where
  "draft_host url_host v = (case v of
       VStr s \<Rightarrow>
         let host = js_trim s in
         if host = [] \<or> length host > 253 \<or> CHR ''%'' \<in> set host then False
         else if CHR '':'' \<in> set host then url_host host
         else if dotted_digits host then list_all draft_octet (js_split (CHR ''.'') host)
         else list_all is_label (js_split (CHR ''.'') host)
     | _ \<Rightarrow> False)"

record pref_entry =
  pe_section :: string
  pe_key :: string
  pe_raw :: js_value

record pref_batch =
  pf_patch :: "(string option \<times> string \<times> js_value) list"   \<comment> \<open>group, key and value\<close>
  pf_entries :: "pref_entry list"

text \<open>The draft: its two sections.\<close>

record pref_draft =
  dr_claims :: "(string, js_value) jmap"
  dr_settings :: "(string, js_value) jmap"

definition draft_value :: "(string, js_value) jmap \<Rightarrow> string \<Rightarrow> js_value" where
  "draft_value m k = (case jget m k of Some v \<Rightarrow> v | None \<Rightarrow> VUndef)"

definition take_number ::
    "string \<Rightarrow> string option \<Rightarrow> (string, js_value) jmap \<Rightarrow> js_value \<Rightarrow> string \<times> int \<times> int \<Rightarrow> pref_batch \<Rightarrow> pref_batch" where
  "take_number sec grp m saved = (\<lambda>(key, least, greatest) b. case draft_integer (draft_value m key) least greatest of
       None \<Rightarrow> b
     | Some n \<Rightarrow> b\<lparr>pf_entries := pf_entries b @ [\<lparr>pe_section = sec, pe_key = key, pe_raw = draft_value m key\<rparr>],
         pf_patch := (if js_integer (js_prop saved key) = Some n then pf_patch b else pf_patch b @ [(grp, key, VInt n)])\<rparr>)"

definition take_endpoint :: "(string \<Rightarrow> bool) \<Rightarrow> js_value \<Rightarrow> (string, js_value) jmap \<Rightarrow> pref_batch \<Rightarrow> pref_batch" where
  "take_endpoint url_host rpc m b =
     (let raw = (\<lambda>key. let v = draft_value m key in if js_nullish v then js_prop rpc key else v) in
      if \<not> draft_host url_host (raw ''host'') then b
      else case draft_integer (raw ''port'') 1 65535 of None \<Rightarrow> b
        | Some port \<Rightarrow>
            let host = lower_str (js_trim (js_text (raw ''host'')));
                differs = (VStr host \<noteq> js_prop rpc ''host'' \<or> js_integer (js_prop rpc ''port'') \<noteq> Some port)
            in b\<lparr>pf_patch := (if differs then pf_patch b @ [(None, ''rpc'', VObj [(''host'', VStr host), (''port'', VInt port)])] else pf_patch b),
              pf_entries := pf_entries b @ map (\<lambda>key. \<lparr>pe_section = ''settings'', pe_key = key, pe_raw = draft_value m key\<rparr>)
                (filter (jhas m) [''host'', ''port''])\<rparr>)"

definition preferenceBatch :: "(string \<Rightarrow> bool) \<Rightarrow> js_value \<Rightarrow> pref_draft \<Rightarrow> bool \<Rightarrow> pref_batch" where
  "preferenceBatch url_host config draft rpcReady =
     (let b = fold (take_number ''claims'' (Some ''claims'') (dr_claims draft) (js_prop config ''claims''))
           [(''maxConnectionsPerSecond'', 1, MAX_CONNECTION_LIMIT), (''maxConcurrent'', 1, MAX_CONNECTION_LIMIT), (''lookbackBlocks'', 1, 600)]
           \<lparr>pf_patch = [], pf_entries = []\<rparr>;
          b = fold (take_number ''settings'' None (dr_settings draft) config)
           [(''autoLockMinutes'', 0, 60), (''feeRate'', 1201, 100000)] b
      in if rpcReady \<and> (jhas (dr_settings draft) ''host'' \<or> jhas (dr_settings draft) ''port'')
         then take_endpoint url_host (js_prop config ''rpc'') (dr_settings draft) b else b)"

definition acknowledge_entry :: "pref_entry \<Rightarrow> pref_draft \<Rightarrow> pref_draft" where
  "acknowledge_entry e d =
     (if pe_section e = ''claims''
      then (if draft_value (dr_claims d) (pe_key e) = pe_raw e then d\<lparr>dr_claims := jdelete (dr_claims d) (pe_key e)\<rparr> else d)
      else (if draft_value (dr_settings d) (pe_key e) = pe_raw e then d\<lparr>dr_settings := jdelete (dr_settings d) (pe_key e)\<rparr> else d))"

definition acknowledgePreferences :: "pref_draft \<Rightarrow> pref_batch \<Rightarrow> pref_draft" where
  "acknowledgePreferences d b = fold acknowledge_entry (pf_entries b) d"

section \<open>The saver\<close>

text \<open>
  \<open>ps_waiting\<close> counts the calls of \<open>flush\<close> that wait for the running save. What \<open>snapshot\<close> returns is an
  argument of every step that reads it.
\<close>

datatype save_phase = Writing | RetryLater

record pref_saver =
  ps_timer :: "nat option"
  ps_saving :: "(pref_batch \<times> save_phase) option"
  ps_waiting :: nat
  ps_writes :: "pref_batch list"        \<comment> \<open>calls of \<open>save\<close>\<close>
  ps_saved :: "pref_batch list"         \<comment> \<open>calls of \<open>saved\<close>\<close>

definition pref_saver_new :: pref_saver where
  "pref_saver_new = \<lparr>ps_timer = None, ps_saving = None, ps_waiting = 0, ps_writes = [], ps_saved = []\<rparr>"

definition saver_schedule :: "nat \<Rightarrow> pref_saver \<Rightarrow> pref_saver" where
  "saver_schedule ms s = s\<lparr>ps_timer := Some ms\<rparr>"

text \<open>A batch without a patch is only reported; its operation ends at once, and the read that follows is a further step.\<close>

definition saver_flush :: "pref_batch \<Rightarrow> pref_saver \<Rightarrow> pref_saver" where
  "saver_flush b s0 = (let s = s0\<lparr>ps_timer := None\<rparr> in
     if ps_saving s \<noteq> None then s\<lparr>ps_waiting := ps_waiting s + 1\<rparr>
     else if pf_entries b = [] then s
     else if pf_patch b = [] then s\<lparr>ps_saved := ps_saved s @ [b]\<rparr>
     else s\<lparr>ps_saving := Some (b, Writing), ps_writes := ps_writes s @ [b]\<rparr>)"

definition saver_timer :: "nat \<Rightarrow> bool \<Rightarrow> pref_batch \<Rightarrow> pref_saver \<Rightarrow> pref_saver" where
  "saver_timer delay blocked b s = (if ps_timer s = None then s
     else let s = s\<lparr>ps_timer := None\<rparr> in if blocked then saver_schedule delay s else saver_flush b s)"

text \<open>The waiting calls and the one that saved read the draft again, one after the other.\<close>

definition saver_again :: "pref_batch \<Rightarrow> pref_saver \<Rightarrow> pref_saver" where
  "saver_again b s = (saver_flush b ^^ (ps_waiting s + 1)) (s\<lparr>ps_saving := None, ps_waiting := 0\<rparr>)"

datatype save_outcome = SaveDone | SaveBusy | SaveFailed

definition saver_settled :: "save_outcome \<Rightarrow> pref_batch \<Rightarrow> pref_saver \<Rightarrow> pref_saver" where
  "saver_settled result fresh s = (case ps_saving s of
       Some (b, Writing) \<Rightarrow> (case result of
           SaveDone \<Rightarrow> saver_again fresh (s\<lparr>ps_saved := ps_saved s @ [b]\<rparr>)
         | SaveBusy \<Rightarrow> s\<lparr>ps_saving := Some (b, RetryLater)\<rparr>
         | SaveFailed \<Rightarrow> s\<lparr>ps_saving := None, ps_waiting := 0\<rparr>)
     | _ \<Rightarrow> s)"

definition saver_retry :: "pref_batch \<Rightarrow> pref_saver \<Rightarrow> pref_saver" where
  "saver_retry fresh s = (case ps_saving s of Some (_, RetryLater) \<Rightarrow> saver_again fresh s | _ \<Rightarrow> s)"

definition hasPending :: "pref_batch \<Rightarrow> pref_saver \<Rightarrow> bool" where
  "hasPending b s \<longleftrightarrow> ps_saving s \<noteq> None \<or> pf_entries b \<noteq> []"

section \<open>Only the allowed preferences leave the window\<close>

definition allowed_patch :: "string option \<times> string \<times> js_value \<Rightarrow> bool" where
  "allowed_patch = (\<lambda>(g, k, v).
     (g, k) \<in> {(Some ''claims'', ''maxConnectionsPerSecond''), (Some ''claims'', ''maxConcurrent'')} \<and> js_nat_in 1 MAX_CONNECTION_LIMIT v
     \<or> (g, k) = (Some ''claims'', ''lookbackBlocks'') \<and> js_nat_in 1 600 v
     \<or> (g, k) = (None, ''autoLockMinutes'') \<and> js_nat_in 0 60 v \<or> (g, k) = (None, ''feeRate'') \<and> js_nat_in 1201 100000 v
     \<or> (g, k) = (None, ''rpc'') \<and> map fst (js_entries v) = [''host'', ''port''] \<and> js_nat_in 1 65535 (js_prop v ''port''))"

lemma draft_integer_range: "draft_integer v lo hi = Some n \<Longrightarrow> js_nat_in lo hi (VInt n)"
  by (auto simp: draft_integer_def split: option.splits if_splits)

lemma take_number_allowed:
  assumes "\<forall>p\<in>set (pf_patch b). allowed_patch p" and "\<And>n. js_nat_in lo hi (VInt n) \<Longrightarrow> allowed_patch (g, k, VInt n)"
  shows "\<forall>p\<in>set (pf_patch (take_number sec g m saved (k, lo, hi) b)). allowed_patch p"
  using assms draft_integer_range [of "draft_value m k" lo hi] by (auto simp: take_number_def split: option.splits)

lemma endpoint_patch_allowed:
  "draft_integer v 1 65535 = Some n \<Longrightarrow> allowed_patch (None, ''rpc'', VObj [(''host'', h), (''port'', VInt n)])"
  using draft_integer_range [of v 1 65535 n] by (simp add: allowed_patch_def js_entries_def)

lemma take_endpoint_allowed:
  assumes "\<forall>p\<in>set (pf_patch b). allowed_patch p"
  shows "\<forall>p\<in>set (pf_patch (take_endpoint u rpc m b)). allowed_patch p"
proof (cases "draft_integer (let v = draft_value m ''port'' in if js_nullish v then js_prop rpc ''port'' else v) 1 65535")
  case (Some n)
  from endpoint_patch_allowed [OF this] Some assms show ?thesis by (simp add: take_endpoint_def Let_def)
qed (use assms in \<open>simp add: take_endpoint_def Let_def\<close>)

definition allows :: "string option \<Rightarrow> string \<times> int \<times> int \<Rightarrow> bool" where
  "allows g = (\<lambda>(k, lo, hi). \<forall>n. js_nat_in lo hi (VInt n) \<longrightarrow> allowed_patch (g, k, VInt n))"

lemma fold_take_number_allowed:
  assumes "\<forall>p\<in>set (pf_patch b). allowed_patch p" and "\<forall>x\<in>set xs. allows g x"
  shows "\<forall>p\<in>set (pf_patch (fold (take_number sec g m saved) xs b)). allowed_patch p"
  using assms
proof (induction xs arbitrary: b)
  case (Cons x xs)
  obtain k lo hi where x: "x = (k, lo, hi)" by (cases x)
  with Cons.prems have "\<forall>p\<in>set (pf_patch (take_number sec g m saved x b)). allowed_patch p"
    unfolding x by (intro take_number_allowed) (simp_all add: allows_def del: js_nat_in_VInt)
  with Cons show ?case by simp
qed simp

lemma preference_batch_allowed:
  assumes "p \<in> set (pf_patch (preferenceBatch u config draft ready))"
  shows "allowed_patch p"
proof -
  have "\<forall>x\<in>set [(''maxConnectionsPerSecond'', 1, MAX_CONNECTION_LIMIT), (''maxConcurrent'', 1, MAX_CONNECTION_LIMIT), (''lookbackBlocks'', 1, 600)].
      allows (Some ''claims'') x" "\<forall>x\<in>set [(''autoLockMinutes'', 0, 60), (''feeRate'', 1201, 100000)]. allows None x"
    by (simp_all add: allows_def allowed_patch_def del: js_nat_in_VInt)
  then have "\<forall>p\<in>set (pf_patch (preferenceBatch u config draft ready)). allowed_patch p"
    unfolding preferenceBatch_def Let_def by (split if_split) (intro conjI impI take_endpoint_allowed fold_take_number_allowed; simp)
  with assms show ?thesis by blast
qed

end
