(* ===== verification/Mobile_Forms.thy ===== *)
theory Mobile_Forms
  imports Mobile_Model Amount_Input Numeric_Value
begin

text \<open>
  The forms of the mobile wallet: settings, the policy and limits of claims, payment and claim requests,
  receive requests, scanned payments, progress and receipts of payments
  (\<open>src/mobile/src/settings.mjs\<close>, \<open>claims-policy.mjs\<close>, \<open>claims-status.mjs\<close>, \<open>send-request.mjs\<close>,
  \<open>p2c-request.mjs\<close>, \<open>receive-request.mjs\<close>, \<open>payment-intake.mjs\<close>, \<open>payment-progress.mjs\<close>,
  \<open>payment-batch.mjs\<close>). Typed texts are UTF-16 code units, \<open>None\<close> where the argument is no text. \<open>parse\<close> is
  \<open>parseMainnetAddress\<close> with its libraries. A message to the user is a constructor.
\<close>

datatype form_error =
    BadTheme | BadNumber string | BadHostname | SettingsNotObject | SettingsMissing
  | BadClaimsLimits
  | FormAddress | FormMobile mobile_error | FormUri uri_error
  | BadSendAmount | SendAmountRange | BadFeeRate | NeedsSubtraction
  | BadDomain | BadReward | RewardRange | BadConnections
  | BadRequestFields | UnsupportedField | FormTextTooLong string | FormTextCharacter string | FormNotText string | BadFormAmount
  | BadSource | NotALink
  | BadReceipt

section \<open>Settings\<close>

definition settings_theme :: "js_value \<Rightarrow> form_error + string" where
  "settings_theme v = (if v \<in> {VStr ''dark'', VStr ''light'', VStr ''system''} then Inr (js_text v) else Inl BadTheme)"

definition digits_value :: "js_value \<Rightarrow> js_value" where
  "digits_value v = (case v of VStr s \<Rightarrow> if s \<noteq> [] \<and> list_all is_digit s then VInt (int (dec_val s)) else v | _ \<Rightarrow> v)"

definition settings_integer :: "js_value \<Rightarrow> int \<Rightarrow> int \<Rightarrow> string \<Rightarrow> form_error + int" where
  "settings_integer v least greatest name =
     (let v = digits_value v in if js_nat_in least greatest v then Inr (js_num v) else Inl (BadNumber name))"

definition ends_with :: "string \<Rightarrow> string \<Rightarrow> bool" where
  "ends_with suffix s \<longleftrightarrow> length suffix \<le> length s \<and> drop (length s - length suffix) s = suffix"

definition host_char :: "char \<Rightarrow> bool" where
  "host_char c \<longleftrightarrow> is_alnum c \<or> c \<in> {CHR ''.'', CHR ''-''}"

definition publicHostname :: "js_value \<Rightarrow> form_error + string" where
  "publicHostname v = (case v of
       VStr s \<Rightarrow>
         let host = js_trim s; name = lower_str host in
         if host = [] \<or> length host > 253 \<or> \<not> list_all host_char host then Inl BadHostname
         else if CHR ''.'' \<notin> set name \<or> list_all (\<lambda>c. is_digit c \<or> c = CHR ''.'') name
           \<or> list_ex (\<lambda>suffix. ends_with suffix name) [''.localhost'', ''.local'', ''.internal'']
           \<or> list_ex (\<lambda>l. l = [] \<or> length l > 63 \<or> hd l = CHR ''-'' \<or> List.last l = CHR ''-'') (js_split (CHR ''.'') name)
         then Inl BadHostname else Inr name
     | _ \<Rightarrow> Inl BadHostname)"

record settings =
  se_theme :: string
  se_autoLock :: int
  se_host :: string
  se_port :: int

definition DEFAULT_SETTINGS :: settings where
  "DEFAULT_SETTINGS = \<lparr>se_theme = ''dark'', se_autoLock = 0, se_host = ''connectcoin4.com'', se_port = 48190\<rparr>"

definition parseSettings :: "js_value \<Rightarrow> form_error + settings" where
  "parseSettings input =
     (if \<not> js_plain input \<and> input \<noteq> VExotic then Inl SettingsNotObject
      else if \<not> list_all (js_own input) [''theme'', ''autoLockMinutes'', ''rpcHost'', ''rpcPort''] then Inl SettingsMissing
      else bindE (settings_theme (js_prop input ''theme'')) (\<lambda>theme.
        bindE (settings_integer (js_prop input ''autoLockMinutes'') 0 1440 ''Auto-lock minutes'') (\<lambda>minutes.
        bindE (publicHostname (js_prop input ''rpcHost'')) (\<lambda>host.
        bindE (settings_integer (js_prop input ''rpcPort'') 1 65535 ''RPC port'') (\<lambda>port.
          Inr \<lparr>se_theme = theme, se_autoLock = minutes, se_host = host, se_port = port\<rparr>)))))"

definition rpcEndpoint :: "settings \<Rightarrow> string" where
  "rpcEndpoint s = se_host s @ '':'' @ dec_str (nat (se_port s))"

definition resolvedTheme :: "js_value \<Rightarrow> bool \<Rightarrow> form_error + string" where
  "resolvedTheme theme prefersDark = bindE (settings_theme theme) (\<lambda>t.
     Inr (if t = ''system'' then (if prefersDark then ''dark'' else ''light'') else t))"

section \<open>The policy of claims\<close>

definition claims_limit :: "js_value \<Rightarrow> form_error + int" where
  "claims_limit v = (case js_integer (digits_value v) of
       Some n \<Rightarrow> if 1 \<le> n \<and> n \<le> 100 then Inr n else Inl BadClaimsLimits
     | None \<Rightarrow> Inl BadClaimsLimits)"

definition parseClaimsLimits :: "js_value \<Rightarrow> form_error + int \<times> int" where
  "parseClaimsLimits options = bindE (claims_limit (js_prop options ''connectionsPerSecondLimit'')) (\<lambda>rate.
     bindE (claims_limit (js_prop options ''concurrency'')) (\<lambda>concurrency. Inr (rate, concurrency)))"

definition evaluateClaimsPolicy :: "js_value \<Rightarrow> bool \<times> string" where
  "evaluateClaimsPolicy options =
     (let get = js_prop options; denied = (\<lambda>r. (False, r)) in
      if \<not> js_plain options then denied ''disabled''
      else if get ''enabled'' \<noteq> VBool True then denied ''disabled''
      else if get ''nativeClaimsAvailable'' \<noteq> VBool True then denied ''native-claims-unavailable''
      else if get ''platform'' \<notin> {VStr ''android'', VStr ''ios''} then denied ''unsupported-platform''
      else if get ''connected'' \<noteq> VBool True then denied ''offline''
      else if get ''connectionType'' \<notin> {VStr ''wifi'', VStr ''cellular'', VStr ''ethernet''} then denied ''connection-unknown''
      else if get ''connectionType'' = VStr ''cellular'' \<and> get ''allowMobileData'' \<noteq> VBool True then denied ''mobile-data-disabled''
      else case get ''appActive'' of
          VBool active \<Rightarrow>
            if active then (True, ''foreground'')
            else if get ''allowBackground'' \<noteq> VBool True then denied ''background-disabled''
            else if get ''platform'' = VStr ''ios'' then denied ''ios-background-unsupported''
            else if get ''nativeBackgroundAvailable'' \<noteq> VBool True then denied ''native-background-unavailable''
            else (True, ''background'')
        | _ \<Rightarrow> denied ''app-state-unknown'')"

definition STATUS :: "(string \<times> string) list" where
  "STATUS = [(''stopped'', ''Stopped''), (''paused'', ''Paused''), (''synchronizing'', ''Synchronizing''), (''retrying'', ''Retrying''),
     (''claiming'', ''Claiming''), (''waiting'', ''Waiting''), (''submitting'', ''Submitting''), (''submitted'', ''Submitted''),
     (''error'', ''Error''), (''unknown-outcome'', ''Submission outcome unknown'')]"

definition POLICY :: "(string \<times> string) list" where
  "POLICY = [(''allowed'', ''Allowed''), (''stopped'', ''Stopped''), (''paused'', ''Paused''), (''background-paused'', ''Paused in background''),
     (''offline'', ''Offline''), (''mobile-data-disabled'', ''Mobile data disabled''), (''foreground'', ''Foreground''), (''background'', ''Background'')]"

definition WAITING :: "(string \<times> string) list" where
  "WAITING = [(''economic-floor'', ''Below the economic floor; only bounded calibration/recovery probes''),
     (''retained-capacity'', ''Awaiting claim confirmations or submission review; retained-proof capacity reached'')]"

definition text_of :: "(string \<times> string) list \<Rightarrow> js_value \<Rightarrow> string \<Rightarrow> string" where
  "text_of table key fallback = (case key of VStr k \<Rightarrow> (case map_of table k of Some t \<Rightarrow> t | None \<Rightarrow> fallback) | _ \<Rightarrow> fallback)"

text \<open>The parts of the status, which the code joins with middle dots.\<close>

definition claimsStatusText :: "js_value \<Rightarrow> string list" where
  "claimsStatusText claims =
     (if \<not> js_plain claims then [''Claims status unavailable'']
      else [text_of POLICY (js_prop claims ''policyStatus'') ''Claims'', text_of STATUS (js_prop claims ''status'') ''Status unavailable'']
        @ (if js_prop claims ''status'' = VStr ''waiting'' \<and> text_of WAITING (js_prop claims ''waitingReason'') [] \<noteq> []
           then [text_of WAITING (js_prop claims ''waitingReason'') []] else []))"

section \<open>Payments and claims to request\<close>

definition desktop_rules :: amount_rules where
  "desktop_rules = \<lparr>ru_integer = 9, ru_fraction = 10\<rparr>"

text \<open>\<open>normalized.replace(/\.$/, '')\<close>.\<close>

definition drop_point :: "units \<Rightarrow> units" where
  "drop_point s = (if s \<noteq> [] \<and> last s = 46 then butlast s else s)"

text \<open>The normalized amount without its trailing point, and its value.\<close>

definition typed_amount :: "amount_rules \<Rightarrow> units option \<Rightarrow> (units \<times> int) option" where
  "typed_amount rules value = (case value of None \<Rightarrow> None
     | Some v \<Rightarrow> (case normalizeAmountInput rules v of None \<Rightarrow> None
         | Some n \<Rightarrow> if n = [] then None else Some (drop_point n, coin_value (of_units (drop_point n)))))"

definition typed_rate :: "units option \<Rightarrow> (units \<times> int) option" where
  "typed_rate value = (case value of None \<Rightarrow> None
     | Some v \<Rightarrow> (case normalizeAmountInput \<lparr>ru_integer = 6, ru_fraction = 0\<rparr> v of None \<Rightarrow> None
         | Some n \<Rightarrow> if n = [] then None else Some (drop_point n, int (units_val (drop_point n)))))"

record send_request =
  sq_address :: string
  sq_amount :: units
  sq_feeRate :: units
  sq_subtract :: bool
  sq_all :: bool

definition createSendRequest ::
    "(units option \<Rightarrow> mobile_error + string) \<Rightarrow> units option \<Rightarrow> units option \<Rightarrow> units option \<Rightarrow> js_value \<Rightarrow> js_value
     \<Rightarrow> form_error + send_request" where
  "createSendRequest parse address amount feeRate subtract all = (case address of None \<Rightarrow> Inl FormAddress
     | Some a \<Rightarrow>
         if 58 \<in> set a then Inl FormAddress
         else case parse (Some (unit_trim a)) of Inl e \<Rightarrow> Inl (FormMobile e)
           | Inr address \<Rightarrow> (case typed_amount desktop_rules amount of None \<Rightarrow> Inl BadSendAmount
             | Some (amount, connects) \<Rightarrow>
                 if connects \<le> 0 \<or> connects > MAX_MONEY then Inl SendAmountRange
                 else (case typed_rate feeRate of None \<Rightarrow> Inl BadFeeRate
                   | Some (rate, n) \<Rightarrow>
                       if n < 1201 \<or> n > 100000 then Inl BadFeeRate
                       else (case (subtract, all) of
                           (VBool s, VBool u) \<Rightarrow> if u \<and> \<not> s then Inl NeedsSubtraction
                             else Inr \<lparr>sq_address = address, sq_amount = amount, sq_feeRate = rate, sq_subtract = s, sq_all = u\<rparr>
                         | _ \<Rightarrow> Inl NeedsSubtraction))))"

definition fundingSelectionIsCurrent :: "string list \<Rightarrow> string list option \<Rightarrow> bool" where
  "fundingSelectionIsCurrent partial selected = (case selected of None \<Rightarrow> True | Some s \<Rightarrow> list_all (\<lambda>a. a \<in> set partial) s)"

definition unit_label :: "units \<Rightarrow> bool" where
  "unit_label s \<longleftrightarrow> 1 \<le> length s \<and> length s \<le> 63 \<and> (unit_alpha (hd s) \<or> unit_digit (hd s)) \<and> (unit_alpha (last s) \<or> unit_digit (last s))
     \<and> list_all (\<lambda>c. unit_alpha c \<or> unit_digit c \<or> c = 45) s"

definition claim_domain :: "units option \<Rightarrow> form_error + units" where
  "claim_domain value = (case value of None \<Rightarrow> Inl BadDomain
     | Some v \<Rightarrow>
         if length v > 1024 \<or> list_ex (\<lambda>c. c > 127) v then Inl BadDomain
         else let d = map unit_lower (unit_trim v); labels = split_units (\<lambda>c. c = 46) d; top = last labels in
           if length d > 253 \<or> length labels < 2 \<or> d = units ''home.arpa''
              \<or> ends_with ''.home.arpa'' (of_units d) \<or> \<not> list_ex unit_alpha top \<or> \<not> list_all unit_label labels
              \<or> top \<in> set (map units [''localhost'', ''local'', ''localdomain'', ''internal'', ''invalid'', ''test'', ''onion''])
           then Inl BadDomain else Inr d)"

definition MAX_EXPECTED_CONNECTIONS :: nat where
  "MAX_EXPECTED_CONNECTIONS = 2 ^ 256"

definition expected_connections :: "units option \<Rightarrow> form_error + units" where
  "expected_connections value = (case value of None \<Rightarrow> Inl BadConnections
     | Some v \<Rightarrow>
         let s = (if v \<noteq> [] \<and> last v \<in> {46, 44} then butlast v else v) in
         if \<not> unit_digits s \<or> hd s = 48 \<or> length s > 78 \<or> units_val s > MAX_EXPECTED_CONNECTIONS then Inl BadConnections else Inr s)"

definition createP2CRequest :: "units option \<Rightarrow> units option \<Rightarrow> units option \<Rightarrow> form_error + units \<times> units \<times> units" where
  "createP2CRequest domain amount connections = bindE (claim_domain domain) (\<lambda>d.
     case typed_amount desktop_rules amount of None \<Rightarrow> Inl BadReward
     | Some (a, connects) \<Rightarrow>
         if connects \<le> 0 \<or> connects > MAX_MONEY then Inl RewardRange
         else bindE (expected_connections connections) (\<lambda>c. Inr (d, a, c)))"

section \<open>Requests to receive, scanned payments\<close>

text \<open>The fields that are present; a field whose value is no text is \<open>None\<close>.\<close>

type_synonym form_fields = "(string \<times> units option) list"

definition form_field :: "form_fields \<Rightarrow> string \<Rightarrow> units option" where
  "form_field m k = (case map_of m k of Some v \<Rightarrow> v | None \<Rightarrow> Some [])"

definition requestFields :: "form_fields \<Rightarrow> form_error + form_fields" where
  "requestFields m = (if set (map fst m) \<subseteq> {''address'', ''amount'', ''label'', ''message''} then Inr m else Inl UnsupportedField)"

definition checkedText :: "units option \<Rightarrow> string \<Rightarrow> bool \<Rightarrow> form_error + units" where
  "checkedText value name multiline = (case value of None \<Rightarrow> Inl (FormNotText name)
     | Some v \<Rightarrow>
         if length v > PAYMENT_URI_MAX_LENGTH then Inl (FormTextTooLong name)
         else let checked = code_point_list (if multiline then filter (\<lambda>c. c \<noteq> 13 \<and> c \<noteq> 10) v else v) in
           if list_ex unsupported_point checked \<or> \<not> multiline \<and> list_ex (\<lambda>p. p \<in> {0x2028, 0x2029}) checked
           then Inl (FormTextCharacter name) else Inr v)"

definition lift_uri :: "uri_error + 'a \<Rightarrow> form_error + 'a" where
  "lift_uri m = (case m of Inl e \<Rightarrow> Inl (FormUri e) | Inr x \<Rightarrow> Inr x)"

definition lift_mobile :: "mobile_error + 'a \<Rightarrow> form_error + 'a" where
  "lift_mobile m = (case m of Inl e \<Rightarrow> Inl (FormMobile e) | Inr x \<Rightarrow> Inr x)"

definition receive_amount :: "units option \<Rightarrow> form_error + units" where
  "receive_amount value = (case value of None \<Rightarrow> Inl BadFormAmount
     | Some v \<Rightarrow> if length v > 64 then Inl BadFormAmount
         else (case normalizeAmountInput desktop_rules v of None \<Rightarrow> Inl BadFormAmount | Some n \<Rightarrow> Inr (numeric_text n)))"

text \<open>The address is missing when the field is: the parser then gets no text.\<close>

definition createReceiveRequest ::
    "(units option \<Rightarrow> mobile_error + string) \<Rightarrow> form_fields \<Rightarrow> form_error + units \<times> payment_details" where
  "createReceiveRequest parse options = bindE (requestFields options) (\<lambda>m.
     bindE (lift_mobile (parse (case map_of m ''address'' of Some v \<Rightarrow> v | None \<Rightarrow> None))) (\<lambda>address.
     bindE (receive_amount (form_field m ''amount'')) (\<lambda>amount.
     bindE (checkedText (form_field m ''label'') ''Label'' False) (\<lambda>label.
     bindE (checkedText (form_field m ''message'') ''Message'' True) (\<lambda>message.
     bindE (lift_uri (validatePaymentDetails (Some label) (Some message))) (\<lambda>(label, message).
     bindE (lift_uri (buildPaymentUri (Some (units address)) (Some amount) (Some label) (Some message))) (\<lambda>uri.
     bindE (lift_uri (parsePaymentUri (Some uri))) (\<lambda>parsed. Inr (uri, parsed)))))))))"

definition parsePaymentIntake ::
    "(units option \<Rightarrow> mobile_error + string) \<Rightarrow> string \<Rightarrow> units option \<Rightarrow> form_error + string \<times> units \<times> units \<times> units" where
  "parsePaymentIntake parse source copied =
     (if source \<noteq> ''qr'' \<and> source \<noteq> ''external'' then Inl BadSource
      else bindE (lift_uri (parseClipboardPaymentText copied)) (\<lambda>(r, kind).
        if source = ''external'' \<and> kind \<noteq> UriText then Inl NotALink
        else bindE (lift_mobile (parse (Some (pd_address r)))) (\<lambda>address.
          Inr (address, pd_amount r, pd_label r, pd_message r))))"

end
