(* ===== verification/Mobile_Receipts.thy ===== *)
theory Mobile_Receipts
  imports Mobile_Model
begin

text \<open>
  What the mobile wallet shows of work done elsewhere: the receipt of a batch of payments
  (\<open>src/mobile/src/payment-batch.mjs\<close>), the progress of a payment (\<open>payment-progress.mjs\<close>), the recovery of
  addresses (\<open>hd-recovery-status.mjs\<close>) and the cached display (\<open>hd-display-cache.mjs\<close>). Texts for the user are constructors with the
  numbers they show.
\<close>

section \<open>Receipts\<close>

datatype receipt_failure = ReceiptInvalid

definition batch_money :: "bool \<Rightarrow> js_value \<Rightarrow> receipt_failure + int" where
  "batch_money positive v = (case v of
       VStr s \<Rightarrow> if \<not> canonical_dec 18 s \<or> int (dec_val s) > MAX_MONEY \<or> positive \<and> dec_val s = 0 then Inl ReceiptInvalid
         else Inr (int (dec_val s))
     | _ \<Rightarrow> Inl ReceiptInvalid)"

definition batch_record :: "js_value \<Rightarrow> string list \<Rightarrow> receipt_failure + js_value" where
  "batch_record v names = (case mobile_record v names of Inl _ \<Rightarrow> Inl ReceiptInvalid | Inr r \<Rightarrow> Inr r)"

definition batch_address :: "(units option \<Rightarrow> mobile_error + string) \<Rightarrow> js_value \<Rightarrow> receipt_failure + string" where
  "batch_address parse v = (case v of
       VStr s \<Rightarrow> if length s > 90 \<or> parse (Some (units s)) \<noteq> Inr s then Inl ReceiptInvalid else Inr s
     | _ \<Rightarrow> Inl ReceiptInvalid)"

text \<open>The groups of the pattern of a random identifier, version 4.\<close>

definition batch_identifier :: "string \<Rightarrow> bool" where
  "batch_identifier s \<longleftrightarrow> (case js_split (CHR ''-'') s of
       [a, b, c, d, e] \<Rightarrow> map length [a, b, c, d, e] = [8, 4, 4, 4, 12] \<and> list_all is_lower_hex (concat [a, b, c, d, e])
         \<and> hd c = CHR ''4'' \<and> hd d \<in> {CHR ''8'', CHR ''9'', CHR ''a'', CHR ''b''}
     | _ \<Rightarrow> False)"

definition batchId :: "js_value \<Rightarrow> receipt_failure + string" where
  "batchId v = (case v of VStr s \<Rightarrow> if batch_identifier s then Inr s else Inl ReceiptInvalid | _ \<Rightarrow> Inl ReceiptInvalid)"

datatype part_status = Submitted | CheckRequired | NotSent

definition part_status_of :: "js_value \<Rightarrow> part_status option" where
  "part_status_of v = (if v = VStr ''submitted'' then Some Submitted else if v = VStr ''check-required'' then Some CheckRequired
     else if v = VStr ''not-sent'' then Some NotSent else None)"

record batch_part =
  bp_txid :: string
  bp_status :: part_status
  bp_amount :: int
  bp_fee :: int

definition parse_part :: "js_value \<Rightarrow> batch_part list \<Rightarrow> receipt_failure + batch_part list" where
  "parse_part v parts = bindE (batch_record v [''txid'', ''status'', ''amount'', ''fee'']) (\<lambda>part.
     case part_status_of (js_prop part ''status'') of None \<Rightarrow> Inl ReceiptInvalid
     | Some status \<Rightarrow>
         if \<not> js_hash (js_prop part ''txid'') \<or> js_text (js_prop part ''txid'') \<in> set (map bp_txid parts) then Inl ReceiptInvalid
         else bindE (batch_money True (js_prop part ''amount'')) (\<lambda>amount. bindE (batch_money True (js_prop part ''fee'')) (\<lambda>fee.
           Inr (parts @ [\<lparr>bp_txid = js_text (js_prop part ''txid''), bp_status = status, bp_amount = amount, bp_fee = fee\<rparr>]))))"

record group_total =
  gt_count :: nat
  gt_amount :: int
  gt_fee :: int

definition paymentBatchTotals :: "batch_part list \<Rightarrow> part_status \<Rightarrow> group_total" where
  "paymentBatchTotals parts status = (let group = filter (\<lambda>p. bp_status p = status) parts in
     \<lparr>gt_count = length group, gt_amount = sum_list (map bp_amount group), gt_fee = sum_list (map bp_fee group)\<rparr>)"

definition STATUSES :: "part_status list" where
  "STATUSES = [Submitted, CheckRequired, NotSent]"

definition batch_status :: "batch_part list \<Rightarrow> string" where
  "batch_status parts =
     (let totals = paymentBatchTotals parts in
      if gt_count (totals CheckRequired) > 0 then ''check-required''
      else if gt_count (totals Submitted) = length parts then ''submitted''
      else if gt_count (totals Submitted) > 0 then ''partial'' else ''not-sent'')"

record payment_batch =
  pb_id :: string
  pb_wallet :: string
  pb_status :: string
  pb_submitted :: int
  pb_parts :: "batch_part list"
  pb_address :: string
  pb_requested :: int
  pb_total :: int
  pb_fee :: int

definition batch_fields :: "string list" where
  "batch_fields = [''batch'', ''batchId'', ''walletId'', ''status'', ''transactionCount'', ''submittedCount'', ''transactions'', ''address'',
     ''requestedTotal'', ''total'', ''fee'']"

text \<open>The counts: at least two and at most 32 transactions, and no negative zero.\<close>

definition batch_counts :: "js_value \<Rightarrow> js_value list \<Rightarrow> bool" where
  "batch_counts source parts \<longleftrightarrow> js_prop source ''batch'' = VBool True \<and> js_nat_in 2 32 (js_prop source ''transactionCount'')
     \<and> js_prop source ''submittedCount'' \<noteq> VNegZero
     \<and> js_nat_in 0 (js_num (js_prop source ''transactionCount'')) (js_prop source ''submittedCount'')
     \<and> int (length parts) = js_num (js_prop source ''transactionCount'')"

text \<open>The sums of the groups against the sums of the receipt, and fees on top or deducted.\<close>

definition batch_sums :: "batch_part list \<Rightarrow> js_value \<Rightarrow> int \<Rightarrow> int \<Rightarrow> int \<Rightarrow> bool" where
  "batch_sums parts source requested total_amount fee \<longleftrightarrow>
     js_prop source ''status'' = VStr (batch_status parts)
     \<and> js_num (js_prop source ''submittedCount'') = int (gt_count (paymentBatchTotals parts Submitted))
     \<and> sum_list (map (gt_amount \<circ> paymentBatchTotals parts) STATUSES) = total_amount
     \<and> sum_list (map (gt_fee \<circ> paymentBatchTotals parts) STATUSES) = fee
     \<and> fee \<le> 10000000000 \<and> total_amount + fee \<le> MAX_MONEY \<and> (requested = total_amount \<or> requested \<ge> total_amount + fee)"

definition parsePaymentBatch :: "(units option \<Rightarrow> mobile_error + string) \<Rightarrow> js_value \<Rightarrow> receipt_failure + payment_batch" where
  "parsePaymentBatch parse v = bindE (batch_record v batch_fields) (\<lambda>source.
     case js_prop source ''transactions'' of
       VArr items \<Rightarrow>
         if \<not> batch_counts source items then Inl ReceiptInvalid
         else bindE (batchId (js_prop source ''batchId'')) (\<lambda>batch.
           bindE (batch_address parse (js_prop source ''address'')) (\<lambda>address.
           bindE (batch_address parse (js_prop source ''walletId'')) (\<lambda>wallet.
           bindE (batch_money True (js_prop source ''requestedTotal'')) (\<lambda>requested.
           bindE (batch_money True (js_prop source ''total'')) (\<lambda>total_amount.
           bindE (batch_money True (js_prop source ''fee'')) (\<lambda>fee.
           bindE (foldE parse_part items []) (\<lambda>parts.
             if \<not> batch_sums parts source requested total_amount fee then Inl ReceiptInvalid
             else Inr \<lparr>pb_id = batch, pb_wallet = wallet, pb_status = batch_status parts,
                    pb_submitted = js_num (js_prop source ''submittedCount''), pb_parts = parts, pb_address = address,
                    pb_requested = requested, pb_total = total_amount, pb_fee = fee\<rparr>)))))))
     | _ \<Rightarrow> Inl ReceiptInvalid)"

definition parsePaymentBatchResponse ::
    "(units option \<Rightarrow> mobile_error + string) \<Rightarrow> js_value \<Rightarrow> receipt_failure + payment_batch option" where
  "parsePaymentBatchResponse parse v = bindE (batch_record v [''batch'']) (\<lambda>r.
     if js_prop r ''batch'' = VNull then Inr None else bindE (parsePaymentBatch parse (js_prop r ''batch'')) (\<lambda>b. Inr (Some b)))"

definition parsePaymentBatchDismissal :: "js_value \<Rightarrow> string \<Rightarrow> receipt_failure + unit" where
  "parsePaymentBatchDismissal v expected = bindE (batch_record v [''dismissed'', ''batchId'']) (\<lambda>r.
     if js_prop r ''dismissed'' \<noteq> VBool True then Inl ReceiptInvalid
     else bindE (batchId (js_prop r ''batchId'')) (\<lambda>i. if i \<noteq> expected then Inl ReceiptInvalid else Inr ()))"

section \<open>Progress\<close>

text \<open>The count is shown as \<open>completed / total\<close> when there is a total.\<close>

datatype progress_text =
    NoProgress
  | SigningProgress int int | SubmittingProgress int int
  | OutputsProgress int int | FundingProgress int int | WaitingProgress int int int   \<comment> \<open>with the seconds to wait\<close>

definition paymentProgressText :: "js_value \<Rightarrow> js_value \<Rightarrow> js_value \<Rightarrow> bool \<Rightarrow> bool \<Rightarrow> progress_text" where
  "paymentProgressText event operation address busy active =
     (let stage = js_prop event ''stage''; completed = js_prop event ''completed''; whole = js_prop event ''total'';
          wait = js_prop event ''retryAfterMs'' in
      if \<not> busy \<or> \<not> active \<or> operation \<notin> {VStr ''reviewPayment'', VStr ''reviewP2C''} \<or> \<not> js_plain event
         \<or> js_prop event ''operation'' \<noteq> operation \<or> js_prop event ''address'' \<noteq> address
         \<or> stage \<notin> VStr ` {''outputs'', ''funding'', ''waiting'', ''signing'', ''broadcasting''} then NoProgress
      else if \<not> js_nat_in 0 50000 completed \<or> \<not> js_nat_in 0 50000 whole \<or> js_num whole > 0 \<and> js_num completed > js_num whole
         \<or> \<not> js_nat_in 0 900000 wait then NoProgress
      else if stage \<in> {VStr ''signing'', VStr ''broadcasting''}
      then (if operation \<noteq> VStr ''reviewPayment'' \<or> js_num whole < 2 \<or> js_num whole > 32 then NoProgress
        else if stage = VStr ''signing'' then SigningProgress (js_num completed) (js_num whole)
        else SubmittingProgress (js_num completed) (js_num whole))
      else if stage = VStr ''outputs'' then OutputsProgress (js_num completed) (js_num whole)
      else if stage = VStr ''funding'' then FundingProgress (js_num completed) (js_num whole)
      else WaitingProgress (js_num completed) (js_num whole) (max 1 ((js_num wait + 999) div 1000)))"

section \<open>Recovery of addresses\<close>

datatype recovery_text =
    TrackedAddresses nat
  | PausedLocked int | PausedAway int | RecoveryStopped int
  | WaitingNetwork int "string option" | RetryAutomatically int "string option" | RetryNow int "string option"
  | RetryIn int int "string option" | Discovering int | RecoveryIncomplete int

text \<open>The text of an error: what native code said, or the fixed text, and the last error code.\<close>

datatype recovery_error = NoRecoveryError | RecoveryError "string option" "string option"

datatype retry_label = Rescan | RetryRecovery | WaitingLabel | RetryingLabel | DiscoveringLabel

definition code_tail :: "nat \<Rightarrow> (char \<Rightarrow> bool) \<Rightarrow> string \<Rightarrow> bool" where
  "code_tail limit ok s \<longleftrightarrow> 1 \<le> length s \<and> length s \<le> limit \<and> list_all ok s"

definition upper_or_line :: "char \<Rightarrow> bool" where
  "upper_or_line c \<longleftrightarrow> c = CHR ''_'' \<or> (65 \<le> (of_char c :: nat) \<and> (of_char c :: nat) \<le> 90)"

definition recovery_code :: "js_value \<Rightarrow> string option" where
  "recovery_code v = (case v of
       VStr s \<Rightarrow> if take 4 s = ''RPC_'' \<and> code_tail 32 upper_or_line (drop 4 s) \<or> take 3 s = ''HD_'' \<and> code_tail 32 upper_or_line (drop 3 s)
           \<or> take 1 s = ''-'' \<and> code_tail 8 is_digit (drop 1 s) then Some s else None
     | _ \<Rightarrow> None)"

definition recovery_failed :: "js_value \<Rightarrow> bool" where
  "recovery_failed h \<longleftrightarrow> js_prop h ''recoveryState'' = VStr ''failed''
     \<or> js_prop h ''recovering'' \<noteq> VBool True \<and> js_truthy (js_prop h ''error'')"

definition recovery_error :: "js_value \<Rightarrow> recovery_error" where
  "recovery_error h =
     (if \<not> recovery_failed h then NoRecoveryError
      else RecoveryError (case js_prop h ''error'' of VStr s \<Rightarrow> if s \<noteq> [] \<and> length s \<le> 512 then Some s else None | _ \<Rightarrow> None)
        (recovery_code (js_prop h ''errorCode'')))"

definition retry_text :: "js_value \<Rightarrow> int \<Rightarrow> string option \<Rightarrow> recovery_text" where
  "retry_text h checked detail = (case js_finite (js_prop h ''retryAfterMs'') of
       Some q \<Rightarrow> if q < 0 \<or> q > 120000 then RetryAutomatically checked detail
         else if q > 0 then RetryIn (ceiling (q / 1000)) checked detail else RetryNow checked detail
     | None \<Rightarrow> RetryAutomatically checked detail)"

definition hdRecoveryStatus :: "js_value \<Rightarrow> bool \<Rightarrow> bool \<Rightarrow> recovery_text \<times> recovery_error \<times> retry_label" where
  "hdRecoveryStatus vault active online =
     (let h = js_prop vault ''hd''; recovering = (js_prop h ''recovering'' = VBool True); state = js_prop h ''recoveryState'';
          checked = (if js_nat_in 0 10000 (js_prop h ''scanned'') then js_num (js_prop h ''scanned'') else 0);
          detail = recovery_code (js_prop h ''errorCode''); error = recovery_error h in
      if js_prop h ''complete'' = VBool True \<and> \<not> recovering
      then (TrackedAddresses (case js_prop vault ''accounts'' of VArr xs \<Rightarrow> length xs | _ \<Rightarrow> 0), NoRecoveryError, Rescan)
      else if js_prop vault ''locked'' = VBool True then (PausedLocked checked, error, RetryRecovery)
      else if \<not> active \<or> state = VStr ''paused'' then (PausedAway checked, error, RetryRecovery)
      else if recovery_failed h then (RecoveryStopped checked, error, RetryRecovery)
      else if recovering \<and> (state = VStr ''waiting-network'' \<or> \<not> online) then (WaitingNetwork checked detail, NoRecoveryError, WaitingLabel)
      else if recovering \<and> state = VStr ''retrying'' then (retry_text h checked detail, NoRecoveryError, RetryingLabel)
      else if recovering then (Discovering checked, NoRecoveryError, DiscoveringLabel)
      else (RecoveryIncomplete checked, NoRecoveryError, RetryRecovery))"

section \<open>The cached display\<close>

definition DISPLAY_CACHE_MAX_BYTES :: nat where "DISPLAY_CACHE_MAX_BYTES = 2 * 1024 * 1024"
definition DISPLAY_MAX_HISTORY :: nat where "DISPLAY_MAX_HISTORY = 200"

definition plainRow :: "js_value \<Rightarrow> js_value" where
  "plainRow row = VObj (map (\<lambda>k. (k, js_prop row k)) HISTORY_FIELDS)"

definition row_addresses :: "string list \<Rightarrow> js_value \<Rightarrow> string list option" where
  "row_addresses accounts row = (case js_prop row ''addresses'' of
       VArr as \<Rightarrow> if as = [] \<or> length as > length accounts \<or> \<not> distinct as \<or> \<not> set as \<subseteq> VStr ` set accounts then None
         else Some (map js_text as)
     | _ \<Rightarrow> None)"

record display_cache =
  dc_balance :: address_balance
  dc_history :: "(history_row \<times> string list) list"
  dc_updated :: int

text \<open>\<open>encoded\<close> is the length of the value as JSON in UTF-8, \<open>now\<close> the clock; \<open>tip_value\<close> the validated tip as a value.\<close>

definition tip_value :: "chain_tip \<Rightarrow> js_value" where
  "tip_value t = VObj [(''chain'', VStr (ct_chain t)), (''genesis_hash'', VStr (ct_genesis t)), (''height'', VInt (ct_height t)),
     (''hash'', VStr (ct_hash t)), (''mediantime'', VInt (ct_mediantime t))]"

definition readDisplayCache ::
    "(units option \<Rightarrow> mobile_error + string) \<Rightarrow> (js_value \<Rightarrow> nat) \<Rightarrow> int \<Rightarrow> string \<Rightarrow> string list \<Rightarrow> js_value \<Rightarrow> display_cache option" where
  "readDisplayCache parse encoded now walletId accounts v = (case js_prop v ''history'' of
       VArr rows \<Rightarrow>
         let updated = js_prop v ''updatedAt'' in
         if \<not> js_plain v \<or> encoded v > DISPLAY_CACHE_MAX_BYTES \<or> js_integer (js_prop v ''version'') \<noteq> Some 1
            \<or> js_prop v ''network'' \<noteq> VStr ''main'' \<or> js_prop v ''walletId'' \<noteq> VStr walletId
            \<or> js_prop v ''accountKey'' \<noteq> VStr (addressSetKey accounts)
            \<or> \<not> js_nat_in 1 (now + 60000) updated \<or> length rows > DISPLAY_MAX_HISTORY then None
         else (case validateBalance parse (js_prop v ''balance'') (Some (units walletId)) of Inl _ \<Rightarrow> None
           | Inr balance \<Rightarrow>
               (case validateHistory parse False (VObj [(''address'', VStr walletId), (''tip'', tip_value (ab_tip balance)),
                   (''unit'', VStr ''connects''), (''live'', VBool True), (''items'', VArr (map plainRow rows)), (''next_cursor'', VNull)])
                   (Some (units walletId)) of Inl _ \<Rightarrow> None
                 | Inr page \<Rightarrow>
                     if list_all (\<lambda>row. row_addresses accounts row \<noteq> None) rows
                     then Some \<lparr>dc_balance = balance,
                       dc_history = zip (hp_items page) (map (the \<circ> row_addresses accounts) rows), dc_updated = js_num updated\<rparr>
                     else None))
     | _ \<Rightarrow> None)"

end
