(* ===== verification/Live_Balance.thy ===== *)
theory Live_Balance
  imports Mobile_Model
begin

text \<open>
  Live balance of the mobile wallet (\<open>src/mobile/src/live-balance.mjs\<close>). Events are hints: they only mark
  the balance dirty, and a validated read publishes it. The session and the clock are inputs of every
  step; calls of the session are recorded, and the outcome of \<open>observeTip\<close> is the argument \<open>observe\<close>.
  A read has a beginning and an end, which are separate steps.
\<close>

record session_view =
  sv_address :: string
  sv_allowed :: bool
  sv_active :: bool
  sv_connected :: bool
  sv_pending :: bool            \<comment> \<open>\<open>pendingRefreshes\<close>\<close>
  sv_busy :: bool
  sv_tip :: "chain_tip option"  \<comment> \<open>the displayed tip, the tip of the balance or of the state\<close>
  sv_generation :: int
  sv_now :: rat

datatype session_call = ObserveTip chain_tip bool | DisconnectWatch | Refresh bool

record live_read =
  lr_epoch :: int
  lr_generation :: int
  lr_full :: bool

record live_balance =
  lb_address :: string
  lb_epoch :: int
  lb_dirty :: bool
  lb_connected :: bool
  lb_full :: bool
  lb_timer :: "rat option"      \<comment> \<open>the delay of the timer that is set\<close>
  lb_running :: "live_read option"
  lb_nextAt :: rat
  lb_calls :: "session_call list"

definition live_balance_new :: live_balance where
  "live_balance_new = \<lparr>lb_address = [], lb_epoch = 0, lb_dirty = False, lb_connected = False, lb_full = False, lb_timer = None,
     lb_running = None, lb_nextAt = 0, lb_calls = []\<rparr>"

definition lb_sync :: "session_view \<Rightarrow> live_balance \<Rightarrow> live_balance" where
  "lb_sync v b = (if lb_address b = sv_address v then b
     else b\<lparr>lb_address := sv_address v, lb_epoch := lb_epoch b + 1, lb_connected := False, lb_dirty := False, lb_full := False,
            lb_nextAt := 0, lb_timer := None\<rparr>)"

definition lb_pause :: "live_balance \<Rightarrow> live_balance" where
  "lb_pause b = b\<lparr>lb_timer := None, lb_connected := False\<rparr>"

definition lb_may_read :: "session_view \<Rightarrow> live_balance \<Rightarrow> bool" where
  "lb_may_read v b \<longleftrightarrow> lb_dirty b \<and> sv_allowed v \<and> sv_active v \<and> sv_connected v"

definition lb_wake :: "session_view \<Rightarrow> live_balance \<Rightarrow> live_balance" where
  "lb_wake v b0 = (let b = lb_sync v b0 in
     if \<not> lb_may_read v b then b\<lparr>lb_timer := None\<rparr>
     else if lb_running b \<noteq> None \<or> lb_timer b \<noteq> None then b
     else b\<lparr>lb_timer := Some (max 250 (max (lb_nextAt b - sv_now v) (if sv_pending v \<or> sv_busy v then 500 else 0)))\<rparr>)"

definition lb_request :: "bool \<Rightarrow> bool \<Rightarrow> session_view \<Rightarrow> live_balance \<Rightarrow> live_balance" where
  "lb_request failed full v b0 = (let b = lb_sync v b0 in
     if lb_address b = [] then b
     else lb_wake v (b\<lparr>lb_full := lb_full b \<or> full, lb_dirty := True,
       lb_nextAt := (if failed then max (lb_nextAt b) (sv_now v + 60000) else lb_nextAt b)\<rparr>))"

definition lb_call :: "session_call \<Rightarrow> live_balance \<Rightarrow> live_balance" where
  "lb_call c b = b\<lparr>lb_calls := lb_calls b @ [c]\<rparr>"

definition optional_bool :: "js_value \<Rightarrow> bool" where
  "optional_bool v \<longleftrightarrow> v = VUndef \<or> (case v of VBool _ \<Rightarrow> True | _ \<Rightarrow> False)"

text \<open>What the tip of an event says: \<open>None\<close> drops the event, otherwise whether it resets and the state after the calls.\<close>

definition lb_observe ::
    "(chain_tip \<Rightarrow> bool \<Rightarrow> bool option) \<Rightarrow> js_value \<Rightarrow> bool \<Rightarrow> session_view \<Rightarrow> live_balance \<Rightarrow> (bool \<times> live_balance) option" where
  "lb_observe observe event reset v b =
     (if \<not> js_truthy (js_prop event ''tip'')
      then Some (reset, if reset then lb_call DisconnectWatch b else b)
      else case mobile_validateTip (js_prop event ''tip'') of Inl _ \<Rightarrow> None
        | Inr tip \<Rightarrow>
            if js_prop event ''reason'' = VStr ''connected'' \<and> \<not> reset
               \<and> (case sv_tip v of None \<Rightarrow> False | Some t \<Rightarrow> ct_height tip < ct_height t)
            then Some (reset, b)
            else (case observe tip reset of None \<Rightarrow> None | Some r \<Rightarrow> Some (r, lb_call (ObserveTip tip reset) b)))"

definition lb_notify ::
    "(chain_tip \<Rightarrow> bool \<Rightarrow> bool option) \<Rightarrow> js_value \<Rightarrow> session_view \<Rightarrow> live_balance \<Rightarrow> live_balance" where
  "lb_notify observe event v b0 = (let b = lb_sync v b0; reason = js_prop event ''reason'' in
     if lb_address b = [] \<or> \<not> js_plain event \<or> js_prop event ''address'' \<noteq> VStr (lb_address b)
        \<or> reason \<notin> VStr ` {''connected'', ''disconnected'', ''address'', ''tip''}
        \<or> \<not> optional_bool (js_prop event ''reorg'') \<or> \<not> optional_bool (js_prop event ''resync_required'')
        \<or> reason = VStr ''tip'' \<and> \<not> js_truthy (js_prop event ''tip'') then b
     else case lb_observe observe event (js_prop event ''reorg'' = VBool True \<or> js_prop event ''resync_required'' = VBool True) v b of
         None \<Rightarrow> b
       | Some (reset, b) \<Rightarrow>
           if reason = VStr ''tip'' then (if reset then lb_request False True v b else b)
           else if reason = VStr ''disconnected''
           then (if lb_connected b then lb_request False True v (lb_call DisconnectWatch (b\<lparr>lb_connected := False\<rparr>)) else b)
           else lb_request False True v (b\<lparr>lb_connected := True\<rparr>))"

text \<open>The timer fires and \<open>flush\<close> begins; its read ends with \<open>lb_end\<close>.\<close>

definition lb_timer_fires :: "session_view \<Rightarrow> live_balance \<Rightarrow> live_balance" where
  "lb_timer_fires v b0 = (let b = lb_sync v (b0\<lparr>lb_timer := None\<rparr>) in
     if \<not> lb_may_read v b then b
     else if lb_running b \<noteq> None \<or> sv_pending v \<or> sv_busy v \<or> sv_now v < lb_nextAt b then lb_wake v b
     else lb_call (Refresh (lb_full b)) (b\<lparr>lb_running := Some \<lparr>lr_epoch = lb_epoch b, lr_generation = sv_generation v, lr_full = lb_full b\<rparr>,
       lb_dirty := False, lb_full := False\<rparr>))"

definition lb_end :: "bool \<Rightarrow> bool \<Rightarrow> session_view \<Rightarrow> live_balance \<Rightarrow> live_balance" where
  "lb_end refreshed baseline v b0 = (case lb_running b0 of None \<Rightarrow> b0
     | Some r \<Rightarrow>
         let b = b0\<lparr>lb_running := None\<rparr>;
             b = (if lr_epoch r \<noteq> lb_epoch b then b
               else let b = b\<lparr>lb_nextAt := sv_now v + (if refreshed \<or> sv_generation v \<noteq> lr_generation r + 1 then 2000 else 60000)\<rparr> in
                 if \<not> refreshed then b\<lparr>lb_dirty := True, lb_full := lb_full b \<or> lr_full r\<rparr>
                 else if baseline then b\<lparr>lb_dirty := True, lb_full := True\<rparr> else b)
         in lb_wake v b)"

datatype live_event =
    LNotify js_value | LRequest bool bool | LWake | LPause | LTimer | LEnd bool bool

definition lb_step :: "(chain_tip \<Rightarrow> bool \<Rightarrow> bool option) \<Rightarrow> session_view \<times> live_event \<Rightarrow> live_balance \<Rightarrow> live_balance" where
  "lb_step observe = (\<lambda>(v, e) b. case e of
       LNotify event \<Rightarrow> lb_notify observe event v b
     | LRequest failed full \<Rightarrow> lb_request failed full v b
     | LWake \<Rightarrow> lb_wake v b
     | LPause \<Rightarrow> lb_pause b
     | LTimer \<Rightarrow> if lb_timer b = None then b else lb_timer_fires v b
     | LEnd refreshed baseline \<Rightarrow> lb_end refreshed baseline v b)"

section \<open>One read at a time, and no hint is lost\<close>

lemma lb_sync_same [simp]: "lb_running (lb_sync v b) = lb_running b"
  by (simp add: lb_sync_def)

lemma lb_wake_running [simp]: "lb_running (lb_wake v b) = lb_running b"
  by (simp add: lb_wake_def Let_def)

text \<open>A dirty balance whose wallet may read waits for a timer or for the running read.\<close>

lemma lb_wake_waits:
  "lb_may_read v (lb_wake v b) \<Longrightarrow> lb_timer (lb_wake v b) \<noteq> None \<or> lb_running (lb_wake v b) \<noteq> None"
  by (auto simp: lb_wake_def Let_def lb_may_read_def split: if_splits)

lemma lb_wake_delay: "lb_timer (lb_sync v b) = None \<Longrightarrow> lb_timer (lb_wake v b) = Some d \<Longrightarrow> 250 \<le> d \<and> lb_nextAt (lb_wake v b) \<le> sv_now v + d"
  by (auto simp: lb_wake_def Let_def split: if_splits)

text \<open>A request for the current wallet is remembered until a read begins.\<close>

lemma lb_request_dirty: "sv_address v \<noteq> [] \<Longrightarrow> lb_dirty (lb_request failed full v b) \<and> lb_address (lb_request failed full v b) = sv_address v"
  by (auto simp: lb_request_def lb_wake_def lb_sync_def Let_def)

lemma lb_end_failed_dirty:
  "lb_running b = Some r \<Longrightarrow> lr_epoch r = lb_epoch b \<Longrightarrow> lb_address b = sv_address v \<Longrightarrow> lb_dirty (lb_end False baseline v b)
     \<and> (lr_full r \<longrightarrow> lb_full (lb_end False baseline v b))"
  by (auto simp: lb_end_def lb_wake_def lb_sync_def Let_def)

end
