(* ===== verification/Live_Updates.thy ===== *)
theory Live_Updates
  imports Address_Sync
begin

text \<open>
  Live updates (\<open>src/src/core/live-updates.mjs\<close>). \<open>confirmTipChange\<close> asks the server again before a
  notification may discard what is known; the class \<open>LiveUpdates\<close> keeps the subscriptions of one
  connection and turns notifications into wakeups.

  The class is a machine. Each event of \<open>live_event\<close> is one uninterrupted run of the source: a call from
  outside, a timer, or the continuation of an \<open>await\<close>. The outcomes of requests are events, in any
  order, so every interleaving of the two registration workers, of notifications and of lost
  connections is a list of events. The values of \<open>isActive()\<close> and \<open>getAddresses()\<close> at the event are its
  view. Calls to the outside (requests, \<open>onChange\<close>, \<open>onError\<close>) are appended to the output.
\<close>

datatype live_error =
    LiveTip config_error
  | TipMetadata             \<comment> \<open>Inconsistent RPC chain-tip metadata\<close>
  | TipWindow               \<comment> \<open>Incomplete RPC canonical-tip window\<close>
  | TipSequence             \<comment> \<open>Invalid RPC canonical-tip sequence\<close>
  | TipMoved                \<comment> \<open>Chain changed while confirming a live-update rollback\<close>
  | LiveRpc "int option"    \<comment> \<open>a failed request with its code\<close>
  | LiveCancelled           \<comment> \<open>an error of \<open>check()\<close>\<close>
  | AddressCapacity         \<comment> \<open>\<open>capacityError\<close>\<close>
  | AddressUnsupported      \<comment> \<open>\<open>capabilityError\<close>\<close>
  | BadWatchedAddress       \<comment> \<open>Invalid wallet address for live updates\<close>
  | BadWalletAddresses      \<comment> \<open>Invalid wallet addresses for live updates\<close>
  | WatchNotAvailable       \<comment> \<open>Wallet address is not available for live updates\<close>
  | WatchCancelled          \<comment> \<open>Wallet address registration wait cancelled\<close>
  | UpdatesStopped          \<comment> \<open>Wallet live updates stopped\<close>
  | Reconnecting            \<comment> \<open>RPC live updates are reconnecting\<close>
  | ChangedWhileSubscribing \<comment> \<open>RPC live updates changed while subscribing\<close>
  | BadSubscription         \<comment> \<open>Invalid RPC subscription response\<close>
  | DuplicateSubscription   \<comment> \<open>Duplicate RPC subscription identifier\<close>
  | CallbackError string    \<comment> \<open>an error of \<open>onChange\<close>\<close>

section \<open>Confirming a change of the tip\<close>

datatype tip_query = GetChainTip | GetRecentHashes "int option"

text \<open>
  \<open>ask n q\<close> is the outcome of the query at place \<open>n\<close> of the function, \<open>alive (2 * n)\<close> and \<open>alive (2 * n + 1)\<close>
  are the checks before and after it.
\<close>

type_synonym tip_ask = "nat \<Rightarrow> tip_query \<Rightarrow> live_error + js_value"

definition tip_query_at :: "tip_ask \<Rightarrow> (nat \<Rightarrow> bool) \<Rightarrow> nat \<Rightarrow> tip_query \<Rightarrow> live_error + js_value" where
  "tip_query_at ask alive n q =
     (if \<not> alive (2 * n) then Inl LiveCancelled
      else bindE (ask n q) (\<lambda>r. if alive (2 * n + 1) then Inr r else Inl LiveCancelled))"

definition live_validateTip :: "js_value \<Rightarrow> string \<Rightarrow> live_error + js_value" where
  "live_validateTip tip network = (case validateTip tip network of Inl e \<Rightarrow> Inl (LiveTip e) | Inr t \<Rightarrow> Inr t)"

text \<open>\<open>===\<close> of the hashes of two tips from different responses: texts are compared, anything else differs.\<close>

definition same_hash :: "js_value \<Rightarrow> js_value \<Rightarrow> bool" where
  "same_hash l r = (case (l, r) of (VStr a, VStr b) \<Rightarrow> a = b | _ \<Rightarrow> False)"

definition live_sameTip :: "js_value \<Rightarrow> js_value \<Rightarrow> live_error + bool" where
  "live_sameTip l r =
     (if \<not> same_hash (js_prop l ''hash'') (js_prop r ''hash'') then Inr False
      else if \<not> js_same (js_prop l ''height'') (js_prop r ''height'')
        \<or> \<not> js_same (js_prop l ''mediantime'') (js_prop r ''mediantime'')
        \<or> js_prop l ''chain'' \<noteq> js_prop r ''chain'' \<or> js_prop l ''genesis_hash'' \<noteq> js_prop r ''genesis_hash''
      then Inl TipMetadata else Inr True)"

definition recent_hashes :: "tip_ask \<Rightarrow> (nat \<Rightarrow> bool) \<Rightarrow> int \<Rightarrow> live_error + js_value" where
  "recent_hashes ask alive n = (case tip_query_at ask alive 1 (GetRecentHashes (Some n)) of
       Inl e \<Rightarrow> if e \<noteq> LiveRpc (Some (- 32602)) then Inl e else tip_query_at ask alive 2 (GetRecentHashes None)
     | Inr r \<Rightarrow> Inr r)"

fun check_window :: "js_value \<Rightarrow> int \<Rightarrow> string list \<Rightarrow> js_value list \<Rightarrow> live_error + unit" where
  "check_window tip i hashes [] = Inr ()"
| "check_window tip i hashes (block # blocks) =
     (let hash = js_prop block ''hash''; height = js_integer (js_prop block ''height'') in
      if \<not> js_plain block \<or> \<not> js_hash hash \<or> height \<noteq> Some (js_num (js_prop tip ''height'') - i)
         \<or> js_text hash \<in> set hashes \<or> (i = 0 \<and> hash \<noteq> js_prop tip ''hash'')
         \<or> (height = Some 0 \<and> hash \<noteq> js_prop tip ''genesis_hash'')
      then Inl TipSequence
      else check_window tip (i + 1) (js_text hash # hashes) blocks)"

definition window_blocks :: "js_value \<Rightarrow> int \<Rightarrow> js_value \<Rightarrow> live_error + js_value list" where
  "window_blocks recent n tip =
     (let height = js_num (js_prop tip ''height''); fullLength = min 600 (height + 1)
      in case js_prop recent ''blocks'' of
          VArr blocks \<Rightarrow>
            if \<not> js_same (js_prop recent ''window'') (VInt 600)
               \<or> (int (length blocks) \<noteq> min n (height + 1) \<and> int (length blocks) \<noteq> fullLength) then Inl TipWindow
            else Inr blocks
        | _ \<Rightarrow> Inl TipWindow)"

text \<open>\<open>recent.blocks.find(block => block.height === previous.height)?.hash !== previous.hash\<close>\<close>

definition previous_missing :: "js_value \<Rightarrow> js_value list \<Rightarrow> bool" where
  "previous_missing previous blocks =
     (case find (\<lambda>b. js_same (js_prop b ''height'') (js_prop previous ''height'')) blocks of
        None \<Rightarrow> True
      | Some b \<Rightarrow> \<not> same_hash (js_prop b ''hash'') (js_prop previous ''hash''))"

definition confirmTipChange ::
    "tip_ask \<Rightarrow> (nat \<Rightarrow> bool) \<Rightarrow> string \<Rightarrow> js_value \<Rightarrow> live_error + (js_value \<times> bool)" where
  "confirmTipChange ask alive network previous =
     bindE (tip_query_at ask alive 0 GetChainTip) (\<lambda>response.
     bindE (live_validateTip response network) (\<lambda>tip.
     bindE (live_sameTip previous tip) (\<lambda>same.
     let height = js_num (js_prop tip ''height''); previousHeight = js_num (js_prop previous ''height'') in
     if same then Inr (tip, False)
     else if height \<le> previousHeight then Inr (tip, True)
     else let n = min 600 (height - previousHeight + 1) in
       bindE (recent_hashes ask alive n) (\<lambda>recent.
       bindE (live_validateTip (js_prop recent ''tip'') network) (\<lambda>snapshotTip.
       bindE (window_blocks recent n snapshotTip) (\<lambda>blocks.
       bindE (check_window snapshotTip 0 [] blocks) (\<lambda>_.
       bindE (live_sameTip tip snapshotTip) (\<lambda>same.
       bindE (if \<not> same then Inr False
              else bindE (tip_query_at ask alive 3 GetChainTip) (\<lambda>response.
                   bindE (live_validateTip response network) (\<lambda>t. live_sameTip snapshotTip t))) (\<lambda>same.
       if \<not> same then Inl TipMoved else Inr (snapshotTip, previous_missing previous blocks))))))))))"

section \<open>The state of the subscriptions\<close>

datatype sub_kind = TipKind | BountiesKind | AddressKind

fun kind_name :: "sub_kind \<Rightarrow> string" where
  "kind_name TipKind = ''tip''"
| "kind_name BountiesKind = ''bounties''"
| "kind_name AddressKind = ''address''"

record registration =
  rg_id :: string
  rg_kind :: sub_kind
  rg_address :: "string option"

definition sub_key :: "sub_kind \<Rightarrow> string option \<Rightarrow> string" where
  "sub_key kind value = (case value of None \<Rightarrow> kind_name kind | Some a \<Rightarrow> ''address:'' @ a)"

record live_change =
  cg_tip :: "js_value option"
  cg_wallet :: bool
  cg_bounties :: bool
  cg_reset :: bool
  cg_catchup :: bool

datatype live_output =
    Changed live_change
  | Reported live_error
  | ConnectSent
  | SubscribeSent sub_kind "string option"
  | UnsubscribeSent string

text \<open>
  Where the one run of \<open>ensure\<close> stands, with the generation it took after connecting. A call of \<open>subscribe\<close>
  waits for its answer, waits for the release of a legacy subscription, or has returned to a caller
  that has not continued yet; \<open>None\<close> is the return of nothing when the generation has passed.
\<close>

datatype sub_at = SubWaiting | SubReleasing | SubReturned "live_error + bool option"

datatype worker = Registering string sub_at | WorkerDone

record batch =
  bt_remaining :: "string list"
  bt_inFlight :: "string list"
  bt_registered :: nat
  bt_stopped :: bool
  bt_capacity :: bool
  bt_failure :: "live_error option"
  bt_probe :: bool
  bt_workers :: "worker list"

datatype ensure_at =
    EnsureScheduled
  | EnsureConnecting
  | EnsureBase nat sub_kind sub_at
  | EnsureReleasing nat "string list" string registration "(string \<times> registration) list"
  | EnsureBatch nat batch
  | EnsureSettled "live_error option"
  | EnsureCaught

text \<open>\<open>watchAddress\<close>: the address, the pass of its loop, the state of its signal and of its wait.\<close>

datatype watch_at = WatchWaiting nat nat \<comment> \<open>generation, number of the run waited for\<close> | WatchWoken "live_error option"

record watch =
  wa_value :: string
  wa_pass :: nat
  wa_aborted :: bool
  wa_at :: watch_at

record live_config =
  lc_network :: string
  lc_retryMin :: int
  lc_retryMax :: int

record live_view =
  lv_active :: bool
  lv_addresses :: js_value

record live_updates =
  lu_started :: bool
  lu_closed :: bool
  lu_generation :: nat
  lu_registrations :: "(string, registration) jmap"
  lu_ids :: "(string, registration) jmap"
  lu_running :: "(nat \<times> ensure_at) option"
  lu_ended :: "live_error option list"       \<comment> \<open>the outcomes of the settled runs\<close>
  lu_requested :: bool
  lu_retryTimer :: "int option"
  lu_retryDelay :: int
  lu_baseReady :: bool
  lu_addressCapacity :: bool
  lu_addressCapability :: "bool option"
  lu_addressBatch :: bool
  lu_addressPending :: bool
  lu_addressCatchup :: bool
  lu_addressTimer :: "nat option"            \<comment> \<open>the generation its callback has captured\<close>
  lu_watches :: "(nat, watch) jmap"
  lu_watched :: "(nat \<times> (live_error + bool)) list"
  lu_output :: "live_output list"

definition live_new :: "live_config \<Rightarrow> live_updates" where
  "live_new c = \<lparr>lu_started = False, lu_closed = False, lu_generation = 0, lu_registrations = [], lu_ids = [],
     lu_running = None, lu_ended = [], lu_requested = False, lu_retryTimer = None, lu_retryDelay = lc_retryMin c,
     lu_baseReady = False, lu_addressCapacity = False, lu_addressCapability = None, lu_addressBatch = False,
     lu_addressPending = False, lu_addressCatchup = False, lu_addressTimer = None, lu_watches = [], lu_watched = [],
     lu_output = []\<rparr>"

section \<open>Changes, invalidation and waiting\<close>

definition live_active :: "live_view \<Rightarrow> live_updates \<Rightarrow> bool" where
  "live_active v s \<longleftrightarrow> lu_started s \<and> \<not> lu_closed s \<and> lv_active v"

definition live_current :: "live_view \<Rightarrow> nat \<Rightarrow> live_updates \<Rightarrow> bool" where
  "live_current v g s \<longleftrightarrow> live_active v s \<and> lu_generation s = g"

definition live_send :: "live_output \<Rightarrow> live_updates \<Rightarrow> live_updates" where
  "live_send out s = s\<lparr>lu_output := lu_output s @ [out]\<rparr>"

definition live_report :: "live_view \<Rightarrow> live_error \<Rightarrow> live_updates \<Rightarrow> live_updates" where
  "live_report v e s = (if live_active v s then live_send (Reported e) s else s)"

definition no_change :: live_change where
  "no_change = \<lparr>cg_tip = None, cg_wallet = False, cg_bounties = False, cg_reset = False, cg_catchup = False\<rparr>"

definition live_change :: "live_view \<Rightarrow> live_change \<Rightarrow> live_updates \<Rightarrow> live_updates" where
  "live_change v flags s = (if live_active v s then live_send (Changed flags) s else s)"

text \<open>\<open>addresses()\<close>: the elements of the set in the order of their insertion.\<close>

fun live_address :: "js_value \<Rightarrow> bool" where
  "live_address (VStr a) = (8 \<le> length a \<and> length a \<le> 90 \<and> list_all is_alnum a)"
| "live_address _ = False"

definition set_order :: "'a list \<Rightarrow> 'a list" where
  "set_order xs = rev (remdups (rev xs))"

definition live_addresses :: "live_view \<Rightarrow> live_error + string list" where
  "live_addresses v = (case lv_addresses v of
       VArr as \<Rightarrow> if list_all live_address as then Inr (set_order (map js_text as)) else Inl BadWalletAddresses
     | _ \<Rightarrow> Inl BadWalletAddresses)"

text \<open>One call of the \<open>wake\<close> of a waiter, and \<open>wakeAddressWaiters\<close>.\<close>

definition wake_watch :: "live_view \<Rightarrow> live_updates \<Rightarrow> watch \<Rightarrow> watch" where
  "wake_watch v s w = (case wa_at w of
       WatchWaiting g _ \<Rightarrow>
         if wa_aborted w then w\<lparr>wa_at := WatchWoken (Some WatchCancelled)\<rparr>
         else if \<not> live_active v s then w\<lparr>wa_at := WatchWoken (Some UpdatesStopped)\<rparr>
         else if lu_generation s \<noteq> g then w\<lparr>wa_at := WatchWoken None\<rparr>
         else if jhas (lu_registrations s) (sub_key AddressKind (Some (wa_value w))) \<or> lu_addressCapacity s
              \<or> lu_addressCapability s = Some False then w\<lparr>wa_at := WatchWoken None\<rparr>
         else w
     | WatchWoken _ \<Rightarrow> w)"

definition wakeAddressWaiters :: "live_view \<Rightarrow> live_updates \<Rightarrow> live_updates" where
  "wakeAddressWaiters v s = s\<lparr>lu_watches := map (\<lambda>(i, w). (i, wake_watch v s w)) (lu_watches s)\<rparr>"

text \<open>The requests of the old connection are aborted, so their outcomes are errors that come later.\<close>

definition live_invalidate :: "live_view \<Rightarrow> live_updates \<Rightarrow> live_updates" where
  "live_invalidate v s = wakeAddressWaiters v (s\<lparr>lu_generation := lu_generation s + 1, lu_registrations := [], lu_ids := [],
     lu_baseReady := False, lu_addressCapacity := False, lu_addressCapability := None, lu_retryTimer := None,
     lu_addressTimer := None, lu_addressBatch := False, lu_addressPending := False, lu_addressCatchup := False\<rparr>)"

definition flushAddresses :: "live_view \<Rightarrow> live_updates \<Rightarrow> live_updates" where
  "flushAddresses v s0 = (let s = s0\<lparr>lu_addressTimer := None\<rparr> in
     if \<not> lu_addressPending s then s
     else live_change v (no_change\<lparr>cg_wallet := True, cg_catchup := lu_addressCatchup s\<rparr>)
            (s\<lparr>lu_addressPending := False, lu_addressCatchup := False\<rparr>))"

definition addressChange :: "live_view \<Rightarrow> bool \<Rightarrow> live_updates \<Rightarrow> live_updates" where
  "addressChange v catchup s =
     (if \<not> live_active v s then s
      else if \<not> lu_addressBatch s then live_change v (no_change\<lparr>cg_wallet := True, cg_catchup := catchup\<rparr>) s
      else s\<lparr>lu_addressCatchup := (if lu_addressPending s then lu_addressCatchup s \<and> catchup else catchup),
             lu_addressPending := True,
             lu_addressTimer := (if lu_addressTimer s = None then Some (lu_generation s) else lu_addressTimer s)\<rparr>)"

definition address_timer_fires :: "live_view \<Rightarrow> live_updates \<Rightarrow> live_updates" where
  "address_timer_fires v s = (case lu_addressTimer s of None \<Rightarrow> s
     | Some g \<Rightarrow> let s = s\<lparr>lu_addressTimer := None\<rparr> in if live_current v g s then flushAddresses v s else s)"

definition live_kick :: "live_view \<Rightarrow> live_updates \<Rightarrow> live_updates" where
  "live_kick v s =
     (if \<not> live_active v s \<or> lu_running s \<noteq> None \<or> lu_retryTimer s \<noteq> None \<or> \<not> lu_requested s then s
      else s\<lparr>lu_requested := False, lu_running := Some (length (lu_ended s), EnsureScheduled)\<rparr>)"

definition live_retry :: "live_config \<Rightarrow> live_view \<Rightarrow> live_updates \<Rightarrow> live_updates" where
  "live_retry c v s =
     (if \<not> live_active v s \<or> lu_retryTimer s \<noteq> None then s
      else s\<lparr>lu_retryDelay := min (lc_retryMax c) (lu_retryDelay s * 2), lu_retryTimer := Some (lu_retryDelay s)\<rparr>)"

definition retry_fires :: "live_view \<Rightarrow> live_updates \<Rightarrow> live_updates" where
  "retry_fires v s = (if lu_retryTimer s = None then s
     else live_kick v (s\<lparr>lu_retryTimer := None, lu_requested := True\<rparr>))"

definition live_start :: "live_view \<Rightarrow> live_updates \<Rightarrow> live_updates" where
  "live_start v s = (if lu_closed s \<or> lu_started s then s
     else live_kick v (s\<lparr>lu_started := True, lu_requested := True\<rparr>))"

definition updateAddresses :: "live_view \<Rightarrow> live_updates \<Rightarrow> live_updates" where
  "updateAddresses v s = (if live_active v s then live_kick v (s\<lparr>lu_requested := True\<rparr>) else s)"

text \<open>The listeners of the connection are installed by \<open>start\<close> and removed by \<open>close\<close>.\<close>

definition live_connected :: "live_view \<Rightarrow> live_updates \<Rightarrow> live_updates" where
  "live_connected v s = (if \<not> lu_started s \<or> lu_closed s then s
     else live_kick v ((live_invalidate v s)\<lparr>lu_requested := True\<rparr>))"

definition live_disconnected :: "live_config \<Rightarrow> live_view \<Rightarrow> live_updates \<Rightarrow> live_updates" where
  "live_disconnected c v s = (if \<not> lu_started s \<or> lu_closed s then s
     else live_retry c v ((live_invalidate v s)\<lparr>lu_requested := False\<rparr>))"

definition live_close :: "live_view \<Rightarrow> live_updates \<Rightarrow> live_updates" where
  "live_close v s = (if lu_closed s then s
     else (live_invalidate v (s\<lparr>lu_closed := True\<rparr>))\<lparr>lu_requested := False\<rparr>)"

definition unsupportedAddresses :: "live_view \<Rightarrow> live_updates \<Rightarrow> live_updates" where
  "unsupportedAddresses v s = (if lu_addressCapability s = Some False then s
     else live_report v AddressUnsupported (wakeAddressWaiters v (s\<lparr>lu_addressCapability := Some False\<rparr>)))"

section \<open>Notifications\<close>

definition live_identifier :: "js_value \<Rightarrow> bool" where
  "live_identifier x = (case x of
       VStr t \<Rightarrow> 1 \<le> length t \<and> length t \<le> 100 \<and> list_all (\<lambda>c. 31 < (of_char c :: nat) \<and> (of_char c :: nat) \<noteq> 127) t
     | _ \<Rightarrow> False)"

definition live_cursor :: "js_value \<Rightarrow> bool" where
  "live_cursor x = (case x of VStr t \<Rightarrow> 1 \<le> length t \<and> length t \<le> 4096 | _ \<Rightarrow> False)"

definition optional_flag :: "js_value \<Rightarrow> bool" where
  "optional_flag x \<longleftrightarrow> x = VUndef \<or> (case x of VBool _ \<Rightarrow> True | _ \<Rightarrow> False)"

definition bounty_message_ok :: "js_value \<Rightarrow> bool" where
  "bounty_message_ok m \<longleftrightarrow> live_cursor (js_prop m ''cursor'') \<and>
     (js_prop m ''resync_required'' = VBool True \<or>
      (case js_prop m ''changes'' of VArr cs \<Rightarrow> length cs \<le> 10000 | _ \<Rightarrow> False))"

definition address_notified :: "live_view \<Rightarrow> js_value \<Rightarrow> registration \<Rightarrow> bool \<Rightarrow> live_updates \<Rightarrow> live_updates" where
  "address_notified v m r reset s =
     (if js_prop m ''address'' \<noteq> (case rg_address r of Some a \<Rightarrow> VStr a | None \<Rightarrow> VUndef)
         \<or> js_prop m ''refresh'' \<noteq> VBool True then s
      else case live_addresses v of Inl e \<Rightarrow> live_report v e s
        | Inr as \<Rightarrow>
            if js_prop m ''address'' \<notin> set (map VStr as) then s
            else if reset then live_change v (no_change\<lparr>cg_wallet := True, cg_bounties := True, cg_reset := True\<rparr>) s
            else addressChange v False s)"

definition live_notify :: "live_config \<Rightarrow> live_view \<Rightarrow> js_value \<Rightarrow> live_updates \<Rightarrow> live_updates" where
  "live_notify c v m s =
     (if \<not> live_active v s \<or> \<not> js_plain m \<or> \<not> live_identifier (js_prop m ''subscription_id'') then s
      else case jget (lu_ids s) (js_text (js_prop m ''subscription_id'')) of None \<Rightarrow> s
      | Some r \<Rightarrow>
        if js_prop m ''kind'' \<noteq> VStr (kind_name (rg_kind r)) then s
        else case live_validateTip (js_prop m ''tip'') (lc_network c) of Inl e \<Rightarrow> live_report v e s
        | Inr tip \<Rightarrow>
          if \<not> optional_flag (js_prop m ''reorg'') \<or> \<not> optional_flag (js_prop m ''resync_required'') then s
          else let reset = (js_prop m ''reorg'' = VBool True \<or> js_prop m ''resync_required'' = VBool True) in
            (case rg_kind r of
               AddressKind \<Rightarrow> address_notified v m r reset s
             | TipKind \<Rightarrow> live_change v (no_change\<lparr>cg_tip := Some tip, cg_wallet := reset, cg_bounties := True, cg_reset := reset\<rparr>) s
             | BountiesKind \<Rightarrow> if \<not> bounty_message_ok m then s
                 else live_change v (no_change\<lparr>cg_wallet := reset, cg_bounties := True, cg_reset := reset\<rparr>) s))"

section \<open>One subscription\<close>

text \<open>The call of \<open>subscribe\<close> up to its first \<open>await\<close>.\<close>

definition subscribe_begin :: "sub_kind \<Rightarrow> string option \<Rightarrow> live_updates \<Rightarrow> sub_at \<times> live_updates" where
  "subscribe_begin kind value s =
     (if jhas (lu_registrations s) (sub_key kind value) then (SubReturned (Inr (Some True)), s)
      else (SubWaiting, live_send (SubscribeSent kind value) s))"

definition subscribe_install :: "live_view \<Rightarrow> sub_kind \<Rightarrow> string option \<Rightarrow> string \<Rightarrow> live_updates \<Rightarrow> live_updates" where
  "subscribe_install v kind value i s0 =
     (let r = \<lparr>rg_id = i, rg_kind = kind, rg_address = value\<rparr>;
          s = (if kind = AddressKind \<and> lu_addressCapability s0 = None then s0\<lparr>lu_addressCapability := Some True\<rparr> else s0);
          s = s\<lparr>lu_registrations := jset (lu_registrations s) (sub_key kind value) r, lu_ids := jset (lu_ids s) i r\<rparr>
      in if kind = AddressKind then addressChange v True (wakeAddressWaiters v s) else s)"

text \<open>Its continuation with the outcome of the request.\<close>

definition subscribe_reply ::
    "live_config \<Rightarrow> live_view \<Rightarrow> nat \<Rightarrow> sub_kind \<Rightarrow> string option \<Rightarrow> live_error + js_value \<Rightarrow> live_updates \<Rightarrow> sub_at \<times> live_updates" where
  "subscribe_reply c v g kind value outcome s = (case outcome of
       Inl e \<Rightarrow>
         if kind \<noteq> AddressKind \<or> \<not> live_current v g s \<or> e \<notin> {LiveRpc (Some (- 32601)), LiveRpc (Some (- 32602))}
         then (SubReturned (Inl e), s)
         else (SubReturned (Inr (Some False)), unsupportedAddresses v s)
     | Inr result \<Rightarrow>
         if \<not> live_current v g s then (SubReturned (Inr None), s)
         else if \<not> js_plain result \<or> \<not> live_identifier (js_prop result ''subscription_id'')
              \<or> \<not> live_cursor (js_prop result ''cursor'') then (SubReturned (Inl BadSubscription), s)
         else let i = js_text (js_prop result ''subscription_id'') in
           (case live_validateTip (js_prop result ''tip'') (lc_network c) of
              Inl e \<Rightarrow> (SubReturned (Inl e), s)
            | Inr _ \<Rightarrow>
                if jhas (lu_ids s) i then (SubReturned (Inl DuplicateSubscription), s)
                else if kind = AddressKind \<and> js_prop result ''changes_only'' \<noteq> VBool True
                then (SubReleasing, live_send (UnsubscribeSent i) (unsupportedAddresses v s))
                else (SubReturned (Inr (Some True)), subscribe_install v kind value i s)))"

section \<open>The run of \<open>ensure\<close>\<close>

definition run_at :: "nat \<Rightarrow> ensure_at \<Rightarrow> live_updates \<Rightarrow> live_updates" where
  "run_at n at' s = s\<lparr>lu_running := Some (n, at')\<rparr>"

definition ensure_settle :: "nat \<Rightarrow> live_error option \<Rightarrow> live_updates \<Rightarrow> live_updates" where
  "ensure_settle n err s = s\<lparr>lu_ended := lu_ended s @ [err], lu_running := Some (n, EnsureSettled err)\<rparr>"

text \<open>The end of the \<open>try\<close>: an old generation swallows the error, the current one flushes the batch.\<close>

definition ensure_leave :: "live_view \<Rightarrow> nat \<Rightarrow> nat \<Rightarrow> live_error option \<Rightarrow> live_updates \<Rightarrow> live_updates" where
  "ensure_leave v n g err s =
     (if live_current v g s then ensure_settle n err (flushAddresses v (s\<lparr>lu_addressBatch := False\<rparr>))
      else ensure_settle n None s)"

definition ensure_done :: "live_config \<Rightarrow> live_view \<Rightarrow> nat \<Rightarrow> nat \<Rightarrow> live_updates \<Rightarrow> live_updates" where
  "ensure_done c v n g s =
     ensure_leave v n g None (if live_current v g s then s\<lparr>lu_retryDelay := lc_retryMin c\<rparr> else s)"

subsection \<open>The two workers\<close>

definition drop_flight :: "string \<Rightarrow> batch \<Rightarrow> batch" where
  "drop_flight key b = b\<lparr>bt_inFlight := filter (\<lambda>k. k \<noteq> key) (bt_inFlight b)\<rparr>"

definition occupied_slots :: "batch \<Rightarrow> live_updates \<Rightarrow> nat" where
  "occupied_slots b s = length (lu_registrations s)
     + length (filter (\<lambda>k. \<not> jhas (lu_registrations s) k) (bt_inFlight b))"

text \<open>The loop of a worker up to its next \<open>await\<close>, on the rest of the shared iterator.\<close>

fun worker_loop :: "live_view \<Rightarrow> nat \<Rightarrow> string list \<Rightarrow> batch \<Rightarrow> live_updates \<Rightarrow> worker \<times> batch \<times> live_updates" where
  "worker_loop v g [] b s = (WorkerDone, b\<lparr>bt_remaining := []\<rparr>, s)"
| "worker_loop v g (value # remaining) b s =
     (if \<not> live_current v g s \<or> bt_stopped b then (WorkerDone, b\<lparr>bt_remaining := value # remaining\<rparr>, s)
      else let key = sub_key AddressKind (Some value) in
        if jhas (lu_registrations s) key then worker_loop v g remaining b s
        else if occupied_slots b s \<ge> 100
        then (WorkerDone, b\<lparr>bt_remaining := remaining, bt_stopped := True, bt_capacity := True\<rparr>, s)
        else let (at', s) = subscribe_begin AddressKind (Some value) s
          in (Registering value at', b\<lparr>bt_remaining := remaining,
                bt_inFlight := (if key \<in> set (bt_inFlight b) then bt_inFlight b else bt_inFlight b @ [key])\<rparr>, s))"

definition worker_run :: "live_view \<Rightarrow> nat \<Rightarrow> batch \<Rightarrow> live_updates \<Rightarrow> worker \<times> batch \<times> live_updates" where
  "worker_run v g b s = worker_loop v g (bt_remaining b) b s"

text \<open>A worker continues after its \<open>subscribe\<close> has returned or thrown.\<close>

definition worker_returned ::
    "live_view \<Rightarrow> nat \<Rightarrow> string \<Rightarrow> live_error + bool option \<Rightarrow> batch \<Rightarrow> live_updates \<Rightarrow> worker \<times> batch \<times> live_updates" where
  "worker_returned v g value outcome b0 s =
     (let b = drop_flight (sub_key AddressKind (Some value)) b0 in
      if \<not> live_current v g s then (WorkerDone, b, s)
      else case outcome of
        Inl e \<Rightarrow> (WorkerDone, (if e = LiveRpc (Some (- 32005)) then b\<lparr>bt_stopped := True, bt_capacity := True\<rparr>
             else b\<lparr>bt_stopped := True, bt_failure := (if bt_failure b = None then Some e else bt_failure b)\<rparr>), s)
      | Inr accepted \<Rightarrow>
          if lu_addressCapability s = Some False then (WorkerDone, b\<lparr>bt_stopped := True\<rparr>, s)
          else let (b, s) = (if accepted = Some True
                   then (b\<lparr>bt_registered := bt_registered b + 1\<rparr>,
                         if (bt_registered b + 1) mod 8 = 0 then flushAddresses v s else s)
                   else (b, s))
            in if bt_probe b then (WorkerDone, b, s) else worker_run v g b s)"

definition workers_start :: "live_view \<Rightarrow> nat \<Rightarrow> batch \<Rightarrow> live_updates \<Rightarrow> batch \<times> live_updates" where
  "workers_start v g b s =
     (if bt_probe b then (case worker_run v g b s of (w, b, s) \<Rightarrow> (b\<lparr>bt_workers := [w]\<rparr>, s))
      else case worker_run v g b s of (w, b, s) \<Rightarrow>
        (case worker_run v g b s of (w', b, s) \<Rightarrow> (b\<lparr>bt_workers := [w, w']\<rparr>, s)))"

definition batch_new :: "bool \<Rightarrow> string list \<Rightarrow> batch" where
  "batch_new probe desired = \<lparr>bt_remaining = desired, bt_inFlight = [], bt_registered = 0, bt_stopped = False,
     bt_capacity = False, bt_failure = None, bt_probe = probe, bt_workers = []\<rparr>"

definition ensure_batch :: "live_config \<Rightarrow> live_view \<Rightarrow> nat \<Rightarrow> nat \<Rightarrow> string list \<Rightarrow> live_updates \<Rightarrow> live_updates" where
  "ensure_batch c v n g desired s =
     (if lu_addressCapacity s \<or> lu_addressCapability s = Some False then ensure_done c v n g s
      else let s = s\<lparr>lu_addressBatch := True\<rparr>;
               (b, s) = workers_start v g (batch_new (lu_addressCapability s = None) desired) s
           in run_at n (EnsureBatch g b) s)"

text \<open>After the probe the two workers start; after both the batch is evaluated.\<close>

definition batch_continue :: "live_config \<Rightarrow> live_view \<Rightarrow> nat \<Rightarrow> nat \<Rightarrow> batch \<Rightarrow> live_updates \<Rightarrow> live_updates" where
  "batch_continue c v n g b s =
     (if bt_probe b then
        let (b, s) = workers_start v g (b\<lparr>bt_probe := False\<rparr>) s in run_at n (EnsureBatch g b) s
      else if \<not> live_current v g s then ensure_leave v n g None s
      else if bt_failure b \<noteq> None then ensure_leave v n g (bt_failure b) s
      else ensure_done c v n g (if bt_capacity b
        then live_report v AddressCapacity (wakeAddressWaiters v (s\<lparr>lu_addressCapacity := True\<rparr>)) else s))"

subsection \<open>Base subscriptions and releases\<close>

fun ensure_release ::
    "live_config \<Rightarrow> live_view \<Rightarrow> nat \<Rightarrow> nat \<Rightarrow> string list \<Rightarrow> (string \<times> registration) list \<Rightarrow> live_updates \<Rightarrow> live_updates" where
  "ensure_release c v n g desired [] s = ensure_batch c v n g desired s"
| "ensure_release c v n g desired ((key, r) # rest) s =
     (if rg_kind r \<noteq> AddressKind \<or> (case rg_address r of Some a \<Rightarrow> a \<in> set desired | None \<Rightarrow> False)
      then ensure_release c v n g desired rest s
      else run_at n (EnsureReleasing g desired key r rest) (live_send (UnsubscribeSent (rg_id r)) s))"

definition ensure_base :: "live_config \<Rightarrow> live_view \<Rightarrow> nat \<Rightarrow> nat \<Rightarrow> live_updates \<Rightarrow> live_updates" where
  "ensure_base c v n g s0 =
     (let s = (if lu_baseReady s0 then s0
        else live_change v (no_change\<lparr>cg_wallet := True, cg_bounties := True, cg_catchup := True\<rparr>) (s0\<lparr>lu_baseReady := True\<rparr>))
      in case live_addresses v of
           Inl e \<Rightarrow> ensure_leave v n g (Some e) s
         | Inr desired \<Rightarrow> ensure_release c v n g desired (lu_registrations s) s)"

definition ensure_subscribe :: "nat \<Rightarrow> nat \<Rightarrow> sub_kind \<Rightarrow> live_updates \<Rightarrow> live_updates" where
  "ensure_subscribe n g kind s = (let (at', s) = subscribe_begin kind None s in run_at n (EnsureBase g kind at') s)"

definition base_returned ::
    "live_config \<Rightarrow> live_view \<Rightarrow> nat \<Rightarrow> nat \<Rightarrow> sub_kind \<Rightarrow> live_error + bool option \<Rightarrow> live_updates \<Rightarrow> live_updates" where
  "base_returned c v n g kind outcome s = (case outcome of
       Inl e \<Rightarrow> ensure_leave v n g (Some e) s
     | Inr _ \<Rightarrow> if \<not> live_current v g s then ensure_leave v n g None s
         else if kind = TipKind then ensure_subscribe n g BountiesKind s else ensure_base c v n g s)"

section \<open>The events\<close>

text \<open>The scheduled run begins, and continues when the connection stands.\<close>

definition ensure_begin :: "live_view \<Rightarrow> live_updates \<Rightarrow> live_updates" where
  "ensure_begin v s = (case lu_running s of
       Some (n, EnsureScheduled) \<Rightarrow>
         if \<not> live_active v s then ensure_settle n None s else run_at n EnsureConnecting (live_send ConnectSent s)
     | _ \<Rightarrow> s)"

definition connect_reply :: "live_view \<Rightarrow> live_error + unit \<Rightarrow> live_updates \<Rightarrow> live_updates" where
  "connect_reply v outcome s = (case lu_running s of
       Some (n, EnsureConnecting) \<Rightarrow> (case outcome of
           Inl e \<Rightarrow> ensure_settle n (Some e) s
         | Inr _ \<Rightarrow> if \<not> live_active v s then ensure_settle n None s else ensure_subscribe n (lu_generation s) TipKind s)
     | _ \<Rightarrow> s)"

text \<open>The outcome of the request that the run itself waits for.\<close>

definition request_reply :: "live_config \<Rightarrow> live_view \<Rightarrow> live_error + js_value \<Rightarrow> live_updates \<Rightarrow> live_updates" where
  "request_reply c v outcome s = (case lu_running s of
       Some (n, EnsureBase g kind SubWaiting) \<Rightarrow>
         (case subscribe_reply c v g kind None outcome s of (at', s) \<Rightarrow> run_at n (EnsureBase g kind at') s)
     | Some (n, EnsureReleasing g desired key r rest) \<Rightarrow> (case outcome of
           Inl e \<Rightarrow> ensure_leave v n g (Some e) s
         | Inr _ \<Rightarrow> if \<not> live_current v g s then ensure_leave v n g None s
             else ensure_release c v n g desired rest
               (s\<lparr>lu_registrations := jdelete (lu_registrations s) key, lu_ids := jdelete (lu_ids s) (rg_id r),
                  lu_addressCapacity := False\<rparr>))
     | _ \<Rightarrow> s)"

definition worker_reply :: "live_config \<Rightarrow> live_view \<Rightarrow> nat \<Rightarrow> live_error + js_value \<Rightarrow> live_updates \<Rightarrow> live_updates" where
  "worker_reply c v i outcome s = (case lu_running s of
       Some (n, EnsureBatch g b) \<Rightarrow>
         if length (bt_workers b) \<le> i then s else (case bt_workers b ! i of
           Registering value SubWaiting \<Rightarrow>
             (case subscribe_reply c v g AddressKind (Some value) outcome s of (at', s) \<Rightarrow>
               run_at n (EnsureBatch g (b\<lparr>bt_workers := (bt_workers b)[i := Registering value at']\<rparr>)) s)
         | Registering value SubReleasing \<Rightarrow>
             run_at n (EnsureBatch g (b\<lparr>bt_workers := (bt_workers b)[i := Registering value (SubReturned (Inr (Some False)))]\<rparr>)) s
         | _ \<Rightarrow> s)
     | _ \<Rightarrow> s)"

definition worker_continue :: "live_view \<Rightarrow> nat \<Rightarrow> live_updates \<Rightarrow> live_updates" where
  "worker_continue v i s = (case lu_running s of
       Some (n, EnsureBatch g b) \<Rightarrow>
         if length (bt_workers b) \<le> i then s else (case bt_workers b ! i of
           Registering value (SubReturned outcome) \<Rightarrow>
             (case worker_returned v g value outcome b s of (w, b, s) \<Rightarrow>
               run_at n (EnsureBatch g (b\<lparr>bt_workers := (bt_workers b)[i := w]\<rparr>)) s)
         | _ \<Rightarrow> s)
     | _ \<Rightarrow> s)"

definition ensure_continue :: "live_config \<Rightarrow> live_view \<Rightarrow> live_updates \<Rightarrow> live_updates" where
  "ensure_continue c v s = (case lu_running s of
       Some (n, EnsureBase g kind (SubReturned outcome)) \<Rightarrow> base_returned c v n g kind outcome s
     | Some (n, EnsureBatch g b) \<Rightarrow> if list_all (\<lambda>w. w = WorkerDone) (bt_workers b) then batch_continue c v n g b s else s
     | _ \<Rightarrow> s)"

text \<open>The handlers that \<open>kick\<close> attached: \<open>catch\<close>, then \<open>finally\<close>.\<close>

definition work_catch :: "live_config \<Rightarrow> live_view \<Rightarrow> live_updates \<Rightarrow> live_updates" where
  "work_catch c v s = (case lu_running s of
       Some (n, EnsureSettled err) \<Rightarrow> run_at n EnsureCaught
         (case err of None \<Rightarrow> s | Some e \<Rightarrow> if live_active v s then live_retry c v (live_report v e s) else s)
     | _ \<Rightarrow> s)"

definition work_finally :: "live_view \<Rightarrow> live_updates \<Rightarrow> live_updates" where
  "work_finally v s = (case lu_running s of
       Some (n, EnsureCaught) \<Rightarrow> live_kick v (s\<lparr>lu_running := None\<rparr>)
     | _ \<Rightarrow> s)"

subsection \<open>Waiting for an address\<close>

definition watch_settle :: "nat \<Rightarrow> live_error + bool \<Rightarrow> live_updates \<Rightarrow> live_updates" where
  "watch_settle i outcome s = s\<lparr>lu_watches := jdelete (lu_watches s) i, lu_watched := lu_watched s @ [(i, outcome)]\<rparr>"

definition watch_wait :: "live_view \<Rightarrow> nat \<Rightarrow> watch \<Rightarrow> live_updates \<Rightarrow> live_updates" where
  "watch_wait v i w s = (case lu_running s of
       None \<Rightarrow> watch_settle i (Inl Reconnecting) s
     | Some (n, _) \<Rightarrow> s\<lparr>lu_watches := jset (lu_watches s) i (wake_watch v s (w\<lparr>wa_at := WatchWaiting (lu_generation s) n\<rparr>))\<rparr>)"

definition watch_turn :: "live_view \<Rightarrow> nat \<Rightarrow> watch \<Rightarrow> live_updates \<Rightarrow> live_updates" where
  "watch_turn v i w s =
     (if wa_pass w \<ge> 8 then watch_settle i (Inl ChangedWhileSubscribing) s
      else if wa_aborted w then watch_settle i (Inl WatchCancelled) s
      else if \<not> live_active v s then watch_settle i (Inl UpdatesStopped) s
      else case live_addresses v of Inl e \<Rightarrow> watch_settle i (Inl e) s
      | Inr as \<Rightarrow>
          if wa_value w \<notin> set as then watch_settle i (Inl WatchNotAvailable) s
          else if jhas (lu_registrations s) (sub_key AddressKind (Some (wa_value w))) then watch_settle i (Inr True) s
          else if lu_addressCapacity s \<or> lu_addressCapability s = Some False then watch_settle i (Inr False) s
          else if lu_retryTimer s \<noteq> None then watch_settle i (Inl Reconnecting) s
          else watch_wait v i w (updateAddresses v s))"

definition watchAddress :: "live_view \<Rightarrow> nat \<Rightarrow> js_value \<Rightarrow> bool \<Rightarrow> live_updates \<Rightarrow> live_updates" where
  "watchAddress v i value aborted s =
     (if jhas (lu_watches s) i \<or> i \<in> fst ` set (lu_watched s) then s
      else if \<not> live_address value then watch_settle i (Inl BadWatchedAddress) s
      else watch_turn v i \<lparr>wa_value = js_text value, wa_pass = 0, wa_aborted = aborted, wa_at = WatchWoken None\<rparr> s)"

definition watch_abort :: "nat \<Rightarrow> live_updates \<Rightarrow> live_updates" where
  "watch_abort i s = (case jget (lu_watches s) i of None \<Rightarrow> s
     | Some w \<Rightarrow> s\<lparr>lu_watches := jset (lu_watches s) i (w\<lparr>wa_aborted := True,
         wa_at := (case wa_at w of WatchWaiting _ _ \<Rightarrow> WatchWoken (Some WatchCancelled) | woken \<Rightarrow> woken)\<rparr>)\<rparr>)"

text \<open>The run that a waiter waits for has settled.\<close>

definition watch_pending :: "nat \<Rightarrow> live_updates \<Rightarrow> live_updates" where
  "watch_pending i s = (case jget (lu_watches s) i of None \<Rightarrow> s
     | Some w \<Rightarrow> (case wa_at w of
         WatchWaiting _ n \<Rightarrow> if n < length (lu_ended s)
           then s\<lparr>lu_watches := jset (lu_watches s) i (w\<lparr>wa_at := WatchWoken (lu_ended s ! n)\<rparr>)\<rparr> else s
       | WatchWoken _ \<Rightarrow> s))"

definition watch_continue :: "live_view \<Rightarrow> nat \<Rightarrow> live_updates \<Rightarrow> live_updates" where
  "watch_continue v i s = (case jget (lu_watches s) i of None \<Rightarrow> s
     | Some w \<Rightarrow> (case wa_at w of
         WatchWaiting _ _ \<Rightarrow> s
       | WatchWoken (Some e) \<Rightarrow> watch_settle i (Inl e) s
       | WatchWoken None \<Rightarrow> watch_turn v i (w\<lparr>wa_pass := wa_pass w + 1\<rparr>) s))"

datatype live_event =
    Start | UpdateAddresses | CloseUpdates | RpcConnected | RpcDisconnected | RpcNotification js_value
  | RetryFires | AddressTimerFires | CallbackFails live_error
  | BeginRun | ConnectReply "live_error + unit" | RequestReply "live_error + js_value"
  | WorkerReply nat "live_error + js_value" | WorkerContinues nat | RunContinues | RunCatch | RunFinally
  | WatchAddress nat js_value bool | AbortWatch nat | WatchPending nat | WatchContinues nat

fun live_step :: "live_config \<Rightarrow> live_view \<times> live_event \<Rightarrow> live_updates \<Rightarrow> live_updates" where
  "live_step c (v, Start) s = live_start v s"
| "live_step c (v, UpdateAddresses) s = updateAddresses v s"
| "live_step c (v, CloseUpdates) s = live_close v s"
| "live_step c (v, RpcConnected) s = live_connected v s"
| "live_step c (v, RpcDisconnected) s = live_disconnected c v s"
| "live_step c (v, RpcNotification m) s = (if lu_started s then live_notify c v m s else s)"
| "live_step c (v, RetryFires) s = retry_fires v s"
| "live_step c (v, AddressTimerFires) s = address_timer_fires v s"
| "live_step c (v, CallbackFails e) s = live_report v e s"
| "live_step c (v, BeginRun) s = ensure_begin v s"
| "live_step c (v, ConnectReply outcome) s = connect_reply v outcome s"
| "live_step c (v, RequestReply outcome) s = request_reply c v outcome s"
| "live_step c (v, WorkerReply i outcome) s = worker_reply c v i outcome s"
| "live_step c (v, WorkerContinues i) s = worker_continue v i s"
| "live_step c (v, RunContinues) s = ensure_continue c v s"
| "live_step c (v, RunCatch) s = work_catch c v s"
| "live_step c (v, RunFinally) s = work_finally v s"
| "live_step c (v, WatchAddress i value aborted) s = watchAddress v i value aborted s"
| "live_step c (v, AbortWatch i) s = watch_abort i s"
| "live_step c (v, WatchPending i) s = watch_pending i s"
| "live_step c (v, WatchContinues i) s = watch_continue v i s"

end
