(* ===== verification/Live_Books.thy ===== *)
theory Live_Books
  imports Live_Laws
begin

text \<open>
  The books of the subscriptions: keys and identifiers name the same registrations, an identifier is
  installed only for the connection that asked for it, and at most a hundred addresses are watched,
  whatever the order in which the two workers, the replies and the connection make progress.
\<close>

section \<open>Keys\<close>

abbreviation addr_key :: "string \<Rightarrow> string" where
  "addr_key a \<equiv> sub_key AddressKind (Some a)"

lemma sub_key_inj: "sub_key AddressKind (Some a) = sub_key AddressKind (Some b) \<longleftrightarrow> a = b"
  by (simp add: sub_key_def)

lemma sub_key_base: "kind \<noteq> AddressKind \<Longrightarrow> sub_key kind None \<noteq> addr_key a"
  by (cases kind) (simp_all add: sub_key_def)

lemma sub_key_kinds: "kind \<noteq> AddressKind \<Longrightarrow> kind' \<noteq> AddressKind \<Longrightarrow> sub_key kind None = sub_key kind' None \<longleftrightarrow> kind = kind'"
  by (cases kind; cases kind') (simp_all add: sub_key_def)

definition good_reg :: "string \<Rightarrow> registration \<Rightarrow> bool" where
  "good_reg key r \<longleftrightarrow> key = sub_key (rg_kind r) (rg_address r) \<and> (rg_kind r = AddressKind \<longleftrightarrow> rg_address r \<noteq> None)"

definition books :: "(string, registration) jmap \<Rightarrow> (string, registration) jmap \<Rightarrow> bool" where
  "books regs ids \<longleftrightarrow> wf_jmap regs \<and> wf_jmap ids
     \<and> (\<forall>k r. jget regs k = Some r \<longrightarrow> good_reg k r \<and> jget ids (rg_id r) = Some r)
     \<and> (\<forall>i r. jget ids i = Some r \<longrightarrow> rg_id r = i \<and> jget regs (sub_key (rg_kind r) (rg_address r)) = Some r)"

lemma books_empty [simp]: "books [] []"
  by (simp add: books_def)

lemma books_install:
  assumes "books regs ids" and "jget regs (sub_key kind value) = None" and "jget ids i = None"
    and "kind = AddressKind \<longleftrightarrow> value \<noteq> None"
  shows "books (jset regs (sub_key kind value) \<lparr>rg_id = i, rg_kind = kind, rg_address = value\<rparr>)
               (jset ids i \<lparr>rg_id = i, rg_kind = kind, rg_address = value\<rparr>)"
  using assms unfolding books_def good_reg_def by (auto simp del: jset.simps) (metis option.distinct(1))+

lemma books_delete:
  assumes "books regs ids" and "jget regs key = Some r"
  shows "books (jdelete regs key) (jdelete ids (rg_id r))"
  using assms unfolding books_def good_reg_def
  by (auto split: if_splits) (metis option.inject)+

definition addr_count :: "(string, registration) jmap \<Rightarrow> nat" where
  "addr_count regs = length (filter (\<lambda>e. rg_kind (snd e) = AddressKind) regs)"

lemma addr_count_le: "addr_count regs \<le> length regs"
  by (simp add: addr_count_def)

lemma addr_count_jset:
  "jget regs key = None \<Longrightarrow> addr_count (jset regs key r) = addr_count regs + (if rg_kind r = AddressKind then 1 else 0)"
  using jset_fresh [of key regs r] by (simp add: addr_count_def not_in_jkeys_iff [symmetric])

lemma length_filter_conj_le: "length (filter (\<lambda>x. P x \<and> Q x) xs) \<le> length (filter Q xs)"
  by (induction xs) auto

lemma addr_count_jdelete: "addr_count (jdelete regs key) \<le> addr_count regs"
  by (simp add: addr_count_def jdelete_def length_filter_conj_le)

section \<open>The batch\<close>

fun worker_value :: "worker \<Rightarrow> string list" where
  "worker_value (Registering value _) = [value]"
| "worker_value WorkerDone = []"

abbreviation worker_values :: "worker list \<Rightarrow> string list" where
  "worker_values ws \<equiv> concat (map worker_value ws)"

definition unregistered :: "string list \<Rightarrow> (string, registration) jmap \<Rightarrow> nat" where
  "unregistered flight regs = length (filter (\<lambda>k. \<not> jhas regs k) flight)"

definition batch_ok :: "worker list \<Rightarrow> batch \<Rightarrow> (string, registration) jmap \<Rightarrow> bool" where
  "batch_ok ws b regs \<longleftrightarrow> distinct (worker_values ws @ bt_remaining b) \<and> distinct (bt_inFlight b)
     \<and> set (bt_inFlight b) = addr_key ` set (worker_values ws)
     \<and> addr_count regs + unregistered (bt_inFlight b) regs \<le> 100
     \<and> (\<forall>value. Registering value SubWaiting \<in> set ws \<longrightarrow> \<not> jhas regs (addr_key value))"

lemma batch_ok_done:
  assumes "batch_ok (xs @ Registering value at' # ys) b regs"
  shows "batch_ok (xs @ WorkerDone # ys) (drop_flight (addr_key value) b) regs"
proof -
  have "unregistered (filter (\<lambda>k. k \<noteq> addr_key value) (bt_inFlight b)) regs \<le> unregistered (bt_inFlight b) regs"
    unfolding unregistered_def filter_filter by (rule length_filter_conj_le)
  with assms show ?thesis by (auto simp: batch_ok_def drop_flight_def sub_key_inj)
qed

lemma worker_loop_same:
  "worker_loop v g remaining b s = (w, b', s') \<Longrightarrow> lu_registrations s' = lu_registrations s \<and> lu_ids s' = lu_ids s
     \<and> lu_generation s' = lu_generation s \<and> lu_running s' = lu_running s"
proof (induction v g remaining b s rule: worker_loop.induct)
  case (2 v g a remaining b s)
  then show ?case
    by (auto simp: Let_def subscribe_begin_def live_send_def split: if_splits prod.splits)
qed simp

lemma worker_loop_ok:
  assumes "batch_ok (xs @ WorkerDone # ys) (b\<lparr>bt_remaining := remaining\<rparr>) (lu_registrations s)"
    and "worker_loop v g remaining b s = (w, b', s')"
  shows "batch_ok (xs @ w # ys) b' (lu_registrations s)"
  using assms
proof (induction v g remaining b s rule: worker_loop.induct)
  case (1 v g b s)
  then show ?case by auto
next
  case (2 v g a remaining b s)
  show ?case
  proof (cases "\<not> live_current v g s \<or> bt_stopped b")
    case True
    with "2.prems" show ?thesis by auto
  next
    case go: False
    show ?thesis
    proof (cases "jhas (lu_registrations s) (addr_key a)")
      case True
      have "batch_ok (xs @ WorkerDone # ys) (b\<lparr>bt_remaining := remaining\<rparr>) (lu_registrations s)"
        using "2.prems"(1) by (auto simp: batch_ok_def)
      from "2.IH" [OF go refl True this] "2.prems"(2) go True show ?thesis by (simp add: Let_def)
    next
      case fresh: False
      show ?thesis
      proof (cases "100 \<le> occupied_slots b s")
        case True
        with "2.prems"(2) go fresh have "w = WorkerDone"
          "b' = b\<lparr>bt_remaining := remaining, bt_stopped := True, bt_capacity := True\<rparr>" by (auto simp: Let_def)
        with "2.prems"(1) show ?thesis by (simp add: batch_ok_def)
      next
        case False
        from "2.prems"(2) go fresh False
        have w: "w = Registering a SubWaiting" and b': "b' = b\<lparr>bt_remaining := remaining,
             bt_inFlight := (if addr_key a \<in> set (bt_inFlight b) then bt_inFlight b else bt_inFlight b @ [addr_key a])\<rparr>"
          by (auto simp: Let_def subscribe_begin_def)
        from "2.prems"(1) have new: "addr_key a \<notin> set (bt_inFlight b)"
          by (auto simp: batch_ok_def sub_key_inj)
        have "addr_count (lu_registrations s) + unregistered (bt_inFlight b) (lu_registrations s) < 100"
          using False addr_count_le [of "lu_registrations s"] by (simp add: occupied_slots_def unregistered_def)
        with "2.prems"(1) fresh new show ?thesis
          unfolding w b' by (auto simp: batch_ok_def unregistered_def)
      qed
    qed
  qed
qed

lemma batch_ok_install:
  assumes ok: "batch_ok (xs @ Registering value SubWaiting # ys) b regs" and "rg_kind r = AddressKind"
  shows "batch_ok (xs @ Registering value (SubReturned out) # ys) b (jset regs (addr_key value) r)"
proof -
  let ?k = "addr_key value"
  from ok have fresh: "jget regs ?k = None" by (simp add: batch_ok_def jhas_def)
  from ok obtain ks ks' where f: "bt_inFlight b = ks @ ?k # ks'" "?k \<notin> set ks" "?k \<notin> set ks'"
  proof -
    from ok have "?k \<in> set (bt_inFlight b)" "distinct (bt_inFlight b)" by (auto simp: batch_ok_def)
    then show ?thesis using that by (metis (no_types, lifting) distinct.simps(2) distinct_append not_distinct_conv_prefix
        split_list disjoint_iff list.set_intros(1))
  qed
  have same: "filter (\<lambda>k. \<not> jhas (jset regs ?k r) k) zs = filter (\<lambda>k. \<not> jhas regs k) zs" if "?k \<notin> set zs" for zs
    by (rule filter_cong) (use that in \<open>auto simp: jhas_def\<close>)
  have "unregistered (bt_inFlight b) regs = Suc (unregistered (bt_inFlight b) (jset regs ?k r))"
    using fresh f(2,3) by (simp add: unregistered_def f(1) same) (simp add: jhas_def)
  moreover have "addr_count (jset regs ?k r) = addr_count regs + 1" using addr_count_jset [OF fresh] assms(2) by simp
  moreover have "\<not> jhas (jset regs ?k r) (addr_key value')"
    if "Registering value' SubWaiting \<in> set (xs @ Registering value (SubReturned out) # ys)" for value'
  proof -
    from that have mem: "Registering value' SubWaiting \<in> set (xs @ ys)" by auto
    then have "value' \<in> set (worker_values (xs @ ys))" by force
    with ok have "value' \<noteq> value" by (auto simp: batch_ok_def)
    moreover from ok mem have "\<not> jhas regs (addr_key value')" by (auto simp: batch_ok_def)
    ultimately show ?thesis by (simp add: jhas_def sub_key_inj)
  qed
  ultimately show ?thesis using ok unfolding batch_ok_def by auto
qed

lemma batch_ok_weaken:
  assumes "batch_ok (xs @ Registering value at' # ys) b regs" and "at'' \<noteq> SubWaiting"
  shows "batch_ok (xs @ Registering value at'' # ys) b regs"
  using assms by (auto simp: batch_ok_def)

section \<open>The invariant\<close>

definition run_ok :: "nat \<Rightarrow> (string, registration) jmap \<Rightarrow> ensure_at \<Rightarrow> bool" where
  "run_ok gen regs at' = (case at' of
       EnsureBase g kind sub \<Rightarrow> g \<le> gen \<and> kind \<noteq> AddressKind \<and> sub \<noteq> SubReleasing
         \<and> (g = gen \<and> sub = SubWaiting \<longrightarrow> jget regs (sub_key kind None) = None)
     | EnsureReleasing g desired key r rest \<Rightarrow> g \<le> gen \<and> distinct desired
         \<and> (g = gen \<longrightarrow> rg_kind r = AddressKind \<and> distinct (key # map fst rest) \<and> set ((key, r) # rest) \<subseteq> set regs)
     | EnsureBatch g b \<Rightarrow> g \<le> gen \<and> (g = gen \<longrightarrow> batch_ok (bt_workers b) b regs)
     | _ \<Rightarrow> True)"

definition live_ok :: "live_updates \<Rightarrow> bool" where
  "live_ok s \<longleftrightarrow> books (lu_registrations s) (lu_ids s) \<and> addr_count (lu_registrations s) \<le> 100
     \<and> (case lu_running s of None \<Rightarrow> True | Some (n, at') \<Rightarrow> run_ok (lu_generation s) (lu_registrations s) at')"

text \<open>The part of the state the invariant speaks of, which most operations leave alone.\<close>

definition live_core :: "live_updates \<Rightarrow> nat \<times> (string, registration) jmap \<times> (string, registration) jmap \<times> (nat \<times> ensure_at) option" where
  "live_core s = (lu_generation s, lu_registrations s, lu_ids s, lu_running s)"


lemma live_core_simps [simp]:
  "live_core (live_send out s) = live_core s"
  "live_core (live_report v e s) = live_core s"
  "live_core (live_change v flags s) = live_core s"
  "live_core (wakeAddressWaiters v s) = live_core s"
  "live_core (flushAddresses v s) = live_core s"
  "live_core (addressChange v catchup s) = live_core s"
  "live_core (address_timer_fires v s) = live_core s"
  "live_core (live_retry c v s) = live_core s"
  "live_core (unsupportedAddresses v s) = live_core s"
  "live_core (watch_settle i outcome s) = live_core s"
  "live_core (watch_abort i s) = live_core s"
  "live_core (watch_pending i s) = live_core s"
  by (simp_all add: live_core_def live_send_def live_report_def live_change_def wakeAddressWaiters_def flushAddresses_def
      addressChange_def address_timer_fires_def live_retry_def unsupportedAddresses_def watch_settle_def watch_abort_def
      watch_pending_def Let_def split: option.split watch_at.split)

lemma core_fields:
  assumes "live_core s' = live_core s"
  shows "lu_generation s' = lu_generation s" and "lu_registrations s' = lu_registrations s"
    and "lu_ids s' = lu_ids s" and "lu_running s' = lu_running s"
  using assms by (simp_all add: live_core_def)

lemmas live_core_fields [simp] = live_core_simps [THEN core_fields(1)] live_core_simps [THEN core_fields(2)]
  live_core_simps [THEN core_fields(3)] live_core_simps [THEN core_fields(4)]

lemma live_ok_core: "live_core s' = live_core s \<Longrightarrow> live_ok s' = live_ok s"
  by (simp add: live_ok_def live_core_def split: option.split)

lemmas live_ok_neutral [simp] = live_core_simps [THEN live_ok_core]

lemma address_notified_core [simp]: "live_core (address_notified v m r reset s) = live_core s"
  by (simp add: address_notified_def split: sum.split)

lemma live_notify_core [simp]: "live_core (live_notify c v m s) = live_core s"
  by (simp add: live_notify_def Let_def split: option.split sum.split sub_kind.split)

lemma live_ok_books: "live_ok s \<Longrightarrow> books (lu_registrations s) (lu_ids s) \<and> addr_count (lu_registrations s) \<le> 100"
  by (simp add: live_ok_def)

definition stable :: "live_updates \<Rightarrow> bool" where
  "stable s \<longleftrightarrow> books (lu_registrations s) (lu_ids s) \<and> addr_count (lu_registrations s) \<le> 100"

lemma live_ok_iff: "live_ok s \<longleftrightarrow> stable s
     \<and> (case lu_running s of None \<Rightarrow> True | Some (n, at') \<Rightarrow> run_ok (lu_generation s) (lu_registrations s) at')"
  by (simp add: live_ok_def stable_def)

lemma stable_core: "live_core s' = live_core s \<Longrightarrow> stable s' = stable s"
  by (simp add: stable_def live_core_def)

lemmas stable_neutral [simp] = live_core_simps [THEN stable_core]

lemma live_ok_run_at [simp]:
  "live_ok (run_at n at' s) \<longleftrightarrow> stable s \<and> run_ok (lu_generation s) (lu_registrations s) at'"
  by (simp add: live_ok_iff stable_def run_at_def)

lemma live_ok_settle [simp]: "live_ok (ensure_settle n err s) \<longleftrightarrow> stable s"
  by (simp add: live_ok_iff stable_def ensure_settle_def run_ok_def)

lemma live_ok_kick: "live_ok s \<Longrightarrow> live_ok (live_kick v s)"
  by (simp add: live_kick_def live_ok_def run_ok_def)

lemma live_ok_no_run: "live_ok s \<Longrightarrow> live_ok (s\<lparr>lu_running := None\<rparr>)"
  by (simp add: live_ok_def)

lemma live_ok_other [simp]:
  "live_ok (s\<lparr>lu_requested := b\<rparr>) = live_ok s" "live_ok (s\<lparr>lu_retryTimer := t\<rparr>) = live_ok s"
  "live_ok (s\<lparr>lu_started := b\<rparr>) = live_ok s" "live_ok (s\<lparr>lu_closed := b\<rparr>) = live_ok s"
  "live_ok (s\<lparr>lu_watches := ws\<rparr>) = live_ok s"
  by (rule live_ok_core, simp add: live_core_def)+

lemma stable_other [simp]:
  "stable (s\<lparr>lu_addressBatch := b\<rparr>) = stable s" "stable (s\<lparr>lu_retryDelay := d\<rparr>) = stable s"
  "stable (s\<lparr>lu_addressCapacity := b\<rparr>) = stable s" "stable (s\<lparr>lu_baseReady := b\<rparr>) = stable s"
  by (simp_all add: stable_def)

lemma run_ok_older: "run_ok gen regs at' \<Longrightarrow> run_ok (Suc gen) regs' at'"
  by (cases at') (auto simp: run_ok_def)

lemma live_ok_invalidate: "live_ok s \<Longrightarrow> live_ok (live_invalidate v s)"
  by (auto simp: live_invalidate_def live_ok_def addr_count_def run_ok_older split: option.splits)

section \<open>Every step keeps it\<close>

lemma live_ok_leave [simp]: "live_ok (ensure_leave v n g err s) \<longleftrightarrow> stable s"
  by (simp add: ensure_leave_def)

lemma live_ok_done [simp]: "live_ok (ensure_done c v n g s) \<longleftrightarrow> stable s"
  by (simp add: ensure_done_def)

lemma workers_start_ok:
  assumes ok: "batch_ok [] b (lu_registrations s)" and "workers_start v g b s = (b', s')"
  shows "batch_ok (bt_workers b') b' (lu_registrations s) \<and> live_core s' = live_core s"
proof -
  obtain w b1 s1 where one: "worker_run v g b s = (w, b1, s1)" by (cases "worker_run v g b s")
  from worker_loop_same [OF one [unfolded worker_run_def]] have core1: "live_core s1 = live_core s" by (simp add: live_core_def)
  have "batch_ok ([] @ WorkerDone # []) (b\<lparr>bt_remaining := bt_remaining b\<rparr>) (lu_registrations s)"
    using ok by (auto simp: batch_ok_def)
  from worker_loop_ok [OF this one [unfolded worker_run_def]] have ok1: "batch_ok [w] b1 (lu_registrations s1)"
    using core_fields(2) [OF core1] by simp
  show ?thesis
  proof (cases "bt_probe b")
    case True
    with assms(2) one ok1 core1 show ?thesis by (auto simp: workers_start_def batch_ok_def live_core_def)
  next
    case False
    obtain w2 b2 s2 where two: "worker_run v g b1 s1 = (w2, b2, s2)" by (cases "worker_run v g b1 s1")
    from worker_loop_same [OF two [unfolded worker_run_def]] have core2: "live_core s2 = live_core s1" by (simp add: live_core_def)
    have "batch_ok ([w] @ WorkerDone # []) (b1\<lparr>bt_remaining := bt_remaining b1\<rparr>) (lu_registrations s1)"
      using ok1 by (auto simp: batch_ok_def)
    from worker_loop_ok [OF this two [unfolded worker_run_def]] have "batch_ok [w, w2] b2 (lu_registrations s1)" by simp
    with False assms(2) one two core1 core2 show ?thesis
      by (auto simp: workers_start_def batch_ok_def live_core_def)
  qed
qed

lemma ensure_batch_ok:
  assumes "stable s" and "g = lu_generation s" and "distinct desired"
  shows "live_ok (ensure_batch c v n g desired s)"
proof (cases "lu_addressCapacity s \<or> lu_addressCapability s = Some False")
  case False
  define b0 where "b0 = batch_new (lu_addressCapability s = None) desired"
  define s0 where "s0 = s\<lparr>lu_addressBatch := True\<rparr>"
  obtain b s' where run: "workers_start v g b0 s0 = (b, s')" by (cases "workers_start v g b0 s0")
  have "batch_ok [] b0 (lu_registrations s0)"
    using assms(1,3) by (simp add: b0_def s0_def batch_new_def batch_ok_def unregistered_def stable_def)
  from workers_start_ok [OF this run] have "batch_ok (bt_workers b) b (lu_registrations s0)" "live_core s' = live_core s0" by auto
  then show ?thesis
    using False run assms(1,2) unfolding ensure_batch_def b0_def s0_def
    by (auto simp: run_ok_def live_core_def stable_def)
qed (use assms in \<open>simp add: ensure_batch_def\<close>)

lemma ensure_release_ok:
  assumes "stable s" and "g = lu_generation s" and "distinct desired"
    and "distinct (map fst entries)" and "set entries \<subseteq> set (lu_registrations s)"
  shows "live_ok (ensure_release c v n g desired entries s)"
  using assms
proof (induction entries)
  case Nil
  then show ?case by (simp add: ensure_batch_ok)
next
  case (Cons e entries)
  then show ?case by (cases e) (auto simp: run_ok_def)
qed

lemma distinct_set_order [simp]: "distinct (set_order xs)" "set (set_order xs) = set xs"
  by (simp_all add: set_order_def)

lemma live_addresses_distinct: "live_addresses v = Inr as \<Longrightarrow> distinct as"
  by (auto simp: live_addresses_def split: js_value.splits if_splits)

lemma stable_wf: "stable s \<Longrightarrow> distinct (map fst (lu_registrations s))"
  by (simp add: stable_def books_def wf_jmap_def)

lemma ensure_base_ok:
  assumes "stable s" and "g = lu_generation s"
  shows "live_ok (ensure_base c v n g s)"
proof -
  define s' where "s' = (if lu_baseReady s then s
    else live_change v (no_change\<lparr>cg_wallet := True, cg_bounties := True, cg_catchup := True\<rparr>) (s\<lparr>lu_baseReady := True\<rparr>))"
  have "stable s'" "lu_generation s' = g" using assms by (simp_all add: s'_def)
  then have "live_ok (case live_addresses v of Inl e \<Rightarrow> ensure_leave v n g (Some e) s'
      | Inr desired \<Rightarrow> ensure_release c v n g desired (lu_registrations s') s')"
    by (auto intro!: ensure_release_ok stable_wf dest: live_addresses_distinct split: sum.split)
  then show ?thesis unfolding ensure_base_def Let_def s'_def .
qed

lemma ensure_subscribe_ok:
  assumes "stable s" and "g = lu_generation s" and "kind \<noteq> AddressKind"
  shows "live_ok (ensure_subscribe n g kind s)"
  using assms by (auto simp: ensure_subscribe_def subscribe_begin_def run_ok_def jhas_def)

lemma base_returned_ok: "stable s \<Longrightarrow> live_ok (base_returned c v n g kind outcome s)"
  by (auto simp: base_returned_def live_current_def intro: ensure_subscribe_ok ensure_base_ok split: sum.split)

text \<open>A reply to \<open>subscribe\<close> installs a registration only for the current generation.\<close>

lemma subscribe_reply_cases:
  assumes "subscribe_reply c v g kind a outcome s = (at', s')"
  shows "live_core s' = live_core s \<and> at' \<noteq> SubWaiting \<and> (at' = SubReleasing \<longrightarrow> kind = AddressKind)
    \<or> (\<exists>i. live_current v g s \<and> at' = SubReturned (Inr (Some True)) \<and> jget (lu_ids s) i = None
         \<and> live_core s' = live_core (subscribe_install v kind a i s))"
  using assms unfolding subscribe_reply_def Let_def
  by (auto split: sum.splits if_splits simp: jhas_def)

lemma subscribe_install_core:
  "live_core (subscribe_install v kind a i s) = (lu_generation s,
     jset (lu_registrations s) (sub_key kind a) \<lparr>rg_id = i, rg_kind = kind, rg_address = a\<rparr>,
     jset (lu_ids s) i \<lparr>rg_id = i, rg_kind = kind, rg_address = a\<rparr>, lu_running s)"
  by (simp add: subscribe_install_def Let_def del: jset.simps) (simp add: live_core_def)

lemma base_reply_ok:
  assumes ok: "live_ok s" and run: "lu_running s = Some (n, EnsureBase g kind SubWaiting)"
    and reply: "subscribe_reply c v g kind None outcome s = (at', s')"
  shows "live_ok (run_at n (EnsureBase g kind at') s')"
  using subscribe_reply_cases [OF reply]
proof
  assume "live_core s' = live_core s \<and> at' \<noteq> SubWaiting \<and> (at' = SubReleasing \<longrightarrow> kind = AddressKind)"
  then show ?thesis unfolding live_ok_run_at using ok run by (auto simp: live_ok_def run_ok_def stable_def live_core_def)
next
  assume "\<exists>i. live_current v g s \<and> at' = SubReturned (Inr (Some True)) \<and> jget (lu_ids s) i = None
         \<and> live_core s' = live_core (subscribe_install v kind None i s)"
  then obtain i where cur: "lu_generation s = g" and at': "at' = SubReturned (Inr (Some True))" and i: "jget (lu_ids s) i = None"
    and core: "live_core s' = live_core (subscribe_install v kind None i s)" by (auto simp: live_current_def)
  from ok run cur have k: "kind \<noteq> AddressKind" "jget (lu_registrations s) (sub_key kind None) = None"
    and b: "books (lu_registrations s) (lu_ids s)" "addr_count (lu_registrations s) \<le> 100"
    by (auto simp: live_ok_def run_ok_def)
  from core have "lu_generation s' = g" "lu_registrations s' = jset (lu_registrations s) (sub_key kind None) \<lparr>rg_id = i, rg_kind = kind, rg_address = None\<rparr>"
    "lu_ids s' = jset (lu_ids s) i \<lparr>rg_id = i, rg_kind = kind, rg_address = None\<rparr>"
    using cur unfolding subscribe_install_core by (simp_all add: live_core_def)
  with books_install [OF b(1) k(2) i] k b(2) show ?thesis
    unfolding live_ok_run_at stable_def at' by (simp add: addr_count_jset run_ok_def)
qed

lemma release_reply_ok:
  assumes ok: "live_ok s" and run: "lu_running s = Some (n, EnsureReleasing g desired key r rest)" and cur: "lu_generation s = g"
  shows "live_ok (ensure_release c v n g desired rest
     (s\<lparr>lu_registrations := jdelete (lu_registrations s) key, lu_ids := jdelete (lu_ids s) (rg_id r), lu_addressCapacity := False\<rparr>))"
proof (rule ensure_release_ok)
  from ok run cur have r: "distinct desired" "distinct (key # map fst rest)" "set ((key, r) # rest) \<subseteq> set (lu_registrations s)"
    and b: "books (lu_registrations s) (lu_ids s)" "addr_count (lu_registrations s) \<le> 100"
    by (auto simp: live_ok_def run_ok_def)
  from b(1) r(3) have "jget (lu_registrations s) key = Some r" by (auto simp: books_def intro: jget_of_mem)
  from books_delete [OF b(1) this] addr_count_jdelete [of "lu_registrations s" key] b(2)
  show "stable (s\<lparr>lu_registrations := jdelete (lu_registrations s) key, lu_ids := jdelete (lu_ids s) (rg_id r), lu_addressCapacity := False\<rparr>)"
    by (simp add: stable_def)
  show "distinct desired" "distinct (map fst rest)" using r by simp_all
  from r(2,3) show "set rest \<subseteq> set (lu_registrations (s\<lparr>lu_registrations := jdelete (lu_registrations s) key,
      lu_ids := jdelete (lu_ids s) (rg_id r), lu_addressCapacity := False\<rparr>))"
    by (auto simp: jdelete_def)
qed (simp add: cur)

lemma live_ok_stable: "live_ok s \<Longrightarrow> stable s"
  by (simp add: live_ok_iff)

lemma request_reply_ok:
  assumes ok: "live_ok s"
  shows "live_ok (request_reply c v outcome s)"
  unfolding request_reply_def using live_ok_stable [OF ok] ok
  by (auto split: option.split ensure_at.split sub_at.split sum.split prod.split
      intro: base_reply_ok [OF ok] release_reply_ok [OF ok] simp: live_current_def simp del: live_ok_run_at)

lemma worker_split:
  assumes "i < length ws" and "ws ! i = w"
  obtains xs ys where "ws = xs @ w # ys" and "\<And>w'. ws[i := w'] = xs @ w' # ys"
proof
  from id_take_nth_drop [OF assms(1)] assms(2) show "ws = take i ws @ w # drop (Suc i) ws" by simp
  show "ws[i := w'] = take i ws @ w' # drop (Suc i) ws" for w' using assms(1) by (simp add: upd_conv_take_nth_drop)
qed

lemma batch_ok_workers [simp]: "batch_ok ws (b\<lparr>bt_workers := ws'\<rparr>) regs = batch_ok ws b regs"
  by (simp add: batch_ok_def)

lemma worker_subscribed_ok:
  assumes ok: "live_ok s" and run: "lu_running s = Some (n, EnsureBatch g b)"
    and w: "bt_workers b = xs @ Registering a SubWaiting # ys"
    and reply: "subscribe_reply c v g AddressKind (Some a) outcome s = (at', s')"
  shows "live_ok (run_at n (EnsureBatch g (b\<lparr>bt_workers := xs @ Registering a at' # ys\<rparr>)) s')"
  using subscribe_reply_cases [OF reply]
proof
  assume "live_core s' = live_core s \<and> at' \<noteq> SubWaiting \<and> (at' = SubReleasing \<longrightarrow> AddressKind = AddressKind)"
  then show ?thesis unfolding live_ok_run_at using ok run w
    by (auto simp: live_ok_def run_ok_def stable_def live_core_def intro: batch_ok_weaken)
next
  assume "\<exists>i. live_current v g s \<and> at' = SubReturned (Inr (Some True)) \<and> jget (lu_ids s) i = None
         \<and> live_core s' = live_core (subscribe_install v AddressKind (Some a) i s)"
  then obtain i where cur: "lu_generation s = g" and at': "at' = SubReturned (Inr (Some True))" and i: "jget (lu_ids s) i = None"
    and core: "live_core s' = live_core (subscribe_install v AddressKind (Some a) i s)" by (auto simp: live_current_def)
  let ?r = "\<lparr>rg_id = i, rg_kind = AddressKind, rg_address = Some a\<rparr>"
  from ok run cur w have bt: "batch_ok (xs @ Registering a SubWaiting # ys) b (lu_registrations s)"
    and bk: "books (lu_registrations s) (lu_ids s)" by (auto simp: live_ok_def run_ok_def)
  then have k: "jget (lu_registrations s) (addr_key a) = None" by (simp add: batch_ok_def jhas_def)
  from core have s': "lu_generation s' = g" "lu_registrations s' = jset (lu_registrations s) (addr_key a) ?r"
    "lu_ids s' = jset (lu_ids s) i ?r"
    using cur unfolding subscribe_install_core by (simp_all add: live_core_def)
  from batch_ok_install [OF bt, of ?r "Inr (Some True)"]
  have bt': "batch_ok (xs @ Registering a at' # ys) b (lu_registrations s')" by (simp add: s' at')
  then have "addr_count (lu_registrations s') \<le> 100" unfolding batch_ok_def by linarith
  with bt' books_install [OF bk k i] show ?thesis
    unfolding live_ok_run_at stable_def by (simp add: s' run_ok_def)
qed

lemma worker_reply_ok: "live_ok s \<Longrightarrow> live_ok (worker_reply c v i outcome s)"
proof -
  assume ok: "live_ok s"
  show ?thesis
  proof (cases "\<exists>n g b a at'. lu_running s = Some (n, EnsureBatch g b) \<and> i < length (bt_workers b)
      \<and> bt_workers b ! i = Registering a at' \<and> at' \<in> {SubWaiting, SubReleasing}")
    case True
    then obtain n g b a at' where run: "lu_running s = Some (n, EnsureBatch g b)" and i: "i < length (bt_workers b)"
      and w: "bt_workers b ! i = Registering a at'" and at': "at' \<in> {SubWaiting, SubReleasing}" by blast
    from worker_split [OF i w] obtain xs ys where ws: "bt_workers b = xs @ Registering a at' # ys"
      and upd: "\<And>w'. (bt_workers b)[i := w'] = xs @ w' # ys" by blast
    obtain at'' s' where reply: "subscribe_reply c v g AddressKind (Some a) outcome s = (at'', s')" by fastforce
    show ?thesis
    proof (cases "at' = SubWaiting")
      case True
      with worker_subscribed_ok [OF ok run ws [unfolded True] reply] run i w reply upd show ?thesis
        by (simp add: worker_reply_def)
    next
      case False
      then have "at' = SubReleasing" using at' by simp
      with ok run i w upd ws show ?thesis
        by (auto simp: worker_reply_def live_ok_iff [of s] run_ok_def intro: batch_ok_weaken)
    qed
  next
    case False
    then have "worker_reply c v i outcome s = s"
      by (auto simp: worker_reply_def split: option.split ensure_at.split worker.split sub_at.split)
    with ok show ?thesis by simp
  qed
qed

lemma worker_returned_ok:
  assumes ok: "batch_ok (xs @ Registering a at' # ys) b (lu_registrations s)"
    and "worker_returned v g a outcome b s = (w, b', s')"
  shows "batch_ok (xs @ w # ys) b' (lu_registrations s) \<and> live_core s' = live_core s"
proof -
  let ?b = "drop_flight (addr_key a) b"
  note dropped = batch_ok_done [OF ok]
  have easy: "batch_ok (xs @ WorkerDone # ys) b'' (lu_registrations s)"
    if "bt_remaining b'' = bt_remaining ?b" "bt_inFlight b'' = bt_inFlight ?b" for b''
    using dropped that by (simp add: batch_ok_def)
  have run: "batch_ok (xs @ fst (worker_run v g b'' s'') # ys) (fst (snd (worker_run v g b'' s''))) (lu_registrations s)
      \<and> live_core (snd (snd (worker_run v g b'' s''))) = live_core s"
    if "live_core s'' = live_core s" "bt_remaining b'' = bt_remaining ?b" "bt_inFlight b'' = bt_inFlight ?b" for b'' s''
  proof -
    obtain w b' s' where r: "worker_loop v g (bt_remaining b'') b'' s'' = (w, b', s')" by (cases "worker_loop v g (bt_remaining b'') b'' s''")
    have "batch_ok (xs @ WorkerDone # ys) (b''\<lparr>bt_remaining := bt_remaining b''\<rparr>) (lu_registrations s'')"
      using easy [of "b''\<lparr>bt_remaining := bt_remaining b''\<rparr>"] that by (simp add: live_core_def)
    from worker_loop_ok [OF this r] worker_loop_same [OF r] that(1) show ?thesis
      by (simp add: live_core_def worker_run_def r)
  qed
  have "batch_ok (xs @ fst (worker_returned v g a outcome b s) # ys) (fst (snd (worker_returned v g a outcome b s))) (lu_registrations s)
      \<and> live_core (snd (snd (worker_returned v g a outcome b s))) = live_core s"
    unfolding worker_returned_def Let_def by (simp split: sum.split add: easy run)
  with assms(2) show ?thesis by simp
qed

lemma worker_continue_ok:
  assumes ok: "live_ok s"
  shows "live_ok (worker_continue v i s)"
proof (cases "\<exists>n g b a outcome. lu_running s = Some (n, EnsureBatch g b) \<and> i < length (bt_workers b)
    \<and> bt_workers b ! i = Registering a (SubReturned outcome)")
  case True
  then obtain n g b a outcome where run: "lu_running s = Some (n, EnsureBatch g b)" and i: "i < length (bt_workers b)"
    and w: "bt_workers b ! i = Registering a (SubReturned outcome)" by blast
  from worker_split [OF i w] obtain xs ys where ws: "bt_workers b = xs @ Registering a (SubReturned outcome) # ys"
    and upd: "\<And>w'. (bt_workers b)[i := w'] = xs @ w' # ys" by blast
  obtain w' b' s' where ret: "worker_returned v g a outcome b s = (w', b', s')" by (cases "worker_returned v g a outcome b s")
  have workers: "bt_workers b' = bt_workers b"
  proof -
    have loop: "bt_workers (fst (snd (worker_loop v g remaining b s))) = bt_workers b" for remaining b s
      by (induction v g remaining b s rule: worker_loop.induct) (auto simp: Let_def split: prod.split)
    have "bt_workers (fst (snd (worker_returned v g a outcome b s))) = bt_workers b"
      unfolding worker_returned_def Let_def by (simp split: sum.split add: worker_run_def loop drop_flight_def)
    with ret show ?thesis by simp
  qed
  have step: "worker_continue v i s = run_at n (EnsureBatch g (b'\<lparr>bt_workers := xs @ w' # ys\<rparr>)) s'"
    using run i w upd ret by (simp add: worker_continue_def workers)
  show ?thesis
  proof (cases "g = lu_generation s")
    case True
    with ok run ws have "batch_ok (xs @ Registering a (SubReturned outcome) # ys) b (lu_registrations s)"
      by (simp add: live_ok_def run_ok_def)
    from worker_returned_ok [OF this ret] ok show ?thesis
      unfolding step live_ok_run_at by (auto simp: live_ok_iff stable_def live_core_def run_ok_def True)
  next
    case False
    then have "live_core s' = live_core s" using ret by (auto simp: worker_returned_def live_current_def Let_def)
    with ok run False show ?thesis
      unfolding step live_ok_run_at by (auto simp: live_ok_iff stable_def live_core_def run_ok_def)
  qed
next
  case False
  then have "worker_continue v i s = s"
    by (auto simp: worker_continue_def split: option.split ensure_at.split worker.split sub_at.split)
  with ok show ?thesis by simp
qed

lemma batch_continue_ok:
  assumes "stable s" and "g \<le> lu_generation s" and "g = lu_generation s \<Longrightarrow> batch_ok (bt_workers b) b (lu_registrations s)"
    and "list_all (\<lambda>w. w = WorkerDone) (bt_workers b)"
  shows "live_ok (batch_continue c v n g b s)"
proof (cases "bt_probe b")
  case True
  obtain b' s' where run: "workers_start v g (b\<lparr>bt_probe := False\<rparr>) s = (b', s')" by fastforce
  have none: "worker_values (bt_workers b) = []" using assms(4) by (induction "bt_workers b") (auto simp: list_all_iff)
  have same: "live_core s' = live_core s"
  proof -
    have "live_core (snd (snd (worker_run v g b s))) = live_core s" for b s
      unfolding worker_run_def using worker_loop_same [of v g "bt_remaining b" b s]
      by (cases "worker_loop v g (bt_remaining b) b s") (simp add: live_core_def)
    then have r: "worker_run v g b s = (w, b', s') \<Longrightarrow> live_core s' = live_core s" for b s w b' s' by (metis snd_conv)
    from run show ?thesis unfolding workers_start_def by (auto split: prod.splits if_splits dest!: r)
  qed
  have "batch_ok (bt_workers b') b' (lu_registrations s)" if g: "g = lu_generation s"
  proof -
    have "batch_ok [] (b\<lparr>bt_probe := False\<rparr>) (lu_registrations s)"
      using assms(3) [OF g] none by (auto simp: batch_ok_def)
    from workers_start_ok [OF this run] show ?thesis by simp
  qed
  with same assms(1,2) show ?thesis
    unfolding batch_continue_def using True run by (auto simp: run_ok_def live_core_def stable_def)
qed (use assms(1) in \<open>simp add: batch_continue_def\<close>)

lemma live_ok_batch:
  "live_ok s \<Longrightarrow> lu_running s = Some (n, EnsureBatch g b) \<Longrightarrow>
     g \<le> lu_generation s \<and> (g = lu_generation s \<longrightarrow> batch_ok (bt_workers b) b (lu_registrations s))"
  by (simp add: live_ok_def run_ok_def)

lemma ensure_continue_ok:
  assumes ok: "live_ok s"
  shows "live_ok (ensure_continue c v s)"
  unfolding ensure_continue_def using ok live_ok_stable [OF ok]
  by (auto split: option.split ensure_at.split sub_at.split prod.split intro!: base_returned_ok batch_continue_ok
      dest: live_ok_batch)

lemma ensure_begin_ok: "live_ok s \<Longrightarrow> live_ok (ensure_begin v s)"
  by (auto simp: ensure_begin_def live_ok_stable run_ok_def split: option.split ensure_at.split)

lemma connect_reply_ok: "live_ok s \<Longrightarrow> live_ok (connect_reply v outcome s)"
  by (auto simp: connect_reply_def live_ok_stable intro: ensure_subscribe_ok split: option.split ensure_at.split sum.split)

lemma work_catch_ok: "live_ok s \<Longrightarrow> live_ok (work_catch c v s)"
  by (auto simp: work_catch_def live_ok_stable run_ok_def split: option.split ensure_at.split)

lemma work_finally_ok: "live_ok s \<Longrightarrow> live_ok (work_finally v s)"
  by (auto simp: work_finally_def intro: live_ok_kick live_ok_no_run split: option.split ensure_at.split)

lemma updateAddresses_ok: "live_ok s \<Longrightarrow> live_ok (updateAddresses v s)"
  by (simp add: updateAddresses_def live_ok_kick)

lemma watch_turn_ok: "live_ok s \<Longrightarrow> live_ok (watch_turn v i w s)"
  by (auto simp: watch_turn_def watch_wait_def updateAddresses_ok split: option.split sum.split)

lemmas live_step_ok_rules = live_ok_kick live_ok_invalidate updateAddresses_ok watch_turn_ok ensure_begin_ok connect_reply_ok
  request_reply_ok worker_reply_ok worker_continue_ok ensure_continue_ok work_catch_ok work_finally_ok

lemma live_step_ok: "live_ok s \<Longrightarrow> live_ok (live_step c e s)"
  by (cases "(c, e, s)" rule: live_step.cases)
    (auto simp: live_step_ok_rules live_start_def live_close_def live_connected_def live_disconnected_def retry_fires_def
      watchAddress_def watch_continue_def live_ok_core [OF live_notify_core] split: option.split watch_at.split)

lemma live_run_ok: "live_ok s \<Longrightarrow> live_ok (fold (live_step c) events s)"
  by (induction events arbitrary: s) (simp_all add: live_step_ok)

lemma live_new_ok: "live_ok (live_new c)"
  by (simp add: live_ok_def live_new_def addr_count_def)

section \<open>The property\<close>

lemma base_count_le: "books regs ids \<Longrightarrow> length regs \<le> addr_count regs + 2"
proof -
  assume b: "books regs ids"
  let ?base = "filter (\<lambda>e. rg_kind (snd e) \<noteq> AddressKind) regs"
  have "set (map fst ?base) \<subseteq> {''tip'', ''bounties''}"
  proof
    fix k assume "k \<in> set (map fst ?base)"
    then obtain r where r: "(k, r) \<in> set regs" "rg_kind r \<noteq> AddressKind" by auto
    with b have "k = sub_key (rg_kind r) (rg_address r)" "rg_address r = None"
      by (auto simp: books_def good_reg_def dest: jget_of_mem)
    with r(2) show "k \<in> {''tip'', ''bounties''}" by (cases "rg_kind r") (simp_all add: sub_key_def)
  qed
  then have "card (set (map fst ?base)) \<le> card {''tip'', ''bounties''}" by (intro card_mono) simp_all
  moreover have "length ?base = card (set (map fst ?base))"
  proof -
    from b have "distinct (map fst ?base)" by (simp add: books_def wf_jmap_def distinct_map_filter)
    from distinct_card [OF this] show ?thesis by simp
  qed
  moreover have "card {''tip'', ''bounties''} \<le> 2" by (simp add: card_insert_if)
  ultimately have "length ?base \<le> 2" by linarith
  moreover have "length regs = addr_count regs + length ?base"
    unfolding addr_count_def by (rule sum_length_filter_compl [symmetric])
  ultimately show ?thesis by simp
qed

text \<open>
  Property C35: the subscriptions are kept in step. After any events (replies in any order and to either
  worker, lost and new connections, notifications, locking), keys and identifiers are distinct, each
  registration stands under its own key and its own identifier, at most a hundred addresses are
  watched, and at most two subscriptions beside them.
\<close>

theorem subscriptions_booked:
  "let s = fold (live_step c) events (live_new c); regs = lu_registrations s; ids = lu_ids s in
     distinct (map fst regs) \<and> distinct (map fst ids)
     \<and> (\<forall>k r. jget regs k = Some r \<longrightarrow> k = sub_key (rg_kind r) (rg_address r) \<and> jget ids (rg_id r) = Some r)
     \<and> (\<forall>i r. jget ids i = Some r \<longrightarrow> rg_id r = i \<and> jget regs (sub_key (rg_kind r) (rg_address r)) = Some r)
     \<and> length (filter (\<lambda>e. rg_kind (snd e) = AddressKind) regs) \<le> 100 \<and> length regs \<le> 102"
  using live_ok_books [OF live_run_ok [OF live_new_ok [of c], of c events]]
    base_count_le [of "lu_registrations (fold (live_step c) events (live_new c))" "lu_ids (fold (live_step c) events (live_new c))"]
  by (simp add: Let_def books_def wf_jmap_def good_reg_def addr_count_def)

definition ex_live :: live_config where
  "ex_live = \<lparr>lc_network = ''regtest'', lc_retryMin = 1000, lc_retryMax = 30000\<rparr>"

definition ex_tip :: js_value where
  "ex_tip = VObj [(''chain'', VStr ''regtest''), (''genesis_hash'', VStr (the (GENESIS ''regtest''))), (''height'', VInt 7),
     (''hash'', VStr (the (GENESIS ''main''))), (''mediantime'', VInt 0)]"

definition ex_subscribed :: "string \<Rightarrow> live_error + js_value" where
  "ex_subscribed i = Inr (VObj [(''subscription_id'', VStr i), (''cursor'', VStr ''c''), (''tip'', ex_tip), (''changes_only'', VBool True)])"

definition ex_watch :: "(live_view \<times> live_event) list" where
  "ex_watch = map (Pair \<lparr>lv_active = True, lv_addresses = VArr [VStr ''cnreg1aa'', VStr ''cnreg1bb'']\<rparr>)
     [Start, BeginRun, ConnectReply (Inr ()), RequestReply (ex_subscribed ''1''), RunContinues,
      RequestReply (ex_subscribed ''2''), RunContinues, WorkerReply 0 (ex_subscribed ''3''), WorkerContinues 0, RunContinues,
      WorkerReply 0 (ex_subscribed ''4'')]"

lemma ex_watch_registrations:
  "map fst (lu_registrations (fold (live_step ex_live) ex_watch (live_new ex_live)))
     = [''tip'', ''bounties'', ''address:cnreg1aa'', ''address:cnreg1bb'']"
  by code_simp

theorem subscriptions_booked_witness:
  "map fst (lu_registrations (fold (live_step ex_live) ex_watch (live_new ex_live)))
     = [''tip'', ''bounties'', ''address:cnreg1aa'', ''address:cnreg1bb'']
   \<and> length (lu_registrations (fold (live_step ex_live) ex_watch (live_new ex_live))) \<le> 102"
  using subscriptions_booked [of ex_live ex_watch] ex_watch_registrations by (simp add: Let_def)

end
