(* ===== verification/Live_Awake.thy ===== *)
theory Live_Awake
  imports Live_Books
begin

text \<open>
  Live updates do not fall asleep: as long as the wallet is active, a machine that is neither running nor
  waiting for its retry holds the subscriptions to the tip and to the bounties and has told the wallet to
  read once after them; and a change of an address that is held back has a timer.
\<close>

definition subscribed :: "live_updates \<Rightarrow> bool" where
  "subscribed s \<longleftrightarrow> lu_baseReady s \<and> jhas (lu_registrations s) ''tip'' \<and> jhas (lu_registrations s) ''bounties''"

definition due :: "live_updates \<Rightarrow> bool" where
  "due s \<longleftrightarrow> lu_requested s \<or> lu_retryTimer s \<noteq> None"

definition run_awake :: "live_updates \<Rightarrow> ensure_at \<Rightarrow> bool" where
  "run_awake s at' = (case at' of
       EnsureBase g kind sub \<Rightarrow> due s \<or> g = lu_generation s
         \<and> (kind = BountiesKind \<longrightarrow> jhas (lu_registrations s) ''tip'')
         \<and> (case sub of SubReturned (Inr _) \<Rightarrow> jhas (lu_registrations s) (kind_name kind) | _ \<Rightarrow> True)
     | EnsureReleasing g _ _ _ _ \<Rightarrow> due s \<or> g = lu_generation s \<and> subscribed s
     | EnsureBatch g _ \<Rightarrow> due s \<or> g = lu_generation s \<and> subscribed s
     | EnsureSettled None \<Rightarrow> due s \<or> subscribed s
     | EnsureCaught \<Rightarrow> due s \<or> subscribed s
     | _ \<Rightarrow> True)"

definition awake :: "live_updates \<Rightarrow> bool" where
  "awake s \<longleftrightarrow> (if lu_started s
     then lu_closed s \<or> (case lu_running s of
         None \<Rightarrow> lu_retryTimer s \<noteq> None \<or> \<not> lu_requested s \<and> subscribed s
       | Some (n, at') \<Rightarrow> run_awake s at')
     else lu_running s = None \<and> lu_retryTimer s = None)"

definition held_back :: "live_updates \<Rightarrow> bool" where
  "held_back s \<longleftrightarrow> (lu_addressPending s \<longrightarrow> lu_addressTimer s \<noteq> None)
     \<and> (\<forall>g. lu_addressTimer s = Some g \<longrightarrow> g = lu_generation s)"

section \<open>What does not matter\<close>

definition wake_core where
  "wake_core s = (lu_started s, lu_closed s, lu_requested s, lu_retryTimer s, lu_baseReady s, lu_registrations s,
     lu_generation s, lu_running s)"

lemma awake_core: "wake_core s' = wake_core s \<Longrightarrow> awake s' = awake s"
  by (simp add: wake_core_def awake_def run_awake_def due_def subscribed_def
      split: option.split ensure_at.split sub_at.split sum.split)

lemma wake_core_simps [simp]:
  "wake_core (live_send out s) = wake_core s"
  "wake_core (live_report v e s) = wake_core s"
  "wake_core (live_change v flags s) = wake_core s"
  "wake_core (wakeAddressWaiters v s) = wake_core s"
  "wake_core (flushAddresses v s) = wake_core s"
  "wake_core (addressChange v catchup s) = wake_core s"
  "wake_core (address_timer_fires v s) = wake_core s"
  "wake_core (unsupportedAddresses v s) = wake_core s"
  "wake_core (watch_settle i outcome s) = wake_core s"
  "wake_core (watch_abort i s) = wake_core s"
  "wake_core (watch_pending i s) = wake_core s"
  "wake_core (s\<lparr>lu_watches := ws\<rparr>) = wake_core s"
  "wake_core (s\<lparr>lu_addressBatch := b\<rparr>) = wake_core s"
  "wake_core (s\<lparr>lu_addressCapacity := b\<rparr>) = wake_core s"
  "wake_core (s\<lparr>lu_retryDelay := d\<rparr>) = wake_core s"
  by (simp_all add: wake_core_def live_send_def live_report_def live_change_def wakeAddressWaiters_def flushAddresses_def
      addressChange_def address_timer_fires_def unsupportedAddresses_def watch_settle_def watch_abort_def
      watch_pending_def Let_def split: option.split watch_at.split)

lemma wake_core_notify [simp]: "wake_core (live_notify c v m s) = wake_core s"
  by (simp add: live_notify_def address_notified_def Let_def split: option.split sum.split sub_kind.split)

lemmas awake_neutral [simp] = wake_core_simps [THEN awake_core] wake_core_notify [THEN awake_core]

lemma wake_core_fields:
  assumes "wake_core s' = wake_core s"
  shows "due s' = due s" and "subscribed s' = subscribed s" and "lu_generation s' = lu_generation s"
    and "live_active v s' = live_active v s" and "live_current v g s' = live_current v g s"
    and "lu_registrations s' = lu_registrations s" and "lu_closed s' = lu_closed s" and "lu_started s' = lu_started s"
    and "lu_running s' = lu_running s" and "lu_baseReady s' = lu_baseReady s"
  using assms by (simp_all add: wake_core_def due_def subscribed_def live_active_def live_current_def)

lemmas wake_fields [simp] = wake_core_simps [THEN wake_core_fields(1)] wake_core_simps [THEN wake_core_fields(2)]
  wake_core_simps [THEN wake_core_fields(4)] wake_core_simps [THEN wake_core_fields(5)]
  wake_core_simps [THEN wake_core_fields(7)] wake_core_simps [THEN wake_core_fields(8)]
  wake_core_simps [THEN wake_core_fields(10)]

section \<open>The run\<close>

lemma run_awake_due: "due s \<Longrightarrow> run_awake s at'"
  by (auto simp: run_awake_def split: ensure_at.split option.split)

lemma awake_settle [simp]: "lu_started s \<Longrightarrow> awake (ensure_settle n err s) \<longleftrightarrow> lu_closed s \<or> err \<noteq> None \<or> due s \<or> subscribed s"
  by (auto simp: awake_def ensure_settle_def run_awake_def due_def subscribed_def split: option.split)

lemma awake_run_at [simp]: "lu_started s \<Longrightarrow> awake (run_at n at' s) \<longleftrightarrow> lu_closed s \<or> run_awake s at'"
  by (simp add: awake_def run_at_def run_awake_def due_def subscribed_def split: ensure_at.split option.split sub_at.split sum.split)

lemma awake_leave:
  "live_active v s \<Longrightarrow> due s \<or> subscribed s \<or> live_current v g s \<and> err \<noteq> None \<Longrightarrow> awake (ensure_leave v n g err s)"
  by (auto simp: ensure_leave_def live_active_def)

lemma awake_done: "live_active v s \<Longrightarrow> due s \<or> subscribed s \<Longrightarrow> awake (ensure_done c v n g s)"
  unfolding ensure_done_def by (rule awake_leave) simp_all

lemma worker_loop_wake: "wake_core (snd (snd (worker_loop v g remaining b s))) = wake_core s"
  by (induction v g remaining b s rule: worker_loop.induct) (auto simp: Let_def subscribe_begin_def split: prod.split)

lemma worker_run_wake: "worker_run v g b s = (w, b', s') \<Longrightarrow> wake_core s' = wake_core s"
  using worker_loop_wake [of v g "bt_remaining b" b s] by (simp add: worker_run_def)

lemma workers_start_wake: "workers_start v g b s = (b', s') \<Longrightarrow> wake_core s' = wake_core s"
  by (auto simp: workers_start_def split: prod.splits if_splits dest!: worker_run_wake)

lemma awake_batch:
  assumes "live_active v s" and "due s \<or> g = lu_generation s \<and> subscribed s"
  shows "awake (ensure_batch c v n g desired s)"
proof (cases "lu_addressCapacity s \<or> lu_addressCapability s = Some False")
  case False
  obtain b s' where run: "workers_start v g (batch_new (lu_addressCapability s = None) desired) (s\<lparr>lu_addressBatch := True\<rparr>) = (b, s')"
    by (cases "workers_start v g (batch_new (lu_addressCapability s = None) desired) (s\<lparr>lu_addressBatch := True\<rparr>)")
  from workers_start_wake [OF this] have "wake_core s' = wake_core s" by simp
  note same = wake_core_fields [OF this]
  from assms have "run_awake s' (EnsureBatch g b)" "lu_started s'" by (auto simp: run_awake_def same live_active_def)
  with False run show ?thesis by (simp add: ensure_batch_def)
qed (use assms in \<open>auto simp: ensure_batch_def intro: awake_done\<close>)

lemma awake_release:
  "live_active v s \<Longrightarrow> due s \<or> g = lu_generation s \<and> subscribed s \<Longrightarrow> awake (ensure_release c v n g desired entries s)"
proof (induction entries)
  case Nil
  then show ?case by (simp add: awake_batch)
next
  case (Cons e entries)
  then show ?case by (cases e) (auto simp: run_awake_def live_active_def split: option.split)
qed

lemma awake_base:
  assumes a: "live_active v s" and "due s \<or> g = lu_generation s \<and> jhas (lu_registrations s) ''tip'' \<and> jhas (lu_registrations s) ''bounties''"
  shows "awake (ensure_base c v n g s)"
proof -
  define s' where "s' = (if lu_baseReady s then s
    else live_change v (no_change\<lparr>cg_wallet := True, cg_bounties := True, cg_catchup := True\<rparr>) (s\<lparr>lu_baseReady := True\<rparr>))"
  have "due s' = due s" "lu_generation s' = lu_generation s" "lu_registrations s' = lu_registrations s" "lu_baseReady s'"
    "live_active v s' = live_active v s"
    by (auto simp: s'_def due_def live_active_def live_change_def live_send_def)
  with assms have ready: "live_active v s'" "due s' \<or> g = lu_generation s' \<and> subscribed s'" by (auto simp: subscribed_def)
  then have "awake (case live_addresses v of Inl e \<Rightarrow> ensure_leave v n g (Some e) s'
      | Inr desired \<Rightarrow> ensure_release c v n g desired (lu_registrations s') s')"
    by (auto split: sum.split intro: awake_leave awake_release)
  then show ?thesis unfolding ensure_base_def Let_def s'_def .
qed

lemma awake_subscribe:
  assumes "live_active v s" and "kind \<noteq> AddressKind"
    and "due s \<or> g = lu_generation s \<and> (kind = BountiesKind \<longrightarrow> jhas (lu_registrations s) ''tip'')"
  shows "awake (ensure_subscribe n g kind s)"
  using assms by (auto simp: ensure_subscribe_def subscribe_begin_def run_awake_def live_active_def sub_key_def)

lemma awake_base_returned:
  assumes "live_active v s" and "kind \<noteq> AddressKind" and "run_awake s (EnsureBase g kind (SubReturned outcome))"
  shows "awake (base_returned c v n g kind outcome s)"
proof (cases outcome)
  case (Inl e)
  with assms show ?thesis by (auto simp: base_returned_def run_awake_def live_current_def intro: awake_leave)
next
  case (Inr x)
  with assms show ?thesis
    by (cases kind) (auto simp: base_returned_def run_awake_def live_current_def intro: awake_leave awake_subscribe awake_base)
qed

section \<open>Replies\<close>

text \<open>A reply keeps what is due, the generation and the subscriptions, and may add one.\<close>

lemma subscribe_reply_wake:
  assumes "subscribe_reply c v g kind a outcome s = (at', s')"
  shows "due s' = due s" and "lu_generation s' = lu_generation s" and "lu_started s' = lu_started s"
    and "lu_closed s' = lu_closed s" and "subscribed s \<Longrightarrow> subscribed s'"
    and "jhas (lu_registrations s) k \<Longrightarrow> jhas (lu_registrations s') k"
    and "kind \<noteq> AddressKind \<Longrightarrow> a = None \<Longrightarrow> live_current v g s \<Longrightarrow> at' = SubReturned (Inr x)
      \<Longrightarrow> jhas (lu_registrations s') (kind_name kind)"
proof -
  have install: "wake_core (subscribe_install v kind a i s) = (lu_started s, lu_closed s, lu_requested s, lu_retryTimer s, lu_baseReady s,
      jset (lu_registrations s) (sub_key kind a) \<lparr>rg_id = i, rg_kind = kind, rg_address = a\<rparr>, lu_generation s, lu_running s)" for i
    by (simp add: subscribe_install_def Let_def del: jset.simps) (simp add: wake_core_def)
  have "wake_core s' = wake_core s \<and> (kind \<noteq> AddressKind \<longrightarrow> live_current v g s \<longrightarrow> (\<forall>x. at' \<noteq> SubReturned (Inr x)))
      \<or> (\<exists>i. wake_core s' = wake_core (subscribe_install v kind a i s))"
    using assms unfolding subscribe_reply_def Let_def by (auto split: sum.splits if_splits)
  then have "due s' = due s \<and> lu_generation s' = lu_generation s \<and> lu_started s' = lu_started s \<and> lu_closed s' = lu_closed s
      \<and> lu_baseReady s' = lu_baseReady s
      \<and> (lu_registrations s' = lu_registrations s
           \<and> (kind \<noteq> AddressKind \<longrightarrow> live_current v g s \<longrightarrow> (\<forall>x. at' \<noteq> SubReturned (Inr x)))
         \<or> (\<exists>r. lu_registrations s' = jset (lu_registrations s) (sub_key kind a) r))"
    unfolding install by (auto simp: wake_core_def due_def)
  then show "due s' = due s" "lu_generation s' = lu_generation s" "lu_started s' = lu_started s" "lu_closed s' = lu_closed s"
    "subscribed s \<Longrightarrow> subscribed s'" "jhas (lu_registrations s) k \<Longrightarrow> jhas (lu_registrations s') k"
    "kind \<noteq> AddressKind \<Longrightarrow> a = None \<Longrightarrow> live_current v g s \<Longrightarrow> at' = SubReturned (Inr x)
      \<Longrightarrow> jhas (lu_registrations s') (kind_name kind)"
    by (auto simp: subscribed_def jhas_def sub_key_def)
qed

lemma awake_base_reply:
  assumes a: "live_active v s" and k: "kind \<noteq> AddressKind" and r: "run_awake s (EnsureBase g kind SubWaiting)"
    and reply: "subscribe_reply c v g kind None outcome s = (at', s')"
  shows "awake (run_at n (EnsureBase g kind at') s')"
proof -
  note same = subscribe_reply_wake [OF reply]
  have cur: "g = lu_generation s \<Longrightarrow> live_current v g s" using a by (simp add: live_current_def)
  have "run_awake s' (EnsureBase g kind at')"
    using r cur same(1,2) same(6) [of "''tip''"] same(7) [OF k refl]
    by (auto simp: run_awake_def split: sub_at.splits sum.splits)
  with a same(3) show ?thesis by (simp add: live_active_def)
qed

lemma awake_base_released:
  assumes ok: "live_ok s" and a: "live_active v s" and run: "lu_running s = Some (n, EnsureReleasing g desired key r rest)"
    and "awake s" and g: "live_current v g s"
  shows "awake (ensure_release c v n g desired rest
     (s\<lparr>lu_registrations := jdelete (lu_registrations s) key, lu_ids := jdelete (lu_ids s) (rg_id r), lu_addressCapacity := False\<rparr>))"
proof (rule awake_release)
  from g have gen: "g = lu_generation s" by (simp add: live_current_def)
  with ok run have r: "rg_kind r = AddressKind" "(key, r) \<in> set (lu_registrations s)" and b: "books (lu_registrations s) (lu_ids s)"
    by (auto simp: live_ok_def run_ok_def)
  then have "good_reg key r" by (auto simp: books_def dest: jget_of_mem)
  with r(1) have "key \<noteq> ''tip''" "key \<noteq> ''bounties''" by (auto simp: good_reg_def sub_key_def)
  then show "due (s\<lparr>lu_registrations := jdelete (lu_registrations s) key, lu_ids := jdelete (lu_ids s) (rg_id r), lu_addressCapacity := False\<rparr>)
    \<or> g = lu_generation (s\<lparr>lu_registrations := jdelete (lu_registrations s) key, lu_ids := jdelete (lu_ids s) (rg_id r), lu_addressCapacity := False\<rparr>)
      \<and> subscribed (s\<lparr>lu_registrations := jdelete (lu_registrations s) key, lu_ids := jdelete (lu_ids s) (rg_id r), lu_addressCapacity := False\<rparr>)"
    using a run assms(4) by (auto simp: awake_def live_active_def run_awake_def due_def subscribed_def jhas_def)
qed (use a in \<open>simp add: live_active_def\<close>)

lemma awake_running: "awake s \<Longrightarrow> live_active v s \<Longrightarrow> lu_running s = Some (n, at') \<Longrightarrow> run_awake s at'"
  by (simp add: awake_def live_active_def)

lemma awake_request_reply:
  assumes ok: "live_ok s" and a: "live_active v s" and w: "awake s"
  shows "awake (request_reply c v outcome s)"
proof (cases "lu_running s")
  case (Some p)
  obtain n at' where run: "lu_running s = Some (n, at')" using Some by (cases p) simp
  note here = awake_running [OF w a run]
  show ?thesis
  proof (cases at')
    case (EnsureBase g kind sub)
    with ok run have k: "kind \<noteq> AddressKind" by (simp add: live_ok_def run_ok_def)
    show ?thesis
    proof (cases sub)
      case SubWaiting
      obtain at'' s' where reply: "subscribe_reply c v g kind None outcome s = (at'', s')" by fastforce
      from awake_base_reply [OF a k here [unfolded EnsureBase SubWaiting] reply] run EnsureBase SubWaiting reply
      show ?thesis by (simp add: request_reply_def)
    qed (use w run EnsureBase in \<open>simp_all add: request_reply_def\<close>)
  next
    case (EnsureReleasing g desired key r rest)
    show ?thesis
    proof (cases outcome)
      case (Inl e)
      with run EnsureReleasing here a show ?thesis
        by (auto simp: request_reply_def run_awake_def live_current_def intro: awake_leave)
    next
      case (Inr x)
      show ?thesis
      proof (cases "live_current v g s")
        case True
        with awake_base_released [OF ok a run [unfolded EnsureReleasing] w] run EnsureReleasing Inr show ?thesis
          by (simp add: request_reply_def)
      next
        case False
        with run EnsureReleasing here a Inr show ?thesis
          by (auto simp: request_reply_def run_awake_def live_current_def intro: awake_leave)
      qed
    qed
  qed (use w run in \<open>simp_all add: request_reply_def\<close>)
qed (use w in \<open>simp add: request_reply_def\<close>)

lemma awake_worker_reply:
  assumes a: "live_active v s" and w: "awake s"
  shows "awake (worker_reply c v i outcome s)"
proof (cases "\<exists>n g b. lu_running s = Some (n, EnsureBatch g b) \<and> i < length (bt_workers b)")
  case True
  then obtain n g b where run: "lu_running s = Some (n, EnsureBatch g b)" and i: "i < length (bt_workers b)" by blast
  have here: "due s \<or> g = lu_generation s \<and> subscribed s"
    using awake_running [OF w a run] by (simp add: run_awake_def)
  have sub: "awake (run_at n (EnsureBatch g b') s')"
    if "subscribe_reply c v g AddressKind (Some x) outcome s = (at', s')" for b' x at' s'
    using here a subscribe_reply_wake(1-5) [OF that] by (auto simp: run_awake_def live_active_def)
  have same: "awake (run_at n (EnsureBatch g b') s)" for b'
    using here a by (auto simp: run_awake_def live_active_def)
  show ?thesis
    unfolding worker_reply_def using run i w
    by (auto simp: same split: worker.split sub_at.split prod.split intro: sub)
next
  case False
  then have "worker_reply c v i outcome s = s" by (auto simp: worker_reply_def split: option.split ensure_at.split)
  with w show ?thesis by simp
qed

lemma worker_returned_wake: "wake_core (snd (snd (worker_returned v g a outcome b s))) = wake_core s"
  unfolding worker_returned_def Let_def
  by (simp split: sum.split add: worker_run_def worker_loop_wake)

lemma awake_batch_at:
  assumes "live_active v s" and "wake_core s' = wake_core s" and "due s \<or> g = lu_generation s \<and> subscribed s"
  shows "awake (run_at n (EnsureBatch g b) s')"
  using assms(1,3) wake_core_fields(1-3,7,8) [OF assms(2)] by (auto simp: run_awake_def live_active_def)

lemma awake_worker_continue:
  assumes a: "live_active v s" and w: "awake s"
  shows "awake (worker_continue v i s)"
proof (cases "\<exists>n g b. lu_running s = Some (n, EnsureBatch g b) \<and> i < length (bt_workers b)")
  case True
  then obtain n g b where run: "lu_running s = Some (n, EnsureBatch g b)" and i: "i < length (bt_workers b)" by blast
  have here: "due s \<or> g = lu_generation s \<and> subscribed s"
    using awake_running [OF w a run] by (simp add: run_awake_def)
  have ret: "awake (run_at n (EnsureBatch g b'') s')" if "worker_returned v g x outcome b s = (w', b', s')" for x outcome w' b' b'' s'
    using awake_batch_at [OF a _ here] worker_returned_wake [of v g x outcome b s] that by simp
  show ?thesis
    unfolding worker_continue_def using run i w by (auto split: worker.split sub_at.split prod.split intro: ret)
next
  case False
  then have "worker_continue v i s = s" by (auto simp: worker_continue_def split: option.split ensure_at.split)
  with w show ?thesis by simp
qed

lemma awake_batch_continue:
  assumes a: "live_active v s" and here: "due s \<or> g = lu_generation s \<and> subscribed s"
  shows "awake (batch_continue c v n g b s)"
proof (cases "bt_probe b")
  case True
  obtain b' s' where run: "workers_start v g (b\<lparr>bt_probe := False\<rparr>) s = (b', s')" by fastforce
  from awake_batch_at [OF a workers_start_wake [OF run] here] run True show ?thesis by (simp add: batch_continue_def)
next
  case False
  with a here show ?thesis by (auto simp: batch_continue_def intro!: awake_leave awake_done)
qed

lemma awake_ensure_continue:
  assumes ok: "live_ok s" and a: "live_active v s" and w: "awake s"
  shows "awake (ensure_continue c v s)"
proof (cases "lu_running s")
  case (Some p)
  obtain n at' where run: "lu_running s = Some (n, at')" using Some by (cases p) simp
  note here = awake_running [OF w a run]
  show ?thesis
  proof (cases at')
    case (EnsureBase g kind sub)
    with ok run have k: "kind \<noteq> AddressKind" by (simp add: live_ok_def run_ok_def)
    from awake_base_returned [OF a k] here EnsureBase run w show ?thesis
      by (cases sub) (simp_all add: ensure_continue_def)
  next
    case (EnsureBatch g b)
    with here have "due s \<or> g = lu_generation s \<and> subscribed s" by (simp add: run_awake_def)
    from awake_batch_continue [OF a this] run EnsureBatch w show ?thesis by (simp add: ensure_continue_def)
  qed (use w run in \<open>simp_all add: ensure_continue_def\<close>)
qed (use w in \<open>simp add: ensure_continue_def\<close>)

section \<open>The other steps\<close>

lemma awake_due: "lu_started s \<Longrightarrow> due s \<Longrightarrow> lu_running s \<noteq> None \<Longrightarrow> awake s"
  by (auto simp: awake_def run_awake_due)

lemma awake_kick:
  assumes "live_active v s" and "lu_running s \<noteq> None \<and> awake s \<or> lu_running s = None \<and> (due s \<or> subscribed s)"
  shows "awake (live_kick v s)"
proof (cases "lu_running s = None")
  case True
  with assms show ?thesis by (auto simp: live_kick_def awake_def live_active_def run_awake_def due_def)
qed (use assms in \<open>auto simp: live_kick_def\<close>)

lemma awake_kick_due: "live_active v s \<Longrightarrow> due s \<Longrightarrow> awake (live_kick v s)"
  by (rule awake_kick) (auto simp: live_active_def intro: awake_due)

lemma awake_update: "awake s \<Longrightarrow> awake (updateAddresses v s)"
  by (auto simp: updateAddresses_def live_active_def due_def intro!: awake_kick_due)

lemma awake_ensure_begin: "live_active v s \<Longrightarrow> awake s \<Longrightarrow> awake (ensure_begin v s)"
  by (auto simp: ensure_begin_def live_active_def run_awake_def split: option.split ensure_at.split)

lemma awake_connect_reply: "live_active v s \<Longrightarrow> awake s \<Longrightarrow> awake (connect_reply v outcome s)"
  by (auto simp: connect_reply_def live_active_def intro!: awake_subscribe split: option.split ensure_at.split sum.split)

lemma awake_work_catch: "live_active v s \<Longrightarrow> awake s \<Longrightarrow> awake (work_catch c v s)"
  by (auto simp: work_catch_def live_active_def awake_def run_awake_def run_at_def live_retry_def live_report_def live_send_def
      due_def subscribed_def split: option.split ensure_at.split)

lemma awake_work_finally:
  assumes a: "live_active v s" and w: "awake s"
  shows "awake (work_finally v s)"
proof (cases "\<exists>n. lu_running s = Some (n, EnsureCaught)")
  case True
  then obtain n where run: "lu_running s = Some (n, EnsureCaught)" by blast
  from awake_running [OF w a run] have "due s \<or> subscribed s" by (simp add: run_awake_def)
  then have "awake (live_kick v (s\<lparr>lu_running := None\<rparr>))"
    using a by (intro awake_kick) (auto simp: live_active_def due_def subscribed_def)
  with run show ?thesis by (simp add: work_finally_def)
next
  case False
  then have "work_finally v s = s" by (auto simp: work_finally_def split: option.split ensure_at.split)
  with w show ?thesis by simp
qed

lemma invalidate_fields [simp]:
  "lu_started (live_invalidate v s) = lu_started s" "lu_closed (live_invalidate v s) = lu_closed s"
  "lu_running (live_invalidate v s) = lu_running s" "lu_retryTimer (live_invalidate v s) = None"
  "lu_addressPending (live_invalidate v s) = False" "lu_addressTimer (live_invalidate v s) = None"
  by (simp_all add: live_invalidate_def wakeAddressWaiters_def)

lemma awake_connected: "lv_active v \<Longrightarrow> awake s \<Longrightarrow> awake (live_connected v s)"
  by (auto simp: live_connected_def live_active_def due_def intro!: awake_kick_due)

lemma awake_disconnected: "lv_active v \<Longrightarrow> awake s \<Longrightarrow> awake (live_disconnected c v s)"
  by (auto simp: live_disconnected_def live_retry_def live_active_def awake_def due_def intro!: run_awake_due split: option.split)

lemma awake_close: "awake s \<Longrightarrow> awake (live_close v s)"
  by (auto simp: live_close_def awake_def split: option.split)

lemma awake_start: "lv_active v \<Longrightarrow> awake s \<Longrightarrow> awake (live_start v s)"
  by (auto simp: live_start_def live_active_def due_def intro!: awake_kick_due)

lemma awake_retry_fires: "lv_active v \<Longrightarrow> awake s \<Longrightarrow> awake (retry_fires v s)"
proof -
  assume v: "lv_active v" and w: "awake s"
  show ?thesis
  proof (cases "lu_started s \<and> \<not> lu_closed s")
    case True
    with v w show ?thesis by (auto simp: retry_fires_def live_active_def due_def intro!: awake_kick_due)
  next
    case False
    with w show ?thesis by (auto simp: retry_fires_def live_kick_def live_active_def awake_def split: option.split)
  qed
qed

lemma awake_watch_turn: "awake s \<Longrightarrow> awake (watch_turn v i w s)"
  by (auto simp: watch_turn_def watch_wait_def awake_update split: option.split sum.split)

text \<open>A closed machine stays closed.\<close>

definition flags :: "live_updates \<Rightarrow> bool \<times> bool" where
  "flags s = (lu_started s, lu_closed s)"

lemma flags_core: "wake_core s' = wake_core s \<Longrightarrow> flags s' = flags s"
  by (simp add: flags_def wake_core_def)

lemmas flags_neutral [simp] = wake_core_simps [THEN flags_core]

lemma flags_update [simp]:
  "flags (s\<lparr>lu_running := r\<rparr>) = flags s" "flags (s\<lparr>lu_baseReady := b\<rparr>) = flags s" "flags (s\<lparr>lu_registrations := m\<rparr>) = flags s"
  "flags (s\<lparr>lu_ids := m\<rparr>) = flags s" "flags (s\<lparr>lu_requested := b\<rparr>) = flags s" "flags (s\<lparr>lu_retryTimer := t\<rparr>) = flags s"
  "flags (run_at n at' s) = flags s" "flags (ensure_settle n err s) = flags s" "flags (live_kick v s) = flags s"
  "flags (live_retry c v s) = flags s"
  by (simp_all add: flags_def run_at_def ensure_settle_def live_kick_def live_retry_def)

lemma flags_leave [simp]: "flags (ensure_leave v n g err s) = flags s" "flags (ensure_done c v n g s) = flags s"
  by (simp_all add: ensure_leave_def ensure_done_def)

lemma flags_start: "workers_start v g b s = (b', s') \<Longrightarrow> flags s' = flags s"
  by (rule flags_core) (rule workers_start_wake)

lemma flags_batch [simp]: "flags (ensure_batch c v n g desired s) = flags s"
  by (auto simp: ensure_batch_def Let_def dest: flags_start split: prod.split)

lemma flags_release [simp]: "flags (ensure_release c v n g desired entries s) = flags s"
  by (induction entries) auto

lemma flags_base [simp]: "flags (ensure_base c v n g s) = flags s"
  by (simp add: ensure_base_def Let_def split: sum.split)

lemma flags_subscribe [simp]: "flags (ensure_subscribe n g kind s) = flags s"
  by (simp add: ensure_subscribe_def subscribe_begin_def)

lemma flags_reply: "subscribe_reply c v g kind a outcome s = (at', s') \<Longrightarrow> flags s' = flags s"
  using subscribe_reply_wake(3,4) by (fastforce simp: flags_def)

lemma flags_returned: "worker_returned v g a outcome b s = (w, b', s') \<Longrightarrow> flags s' = flags s"
  using worker_returned_wake [of v g a outcome b s] by (intro flags_core) simp

lemma flags_run:
  "flags (ensure_begin v s) = flags s" "flags (connect_reply v outcome' s) = flags s"
  "flags (request_reply c v outcome s) = flags s" "flags (worker_reply c v i outcome s) = flags s"
  "flags (worker_continue v i s) = flags s" "flags (ensure_continue c v s) = flags s"
  "flags (work_catch c v s) = flags s" "flags (work_finally v s) = flags s"
  by (auto simp: ensure_begin_def connect_reply_def request_reply_def worker_reply_def worker_continue_def ensure_continue_def
      base_returned_def batch_continue_def work_catch_def work_finally_def Let_def dest: flags_reply flags_returned flags_start
      split: option.split ensure_at.split sub_at.split worker.split sum.split prod.split)

lemma awake_dormant:
  assumes "\<not> (lu_started s \<and> \<not> lu_closed s)" and "awake s" and "flags s' = flags s" and "lu_running s = None \<Longrightarrow> s' = s"
  shows "awake s'"
  using assms by (cases "lu_running s") (auto simp: awake_def flags_def)

lemma idle_run:
  "lu_running s = None \<Longrightarrow> ensure_begin v s = s \<and> connect_reply v outcome' s = s \<and> request_reply c v outcome s = s
     \<and> worker_reply c v i outcome s = s \<and> worker_continue v i s = s \<and> ensure_continue c v s = s
     \<and> work_catch c v s = s \<and> work_finally v s = s"
  by (simp add: ensure_begin_def connect_reply_def request_reply_def worker_reply_def worker_continue_def ensure_continue_def
      work_catch_def work_finally_def)

lemma awake_run_steps:
  assumes v: "lv_active v" and ok: "live_ok s" and w: "awake s"
  shows "awake (ensure_begin v s) \<and> awake (connect_reply v outcome' s) \<and> awake (request_reply c v outcome s)
     \<and> awake (worker_reply c v i outcome s) \<and> awake (worker_continue v i s) \<and> awake (ensure_continue c v s)
     \<and> awake (work_catch c v s) \<and> awake (work_finally v s)"
proof (cases "lu_started s \<and> \<not> lu_closed s")
  case True
  with v have "live_active v s" by (simp add: live_active_def)
  with ok w show ?thesis
    by (simp add: awake_ensure_begin awake_connect_reply awake_request_reply awake_worker_reply awake_worker_continue
        awake_ensure_continue awake_work_catch awake_work_finally)
next
  case False
  show ?thesis by (intro conjI awake_dormant [OF False w] flags_run) (simp_all add: idle_run)
qed

lemma awake_step: "lv_active v \<Longrightarrow> live_ok s \<Longrightarrow> awake s \<Longrightarrow> awake (live_step c (v, e) s)"
  by (cases e) (simp_all add: awake_run_steps awake_start awake_update awake_close awake_connected awake_disconnected
      awake_retry_fires awake_watch_turn watchAddress_def watch_continue_def split: option.split watch_at.split)

section \<open>Changes that are held back\<close>

lemma held_same: "lu_addressPending s' = lu_addressPending s \<Longrightarrow> lu_addressTimer s' = lu_addressTimer s
    \<Longrightarrow> lu_generation s' = lu_generation s \<Longrightarrow> held_back s' = held_back s"
  by (simp add: held_back_def)

lemma held_neutral [simp]:
  "held_back (live_send out s) = held_back s" "held_back (live_report v e s) = held_back s"
  "held_back (live_change v flags' s) = held_back s" "held_back (wakeAddressWaiters v s) = held_back s"
  "held_back (unsupportedAddresses v s) = held_back s" "held_back (live_kick v s) = held_back s"
  "held_back (live_retry c v s) = held_back s" "held_back (run_at n at' s) = held_back s"
  "held_back (ensure_settle n err s) = held_back s" "held_back (watch_settle i outcome s) = held_back s"
  "held_back (watch_abort i s) = held_back s" "held_back (watch_pending i s) = held_back s"
  "held_back (s\<lparr>lu_running := r\<rparr>) = held_back s" "held_back (s\<lparr>lu_baseReady := b\<rparr>) = held_back s"
  "held_back (s\<lparr>lu_registrations := m\<rparr>) = held_back s" "held_back (s\<lparr>lu_ids := m\<rparr>) = held_back s"
  "held_back (s\<lparr>lu_requested := b\<rparr>) = held_back s" "held_back (s\<lparr>lu_retryTimer := t\<rparr>) = held_back s"
  "held_back (s\<lparr>lu_addressBatch := b\<rparr>) = held_back s" "held_back (s\<lparr>lu_addressCapacity := b\<rparr>) = held_back s"
  "held_back (s\<lparr>lu_addressCapability := o'\<rparr>) = held_back s" "held_back (s\<lparr>lu_retryDelay := d\<rparr>) = held_back s"
  "held_back (s\<lparr>lu_started := b\<rparr>) = held_back s" "held_back (s\<lparr>lu_watches := ws\<rparr>) = held_back s"
  by (rule held_same; simp add: live_send_def live_report_def live_change_def wakeAddressWaiters_def unsupportedAddresses_def
      live_kick_def live_retry_def run_at_def ensure_settle_def watch_settle_def watch_abort_def watch_pending_def
      split: option.split watch_at.split)+

lemma held_flush [simp]: "held_back (flushAddresses v s)"
  by (simp add: flushAddresses_def held_back_def Let_def live_change_def live_send_def)

lemma held_invalidate [simp]: "held_back (live_invalidate v s)"
  by (simp add: held_back_def)

lemma held_change: "held_back s \<Longrightarrow> held_back (addressChange v catchup s)"
  by (auto simp: addressChange_def) (auto simp: held_back_def)

lemma held_timer: "live_active v s \<Longrightarrow> held_back s \<Longrightarrow> held_back (address_timer_fires v s)"
  by (auto simp: address_timer_fires_def Let_def live_current_def live_active_def split: option.split)
    (auto simp: held_back_def)

lemma held_notify: "held_back s \<Longrightarrow> held_back (live_notify c v m s)"
  by (simp add: live_notify_def address_notified_def Let_def held_change split: option.split sum.split sub_kind.split)

lemma held_leave: "held_back s \<Longrightarrow> held_back (ensure_leave v n g err s)" "held_back s \<Longrightarrow> held_back (ensure_done c v n g s)"
  by (simp_all add: ensure_leave_def ensure_done_def)

lemma held_loop: "held_back (snd (snd (worker_loop v g remaining b s))) = held_back s"
  by (induction v g remaining b s rule: worker_loop.induct) (auto simp: Let_def subscribe_begin_def split: prod.split)

lemma held_worker_run: "worker_run v g b s = (w, b', s') \<Longrightarrow> held_back s' = held_back s"
  using held_loop [of v g "bt_remaining b" b s] by (simp add: worker_run_def)

lemma held_start: "workers_start v g b s = (b', s') \<Longrightarrow> held_back s' = held_back s"
  by (auto simp: workers_start_def split: prod.splits if_splits dest!: held_worker_run)

lemma held_batch: "held_back s \<Longrightarrow> held_back (ensure_batch c v n g desired s)"
  by (auto simp: ensure_batch_def Let_def held_leave dest: held_start split: prod.split)

lemma held_release: "held_back s \<Longrightarrow> held_back (ensure_release c v n g desired entries s)"
  by (induction entries) (auto simp: held_batch)

lemma held_base: "held_back s \<Longrightarrow> held_back (ensure_base c v n g s)"
  by (simp add: ensure_base_def Let_def held_leave held_release split: sum.split)

lemma held_subscribe: "held_back (ensure_subscribe n g kind s) = held_back s"
  by (simp add: ensure_subscribe_def subscribe_begin_def)

lemma held_reply: "subscribe_reply c v g kind a outcome s = (at', s') \<Longrightarrow> held_back s \<Longrightarrow> held_back s'"
  by (auto simp: subscribe_reply_def subscribe_install_def Let_def intro!: held_change split: sum.splits if_splits)

lemma held_returned: "worker_returned v g a outcome b s = (w, b', s') \<Longrightarrow> held_back s \<Longrightarrow> held_back s'"
proof -
  have "held_back s \<Longrightarrow> held_back (snd (snd (worker_returned v g a outcome b s)))"
    unfolding worker_returned_def Let_def by (simp split: sum.split add: worker_run_def held_loop)
  then show "worker_returned v g a outcome b s = (w, b', s') \<Longrightarrow> held_back s \<Longrightarrow> held_back s'" by simp
qed

lemma held_run:
  assumes h: "held_back s"
  shows "held_back (ensure_begin v s) \<and> held_back (connect_reply v outcome' s) \<and> held_back (request_reply c v outcome s)
     \<and> held_back (worker_reply c v i outcome s) \<and> held_back (worker_continue v i s) \<and> held_back (ensure_continue c v s)
     \<and> held_back (work_catch c v s) \<and> held_back (work_finally v s)"
proof -
  have b: "held_back (batch_continue c v n g b s)" for n g b
    using h by (auto simp: batch_continue_def Let_def held_leave dest: held_start split: prod.split)
  have r: "held_back (base_returned c v n g kind outcome s)" for n g kind outcome
    using h by (simp add: base_returned_def held_leave held_subscribe held_base split: sum.split)
  show ?thesis
    using h by (auto simp: ensure_begin_def connect_reply_def request_reply_def worker_reply_def worker_continue_def
        ensure_continue_def work_catch_def work_finally_def held_leave held_subscribe held_release b r
        dest: held_reply held_returned split: option.split ensure_at.split sub_at.split worker.split sum.split prod.split)
qed

lemma held_update: "held_back (updateAddresses v s) = held_back s"
  by (simp add: updateAddresses_def)

lemma held_watch: "held_back (watch_turn v i w s) = held_back s"
  by (simp add: watch_turn_def watch_wait_def held_update split: option.split sum.split)

lemma closed_or_held_step:
  assumes v: "lv_active v" and st: "lu_started s" and h: "lu_closed s \<or> held_back s"
  shows "lu_started (live_step c (v, e) s) \<and> (lu_closed (live_step c (v, e) s) \<or> held_back (live_step c (v, e) s))"
proof -
  have turn: "flags (watch_turn v i w s) = flags s" for i w
    by (simp add: watch_turn_def watch_wait_def updateAddresses_def split: option.split sum.split)
  have inv: "flags (live_invalidate v s) = flags s" by (simp add: flags_def)
  have flags: "flags (live_step c (v, e) s) = flags s \<or> e = CloseUpdates"
    using st by (cases e) (simp_all add: flags_run live_start_def updateAddresses_def live_connected_def live_disconnected_def
        inv retry_fires_def turn watchAddress_def watch_continue_def flags_core [OF wake_core_notify] split: option.split watch_at.split)
  have close: "lu_started (live_close v s) \<and> lu_closed (live_close v s)" using st by (simp add: live_close_def)
  show ?thesis
  proof (cases "lu_closed s \<or> e = CloseUpdates")
    case True
    with flags close st show ?thesis by (auto simp: flags_def)
  next
    case False
    with v st have "live_active v s" by (simp add: live_active_def)
    with False h held_run [of s v] have "held_back (live_step c (v, e) s)"
      by (cases e) (simp_all add: live_start_def held_update live_connected_def live_disconnected_def retry_fires_def held_watch
          watchAddress_def watch_continue_def held_notify held_timer split: option.split watch_at.split)
    with flags False st show ?thesis by (auto simp: flags_def)
  qed
qed

lemma live_run_awake:
  assumes "lv_active v0" and "\<forall>(v, e)\<in>set events. lv_active v"
  shows "let s = fold (live_step c) events (live_step c (v0, Start) (live_new c))
    in live_ok s \<and> awake s \<and> lu_started s \<and> (lu_closed s \<or> held_back s)"
proof -
  let ?s0 = "live_step c (v0, Start) (live_new c)"
  have "live_ok ?s0" by (rule live_step_ok [OF live_new_ok])
  moreover have "awake ?s0"
    by (rule awake_step [OF assms(1) live_new_ok]) (simp add: awake_def live_new_def)
  moreover have "lu_started ?s0" "held_back ?s0"
    by (simp_all add: live_start_def live_new_def live_kick_def held_back_def)
  ultimately show ?thesis
    using assms(2)
  proof (induction events arbitrary: c rule: rev_induct)
    case (snoc x events)
    obtain v e where x: "x = (v, e)" by (cases x)
    with snoc.prems(5) have v: "lv_active v" and rest: "\<forall>(v, e)\<in>set events. lv_active v" by auto
    from snoc.IH [OF snoc.prems(1-4) rest] show ?case
      using awake_step [OF v, of _ c e] live_step_ok [of _ c x] closed_or_held_step [OF v, of _ c e]
      by (simp add: x Let_def)
  qed (simp add: Let_def)
qed

section \<open>The property\<close>

text \<open>
  Property C36: live updates do not fall asleep. While the wallet is active, whatever the server answers and
  whenever the connection is lost: a started machine that is not closed either runs, or waits for its retry,
  or has nothing requested and holds the subscriptions to the tip and to the bounties of the current
  connection after having told the wallet to catch up; and a change of an address that is held back
  has a timer.
\<close>

theorem live_updates_awake:
  assumes "lv_active v0" and "\<forall>(v, e)\<in>set events. lv_active v"
    and "s = fold (live_step c) events (live_step c (v0, Start) (live_new c))"
  shows "lu_closed s
    \<or> (lu_running s \<noteq> None \<or> lu_retryTimer s \<noteq> None
         \<or> \<not> lu_requested s \<and> lu_baseReady s \<and> jget (lu_registrations s) ''tip'' \<noteq> None
           \<and> jget (lu_registrations s) ''bounties'' \<noteq> None)
      \<and> (\<not> lu_addressPending s \<or> lu_addressTimer s \<noteq> None)"
  using live_run_awake [OF assms(1,2), of c] unfolding assms(3) [symmetric] Let_def
  by (auto simp: awake_def held_back_def subscribed_def jhas_def split: option.splits)

theorem live_updates_awake_witness:
  "lu_running (fold (live_step ex_live) (tl ex_watch @ [(fst (hd ex_watch), RpcDisconnected), (fst (hd ex_watch), WorkerReply 1 (Inl (LiveRpc None))),
       (fst (hd ex_watch), WorkerContinues 0), (fst (hd ex_watch), WorkerContinues 1), (fst (hd ex_watch), RunContinues),
       (fst (hd ex_watch), RunCatch), (fst (hd ex_watch), RunFinally)])
     (live_step ex_live (hd ex_watch) (live_new ex_live))) = None
   \<and> lu_retryTimer (fold (live_step ex_live) (tl ex_watch @ [(fst (hd ex_watch), RpcDisconnected), (fst (hd ex_watch), WorkerReply 1 (Inl (LiveRpc None))),
       (fst (hd ex_watch), WorkerContinues 0), (fst (hd ex_watch), WorkerContinues 1), (fst (hd ex_watch), RunContinues),
       (fst (hd ex_watch), RunCatch), (fst (hd ex_watch), RunFinally)])
     (live_step ex_live (hd ex_watch) (live_new ex_live))) \<noteq> None"
proof -
  define v where "v = fst (hd ex_watch)"
  define more where "more = tl ex_watch @ [(v, RpcDisconnected), (v, WorkerReply 1 (Inl (LiveRpc None))),
       (v, WorkerContinues 0), (v, WorkerContinues 1), (v, RunContinues), (v, RunCatch), (v, RunFinally)]"
  define s where "s = fold (live_step ex_live) more (live_step ex_live (v, Start) (live_new ex_live))"
  have v: "lv_active v" and hd: "hd ex_watch = (v, Start)" by (simp_all add: v_def ex_watch_def)
  have idle: "lu_running s = None" "\<not> lu_closed s" "\<not> lu_baseReady s"
    unfolding s_def more_def v_def ex_watch_def by code_simp+
  have "\<forall>(v, e)\<in>set more. lv_active v" using v by (simp add: more_def ex_watch_def)
  from live_updates_awake [OF v this s_def] idle have "lu_retryTimer s \<noteq> None" by simp
  with idle(1) show ?thesis unfolding s_def more_def hd v_def [symmetric] by simp
qed

end
