(* ===== verification/Rpc_Params.thy ===== *)
theory Rpc_Params
  imports Address_Sync
begin

text \<open>
  What may leave the wallet in a request (\<open>src/src/core/rpc.mjs\<close>, \<open>validateRpcParams\<close>): the methods with
  their fields, and the checks of every field. The result is built anew from checked values, so nothing
  else that hangs on the caller's object is sent. An object with accessors is \<open>VExotic\<close> and is refused
  with the first error.
\<close>

datatype param_error =
    MethodNotAllowed       \<comment> \<open>This RPC method is not allowed\<close>
  | UnexpectedParams       \<comment> \<open>Unexpected RPC parameters\<close>
  | MissingParam string    \<comment> \<open>Missing RPC parameter\<close>
  | BadOption string       \<comment> \<open>Invalid RPC compact, include_bounty_counts, raw_only option\<close>
  | BadCompactVersion
  | BadKnownState
  | BadKnownTip
  | BadRecentCount
  | BadPendingOption
  | BadDeltaOption
  | BadChangesOption
  | BadAddressBatch
  | DuplicateAddress
  | BadTxBatch
  | DuplicateTxHash
  | BadParam string        \<comment> \<open>Invalid RPC parameter\<close>
  | BadRpcHash
  | BadRpcAddress
  | BadRpcCursor
  | BadSubscriptionId
  | BadTransactionHex

definition PARAMS :: "string \<Rightarrow> string list option" where
  "PARAMS = map_of
     [(''getchaintip'', []), (''getrecentblockhashes'', [''count'', ''include_bounty_counts'']),
      (''getblockbounties'', [''block_hash'']), (''getaddressbalance'', [''address'']),
      (''getaddresshistory'', [''address'', ''cursor'']),
      (''getaddressutxos'', [''address'', ''cursor'', ''include_pending_spent'']),
      (''getaddresschanges'', [''addresses'', ''cursor'']), (''gettransaction'', [''txid'', ''raw_only'']),
      (''gettransactionstatus'', [''txid'']), (''gettransactions'', [''txids'']),
      (''sendrawtransaction'', [''transaction_hex'']),
      (''getbountychanges'', [''cursor'', ''include_bounties'', ''known_tip'', ''compact'', ''compact_version'', ''known_state'']),
      (''subscribebounties'', []), (''subscribeaddress'', [''address'', ''changes_only'']), (''subscribetip'', []),
      (''unsubscribe'', [''subscription_id''])]"

definition OPTIONAL_PARAMS :: "string list" where
  "OPTIONAL_PARAMS = [''cursor'', ''include_pending_spent'', ''changes_only'', ''count'', ''include_bounties'', ''known_tip'',
     ''compact'', ''compact_version'', ''known_state'', ''include_bounty_counts'', ''raw_only'']"

section \<open>One field\<close>

definition hex_hash :: "string \<Rightarrow> bool" where
  "hex_hash s \<longleftrightarrow> length s = 64 \<and> list_all is_hex s"

fun is_bool :: "js_value \<Rightarrow> bool" where
  "is_bool (VBool _) = True"
| "is_bool _ = False"

definition rpc_address :: "js_value \<Rightarrow> bool" where
  "rpc_address v = (case v of VStr s \<Rightarrow> 8 \<le> length s \<and> length s \<le> 90 \<and> list_all is_alnum s | _ \<Rightarrow> False)"

definition rpc_hash :: "js_value \<Rightarrow> bool" where
  "rpc_hash v = (case v of VStr s \<Rightarrow> hex_hash s | _ \<Rightarrow> False)"

definition lower_value :: "js_value \<Rightarrow> js_value" where
  "lower_value v = (case v of VStr s \<Rightarrow> VStr (lower_str s) | _ \<Rightarrow> v)"

definition known_tip :: "js_value \<Rightarrow> param_error + js_value" where
  "known_tip v = (case v of
       VObj m \<Rightarrow>
         if length m \<noteq> 2 \<or> \<not> set (map fst m) \<subseteq> {''height'', ''hash''} \<or> \<not> js_own v ''height'' \<or> \<not> js_own v ''hash''
            \<or> \<not> js_count (js_prop v ''height'') \<or> \<not> js_hash (js_prop v ''hash'') then Inl BadKnownTip
         else Inr (VObj [(''height'', js_prop v ''height''), (''hash'', js_prop v ''hash'')])
     | _ \<Rightarrow> Inl BadKnownTip)"

definition address_batch :: "js_value \<Rightarrow> param_error + js_value" where
  "address_batch v = (case v of
       VArr as \<Rightarrow> if length as < 1 \<or> length as > 100 \<or> \<not> list_all rpc_address as then Inl BadAddressBatch
         else if \<not> distinct as then Inl DuplicateAddress else Inr v
     | _ \<Rightarrow> Inl BadAddressBatch)"

definition tx_batch :: "js_value \<Rightarrow> param_error + js_value" where
  "tx_batch v = (case v of
       VArr ts \<Rightarrow> if length ts < 1 \<or> length ts > 32 \<or> \<not> list_all rpc_hash ts then Inl BadTxBatch
         else if \<not> distinct (map lower_value ts) then Inl DuplicateTxHash else Inr (VArr (map lower_value ts))
     | _ \<Rightarrow> Inl BadTxBatch)"

definition rpc_text :: "string \<Rightarrow> string \<Rightarrow> param_error + js_value" where
  "rpc_text key s =
     (if key \<in> {''block_hash'', ''txid''} \<and> \<not> hex_hash s then Inl BadRpcHash
      else if key = ''address'' \<and> \<not> rpc_address (VStr s) then Inl BadRpcAddress
      else if key = ''cursor'' \<and> (length s < 1 \<or> length s > 1024 \<or> \<not> list_all cursor_char s) then Inl BadRpcCursor
      else if key = ''subscription_id'' \<and> (length s < 1 \<or> length s > 100
              \<or> list_ex (\<lambda>c. (of_char c :: nat) \<le> 31 \<or> (of_char c :: nat) = 127) s) then Inl BadSubscriptionId
      else if key = ''transaction_hex'' \<and> (length s < 20 \<or> length s > 800000 \<or> length s mod 2 \<noteq> 0 \<or> \<not> list_all is_hex s)
      then Inl BadTransactionHex
      else Inr (VStr (if key \<in> {''block_hash'', ''txid''} then lower_str s else s)))"

definition rpc_param :: "string \<Rightarrow> js_value \<Rightarrow> js_value \<Rightarrow> param_error + js_value" where
  "rpc_param key v clean =
     (if key \<in> {''compact'', ''include_bounty_counts'', ''raw_only''} then
        (if \<not> is_bool v \<or> (key = ''compact'' \<and> v = VBool True \<and> js_prop clean ''include_bounties'' \<noteq> VBool True)
         then Inl (BadOption key) else Inr v)
      else if key = ''compact_version'' then
        (if v \<notin> {VInt 2, VInt 3} \<or> js_prop clean ''compact'' \<noteq> VBool True \<or> js_prop clean ''include_bounties'' \<noteq> VBool True
         then Inl BadCompactVersion else Inr v)
      else if key = ''known_state'' then
        (if js_prop clean ''compact'' \<noteq> VBool True \<or> \<not> js_own clean ''known_tip''
            \<or> (case js_prop clean ''cursor'' of VStr _ \<Rightarrow> False | _ \<Rightarrow> True) \<or> \<not> rpc_hash v
         then Inl BadKnownState else Inr (lower_value v))
      else if key = ''known_tip'' then
        (if js_prop clean ''include_bounties'' \<noteq> VBool True then Inl BadKnownTip else known_tip v)
      else if key = ''count'' then (if js_nat_in 1 600 v then Inr v else Inl BadRecentCount)
      else if key = ''include_pending_spent'' then (if is_bool v then Inr v else Inl BadPendingOption)
      else if key = ''include_bounties'' then (if is_bool v then Inr v else Inl BadDeltaOption)
      else if key = ''changes_only'' then (if is_bool v then Inr v else Inl BadChangesOption)
      else if key = ''addresses'' then address_batch v
      else if key = ''txids'' then tx_batch v
      else if key = ''cursor'' \<and> v = VNull then Inr VNull
      else case v of VStr s \<Rightarrow> rpc_text key s | _ \<Rightarrow> Inl (BadParam key))"

section \<open>All fields\<close>

fun rpc_clean :: "js_value \<Rightarrow> string list \<Rightarrow> (string \<times> js_value) list \<Rightarrow> param_error + (string \<times> js_value) list" where
  "rpc_clean params [] clean = Inr clean"
| "rpc_clean params (key # keys) clean =
     (if \<not> js_own params key then
        (if key \<in> set OPTIONAL_PARAMS then rpc_clean params keys clean else Inl (MissingParam key))
      else bindE (rpc_param key (js_prop params key) (VObj clean)) (\<lambda>v. rpc_clean params keys (clean @ [(key, v)])))"

definition validateRpcParams :: "string \<Rightarrow> js_value \<Rightarrow> param_error + js_value" where
  "validateRpcParams rpcMethod params = (case PARAMS rpcMethod of
       None \<Rightarrow> Inl MethodNotAllowed
     | Some keys \<Rightarrow> (case params of
         VObj m \<Rightarrow> if \<not> set (map fst m) \<subseteq> set keys then Inl UnexpectedParams
           else bindE (rpc_clean params keys []) (\<lambda>clean. Inr (VObj clean))
       | _ \<Rightarrow> Inl UnexpectedParams))"

section \<open>What is sent is what was checked\<close>

lemma is_bool_iff: "is_bool v \<longleftrightarrow> (\<exists>b. v = VBool b)"
  by (cases v) auto

lemma hex_hash_lower [simp]: "hex_hash s \<Longrightarrow> hex_hash (lower_str s)"
  by (simp add: hex_hash_def lower_str_def list_all_iff lower_hex_digit)

lemma rpc_hash_lower [simp]: "rpc_hash v \<Longrightarrow> rpc_hash (lower_value v)"
  by (auto simp: rpc_hash_def lower_value_def split: js_value.splits)

lemma lower_value_idem [simp]: "lower_value (lower_value v) = lower_value v"
  by (simp add: lower_value_def split: js_value.splits)

lemma known_tip_stable: "known_tip v = Inr w \<Longrightarrow> known_tip w = Inr w"
  by (auto simp: known_tip_def split: js_value.splits if_splits)

lemma address_batch_stable: "address_batch v = Inr w \<Longrightarrow> address_batch w = Inr w"
  by (auto simp: address_batch_def split: js_value.splits if_splits)

lemma tx_batch_stable: "tx_batch v = Inr w \<Longrightarrow> tx_batch w = Inr w"
  by (auto simp: tx_batch_def list_all_iff o_def split: js_value.splits if_splits)

lemma if_stable:
  "(if b then x else y) = z \<Longrightarrow> (b \<Longrightarrow> x = z \<Longrightarrow> x' = z) \<Longrightarrow> (\<not> b \<Longrightarrow> y = z \<Longrightarrow> y' = z) \<Longrightarrow> (if b then x' else y') = z"
  by (cases b) simp_all

lemma rpc_text_hash: "rpc_text ''block_hash'' s = (if hex_hash s then Inr (VStr (lower_str s)) else Inl BadRpcHash)"
  "rpc_text ''txid'' s = (if hex_hash s then Inr (VStr (lower_str s)) else Inl BadRpcHash)"
  by (simp_all add: rpc_text_def)

lemma rpc_text_other: "key \<notin> {''block_hash'', ''txid''} \<Longrightarrow> rpc_text key s = Inr w \<Longrightarrow> w = VStr s"
  unfolding rpc_text_def by (simp only: if_False simp_thms) (simp split: if_splits)

lemma rpc_text_stable:
  assumes "rpc_text key s = Inr w"
  shows "\<exists>t. w = VStr t \<and> rpc_text key t = Inr w"
proof (cases "key \<in> {''block_hash'', ''txid''}")
  case True
  then show ?thesis using assms by (elim insertE emptyE; simp add: rpc_text_hash split: if_splits; force)
next
  case False
  from rpc_text_other [OF this assms] assms show ?thesis by simp
qed

lemma leafE:
  "(if b then Inl e else Inr v) = Inr w \<Longrightarrow> (w = v \<Longrightarrow> \<not> b \<Longrightarrow> P) \<Longrightarrow> P"
  "(if b then Inr v else Inl e) = Inr w \<Longrightarrow> (w = v \<Longrightarrow> b \<Longrightarrow> P) \<Longrightarrow> P"
  by (cases b; simp)+

lemma text_stable:
  "(case v of VStr s \<Rightarrow> rpc_text key s | _ \<Rightarrow> Inl (BadParam key)) = Inr w \<Longrightarrow>
   \<exists>t. w = VStr t \<and> rpc_text key t = Inr w"
  by (cases v) (auto dest: rpc_text_stable)

lemma cursor_stable:
  assumes "(if key = ''cursor'' \<and> v = VNull then Inr VNull else case v of VStr s \<Rightarrow> rpc_text key s | _ \<Rightarrow> Inl (BadParam key)) = Inr w"
  shows "(if key = ''cursor'' \<and> w = VNull then Inr VNull else case w of VStr s \<Rightarrow> rpc_text key s | _ \<Rightarrow> Inl (BadParam key)) = Inr w"
proof (cases "key = ''cursor'' \<and> v = VNull")
  case True
  with assms show ?thesis by simp
next
  case False
  with assms have "(case v of VStr s \<Rightarrow> rpc_text key s | _ \<Rightarrow> Inl (BadParam key)) = Inr w" by (simp only: if_False)
  from text_stable [OF this] show ?thesis by auto
qed

lemma known_state_stable:
  assumes "(if a \<or> b \<or> c \<or> \<not> rpc_hash v then Inl e else Inr (lower_value v)) = Inr w"
  shows "(if a \<or> b \<or> c \<or> \<not> rpc_hash w then Inl e else Inr (lower_value w)) = Inr w"
  using assms by (cases "a \<or> b \<or> c \<or> \<not> rpc_hash v") auto

lemma rpc_param_stable:
  assumes "rpc_param key v clean = Inr w"
  shows "rpc_param key w clean = Inr w"
  using assms unfolding rpc_param_def
proof (elim if_stable)
qed (assumption | erule cursor_stable | erule known_state_stable | erule known_tip_stable | erule address_batch_stable | erule tx_batch_stable
    | (erule leafE(1), simp only: if_False) | (erule leafE(2), simp only: if_True))+

text \<open>The second pass meets the same fields in the same order, each unchanged.\<close>

definition same_fields :: "string list \<Rightarrow> js_value \<Rightarrow> (string \<times> js_value) list \<Rightarrow> bool" where
  "same_fields keys params new \<longleftrightarrow>
     (\<forall>k\<in>set keys. js_own params k = (k \<in> set (map fst new)) \<and> js_prop params k = js_prop (VObj new) k)"

lemma rpc_clean_stable:
  assumes "rpc_clean params keys clean = Inr out" and "distinct keys"
  shows "\<exists>new. out = clean @ new \<and> map fst new = filter (js_own params) keys
     \<and> (\<forall>params'. same_fields keys params' new \<longrightarrow> rpc_clean params' keys clean = Inr out)"
  using assms
proof (induction params keys clean rule: rpc_clean.induct)
  case (2 params key keys clean)
  show ?case
  proof (cases "js_own params key")
    case False
    with "2.prems"(1) have opt: "key \<in> set OPTIONAL_PARAMS" and rest: "rpc_clean params keys clean = Inr out"
      by (auto split: if_splits)
    from "2.IH"(1) [OF False opt rest] "2.prems"(2) obtain new where new: "out = clean @ new" "map fst new = filter (js_own params) keys"
      and again: "\<forall>params'. same_fields keys params' new \<longrightarrow> rpc_clean params' keys clean = Inr out" by auto
    have key: "key \<notin> set (map fst new)" using new(2) "2.prems"(2) by simp
    have "rpc_clean params' (key # keys) clean = Inr out" if "same_fields (key # keys) params' new" for params'
    proof -
      from that key have "\<not> js_own params' key" "same_fields keys params' new" by (simp_all add: same_fields_def)
      with again opt show ?thesis by simp
    qed
    with new False show ?thesis by (intro exI [of _ new]) simp
  next
    case True
    with "2.prems"(1) obtain v where v: "rpc_param key (js_prop params key) (VObj clean) = Inr v"
      and rest: "rpc_clean params keys (clean @ [(key, v)]) = Inr out" by auto
    from "2.IH"(2) [of v] True v rest "2.prems"(2) obtain new where new: "out = (clean @ [(key, v)]) @ new" "map fst new = filter (js_own params) keys"
      and again: "\<forall>params'. same_fields keys params' new \<longrightarrow> rpc_clean params' keys (clean @ [(key, v)]) = Inr out" by auto
    have fresh: "key \<notin> set keys" using "2.prems"(2) by simp
    have "rpc_clean params' (key # keys) clean = Inr out" if "same_fields (key # keys) params' ((key, v) # new)" for params'
    proof -
      from that have "js_own params' key" "js_prop params' key = v" by (simp_all add: same_fields_def)
      moreover from that fresh have "same_fields keys params' new" by (auto simp: same_fields_def split: if_splits)
      ultimately show ?thesis using again rpc_param_stable [OF v] by simp
    qed
    with new True show ?thesis by (intro exI [of _ "(key, v) # new"]) simp
  qed
qed simp

lemma PARAMS_distinct: "PARAMS rpcMethod = Some keys \<Longrightarrow> distinct keys"
  unfolding PARAMS_def by (drule map_of_SomeD) auto

lemma js_own_keys: "js_own (VObj m) k = (k \<in> set (map fst m))"
  by (induction m) auto



text \<open>
  A cursor of the address index may have 4096 characters (\<open>sync_cursor\<close>), but no request carries more
  than 1024 of them.
\<close>

lemma long_cursor_not_sent:
  "sync_cursor (VStr (replicate 1025 CHR ''a''))
   \<and> rpc_param ''cursor'' (VStr (replicate 1025 CHR ''a'')) clean = Inl BadRpcCursor"
  by (simp add: sync_cursor_def cursor_char_def is_alnum_def rpc_param_def rpc_text_def Let_def)

end
