(* ===== verification/Rpc_Client.thy ===== *)
theory Rpc_Client
  imports Rpc_Params
begin

text \<open>
  The connection to the server (\<open>src/src/core/rpc.mjs\<close>, class \<open>RpcClient\<close>) as a machine: every event is one
  uninterrupted run of the source. A call of \<open>request\<close> is a process of its own, identified by a number;
  the answers of the platform (time, connection events, received bytes, the outcome of a write, what the
  callbacks of the caller do) are the inputs of the events, and any number of calls and sockets may be
  in progress at once. \<open>parse\<close> is the decoding of one line. Listeners of \<open>connected\<close>, \<open>disconnected\<close> and
  \<open>notification\<close> are not run inside the machine: what they are told is recorded. Timers are events that may
  come at any moment while they are set, and an event happens at one moment. Diagnostics have no effect by construction and are left out.
\<close>

datatype rpc_error =
    RpcParams param_error
  | RpcBadCallback          \<comment> \<open>Bounty requests require a stream callback\<close>
  | RpcBadFence             \<comment> \<open>RPC beforeSend must be a synchronous function, or returned a promise\<close>
  | RpcCancelled            \<comment> \<open>RPC request cancelled before transmission\<close>
  | RpcQueueFull            \<comment> \<open>Too many queued RPC requests\<close>
  | RpcClientClosed         \<comment> \<open>RPC client closed\<close>
  | RpcConnectionClosed     \<comment> \<open>RPC connection is closed\<close>
  | RpcCannotConnect        \<comment> \<open>Cannot connect to RPC\<close>
  | RpcNotConnected         \<comment> \<open>RPC connection closed before connecting\<close>
  | RpcQuotaTracking        \<comment> \<open>RPC quota tracking capacity reached\<close>
  | RpcIdsExhausted         \<comment> \<open>RPC request identifier space exhausted\<close>
  | RpcOutputLimit          \<comment> \<open>RPC request exceeds the wallet output buffer limit\<close>
  | RpcFenceThrew string
  | RpcRequestTimeout       \<comment> \<open>RPC request timed out\<close>
  | RpcInvalidResponse      \<comment> \<open>RPC server returned an invalid or oversized response\<close>
  | RpcConnectionLost       \<comment> \<open>Connection to the RPC server was lost\<close>
  | RpcWriteFailed
  | RpcOutcomeUnknown       \<comment> \<open>Broadcast outcome is unknown\<close>
  | RpcRefused int bool     \<comment> \<open>a reply with an error: its code, and \<open>notForwarded\<close>\<close>
  | RpcTransferTimeout      \<comment> \<open>Bounty transfer timed out, or exceeded its total time limit\<close>
  | RpcStreamIncomplete "int option"
  | RpcStreamCancelled      \<comment> \<open>the cancellation a stream callback threw\<close>

definition MAX_FRAME :: nat where "MAX_FRAME = 2 * 1024 * 1024"

record rpc_limits =
  li_timeoutMs :: int
  li_quota :: int
  li_windowMs :: int

text \<open>The constructor: \<open>None\<close> is a refused limit or endpoint.\<close>

definition rpc_limits_ok :: "rpc_limits \<Rightarrow> bool" where
  "rpc_limits_ok c \<longleftrightarrow> 1 \<le> li_timeoutMs c \<and> li_timeoutMs c \<le> 120000 \<and> 1 \<le> li_quota c \<and> li_quota c \<le> 60
     \<and> 1 \<le> li_windowMs c \<and> li_windowMs c \<le> 60000"

section \<open>The state\<close>

datatype call_at = Pacing | Connecting nat | Waiting | Granted | Repacing | InFlight | Ending "rpc_error + js_value"

record rpc_call =
  ca_method :: string
  ca_params :: js_value
  ca_streaming :: bool
  ca_aborted :: bool
  ca_socket :: nat
  ca_sent :: bool
  ca_at :: call_at

record rpc_pending =
  pe_call :: nat
  pe_method :: string
  pe_socket :: nat
  pe_streaming :: bool

datatype stream_phase = PhaseSnapshot | PhaseBounties | PhaseEnd

record rpc_stream =
  sm_call :: nat
  sm_method :: string
  sm_socket :: nat
  sm_next :: nat
  sm_records :: nat
  sm_bytes :: nat
  sm_phase :: stream_phase
  sm_abandoned :: bool

record rpc_socket =
  so_connecting :: bool
  so_destroyed :: bool
  so_connected :: bool
  so_failed :: bool
  so_outcome :: "(rpc_error + unit) option"   \<comment> \<open>the promise of \<open>connect\<close>\<close>
  so_buffer :: bytes

record rpc_sent =
  se_call :: nat
  se_request :: int
  se_method :: string
  se_key :: string            \<comment> \<open>the key the quota counts it under\<close>
  se_time :: rat

datatype rpc_told = ToldConnected | ToldDisconnected | ToldNotification js_value | ToldChunk nat js_value

record rpc_client =
  rc_pending :: "(int, rpc_pending) jmap"
  rc_streams :: "(string, rpc_stream) jmap"
  rc_history :: "(string, rat list) jmap"
  rc_cooldowns :: "(string, rat) jmap"
  rc_nextId :: int
  rc_socket :: "nat option"
  rc_sockets :: "rpc_socket list"
  rc_connecting :: "nat option"
  rc_closed :: bool
  rc_queued :: nat
  rc_waiters :: "nat list"
  rc_reserved :: nat
  rc_calls :: "(nat, rpc_call) jmap"
  rc_settled :: "(nat \<times> (rpc_error + js_value) \<times> bool) list"  \<comment> \<open>call, outcome, \<open>notSent\<close>\<close>
  rc_sent :: "rpc_sent list"
  rc_told :: "rpc_told list"

definition rpc_new :: rpc_client where
  "rpc_new = \<lparr>rc_pending = [], rc_streams = [], rc_history = [], rc_cooldowns = [], rc_nextId = 0, rc_socket = None,
     rc_sockets = [], rc_connecting = None, rc_closed = False, rc_queued = 0, rc_waiters = [], rc_reserved = 0,
     rc_calls = [], rc_settled = [], rc_sent = [], rc_told = []\<rparr>"

section \<open>Settling calls\<close>

definition lossError :: "string \<Rightarrow> bool \<Rightarrow> rpc_error \<Rightarrow> rpc_error" where
  "lossError rpcMethod sent reason = (if rpcMethod = ''sendrawtransaction'' \<and> sent then RpcOutcomeUnknown else reason)"

text \<open>The promise a call waits for settles: only its first outcome counts. The call ends with \<open>call_ends\<close>.\<close>

definition call_settles :: "nat \<Rightarrow> rpc_error + js_value \<Rightarrow> rpc_client \<Rightarrow> rpc_client" where
  "call_settles i outcome s = (case jget (rc_calls s) i of None \<Rightarrow> s
     | Some a \<Rightarrow> (case ca_at a of Ending _ \<Rightarrow> s
         | _ \<Rightarrow> s\<lparr>rc_calls := jset (rc_calls s) i (a\<lparr>ca_at := Ending outcome\<rparr>)\<rparr>))"

definition call_goes :: "nat \<Rightarrow> call_at \<Rightarrow> rpc_client \<Rightarrow> rpc_client" where
  "call_goes i at' s = (case jget (rc_calls s) i of None \<Rightarrow> s
     | Some a \<Rightarrow> s\<lparr>rc_calls := jset (rc_calls s) i (a\<lparr>ca_at := at'\<rparr>)\<rparr>)"

definition call_aborted :: "nat \<Rightarrow> rpc_client \<Rightarrow> bool" where
  "call_aborted i s \<longleftrightarrow> rc_closed s \<or> (case jget (rc_calls s) i of None \<Rightarrow> False | Some a \<Rightarrow> ca_aborted a)"

definition socket_gone :: "nat \<Rightarrow> rpc_client \<Rightarrow> bool" where
  "socket_gone n s \<longleftrightarrow> rc_socket s \<noteq> Some n \<or> length (rc_sockets s) \<le> n \<or> so_destroyed (rc_sockets s ! n)"

definition call_socket :: "nat \<Rightarrow> rpc_client \<Rightarrow> nat" where
  "call_socket i s = (case jget (rc_calls s) i of None \<Rightarrow> 0 | Some a \<Rightarrow> ca_socket a)"

text \<open>The catch and finally blocks of \<open>request\<close>: nothing that was written is reported as not sent.\<close>

definition not_sent :: "bool \<Rightarrow> rpc_error + js_value \<Rightarrow> bool" where
  "not_sent sent outcome \<longleftrightarrow> (case outcome of Inl e \<Rightarrow> \<not> sent \<and> e \<noteq> RpcOutcomeUnknown | Inr _ \<Rightarrow> False)"

definition call_ends :: "nat \<Rightarrow> rpc_client \<Rightarrow> rpc_client" where
  "call_ends i s = (case jget (rc_calls s) i of None \<Rightarrow> s
     | Some a \<Rightarrow> (case ca_at a of
         Ending outcome \<Rightarrow> s\<lparr>rc_calls := jdelete (rc_calls s) i, rc_queued := rc_queued s - 1,
           rc_settled := rc_settled s @ [(i, outcome, not_sent (ca_sent a) outcome)]\<rparr>
       | _ \<Rightarrow> s))"

section \<open>Slots\<close>

definition used_slots :: "rpc_client \<Rightarrow> nat" where
  "used_slots s = length (rc_pending s) + length (rc_streams s) + rc_reserved s"

fun drain_loop :: "nat list \<Rightarrow> rpc_client \<Rightarrow> rpc_client" where
  "drain_loop [] s = s\<lparr>rc_waiters := []\<rparr>"
| "drain_loop (i # waiters) s =
     (if call_aborted i s then drain_loop waiters (call_settles i (Inl RpcCancelled) s)
      else if socket_gone (call_socket i s) s then drain_loop waiters (call_settles i (Inl RpcConnectionClosed) s)
      else if used_slots s \<ge> 12 then s\<lparr>rc_waiters := i # waiters\<rparr>
      else drain_loop waiters (call_goes i Granted (s\<lparr>rc_reserved := rc_reserved s + 1\<rparr>)))"

definition drainCapacity :: "rpc_client \<Rightarrow> rpc_client" where
  "drainCapacity s = drain_loop (rc_waiters s) s"

definition releaseCapacity :: "rpc_client \<Rightarrow> rpc_client" where
  "releaseCapacity s = drainCapacity (s\<lparr>rc_reserved := rc_reserved s - 1\<rparr>)"

definition waitForCapacity :: "nat \<Rightarrow> rpc_client \<Rightarrow> rpc_client" where
  "waitForCapacity i s = drainCapacity (call_goes i Waiting (s\<lparr>rc_waiters := rc_waiters s @ [i]\<rparr>))"

text \<open>\<open>failAll\<close>: the requests, streams and waiters of one socket, or all of them.\<close>

definition on_socket :: "nat option \<Rightarrow> nat \<Rightarrow> bool" where
  "on_socket which n \<longleftrightarrow> which = None \<or> which = Some n"

definition failAll :: "rpc_error \<Rightarrow> nat option \<Rightarrow> rpc_client \<Rightarrow> rpc_client" where
  "failAll e which s0 =
     (let lost = filter (\<lambda>(_, p). on_socket which (pe_socket p)) (rc_pending s0);
          s = s0\<lparr>rc_pending := filter (\<lambda>(_, p). \<not> on_socket which (pe_socket p)) (rc_pending s0)\<rparr>;
          s = fold (\<lambda>(_, p). call_settles (pe_call p) (Inl (lossError (pe_method p) True e))) lost s;
          streams = filter (\<lambda>(_, t). on_socket which (sm_socket t)) (rc_streams s);
          s = s\<lparr>rc_streams := filter (\<lambda>(_, t). \<not> on_socket which (sm_socket t)) (rc_streams s)\<rparr>;
          s = fold (\<lambda>(_, t). call_settles (sm_call t) (Inl (lossError (sm_method t) True e))) streams s;
          waiting = filter (\<lambda>i. on_socket which (call_socket i s)) (rc_waiters s);
          s = s\<lparr>rc_waiters := filter (\<lambda>i. \<not> on_socket which (call_socket i s)) (rc_waiters s)\<rparr>;
          s = fold (\<lambda>i. call_settles i (Inl e)) waiting s
      in drainCapacity s)"

definition socket_update :: "nat \<Rightarrow> (rpc_socket \<Rightarrow> rpc_socket) \<Rightarrow> rpc_client \<Rightarrow> rpc_client" where
  "socket_update n f s = (if n < length (rc_sockets s) then s\<lparr>rc_sockets := (rc_sockets s)[n := f (rc_sockets s ! n)]\<rparr> else s)"

definition socket_destroy :: "nat \<Rightarrow> rpc_client \<Rightarrow> rpc_client" where
  "socket_destroy n = socket_update n (\<lambda>k. k\<lparr>so_destroyed := True\<rparr>)"

definition told :: "rpc_told \<Rightarrow> rpc_client \<Rightarrow> rpc_client" where
  "told t s = s\<lparr>rc_told := rc_told s @ [t]\<rparr>"

definition publishDisconnection :: "nat \<Rightarrow> rpc_client \<Rightarrow> rpc_client" where
  "publishDisconnection n s = (if rc_socket s \<noteq> Some n then s else told ToldDisconnected (s\<lparr>rc_socket := None\<rparr>))"

section \<open>Quota\<close>

definition quota_key :: "string \<Rightarrow> js_value \<Rightarrow> string" where
  "quota_key rpcMethod params = (if rpcMethod = ''getblockbounties''
     then rpcMethod @ '':'' @ js_text (js_prop params ''block_hash'') else rpcMethod)"

definition quota_limit :: "rpc_limits \<Rightarrow> string \<Rightarrow> int" where
  "quota_limit c rpcMethod = (if rpcMethod \<in> {''getblockbounties'', ''gettransactions''} then 8 else li_quota c)"

definition cooldown_of :: "string \<Rightarrow> rpc_client \<Rightarrow> rat" where
  "cooldown_of k s = (case jget (rc_cooldowns s) k of Some t \<Rightarrow> t | None \<Rightarrow> 0)"

definition quotaWait :: "rpc_limits \<Rightarrow> rat \<Rightarrow> string \<Rightarrow> js_value \<Rightarrow> bool \<Rightarrow> rpc_client \<Rightarrow> (rpc_error + rat) \<times> rpc_client" where
  "quotaWait c now rpcMethod params reserve s0 =
     (let key = quota_key rpcMethod params;
          old = now - of_int (li_windowMs c);
          cooldown = max (cooldown_of rpcMethod s0) (cooldown_of ''*'' s0)
      in if cooldown > now then (Inr (of_int \<lceil>cooldown - now\<rceil>), s0)
         else let history = filter (\<lambda>(_, ts). ts \<noteq> [] \<and> old < List.last ts) (rc_history s0);
                  entries = (case jget history key of Some ts \<Rightarrow> dropWhile (\<lambda>t. t \<le> old) ts | None \<Rightarrow> []);
                  s = s0\<lparr>rc_history := (if jhas history key then jset history key entries else history)\<rparr>
              in if int (length entries) \<ge> quota_limit c rpcMethod
                 then (Inr (max 1 (hd entries + of_int (li_windowMs c) - now + 10)), s)
                 else if \<not> reserve then (Inr 0, s)
                 else if \<not> jhas history key \<and> length history \<ge> 4096 then (Inl RpcQuotaTracking, s)
                 else (Inr 0, s\<lparr>rc_history := jset (rc_history s) key (entries @ [now])\<rparr>))"

section \<open>Connecting\<close>

definition socket_new :: rpc_socket where
  "socket_new = \<lparr>so_connecting = True, so_destroyed = False, so_connected = False, so_failed = False, so_outcome = None, so_buffer = []\<rparr>"

definition socket_is :: "(rpc_socket \<Rightarrow> bool) \<Rightarrow> nat \<Rightarrow> rpc_client \<Rightarrow> bool" where
  "socket_is P n s \<longleftrightarrow> n < length (rc_sockets s) \<and> P (rc_sockets s ! n)"

text \<open>\<open>connect\<close> returns the socket whose promise the caller waits for.\<close>

definition connect_shared :: "rpc_client \<Rightarrow> (rpc_error + nat) \<times> rpc_client" where
  "connect_shared s = (case rc_connecting s of Some m \<Rightarrow> (Inr m, s)
     | None \<Rightarrow> let n = length (rc_sockets s) in
         (Inr n, s\<lparr>rc_sockets := rc_sockets s @ [socket_new], rc_socket := Some n, rc_connecting := Some n\<rparr>))"

definition rpc_connect :: "rpc_client \<Rightarrow> (rpc_error + nat) \<times> rpc_client" where
  "rpc_connect s0 =
     (if rc_closed s0 then (Inl RpcClientClosed, s0)
      else let s = (case rc_socket s0 of Some n \<Rightarrow> if socket_is so_destroyed n s0 then publishDisconnection n s0 else s0 | None \<Rightarrow> s0)
        in case rc_socket s of
            Some n \<Rightarrow>
              if socket_is (\<lambda>k. \<not> so_destroyed k \<and> \<not> so_connecting k) n s then (Inr n, s) else connect_shared s
          | None \<Rightarrow> connect_shared s)"

definition socket_settles :: "(rpc_error + unit) \<Rightarrow> rpc_socket \<Rightarrow> rpc_socket" where
  "socket_settles outcome k = (if so_outcome k = None then k\<lparr>so_outcome := Some outcome\<rparr> else k)"

definition socket_connected :: "nat \<Rightarrow> rpc_client \<Rightarrow> rpc_client" where
  "socket_connected n s =
     (if \<not> socket_is (\<lambda>k. so_connecting k \<and> \<not> so_destroyed k) n s then s
      else if rc_closed s \<or> rc_socket s \<noteq> Some n
      then socket_update n (socket_settles (Inl (if rc_closed s then RpcClientClosed else RpcConnectionClosed))) (socket_destroy n s)
      else told ToldConnected (socket_update n (\<lambda>k. (socket_settles (Inr ()) k)\<lparr>so_connecting := False, so_connected := True\<rparr>) s))"

definition socket_error :: "nat \<Rightarrow> rpc_client \<Rightarrow> rpc_client" where
  "socket_error n = socket_update n (\<lambda>k. (if so_connected k then k else socket_settles (Inl RpcCannotConnect) k)\<lparr>so_failed := True, so_destroyed := True\<rparr>)"

definition socket_closed :: "nat \<Rightarrow> rpc_client \<Rightarrow> rpc_client" where
  "socket_closed n s0 =
     (if length (rc_sockets s0) \<le> n then s0
      else let s = socket_update n (\<lambda>k. (if so_connected k then k
             else socket_settles (Inl (if rc_closed s0 \<and> \<not> so_failed k then RpcClientClosed else RpcNotConnected)) k)\<lparr>so_destroyed := True\<rparr>) s0
        in publishDisconnection n (failAll RpcConnectionLost (Some n) s))"

definition connecting_done :: "rpc_client \<Rightarrow> rpc_client" where
  "connecting_done s = (case rc_connecting s of None \<Rightarrow> s
     | Some n \<Rightarrow> if socket_is (\<lambda>k. so_outcome k \<noteq> None) n s then s\<lparr>rc_connecting := None\<rparr> else s)"

section \<open>A request before it is written\<close>

definition rpc_request ::
    "nat \<Rightarrow> string \<Rightarrow> js_value \<Rightarrow> bool \<Rightarrow> bool \<Rightarrow> bool \<Rightarrow> rpc_client \<Rightarrow> rpc_client" where
  "rpc_request i rpcMethod params callback badFence aborted s =
     (if jhas (rc_calls s) i \<or> i \<in> fst ` set (rc_settled s) then s
      else let fails = (\<lambda>e. s\<lparr>rc_settled := rc_settled s @ [(i, Inl e, True)]\<rparr>) in
        (case validateRpcParams rpcMethod params of Inl e \<Rightarrow> fails (RpcParams e)
         | Inr clean \<Rightarrow>
            if (rpcMethod = ''getblockbounties'') \<noteq> callback then fails RpcBadCallback
            else if badFence then fails RpcBadFence
            else if rc_closed s \<or> aborted then fails RpcCancelled
            else if rc_queued s \<ge> 32 then fails RpcQueueFull
            else s\<lparr>rc_queued := rc_queued s + 1, rc_calls := jset (rc_calls s) i
              \<lparr>ca_method = rpcMethod, ca_params = clean, ca_streaming = callback, ca_aborted = False, ca_socket = 0,
               ca_sent = False, ca_at = Pacing\<rparr>\<rparr>))"

text \<open>A turn of \<open>pace\<close>: the first comes with the call, the next when the delay has passed.\<close>

definition pace_turn :: "rpc_limits \<Rightarrow> rat \<Rightarrow> nat \<Rightarrow> rpc_client \<Rightarrow> rpc_client" where
  "pace_turn c now i s = (case jget (rc_calls s) i of None \<Rightarrow> s
     | Some a \<Rightarrow> if ca_at a \<notin> {Pacing, Repacing} then s
         else if rc_closed s then call_settles i (Inl RpcClientClosed) s
         else if call_aborted i s then call_settles i (Inl RpcCancelled) s
         else (case quotaWait c now (ca_method a) (ca_params a) False s of
             (Inl e, s) \<Rightarrow> call_settles i (Inl e) s
           | (Inr wait, s) \<Rightarrow>
               if wait \<noteq> 0 then s
               else if ca_at a = Repacing then waitForCapacity i s
               else (case rpc_connect s of
                   (Inl e, s) \<Rightarrow> call_settles i (Inl e) s
                 | (Inr n, s) \<Rightarrow> call_goes i (Connecting n) s)))"

definition connect_settled :: "nat \<Rightarrow> rpc_client \<Rightarrow> rpc_client" where
  "connect_settled i s = (case jget (rc_calls s) i of None \<Rightarrow> s
     | Some a \<Rightarrow> (case ca_at a of
         Connecting n \<Rightarrow>
           if length (rc_sockets s) \<le> n then s
           else (case so_outcome (rc_sockets s ! n) of None \<Rightarrow> s
             | Some (Inl e) \<Rightarrow> call_settles i (Inl e) s
             | Some (Inr _) \<Rightarrow> waitForCapacity i (s\<lparr>rc_calls := jset (rc_calls s) i (a\<lparr>ca_socket := n\<rparr>)\<rparr>))
       | _ \<Rightarrow> s))"

text \<open>The abort signal of the caller.\<close>

definition call_abort :: "nat \<Rightarrow> rpc_client \<Rightarrow> rpc_client" where
  "call_abort i s0 = (case jget (rc_calls s0) i of None \<Rightarrow> s0
     | Some a \<Rightarrow> let s = s0\<lparr>rc_calls := jset (rc_calls s0) i (a\<lparr>ca_aborted := True\<rparr>)\<rparr> in
         (case ca_at a of
            Pacing \<Rightarrow> call_settles i (Inl RpcCancelled) s
          | Repacing \<Rightarrow> call_settles i (Inl RpcCancelled) s
          | Connecting _ \<Rightarrow> call_settles i (Inl RpcCancelled) s
          | Waiting \<Rightarrow> drainCapacity (call_settles i (Inl RpcCancelled) (s\<lparr>rc_waiters := filter (\<lambda>k. k \<noteq> i) (rc_waiters s)\<rparr>))
          | _ \<Rightarrow> s))"

definition cancel_waiting :: "rpc_call \<Rightarrow> rpc_call" where
  "cancel_waiting a = (case ca_at a of
       Pacing \<Rightarrow> a\<lparr>ca_at := Ending (Inl RpcCancelled)\<rparr>
     | Repacing \<Rightarrow> a\<lparr>ca_at := Ending (Inl RpcCancelled)\<rparr>
     | Connecting _ \<Rightarrow> a\<lparr>ca_at := Ending (Inl RpcCancelled)\<rparr>
     | Waiting \<Rightarrow> a\<lparr>ca_at := Ending (Inl RpcCancelled)\<rparr>
     | _ \<Rightarrow> a)"

definition rpc_close :: "rpc_client \<Rightarrow> rpc_client" where
  "rpc_close s0 =
     (let s = s0\<lparr>rc_closed := True, rc_calls := map (\<lambda>(i, a). (i, cancel_waiting a)) (rc_calls s0), rc_waiters := []\<rparr>;
          s = failAll RpcClientClosed None s;
          s = (case rc_socket s of Some n \<Rightarrow> socket_destroy n s | None \<Rightarrow> s)
      in s\<lparr>rc_socket := None\<rparr>)"

text \<open>
  A granted call continues. The fence of the caller runs after all waits and may cancel the call or close
  the client; the quota is debited after it, immediately before the write.
\<close>

datatype fence = FenceAbsent | FenceReturns | FenceThrows string | FencePromises

record granted_input =
  gi_fits :: bool             \<comment> \<open>the encoded request fits the output buffer\<close>
  gi_fence :: fence
  gi_fenceCloses :: bool
  gi_fenceAborts :: bool
  gi_written :: bool          \<comment> \<open>the write did not fail at once\<close>

definition run_fence :: "nat \<Rightarrow> granted_input \<Rightarrow> rpc_client \<Rightarrow> rpc_client" where
  "run_fence i x s =
     (if gi_fence x = FenceAbsent then s
      else let s = (if gi_fenceAborts x then call_abort i s else s) in if gi_fenceCloses x then rpc_close s else s)"

definition rpc_send :: "nat \<Rightarrow> rat \<Rightarrow> rpc_call \<Rightarrow> int \<Rightarrow> granted_input \<Rightarrow> rpc_client \<Rightarrow> rpc_client" where
  "rpc_send i now a request x s0 =
     (let s = s0\<lparr>rc_pending := jset (rc_pending s0) request
            \<lparr>pe_call = i, pe_method = ca_method a, pe_socket = ca_socket a, pe_streaming = ca_streaming a\<rparr>,
          rc_calls := jset (rc_calls s0) i (a\<lparr>ca_at := InFlight, ca_sent := True\<rparr>),
          rc_sent := rc_sent s0 @ [\<lparr>se_call = i, se_request = request, se_method = ca_method a,
            se_key = quota_key (ca_method a) (ca_params a), se_time = now\<rparr>]\<rparr>;
          s = releaseCapacity s
      in if gi_written x then s else socket_destroy (ca_socket a) (failAll RpcWriteFailed (Some (ca_socket a)) s))"

definition give_up :: "nat \<Rightarrow> rpc_error \<Rightarrow> rpc_client \<Rightarrow> rpc_client" where
  "give_up i e s = releaseCapacity (call_settles i (Inl e) s)"

definition after_fence :: "rpc_limits \<Rightarrow> nat \<Rightarrow> rat \<Rightarrow> int \<Rightarrow> granted_input \<Rightarrow> rpc_client \<Rightarrow> rpc_client" where
  "after_fence c i now request x s = (case jget (rc_calls s) i of None \<Rightarrow> s
     | Some a \<Rightarrow>
         if call_aborted i s then give_up i RpcCancelled s
         else if socket_gone (ca_socket a) s then give_up i RpcConnectionClosed s
         else (case quotaWait c now (ca_method a) (ca_params a) True s of
             (Inl e, s) \<Rightarrow> give_up i e s
           | (Inr wait, s) \<Rightarrow>
               if wait = 0 then rpc_send i now a request x s
               else releaseCapacity (call_goes i Repacing s)))"

definition call_granted :: "rpc_limits \<Rightarrow> nat \<Rightarrow> rat \<Rightarrow> granted_input \<Rightarrow> rpc_client \<Rightarrow> rpc_client" where
  "call_granted c i now x s = (case jget (rc_calls s) i of None \<Rightarrow> s
     | Some a \<Rightarrow>
         if ca_at a \<noteq> Granted then s
         else if call_aborted i s then give_up i RpcCancelled s
         else if socket_gone (ca_socket a) s then give_up i RpcConnectionClosed s
         else (case quotaWait c now (ca_method a) (ca_params a) False s of
             (Inl e, s) \<Rightarrow> give_up i e s
           | (Inr wait, s) \<Rightarrow>
               if wait \<noteq> 0 then releaseCapacity (call_goes i Repacing s)
               else if rc_nextId s \<ge> MAX_SAFE_INTEGER then give_up i RpcIdsExhausted s
               else let request = rc_nextId s + 1; s = s\<lparr>rc_nextId := request\<rparr> in
                 if \<not> gi_fits x then give_up i RpcOutputLimit s
                 else let s = run_fence i x s in
                   (case gi_fence x of
                      FenceThrows e \<Rightarrow> give_up i (RpcFenceThrew e) s
                    | FencePromises \<Rightarrow> give_up i RpcBadFence s
                    | _ \<Rightarrow> after_fence c i now request x s)))"

section \<open>What the server sends\<close>

text \<open>
  \<open>receive\<close> validates every part of a message before the state changes. A failure of the whole connection
  (a throw in the source) is \<open>False\<close>. What the callback of the caller does with a chunk is \<open>consume\<close>.
\<close>

datatype chunk_answer = ChunkOk | ChunkCancels | ChunkThrows

definition raise_cooldown :: "string \<Rightarrow> rat \<Rightarrow> rpc_client \<Rightarrow> rpc_client" where
  "raise_cooldown key until s =
     s\<lparr>rc_cooldowns := jset (rc_cooldowns s) key (max (cooldown_of key s) (min (of_int MAX_SAFE_INTEGER) until))\<rparr>"

definition retry_after :: "js_value \<Rightarrow> int option" where
  "retry_after data = (if js_own data ''retry_after_ms'' then Some (js_num (js_prop data ''retry_after_ms'')) else None)"

definition or_else :: "int option \<Rightarrow> int \<Rightarrow> int" where
  "or_else x d = (case x of Some n \<Rightarrow> n | None \<Rightarrow> d)"

definition note_cooldown :: "rpc_limits \<Rightarrow> rat \<Rightarrow> string \<Rightarrow> int \<Rightarrow> int option \<Rightarrow> rpc_client \<Rightarrow> rpc_client" where
  "note_cooldown c now rpcMethod code retry s =
     (if code = - 32029 then raise_cooldown rpcMethod (now + of_int (or_else retry (li_windowMs c))) s
      else if code = - 32001 then raise_cooldown ''*'' (now + of_int (max 1000 (or_else retry 0))) s
      else if code = - 32030 then raise_cooldown rpcMethod (now + of_int (or_else retry 1000)) s
      else s)"

definition not_forwarded :: "string \<Rightarrow> int \<Rightarrow> js_value \<Rightarrow> bool" where
  "not_forwarded rpcMethod code data \<longleftrightarrow> rpcMethod = ''sendrawtransaction'' \<and> code \<in> {- 32001, - 32029, - 32030}
     \<and> (js_nullish data \<or> (js_plain data \<and> \<not> js_own data ''node_code''))"

definition receive_error :: "rpc_limits \<Rightarrow> rat \<Rightarrow> int \<Rightarrow> rpc_pending \<Rightarrow> js_value \<Rightarrow> rpc_client \<Rightarrow> rpc_client \<times> bool" where
  "receive_error c now request p error s =
     (case js_safe (js_prop error ''code'') of None \<Rightarrow> (s, False)
      | Some code \<Rightarrow>
          let data = js_prop error ''data'' in
          if \<not> js_plain error \<or> (case js_prop error ''message'' of VStr _ \<Rightarrow> False | _ \<Rightarrow> True)
             \<or> (js_own data ''retry_after_ms'' \<and> \<not> js_count (js_prop data ''retry_after_ms'')) then (s, False)
          else let s = note_cooldown c now (pe_method p) code (retry_after data) s;
                   s = s\<lparr>rc_pending := jdelete (rc_pending s) request\<rparr>
            in (drainCapacity (call_settles (pe_call p) (Inl (RpcRefused code (not_forwarded (pe_method p) code data))) s), True))"

definition receive_stream :: "int \<Rightarrow> rpc_pending \<Rightarrow> js_value \<Rightarrow> rpc_client \<Rightarrow> rpc_client \<times> bool" where
  "receive_stream request p answer s = (case js_prop answer ''stream_id'' of
       VStr k \<Rightarrow>
         if length k < 1 \<or> length k > 128 \<or> jhas (rc_streams s) k then (s, False)
         else (drainCapacity (s\<lparr>rc_pending := jdelete (rc_pending s) request,
             rc_streams := jset (rc_streams s) k \<lparr>sm_call = pe_call p, sm_method = pe_method p, sm_socket = pe_socket p,
               sm_next = 0, sm_records = 0, sm_bytes = 0, sm_phase = PhaseSnapshot, sm_abandoned = False\<rparr>\<rparr>), True)
     | _ \<Rightarrow> (s, False))"

definition receive_answer :: "int \<Rightarrow> rpc_pending \<Rightarrow> js_value \<Rightarrow> rpc_client \<Rightarrow> rpc_client \<times> bool" where
  "receive_answer request p answer s =
     (drainCapacity (call_settles (pe_call p) (Inr answer) (s\<lparr>rc_pending := jdelete (rc_pending s) request\<rparr>)), True)"

definition receive_reply :: "rpc_limits \<Rightarrow> rat \<Rightarrow> js_value \<Rightarrow> nat \<Rightarrow> rpc_client \<Rightarrow> rpc_client \<times> bool" where
  "receive_reply c now message n s =
     (case js_integer (js_prop message ''id'') of None \<Rightarrow> (s, False)
      | Some request \<Rightarrow> (case jget (rc_pending s) request of None \<Rightarrow> (s, False)
        | Some p \<Rightarrow>
            if pe_socket p \<noteq> n \<or> js_own message ''method'' \<or> js_own message ''result'' = js_own message ''error'' then (s, False)
            else if js_own message ''error'' then receive_error c now request p (js_prop message ''error'') s
            else if pe_streaming p then receive_stream request p (js_prop message ''result'') s
            else receive_answer request p (js_prop message ''result'') s))"

text \<open>The end of a stream: a complete one resolves its call, any other fails the connection.\<close>

definition stream_failure :: "js_value \<Rightarrow> rpc_stream \<Rightarrow> rpc_error" where
  "stream_failure params t =
     (let error = js_prop params ''error'' in
      RpcStreamIncomplete (if js_prop params ''complete'' = VBool False \<and> js_plain error
         \<and> js_integer (js_prop params ''chunks'') = Some (int (sm_next t))
         \<and> (case js_prop error ''message'' of VStr _ \<Rightarrow> True | _ \<Rightarrow> False)
         \<and> js_safe (js_prop error ''code'') \<in> {Some (- 32011), Some (- 32001)}
       then js_safe (js_prop error ''code'') else None))"

definition stream_end :: "string \<Rightarrow> js_value \<Rightarrow> nat \<Rightarrow> rpc_stream \<Rightarrow> rpc_client \<Rightarrow> rpc_client" where
  "stream_end k params n t s =
     (if js_prop params ''complete'' \<noteq> VBool True \<or> js_integer (js_prop params ''chunks'') \<noteq> Some (int (sm_next t)) \<or> sm_phase t \<noteq> PhaseEnd
      then socket_destroy n (failAll (stream_failure params t) (Some n) s)
      else drainCapacity (call_settles (sm_call t)
         (Inr (VObj [(''chunks'', VInt (int (sm_next t))), (''records'', VInt (int (sm_records t)))]))
         (s\<lparr>rc_streams := jdelete (rc_streams s) k\<rparr>)))"

text \<open>One chunk: first the snapshot, then bounties, then the state.\<close>

definition chunk_phase :: "js_value \<Rightarrow> stream_phase \<Rightarrow> (stream_phase \<times> nat) option" where
  "chunk_phase items phase = (case phase of
       PhaseSnapshot \<Rightarrow> if js_prop items ''type'' = VStr ''snapshot'' then Some (PhaseBounties, 0) else None
     | PhaseBounties \<Rightarrow> if js_prop items ''type'' = VStr ''state'' then Some (PhaseEnd, 0)
         else if js_prop items ''type'' \<noteq> VStr ''bounties'' then None
         else (case js_prop items ''items'' of VArr xs \<Rightarrow> Some (PhaseBounties, length xs) | _ \<Rightarrow> None)
     | PhaseEnd \<Rightarrow> None)"

definition stream_chunk ::
    "(nat \<Rightarrow> nat \<Rightarrow> js_value \<Rightarrow> chunk_answer) \<Rightarrow> string \<Rightarrow> js_value \<Rightarrow> nat \<Rightarrow> rpc_stream \<Rightarrow> rpc_client \<Rightarrow> rpc_client \<times> bool" where
  "stream_chunk consume k params frameBytes t s =
     (let items = js_prop params ''items'' in
      if js_safe (js_prop params ''sequence'') \<noteq> Some (int (sm_next t)) \<or> \<not> js_plain items \<or> sm_next t \<ge> 2002 then (s, False)
      else (case chunk_phase items (sm_phase t) of None \<Rightarrow> (s, False)
        | Some (phase, found) \<Rightarrow>
            let t' = t\<lparr>sm_phase := phase, sm_records := sm_records t + found, sm_bytes := sm_bytes t + frameBytes, sm_next := sm_next t + 1\<rparr> in
            if sm_records t' > 100000 \<or> sm_bytes t' > 64 * 1024 * 1024 then (s, False)
            else if sm_abandoned t then (s\<lparr>rc_streams := jset (rc_streams s) k t'\<rparr>, True)
            else let s = told (ToldChunk (sm_call t) items) s in
              (case consume (sm_call t) (sm_next t) items of
                 ChunkOk \<Rightarrow> (s\<lparr>rc_streams := jset (rc_streams s) k t'\<rparr>, True)
               | ChunkCancels \<Rightarrow> (call_settles (sm_call t) (Inl RpcStreamCancelled)
                   (s\<lparr>rc_streams := jset (rc_streams s) k (t'\<lparr>sm_abandoned := True\<rparr>)\<rparr>), True)
               | ChunkThrows \<Rightarrow> (s, False))))"

definition receive_stream_message ::
    "(nat \<Rightarrow> nat \<Rightarrow> js_value \<Rightarrow> chunk_answer) \<Rightarrow> js_value \<Rightarrow> nat \<Rightarrow> nat \<Rightarrow> rpc_client \<Rightarrow> rpc_client \<times> bool" where
  "receive_stream_message consume message n frameBytes s =
     (let params = js_prop message ''params'' in
      case js_prop params ''stream_id'' of
        VStr k \<Rightarrow> (case jget (rc_streams s) k of None \<Rightarrow> (s, False)
          | Some t \<Rightarrow>
              if sm_socket t \<noteq> n then (s, False)
              else if js_prop message ''method'' = VStr ''stream.end'' then (stream_end k params n t s, True)
              else stream_chunk consume k params frameBytes t s)
      | _ \<Rightarrow> (s, False))"

definition receive ::
    "rpc_limits \<Rightarrow> rat \<Rightarrow> (nat \<Rightarrow> nat \<Rightarrow> js_value \<Rightarrow> chunk_answer) \<Rightarrow> js_value \<Rightarrow> nat \<Rightarrow> nat \<Rightarrow> rpc_client \<Rightarrow> rpc_client \<times> bool" where
  "receive c now consume message n frameBytes s =
     (if \<not> js_plain message \<or> js_prop message ''jsonrpc'' \<noteq> VStr ''2.0'' then (s, False)
      else if js_own message ''id'' then receive_reply c now message n s
      else if js_own message ''result'' \<or> js_own message ''error'' then (s, False)
      else if js_prop message ''method'' \<in> {VStr ''stream.chunk'', VStr ''stream.end''}
      then receive_stream_message consume message n frameBytes s
      else if js_prop message ''method'' = VStr ''subscription'' \<and> js_plain (js_prop message ''params'')
      then (told (ToldNotification (js_prop message ''params'')) s, True)
      else (s, False))"

section \<open>Frames\<close>

lemma line_shortens: "10 \<in> set buffer \<Longrightarrow> length (tl (dropWhile (\<lambda>b. b \<noteq> 10) buffer)) < length buffer" for buffer :: bytes
  using length_dropWhile_le [of "\<lambda>b. b \<noteq> 10" buffer] by (cases "dropWhile (\<lambda>b. b \<noteq> 10) buffer") (auto simp: dropWhile_eq_Nil_conv)

text \<open>
  The complete lines of the buffer, up to the first failure. Only the first line of a run is known to
  arrive on a live socket: a stream that ends incomplete destroys it, and the loop goes on.
\<close>

function data_lines ::
    "rpc_limits \<Rightarrow> rat \<Rightarrow> (nat \<Rightarrow> nat \<Rightarrow> js_value \<Rightarrow> chunk_answer) \<Rightarrow> (bytes \<Rightarrow> js_value option) \<Rightarrow> nat \<Rightarrow> bytes \<Rightarrow> rpc_client
     \<Rightarrow> (bytes \<times> rpc_client) \<times> bool" where
  "data_lines c now consume parse n buffer s =
     (if 10 \<notin> set buffer then ((buffer, s), length buffer \<le> MAX_FRAME)
      else let line = takeWhile (\<lambda>b. b \<noteq> 10) buffer; rest = tl (dropWhile (\<lambda>b. b \<noteq> 10) buffer) in
        if line = [] \<or> length line > MAX_FRAME then ((buffer, s), False)
        else (case parse line of None \<Rightarrow> ((rest, s), False)
          | Some message \<Rightarrow> (case receive c now consume message n (length line) s of
              (s, ok) \<Rightarrow> if ok then data_lines c now consume parse n rest s else ((rest, s), False))))"
  by pat_completeness auto

termination
  by (relation "measure (\<lambda>(c, now, consume, parse, n, buffer, s). length buffer)") (auto simp: line_shortens simp del: length_tl)

declare data_lines.simps [simp del]

definition fail_socket :: "rpc_error \<Rightarrow> nat \<Rightarrow> rpc_client \<Rightarrow> rpc_client" where
  "fail_socket e n s = socket_destroy n (failAll e (Some n) s)"

definition socket_data ::
    "rpc_limits \<Rightarrow> rat \<Rightarrow> (nat \<Rightarrow> nat \<Rightarrow> js_value \<Rightarrow> chunk_answer) \<Rightarrow> (bytes \<Rightarrow> js_value option) \<Rightarrow> nat \<Rightarrow> bytes \<Rightarrow> rpc_client \<Rightarrow> rpc_client" where
  "socket_data c now consume parse n chunk s =
     (if socket_gone n s then s
      else let buffer = so_buffer (rc_sockets s ! n) in
        if length buffer + length chunk > 4 * 1024 * 1024 then fail_socket RpcInvalidResponse n s
        else (case data_lines c now consume parse n (buffer @ chunk) s of
          ((buffer, s), ok) \<Rightarrow>
            let s = socket_update n (\<lambda>k. k\<lparr>so_buffer := buffer\<rparr>) s
            in if ok then s else fail_socket RpcInvalidResponse n s))"

section \<open>Timers\<close>

definition request_timeout :: "int \<Rightarrow> rpc_client \<Rightarrow> rpc_client" where
  "request_timeout request s = (case jget (rc_pending s) request of None \<Rightarrow> s
     | Some p \<Rightarrow> fail_socket RpcRequestTimeout (pe_socket p) s)"

text \<open>The idle timer of a stream, and the timer of its whole transfer.\<close>

definition resetStreamTimer :: "string \<Rightarrow> rpc_client \<Rightarrow> rpc_client" where
  "resetStreamTimer k s = (case jget (rc_streams s) k of None \<Rightarrow> s
     | Some t \<Rightarrow> fail_socket RpcTransferTimeout (sm_socket t) s)"

section \<open>Events\<close>

datatype rpc_event =
    Requested nat string js_value bool bool bool
  | Paced nat
  | ConnectSettled nat
  | CallAborted nat
  | GrantedRuns nat granted_input
  | CallEnds nat
  | ClientCloses
  | SocketConnected nat
  | SocketError nat
  | SocketClosed nat
  | ConnectingDone
  | SocketData nat bytes "nat \<Rightarrow> nat \<Rightarrow> js_value \<Rightarrow> chunk_answer"
  | WriteFails nat
  | RequestTimer int
  | StreamTimer string

definition rpc_step :: "rpc_limits \<Rightarrow> (bytes \<Rightarrow> js_value option) \<Rightarrow> rpc_client \<Rightarrow> rat \<times> rpc_event \<Rightarrow> rpc_client" where
  "rpc_step c parse s e = (case e of (now, v) \<Rightarrow> (case v of
       Requested i rpcMethod params callback badFence aborted \<Rightarrow>
         pace_turn c now i (rpc_request i rpcMethod params callback badFence aborted s)
     | Paced i \<Rightarrow> pace_turn c now i s
     | ConnectSettled i \<Rightarrow> connect_settled i s
     | CallAborted i \<Rightarrow> call_abort i s
     | GrantedRuns i x \<Rightarrow> call_granted c i now x s
     | CallEnds i \<Rightarrow> call_ends i s
     | ClientCloses \<Rightarrow> rpc_close s
     | SocketConnected n \<Rightarrow> socket_connected n s
     | SocketError n \<Rightarrow> socket_error n s
     | SocketClosed n \<Rightarrow> socket_closed n s
     | ConnectingDone \<Rightarrow> connecting_done s
     | SocketData n chunk consume \<Rightarrow> socket_data c now consume parse n chunk s
     | WriteFails n \<Rightarrow> if n < length (rc_sockets s) then fail_socket RpcWriteFailed n s else s
     | RequestTimer request \<Rightarrow> request_timeout request s
     | StreamTimer k \<Rightarrow> resetStreamTimer k s))"

definition rpc_run :: "rpc_limits \<Rightarrow> (bytes \<Rightarrow> js_value option) \<Rightarrow> rpc_client \<Rightarrow> (rat \<times> rpc_event) list \<Rightarrow> rpc_client" where
  "rpc_run c parse = foldl (rpc_step c parse)"

end
