(* ===== verification/Rpc_Books.thy ===== *)
theory Rpc_Books
  imports Rpc_Client
begin

text \<open>
  The books of the client over all its calls: which calls are open, written and settled, who owns a slot and
  who waits for one. They are stated over the fields they read, so that an operation that changes
  another field needs no lemma.
\<close>

section \<open>The books\<close>

definition honest :: "rpc_error + js_value \<Rightarrow> bool" where
  "honest outcome \<longleftrightarrow> (\<forall>e. outcome = Inl e \<longrightarrow> e = RpcOutcomeUnknown \<or> (\<exists>code f. e = RpcRefused code f))"

definition risky :: "rpc_call \<Rightarrow> bool" where
  "risky a \<longleftrightarrow> ca_sent a \<and> ca_method a = ''sendrawtransaction''"

definition call_fits :: "rpc_call \<Rightarrow> bool" where
  "call_fits a \<longleftrightarrow> (case ca_at a of InFlight \<Rightarrow> ca_sent a | Ending outcome \<Rightarrow> risky a \<longrightarrow> honest outcome | _ \<Rightarrow> \<not> ca_sent a)
     \<and> (ca_streaming a \<longrightarrow> ca_method a \<noteq> ''sendrawtransaction'')"

definition sent_calls :: "rpc_sent list \<Rightarrow> nat set" where
  "sent_calls X = se_call ` set X"

definition pending_fits :: "(nat, rpc_call) jmap \<Rightarrow> rpc_sent list \<Rightarrow> rpc_pending \<Rightarrow> bool" where
  "pending_fits C X p \<longleftrightarrow> pe_call p \<in> sent_calls X \<and> (\<exists>a. jget C (pe_call p) = Some a \<and> ca_at a = InFlight \<and> ca_method a = pe_method p)
     \<and> (pe_streaming p \<longrightarrow> pe_method p \<noteq> ''sendrawtransaction'')"

definition stream_fits :: "(int, rpc_pending) jmap \<Rightarrow> rpc_sent list \<Rightarrow> rpc_stream \<Rightarrow> bool" where
  "stream_fits P X t \<longleftrightarrow> sm_method t \<noteq> ''sendrawtransaction'' \<and> sm_call t \<notin> pe_call ` snd ` set P
     \<and> (\<exists>x\<in>set X. se_call x = sm_call t \<and> se_method x \<noteq> ''sendrawtransaction'')"

type_synonym settlements = "(nat \<times> (rpc_error + js_value) \<times> bool) list"

definition sent_fits :: "(nat, rpc_call) jmap \<Rightarrow> settlements \<Rightarrow> rpc_sent \<Rightarrow> bool" where
  "sent_fits C Y x \<longleftrightarrow> (case jget C (se_call x) of Some a \<Rightarrow> ca_sent a \<and> ca_method a = se_method x | None \<Rightarrow> se_call x \<in> fst ` set Y)"

definition settled_fits :: "rpc_sent list \<Rightarrow> settlements \<Rightarrow> bool" where
  "settled_fits X Y \<longleftrightarrow> (\<forall>(i, outcome, notSent)\<in>set Y. (notSent \<longrightarrow> i \<notin> sent_calls X)
     \<and> (\<forall>x\<in>set X. se_call x = i \<and> se_method x = ''sendrawtransaction'' \<longrightarrow> honest outcome))"

definition books_ok ::
    "(nat, rpc_call) jmap \<Rightarrow> (int, rpc_pending) jmap \<Rightarrow> (string, rpc_stream) jmap \<Rightarrow> nat list \<Rightarrow> rpc_sent list \<Rightarrow> settlements \<Rightarrow> bool" where
  "books_ok C P S W X Y \<longleftrightarrow> wf_jmap C \<and> (\<forall>e\<in>set C. call_fits (snd e))
     \<and> distinct (map (pe_call \<circ> snd) P) \<and> (\<forall>e\<in>set P. pending_fits C X (snd e)) \<and> (\<forall>e\<in>set S. stream_fits P X (snd e))
     \<and> distinct W \<and> (\<forall>i\<in>set W. \<exists>a. jget C i = Some a \<and> ca_at a = Waiting)
     \<and> distinct (map se_call X) \<and> (\<forall>x\<in>set X. sent_fits C Y x)
     \<and> distinct (map fst Y) \<and> (\<forall>i\<in>fst ` set Y. jget C i = None) \<and> settled_fits X Y"

lemma books_intro:
  assumes "wf_jmap C" and "\<forall>e\<in>set C. call_fits (snd e)" and "distinct (map (pe_call \<circ> snd) P)"
    and "\<forall>e\<in>set P. pending_fits C X (snd e)" and "\<forall>e\<in>set S. stream_fits P X (snd e)" and "distinct W"
    and "\<forall>i\<in>set W. \<exists>a. jget C i = Some a \<and> ca_at a = Waiting" and "distinct (map se_call X)"
    and "\<forall>x\<in>set X. sent_fits C Y x" and "distinct (map fst Y)" and "\<forall>i\<in>fst ` set Y. jget C i = None" and "settled_fits X Y"
  shows "books_ok C P S W X Y"
  using assms by (simp add: books_ok_def)

lemma booksD:
  assumes "books_ok C P S W X Y"
  shows "wf_jmap C" "\<forall>e\<in>set C. call_fits (snd e)" "distinct (map (pe_call \<circ> snd) P)"
    "\<forall>e\<in>set P. pending_fits C X (snd e)" "\<forall>e\<in>set S. stream_fits P X (snd e)" "distinct W"
    "\<forall>i\<in>set W. \<exists>a. jget C i = Some a \<and> ca_at a = Waiting" "distinct (map se_call X)"
    "\<forall>x\<in>set X. sent_fits C Y x" "distinct (map fst Y)" "\<forall>i\<in>fst ` set Y. jget C i = None" "settled_fits X Y"
  using assms by (simp_all add: books_ok_def)

lemma books_call: "books_ok C P S W X Y \<Longrightarrow> jget C i = Some a \<Longrightarrow> call_fits a"
  using booksD(2) jget_in_set by fastforce

section \<open>What may change\<close>

lemma books_filter_pending: "books_ok C P S W X Y \<Longrightarrow> books_ok C (filter Q P) S W X Y"
  unfolding books_ok_def by (intro conjI) (auto 0 3 simp: distinct_map_filter stream_fits_def)

lemma books_filter_streams: "books_ok C P S W X Y \<Longrightarrow> books_ok C P (filter Q S) W X Y"
  by (simp add: books_ok_def)

lemma books_waiters: "books_ok C P S W X Y \<Longrightarrow> distinct W' \<Longrightarrow> set W' \<subseteq> set W \<Longrightarrow> books_ok C P S W' X Y"
  by (rule books_intro) (auto dest: booksD)

lemma books_set_stream:
  assumes b: "books_ok C P S W X Y" and "stream_fits P X t"
  shows "books_ok C P (jset S k t) W X Y"
proof -
  from assms have "\<forall>e\<in>set (jset S k t). stream_fits P X (snd e)" by (intro ball_jset booksD(5) [OF b]) simp
  then show ?thesis using b by (auto simp only: books_ok_def)
qed

text \<open>A call changes without being written.\<close>

definition not_owned :: "(int, rpc_pending) jmap \<Rightarrow> nat list \<Rightarrow> nat \<Rightarrow> bool" where
  "not_owned P W i \<longleftrightarrow> i \<notin> set W \<and> i \<notin> pe_call ` snd ` set P"

lemma books_change:
  assumes b: "books_ok C P S W X Y" and a: "jget C i = Some a" and "call_fits a'"
    and same: "ca_sent a' = ca_sent a" "ca_method a' = ca_method a" and free: "not_owned P W i"
  shows "books_ok (jset C i a') P S W X Y"
proof (rule books_intro)
  show "\<forall>e\<in>set (jset C i a'). call_fits (snd e)" using booksD(2) [OF b] assms(3) by (intro ball_jset) auto
  show "\<forall>e\<in>set P. pending_fits (jset C i a') X (snd e)"
  proof
    fix e assume e: "e \<in> set P"
    with free have "pe_call (snd e) \<noteq> i" by (auto simp: not_owned_def)
    with booksD(4) [OF b] e show "pending_fits (jset C i a') X (snd e)" by (simp add: pending_fits_def)
  qed
  show "\<forall>x\<in>set X. sent_fits (jset C i a') Y x"
    using booksD(9) [OF b] a same by (auto simp: sent_fits_def)
  show "\<forall>k\<in>fst ` set Y. jget (jset C i a') k = None" using booksD(11) [OF b] a by (fastforce)
  show "\<forall>k\<in>set W. \<exists>a. jget (jset C i a') k = Some a \<and> ca_at a = Waiting"
    using booksD(7) [OF b] free by (auto simp: not_owned_def)
qed (use booksD [OF b] in simp_all)

text \<open>A change that leaves the place of a call alone, whoever owns it; and the end of all that wait.\<close>

lemma books_touch:
  assumes b: "books_ok C P S W X Y" and a: "jget C i = Some a"
    and same: "ca_at a' = ca_at a" "ca_sent a' = ca_sent a" "ca_method a' = ca_method a" "ca_streaming a' = ca_streaming a"
  shows "books_ok (jset C i a') P S W X Y"
proof (rule books_intro)
  have "call_fits a'" using books_call [OF b a] same by (cases "ca_at a") (simp_all add: call_fits_def risky_def)
  then show "\<forall>e\<in>set (jset C i a'). call_fits (snd e)" using booksD(2) [OF b] by (intro ball_jset) auto
  show "\<forall>e\<in>set P. pending_fits (jset C i a') X (snd e)" using booksD(4) [OF b] a same by (auto simp: pending_fits_def)
  show "\<forall>x\<in>set X. sent_fits (jset C i a') Y x" using booksD(9) [OF b] a same by (auto simp: sent_fits_def)
  show "\<forall>k\<in>fst ` set Y. jget (jset C i a') k = None" using booksD(11) [OF b] a by (metis jget_jset option.distinct(1))
  show "\<forall>k\<in>set W. \<exists>a. jget (jset C i a') k = Some a \<and> ca_at a = Waiting" using booksD(7) [OF b] a same by auto
qed (use booksD [OF b] in simp_all)

lemma cancel_waiting_keeps [simp]:
  "ca_sent (cancel_waiting a) = ca_sent a" "ca_method (cancel_waiting a) = ca_method a"
  "ca_at (cancel_waiting a) = InFlight \<longleftrightarrow> ca_at a = InFlight" "ca_at (cancel_waiting a) = Granted \<longleftrightarrow> ca_at a = Granted"
  by (simp_all add: cancel_waiting_def split: call_at.split)

lemma cancel_waiting_fits: "call_fits a \<Longrightarrow> call_fits (cancel_waiting a)"
  by (cases "ca_at a") (simp_all add: call_fits_def cancel_waiting_def risky_def)

lemma books_cancel:
  assumes b: "books_ok C P S W X Y"
  shows "books_ok (map (\<lambda>(i, a). (i, cancel_waiting a)) C) P S [] X Y"
proof (rule books_intro)
  let ?C = "map (\<lambda>(i, a). (i, cancel_waiting a)) C"
  have get: "jget ?C i = map_option cancel_waiting (jget C i)" for i by (simp add: map_of_map)
  have "map fst ?C = map fst C" by (simp add: case_prod_unfold)
  then show "wf_jmap ?C" using booksD(1) [OF b] unfolding wf_jmap_def by (simp only:)
  show "\<forall>e\<in>set ?C. call_fits (snd e)" using booksD(2) [OF b] by (auto intro!: cancel_waiting_fits)
  show "\<forall>e\<in>set P. pending_fits ?C X (snd e)" using booksD(4) [OF b] by (fastforce simp: pending_fits_def get)
  show "\<forall>x\<in>set X. sent_fits ?C Y x" using booksD(9) [OF b] by (auto simp: sent_fits_def get split: option.splits)
  show "\<forall>k\<in>fst ` set Y. jget ?C k = None" using booksD(11) [OF b] by (simp add: get)
qed (use booksD [OF b] in simp_all)

text \<open>A call starts to wait for a slot.\<close>

lemma books_wait:
  assumes b: "books_ok C P S W X Y" and a: "jget C i = Some a" and "ca_at a' = Waiting" and "\<not> ca_sent a"
    and "ca_streaming a' = ca_streaming a" and same: "ca_sent a' = ca_sent a" "ca_method a' = ca_method a"
    and free: "not_owned P W i"
  shows "books_ok (jset C i a') P S (W @ [i]) X Y"
proof -
  from books_call [OF b a] assms have "call_fits a'" by (simp add: call_fits_def)
  from books_change [OF b a this same free] have b': "books_ok (jset C i a') P S W X Y" .
  from free have "i \<notin> set W" by (simp add: not_owned_def)
  then show ?thesis by (intro books_intro) (use booksD [OF b'] assms(3) in \<open>simp_all\<close>)
qed

text \<open>The settling of a call that nobody owns any more.\<close>

lemma books_end:
  assumes b: "books_ok C P S W X Y" and "jget C i = Some a" and "not_owned P W i" and "risky a \<longrightarrow> honest outcome"
  shows "books_ok (jset C i (a\<lparr>ca_at := Ending outcome\<rparr>)) P S W X Y"
  using assms books_call [OF b assms(2)] by (intro books_change [OF b assms(2)]) (simp_all add: call_fits_def risky_def)

lemma filter_pending_free:
  assumes b: "books_ok C P S W X Y" and "(k, p) \<in> set P"
  shows "not_owned (filter (\<lambda>e. fst e \<noteq> k) P) W (pe_call p)" and "\<not> Q (k, p) \<Longrightarrow> not_owned (filter Q P) W (pe_call p)"
proof -
  have w: "pe_call p \<notin> set W" using booksD(4,7) [OF b] assms(2) by (force simp: pending_fits_def)
  have "e = (k, p)" if "e \<in> set P" "pe_call (snd e) = pe_call p" for e
    using booksD(3) [OF b] that assms(2) by (auto simp: distinct_map inj_on_def)
  then show "not_owned (filter (\<lambda>e. fst e \<noteq> k) P) W (pe_call p)" and "\<not> Q (k, p) \<Longrightarrow> not_owned (filter Q P) W (pe_call p)"
    using w by (auto simp: not_owned_def)
qed

text \<open>A call arrives, is written, and ends.\<close>

lemma books_unknown:
  assumes b: "books_ok C P S W X Y" and "jget C i = None" and "i \<notin> fst ` set Y"
  shows "i \<notin> sent_calls X" and "not_owned P W i"
proof -
  show "i \<notin> sent_calls X" using booksD(9) [OF b] assms(2,3) by (auto simp: sent_calls_def sent_fits_def)
  show "not_owned P W i" using booksD(4,7) [OF b] assms(2) by (force simp: not_owned_def pending_fits_def)
qed

lemma books_refuse:
  assumes b: "books_ok C P S W X Y" and "jget C i = None" and "i \<notin> fst ` set Y"
  shows "books_ok C P S W X (Y @ [(i, Inl e, True)])"
proof -
  note new = books_unknown [OF assms]
  have "\<forall>x\<in>set X. sent_fits C (Y @ [(i, Inl e, True)]) x" using booksD(9) [OF b] by (auto simp: sent_fits_def split: option.splits)
  moreover have "settled_fits X (Y @ [(i, Inl e, True)])"
    using booksD(12) [OF b] new(1) by (auto simp: settled_fits_def sent_calls_def)
  ultimately show ?thesis using assms(2,3) by (intro books_intro) (use booksD [OF b] in \<open>simp_all\<close>)
qed

lemma books_new:
  assumes b: "books_ok C P S W X Y" and none: "jget C i = None" and "i \<notin> fst ` set Y" and fits: "call_fits a"
  shows "books_ok (jset C i a) P S W X Y"
proof (rule books_intro)
  note new = books_unknown [OF assms(1-3)]
  show "\<forall>e\<in>set (jset C i a). call_fits (snd e)" using booksD(2) [OF b] fits by (intro ball_jset) auto
  show "\<forall>e\<in>set P. pending_fits (jset C i a) X (snd e)"
  proof
    fix e assume e: "e \<in> set P"
    with new(2) have "pe_call (snd e) \<noteq> i" by (auto simp: not_owned_def)
    with booksD(4) [OF b] e show "pending_fits (jset C i a) X (snd e)" by (simp add: pending_fits_def)
  qed
  show "\<forall>x\<in>set X. sent_fits (jset C i a) Y x" using booksD(9) [OF b] new(1) by (auto simp: sent_fits_def sent_calls_def)
  show "\<forall>k\<in>fst ` set Y. jget (jset C i a) k = None" using booksD(11) [OF b] assms(3) by (metis jget_jset)
  show "\<forall>k\<in>set W. \<exists>a'. jget (jset C i a) k = Some a' \<and> ca_at a' = Waiting"
    using booksD(7) [OF b] new(2) by (auto simp: not_owned_def)
qed (use booksD [OF b] in simp_all)

lemma distinct_map_jset:
  "distinct (map (f \<circ> snd) P) \<Longrightarrow> f v \<notin> f ` snd ` set P \<Longrightarrow> distinct (map (f \<circ> snd) (jset P k v))"
proof (induction P)
  case (Cons e P)
  show ?case
  proof (cases "fst e = k")
    case True
    with Cons.prems show ?thesis by (cases e) (auto simp: image_image)
  next
    case False
    have "f (snd e) \<notin> (f \<circ> snd) ` set (jset P k v)" using Cons.prems set_jset_subset [of P k v] by auto
    with False Cons show ?thesis by (cases e) simp
  qed
qed simp

lemma books_send:
  assumes b: "books_ok C P S W X Y" and a: "jget C i = Some a" and ca: "ca_at a = Granted"
    and p: "pe_call p = i" "pe_method p = ca_method a" "pe_streaming p = ca_streaming a"
    and x: "se_call x = i" "se_method x = ca_method a"
  shows "books_ok (jset C i (a\<lparr>ca_at := InFlight, ca_sent := True\<rparr>)) (jset P k p) S W (X @ [x]) Y"
proof (rule books_intro)
  let ?C = "jset C i (a\<lparr>ca_at := InFlight, ca_sent := True\<rparr>)"
  have fits: "\<not> ca_sent a" "ca_streaming a \<longrightarrow> ca_method a \<noteq> ''sendrawtransaction''"
    using books_call [OF b a] ca by (simp_all add: call_fits_def)
  have fresh: "i \<notin> sent_calls X" using booksD(9) [OF b] a fits(1) by (auto simp: sent_calls_def sent_fits_def)
  have settled: "i \<notin> fst ` set Y" using booksD(11) [OF b] a by auto
  have free: "i \<notin> pe_call ` snd ` set P" using booksD(4) [OF b] fresh by (auto simp: pending_fits_def)
  show "\<forall>e\<in>set ?C. call_fits (snd e)" using booksD(2) [OF b] fits(2) by (intro ball_jset) (auto simp: call_fits_def)
  show "distinct (map (pe_call \<circ> snd) (jset P k p))" using booksD(3) [OF b] free p(1) by (intro distinct_map_jset) simp_all
  have "\<forall>e\<in>set P. pending_fits ?C (X @ [x]) (snd e)"
  proof
    fix e assume e: "e \<in> set P"
    with free have "pe_call (snd e) \<noteq> i" by auto
    with booksD(4) [OF b] e show "pending_fits ?C (X @ [x]) (snd e)" by (simp add: pending_fits_def sent_calls_def)
  qed
  then show "\<forall>e\<in>set (jset P k p). pending_fits ?C (X @ [x]) (snd e)"
    using p x fits(2) by (intro ball_jset) (simp_all add: pending_fits_def sent_calls_def)
  have "stream_fits (jset P k p) (X @ [x]) t" if "stream_fits P X t" for t
    using that fresh p(1) set_jset_subset [of P k p] by (force simp: stream_fits_def sent_calls_def)
  with booksD(5) [OF b] show "\<forall>e\<in>set S. stream_fits (jset P k p) (X @ [x]) (snd e)" by auto
  show "\<forall>k\<in>set W. \<exists>a'. jget ?C k = Some a' \<and> ca_at a' = Waiting" using booksD(7) [OF b] a ca by auto
  show "distinct (map se_call (X @ [x]))" using booksD(8) [OF b] fresh x(1) by (auto simp: sent_calls_def)
  show "\<forall>y\<in>set (X @ [x]). sent_fits ?C Y y" using booksD(9) [OF b] a x by (auto simp: sent_fits_def)
  show "\<forall>k\<in>fst ` set Y. jget ?C k = None" using booksD(11) [OF b] settled by auto
  show "settled_fits (X @ [x]) Y" unfolding settled_fits_def
  proof (intro ballI, clarify)
    fix k outcome notSent assume y: "(k, outcome, notSent) \<in> set Y"
    with settled have "k \<noteq> i" by force
    with booksD(12) [OF b] y x(1) show "(notSent \<longrightarrow> k \<notin> sent_calls (X @ [x])) \<and>
        (\<forall>y\<in>set (X @ [x]). se_call y = k \<and> se_method y = ''sendrawtransaction'' \<longrightarrow> honest outcome)"
      by (auto simp: settled_fits_def sent_calls_def)
  qed
qed (use booksD [OF b] in simp_all)

lemma books_ends:
  assumes b: "books_ok C P S W X Y" and a: "jget C i = Some a" and ca: "ca_at a = Ending outcome"
  shows "books_ok (jdelete C i) P S W X (Y @ [(i, outcome, not_sent (ca_sent a) outcome)])"
proof (rule books_intro)
  let ?Y = "Y @ [(i, outcome, not_sent (ca_sent a) outcome)]"
  have sent: "ca_sent a" "ca_method a = se_method x" if "x \<in> set X" "se_call x = i" for x
    using booksD(9) [OF b] that a by (auto simp: sent_fits_def)
  show "\<forall>e\<in>set (jdelete C i). call_fits (snd e)" by (rule ball_jdelete [OF booksD(2) [OF b]])
  show "\<forall>e\<in>set P. pending_fits (jdelete C i) X (snd e)"
  proof
    fix e assume e: "e \<in> set P"
    with booksD(4) [OF b] have "pending_fits C X (snd e)" by blast
    then show "pending_fits (jdelete C i) X (snd e)" using a ca by (auto simp: pending_fits_def)
  qed
  show "\<forall>k\<in>set W. \<exists>a'. jget (jdelete C i) k = Some a' \<and> ca_at a' = Waiting" using booksD(7) [OF b] a ca by auto
  show "\<forall>x\<in>set X. sent_fits (jdelete C i) ?Y x" using booksD(9) [OF b] by (auto simp: sent_fits_def split: option.splits)
  show "distinct (map fst ?Y)" using booksD(10,11) [OF b] a by auto
  show "\<forall>k\<in>fst ` set ?Y. jget (jdelete C i) k = None" using booksD(11) [OF b] by auto
  have "honest outcome" if "x \<in> set X" "se_call x = i" "se_method x = ''sendrawtransaction''" for x
    using books_call [OF b a] ca sent [OF that(1,2)] that(3) by (simp add: call_fits_def risky_def)
  moreover have "\<not> not_sent (ca_sent a) outcome" if "i \<in> sent_calls X"
    using that sent(1) by (auto simp: not_sent_def sent_calls_def split: sum.split)
  ultimately show "settled_fits X ?Y" using booksD(12) [OF b] by (auto simp: settled_fits_def)
qed (use booksD [OF b] in simp_all)

section \<open>Counting slots\<close>

definition granted_calls :: "(nat, rpc_call) jmap \<Rightarrow> nat" where
  "granted_calls C = length (filter (\<lambda>e. ca_at (snd e) = Granted) C)"

lemma granted_jset:
  "wf_jmap C \<Longrightarrow> jget C i = Some a \<Longrightarrow>
   granted_calls (jset C i a') + of_bool (ca_at a = Granted) = granted_calls C + of_bool (ca_at a' = Granted)"
  by (induction C) (auto simp: granted_calls_def split: if_splits)

lemma granted_change:
  "wf_jmap C \<Longrightarrow> jget C i = Some a \<Longrightarrow> (ca_at a = Granted) = (ca_at a' = Granted) \<Longrightarrow>
   granted_calls (jset C i a') = granted_calls C"
  using granted_jset [of C i a a'] by (auto split: if_splits)

lemma granted_new: "jget C i = None \<Longrightarrow> ca_at a' \<noteq> Granted \<Longrightarrow> granted_calls (jset C i a') = granted_calls C"
  by (induction C) (auto simp: granted_calls_def split: if_splits)

lemma granted_pos: "jget C i = Some a \<Longrightarrow> ca_at a = Granted \<Longrightarrow> 0 < granted_calls C"
  by (induction C) (auto simp: granted_calls_def split: if_splits)

lemma granted_delete: "jget C i = Some a \<Longrightarrow> ca_at a \<noteq> Granted \<Longrightarrow> wf_jmap C \<Longrightarrow> granted_calls (jdelete C i) = granted_calls C"
proof (induction C)
  case (Cons e C)
  then show ?case
  proof (cases "fst e = i")
    case True
    with Cons.prems have "jdelete C i = C" by (auto intro: jdelete_fresh)
    with True Cons.prems show ?thesis by (cases e) (simp add: jdelete_def granted_calls_def)
  next
    case False
    with Cons show ?thesis by (cases e) (auto simp: jdelete_def granted_calls_def)
  qed
qed simp

section \<open>The invariant\<close>

definition rpc_ok :: "rpc_client \<Rightarrow> bool" where
  "rpc_ok s \<longleftrightarrow> books_ok (rc_calls s) (rc_pending s) (rc_streams s) (rc_waiters s) (rc_sent s) (rc_settled s)
     \<and> rc_queued s = length (rc_calls s) \<and> rc_queued s \<le> 32"

definition slots_ok :: "rpc_client \<Rightarrow> bool" where
  "slots_ok s \<longleftrightarrow> rc_reserved s = granted_calls (rc_calls s) \<and> used_slots s \<le> 12"

definition rpc_inv :: "rpc_client \<Rightarrow> bool" where
  "rpc_inv s \<longleftrightarrow> rpc_ok s \<and> slots_ok s"

definition idle_call :: "rpc_client \<Rightarrow> nat \<Rightarrow> bool" where
  "idle_call s i \<longleftrightarrow> not_owned (rc_pending s) (rc_waiters s) i"

lemma length_jset_same: "jget C i = Some a \<Longrightarrow> length (jset C i a') = length C"
  by (simp add: length_jset jhas_def)

lemma rpc_new_inv: "rpc_inv rpc_new"
  by (simp add: rpc_inv_def rpc_ok_def slots_ok_def rpc_new_def books_ok_def settled_fits_def granted_calls_def used_slots_def)

end
