(* ===== verification/Rpc_Laws.thy ===== *)
theory Rpc_Laws
  imports Rpc_Books
begin

text \<open>
  Every step of the client keeps the books: at most twelve requests hold a slot, no call is settled twice,
  what was written is never reported as not sent, and a written broadcast that fails without an answer
  of the server has an unknown outcome.
\<close>

section \<open>Settling and granting\<close>

lemma invD:
  assumes "rpc_inv s"
  shows "books_ok (rc_calls s) (rc_pending s) (rc_streams s) (rc_waiters s) (rc_sent s) (rc_settled s)"
    "rc_queued s = length (rc_calls s)" "rc_queued s \<le> 32" "rc_reserved s = granted_calls (rc_calls s)" "used_slots s \<le> 12"
    "wf_jmap (rc_calls s)"
  using assms booksD(1) by (auto simp: rpc_inv_def rpc_ok_def slots_ok_def)

lemma used_simps [simp]:
  "used_slots (s\<lparr>rc_calls := C\<rparr>) = used_slots s" "used_slots (s\<lparr>rc_waiters := W\<rparr>) = used_slots s"
  "used_slots (s\<lparr>rc_settled := Y\<rparr>) = used_slots s" "used_slots (s\<lparr>rc_queued := q\<rparr>) = used_slots s"
  "used_slots (s\<lparr>rc_history := h\<rparr>) = used_slots s" "used_slots (s\<lparr>rc_cooldowns := w\<rparr>) = used_slots s"
  "used_slots (s\<lparr>rc_nextId := n\<rparr>) = used_slots s" "used_slots (s\<lparr>rc_socket := k\<rparr>) = used_slots s"
  "used_slots (s\<lparr>rc_sockets := ks\<rparr>) = used_slots s" "used_slots (s\<lparr>rc_connecting := k\<rparr>) = used_slots s"
  "used_slots (s\<lparr>rc_closed := b\<rparr>) = used_slots s" "used_slots (s\<lparr>rc_told := t\<rparr>) = used_slots s"
  "used_slots (s\<lparr>rc_sent := x\<rparr>) = used_slots s"
  by (simp_all add: used_slots_def)

lemma inv_simps [simp]:
  "rpc_inv (s\<lparr>rc_history := h\<rparr>) = rpc_inv s" "rpc_inv (s\<lparr>rc_cooldowns := w\<rparr>) = rpc_inv s"
  "rpc_inv (s\<lparr>rc_nextId := n\<rparr>) = rpc_inv s" "rpc_inv (s\<lparr>rc_socket := k\<rparr>) = rpc_inv s"
  "rpc_inv (s\<lparr>rc_sockets := ks\<rparr>) = rpc_inv s" "rpc_inv (s\<lparr>rc_connecting := k\<rparr>) = rpc_inv s"
  "rpc_inv (s\<lparr>rc_closed := b\<rparr>) = rpc_inv s" "rpc_inv (s\<lparr>rc_told := t\<rparr>) = rpc_inv s"
  by (simp_all add: rpc_inv_def rpc_ok_def slots_ok_def)

text \<open>A change of one call that keeps what it was written for.\<close>

lemma call_change_inv:
  assumes inv: "rpc_inv s" and a: "jget (rc_calls s) i = Some a" and "idle_call s i" and "call_fits a'"
    and "ca_sent a' = ca_sent a" "ca_method a' = ca_method a" and "(ca_at a = Granted) = (ca_at a' = Granted)"
  shows "rpc_inv (s\<lparr>rc_calls := jset (rc_calls s) i a'\<rparr>)"
proof -
  have "books_ok (jset (rc_calls s) i a') (rc_pending s) (rc_streams s) (rc_waiters s) (rc_sent s) (rc_settled s)"
    using assms(3) unfolding idle_call_def by (rule books_change [OF invD(1) [OF inv] a assms(4-6)])
  then show ?thesis using invD [OF inv] granted_change [OF invD(6) [OF inv] a assms(7)]
    by (simp add: rpc_inv_def rpc_ok_def slots_ok_def length_jset_same [OF a])
qed

lemma call_settles_inv:
  assumes inv: "rpc_inv s" and "idle_call s i"
    and safe: "\<And>a. jget (rc_calls s) i = Some a \<Longrightarrow> ca_at a \<noteq> Granted \<and> (risky a \<longrightarrow> honest outcome)"
  shows "rpc_inv (call_settles i outcome s)"
proof (cases "jget (rc_calls s) i")
  case (Some a)
  from safe [OF Some] books_call [OF invD(1) [OF inv] Some] have "call_fits (a\<lparr>ca_at := Ending outcome\<rparr>)" "ca_at a \<noteq> Granted"
    by (simp_all add: call_fits_def risky_def)
  with call_change_inv [OF inv Some assms(2) this(1)] inv Some show ?thesis
    by (simp add: call_settles_def split: call_at.split)
qed (simp add: call_settles_def inv)

lemma waiters_inv: "rpc_inv s \<Longrightarrow> distinct W \<Longrightarrow> set W \<subseteq> set (rc_waiters s) \<Longrightarrow> rpc_inv (s\<lparr>rc_waiters := W\<rparr>)"
  by (auto simp: rpc_inv_def rpc_ok_def slots_ok_def intro: books_waiters)

lemma waiter_call:
  assumes "rpc_inv s" and "i \<in> set (rc_waiters s)"
  obtains a where "jget (rc_calls s) i = Some a" and "ca_at a = Waiting" and "\<not> ca_sent a" and "i \<notin> pe_call ` snd ` set (rc_pending s)"
proof -
  note b = invD(1) [OF assms(1)]
  from booksD(7) [OF b] assms(2) obtain a where a: "jget (rc_calls s) i = Some a" "ca_at a = Waiting" by auto
  from books_call [OF b a(1)] a(2) have "\<not> ca_sent a" by (simp add: call_fits_def)
  moreover have "i \<notin> pe_call ` snd ` set (rc_pending s)" using booksD(4) [OF b] a by (fastforce simp: pending_fits_def)
  ultimately show ?thesis using a by (intro that)
qed

lemma call_settles_waiters [simp]: "call_settles i outcome (s\<lparr>rc_waiters := W\<rparr>) = (call_settles i outcome s)\<lparr>rc_waiters := W\<rparr>"
  by (simp add: call_settles_def split: option.split call_at.split)

lemma drop_waiter:
  assumes "rpc_inv s" and W: "rc_waiters s = i # W"
  shows "rpc_inv (call_settles i outcome (s\<lparr>rc_waiters := W\<rparr>))"
proof -
  from assms(1) W obtain a where a: "jget (rc_calls s) i = Some a" "ca_at a = Waiting" "\<not> ca_sent a" "i \<notin> pe_call ` snd ` set (rc_pending s)"
    by (auto elim: waiter_call)
  have "distinct (i # W)" using booksD(6) [OF invD(1) [OF assms(1)]] W by simp
  then show ?thesis using a assms by (intro call_settles_inv waiters_inv) (auto simp: idle_call_def not_owned_def risky_def)
qed

lemma grant_inv:
  assumes "rpc_inv s" and W: "rc_waiters s = i # W" and room: "used_slots s < 12"
  shows "rpc_inv (call_goes i Granted (s\<lparr>rc_reserved := rc_reserved s + 1, rc_waiters := W\<rparr>))"
proof -
  from assms(1) W obtain a where a: "jget (rc_calls s) i = Some a" "ca_at a = Waiting" "\<not> ca_sent a" "i \<notin> pe_call ` snd ` set (rc_pending s)"
    by (auto elim: waiter_call)
  have d: "distinct (i # W)" using booksD(6) [OF invD(1) [OF assms(1)]] W by simp
  then have i: "rpc_inv (s\<lparr>rc_waiters := W\<rparr>)" using assms by (intro waiters_inv) auto
  have "call_fits (a\<lparr>ca_at := Granted\<rparr>)" using books_call [OF invD(1) [OF assms(1)] a(1)] a(2,3) by (simp add: call_fits_def)
  then have "books_ok (jset (rc_calls s) i (a\<lparr>ca_at := Granted\<rparr>)) (rc_pending s) (rc_streams s) W (rc_sent s) (rc_settled s)"
    using books_change [OF invD(1) [OF i], of i a "a\<lparr>ca_at := Granted\<rparr>"] a d by (simp add: not_owned_def)
  moreover have "granted_calls (jset (rc_calls s) i (a\<lparr>ca_at := Granted\<rparr>)) = granted_calls (rc_calls s) + 1"
    using granted_jset [OF invD(6) [OF assms(1)] a(1), of "a\<lparr>ca_at := Granted\<rparr>"] a(2) by simp
  ultimately show ?thesis using invD [OF assms(1)] a(1) room
    by (simp add: call_goes_def rpc_inv_def rpc_ok_def slots_ok_def length_jset_same [OF a(1)] used_slots_def)
qed

lemma call_goes_waiters [simp]: "call_goes i k (s\<lparr>rc_waiters := W\<rparr>) = (call_goes i k s)\<lparr>rc_waiters := W\<rparr>"
  by (simp add: call_goes_def split: option.split)

lemma drain_loop_inv: "rpc_inv (s\<lparr>rc_waiters := W\<rparr>) \<Longrightarrow> rpc_inv (drain_loop W s)"
proof (induction W arbitrary: s)
  case (Cons i W)
  have "rpc_inv ((call_settles i outcome s)\<lparr>rc_waiters := W\<rparr>)" for outcome
    using drop_waiter [OF Cons.prems, of i W] by simp
  moreover have "rpc_inv ((call_goes i Granted (s\<lparr>rc_reserved := rc_reserved s + 1\<rparr>))\<lparr>rc_waiters := W\<rparr>)" if "used_slots s < 12"
    using grant_inv [OF Cons.prems, of i W] that by (simp del: call_goes_waiters flip: call_goes_waiters)
  ultimately show ?case using Cons by simp
qed simp

lemma drain_inv: "rpc_inv s \<Longrightarrow> rpc_inv (drainCapacity s)"
  by (simp add: drainCapacity_def drain_loop_inv)

lemma release_inv:
  assumes "rpc_ok s" and "rc_reserved s = granted_calls (rc_calls s) + 1" and "used_slots s \<le> 13"
  shows "rpc_inv (releaseCapacity s)"
  using assms unfolding releaseCapacity_def by (intro drain_inv) (auto simp: rpc_inv_def rpc_ok_def slots_ok_def used_slots_def)

section \<open>Losing a connection\<close>

definition settle_ok :: "rpc_client \<Rightarrow> nat \<Rightarrow> rpc_error + js_value \<Rightarrow> bool" where
  "settle_ok s i outcome \<longleftrightarrow> idle_call s i
     \<and> (\<forall>a. jget (rc_calls s) i = Some a \<longrightarrow> ca_at a \<noteq> Granted \<and> (risky a \<longrightarrow> honest outcome))"

lemma settle_ok_inv: "rpc_inv s \<Longrightarrow> settle_ok s i outcome \<Longrightarrow> rpc_inv (call_settles i outcome s)"
  by (rule call_settles_inv) (auto simp: settle_ok_def)

lemma call_settles_fields [simp]:
  "rc_pending (call_settles i outcome s) = rc_pending s" "rc_streams (call_settles i outcome s) = rc_streams s"
  "rc_waiters (call_settles i outcome s) = rc_waiters s" "rc_sent (call_settles i outcome s) = rc_sent s"
  "rc_settled (call_settles i outcome s) = rc_settled s" "rc_queued (call_settles i outcome s) = rc_queued s"
  "rc_reserved (call_settles i outcome s) = rc_reserved s" "rc_history (call_settles i outcome s) = rc_history s"
  "rc_socket (call_settles i outcome s) = rc_socket s" "rc_sockets (call_settles i outcome s) = rc_sockets s"
  "rc_closed (call_settles i outcome s) = rc_closed s"
  by (simp_all add: call_settles_def split: option.split call_at.split)

lemma call_settles_call:
  assumes "jget (rc_calls (call_settles i outcome s)) k = Some a"
  shows "\<exists>b. jget (rc_calls s) k = Some b \<and> ca_sent a = ca_sent b \<and> ca_method a = ca_method b \<and> (ca_at a = Granted \<longrightarrow> ca_at b = Granted)
     \<and> ca_socket a = ca_socket b"
  using assms by (auto simp: call_settles_def split: option.splits call_at.splits if_splits)

lemma settle_ok_settles: "settle_ok s k o' \<Longrightarrow> settle_ok (call_settles i outcome s) k o'"
  unfolding settle_ok_def risky_def by (auto simp: idle_call_def dest!: call_settles_call)

lemma settle_all_inv:
  "rpc_inv s \<Longrightarrow> \<forall>x\<in>set L. settle_ok s (f x) (g x) \<Longrightarrow> rpc_inv (fold (\<lambda>x. call_settles (f x) (g x)) L s)"
  by (induction L arbitrary: s) (simp_all add: settle_ok_inv settle_ok_settles)

lemma settle_all_fields [simp]:
  "rc_pending (fold (\<lambda>x. call_settles (f x) (g x)) L s) = rc_pending s"
  "rc_streams (fold (\<lambda>x. call_settles (f x) (g x)) L s) = rc_streams s"
  "rc_waiters (fold (\<lambda>x. call_settles (f x) (g x)) L s) = rc_waiters s"
  "rc_sent (fold (\<lambda>x. call_settles (f x) (g x)) L s) = rc_sent s"
  "rc_history (fold (\<lambda>x. call_settles (f x) (g x)) L s) = rc_history s"
  by (induction L arbitrary: s) simp_all

lemma used_filter_pending: "used_slots (s\<lparr>rc_pending := filter Q (rc_pending s)\<rparr>) \<le> used_slots s"
  "used_slots (s\<lparr>rc_streams := filter R (rc_streams s)\<rparr>) \<le> used_slots s"
  by (simp_all add: used_slots_def)

lemma filter_inv:
  assumes "rpc_inv s"
  shows "rpc_inv (s\<lparr>rc_pending := filter Q (rc_pending s)\<rparr>)" and "rpc_inv (s\<lparr>rc_streams := filter R (rc_streams s)\<rparr>)"
  using invD [OF assms] by (auto simp: rpc_inv_def rpc_ok_def slots_ok_def
    intro: books_filter_pending books_filter_streams order_trans [OF used_filter_pending(1)] order_trans [OF used_filter_pending(2)])

lemma pending_settle_ok:
  assumes "rpc_inv s" and p: "(k, p) \<in> set (rc_pending s)" and "\<not> Q (k, p) \<or> Q = (\<lambda>e. fst e \<noteq> k)"
    and "pe_method p = ''sendrawtransaction'' \<longrightarrow> honest outcome"
  shows "settle_ok (s\<lparr>rc_pending := filter Q (rc_pending s)\<rparr>) (pe_call p) outcome"
proof -
  note b = invD(1) [OF assms(1)]
  from booksD(4) [OF b] p obtain a where a: "jget (rc_calls s) (pe_call p) = Some a" "ca_at a = InFlight" "ca_method a = pe_method p"
    by (fastforce simp: pending_fits_def)
  have "not_owned (filter Q (rc_pending s)) (rc_waiters s) (pe_call p)" using filter_pending_free [OF b p] assms(3) by blast
  then show ?thesis using assms(4) a by (simp add: settle_ok_def idle_call_def risky_def)
qed

text \<open>The call of a stream was written; it waits for nothing else.\<close>

lemma stream_settle_ok:
  assumes "rpc_inv s" and t: "(k, t) \<in> set (rc_streams s)"
  shows "settle_ok s (sm_call t) outcome"
proof -
  note b = invD(1) [OF assms(1)]
  from booksD(5) [OF b] t have "stream_fits (rc_pending s) (rc_sent s) t" by force
  then obtain x where x: "x \<in> set (rc_sent s)" "se_call x = sm_call t" and free: "sm_call t \<notin> pe_call ` snd ` set (rc_pending s)"
    and m: "se_method x \<noteq> ''sendrawtransaction''" by (auto simp: stream_fits_def)
  show ?thesis
  proof (cases "jget (rc_calls s) (sm_call t)")
    case None
    then have "sm_call t \<notin> set (rc_waiters s)" using booksD(7) [OF b] by auto
    with None free show ?thesis by (simp add: settle_ok_def idle_call_def not_owned_def)
  next
    case (Some a)
    from booksD(9) [OF b] x Some have "ca_sent a" "\<not> risky a" using m by (auto simp: sent_fits_def risky_def)
    moreover have "ca_at a \<noteq> Granted" "ca_at a \<noteq> Waiting" using books_call [OF b Some] \<open>ca_sent a\<close> by (auto simp: call_fits_def)
    moreover have "sm_call t \<notin> set (rc_waiters s)" using booksD(7) [OF b] Some \<open>ca_at a \<noteq> Waiting\<close> by auto
    ultimately show ?thesis using Some free by (simp add: settle_ok_def idle_call_def not_owned_def)
  qed
qed

lemma waiter_settle_ok:
  assumes "rpc_inv s" and "i \<in> set (rc_waiters s)" and "i \<notin> set W"
  shows "settle_ok (s\<lparr>rc_waiters := W\<rparr>) i outcome"
  using assms by (auto elim!: waiter_call simp: settle_ok_def idle_call_def not_owned_def risky_def)

lemma failAll_inv:
  assumes "rpc_inv s"
  shows "rpc_inv (failAll e which s)"
proof -
  let ?lose = "\<lambda>x. call_settles (pe_call (snd x)) (Inl (lossError (pe_method (snd x)) True e))"
  let ?stop = "\<lambda>x. call_settles (sm_call (snd x)) (Inl (lossError (sm_method (snd x)) True e))"
  let ?P = "\<lambda>x. on_socket which (pe_socket (snd x))" and ?S = "\<lambda>x. on_socket which (sm_socket (snd x))"
  define s1 where "s1 = s\<lparr>rc_pending := filter (\<lambda>x. \<not> ?P x) (rc_pending s)\<rparr>"
  define s2 where "s2 = fold ?lose (filter ?P (rc_pending s)) s1"
  define s3 where "s3 = s2\<lparr>rc_streams := filter (\<lambda>x. \<not> ?S x) (rc_streams s2)\<rparr>"
  define s4 where "s4 = fold ?stop (filter ?S (rc_streams s2)) s3"
  let ?W = "\<lambda>i. on_socket which (call_socket i s4)"
  define s5 where "s5 = s4\<lparr>rc_waiters := filter (\<lambda>i. \<not> ?W i) (rc_waiters s4)\<rparr>"
  have s1: "rpc_inv s1" unfolding s1_def by (rule filter_inv(1) [OF assms])
  have s2: "rpc_inv s2" unfolding s2_def
    by (rule settle_all_inv [OF s1]) (auto simp: s1_def honest_def lossError_def intro!: pending_settle_ok [OF assms])
  have s3: "rpc_inv s3" unfolding s3_def by (rule filter_inv(2) [OF s2])
  have "settle_ok s3 (sm_call (snd x)) outcome" if "x \<in> set (rc_streams s2)" for x outcome
    using stream_settle_ok [OF s2, of "fst x" "snd x" outcome] that by (simp add: s3_def settle_ok_def idle_call_def)
  then have s4: "rpc_inv s4" unfolding s4_def by (intro settle_all_inv [OF s3]) auto
  have s5: "rpc_inv s5" unfolding s5_def using booksD(6) [OF invD(1) [OF s4]] by (intro waiters_inv [OF s4]) auto
  have "rpc_inv (fold (\<lambda>i. call_settles i (Inl e)) (filter ?W (rc_waiters s4)) s5)"
    by (rule settle_all_inv [OF s5]) (auto simp: s5_def intro!: waiter_settle_ok [OF s4])
  moreover have "failAll e which s = drainCapacity (fold (\<lambda>i. call_settles i (Inl e)) (filter ?W (rc_waiters s4)) s5)"
    by (simp only: failAll_def Let_def case_prod_unfold s1_def s2_def s3_def s4_def s5_def)
  ultimately show ?thesis by (simp only: drain_inv)
qed

lemma socket_inv [simp]: "rpc_inv (socket_update n f s) = rpc_inv s" "rpc_inv (socket_destroy n s) = rpc_inv s"
  by (simp_all add: socket_update_def socket_destroy_def)

lemma told_inv [simp]: "rpc_inv (told t s) = rpc_inv s"
  by (simp add: told_def)

lemma publish_inv [simp]: "rpc_inv (publishDisconnection n s) = rpc_inv s"
  by (simp add: publishDisconnection_def)

lemma fail_socket_inv: "rpc_inv s \<Longrightarrow> rpc_inv (fail_socket e n s)"
  by (simp add: fail_socket_def failAll_inv)

lemma connect_inv: "rpc_connect s = (r, s') \<Longrightarrow> rpc_inv s' = rpc_inv s"
  by (auto simp: rpc_connect_def connect_shared_def Let_def split: if_splits option.splits)

lemma quota_inv: "quotaWait c now m p r s = (x, s') \<Longrightarrow> rpc_inv s' = rpc_inv s"
  by (auto simp: quotaWait_def Let_def split: if_splits)

lemma socket_events_inv:
  "rpc_inv s \<Longrightarrow> rpc_inv (socket_connected n s)" "rpc_inv s \<Longrightarrow> rpc_inv (socket_error n s)"
  "rpc_inv s \<Longrightarrow> rpc_inv (socket_closed n s)" "rpc_inv s \<Longrightarrow> rpc_inv (connecting_done s)"
  "rpc_inv s \<Longrightarrow> rpc_inv (request_timeout k s)" "rpc_inv s \<Longrightarrow> rpc_inv (resetStreamTimer t s)"
  by (auto simp: socket_connected_def socket_error_def socket_closed_def connecting_done_def request_timeout_def resetStreamTimer_def
    Let_def failAll_inv fail_socket_inv split: option.split)

section \<open>A call before it is written\<close>

lemma unsent_idle:
  assumes "rpc_inv s" and a: "jget (rc_calls s) i = Some a" and "ca_at a \<notin> {InFlight, Waiting}"
  shows "idle_call s i"
proof -
  note b = invD(1) [OF assms(1)]
  have "i \<notin> set (rc_waiters s)" using booksD(7) [OF b] assms by auto
  moreover have "i \<notin> pe_call ` snd ` set (rc_pending s)" using booksD(4) [OF b] assms by (fastforce simp: pending_fits_def)
  ultimately show ?thesis by (simp add: idle_call_def not_owned_def)
qed

lemma early_settles_inv:
  assumes "rpc_inv s" and a: "jget (rc_calls s) i = Some a" and "ca_at a \<in> {Pacing, Repacing} \<or> (\<exists>n. ca_at a = Connecting n)"
  shows "rpc_inv (call_settles i outcome s)"
  using assms unsent_idle [OF assms(1) a] books_call [OF invD(1) [OF assms(1)] a]
  by (intro call_settles_inv) (auto simp: call_fits_def risky_def)

lemma wait_inv:
  assumes "rpc_inv s" and a: "jget (rc_calls s) i = Some a" and "ca_at a = Repacing \<or> (\<exists>n. ca_at a = Connecting n)"
  shows "rpc_inv (waitForCapacity i s)"
proof -
  note inv = invD [OF assms(1)]
  have "\<not> ca_sent a" using books_call [OF inv(1) a] assms(3) by (auto simp: call_fits_def)
  moreover have "idle_call s i" using assms by (intro unsent_idle [OF assms(1) a]) auto
  ultimately have "books_ok (jset (rc_calls s) i (a\<lparr>ca_at := Waiting\<rparr>)) (rc_pending s) (rc_streams s) (rc_waiters s @ [i]) (rc_sent s) (rc_settled s)"
    unfolding idle_call_def by (intro books_wait [OF inv(1) a]) simp_all
  moreover have "granted_calls (jset (rc_calls s) i (a\<lparr>ca_at := Waiting\<rparr>)) = granted_calls (rc_calls s)"
    using assms(3) by (intro granted_change [OF inv(6) a]) auto
  ultimately show ?thesis using inv a unfolding waitForCapacity_def
    by (intro drain_inv) (simp add: call_goes_def rpc_inv_def rpc_ok_def slots_ok_def length_jset_same [OF a])
qed

lemma goes_inv:
  assumes "rpc_inv s" and a: "jget (rc_calls s) i = Some a" and "ca_at a = Pacing"
  shows "rpc_inv (call_goes i (Connecting n) s)"
proof -
  have "call_fits (a\<lparr>ca_at := Connecting n\<rparr>)" using books_call [OF invD(1) [OF assms(1)] a] assms(3) by (simp add: call_fits_def)
  from call_change_inv [OF assms(1) a unsent_idle [OF assms(1) a] this] assms show ?thesis by (simp add: call_goes_def)
qed

lemma request_inv:
  assumes "rpc_inv s"
  shows "rpc_inv (rpc_request i m params callback badFence aborted s)"
proof (cases "jhas (rc_calls s) i \<or> i \<in> fst ` set (rc_settled s)")
  case False
  note inv = invD [OF assms]
  from False have i: "jget (rc_calls s) i = None" "i \<notin> fst ` set (rc_settled s)" by (simp_all add: jhas_def)
  have refuse: "rpc_inv (s\<lparr>rc_settled := rc_settled s @ [(i, Inl e, True)]\<rparr>)" for e
    using books_refuse [OF inv(1) i] inv by (simp add: rpc_inv_def rpc_ok_def slots_ok_def)
  let ?a = "\<lambda>clean. \<lparr>ca_method = m, ca_params = clean, ca_streaming = callback, ca_aborted = False, ca_socket = 0,
      ca_sent = False, ca_at = Pacing\<rparr>"
  have "rpc_inv (s\<lparr>rc_queued := rc_queued s + 1, rc_calls := jset (rc_calls s) i (?a clean)\<rparr>)"
    if "(m = ''getblockbounties'') = callback" "rc_queued s < 32" for clean
  proof -
    have "call_fits (?a clean)" using that(1) by (auto simp: call_fits_def)
    from books_new [OF inv(1) i this] granted_new [OF i(1), of "?a clean"] inv that(2) i(1) show ?thesis
      by (simp add: rpc_inv_def rpc_ok_def slots_ok_def length_jset jhas_def)
  qed
  then show ?thesis using refuse False by (simp add: rpc_request_def Let_def split: sum.split)
qed (simp add: rpc_request_def assms)

lemma quota_calls: "quotaWait c now m p r s = (x, s') \<Longrightarrow> rc_calls s' = rc_calls s"
  by (auto simp: quotaWait_def Let_def split: if_splits)

lemma connect_calls: "rpc_connect s = (r, s') \<Longrightarrow> rc_calls s' = rc_calls s"
  by (auto simp: rpc_connect_def connect_shared_def publishDisconnection_def told_def Let_def split: if_splits option.splits)

lemma pace_inv:
  assumes "rpc_inv s"
  shows "rpc_inv (pace_turn c now i s)"
proof (cases "jget (rc_calls s) i")
  case (Some a)
  show ?thesis
  proof (cases "ca_at a \<in> {Pacing, Repacing}")
    case True
    obtain x s1 where q: "quotaWait c now (ca_method a) (ca_params a) False s = (x, s1)" by fastforce
    obtain y s2 where n: "rpc_connect s1 = (y, s2)" by fastforce
    have s1: "rpc_inv s1" and s2: "rpc_inv s2" using assms quota_inv [OF q] connect_inv [OF n] by simp_all
    have a: "jget (rc_calls s1) i = Some a" "jget (rc_calls s2) i = Some a"
      using Some quota_calls [OF q] connect_calls [OF n] by simp_all
    have "rpc_inv (call_settles i o' s)" "rpc_inv (call_settles i o' s1)" "rpc_inv (call_settles i o' s2)" for o'
      using early_settles_inv [OF assms Some] early_settles_inv [OF s1 a(1)] early_settles_inv [OF s2 a(2)] True by auto
    moreover have "rpc_inv (waitForCapacity i s1)" if "ca_at a = Repacing" using wait_inv [OF s1 a(1)] that by simp
    moreover have "rpc_inv (call_goes i (Connecting k) s2)" if "ca_at a \<noteq> Repacing" for k
      using goes_inv [OF s2 a(2)] True that by simp
    ultimately show ?thesis using Some True s1 by (simp add: pace_turn_def q n split: sum.split)
  qed (simp add: pace_turn_def Some assms)
qed (simp add: pace_turn_def assms)

lemma connect_settled_inv:
  assumes "rpc_inv s"
  shows "rpc_inv (connect_settled i s)"
proof (cases "jget (rc_calls s) i")
  case (Some a)
  have "rpc_inv (waitForCapacity i (s\<lparr>rc_calls := jset (rc_calls s) i (a\<lparr>ca_socket := n\<rparr>)\<rparr>))" if "ca_at a = Connecting n" for n
  proof -
    have "call_fits (a\<lparr>ca_socket := n\<rparr>)" using books_call [OF invD(1) [OF assms] Some] that by (simp add: call_fits_def)
    from call_change_inv [OF assms Some unsent_idle [OF assms Some] this] that show ?thesis
      by (intro wait_inv [where a = "a\<lparr>ca_socket := n\<rparr>"]) simp_all
  qed
  then show ?thesis using assms Some early_settles_inv [OF assms Some]
    by (auto simp: connect_settled_def split: call_at.split option.split sum.split)
qed (simp add: connect_settled_def assms)

lemma ends_inv:
  assumes "rpc_inv s"
  shows "rpc_inv (call_ends i s)"
proof (cases "jget (rc_calls s) i")
  case (Some a)
  note inv = invD [OF assms]
  have "Suc (length (jdelete (rc_calls s) i)) = length (rc_calls s)"
    using inv(6) Some by (intro length_jdelete) (simp_all add: jhas_def)
  then have len: "length (jdelete (rc_calls s) i) = length (rc_calls s) - 1" by arith
  have "rpc_inv (s\<lparr>rc_calls := jdelete (rc_calls s) i, rc_queued := rc_queued s - 1,
      rc_settled := rc_settled s @ [(i, outcome, not_sent (ca_sent a) outcome)]\<rparr>)" if "ca_at a = Ending outcome" for outcome
    using books_ends [OF inv(1) Some that] granted_delete [OF Some _ inv(6)] that inv len
    by (simp add: rpc_inv_def rpc_ok_def slots_ok_def)
  then show ?thesis using assms Some by (simp add: call_ends_def split: call_at.split)
qed (simp add: call_ends_def assms)

section \<open>A call that holds a slot\<close>

lemma leave_slot:
  assumes "rpc_inv s" and a: "jget (rc_calls s) i = Some a" and "ca_at a = Granted" and "ca_at a' \<noteq> Granted" and "call_fits a'"
    and "ca_sent a' = ca_sent a" "ca_method a' = ca_method a"
  shows "rpc_inv (releaseCapacity (s\<lparr>rc_calls := jset (rc_calls s) i a'\<rparr>))"
proof (rule release_inv)
  note inv = invD [OF assms(1)]
  have "idle_call s i" using assms(3) by (intro unsent_idle [OF assms(1) a]) simp
  then have "books_ok (jset (rc_calls s) i a') (rc_pending s) (rc_streams s) (rc_waiters s) (rc_sent s) (rc_settled s)"
    unfolding idle_call_def by (rule books_change [OF inv(1) a assms(5-7)])
  then show "rpc_ok (s\<lparr>rc_calls := jset (rc_calls s) i a'\<rparr>)" using inv by (simp add: rpc_ok_def length_jset_same [OF a])
  show "rc_reserved (s\<lparr>rc_calls := jset (rc_calls s) i a'\<rparr>) = granted_calls (rc_calls (s\<lparr>rc_calls := jset (rc_calls s) i a'\<rparr>)) + 1"
    using granted_jset [OF inv(6) a, of a'] assms(3,4) inv(4) by simp
  show "used_slots (s\<lparr>rc_calls := jset (rc_calls s) i a'\<rparr>) \<le> 13" using inv(5) by simp
qed

lemma give_up_inv:
  assumes "rpc_inv s" and a: "jget (rc_calls s) i = Some a" and "ca_at a = Granted"
  shows "rpc_inv (give_up i e s)" and "rpc_inv (releaseCapacity (call_goes i Repacing s))"
proof -
  have "\<not> ca_sent a" using books_call [OF invD(1) [OF assms(1)] a] assms(3) by (simp add: call_fits_def)
  then have fits: "call_fits (a\<lparr>ca_at := Ending (Inl e)\<rparr>)" "call_fits (a\<lparr>ca_at := Repacing\<rparr>)"
    using books_call [OF invD(1) [OF assms(1)] a] by (simp_all add: call_fits_def risky_def)
  show "rpc_inv (give_up i e s)" using leave_slot [OF assms _ fits(1)] a assms(3) by (simp add: give_up_def call_settles_def)
  show "rpc_inv (releaseCapacity (call_goes i Repacing s))" using leave_slot [OF assms _ fits(2)] a by (simp add: call_goes_def)
qed

lemma send_inv:
  assumes "rpc_inv s" and a: "jget (rc_calls s) i = Some a" and "ca_at a = Granted"
  shows "rpc_inv (rpc_send i now a request x s)"
proof -
  note inv = invD [OF assms(1)]
  let ?p = "\<lparr>pe_call = i, pe_method = ca_method a, pe_socket = ca_socket a, pe_streaming = ca_streaming a\<rparr>"
  let ?x = "\<lparr>se_call = i, se_request = request, se_method = ca_method a, se_key = quota_key (ca_method a) (ca_params a), se_time = now\<rparr>"
  define s1 where "s1 = s\<lparr>rc_pending := jset (rc_pending s) request ?p,
      rc_calls := jset (rc_calls s) i (a\<lparr>ca_at := InFlight, ca_sent := True\<rparr>), rc_sent := rc_sent s @ [?x]\<rparr>"
  have "rpc_ok s1" using books_send [OF inv(1) a assms(3), of ?p ?x request] inv
    by (simp add: rpc_ok_def s1_def length_jset_same [OF a])
  moreover have "rc_reserved s1 = granted_calls (rc_calls s1) + 1"
    using granted_jset [OF inv(6) a, of "a\<lparr>ca_at := InFlight, ca_sent := True\<rparr>"] assms(3) inv(4) by (simp add: s1_def)
  moreover have "used_slots s1 \<le> 13" using inv(5) by (simp add: s1_def used_slots_def length_jset)
  ultimately have "rpc_inv (releaseCapacity s1)" by (rule release_inv)
  then show ?thesis by (simp add: rpc_send_def Let_def s1_def failAll_inv)
qed

text \<open>The fence runs caller code, but the call keeps its slot.\<close>

lemma call_settles_other: "k \<noteq> i \<Longrightarrow> jget (rc_calls (call_settles i outcome s)) k = jget (rc_calls s) k"
  by (simp add: call_settles_def split: option.split call_at.split)

lemma drain_loop_other: "k \<notin> set W \<Longrightarrow> jget (rc_calls (drain_loop W s)) k = jget (rc_calls s) k"
proof (induction W arbitrary: s)
  case (Cons i W)
  have "jget (rc_calls (call_goes i Granted s)) k = jget (rc_calls s) k" for s
    using Cons.prems by (simp add: call_goes_def split: option.split)
  with Cons show ?case by (simp add: call_settles_other)
qed simp

lemma settle_all_other:
  "k \<notin> f ` set L \<Longrightarrow> jget (rc_calls (fold (\<lambda>x. call_settles (f x) (g x)) L s)) k = jget (rc_calls s) k"
  by (induction L arbitrary: s) (simp_all add: call_settles_other)

lemma failAll_other:
  assumes "k \<notin> set (rc_waiters s)" and "k \<notin> pe_call ` snd ` set (rc_pending s)" and "k \<notin> sm_call ` snd ` set (rc_streams s)"
  shows "jget (rc_calls (failAll e which s)) k = jget (rc_calls s) k"
proof -
  have L: "k \<notin> (\<lambda>x. pe_call (snd x)) ` set (filter Q (rc_pending s))"
    "k \<notin> (\<lambda>x. sm_call (snd x)) ` set (filter R (rc_streams s))"
    "k \<notin> (\<lambda>i. i) ` set (filter V (rc_waiters s))" "k \<notin> set (filter V (rc_waiters s))" for Q R V
    using assms by auto
  show ?thesis unfolding failAll_def Let_def case_prod_unfold
    by (simp add: drainCapacity_def drain_loop_other settle_all_other L del: set_filter)
qed

lemma granted_aloof:
  assumes "rpc_inv s" and a: "jget (rc_calls s) i = Some a" and "ca_at a = Granted"
  shows "i \<notin> set (rc_waiters s)" and "i \<notin> pe_call ` snd ` set (rc_pending s)" and "i \<notin> sm_call ` snd ` set (rc_streams s)"
proof -
  note b = invD(1) [OF assms(1)]
  from unsent_idle [OF assms(1) a] assms(3) show "i \<notin> set (rc_waiters s)" "i \<notin> pe_call ` snd ` set (rc_pending s)"
    by (simp_all add: idle_call_def not_owned_def)
  have "\<not> ca_sent a" using books_call [OF b a] assms(3) by (simp add: call_fits_def)
  then have "i \<notin> sent_calls (rc_sent s)" using booksD(9) [OF b] a by (auto simp: sent_calls_def sent_fits_def)
  then show "i \<notin> sm_call ` snd ` set (rc_streams s)" using booksD(5) [OF b] by (force simp: stream_fits_def sent_calls_def)
qed

lemma abort_inv:
  assumes "rpc_inv s"
  shows "rpc_inv (call_abort i s)"
proof (cases "jget (rc_calls s) i")
  case (Some a)
  let ?a = "a\<lparr>ca_aborted := True\<rparr>"
  let ?s = "s\<lparr>rc_calls := jset (rc_calls s) i ?a\<rparr>"
  note inv = invD [OF assms]
  have "books_ok (jset (rc_calls s) i ?a) (rc_pending s) (rc_streams s) (rc_waiters s) (rc_sent s) (rc_settled s)"
    by (rule books_touch [OF inv(1) Some]) simp_all
  then have s: "rpc_inv ?s" using inv granted_change [OF inv(6) Some, of ?a]
    by (simp add: rpc_inv_def rpc_ok_def slots_ok_def length_jset_same [OF Some])
  have early: "rpc_inv (call_settles i o' ?s)" if "ca_at a \<in> {Pacing, Repacing} \<or> (\<exists>n. ca_at a = Connecting n)" for o'
    using that by (intro early_settles_inv [OF s, where a = ?a]) simp_all
  let ?W = "filter (\<lambda>k. k \<noteq> i) (rc_waiters s)"
  have "rpc_inv (call_settles i o' (?s\<lparr>rc_waiters := ?W\<rparr>))" if w: "ca_at a = Waiting" for o'
  proof (rule call_settles_inv)
    show "rpc_inv (?s\<lparr>rc_waiters := ?W\<rparr>)" using booksD(6) [OF inv(1)] by (intro waiters_inv [OF s]) auto
    have "i \<notin> pe_call ` snd ` set (rc_pending s)" using booksD(4) [OF inv(1)] Some w by (fastforce simp: pending_fits_def)
    then show "idle_call (?s\<lparr>rc_waiters := ?W\<rparr>) i" by (simp add: idle_call_def not_owned_def)
    show "ca_at b \<noteq> Granted \<and> (risky b \<longrightarrow> honest o')" if "jget (rc_calls (?s\<lparr>rc_waiters := ?W\<rparr>)) i = Some b" for b
      using that w books_call [OF inv(1) Some] by (auto simp: risky_def call_fits_def)
  qed
  then show ?thesis using Some s early by (auto simp: call_abort_def Let_def intro: drain_inv split: call_at.split)
qed (simp add: call_abort_def assms)

lemma close_inv:
  assumes "rpc_inv s"
  shows "rpc_inv (rpc_close s)"
proof -
  note inv = invD [OF assms]
  have "granted_calls (map (\<lambda>(i, a). (i, cancel_waiting a)) C) = granted_calls C" for C
    by (induction C) (auto simp: granted_calls_def)
  then have "rpc_inv (s\<lparr>rc_closed := True, rc_calls := map (\<lambda>(i, a). (i, cancel_waiting a)) (rc_calls s), rc_waiters := []\<rparr>)"
    using books_cancel [OF inv(1)] inv by (simp add: rpc_inv_def rpc_ok_def slots_ok_def)
  from failAll_inv [OF this] show ?thesis by (auto simp: rpc_close_def Let_def split: option.split)
qed

lemma abort_keeps: "jget (rc_calls s) i = Some a \<Longrightarrow> ca_at a = Granted \<Longrightarrow> \<exists>b. jget (rc_calls (call_abort i s)) i = Some b \<and> ca_at b = Granted"
  by (simp add: call_abort_def Let_def)

lemma close_keeps:
  assumes "rpc_inv s" and a: "jget (rc_calls s) i = Some a" and "ca_at a = Granted"
  shows "\<exists>b. jget (rc_calls (rpc_close s)) i = Some b \<and> ca_at b = Granted"
proof -
  let ?C = "map (\<lambda>(i, a). (i, cancel_waiting a)) (rc_calls s)"
  let ?s = "s\<lparr>rc_closed := True, rc_calls := ?C, rc_waiters := []\<rparr>"
  have "jget ?C i = Some (cancel_waiting a)" by (simp add: map_of_map a)
  moreover have "jget (rc_calls (failAll RpcClientClosed None ?s)) i = jget ?C i"
    using granted_aloof [OF assms] by (subst failAll_other) simp_all
  moreover have "rc_calls (rpc_close s) = rc_calls (failAll RpcClientClosed None ?s)"
    by (simp add: rpc_close_def Let_def socket_destroy_def socket_update_def split: option.split)
  ultimately show ?thesis using assms(3) by simp
qed

lemma fence_inv:
  assumes "rpc_inv s" and "jget (rc_calls s) i = Some a" and "ca_at a = Granted"
  shows "rpc_inv (run_fence i x s) \<and> (\<exists>b. jget (rc_calls (run_fence i x s)) i = Some b \<and> ca_at b = Granted)"
proof -
  obtain b where "rpc_inv (call_abort i s)" "jget (rc_calls (call_abort i s)) i = Some b" "ca_at b = Granted"
    using abort_inv [OF assms(1)] abort_keeps [OF assms(2,3)] by blast
  then show ?thesis using assms close_inv close_keeps [OF assms] close_keeps by (simp add: run_fence_def Let_def)
qed

lemma after_fence_inv:
  assumes "rpc_inv s" and a: "jget (rc_calls s) i = Some a" and "ca_at a = Granted"
  shows "rpc_inv (after_fence c i now request x s)"
proof -
  obtain y s1 where q: "quotaWait c now (ca_method a) (ca_params a) True s = (y, s1)" by fastforce
  have s1: "rpc_inv s1" "jget (rc_calls s1) i = Some a" using assms quota_inv [OF q] quota_calls [OF q] by simp_all
  show ?thesis using give_up_inv [OF assms] give_up_inv [OF s1 assms(3)] send_inv [OF s1 assms(3)] a
    by (simp add: after_fence_def q split: sum.split)
qed

lemma granted_inv:
  assumes "rpc_inv s"
  shows "rpc_inv (call_granted c i now x s)"
proof (cases "jget (rc_calls s) i")
  case (Some a)
  show ?thesis
  proof (cases "ca_at a = Granted")
    case True
    obtain y s1 where q: "quotaWait c now (ca_method a) (ca_params a) False s = (y, s1)" by fastforce
    define s2 where "s2 = s1\<lparr>rc_nextId := rc_nextId s1 + 1\<rparr>"
    have s1: "rpc_inv s1" "jget (rc_calls s1) i = Some a" using assms Some quota_inv [OF q] quota_calls [OF q] by simp_all
    then have s2: "rpc_inv s2" "jget (rc_calls s2) i = Some a" by (simp_all add: s2_def)
    from fence_inv [OF s2 True] obtain b where s3: "rpc_inv (run_fence i x s2)" "jget (rc_calls (run_fence i x s2)) i = Some b"
      and b: "ca_at b = Granted" by blast
    show ?thesis using give_up_inv [OF assms Some True] give_up_inv [OF s1 True] give_up_inv [OF s2 True] give_up_inv [OF s3 b]
      after_fence_inv [OF s3 b] Some True by (simp add: call_granted_def q Let_def s2_def split: sum.split fence.split)
  qed (simp add: call_granted_def Some assms)
qed (simp add: call_granted_def assms)

section \<open>What arrives\<close>

lemma cooldown_inv [simp]: "rpc_inv (note_cooldown c now m code retry s) = rpc_inv s"
  "rc_pending (note_cooldown c now m code retry s) = rc_pending s"
  by (simp_all add: note_cooldown_def raise_cooldown_def)

lemma reply_settles:
  assumes "rpc_inv s" and p: "jget (rc_pending s) request = Some p" and "pe_method p = ''sendrawtransaction'' \<longrightarrow> honest outcome"
  shows "rpc_inv (drainCapacity (call_settles (pe_call p) outcome (s\<lparr>rc_pending := jdelete (rc_pending s) request\<rparr>)))"
  using filter_inv(1) [OF assms(1)] pending_settle_ok [OF assms(1) jget_in_set [OF p] _ assms(3)]
  by (auto simp: jdelete_def intro!: drain_inv settle_ok_inv)

lemma receive_error_inv:
  assumes "rpc_inv s" and p: "jget (rc_pending s) request = Some p"
  shows "rpc_inv (fst (receive_error c now request p e s))"
  using reply_settles [of "note_cooldown c now (pe_method p) code (retry_after data) s" request p for code data] assms
  by (simp add: receive_error_def Let_def honest_def split: option.split)

lemma receive_stream_inv:
  assumes "rpc_inv s" and p: "jget (rc_pending s) request = Some p" and "pe_streaming p"
  shows "rpc_inv (fst (receive_stream request p answer s))"
proof -
  note inv = invD [OF assms(1)]
  let ?P = "jdelete (rc_pending s) request"
  let ?t = "\<lparr>sm_call = pe_call p, sm_method = pe_method p, sm_socket = pe_socket p,
      sm_next = 0, sm_records = 0, sm_bytes = 0, sm_phase = PhaseSnapshot, sm_abandoned = False\<rparr>"
  have mem: "(request, p) \<in> set (rc_pending s)" by (rule jget_in_set [OF p])
  then have fits: "pending_fits (rc_calls s) (rc_sent s) p" using booksD(4) [OF inv(1)] by force
  have "pe_call p \<notin> pe_call ` snd ` set ?P"
    using filter_pending_free(1) [OF inv(1) mem] by (simp add: not_owned_def jdelete_def)
  moreover have "\<exists>x\<in>set (rc_sent s). se_call x = pe_call p \<and> se_method x \<noteq> ''sendrawtransaction''"
    using fits booksD(9) [OF inv(1)] assms(3) by (fastforce simp: pending_fits_def sent_calls_def sent_fits_def)
  ultimately have "stream_fits ?P (rc_sent s) ?t" using fits assms(3) by (simp add: stream_fits_def pending_fits_def)
  then have "books_ok (rc_calls s) ?P (jset (rc_streams s) k ?t) (rc_waiters s) (rc_sent s) (rc_settled s)" for k
    using books_filter_pending [OF inv(1)] by (intro books_set_stream) (simp_all add: jdelete_def)
  moreover have "length ?P < length (rc_pending s)" using mem unfolding jdelete_def by (intro length_filter_less) auto
  ultimately have "rpc_inv (s\<lparr>rc_pending := ?P, rc_streams := jset (rc_streams s) k ?t\<rparr>)" for k
    using inv by (auto simp: rpc_inv_def rpc_ok_def slots_ok_def used_slots_def length_jset)
  then show ?thesis using assms(1) by (auto simp: receive_stream_def intro: drain_inv split: js_value.split)
qed

lemma receive_reply_inv:
  assumes "rpc_inv s"
  shows "rpc_inv (fst (receive_reply c now message n s))"
proof -
  have "rpc_inv (fst (receive_answer request p answer s))" if "jget (rc_pending s) request = Some p" for request p answer
    using reply_settles [OF assms that, of "Inr answer"] by (simp add: receive_answer_def honest_def)
  then show ?thesis using assms receive_error_inv receive_stream_inv by (simp add: receive_reply_def split: option.split)
qed

lemma set_stream_inv:
  assumes "rpc_inv s" and t: "jget (rc_streams s) k = Some t" and "sm_call t' = sm_call t" "sm_method t' = sm_method t"
  shows "rpc_inv (s\<lparr>rc_streams := jset (rc_streams s) k t'\<rparr>)"
proof -
  note inv = invD [OF assms(1)]
  have "stream_fits (rc_pending s) (rc_sent s) t" using booksD(5) [OF inv(1)] jget_in_set [OF t] by force
  then have "stream_fits (rc_pending s) (rc_sent s) t'" using assms(3,4) by (simp add: stream_fits_def)
  from books_set_stream [OF inv(1) this] inv t show ?thesis
    by (simp add: rpc_inv_def rpc_ok_def slots_ok_def used_slots_def length_jset jhas_def)
qed

lemma stream_end_inv:
  assumes "rpc_inv s" and t: "jget (rc_streams s) k = Some t"
  shows "rpc_inv (stream_end k params n t s)"
proof -
  have "settle_ok s (sm_call t) o'" for o' by (rule stream_settle_ok [OF assms(1) jget_in_set [OF t]])
  then have "settle_ok (s\<lparr>rc_streams := jdelete (rc_streams s) k\<rparr>) (sm_call t) o'" for o' by (simp add: settle_ok_def idle_call_def)
  moreover have "rpc_inv (s\<lparr>rc_streams := jdelete (rc_streams s) k\<rparr>)" unfolding jdelete_def by (rule filter_inv(2) [OF assms(1)])
  ultimately show ?thesis using failAll_inv [OF assms(1)] by (auto simp: stream_end_def intro: drain_inv settle_ok_inv)
qed

lemma stream_chunk_inv:
  assumes "rpc_inv s" and t: "jget (rc_streams s) k = Some t"
  shows "rpc_inv (fst (stream_chunk consume k params bs t s))"
proof -
  have set: "rpc_inv ((told m s)\<lparr>rc_streams := jset (rc_streams (told m s)) k t'\<rparr>)" "rpc_inv (s\<lparr>rc_streams := jset (rc_streams s) k t'\<rparr>)"
    if "sm_call t' = sm_call t" "sm_method t' = sm_method t" for t' m
    using set_stream_inv [of "told m s" k t t'] set_stream_inv [OF assms that] assms that by (simp_all add: told_def)
  have "settle_ok s (sm_call t) o'" for o' by (rule stream_settle_ok [OF assms(1) jget_in_set [OF t]])
  then have "settle_ok ((told m s)\<lparr>rc_streams := S\<rparr>) (sm_call t) o'" for S o' m by (simp add: settle_ok_def idle_call_def told_def)
  with set show ?thesis using assms(1)
    by (simp add: stream_chunk_def Let_def settle_ok_inv split: option.split chunk_answer.split)
qed

lemma receive_inv: "rpc_inv s \<Longrightarrow> rpc_inv (fst (receive c now consume message n bs s))"
  by (simp add: receive_def receive_stream_message_def Let_def receive_reply_inv stream_end_inv stream_chunk_inv
    split: js_value.split option.split)

lemma data_lines_inv: "rpc_inv s \<Longrightarrow> rpc_inv (snd (fst (data_lines c now consume parse n buffer s)))"
proof (induction c now consume parse n buffer s rule: data_lines.induct)
  case (1 c now consume parse n buffer s)
  have "rpc_inv (fst (receive c now consume message n bs s))" for message bs using receive_inv [OF "1.prems"] .
  then have got: "rpc_inv s'" if "receive c now consume message n bs s = (s', ok)" for message bs s' ok by (metis that fst_conv)
  have rest: "rpc_inv (snd (fst (data_lines c now consume parse n (tl (dropWhile (\<lambda>b. b \<noteq> 10) buffer)) s')))"
    if "10 \<in> set buffer" "\<not> (takeWhile (\<lambda>b. b \<noteq> 10) buffer = [] \<or> length (takeWhile (\<lambda>b. b \<noteq> 10) buffer) > MAX_FRAME)"
      "parse (takeWhile (\<lambda>b. b \<noteq> 10) buffer) = Some message"
      "receive c now consume message n (length (takeWhile (\<lambda>b. b \<noteq> 10) buffer)) s = (s', True)" for message s'
    using "1.IH" [OF _ refl refl that(2,3) that(4) [symmetric] TrueI got [OF that(4)]] that(1) by simp
  show ?case using "1.prems" rest got by (subst data_lines.simps) (simp add: Let_def split: option.split prod.split)
qed

lemma socket_data_inv:
  assumes "rpc_inv s"
  shows "rpc_inv (socket_data c now consume parse n chunk s)"
proof -
  have "rpc_inv s'" if "data_lines c now consume parse n buffer s = ((buffer', s'), ok)" for buffer buffer' s' ok
    using data_lines_inv [OF assms, of c now consume parse n buffer] that by simp
  then show ?thesis using assms by (simp add: socket_data_def Let_def fail_socket_inv split: prod.split)
qed

lemma step_inv: "rpc_inv s \<Longrightarrow> rpc_inv (rpc_step c parse s e)"
  by (simp add: rpc_step_def request_inv pace_inv connect_settled_inv abort_inv granted_inv ends_inv close_inv socket_events_inv
    socket_data_inv fail_socket_inv split: prod.split rpc_event.split)

lemma run_inv: "rpc_inv (rpc_run c parse rpc_new es)"
proof (induction es rule: rev_induct)
  case Nil
  show ?case by (simp add: rpc_run_def rpc_new_inv)
next
  case (snoc e es)
  then show ?case by (simp add: rpc_run_def step_inv)
qed

section \<open>Properties\<close>

text \<open>
  Property C39: the bounds of the client. In every state that any order of events leads to, at most twelve
  requests hold a slot (written, streaming, or about to be written), a reservation belongs to exactly one
  granted call, and at most 32 calls are open.
\<close>

theorem rpc_slots_bounded:
  "let s = rpc_run c parse rpc_new events in
   length (rc_pending s) + length (rc_streams s) + rc_reserved s \<le> 12
   \<and> rc_reserved s = length (filter (\<lambda>e. ca_at (snd e) = Granted) (rc_calls s))
   \<and> rc_queued s = length (rc_calls s) \<and> length (rc_calls s) \<le> 32"
  using invD(2-5) [OF run_inv [of c parse events]] by (simp add: Let_def used_slots_def granted_calls_def)

text \<open>
  Property C38: what callers are told. A call is written at most once and settled at most once; a call that is
  reported as not sent was never written; and a broadcast that was written fails only with an unknown
  outcome or with the answer of the server, so it is never silently repeated.
\<close>

theorem rpc_outcomes_honest:
  "let s = rpc_run c parse rpc_new events in
   distinct (map se_call (rc_sent s)) \<and> distinct (map fst (rc_settled s))
   \<and> (\<forall>(i, outcome, notSent)\<in>set (rc_settled s). jget (rc_calls s) i = None
        \<and> (notSent \<longrightarrow> i \<notin> se_call ` set (rc_sent s))
        \<and> (\<forall>x\<in>set (rc_sent s). se_call x = i \<and> se_method x = ''sendrawtransaction'' \<longrightarrow>
             (case outcome of Inl e \<Rightarrow> e = RpcOutcomeUnknown \<or> (\<exists>code f. e = RpcRefused code f) | Inr _ \<Rightarrow> True)))"
proof -
  define s where "s = rpc_run c parse rpc_new events"
  note b = invD(1) [OF run_inv [of c parse events]]
  have "honest outcome \<Longrightarrow> (case outcome of Inl e \<Rightarrow> e = RpcOutcomeUnknown \<or> (\<exists>code f. e = RpcRefused code f) | Inr _ \<Rightarrow> True)" for outcome
    by (auto simp: honest_def split: sum.split)
  then show ?thesis using booksD(8,10,11,12) [OF b] unfolding s_def [symmetric] Let_def settled_fits_def sent_calls_def
    by (intro conjI) (simp_all, fastforce)
qed

text \<open>
  A broadcast whose connection is lost after the write: the call was sent and ends with an unknown outcome.
\<close>

definition ex_limits :: rpc_limits where
  "ex_limits = \<lparr>li_timeoutMs = 40000, li_quota = 48, li_windowMs = 60000\<rparr>"

definition ex_write :: granted_input where
  "ex_write = \<lparr>gi_fits = True, gi_fence = FenceAbsent, gi_fenceCloses = False, gi_fenceAborts = False, gi_written = True\<rparr>"

definition ex_call :: rpc_call where
  "ex_call = \<lparr>ca_method = ''sendrawtransaction'', ca_params = VObj [(''transaction_hex'', VStr (replicate 20 CHR ''0''))],
     ca_streaming = False, ca_aborted = False, ca_socket = 0, ca_sent = False, ca_at = Pacing\<rparr>"

definition ex_lost :: "(rat \<times> rpc_event) list" where
  "ex_lost = [(0, Requested 0 ''sendrawtransaction'' (ca_params ex_call) False False False),
     (1, SocketConnected 0), (1, ConnectSettled 0), (2, GrantedRuns 0 ex_write), (3, SocketClosed 0), (3, CallEnds 0)]"

lemma ex_text: "rpc_text ''transaction_hex'' (replicate 20 CHR ''0'') = Inr (VStr (replicate 20 CHR ''0''))"
  by (simp add: rpc_text_def is_hex_def Let_def)
lemma ex_param: "rpc_param ''transaction_hex'' (VStr (replicate 20 CHR ''0'')) c = Inr (VStr (replicate 20 CHR ''0''))"
  by (simp add: rpc_param_def ex_text)
lemma ex_valid: "validateRpcParams ''sendrawtransaction'' (ca_params ex_call) = Inr (ca_params ex_call)"
  by (simp add: validateRpcParams_def PARAMS_def ex_call_def ex_param js_prop_def js_own_def del: replicate.simps)

lemma ex_fresh_quota: "rc_history s = [] \<Longrightarrow> rc_cooldowns s = [] \<Longrightarrow> 0 \<le> now \<Longrightarrow>
   quotaWait ex_limits now ''sendrawtransaction'' params False s = (Inr 0, s)
   \<and> quotaWait ex_limits now ''sendrawtransaction'' params True s = (Inr 0, s\<lparr>rc_history := [(''sendrawtransaction'', [now])]\<rparr>)"
  by (simp add: quotaWait_def ex_limits_def cooldown_of_def quota_limit_def quota_key_def jhas_def)
definition ex_1 :: rpc_client where
  "ex_1 = rpc_new\<lparr>rc_queued := 1, rc_calls := [(0, ex_call\<lparr>ca_at := Connecting 0\<rparr>)], rc_sockets := [socket_new], rc_socket := Some 0,
     rc_connecting := Some 0\<rparr>"

lemma ex_request: "rpc_request 0 ''sendrawtransaction'' (ca_params ex_call) False False False rpc_new
   = rpc_new\<lparr>rc_queued := 1, rc_calls := [(0, ex_call)]\<rparr>"
  by (simp add: rpc_request_def ex_valid jhas_def rpc_new_def) (simp add: ex_call_def)

lemma ex_call_simps: "ca_at ex_call = Pacing" "ca_method ex_call = ''sendrawtransaction''" "\<not> ca_aborted ex_call" "\<not> ca_streaming ex_call"
  "ca_socket ex_call = 0" "\<not> ca_sent ex_call"
  by (simp_all add: ex_call_def)

lemma ex_step1: "rpc_step ex_limits parse rpc_new (0, Requested 0 ''sendrawtransaction'' (ca_params ex_call) False False False) = ex_1"
  unfolding rpc_step_def by (simp only: prod.case rpc_event.case ex_request) (simp add: pace_turn_def ex_call_simps call_aborted_def ex_fresh_quota rpc_new_def rpc_connect_def connect_shared_def
    Let_def call_goes_def ex_1_def)

definition ex_2 :: rpc_client where
  "ex_2 = ex_1\<lparr>rc_sockets := [socket_new\<lparr>so_connecting := False, so_connected := True, so_outcome := Some (Inr ())\<rparr>], rc_told := [ToldConnected]\<rparr>"

lemma ex_step2: "rpc_step ex_limits parse ex_1 (1, SocketConnected 0) = ex_2"
  by (simp add: rpc_step_def socket_connected_def ex_1_def ex_2_def rpc_new_def socket_is_def socket_new_def told_def socket_update_def socket_settles_def)

definition ex_3 :: rpc_client where
  "ex_3 = ex_2\<lparr>rc_calls := [(0, ex_call\<lparr>ca_at := Granted\<rparr>)], rc_reserved := 1\<rparr>"

lemma ex_step3: "rpc_step ex_limits parse ex_2 (1, ConnectSettled 0) = ex_3"
proof -
  have "ex_call\<lparr>ca_at := a, ca_socket := 0\<rparr> = ex_call\<lparr>ca_at := a\<rparr>" for a by (simp add: ex_call_def)
  then show ?thesis
  by (simp add: rpc_step_def connect_settled_def ex_1_def ex_2_def ex_3_def rpc_new_def socket_new_def waitForCapacity_def call_goes_def drainCapacity_def
    call_aborted_def call_socket_def socket_gone_def used_slots_def ex_call_simps)
qed

definition ex_sent :: rpc_sent where
  "ex_sent = \<lparr>se_call = 0, se_request = 1, se_method = ''sendrawtransaction'', se_key = ''sendrawtransaction'', se_time = 2\<rparr>"

definition ex_4 :: rpc_client where
  "ex_4 = ex_3\<lparr>rc_calls := [(0, ex_call\<lparr>ca_at := InFlight, ca_sent := True\<rparr>)], rc_reserved := 0, rc_nextId := 1,
     rc_history := [(''sendrawtransaction'', [2])], rc_sent := [ex_sent],
     rc_pending := [(1, \<lparr>pe_call = 0, pe_method = ''sendrawtransaction'', pe_socket = 0, pe_streaming = False\<rparr>)]\<rparr>"

lemma ex_step4: "rpc_step ex_limits parse ex_3 (2, GrantedRuns 0 ex_write) = ex_4"
  by (simp add: rpc_step_def call_granted_def ex_1_def ex_2_def ex_3_def ex_4_def rpc_new_def socket_new_def call_aborted_def socket_gone_def
    ex_call_simps ex_fresh_quota MAX_SAFE_INTEGER_def Let_def ex_write_def run_fence_def after_fence_def rpc_send_def
    releaseCapacity_def drainCapacity_def ex_sent_def quota_key_def)

lemma ex_step5: "\<exists>s5. rpc_step ex_limits parse ex_4 (3, SocketClosed 0) = s5 \<and> rc_sent s5 = [ex_sent] \<and> rc_settled s5 = []
   \<and> rc_calls s5 = [(0, ex_call\<lparr>ca_sent := True, ca_at := Ending (Inl RpcOutcomeUnknown)\<rparr>)]"
  by (simp add: rpc_step_def socket_closed_def ex_1_def ex_2_def ex_3_def ex_4_def rpc_new_def socket_new_def socket_update_def
    failAll_def Let_def on_socket_def lossError_def call_settles_def drainCapacity_def publishDisconnection_def told_def ex_call_simps)

lemma ex_lost_run:
  "\<exists>s. rpc_run ex_limits parse rpc_new ex_lost = s \<and> rc_sent s = [ex_sent] \<and> rc_settled s = [(0, Inl RpcOutcomeUnknown, False)]"
proof -
  from ex_step5 [of parse] obtain s5 where s5: "rpc_step ex_limits parse ex_4 (3, SocketClosed 0) = s5" "rc_sent s5 = [ex_sent]" "rc_settled s5 = []"
    "rc_calls s5 = [(0, ex_call\<lparr>ca_sent := True, ca_at := Ending (Inl RpcOutcomeUnknown)\<rparr>)]" by blast
  have "rpc_run ex_limits parse rpc_new ex_lost = call_ends 0 s5"
    unfolding rpc_run_def ex_lost_def foldl.simps ex_step1 ex_step2 ex_step3 ex_step4 s5(1) by (simp add: rpc_step_def)
  with s5 show ?thesis by (simp add: call_ends_def not_sent_def)
qed

theorem rpc_outcomes_honest_witness:
  "\<exists>s. s = rpc_run ex_limits (\<lambda>_. None) rpc_new ex_lost \<and> rc_sent s = [ex_sent] \<and> rc_settled s = [(0, Inl RpcOutcomeUnknown, False)]
     \<and> jget (rc_calls s) 0 = None"
proof -
  obtain s where s: "rpc_run ex_limits (\<lambda>_. None) rpc_new ex_lost = s" "rc_sent s = [ex_sent]"
    "rc_settled s = [(0, Inl RpcOutcomeUnknown, False)]" using ex_lost_run [of "\<lambda>_. None"] by blast
  then show ?thesis using rpc_outcomes_honest [of ex_limits "\<lambda>_. None" ex_lost] by (simp add: Let_def)
qed

end
