(* ===== verification/Rpc_Quota.thy ===== *)
theory Rpc_Quota
  imports Rpc_Laws
begin

text \<open>
  The quota of the client. The history that \<open>quotaWait\<close> keeps forgets old entries, but at every moment it
  holds exactly the writes of the last window, for every key; so no window holds more writes than the
  server allows.
\<close>

section \<open>Windows\<close>

definition times_of :: "string \<Rightarrow> rpc_sent list \<Rightarrow> rat list" where
  "times_of k X = map se_time (filter (\<lambda>x. se_key x = k) X)"

definition entries_of :: "(string, rat list) jmap \<Rightarrow> string \<Rightarrow> rat list" where
  "entries_of h k = (case jget h k of Some ts \<Rightarrow> ts | None \<Rightarrow> [])"

definition later :: "rpc_limits \<Rightarrow> rat \<Rightarrow> rat list \<Rightarrow> rat list" where
  "later c t ts = filter (\<lambda>u. t - of_int (li_windowMs c) < u) ts"

text \<open>The writes of one key up to the \<open>n\<close>th write, in the window that ends with it.\<close>

definition window_of :: "rpc_limits \<Rightarrow> rpc_sent list \<Rightarrow> nat \<Rightarrow> rpc_sent list" where
  "window_of c X n = filter (\<lambda>y. se_key y = se_key (X ! n) \<and> se_time (X ! n) - of_int (li_windowMs c) < se_time y) (take (Suc n) X)"

definition quota_kept :: "rpc_limits \<Rightarrow> rpc_sent list \<Rightarrow> bool" where
  "quota_kept c X \<longleftrightarrow> (\<forall>n<length X. int (length (window_of c X n)) \<le> quota_limit c (se_method (X ! n)))"

definition quota_ok :: "rpc_limits \<Rightarrow> rat \<Rightarrow> (string, rat list) jmap \<Rightarrow> rpc_sent list \<Rightarrow> bool" where
  "quota_ok c T h X \<longleftrightarrow> wf_jmap h \<and> (\<forall>e\<in>set h. sorted (snd e) \<and> (\<forall>t\<in>set (snd e). t \<le> T))
     \<and> (\<forall>k. later c T (times_of k X) = later c T (entries_of h k)) \<and> quota_kept c X"

lemma later_later: "T \<le> now \<Longrightarrow> later c now (later c T ts) = later c now ts"
  by (auto simp: later_def intro!: filter_cong)

lemma quota_mono:
  assumes "quota_ok c T h X" and "T \<le> now"
  shows "quota_ok c now h X"
proof -
  have "later c now (times_of k X) = later c now (entries_of h k)" for k
    using assms by (metis quota_ok_def later_later)
  then show ?thesis using assms by (fastforce simp: quota_ok_def)
qed

lemma dropWhile_sorted: "sorted ts \<Longrightarrow> dropWhile (\<lambda>t. t \<le> old) ts = filter (\<lambda>t. old < t) ts" for old :: rat
proof (induction ts)
  case (Cons t ts)
  have "filter (\<lambda>u. old < u) ts = ts" if "old < t" using that Cons.prems by (intro filter_True) auto
  with Cons show ?case by auto
qed simp

lemma sorted_le_last: "sorted ts \<Longrightarrow> t \<in> set ts \<Longrightarrow> t \<le> List.last ts" for t :: rat
  by (induction ts) (auto split: if_splits)

text \<open>The pruning of \<open>quotaWait\<close> drops nothing of the window.\<close>

definition prune :: "rpc_limits \<Rightarrow> rat \<Rightarrow> (string, rat list) jmap \<Rightarrow> (string, rat list) jmap" where
  "prune c now h = filter (\<lambda>(_, ts). ts \<noteq> [] \<and> now - of_int (li_windowMs c) < List.last ts) h"

lemma entries_prune:
  assumes "wf_jmap h" and "\<forall>e\<in>set h. sorted (snd e)"
  shows "later c now (entries_of (prune c now h) k) = later c now (entries_of h k)"
proof (cases "jget h k")
  case None
  then have "jget (prune c now h) k = None" by (auto simp: prune_def map_of_eq_None_iff)
  with None show ?thesis by (simp add: entries_of_def)
next
  case (Some ts)
  then have s: "sorted ts" using assms(2) jget_in_set by fastforce
  show ?thesis
  proof (cases "ts \<noteq> [] \<and> now - of_int (li_windowMs c) < List.last ts")
    case True
    then have "(k, ts) \<in> set (prune c now h)" using jget_in_set [OF Some] by (simp add: prune_def)
    then have "jget (prune c now h) k = Some ts" using assms(1) by (intro jget_of_mem) (simp_all add: prune_def)
    with Some show ?thesis by (simp add: entries_of_def)
  next
    case False
    have "jget (prune c now h) k = None"
    proof (rule ccontr)
      assume "jget (prune c now h) k \<noteq> None"
      then obtain us where "(k, us) \<in> set (prune c now h)" by (auto dest: jget_in_set)
      with False jget_of_mem [OF assms(1)] Some show False by (auto simp: prune_def)
    qed
    moreover have "later c now ts = []"
    proof (cases "ts = []")
      case False': False
      have "t \<le> List.last ts" if "t \<in> set ts" for t using sorted_le_last [OF s that] .
      with False False' show ?thesis by (force simp: later_def filter_empty_conv)
    qed (simp add: later_def)
    ultimately show ?thesis using Some by (simp add: entries_of_def later_def)
  qed
qed

lemma quota_pruned:
  assumes "quota_ok c T h X" and "T \<le> now"
  shows "quota_ok c now (prune c now h) X"
proof -
  have now: "quota_ok c now h X" by (rule quota_mono [OF assms])
  then have "wf_jmap h" "\<forall>e\<in>set h. sorted (snd e)" by (simp_all add: quota_ok_def)
  from entries_prune [OF this] now show ?thesis by (auto simp: quota_ok_def prune_def)
qed

definition recent_entries :: "rpc_limits \<Rightarrow> rat \<Rightarrow> (string, rat list) jmap \<Rightarrow> string \<Rightarrow> rat list" where
  "recent_entries c now h k = (case jget (prune c now h) k of Some ts \<Rightarrow> dropWhile (\<lambda>t. t \<le> now - of_int (li_windowMs c)) ts | None \<Rightarrow> [])"

lemma recent_entries:
  assumes "quota_ok c T h X" and "T \<le> now"
  shows "recent_entries c now h k = later c now (times_of k X)"
proof -
  have p: "quota_ok c now (prune c now h) X" by (rule quota_pruned [OF assms])
  have "recent_entries c now h k = later c now (entries_of (prune c now h) k)"
  proof (cases "jget (prune c now h) k")
    case (Some ts)
    then have "sorted ts" using p jget_in_set by (fastforce simp: quota_ok_def)
    with Some show ?thesis by (simp add: recent_entries_def entries_of_def later_def dropWhile_sorted)
  qed (simp add: recent_entries_def entries_of_def later_def)
  then show ?thesis using p by (simp add: quota_ok_def)
qed

lemma quota_set:
  assumes q: "quota_ok c now h X" and ts: "ts = later c now (times_of k X)" and "sorted ts" "\<forall>t\<in>set ts. t \<le> now"
  shows "quota_ok c now (jset h k ts) X"
proof -
  have "later c now (entries_of (jset h k ts) j) = later c now (times_of j X)" for j
    using q by (cases "j = k") (simp_all add: entries_of_def ts later_later quota_ok_def)
  moreover have "\<forall>e\<in>set (jset h k ts). sorted (snd e) \<and> (\<forall>t\<in>set (snd e). t \<le> now)"
    using q assms(3,4) by (intro ball_jset) (simp_all add: quota_ok_def)
  ultimately show ?thesis using q by (simp add: quota_ok_def)
qed

text \<open>What \<open>quotaWait\<close> keeps when it does not reserve, and what a write adds when it does.\<close>

lemma later_sorted:
  assumes "quota_ok c now h X"
  shows "sorted (later c now (times_of k X))" "\<forall>t\<in>set (later c now (times_of k X)). t \<le> now"
proof -
  have e: "later c now (times_of k X) = later c now (entries_of h k)" using assms by (simp add: quota_ok_def)
  have "sorted (entries_of h k) \<and> (\<forall>t\<in>set (entries_of h k). t \<le> now)"
  proof (cases "jget h k")
    case (Some ts)
    then have "sorted ts \<and> (\<forall>t\<in>set ts. t \<le> now)" using assms jget_in_set [OF Some] by (force simp: quota_ok_def)
    with Some show ?thesis by (simp add: entries_of_def)
  qed (simp add: entries_of_def)
  then show "sorted (later c now (times_of k X))" "\<forall>t\<in>set (later c now (times_of k X)). t \<le> now"
    unfolding e by (auto simp: later_def intro: sorted_wrt_filter)
qed

lemma quota_wait_keeps:
  assumes q: "quota_ok c T (rc_history s) X" and "T \<le> now" and w: "quotaWait c now m params reserve s = (x, s')"
    and "\<not> reserve \<or> x \<noteq> Inr 0"
  shows "quota_ok c now (rc_history s') X \<and> rc_sent s' = rc_sent s"
proof -
  let ?k = "quota_key m params" and ?h = "prune c now (rc_history s)"
  have h: "quota_ok c now ?h X" by (rule quota_pruned [OF q assms(2)])
  note r = recent_entries [OF q assms(2), of ?k]
  have "quota_ok c now (jset ?h ?k (recent_entries c now (rc_history s) ?k)) X"
    using later_sorted [OF h] by (intro quota_set [OF h]) (simp_all add: r)
  then show ?thesis using w assms(4) h quota_mono [OF q assms(2)]
    by (auto simp: quotaWait_def Let_def prune_def [symmetric] recent_entries_def [symmetric] split: if_splits)
qed

lemma quota_wait_reserves:
  assumes q: "quota_ok c T (rc_history s) X" and "T \<le> now" and w: "quotaWait c now m params True s = (Inr 0, s')"
  shows "rc_history s' = jset (if jhas (prune c now (rc_history s)) (quota_key m params)
        then jset (prune c now (rc_history s)) (quota_key m params) (later c now (times_of (quota_key m params) X))
        else prune c now (rc_history s)) (quota_key m params) (later c now (times_of (quota_key m params) X) @ [now])"
    and "int (length (later c now (times_of (quota_key m params) X))) < quota_limit c m" and "rc_sent s' = rc_sent s"
proof -
  have pos: "(of_int \<lceil>x\<rceil> :: rat) = 0 \<longleftrightarrow> \<lceil>x\<rceil> = 0" for x :: rat by simp
  have ceil: "0 < x \<Longrightarrow> \<lceil>x\<rceil> \<noteq> 0" for x :: rat by (simp add: ceiling_eq_iff)
  have max: "max 1 x \<noteq> (0::rat)" for x by (simp add: max_def)
  note r = recent_entries [OF q assms(2)]
  show "rc_history s' = jset (if jhas (prune c now (rc_history s)) (quota_key m params)
        then jset (prune c now (rc_history s)) (quota_key m params) (later c now (times_of (quota_key m params) X))
        else prune c now (rc_history s)) (quota_key m params) (later c now (times_of (quota_key m params) X) @ [now])"
    and "int (length (later c now (times_of (quota_key m params) X))) < quota_limit c m" and "rc_sent s' = rc_sent s"
    using w unfolding quotaWait_def Let_def prune_def [symmetric] recent_entries_def [symmetric] r
    by (auto simp: pos ceil max split: if_splits)
qed

lemma window_snoc: "n < length X \<Longrightarrow> window_of c (X @ [x]) n = window_of c X n"
  by (simp add: window_of_def nth_append)

lemma length_window: "length (filter (\<lambda>y. se_key y = k \<and> t - of_int (li_windowMs c) < se_time y) X) = length (later c t (times_of k X))"
  by (simp add: later_def times_of_def filter_map o_def conj_commute)

lemma quota_send:
  assumes q: "quota_ok c T (rc_history s) X" and "T \<le> now" and w: "quotaWait c now m params True s = (Inr 0, s')"
    and x: "se_key x = quota_key m params" "se_time x = now" "se_method x = m"
  shows "quota_ok c now (rc_history s') (X @ [x])"
proof -
  let ?k = "quota_key m params" and ?h = "prune c now (rc_history s)"
  let ?L = "later c now (times_of ?k X)"
  define h0 where "h0 = (if jhas ?h ?k then jset ?h ?k ?L else ?h)"
  note r = quota_wait_reserves [OF q assms(2) w]
  have pruned: "quota_ok c now ?h X" by (rule quota_pruned [OF q assms(2)])
  note L = later_sorted [OF pruned, of ?k]
  have h0: "quota_ok c now h0 X" using quota_set [OF pruned refl L] pruned by (simp add: h0_def)
  have h': "rc_history s' = jset h0 ?k (?L @ [now])" using r(1) by (simp add: h0_def)
  have t: "times_of j (X @ [x]) = (if j = ?k then times_of ?k X @ [now] else times_of j X)" for j
    using x by (simp add: times_of_def)
  have "later c now (times_of j (X @ [x])) = later c now (entries_of (rc_history s') j)" for j
    using h0 later_later [of now now c "times_of ?k X"] unfolding h' t
    by (cases "j = ?k") (simp_all add: entries_of_def quota_ok_def later_def)
  moreover have "\<forall>e\<in>set (rc_history s'). sorted (snd e) \<and> (\<forall>u\<in>set (snd e). u \<le> now)"
    unfolding h' using h0 L by (intro ball_jset) (auto simp: quota_ok_def sorted_append)
  moreover have "quota_kept c (X @ [x])"
    unfolding quota_kept_def
  proof (intro allI impI)
    fix n assume "n < length (X @ [x])"
    then consider "n < length X" | "n = length X" by fastforce
    then show "int (length (window_of c (X @ [x]) n)) \<le> quota_limit c (se_method ((X @ [x]) ! n))"
    proof cases
      case 1
      then show ?thesis using h0 by (simp add: window_snoc nth_append quota_ok_def quota_kept_def)
    next
      case 2
      then have "length (window_of c (X @ [x]) n) \<le> Suc (length ?L)"
        by (simp add: window_of_def x length_window)
      with r(2) 2 x(3) show ?thesis by simp
    qed
  qed
  ultimately show ?thesis using h0 by (simp add: quota_ok_def h')
qed

section \<open>Steps that write nothing\<close>

definition quota_view :: "rpc_client \<Rightarrow> (string, rat list) jmap \<times> rpc_sent list" where
  "quota_view s = (rc_history s, rc_sent s)"

lemma view_fields [simp]:
  "quota_view (s\<lparr>rc_calls := C\<rparr>) = quota_view s" "quota_view (s\<lparr>rc_waiters := W\<rparr>) = quota_view s"
  "quota_view (s\<lparr>rc_settled := Y\<rparr>) = quota_view s" "quota_view (s\<lparr>rc_queued := q\<rparr>) = quota_view s"
  "quota_view (s\<lparr>rc_pending := P\<rparr>) = quota_view s" "quota_view (s\<lparr>rc_streams := S\<rparr>) = quota_view s"
  "quota_view (s\<lparr>rc_cooldowns := w\<rparr>) = quota_view s" "quota_view (s\<lparr>rc_reserved := n\<rparr>) = quota_view s"
  "quota_view (s\<lparr>rc_nextId := i\<rparr>) = quota_view s" "quota_view (s\<lparr>rc_socket := k\<rparr>) = quota_view s"
  "quota_view (s\<lparr>rc_sockets := ks\<rparr>) = quota_view s" "quota_view (s\<lparr>rc_connecting := k\<rparr>) = quota_view s"
  "quota_view (s\<lparr>rc_closed := b\<rparr>) = quota_view s" "quota_view (s\<lparr>rc_told := t\<rparr>) = quota_view s"
  by (simp_all add: quota_view_def)

lemma view_calls [simp]:
  "quota_view (call_settles i outcome s) = quota_view s" "quota_view (call_goes i k s) = quota_view s"
  "quota_view (call_ends i s) = quota_view s" "quota_view (told t s) = quota_view s"
  "quota_view (socket_update n f s) = quota_view s" "quota_view (socket_destroy n s) = quota_view s"
  "quota_view (publishDisconnection n s) = quota_view s"
  by (simp_all add: call_settles_def call_goes_def call_ends_def told_def socket_update_def socket_destroy_def publishDisconnection_def
    split: option.split call_at.split)

lemma view_drain [simp]: "quota_view (drain_loop W s) = quota_view s"
  by (induction W s rule: drain_loop.induct) simp_all

lemma view_fold [simp]: "quota_view (fold (\<lambda>x. call_settles (f x) (g x)) L s) = quota_view s"
  by (induction L arbitrary: s) simp_all

lemma view_slots [simp]:
  "quota_view (drainCapacity s) = quota_view s" "quota_view (releaseCapacity s) = quota_view s"
  "quota_view (waitForCapacity i s) = quota_view s" "quota_view (give_up i e s) = quota_view s"
  by (simp_all add: drainCapacity_def releaseCapacity_def waitForCapacity_def give_up_def)

lemma view_failAll [simp]: "quota_view (failAll e which s) = quota_view s"
  by (simp add: failAll_def Let_def case_prod_unfold)

lemma view_events [simp]:
  "quota_view (fail_socket e n s) = quota_view s" "quota_view (socket_connected n s) = quota_view s"
  "quota_view (socket_error n s) = quota_view s" "quota_view (socket_closed n s) = quota_view s"
  "quota_view (connecting_done s) = quota_view s" "quota_view (rpc_request i m params b f a s) = quota_view s"
  "quota_view (connect_settled i s) = quota_view s" "quota_view (call_abort i s) = quota_view s"
  "quota_view (rpc_close s) = quota_view s" "quota_view (request_timeout r s) = quota_view s"
  "quota_view (resetStreamTimer k s) = quota_view s" "quota_view (note_cooldown c now m code retry s) = quota_view s"
  by (simp_all add: fail_socket_def socket_connected_def socket_error_def socket_closed_def connecting_done_def rpc_request_def
    connect_settled_def call_abort_def rpc_close_def request_timeout_def resetStreamTimer_def note_cooldown_def raise_cooldown_def Let_def
    split: option.split sum.split call_at.split)

lemma view_fence [simp]: "quota_view (run_fence i x s) = quota_view s"
  by (simp add: run_fence_def Let_def)

lemma view_connect: "rpc_connect s = (r, s') \<Longrightarrow> quota_view s' = quota_view s"
  by (auto simp: rpc_connect_def connect_shared_def Let_def split: if_splits option.splits)

lemma view_replies [simp]:
  "quota_view (fst (receive_error c now r p e s)) = quota_view s" "quota_view (fst (receive_stream r p answer s)) = quota_view s"
  "quota_view (fst (receive_answer r p answer s)) = quota_view s" "quota_view (stream_end k params n t s) = quota_view s"
  "quota_view (fst (stream_chunk consume k params bs t s)) = quota_view s"
  by (simp_all add: receive_error_def receive_stream_def receive_answer_def stream_end_def stream_chunk_def Let_def
    split: option.split js_value.split chunk_answer.split)

lemma view_receive [simp]: "quota_view (fst (receive c now consume message n bs s)) = quota_view s"
  by (simp add: receive_def receive_reply_def receive_stream_message_def Let_def split: option.split js_value.split)

lemma view_data_lines: "quota_view (snd (fst (data_lines c now consume parse n buffer s))) = quota_view s"
proof (induction c now consume parse n buffer s rule: data_lines.induct)
  case (1 c now consume parse n buffer s)
  have got: "quota_view s' = quota_view s" if "receive c now consume message n bs s = (s', ok)" for message bs s' ok
    using view_receive [of c now consume message n bs s] that by simp
  have rest: "quota_view (snd (fst (data_lines c now consume parse n (tl (dropWhile (\<lambda>b. b \<noteq> 10) buffer)) s'))) = quota_view s"
    if "10 \<in> set buffer" "\<not> (takeWhile (\<lambda>b. b \<noteq> 10) buffer = [] \<or> length (takeWhile (\<lambda>b. b \<noteq> 10) buffer) > MAX_FRAME)"
      "parse (takeWhile (\<lambda>b. b \<noteq> 10) buffer) = Some message"
      "receive c now consume message n (length (takeWhile (\<lambda>b. b \<noteq> 10) buffer)) s = (s', True)" for message s'
    using "1.IH" [OF _ refl refl that(2,3) that(4) [symmetric] TrueI] got [OF that(4)] that(1) by simp
  show ?case using rest got by (subst data_lines.simps) (simp add: Let_def split: option.split prod.split)
qed

lemma view_data [simp]: "quota_view (socket_data c now consume parse n chunk s) = quota_view s"
proof -
  have "quota_view s' = quota_view s" if "data_lines c now consume parse n buffer s = ((buffer', s'), ok)" for buffer buffer' s' ok
    using view_data_lines [of c now consume parse n buffer s] that by simp
  then show ?thesis by (simp add: socket_data_def Let_def split: prod.split)
qed

section \<open>Every step\<close>

definition quota_state :: "rpc_limits \<Rightarrow> rat \<Rightarrow> rpc_client \<Rightarrow> bool" where
  "quota_state c T s \<longleftrightarrow> quota_ok c T (rc_history s) (rc_sent s)"

lemma quota_same: "quota_state c T s \<Longrightarrow> T \<le> now \<Longrightarrow> quota_view s' = quota_view s \<Longrightarrow> quota_state c now s'"
  by (auto simp: quota_state_def quota_view_def intro: quota_mono)

lemma quota_asks:
  assumes "quota_state c T s" and "T \<le> now" and "quotaWait c now m params reserve s = (x, s1)" and "\<not> reserve \<or> x \<noteq> Inr 0"
    and "quota_view s2 = quota_view s1"
  shows "quota_state c now s2"
proof -
  have "quota_state c now s1" using quota_wait_keeps [OF assms(1) [unfolded quota_state_def] assms(2-4)] by (simp add: quota_state_def)
  then show ?thesis by (rule quota_same [OF _ order_refl assms(5)])
qed

lemma view_send: "quota_view (rpc_send i now a request x s) = (rc_history s, rc_sent s @ [\<lparr>se_call = i, se_request = request,
    se_method = ca_method a, se_key = quota_key (ca_method a) (ca_params a), se_time = now\<rparr>])"
  by (simp add: rpc_send_def Let_def) (simp add: quota_view_def)

lemma pace_quota:
  assumes "quota_state c T s" and "T \<le> now"
  shows "quota_state c now (pace_turn c now i s)"
proof (cases "jget (rc_calls s) i")
  case (Some a)
  obtain x s1 where q: "quotaWait c now (ca_method a) (ca_params a) False s = (x, s1)" by fastforce
  obtain y s2 where n: "rpc_connect s1 = (y, s2)" by fastforce
  have "quota_state c now s'" if "quota_view s' = quota_view s \<or> quota_view s' = quota_view s1" for s'
    using quota_same [OF assms] quota_asks [OF assms q] that by blast
  then show ?thesis using Some view_connect [OF n] by (simp add: pace_turn_def q n split: sum.split)
qed (simp add: pace_turn_def quota_same [OF assms])

lemma after_fence_quota:
  assumes "quota_state c T s" and "T \<le> now"
  shows "quota_state c now (after_fence c i now request x s)"
proof (cases "jget (rc_calls s) i")
  case (Some a)
  obtain y s1 where q: "quotaWait c now (ca_method a) (ca_params a) True s = (y, s1)" by fastforce
  have same: "quota_state c now s'" if "quota_view s' = quota_view s" for s' by (rule quota_same [OF assms that])
  have kept: "quota_state c now s'" if "y \<noteq> Inr 0" "quota_view s' = quota_view s1" for s'
    using quota_asks [OF assms q _ that(2)] that(1) by simp
  have sent: "quota_state c now (rpc_send i now a request x s1)" if "y = Inr 0"
  proof -
    note w = q [unfolded that]
    have "rc_sent s1 = rc_sent s" by (rule quota_wait_reserves(3) [OF assms(1) [unfolded quota_state_def] assms(2) w])
    then show ?thesis using view_send [of i now a request x s1]
        quota_send [OF assms(1) [unfolded quota_state_def] assms(2) w, of "\<lparr>se_call = i, se_request = request,
    se_method = ca_method a, se_key = quota_key (ca_method a) (ca_params a), se_time = now\<rparr>"]
      by (simp add: quota_state_def quota_view_def)
  qed
  show ?thesis using Some same kept sent by (simp add: after_fence_def q split: sum.split)
qed (simp add: after_fence_def quota_same [OF assms])

lemma granted_quota:
  assumes "quota_state c T s" and "T \<le> now"
  shows "quota_state c now (call_granted c i now x s)"
proof (cases "jget (rc_calls s) i")
  case (Some a)
  obtain y s1 where q: "quotaWait c now (ca_method a) (ca_params a) False s = (y, s1)" by fastforce
  have same: "quota_state c now s'" if "quota_view s' = quota_view s" for s' by (rule quota_same [OF assms that])
  have kept: "quota_state c now s'" if "quota_view s' = quota_view s1" for s' using quota_asks [OF assms q _ that] by simp
  have "quota_state c now (after_fence c i now request x s')" if "quota_view s' = quota_view s1" for request s'
    by (rule after_fence_quota [OF kept [OF that] order_refl])
  then show ?thesis using Some same kept by (simp add: call_granted_def q Let_def split: sum.split fence.split)
qed (simp add: call_granted_def quota_same [OF assms])

lemma step_quota:
  assumes "quota_state c T s" and "T \<le> fst e"
  shows "quota_state c (fst e) (rpc_step c parse s e)"
proof -
  obtain now v where e: "e = (now, v)" by fastforce
  with assms have t: "quota_state c T s" "T \<le> now" by simp_all
  have same: "quota_state c now s'" if "quota_view s' = quota_view s" for s' by (rule quota_same [OF t that])
  have "quota_state c now (pace_turn c now i s')" if "quota_view s' = quota_view s" for i s'
    by (rule pace_quota [OF same [OF that] order_refl])
  then show ?thesis using same granted_quota [OF t] by (simp add: e rpc_step_def split: rpc_event.split)
qed

lemma run_quota: "sorted (map fst es) \<Longrightarrow> \<forall>e\<in>set es. fst e \<le> T \<Longrightarrow> quota_state c T (rpc_run c parse rpc_new es)"
proof (induction es arbitrary: T rule: rev_induct)
  case Nil
  show ?case by (simp add: rpc_run_def rpc_new_def quota_state_def quota_ok_def times_of_def entries_of_def quota_kept_def)
next
  case (snoc e es)
  then have "quota_state c (fst e) (rpc_run c parse rpc_new es)" by (simp add: sorted_append)
  from step_quota [OF this order_refl] snoc.prems show ?case
    by (auto simp: rpc_run_def quota_state_def intro: quota_mono)
qed

text \<open>
  Property C37: the quota of the server is never exceeded. Whatever the calls, connections and fences do, as
  long as the clock does not run backwards, the writes under one quota key within any window of
  \<open>windowMs\<close> that ends with a write are at most the limit of its method: eight for bounties of a block and for batches of
  transactions, the configured quota otherwise.
\<close>

theorem rpc_quota_kept:
  assumes "sorted (map fst events)" and "n < length (rc_sent (rpc_run c parse rpc_new events))"
  shows "let X = rc_sent (rpc_run c parse rpc_new events) in
    int (length (filter (\<lambda>y. se_key y = se_key (X ! n) \<and> se_time (X ! n) - of_int (li_windowMs c) < se_time y) (take (Suc n) X)))
      \<le> quota_limit c (se_method (X ! n))"
proof -
  obtain T where T: "\<forall>e\<in>set events. fst e \<le> T"
    by (metis List.finite_set Max_ge finite_imageI imageI)
  from run_quota [OF assms(1) T] assms(2) show ?thesis
    by (simp add: Let_def quota_state_def quota_ok_def quota_kept_def window_of_def)
qed

theorem rpc_quota_kept_witness:
  "\<exists>s. s = rpc_run ex_limits (\<lambda>_. None) rpc_new ex_lost \<and> rc_sent s = [ex_sent]
     \<and> int (length (filter (\<lambda>y. se_key y = se_key ex_sent \<and> se_time ex_sent - 60000 < se_time y) [ex_sent])) \<le> 48"
proof -
  have "sorted (map fst ex_lost)" by (simp add: ex_lost_def)
  moreover obtain s where s: "rpc_run ex_limits (\<lambda>_. None) rpc_new ex_lost = s" "rc_sent s = [ex_sent]"
    using ex_lost_run [of "\<lambda>_. None"] by blast
  ultimately have "int (length (filter (\<lambda>y. se_key y = se_key ex_sent \<and> se_time ex_sent - of_int (li_windowMs ex_limits) < se_time y) [ex_sent]))
      \<le> quota_limit ex_limits (se_method ex_sent)"
    using rpc_quota_kept [of ex_lost 0 ex_limits "\<lambda>_. None"] by (simp add: Let_def)
  then show ?thesis using s by (simp add: ex_limits_def ex_sent_def quota_limit_def)
qed

end
