(* ===== verification/Spec2Isabelle.thy ===== *)
theory Spec2Isabelle
  imports Claim_Tx Claim_Stats Connection_Policy Notifications Scheduler_Laws Config Sync_Laws Amount_Input Text_Input Hd_Sync Pool_Laws Preferences Mobile_Forms Mobile_Receipts Live_Balance Live_Awake Rpc_Quota
begin

text \<open>
  A model of Connect Wallet, a light wallet for connectcoin: an Electron application
  (\<open>src/src\<close>) and a mobile application (\<open>src/mobile/src\<close>) over a common core in JavaScript. The wallet
  asks a server for the rows of its addresses and for raw transactions, checks what it gets, plans and
  signs payments, and can earn bounties (outputs that pay for a proof that a TLS server answered) by
  running a helper process that produces proofs.

  \<^bold>\<open>How the parts work together.\<close> Untrusted input enters through the validators (configuration, tips, rows,
  receipts, links, forms, helper answers); the address synchronization turns validated rows into a
  snapshot; a payment plan selects coins of the snapshot, the builder loads and verifies the parent
  transactions and signs; the claim path takes a bounty from the scheduler, prepares the claim
  transaction, sends its challenge to the helper pool and attaches the proof. Small machines decide
  when to refresh, publish, probe and show.

  \<^bold>\<open>Foundations.\<close> \<open>Wallet_Prelude\<close> (errors, the result type \<open>'a res\<close>, \<open>bindE\<close>, \<open>mapE\<close>, \<open>foldE\<close>, the stable sort),
  \<open>Js_Text\<close> (renderings of numbers and bytes), \<open>Js_Units\<close> (UTF-16 texts, trimming, percent encoding),
  \<open>Js_Value\<close> (values that arrive from outside: JSON and structured messages), \<open>Js_Number\<close> (double arithmetic
  as an abstract record of operations), \<open>Js_Map\<close> (the insertion-ordered map with its
  contract, the locale \<open>js_map\<close>).

  \<^bold>\<open>Transactions and money\<close> (\<open>src/src/core/transaction.mjs\<close>, \<open>crypto.mjs\<close>).
  \<^item> \<open>Money\<close>: \<open>amountInConnects\<close>, \<open>parseCoinAmount\<close>, \<open>formatCoinAmount\<close>, and the copy of this arithmetic in
    \<open>payment-uri.mjs\<close>. Round trips and the agreement of the two copies.
  \<^item> \<open>Wire\<close>, \<open>Transaction\<close>, \<open>Transaction_Fields\<close>, \<open>Transaction_Parse\<close>: the reader, serializer, parser and the
    framing-only identity check. The locale \<open>codec\<close> is the contract of one field; the fields interpret
    it, and the parser is shown to accept exactly the encodings of well-formed transactions.
  \<^item> \<open>Address\<close>: address texts, networks, domain names, work targets.
  \<^item> \<open>Payment\<close>, \<open>Payment_Size\<close>, \<open>Payment_Proofs\<close>, \<open>Payment_Laws\<close>: \<open>paymentPlan\<close> with its coin selection; size,
    fee, change, conservation, refusal.
  \<^item> \<open>Funding_Cache\<close> (\<open>funding-cache.mjs\<close>), \<open>Funding\<close>: the bounded caches and \<open>verifyFunding\<close>; caches are
    transparent and bounded. A result \<open>None\<close> of a cache operation is a loop that does not return.
  \<^item> \<open>Payment_Build\<close>, \<open>Payment_Build_Laws\<close>: \<open>validatePaymentFundingPayload\<close>, \<open>buildPayment\<close> and
    \<open>payment-worker.mjs\<close>: only verified coins are signed, and verified coins always are.
  \<^item> \<open>Claim_Tx\<close>: \<open>claimChallenge\<close>, \<open>prepareClaim\<close>, \<open>attachClaimProof\<close>.

  \<^bold>\<open>Claims\<close> (\<open>src/src/core\<close>).
  \<^item> \<open>Claim_Priority\<close>, \<open>Claim_Stats\<close> (\<open>claim-priority.mjs\<close>): stop counts, the order of bounties, the sliding
    hour of a domain, refined to the history of its connections.
  \<^item> \<open>Connection_Policy\<close> (\<open>claim-connection-policy.mjs\<close>): the table of recovery probes.
  \<^item> \<open>Ready_Index\<close>, \<open>Indexed_Heap\<close>, \<open>Claim_Scheduler\<close>, \<open>Scheduler_Laws\<close> (\<open>claim-scheduler.mjs\<close>): the Fenwick
    tree refines a list of counts, the heap refines a finite map with its least value on top, promotion
    ends with no deadline in the past, turns are committed once. The bound of \<open>promote_loop\<close> is the number
    of deadlines: each round takes one of them.
  \<^item> \<open>Claim_Context\<close> (\<open>claims.mjs\<close>): options, the public context that crosses to the helper, the one-shot
    runner as a machine over output chunks. \<open>Claim_Pool\<close>, \<open>Pool_Laws\<close> (\<open>claim-pool.mjs\<close>,
    \<open>claims-helper-policy.mjs\<close>): the persistent helper; every request settles at most once and the counters
    that pace starts are true. Reading lines ends because each line shortens the buffer.

  \<^bold>\<open>Address index.\<close> \<open>Address_Sync\<close>, \<open>Sync_Laws\<close> (\<open>address-sync.mjs\<close>) and \<open>Hd_Sync\<close> (\<open>mobile/src/hd-sync.mjs\<close>):
  pages, baselines, journals and snapshots; the server is a function from the number of the request and
  the request to an answer. At most 1000 pages and 3 rounds, as in the code, so both loops are
  recursions on these bounds. \<open>Claim_Receipt\<close>'s validator is part of \<open>Address_Sync\<close>.

  \<^bold>\<open>Live updates.\<close> \<open>Live_Updates\<close>, \<open>Live_Laws\<close>, \<open>Live_Books\<close>, \<open>Live_Awake\<close> (\<open>live-updates.mjs\<close>): the confirmation
  of a changed tip, and the machine that subscribes to the tip, to bounties and to at most 100 addresses
  with several workers at once, retries, and holds address changes back. Every uninterrupted run of the
  source is an event, so an interleaving is a list of events. \<open>Live_Laws\<close> relates a confirmed tip to the
  chain window of the server, \<open>Live_Books\<close> shows that subscriptions stay booked, \<open>Live_Awake\<close> that an active
  machine never stops without a retry.

  \<^bold>\<open>The connection to the server\<close> (\<open>rpc.mjs\<close>). \<open>Rpc_Params\<close>: what may leave the wallet. \<open>Rpc_Client\<close>: sockets, calls,
  slots, quota, framing, replies, streams, timers and closing as a machine over the events of the platform;
  the loop over complete lines ends because each line shortens the buffer. \<open>Rpc_Books\<close>, \<open>Rpc_Laws\<close>: the
  books over all calls, kept by every event, from which the bounds and the honesty of reported outcomes
  follow. \<open>Rpc_Quota\<close>: the history of writes is exact in the current window, so the quota holds in every one.

  \<^bold>\<open>Machines of the window.\<close> \<open>Notifications\<close> (\<open>event-refresh.mjs\<close>, \<open>state-publisher.mjs\<close>, \<open>startup-timing.mjs\<close>);
  \<open>Input_Field\<close>, \<open>Amount_Input\<close>, \<open>Text_Input\<close> (\<open>ui/amount-input.mjs\<close>, \<open>ui/text-input.mjs\<close>): events of the
  browser, its native edits and microtasks are steps; \<open>Preferences\<close>, \<open>Numeric_Value\<close>
  (\<open>ui/preferences.mjs\<close>, \<open>ui/numeric-value.mjs\<close>).

  \<^bold>\<open>Validators and mobile.\<close> \<open>Config\<close> (\<open>config.mjs\<close>, \<open>connection-limits.mjs\<close>), \<open>Payment_Uri\<close>
  (\<open>payment-uri.mjs\<close>), \<open>Mobile_Model\<close> (\<open>model.mjs\<close>), \<open>Mobile_Forms\<close>, \<open>Mobile_Receipts\<close>, \<open>Live_Balance\<close>
  (the files of the same purpose under \<open>src/mobile/src\<close>).

  \<^bold>\<open>Parameters.\<close> Code that is not in the repository is an argument: the hash \<open>sha\<close>, the test \<open>on_curve\<close> of a
  lifted key, the Bech32m library (a record with a stand-in instance for the examples), Schnorr
  signing and key derivation, the parser of JSON and of URLs, the double arithmetic, the server
  (\<open>ask\<close>), the abort signal (\<open>alive\<close>), \<open>frame_size\<close> and \<open>encoded\<close> of the host. Promises, timers and events are
  steps of machines whose order is arbitrary; the clock is an input of the step.

  \<^bold>\<open>Not modelled.\<close> The asynchronous shells that own sockets, files, processes and windows
  (\<open>wallet-service.mjs\<close>, \<open>claims-engine.mjs\<close>, \<open>bounty-discovery.mjs\<close>, \<open>vault.mjs\<close>,
  \<open>diagnostics.mjs\<close>, \<open>main.mjs\<close>, \<open>ui/app.mjs\<close>, the mobile sessions and \<open>app.mjs\<close>), file operations of
  \<open>config.mjs\<close>, the start of the processes in \<open>claims.mjs\<close>, and code in other languages. Error texts are
  constructors of error types; stack traces and log lines are left out. The sliding
  statistics and the priorities take doubles as an abstract type, so no claim is made about their rounding.
  In the clients of the server, listeners are not run inside the machine; what they are told is recorded.
  The wallet service and the claims engine compose the parts above under one mutable state
  and the callbacks of the platform; their decisions are those of the parts, and only the order in
  which they call them is left out.
\<close>

end
